(* ===== verification/Node_Prelude.thy ===== *)
theory Node_Prelude
  imports Main "HOL-Library.AList" "HOL-Library.Word" "HOL-Library.Sublist" "HOL-Library.Code_Target_Nat"
begin

text \<open>
  Shared vocabulary of the development: the errors the node throws, JavaScript's insertion-ordered
  \<^verbatim>\<open>Map\<close> and plain objects as association lists, the string primitives the sources call
  (\<^verbatim>\<open>trim\<close>, \<^verbatim>\<open>toLowerCase\<close>, \<^verbatim>\<open>startsWith\<close>, \<^verbatim>\<open>includes\<close>, \<^verbatim>\<open>split\<close>), byte buffers, and the generic
  lemmas on them that the component theories use through the collections below.

  Conventions used everywhere:
  \<^item> a thrown error is the \<open>Inl\<close> of a sum; an operation on mutable state returns the state too,
    since a JavaScript \<^verbatim>\<open>throw\<close> does not undo what was assigned before it;
  \<^item> instants are milliseconds since the epoch as \<^typ>\<open>int\<close>; ISO timestamps that the sources
    print with \<^verbatim>\<open>toISOString\<close> and read back with \<^verbatim>\<open>Date.parse\<close> are kept as those milliseconds;
  \<^item> a JavaScript string is its UTF-8 bytes, a \<^typ>\<open>string\<close>; case mapping and trimming act on
    the ASCII range;
  \<^item> an optional field that may be \<^verbatim>\<open>undefined\<close> is an option.
\<close>

named_theorems jsmap_simps \<open>laws of JavaScript maps\<close>

section \<open>Errors\<close>

text \<open>\<^verbatim>\<open>localError(statusCode, code)\<close> carries an HTTP status and a stable code; every other
  \<^verbatim>\<open>Error\<close> is only a message.\<close>

datatype node_error = LocalError nat string | PlainError string

type_synonym 'a result = "node_error + 'a"

fun error_code :: "node_error \<Rightarrow> string option" where
  "error_code (LocalError _ c) = Some c"
| "error_code (PlainError _) = None"

text \<open>The value of an operation that did not throw.\<close>

definition ok :: "'e + 'a \<Rightarrow> 'a option" where
  "ok r = (case r of Inl _ \<Rightarrow> None | Inr x \<Rightarrow> Some x)"

lemma ok_simps [simp]: "ok (Inl e) = None" "ok (Inr x) = Some x"
  by (simp_all add: ok_def)

lemma ok_Some_iff [simp]: "ok r = Some x \<longleftrightarrow> r = Inr x"
  by (cases r) auto

text \<open>\<^verbatim>\<open>const x = m; ...\<close> where \<open>m\<close> may throw.\<close>

definition res_bind :: "'e + 'a \<Rightarrow> ('a \<Rightarrow> 'e + 'b) \<Rightarrow> 'e + 'b" where
  "res_bind m f = (case m of Inl e \<Rightarrow> Inl e | Inr x \<Rightarrow> f x)"

lemma res_bind_simps [simp]: "res_bind (Inl e) f = Inl e" "res_bind (Inr x) f = f x"
  by (simp_all add: res_bind_def)

lemma res_bind_Inr: "res_bind m f = Inr y \<longleftrightarrow> (\<exists>x. m = Inr x \<and> f x = Inr y)"
  by (cases m) simp_all

section \<open>JavaScript maps\<close>

text \<open>
  A \<^verbatim>\<open>Map\<close>, or an object used as a dictionary, iterates in insertion order; \<^verbatim>\<open>set\<close> on a present
  key keeps the key's position. The library's \<^const>\<open>AList.update\<close> and \<^const>\<open>AList.delete\<close> do
  exactly that on a list with distinct keys.
\<close>

type_synonym ('k, 'v) jsmap = "('k \<times> 'v) list"

abbreviation jm_get :: "('k, 'v) jsmap \<Rightarrow> 'k \<Rightarrow> 'v option" where
  "jm_get m k \<equiv> map_of m k"

abbreviation jm_set :: "'k \<Rightarrow> 'v \<Rightarrow> ('k, 'v) jsmap \<Rightarrow> ('k, 'v) jsmap" where
  "jm_set \<equiv> AList.update"

abbreviation jm_delete :: "'k \<Rightarrow> ('k, 'v) jsmap \<Rightarrow> ('k, 'v) jsmap" where
  "jm_delete \<equiv> AList.delete"

abbreviation jm_size :: "('k, 'v) jsmap \<Rightarrow> nat" where
  "jm_size \<equiv> length"

abbreviation jm_keys :: "('k, 'v) jsmap \<Rightarrow> 'k list" where
  "jm_keys m \<equiv> map fst m"

abbreviation jm_values :: "('k, 'v) jsmap \<Rightarrow> 'v list" where
  "jm_values m \<equiv> map snd m"

definition jm_has :: "('k, 'v) jsmap \<Rightarrow> 'k \<Rightarrow> bool" where
  "jm_has m k \<longleftrightarrow> jm_get m k \<noteq> None"

definition wf_map :: "('k, 'v) jsmap \<Rightarrow> bool" where
  "wf_map m \<longleftrightarrow> distinct (jm_keys m)"

lemma jm_get_set [jsmap_simps, simp]:
  "jm_get (jm_set k v m) k' = (if k' = k then Some v else jm_get m k')"
  by (simp add: update_conv')

lemma jm_get_delete [jsmap_simps, simp]:
  "jm_get (jm_delete k m) k' = (if k' = k then None else jm_get m k')"
  by (simp add: delete_conv')

lemma wf_map_Nil [simp]: "wf_map []"
  by (simp add: wf_map_def)

lemma wf_map_set [simp, intro]: "wf_map m \<Longrightarrow> wf_map (jm_set k v m)"
  by (simp add: wf_map_def distinct_update)

lemma wf_map_delete [simp, intro]: "wf_map m \<Longrightarrow> wf_map (jm_delete k m)"
  by (simp add: wf_map_def distinct_delete)

lemma wf_map_filter [simp, intro]: "wf_map m \<Longrightarrow> wf_map (filter P m)"
  by (simp add: wf_map_def distinct_map_filter)

lemma wf_map_tl [simp, intro]: "wf_map m \<Longrightarrow> wf_map (tl m)"
  by (cases m) (simp_all add: wf_map_def)

lemma jm_has_iff: "jm_has m k \<longleftrightarrow> k \<in> set (jm_keys m)"
  by (simp add: jm_has_def map_of_eq_None_iff)

lemma jm_size_set: "jm_size (jm_set k v m) = (if jm_has m k then jm_size m else Suc (jm_size m))"
  by (induction m) (auto simp: jm_has_def split: if_splits)

lemma jm_size_set_le: "jm_size (jm_set k v m) \<le> Suc (jm_size m)"
  by (simp add: jm_size_set)

lemma jm_size_set_has: "jm_has m k \<Longrightarrow> jm_size (jm_set k v m) = jm_size m"
  by (simp add: jm_size_set)

lemma jm_size_delete_le: "jm_size (jm_delete k m) \<le> jm_size m"
  by (simp add: AList.delete_eq)

lemma jm_delete_absent: "\<not> jm_has m k \<Longrightarrow> jm_delete k m = m"
  by (induction m) (auto simp: jm_has_def AList.delete_eq split: if_splits)

lemma jm_keys_set_absent: "\<not> jm_has m k \<Longrightarrow> jm_set k v m = m @ [(k, v)]"
  by (induction m) (auto simp: jm_has_def split: if_splits)

lemma jm_keys_delete: "set (jm_keys (jm_delete k m)) = set (jm_keys m) - {k}"
  by (auto simp: AList.delete_eq image_iff)

lemma jm_size_delete_present:
  assumes "wf_map m" and "jm_has m k"
  shows "Suc (jm_size (jm_delete k m)) = jm_size m"
proof -
  have "jm_size (jm_delete k m) = card (set (jm_keys (jm_delete k m)))"
    using assms(1) distinct_card [of "jm_keys (jm_delete k m)"]
    by (simp add: wf_map_def distinct_delete del: delete_conv')
  also have "\<dots> = card (set (jm_keys m)) - 1"
    using assms(2) by (simp only: jm_keys_delete jm_has_iff card_Diff_singleton)
  also have "card (set (jm_keys m)) = jm_size m"
    using assms(1) distinct_card [of "jm_keys m"] by (simp add: wf_map_def)
  finally show ?thesis
    using assms(2) by (cases m) (auto simp: jm_has_def)
qed

lemma jm_get_filter:
  assumes "wf_map m"
  shows "jm_get (filter (\<lambda>(k, v). P k v) m) k =
    (case jm_get m k of None \<Rightarrow> None | Some v \<Rightarrow> if P k v then Some v else None)"
  using assms
proof (induction m)
  case Nil
  then show ?case by simp
next
  case (Cons a m)
  then show ?case
    by (cases a) (auto simp: wf_map_def map_of_eq_None_iff [THEN iffD2] image_iff
        map_of_eq_None_iff split: option.splits dest: map_of_SomeD)
qed

lemma find_SomeD: "find P xs = Some x \<Longrightarrow> x \<in> set xs \<and> P x"
  by (induction xs) (auto split: if_splits)

lemma jm_get_memD: "jm_get m k = Some v \<Longrightarrow> (k, v) \<in> set m"
  by (rule map_of_SomeD)

lemma jm_get_memI: "wf_map m \<Longrightarrow> (k, v) \<in> set m \<Longrightarrow> jm_get m k = Some v"
  by (simp add: wf_map_def)

lemma set_jm_set: "set (jm_set k v m) \<subseteq> insert (k, v) (set m)"
  by (induction m) auto

lemma set_jm_set_wf: "wf_map m \<Longrightarrow> set (jm_set k v m) = insert (k, v) {(k', v') \<in> set m. k' \<noteq> k}"
proof (induction m)
  case (Cons a m)
  then show ?case by (cases a) (auto simp: wf_map_def rev_image_eqI)
qed simp

lemma set_jm_delete: "set (jm_delete k m) = {(k', v) \<in> set m. k' \<noteq> k}"
  by (auto simp: AList.delete_eq)

section \<open>Strings\<close>

text \<open>\<^verbatim>\<open>\s\<close> and \<^verbatim>\<open>String.prototype.trim\<close>, on ASCII: tab, line feed, vertical tab, form feed,
  carriage return, space.\<close>

definition char_code :: "char \<Rightarrow> nat" where
  "char_code c = of_char c"

definition is_ws :: "char \<Rightarrow> bool" where
  "is_ws c \<longleftrightarrow> char_code c \<in> {9, 10, 11, 12, 13, 32}"

definition is_digit :: "char \<Rightarrow> bool" where
  "is_digit c \<longleftrightarrow> 48 \<le> char_code c \<and> char_code c \<le> 57"

definition is_upper :: "char \<Rightarrow> bool" where
  "is_upper c \<longleftrightarrow> 65 \<le> char_code c \<and> char_code c \<le> 90"

definition is_lower :: "char \<Rightarrow> bool" where
  "is_lower c \<longleftrightarrow> 97 \<le> char_code c \<and> char_code c \<le> 122"

definition is_alnum :: "char \<Rightarrow> bool" where
  "is_alnum c \<longleftrightarrow> is_digit c \<or> is_upper c \<or> is_lower c"

text \<open>\<^verbatim>\<open>[A-Za-z0-9_-]\<close>, the alphabet of base64url.\<close>

definition is_b64url :: "char \<Rightarrow> bool" where
  "is_b64url c \<longleftrightarrow> is_alnum c \<or> c = CHR ''_'' \<or> c = CHR ''-''"

text \<open>\<^verbatim>\<open>[0-9a-f]\<close>, with and without the \<^verbatim>\<open>i\<close> flag.\<close>

definition is_lower_hex :: "char \<Rightarrow> bool" where
  "is_lower_hex c \<longleftrightarrow> is_digit c \<or> (97 \<le> char_code c \<and> char_code c \<le> 102)"

definition is_hex :: "char \<Rightarrow> bool" where
  "is_hex c \<longleftrightarrow> is_lower_hex c \<or> (65 \<le> char_code c \<and> char_code c \<le> 70)"

definition trim :: "string \<Rightarrow> string" where
  "trim s = rev (dropWhile is_ws (rev (dropWhile is_ws s)))"

definition char_lower :: "char \<Rightarrow> char" where
  "char_lower c = (if is_upper c then char_of (char_code c + 32) else c)"

definition char_upper :: "char \<Rightarrow> char" where
  "char_upper c = (if is_lower c then char_of (char_code c - 32) else c)"

definition to_lower :: "string \<Rightarrow> string" where
  "to_lower s = map char_lower s"

definition to_upper :: "string \<Rightarrow> string" where
  "to_upper s = map char_upper s"

definition starts_with :: "string \<Rightarrow> string \<Rightarrow> bool" where
  "starts_with s p \<longleftrightarrow> take (length p) s = p"

fun str_includes :: "string \<Rightarrow> string \<Rightarrow> bool" where
  "str_includes [] t \<longleftrightarrow> t = []"
| "str_includes (c # s) t \<longleftrightarrow> starts_with (c # s) t \<or> str_includes s t"

fun split_on :: "char \<Rightarrow> string \<Rightarrow> string list" where
  "split_on d [] = [[]]"
| "split_on d (c # s) =
     (if c = d then [] # split_on d s
      else (case split_on d s of [] \<Rightarrow> [[c]] | w # ws \<Rightarrow> (c # w) # ws))"

fun join_with :: "string \<Rightarrow> string list \<Rightarrow> string" where
  "join_with sep [] = []"
| "join_with sep [w] = w"
| "join_with sep (w # ws) = w @ sep @ join_with sep ws"

text \<open>\<^verbatim>\<open>a || b\<close> on strings: the empty string is falsy.\<close>

definition str_or :: "string \<Rightarrow> string \<Rightarrow> string" where
  "str_or a b = (if a = [] then b else a)"

definition opt_str :: "string option \<Rightarrow> string" where
  "opt_str x = (case x of None \<Rightarrow> [] | Some s \<Rightarrow> s)"

lemma opt_str_simps [simp]: "opt_str None = []" "opt_str (Some s) = s"
  by (simp_all add: opt_str_def)

lemma char_code_inj: "char_code c = char_code d \<longleftrightarrow> c = d"
  by (simp add: char_code_def)

lemma split_on_nonempty [simp]: "split_on d s \<noteq> []"
  by (induction s) (auto split: list.splits)

lemma join_split: "join_with [d] (split_on d s) = s"
proof (induction s)
  case Nil
  then show ?case by simp
next
  case (Cons c s)
  then show ?case
    by (cases "split_on d s"; cases "tl (split_on d s)") auto
qed

lemma split_on_no_sep: "w \<in> set (split_on d s) \<Longrightarrow> d \<notin> set w"
proof (induction s arbitrary: w)
  case Nil
  then show ?case by simp
next
  case (Cons c s)
  then show ?case
    by (cases "split_on d s") (auto split: if_splits)
qed

lemma join_with_infix:
  assumes "w \<in> set ws"
  obtains a b where "join_with sep ws = a @ w @ b"
proof -
  have "\<exists>a b. join_with sep ws = a @ w @ b"
    using assms
  proof (induction sep ws rule: join_with.induct)
    case (3 sep v u us)
    show ?case
    proof (cases "w = v")
      case True
      then show ?thesis by (metis append_Nil join_with.simps(3))
    next
      case False
      then obtain a b where "join_with sep (u # us) = a @ w @ b" using 3 by auto
      then have "join_with sep (v # u # us) = (v @ sep @ a) @ w @ b" by simp
      then show ?thesis by blast
    qed
  qed (auto intro: exI [of _ "[]"])
  then show thesis using that by blast
qed

lemma join_ends:
  "fs \<noteq> [] \<Longrightarrow> \<exists>a b. join_with sep fs = hd fs @ a \<and> join_with sep fs = b @ last fs"
proof (induction fs)
  case (Cons f fs)
  show ?case
  proof (cases fs)
    case Nil
    then show ?thesis by simp
  next
    case (Cons g gs)
    obtain b where "join_with sep fs = b @ last fs" using Cons.IH Cons by auto
    then show ?thesis using Cons by auto
  qed
qed simp

lemma set_join: "set (join_with sep fs) \<subseteq> set sep \<union> \<Union> (set ` set fs)"
  by (induction sep fs rule: join_with.induct) auto

lemma split_on_infix:
  assumes "w \<in> set (split_on d s)"
  obtains a b where "s = a @ w @ b"
  using join_with_infix [OF assms, of "[d]"] join_split [of d s] by metis

lemma starts_with_append [simp]: "starts_with (p @ s) p"
  by (simp add: starts_with_def)

lemma starts_with_iff: "starts_with s p \<longleftrightarrow> (\<exists>r. s = p @ r)"
  by (metis append_eq_conv_conj starts_with_def starts_with_append)

lemma starts_with_trans: "starts_with s p \<Longrightarrow> starts_with p q \<Longrightarrow> starts_with s q"
  by (auto simp: starts_with_iff)

lemma str_includes_iff: "str_includes s t \<longleftrightarrow> (\<exists>a b. s = a @ t @ b)"
proof (induction s)
  case Nil
  then show ?case by auto
next
  case (Cons c s)
  show ?case
    unfolding str_includes.simps Cons.IH starts_with_iff
    by (metis append_Cons append_Nil neq_Nil_conv list.inject)
qed

lemma length_to_lower [simp]: "length (to_lower s) = length s"
  by (simp add: to_lower_def)

section \<open>Bytes\<close>

type_synonym byte = "8 word"
type_synonym bytes = "byte list"

definition bytes_of_string :: "string \<Rightarrow> bytes" where
  "bytes_of_string s = map of_char s"

definition string_of_bytes :: "bytes \<Rightarrow> string" where
  "string_of_bytes bs = map (\<lambda>b. char_of (unat b)) bs"

lemma char_of_unat_of_char [simp]: "char_of (unat (of_char c :: byte)) = c"
proof -
  have "unat (of_char c :: byte) = unat (of_nat (of_char c) :: byte)"
    by (simp only: of_nat_of_char)
  also have "\<dots> = of_char c mod 256"
    by (simp only: unat_of_nat) simp
  finally show ?thesis by simp
qed

lemma string_bytes_roundtrip [simp]: "string_of_bytes (bytes_of_string s) = s"
  by (simp add: string_of_bytes_def bytes_of_string_def comp_def)

lemma length_bytes_of_string [simp]: "length (bytes_of_string s) = length s"
  by (simp add: bytes_of_string_def)

lemma bytes_of_string_append: "bytes_of_string (s @ t) = bytes_of_string s @ bytes_of_string t"
  by (simp add: bytes_of_string_def)

lemma bytes_of_string_inj [simp]: "bytes_of_string s = bytes_of_string t \<longleftrightarrow> s = t"
  by (metis string_bytes_roundtrip)

section \<open>Interfaces shared by the components\<close>

text \<open>
  A codec: an encoder that may refuse, a decoder that may refuse, and the law that a well-formed
  value read back is its canonical form. The lemmas lift the law to sequences of messages and
  show that no two different values share a text.
\<close>

locale codec =
  fixes enc :: "'a \<Rightarrow> 'b option" and dec :: "'b \<Rightarrow> 'a option"
    and good :: "'a \<Rightarrow> bool" and canon :: "'a \<Rightarrow> 'a"
  assumes dec_enc: "enc x = Some b \<Longrightarrow> good x \<Longrightarrow> dec b = Some (canon x)"
begin

lemma unambiguous: "enc x = Some b \<Longrightarrow> enc y = Some b \<Longrightarrow> good x \<Longrightarrow> good y \<Longrightarrow> canon x = canon y"
  using dec_enc [of x b] dec_enc [of y b] by simp

lemma dec_enc_all:
  "map enc xs = map Some bs \<Longrightarrow> (\<And>x. x \<in> set xs \<Longrightarrow> good x) \<Longrightarrow> map dec bs = map (\<lambda>x. Some (canon x)) xs"
proof (induction xs arbitrary: bs)
  case (Cons x xs)
  then obtain b bs' where "bs = b # bs'" by (cases bs) auto
  with Cons show ?case by (auto simp: dec_enc)
qed simp

end

text \<open>
  A component driven by events: a step function on its state and an invariant every step keeps.
  What holds of one step then holds of every sequence of steps from a good state.
\<close>

locale event_machine =
  fixes step :: "'e \<Rightarrow> 's \<Rightarrow> 's" and inv :: "'s \<Rightarrow> bool"
  assumes step_inv: "inv s \<Longrightarrow> inv (step e s)"
begin

lemma run_inv: "inv s \<Longrightarrow> inv (fold step es s)"
  by (induction es arbitrary: s) (simp_all add: step_inv)

lemma run_append_inv: "inv s \<Longrightarrow> inv (fold step es s) \<and> inv (fold step (es @ fs) s)"
  by (simp add: run_inv)

end

text \<open>Running a machine that admits or refuses each event, counting what it admits.\<close>

fun run_admit :: "('e \<Rightarrow> 's \<Rightarrow> bool \<times> 's) \<Rightarrow> 'e list \<Rightarrow> 's \<Rightarrow> nat" where
  "run_admit admit [] s = 0"
| "run_admit admit (e # es) s =
     (case admit e s of (b, s') \<Rightarrow> (if b then 1 else 0) + run_admit admit es s')"

text \<open>
  A fixed-window limiter: a window that restarts when it is older than \<open>width\<close>, a counter that
  restarts with it, and admission only below the limit. An event that is refused, or is no
  admission at all, may still charge the counter but never lowers it. Over any stretch of time
  shorter than the window at most one restart happens, so at most twice the limit is admitted.
\<close>

locale window_limiter =
  fixes admit :: "'e \<Rightarrow> 's \<Rightarrow> bool \<times> 's" and at :: "'e \<Rightarrow> int" and start :: "'s \<Rightarrow> int option"
    and count :: "'s \<Rightarrow> nat" and limit :: "'s \<Rightarrow> nat" and width :: "'s \<Rightarrow> int"
  assumes admitted: "admit e s = (True, s') \<Longrightarrow>
      (if start s = None \<or> at e - the (start s) \<ge> width s
       then 0 < limit s \<and> start s' = Some (at e) \<and> count s' = 1
       else count s < limit s \<and> start s' = start s \<and> count s' = Suc (count s))"
    and refused: "admit e s = (False, s') \<Longrightarrow>
      start s' = start s \<and> count s \<le> count s' \<or>
      (start s = None \<or> at e - the (start s) \<ge> width s) \<and> start s' = Some (at e)"
    and fixed: "admit e s = (b, s') \<Longrightarrow> limit s' = limit s \<and> width s' = width s"
begin

lemma within_window:
  "start s = Some w \<Longrightarrow> \<forall>e \<in> set es. at e - w < width s \<Longrightarrow> run_admit admit es s \<le> limit s - count s"
proof (induction es arbitrary: s)
  case (Cons e es)
  obtain b s' where st: "admit e s = (b, s')" by fastforce
  have old: "\<not> (start s = None \<or> at e - the (start s) \<ge> width s)"
    using Cons.prems by simp
  have nxt: "start s' = Some w \<and> (if b then count s < limit s \<and> count s' = Suc (count s) else count s \<le> count s')"
    using admitted [of e s s'] refused [of e s s'] st old Cons.prems(1) by (cases b) simp_all
  then have "run_admit admit es s' \<le> limit s - count s'"
    using Cons.IH [of s'] Cons.prems(2) fixed [OF st] by simp
  then show ?case
    using nxt by (cases b) (auto simp: st)
qed simp

lemma admitted_at_most_twice:
  "sorted (map at es) \<Longrightarrow> \<forall>e \<in> set es. at e < t + width s \<Longrightarrow> \<forall>e \<in> set es. t \<le> at e \<Longrightarrow>
    run_admit admit es s \<le> (limit s - count s) + limit s"
proof (induction es arbitrary: s)
  case (Cons e es)
  obtain b s' where st: "admit e s = (b, s')" by fastforce
  note par = fixed [OF st]
  define fresh where "fresh \<longleftrightarrow> start s = None \<or> at e - the (start s) \<ge> width s"
  note laws = admitted [of e s s', folded fresh_def] refused [of e s s', folded fresh_def]
  show ?case
  proof (cases "start s' = Some (at e) \<and> fresh")
    case True
    have "\<forall>x \<in> set es. at x - at e < width s'"
      using Cons.prems par by force
    then have "run_admit admit es s' \<le> limit s - count s'"
      using within_window [of s' "at e" es] True par by simp
    moreover have "b \<Longrightarrow> 0 < limit s \<and> count s' = 1"
      using True laws st by (simp only: if_True)
    ultimately show ?thesis
      by (cases b) (auto simp: st)
  next
    case False
    have "run_admit admit es s' \<le> (limit s - count s') + limit s"
      using Cons.IH [of s'] Cons.prems par by simp
    moreover have "if b then count s < limit s \<and> count s' = Suc (count s) else count s \<le> count s'"
      using False laws st by (cases b; cases fresh) simp_all
    ultimately show ?thesis
      by (cases b) (auto simp: st)
  qed
qed simp

end

end
