(* ===== verification/Content_Id.thy ===== *)
theory Content_Id
  imports Node_Prelude
begin

text \<open>
  Content identifiers, \<^verbatim>\<open>src/src/utils/cid.ts\<close>: the shape check, the normalisation of what callers
  and the backend send, and the canonical form under which pins are managed.
\<close>

definition isValidCidLike :: "string \<Rightarrow> bool" where
  "isValidCidLike raw \<longleftrightarrow> (let v = trim raw in 10 \<le> length v \<and> length v \<le> 255 \<and> list_all is_alnum v)"

definition until_cid_end :: "string \<Rightarrow> string" where
  "until_cid_end s = takeWhile (\<lambda>c. c \<notin> set ''/?#'') s"

definition normalizeCid :: "string \<Rightarrow> string result" where
  "normalizeCid raw =
     (let v = trim raw; withoutScheme = (if starts_with v ''ipfs://'' then drop 7 v else v);
          cid = until_cid_end withoutScheme
      in if isValidCidLike cid then Inr cid else Inl (PlainError (''Invalid CID: '' @ v)))"

text \<open>\<open>cid_v1\<close> is \<^verbatim>\<open>CID.parse(raw).toV1().toString()\<close> of the multiformats package, \<open>None\<close> when it
  throws.\<close>

definition canonicalPinCid :: "(string \<Rightarrow> string option) \<Rightarrow> string \<Rightarrow> string result" where
  "canonicalPinCid cid_v1 raw =
     (if raw = [] \<or> length raw > 512 \<or> trim raw \<noteq> raw then Inl (PlainError ''invalid_content_identifier'')
      else case cid_v1 raw of None \<Rightarrow> Inl (PlainError ''invalid_content_identifier'') | Some c \<Rightarrow> Inr c)"

lemma canonicalPinCid_Inr: "canonicalPinCid cid_v1 raw = Inr cid \<Longrightarrow> cid_v1 raw = Some cid"
  by (auto simp: canonicalPinCid_def split: if_splits option.splits)

end
