(* ===== verification/Json_Text.thy ===== *)
theory Json_Text
  imports Node_Prelude
begin

text \<open>
  JSON documents and their text, as the sources use them through \<^verbatim>\<open>JSON.stringify\<close> and
  \<^verbatim>\<open>JSON.parse\<close>. A document is a value of \<open>json\<close>; its text is a list of UTF-8 bytes.

  Numbers: an integral number is \<open>JNum\<close>; a number with a fraction is \<open>JDec m k\<close>, the decimal
  \<open>m / 10 ^ k\<close> with \<open>k\<close> minimal. The rounding of literals that no IEEE double represents is not
  modelled. Object members keep their insertion order; a repeated key keeps its first position
  and its last value, as \<^verbatim>\<open>JSON.parse\<close> has it.

  The parser runs on fuel: \<open>json_parse\<close> gives it twice the length of the text and a bit more,
  and \<open>parse_fuel_stable\<close> shows that more never changes the answer, so the fuel is no bound
  on the documents. \<open>json_roundtrip\<close> is the fact the codecs build on.
\<close>

datatype json =
    JNull
  | JBool bool
  | JNum int
  | JDec int nat
  | JStr string
  | JArr "json list"
  | JObj "(string, json) jsmap"

type_synonym json_object = "(string, json) jsmap"

section \<open>Printing\<close>

fun digits_of :: "nat \<Rightarrow> string" where
  "digits_of n = (if n < 10 then [char_of (48 + n)] else digits_of (n div 10) @ [char_of (48 + n mod 10)])"

declare digits_of.simps [simp del]

definition print_int :: "int \<Rightarrow> string" where
  "print_int i = (if i < 0 then CHR ''-'' # digits_of (nat (- i)) else digits_of (nat i))"

definition print_dec :: "int \<Rightarrow> nat \<Rightarrow> string" where
  "print_dec m k = (let ds = digits_of (nat \<bar>m\<bar>);
                        padded = replicate (Suc k - length ds) CHR ''0'' @ ds;
                        cut = length padded - k
                    in (if m < 0 then ''-'' else '''') @ take cut padded @ ''.'' @ drop cut padded)"

definition hex_digit :: "nat \<Rightarrow> char" where
  "hex_digit n = (if n < 10 then char_of (48 + n) else char_of (87 + n))"

definition escape_char :: "char \<Rightarrow> string" where
  "escape_char c =
     (let n = char_code c in
      if n = 34 then [CHR 0x5C, CHR 0x22]
      else if n = 92 then [CHR 0x5C, CHR 0x5C]
      else if n = 8 then [CHR 0x5C, CHR ''b'']
      else if n = 12 then [CHR 0x5C, CHR ''f'']
      else if n = 10 then [CHR 0x5C, CHR ''n'']
      else if n = 13 then [CHR 0x5C, CHR ''r'']
      else if n = 9 then [CHR 0x5C, CHR ''t'']
      else if n < 32 then [CHR 0x5C, CHR ''u'', CHR ''0'', CHR ''0'', hex_digit (n div 16), hex_digit (n mod 16)]
      else [c])"

definition quote :: "string \<Rightarrow> string" where
  "quote s = CHR 0x22 # concat (map escape_char s) @ [CHR 0x22]"

fun json_stringify :: "json \<Rightarrow> string"
  and stringify_elems :: "json list \<Rightarrow> string"
  and stringify_members :: "(string, json) jsmap \<Rightarrow> string" where
  "json_stringify JNull = ''null''"
| "json_stringify (JBool True) = ''true''"
| "json_stringify (JBool False) = ''false''"
| "json_stringify (JNum i) = print_int i"
| "json_stringify (JDec m k) = print_dec m k"
| "json_stringify (JStr s) = quote s"
| "json_stringify (JArr []) = ''[]''"
| "json_stringify (JArr (j # js)) = CHR ''['' # json_stringify j @ stringify_elems js"
| "json_stringify (JObj []) = ''{}''"
| "json_stringify (JObj ((k, j) # ms)) = CHR ''{'' # quote k @ CHR '':'' # json_stringify j @ stringify_members ms"
| "stringify_elems [] = '']''"
| "stringify_elems (j # js) = CHR '','' # json_stringify j @ stringify_elems js"
| "stringify_members [] = ''}''"
| "stringify_members ((k, j) # ms) = CHR '','' # quote k @ CHR '':'' # json_stringify j @ stringify_members ms"

section \<open>Parsing\<close>

definition json_ws :: "char \<Rightarrow> bool" where
  "json_ws c \<longleftrightarrow> char_code c \<in> {9, 10, 13, 32}"

definition skip_ws :: "string \<Rightarrow> string" where
  "skip_ws s = dropWhile json_ws s"

definition hex_value :: "char \<Rightarrow> nat option" where
  "hex_value c =
     (let n = char_code c in
      if 48 \<le> n \<and> n \<le> 57 then Some (n - 48)
      else if 97 \<le> n \<and> n \<le> 102 then Some (n - 87)
      else if 65 \<le> n \<and> n \<le> 70 then Some (n - 55)
      else None)"

definition hex4 :: "string \<Rightarrow> nat option" where
  "hex4 s = (case s of
       a # b # c # d # _ \<Rightarrow>
         (case (hex_value a, hex_value b, hex_value c, hex_value d) of
            (Some x, Some y, Some z, Some w) \<Rightarrow> Some (((x * 16 + y) * 16 + z) * 16 + w)
          | _ \<Rightarrow> None)
     | _ \<Rightarrow> None)"

text \<open>UTF-8 of a code point; a lone surrogate becomes U+FFFD, as it does when the string is
  encoded.\<close>

definition utf8 :: "nat \<Rightarrow> string" where
  "utf8 n =
     (if n < 128 then [char_of n]
      else if n < 2048 then [char_of (192 + n div 64), char_of (128 + n mod 64)]
      else if 55296 \<le> n \<and> n \<le> 57343 then [CHR 0xEF, CHR 0xBF, CHR 0xBD]
      else if n < 65536 then
        [char_of (224 + n div 4096), char_of (128 + n div 64 mod 64), char_of (128 + n mod 64)]
      else [char_of (240 + n div 262144), char_of (128 + n div 4096 mod 64),
            char_of (128 + n div 64 mod 64), char_of (128 + n mod 64)])"

text \<open>One escape, after its backslash: the characters it stands for and the rest of the text.\<close>

definition parse_escape :: "string \<Rightarrow> (string \<times> string) option" where
  "parse_escape s = (case s of [] \<Rightarrow> None | c # r \<Rightarrow>
     (let n = char_code c in
      if n = 34 \<or> n = 92 \<or> n = 47 then Some ([c], r)
      else if n = 98 then Some ([char_of (8::nat)], r)
      else if n = 102 then Some ([char_of (12::nat)], r)
      else if n = 110 then Some ([char_of (10::nat)], r)
      else if n = 114 then Some ([char_of (13::nat)], r)
      else if n = 116 then Some ([char_of (9::nat)], r)
      else if n = 117 then
        (case hex4 r of
           None \<Rightarrow> None
         | Some u \<Rightarrow>
             (let r' = drop 4 r in
              if 55296 \<le> u \<and> u \<le> 56319 \<and> take 2 r' = [CHR 0x5C, CHR ''u''] then
                (case hex4 (drop 2 r') of
                   Some v \<Rightarrow>
                     if 56320 \<le> v \<and> v \<le> 57343
                     then Some (utf8 (65536 + (u - 55296) * 1024 + (v - 56320)), drop 6 r')
                     else Some (utf8 u, r')
                 | None \<Rightarrow> None)
              else Some (utf8 u, r')))
      else None))"

lemma parse_escape_shorter: "parse_escape s = Some (t, r) \<Longrightarrow> length r < length s"
  by (auto simp: parse_escape_def Let_def split: list.splits if_splits option.splits)

text \<open>The characters of a string literal after its opening quote, up to its closing quote.\<close>

function parse_chars :: "string \<Rightarrow> (string \<times> string) option" where
  "parse_chars [] = None"
| "parse_chars (c # s) =
     (if char_code c = 34 then Some ([], s)
      else if char_code c < 32 then None
      else if char_code c = 92 then
        (case parse_escape s of
           None \<Rightarrow> None
         | Some (t, r) \<Rightarrow> map_option (\<lambda>(u, r'). (t @ u, r')) (parse_chars r))
      else map_option (\<lambda>(u, r'). (c # u, r')) (parse_chars s))"
  by pat_completeness auto
termination
  by (relation "measure length") (auto dest: parse_escape_shorter)

fun nat_of_digits :: "nat \<Rightarrow> string \<Rightarrow> nat" where
  "nat_of_digits acc [] = acc"
| "nat_of_digits acc (c # s) = nat_of_digits (10 * acc + (char_code c - 48)) s"

fun norm_dec :: "int \<Rightarrow> nat \<Rightarrow> json" where
  "norm_dec m 0 = JNum m"
| "norm_dec m (Suc k) = (if 10 dvd m then norm_dec (m div 10) k else JDec m (Suc k))"

text \<open>A number literal: sign, integer part without superfluous zeros, fraction, exponent.\<close>

definition take_sign :: "string \<Rightarrow> bool \<times> string" where
  "take_sign s = (if take 1 s = ''-'' then (True, drop 1 s) else (False, s))"

definition take_frac :: "string \<Rightarrow> (string \<times> string) option" where
  "take_frac s =
     (if take 1 s \<noteq> ''.'' then Some ([], s)
      else if takeWhile is_digit (drop 1 s) = [] then None
      else Some (takeWhile is_digit (drop 1 s), dropWhile is_digit (drop 1 s)))"

definition take_exp :: "string \<Rightarrow> (int \<times> string) option" where
  "take_exp s =
     (if take 1 s \<noteq> ''e'' \<and> take 1 s \<noteq> ''E'' then Some (0, s)
      else (let (neg, r) = (if take 1 (drop 1 s) = ''+'' then (False, drop 2 s) else take_sign (drop 1 s));
                es = takeWhile is_digit r;
                e = int (nat_of_digits 0 es)
            in if es = [] then None else Some (if neg then - e else e, dropWhile is_digit r)))"

definition number_value :: "bool \<Rightarrow> string \<Rightarrow> string \<Rightarrow> int \<Rightarrow> json" where
  "number_value neg ds fs e =
     (let mag = int (nat_of_digits 0 (ds @ fs));
          m = (if neg then - mag else mag);
          k = int (length fs) - e
      in if k \<le> 0 then JNum (m * 10 ^ nat (- k)) else norm_dec m (nat k))"

definition parse_number :: "string \<Rightarrow> (json \<times> string) option" where
  "parse_number s =
     (let (neg, s1) = take_sign s; ds = takeWhile is_digit s1 in
      if ds = [] \<or> (1 < length ds \<and> hd ds = CHR ''0'') then None
      else (case take_frac (dropWhile is_digit s1) of
              None \<Rightarrow> None
            | Some (fs, s3) \<Rightarrow>
                (case take_exp s3 of
                   None \<Rightarrow> None
                 | Some (e, s6) \<Rightarrow> Some (number_value neg ds fs e, s6))))"

text \<open>A member's key, its quotes and the colon after it.\<close>

definition parse_key :: "string \<Rightarrow> (string \<times> string) option" where
  "parse_key s =
     (case skip_ws s of
        [] \<Rightarrow> None
      | q # r \<Rightarrow>
          (if char_code q \<noteq> 34 then None
           else (case parse_chars r of
                   None \<Rightarrow> None
                 | Some (k, r1) \<Rightarrow>
                     (case skip_ws r1 of
                        [] \<Rightarrow> None
                      | c # r2 \<Rightarrow> if char_code c = 58 then Some (k, r2) else None))))"

fun parse_value :: "nat \<Rightarrow> string \<Rightarrow> (json \<times> string) option"
  and parse_elems :: "nat \<Rightarrow> json list \<Rightarrow> string \<Rightarrow> (json \<times> string) option"
  and parse_members :: "nat \<Rightarrow> (string, json) jsmap \<Rightarrow> string \<Rightarrow> (json \<times> string) option" where
  "parse_value 0 s = None"
| "parse_value (Suc n) s =
     (case skip_ws s of
        [] \<Rightarrow> None
      | c # r \<Rightarrow>
          (if char_code c = 34 then map_option (\<lambda>(t, r'). (JStr t, r')) (parse_chars r)
           else if char_code c = 91 then
             (if take 1 (skip_ws r) = '']'' then Some (JArr [], drop 1 (skip_ws r)) else parse_elems n [] r)
           else if char_code c = 123 then
             (if take 1 (skip_ws r) = ''}'' then Some (JObj [], drop 1 (skip_ws r)) else parse_members n [] r)
           else if take 4 (c # r) = ''null'' then Some (JNull, drop 4 (c # r))
           else if take 4 (c # r) = ''true'' then Some (JBool True, drop 4 (c # r))
           else if take 5 (c # r) = ''false'' then Some (JBool False, drop 5 (c # r))
           else parse_number (c # r)))"
| "parse_elems 0 acc s = None"
| "parse_elems (Suc n) acc s =
     (case parse_value n s of
        None \<Rightarrow> None
      | Some (j, r) \<Rightarrow>
          (case skip_ws r of
             [] \<Rightarrow> None
           | c # r' \<Rightarrow>
               (if char_code c = 44 then parse_elems n (acc @ [j]) r'
                else if char_code c = 93 then Some (JArr (acc @ [j]), r')
                else None)))"
| "parse_members 0 acc s = None"
| "parse_members (Suc n) acc s =
     (case parse_key s of
        None \<Rightarrow> None
      | Some (k, r0) \<Rightarrow>
          (case parse_value n r0 of
             None \<Rightarrow> None
           | Some (j, r) \<Rightarrow>
               (case skip_ws r of
                  [] \<Rightarrow> None
                | c # r' \<Rightarrow>
                    (if char_code c = 44 then parse_members n (jm_set k j acc) r'
                     else if char_code c = 125 then Some (JObj (jm_set k j acc), r')
                     else None))))"

definition json_parse :: "string \<Rightarrow> json option" where
  "json_parse s = (case parse_value (2 * length s + 2) s of
       None \<Rightarrow> None
     | Some (j, r) \<Rightarrow> if skip_ws r = [] then Some j else None)"

section \<open>The fuel is no bound\<close>

lemma length_skip_ws: "length (skip_ws s) \<le> length s"
  by (simp add: skip_ws_def length_dropWhile_le)

lemma skip_ws_Cons_shorter: "skip_ws s = c # r \<Longrightarrow> length r < length s"
  using length_skip_ws [of s] by simp

lemma parse_chars_shorter: "parse_chars s = Some (t, r) \<Longrightarrow> length r < length s"
proof (induction s arbitrary: t r rule: parse_chars.induct)
  case 1
  then show ?case by simp
next
  case (2 c s)
  then show ?case
    by (force split: if_splits option.splits dest: parse_escape_shorter)
qed

lemma take_sign_rest: "take_sign s = (n, r) \<Longrightarrow> length r \<le> length s"
  by (auto simp: take_sign_def split: if_splits)

lemma take_frac_rest: "take_frac s = Some (fs, r) \<Longrightarrow> length r \<le> length s"
  using length_dropWhile_le [of is_digit "drop 1 s"]
  by (auto simp: take_frac_def split: if_splits)

lemma take_exp_rest: "take_exp s = Some (e, r) \<Longrightarrow> length r \<le> length s"
  by (auto simp: take_exp_def Let_def split: if_splits prod.splits dest!: take_sign_rest
      intro: order_trans [OF length_dropWhile_le])

lemma parse_number_rest:
  assumes "parse_number s = Some (j, r)"
  shows "length r \<le> length s"
proof -
  obtain neg s1 where sg: "take_sign s = (neg, s1)" by (cases "take_sign s")
  with assms obtain fs s3 e where
      "take_frac (dropWhile is_digit s1) = Some (fs, s3)" and "take_exp s3 = Some (e, r)"
    by (auto simp: parse_number_def Let_def split: if_splits option.splits)
  then have "length r \<le> length s3" and "length s3 \<le> length (dropWhile is_digit s1)"
    by (auto dest: take_frac_rest take_exp_rest)
  with sg show ?thesis
    using length_dropWhile_le [of is_digit s1] take_sign_rest [of s] by fastforce
qed

lemma parse_key_shorter: "parse_key s = Some (k, r) \<Longrightarrow> length r < length s"
  by (auto simp: parse_key_def split: list.splits if_splits option.splits
      dest!: skip_ws_Cons_shorter parse_chars_shorter)

lemma parse_rest:
  "parse_value n s = Some (j, r) \<Longrightarrow> length r \<le> length s"
  "parse_elems n acc s = Some (j, r) \<Longrightarrow> length r \<le> length s"
  "parse_members n ms s = Some (j, r) \<Longrightarrow> length r \<le> length s"
proof (induction n s and n acc s and n ms s arbitrary: j r and j r and j r
    rule: parse_value_parse_elems_parse_members.induct)
  case (2 n s)
  obtain c t where ct: "skip_ws s = c # t"
    using "2.prems" by (auto split: list.splits)
  then have t: "length t < length s" by (rule skip_ws_Cons_shorter)
  have w: "length (drop 1 (skip_ws t)) \<le> length t"
    using length_skip_ws [of t] by simp
  show ?case
    using "2.prems" ct t w "2.IH"(1,2) [OF ct]
    by (auto split: if_splits dest!: parse_chars_shorter parse_number_rest)
next
  case (4 n acc s)
  then obtain j1 r1 where v: "parse_value n s = Some (j1, r1)" by (auto split: option.splits)
  with "4.prems" obtain c r2 where w: "skip_ws r1 = c # r2" by (auto split: list.splits)
  have "length r1 \<le> length s" using "4.IH"(1) v by simp
  moreover have "length r2 < length r1" using w by (rule skip_ws_Cons_shorter)
  moreover have "length r \<le> length r2"
    using "4.prems" v w "4.IH"(2) [OF v refl w] by (simp split: if_split_asm)
  ultimately show ?case by linarith
next
  case (6 n acc s)
  then obtain k r0 where k: "parse_key s = Some (k, r0)" by (auto split: option.splits)
  with "6.prems" obtain j1 r1 where v: "parse_value n r0 = Some (j1, r1)"
    by (auto split: option.splits)
  with "6.prems" k obtain c r2 where w: "skip_ws r1 = c # r2" by (auto split: list.splits)
  have "length r1 \<le> length r0" using "6.IH"(1) [OF k] v by simp
  moreover have "length r0 < length s" using k by (rule parse_key_shorter)
  moreover have "length r2 < length r1" using w by (rule skip_ws_Cons_shorter)
  moreover have "length r \<le> length r2"
    using "6.prems" k v w "6.IH"(2) [OF k refl v refl w] by (simp split: if_split_asm)
  ultimately show ?case by linarith
qed simp_all

text \<open>Once the fuel exceeds twice the length of the text, one more unit changes nothing.\<close>

lemma parse_fuel_step:
  "2 * length s + 1 \<le> n \<Longrightarrow> parse_value (Suc n) s = parse_value n s"
  "2 * length s + 2 \<le> n \<Longrightarrow> parse_elems (Suc n) acc s = parse_elems n acc s"
  "2 * length s + 1 \<le> n \<Longrightarrow> parse_members (Suc n) ms s = parse_members n ms s"
proof (induction n s and n acc s and n ms s rule: parse_value_parse_elems_parse_members.induct)
  case (2 n s)
  show ?case
  proof (cases "skip_ws s")
    case Nil
    then show ?thesis by simp
  next
    case (Cons c t)
    then have "length t < length s" by (rule skip_ws_Cons_shorter)
    with "2.prems" "2.IH" [OF Cons] Cons show ?thesis
      by (simp del: parse_elems.simps parse_members.simps)
  qed
next
  case (4 n acc s)
  then have v: "parse_value (Suc n) s = parse_value n s" by simp
  show ?case
  proof (cases "parse_value n s")
    case None
    then show ?thesis
      by (simp only: parse_elems.simps(2) [of "Suc n"] parse_elems.simps(2) [of n] v option.case)
  next
    case (Some jr)
    obtain j r where jr: "jr = (j, r)" by (cases jr)
    with Some have r: "length r \<le> length s" by (simp add: parse_rest(1))
    have "parse_elems (Suc n) (acc @ [j]) r' = parse_elems n (acc @ [j]) r'"
      if w: "skip_ws r = c # r'" and c: "char_code c = 44" for c r'
      using "4.IH"(2) [OF Some jr [symmetric] w c] "4.prems" r skip_ws_Cons_shorter [OF w] by simp
    then show ?thesis
      unfolding parse_elems.simps(2) [of "Suc n"] parse_elems.simps(2) [of n] v Some jr
        option.case prod.case
      by (cases "skip_ws r") (simp_all del: parse_elems.simps)
  qed
next
  case (6 n acc s)
  show ?case
  proof (cases "parse_key s")
    case None
    then show ?thesis by simp
  next
    case (Some kr)
    obtain k r0 where kr: "kr = (k, r0)" by (cases kr)
    with Some have l: "length r0 < length s" by (simp add: parse_key_shorter)
    with "6.prems" "6.IH"(1) [OF Some kr [symmetric]] have v: "parse_value (Suc n) r0 = parse_value n r0"
      by simp
    show ?thesis
    proof (cases "parse_value n r0")
      case None
      then show ?thesis
        by (simp only: parse_members.simps(2) [of "Suc n"] parse_members.simps(2) [of n] v
            option.case Some kr prod.case)
    next
      case (Some jr)
      obtain j r where jr: "jr = (j, r)" by (cases jr)
      with Some have r: "length r \<le> length r0" by (simp add: parse_rest(1))
      have "parse_members (Suc n) (jm_set k j acc) r' = parse_members n (jm_set k j acc) r'"
        if w: "skip_ws r = c # r'" and c: "char_code c = 44" for c r'
        using "6.IH"(2) [OF \<open>parse_key s = Some kr\<close> kr [symmetric] Some jr [symmetric] w c] "6.prems" r l
          skip_ws_Cons_shorter [OF w] by simp
      then show ?thesis
        unfolding parse_members.simps(2) [of "Suc n"] parse_members.simps(2) [of n] v Some jr
          \<open>parse_key s = Some kr\<close> kr option.case prod.case
        by (cases "skip_ws r") (simp_all del: parse_members.simps)
    qed
  qed
qed simp_all

lemma parse_fuel_stable:
  assumes "2 * length s + 2 \<le> n"
  shows "parse_value n s = parse_value (2 * length s + 2) s"
  using assms
proof (induction rule: dec_induct)
  case base
  then show ?case by simp
next
  case (step n)
  then show ?case by (simp add: parse_fuel_step(1) del: parse_value.simps)
qed

section \<open>Printing and parsing are inverse\<close>

text \<open>The documents the node prints: no fractional numbers, no repeated object key.\<close>

fun wf_json :: "json \<Rightarrow> bool" where
  "wf_json (JDec _ _) \<longleftrightarrow> False"
| "wf_json (JArr js) \<longleftrightarrow> list_all wf_json js"
| "wf_json (JObj ms) \<longleftrightarrow> wf_map ms \<and> list_all (\<lambda>m. wf_json (snd m)) ms"
| "wf_json _ \<longleftrightarrow> True"

definition number_stops :: "string \<Rightarrow> bool" where
  "number_stops r \<longleftrightarrow> (case r of [] \<Rightarrow> True
     | c # _ \<Rightarrow> \<not> is_digit c \<and> c \<noteq> CHR ''.'' \<and> c \<noteq> CHR ''e'' \<and> c \<noteq> CHR ''E'')"

lemma char_code_char_of: "n < 256 \<Longrightarrow> char_code (char_of n) = n"
  by (simp add: char_code_def)

lemma digit_is_digit: "(n::nat) < 10 \<Longrightarrow> is_digit (char_of (48 + n))"
  by (simp add: is_digit_def char_code_char_of)

lemma digits_of_all: "\<forall>c \<in> set (digits_of n). is_digit c"
proof (induction n rule: digits_of.induct)
  case (1 n)
  then show ?case
    by (auto simp: digits_of.simps [of n] digit_is_digit)
qed

lemma digits_of_nonempty [simp]: "digits_of n \<noteq> []"
  by (simp add: digits_of.simps [of n])

lemma digits_of_hd: "0 < n \<Longrightarrow> hd (digits_of n) \<noteq> CHR ''0''"
proof (induction n rule: digits_of.induct)
  case (1 n)
  show ?case
  proof (cases "n < 10")
    case True
    then have "char_code (char_of (48 + n)) = 48 + n" by (simp add: char_code_char_of)
    moreover have "char_code (CHR ''0'') = 48" by (simp add: char_code_def)
    ultimately show ?thesis
      using True "1.prems" by (auto simp: digits_of.simps [of n])
  next
    case False
    with "1.IH" show ?thesis by (simp add: digits_of.simps [of n])
  qed
qed

lemma digits_of_no_lead:
  "\<not> (1 < length (digits_of n) \<and> hd (digits_of n) = CHR ''0'')"
  by (cases "n = 0") (auto simp: digits_of_hd digits_of.simps [of 0])

lemma nat_of_digits_append:
  "nat_of_digits acc (s @ t) = nat_of_digits (nat_of_digits acc s) t"
  by (induction s arbitrary: acc) auto

lemma nat_of_digits_of: "nat_of_digits 0 (digits_of n) = n"
proof (induction n rule: digits_of.induct)
  case (1 n)
  then show ?case
    by (cases "n < 10")
      (simp_all add: digits_of.simps [of n] nat_of_digits_append char_code_char_of)
qed

lemma takeWhile_digits:
  assumes "number_stops r"
  shows "takeWhile is_digit (digits_of n @ r) = digits_of n"
    and "dropWhile is_digit (digits_of n @ r) = r"
proof -
  have "takeWhile is_digit r = []" and "dropWhile is_digit r = r"
    using assms by (cases r; simp add: number_stops_def)+
  then show "takeWhile is_digit (digits_of n @ r) = digits_of n"
    and "dropWhile is_digit (digits_of n @ r) = r"
    using digits_of_all [of n] by (simp_all add: takeWhile_append2 dropWhile_append2)
qed

lemma number_stops_frac: "number_stops r \<Longrightarrow> take_frac r = Some ([], r)"
  by (cases r) (auto simp: number_stops_def take_frac_def)

lemma number_stops_exp: "number_stops r \<Longrightarrow> take_exp r = Some (0, r)"
  by (cases r) (auto simp: number_stops_def take_exp_def)

lemma take_sign_print_int:
  "take_sign (print_int i @ r) = (i < 0, digits_of (nat \<bar>i\<bar>) @ r)"
proof (cases "i < 0")
  case True
  then show ?thesis by (simp add: take_sign_def print_int_def)
next
  case False
  obtain c t where ct: "digits_of (nat i) = c # t"
    by (cases "digits_of (nat i)") auto
  then have "is_digit c" using digits_of_all [of "nat i"] by auto
  then have "c \<noteq> CHR ''-''" by (auto simp: is_digit_def char_code_def)
  with False ct show ?thesis by (simp add: take_sign_def print_int_def)
qed

lemma parse_number_print_int:
  assumes "number_stops r"
  shows "parse_number (print_int i @ r) = Some (JNum i, r)"
  using assms digits_of_no_lead [of "nat \<bar>i\<bar>"]
  by (simp add: parse_number_def take_sign_print_int takeWhile_digits number_stops_frac
      number_stops_exp number_value_def nat_of_digits_of Let_def)

lemma print_int_hd:
  "\<exists>c t. print_int i = c # t \<and> (c = CHR ''-'' \<or> is_digit c)"
proof (cases "i < 0")
  case True
  then show ?thesis by (simp add: print_int_def)
next
  case False
  then show ?thesis
    using digits_of_all [of "nat i"]
    by (cases "digits_of (nat i)") (auto simp: print_int_def)
qed

lemma hex_value_digit: "n < 16 \<Longrightarrow> hex_value (hex_digit n) = Some n"
  by (auto simp: hex_value_def hex_digit_def char_code_char_of Let_def)

lemma parse_chars_escape:
  "parse_chars (escape_char c @ r) = map_option (\<lambda>(u, r'). (c # u, r')) (parse_chars r)"
proof -
  have codes: "char_code (CHR 0x5C) = 92" "char_code (CHR 0x22) = 34" "char_code (CHR ''b'') = 98"
    "char_code (CHR ''f'') = 102" "char_code (CHR ''n'') = 110" "char_code (CHR ''r'') = 114"
    "char_code (CHR ''t'') = 116" "char_code (CHR ''u'') = 117"
    by (simp_all add: char_code_def)
  have eq: "char_code c = n \<Longrightarrow> char_of n = c" for n
    by (auto simp: char_code_def)
  have lit: "char_code c = 92 \<Longrightarrow> c = CHR 0x5C" "char_code c = 34 \<Longrightarrow> c = CHR 0x22"
    using char_code_inj [of c "CHR 0x5C"] char_code_inj [of c "CHR 0x22"] codes by simp_all
  have h0: "hex_value (CHR ''0'') = Some 0" by (simp add: hex_value_def char_code_def)
  show ?thesis
  proof (cases "char_code c < 32 \<and> char_code c \<notin> {8, 9, 10, 12, 13}")
    case True
    let ?n = "char_code c"
    have hi: "?n div 16 < 16" and lo: "?n mod 16 < 16" using True by auto
    have u: "hex4 ([CHR ''0'', CHR ''0'', hex_digit (?n div 16), hex_digit (?n mod 16)] @ r) = Some ?n"
      using True by (simp add: hex4_def h0 hex_value_digit [OF hi] hex_value_digit [OF lo])
    have "utf8 ?n = [c]"
      using True eq [of ?n] by (simp add: utf8_def)
    with u True show ?thesis
      by (simp add: escape_char_def codes parse_escape_def Let_def cong: option.case_cong)
  next
    case False
    then show ?thesis
      by (auto simp: escape_char_def codes parse_escape_def Let_def eq
          dest: eq lit intro!: arg_cong [where f = "\<lambda>g. map_option g (parse_chars r)"])
  qed
qed

lemma parse_chars_quote:
  "parse_chars (concat (map escape_char s) @ CHR 0x22 # r) = Some (s, r)"
proof (induction s)
  case Nil
  then show ?case by (simp add: char_code_def)
next
  case (Cons c s)
  then show ?case by (simp add: parse_chars_escape)
qed

definition parses_back :: "json \<Rightarrow> bool" where
  "parses_back j \<longleftrightarrow> (\<forall>n r. number_stops r \<longrightarrow> 2 * length (json_stringify j) + 1 \<le> n \<longrightarrow>
     parse_value n (json_stringify j @ r) = Some (j, r))"

lemma stringify_elems_hd: "\<exists>c t. stringify_elems js = c # t \<and> (c = CHR '','' \<or> c = CHR '']'')"
  by (cases js) auto

lemma stringify_members_hd: "\<exists>c t. stringify_members ms = c # t \<and> (c = CHR '','' \<or> c = CHR ''}'')"
  by (cases ms) auto

lemma number_stops_elems: "number_stops (stringify_elems js @ r)"
  using stringify_elems_hd [of js] by (auto simp: number_stops_def is_digit_def char_code_def)

lemma number_stops_members: "number_stops (stringify_members ms @ r)"
  using stringify_members_hd [of ms] by (auto simp: number_stops_def is_digit_def char_code_def)

lemma skip_ws_char: "\<not> json_ws c \<Longrightarrow> skip_ws (c # s) = c # s"
  by (simp add: skip_ws_def)

lemma punctuation_codes [simp]:
  "char_code (CHR '','') = 44" "char_code (CHR ''['') = 91" "char_code (CHR '']'') = 93"
  "char_code (CHR ''{'') = 123" "char_code (CHR ''}'') = 125" "char_code (CHR '':'') = 58"
  "char_code (CHR 0x22) = 34"
  by (simp_all add: char_code_def)

lemma skip_ws_punctuation [simp]:
  "skip_ws (CHR '','' # s) = CHR '','' # s" "skip_ws (CHR ''['' # s) = CHR ''['' # s"
  "skip_ws (CHR '']'' # s) = CHR '']'' # s" "skip_ws (CHR ''{'' # s) = CHR ''{'' # s"
  "skip_ws (CHR ''}'' # s) = CHR ''}'' # s" "skip_ws (CHR '':'' # s) = CHR '':'' # s"
  "skip_ws (CHR 0x22 # s) = CHR 0x22 # s"
  by (simp_all add: skip_ws_def json_ws_def)

lemma parse_key_quote: "parse_key (quote k @ CHR '':'' # r) = Some (k, r)"
  by (simp add: parse_key_def quote_def parse_chars_quote)

text \<open>What no printed value begins with.\<close>

lemma stringify_hd:
  "wf_json j \<Longrightarrow> \<exists>c t. json_stringify j = c # t \<and> \<not> json_ws c \<and> c \<noteq> CHR '']'' \<and> c \<noteq> CHR ''}''"
proof (cases j)
  case (JNum i)
  then show ?thesis
    using print_int_hd [of i] by (auto simp: json_ws_def is_digit_def char_code_def)
next
  case (JBool b)
  then show ?thesis by (cases b) (auto simp: json_ws_def char_code_def)
next
  case (JArr js)
  then show ?thesis by (cases js) (auto simp: json_ws_def)
next
  case (JObj ms)
  then show ?thesis by (cases ms) (auto simp: json_ws_def)
qed (auto simp: json_ws_def char_code_def quote_def)

lemma parses_back_num: "parses_back (JNum i)"
  unfolding parses_back_def
proof (intro allI impI)
  fix n r
  assume stops: "number_stops r" and n: "2 * length (json_stringify (JNum i)) + 1 \<le> n"
  obtain c t where ct: "print_int i = c # t" and c: "c = CHR ''-'' \<or> is_digit c"
    using print_int_hd by blast
  from n obtain m where "n = Suc m" by (cases n) auto
  moreover have "\<not> json_ws c" and "char_code c \<notin> {34, 91, 123}"
    and "c \<noteq> CHR ''n''" and "c \<noteq> CHR ''t''" and "c \<noteq> CHR ''f''"
    using c by (auto simp: json_ws_def is_digit_def char_code_def)
  ultimately show "parse_value n (json_stringify (JNum i) @ r) = Some (JNum i, r)"
    using parse_number_print_int [OF stops, of i] ct by (simp add: skip_ws_char)
qed

lemma parses_backI:
  assumes "\<And>n r. number_stops r \<Longrightarrow> parse_value (Suc n) (json_stringify j @ r) = Some (j, r)"
  shows "parses_back j"
  unfolding parses_back_def
proof (intro allI impI)
  fix n r
  assume "number_stops r" and "2 * length (json_stringify j) + 1 \<le> n"
  with assms [of r "n - 1"] show "parse_value n (json_stringify j @ r) = Some (j, r)"
    by (simp del: parse_value.simps)
qed

lemma parses_back_atom: "parses_back JNull" "parses_back (JBool b)" "parses_back (JStr s)"
proof -
  show "parses_back JNull"
    by (rule parses_backI) (simp add: skip_ws_def json_ws_def char_code_def)
  show "parses_back (JBool b)"
    by (rule parses_backI, cases b) (simp_all add: skip_ws_def json_ws_def char_code_def)
  show "parses_back (JStr s)"
    by (rule parses_backI) (simp add: quote_def parse_chars_quote)
qed

lemma parse_elems_back:
  assumes "list_all parses_back (j # js)"
    and "2 * (length (json_stringify j) + length (stringify_elems js)) + 2 \<le> n"
  shows "parse_elems n acc (json_stringify j @ stringify_elems js @ r) = Some (JArr (acc @ j # js), r)"
  using assms
proof (induction js arbitrary: n acc j)
  case Nil
  then obtain m where m: "n = Suc m" by (cases n) auto
  have "parse_value m (json_stringify j @ CHR '']'' # r) = Some (j, CHR '']'' # r)"
    using Nil m number_stops_elems [of "[]" r] by (simp add: parses_back_def)
  with m show ?case by simp
next
  case (Cons x xs)
  then obtain m where m: "n = Suc m" by (cases n) auto
  have "parse_value m (json_stringify j @ stringify_elems (x # xs) @ r) = Some (j, stringify_elems (x # xs) @ r)"
    using Cons.prems m number_stops_elems [of "x # xs" r] by (simp add: parses_back_def)
  moreover have "parse_elems m (acc @ [j]) (json_stringify x @ stringify_elems xs @ r) = Some (JArr ((acc @ [j]) @ x # xs), r)"
    using Cons.prems m by (intro Cons.IH) auto
  ultimately show ?case by (simp add: m)
qed

lemma parse_members_back:
  assumes "list_all (\<lambda>m. parses_back (snd m)) ((k, j) # ms)" and "distinct (jm_keys (acc @ (k, j) # ms))"
    and "2 * (length (quote k) + length (json_stringify j) + length (stringify_members ms)) + 2 \<le> n"
  shows "parse_members n acc (quote k @ CHR '':'' # json_stringify j @ stringify_members ms @ r)
       = Some (JObj (acc @ (k, j) # ms), r)"
  using assms
proof (induction ms arbitrary: n acc k j)
  case Nil
  then obtain m where m: "n = Suc m" by (cases n) auto
  have "parse_value m (json_stringify j @ CHR ''}'' # r) = Some (j, CHR ''}'' # r)"
    using Nil m number_stops_members [of "[]" r] by (simp add: parses_back_def)
  moreover have "jm_set k j acc = acc @ [(k, j)]"
    using Nil by (intro jm_keys_set_absent) (auto simp: jm_has_iff)
  ultimately show ?case by (simp add: m parse_key_quote)
next
  case (Cons km ms)
  obtain k' j' where km: "km = (k', j')" by (cases km)
  from Cons.prems obtain m where m: "n = Suc m" by (cases n) auto
  have v: "parse_value m (json_stringify j @ stringify_members (km # ms) @ r) = Some (j, stringify_members (km # ms) @ r)"
    using Cons.prems m number_stops_members [of "km # ms" r] by (simp add: parses_back_def km)
  have a: "jm_set k j acc = acc @ [(k, j)]"
    using Cons.prems by (intro jm_keys_set_absent) (auto simp: jm_has_iff)
  have "parse_members m (acc @ [(k, j)]) (quote k' @ CHR '':'' # json_stringify j' @ stringify_members ms @ r)
      = Some (JObj ((acc @ [(k, j)]) @ (k', j') # ms), r)"
    using Cons.prems m km by (intro Cons.IH) auto
  with v a show ?case by (simp add: m parse_key_quote km)
qed

lemma parses_back_arr:
  assumes "list_all parses_back js" and "list_all wf_json js"
  shows "parses_back (JArr js)"
  unfolding parses_back_def
proof (intro allI impI)
  fix n r
  assume n: "2 * length (json_stringify (JArr js)) + 1 \<le> n"
  then obtain m where m: "n = Suc m" by (cases n) auto
  show "parse_value n (json_stringify (JArr js) @ r) = Some (JArr js, r)"
  proof (cases js)
    case Nil
    then show ?thesis by (simp add: m)
  next
    case (Cons j js')
    obtain c t where "json_stringify j = c # t" "\<not> json_ws c" "c \<noteq> CHR '']''"
      using assms(2) Cons stringify_hd [of j] by auto
    then have "take 1 (skip_ws (json_stringify j @ stringify_elems js' @ r)) \<noteq> '']''"
      by (simp add: skip_ws_char)
    moreover have "parse_elems m [] (json_stringify j @ stringify_elems js' @ r) = Some (JArr (j # js'), r)"
      using parse_elems_back [of j js' m "[]" r] assms(1) Cons n m by simp
    ultimately show ?thesis by (simp add: m Cons)
  qed
qed

lemma parses_back_obj:
  assumes "list_all (\<lambda>m. parses_back (snd m)) ms" and "wf_map ms"
  shows "parses_back (JObj ms)"
  unfolding parses_back_def
proof (intro allI impI)
  fix n r
  assume n: "2 * length (json_stringify (JObj ms)) + 1 \<le> n"
  then obtain m where m: "n = Suc m" by (cases n) auto
  show "parse_value n (json_stringify (JObj ms) @ r) = Some (JObj ms, r)"
  proof (cases ms)
    case Nil
    then show ?thesis by (simp add: m)
  next
    case (Cons kj ms')
    obtain k j where kj: "kj = (k, j)" by (cases kj)
    have "take 1 (skip_ws (quote k @ s)) \<noteq> ''}''" for s
      by (simp add: quote_def)
    moreover have "parse_members m [] (quote k @ CHR '':'' # json_stringify j @ stringify_members ms' @ r)
        = Some (JObj ((k, j) # ms'), r)"
      using parse_members_back [of k j ms' "[]" m r] assms Cons n m by (simp add: kj wf_map_def)
    ultimately show ?thesis by (simp add: m Cons kj)
  qed
qed

lemma wf_parses_back: "wf_json j \<Longrightarrow> parses_back j"
proof (induction j rule: wf_json.induct)
  case (2 js)
  then show ?case by (auto simp: list_all_iff intro!: parses_back_arr)
next
  case (3 ms)
  then show ?case by (auto simp: list_all_iff intro!: parses_back_obj)
qed (simp_all add: parses_back_num parses_back_atom)

theorem json_roundtrip: "wf_json j \<Longrightarrow> json_parse (json_stringify j) = Some j"
  using wf_parses_back [of j]
  by (simp add: json_parse_def parses_back_def number_stops_def skip_ws_def
      del: parse_value.simps split: list.splits)

interpretation json_codec: codec "\<lambda>j. Some (json_stringify j)" json_parse wf_json "\<lambda>j. j"
  by unfold_locales (auto simp: json_roundtrip)

section \<open>Access to parsed values\<close>

text \<open>\<^verbatim>\<open>value?.key\<close>, the values that count as false, \<^verbatim>\<open>typeof x === 'string'\<close> and the integers.\<close>

definition json_field :: "json option \<Rightarrow> string \<Rightarrow> json option" where
  "json_field j k = (case j of Some (JObj m) \<Rightarrow> jm_get m k | _ \<Rightarrow> None)"

text \<open>\<^verbatim>\<open>!x\<close> for a JSON value or \<^verbatim>\<open>undefined\<close>.\<close>

fun json_falsy :: "json option \<Rightarrow> bool" where
  "json_falsy None \<longleftrightarrow> True"
| "json_falsy (Some JNull) \<longleftrightarrow> True"
| "json_falsy (Some (JBool b)) \<longleftrightarrow> \<not> b"
| "json_falsy (Some (JNum i)) \<longleftrightarrow> i = 0"
| "json_falsy (Some (JStr s)) \<longleftrightarrow> s = []"
| "json_falsy _ \<longleftrightarrow> False"

definition as_string :: "json option \<Rightarrow> string option" where
  "as_string v = (case v of Some (JStr s) \<Rightarrow> Some s | _ \<Rightarrow> None)"

definition as_integer :: "json option \<Rightarrow> int option" where
  "as_integer v = (case v of
     Some (JNum n) \<Rightarrow> Some n
   | _ \<Rightarrow> None)"

text \<open>\<^verbatim>\<open>String(v)\<close>; an array joins its elements, \<^verbatim>\<open>null\<close> among them being empty.\<close>

fun js_string :: "json \<Rightarrow> string" and js_element :: "json \<Rightarrow> string" and js_elements :: "json list \<Rightarrow> string list" where
  "js_string JNull = ''null''"
| "js_string (JBool b) = (if b then ''true'' else ''false'')"
| "js_string (JNum i) = print_int i"
| "js_string (JDec m k) = print_dec m k"
| "js_string (JStr s) = s"
| "js_string (JArr js) = join_with '','' (js_elements js)"
| "js_string (JObj _) = ''[object Object]''"
| "js_element j = (if j = JNull then [] else js_string j)"
| "js_elements [] = []"
| "js_elements (j # js) = js_element j # js_elements js"

text \<open>\<^verbatim>\<open>String(v || '')\<close>\<close>

definition str_field :: "json option \<Rightarrow> string" where
  "str_field v = (if json_falsy v then [] else js_string (the v))"

end
