(* ===== verification/Local_Request.thy ===== *)
theory Local_Request
  imports Json_Text
begin

text \<open>
  The transport-independent request and response of the Local API,
  \<^verbatim>\<open>src/src/localApi/localRequest.ts\<close>, with the scopes of \<^verbatim>\<open>pairingService.ts\<close>. A request body is
  pulled through accessors that each transport implements; here it is the record of what those
  accessors give. A streamed body is the list of its buffers.
\<close>

definition localError :: "nat \<Rightarrow> string \<Rightarrow> node_error" where
  "localError statusCode code = LocalError statusCode code"

datatype local_scope =
    ContentRead | CapturesCreate | CapturesRead | JobsCreate | JobsRead | SpatialRead
  | SpatialPublishRequest | ComputeManage

definition LOCAL_SCOPES :: "local_scope list" where
  "LOCAL_SCOPES = [ContentRead, CapturesCreate, CapturesRead, JobsCreate, JobsRead, SpatialRead,
     SpatialPublishRequest, ComputeManage]"

lemma all_scopes: "sc \<in> set LOCAL_SCOPES"
  by (cases sc) (simp_all add: LOCAL_SCOPES_def)

datatype peer_kind = Loopback | Lan | TrustedProxy | Webrtc

fun peer_kind_name :: "peer_kind \<Rightarrow> string" where
  "peer_kind_name Loopback = ''loopback''"
| "peer_kind_name Lan = ''lan''"
| "peer_kind_name TrustedProxy = ''trusted-proxy''"
| "peer_kind_name Webrtc = ''webrtc''"

record local_peer =
  lp_kind :: peer_kind
  lp_address :: "string option"
  lp_identityHandshakeComplete :: bool
  lp_sessionId :: "string option"

text \<open>\<^verbatim>\<open>json(maxBytes)\<close>, \<^verbatim>\<open>binary(maxBytes)\<close> and \<^verbatim>\<open>stream()\<close>; a stream may end in the transport's
  error after some buffers.\<close>

record local_body =
  lb_json :: "nat \<Rightarrow> json result"
  lb_binary :: "nat \<Rightarrow> bytes result"
  lb_stream :: "bytes list \<times> node_error option"

record local_request =
  rq_method :: string
  rq_path :: string
  rq_query :: "(string, string) jsmap"
  rq_credential :: "string option"
  rq_idempotencyKey :: "string option"
  rq_contentType :: "string option"
  rq_body :: local_body
  rq_peer :: local_peer

datatype local_response =
    JsonResponse (lr_status: nat) (lr_value: "json option")
  | BytesResponse (lr_status: nat) (lr_contentType: string) (lr_bytes: bytes)
      (lr_cacheControl: "string option") (lr_contentSha256: "string option")
  | StreamResponse (lr_status: nat) (lr_contentType: string) (lr_stream: "bytes list")
      (lr_contentLength: "nat option") (lr_cacheControl: "string option") (lr_contentSha256: "string option")

definition jsonResponse :: "nat \<Rightarrow> json option \<Rightarrow> local_response" where
  "jsonResponse status v = JsonResponse status v"

definition BODY_LIMITS_json :: nat where "BODY_LIMITS_json = 1024 * 1024"
definition BODY_LIMITS_captureDraftMetadata :: nat where "BODY_LIMITS_captureDraftMetadata = 64 * 1024"
definition BODY_LIMITS_capturePackage :: nat where "BODY_LIMITS_capturePackage = 256 * 1024 * 1024"
definition BODY_LIMITS_captureDraftFile :: nat where "BODY_LIMITS_captureDraftFile = 128 * 1024 * 1024"

end
