(* ===== verification/Local_Store.thy ===== *)
theory Local_Store
  imports Local_Request
begin

text \<open>
  The node's durable state, \<^verbatim>\<open>src/src/state/localStore.ts\<close>: one JSON file, loaded once, changed only
  by transactions that copy the state, run a mutator on the copy, write the copy to a temporary
  file, rename it over the state file and only then publish it in memory. The type of the state is
  a parameter: each component uses the fields it reads and writes.

  The file system is a map from paths to contents. Whether a system call succeeds is an input, the
  record \<open>io\<close>; \<open>atomic_write\<close> returns the file systems after each system call, so that a crash
  between two of them can be stated.
\<close>

section \<open>Model\<close>

datatype 's state_file = StateFile 's | OtherVersion | Garbage | Unreadable

type_synonym 's fs = "string \<Rightarrow> 's state_file option"

record io =
  io_mkdir :: bool
  io_backup :: bool
  io_writeTmp :: bool
  io_renameTmp :: bool
  io_rmTmp :: bool

definition io_ok :: io where
  "io_ok = \<lparr>io_mkdir = True, io_backup = True, io_writeTmp = True, io_renameTmp = True, io_rmTmp = True\<rparr>"

record 's store =
  sto_path :: string
  sto_state :: "'s option"
  sto_readOnly :: bool
  sto_fs :: "'s fs"

text \<open>\<^verbatim>\<open>writeFile(tmp, .., {flag: 'wx'})\<close>, \<^verbatim>\<open>rename(tmp, filePath)\<close> and, in the \<^verbatim>\<open>finally\<close>,
  \<^verbatim>\<open>rm(tmp, {force: true})\<close>. An interrupted write leaves an incomplete temporary file, and a removal that fails leaves the temporary file,
  which nobody reads. The time stamp \<^verbatim>\<open>updatedAt\<close> of the state is left out: nothing here depends on it.\<close>

definition atomic_write :: "string \<Rightarrow> string \<Rightarrow> 's \<Rightarrow> io \<Rightarrow> 's fs \<Rightarrow> unit result \<times> 's fs list" where
  "atomic_write path tmp next io fs0 =
     (let rm = (\<lambda>fs. if io_rmTmp io then fs(tmp := None) else fs) in
      if \<not> io_mkdir io then (Inl (PlainError ''mkdir''), [fs0])
      else if fs0 tmp \<noteq> None then (Inl (PlainError ''EEXIST''), [fs0, rm fs0])
      else let fs1 = fs0(tmp \<mapsto> Garbage) in
        if \<not> io_writeTmp io then (Inl (PlainError ''write''), [fs0, fs1, rm fs1])
        else let fs2 = fs1(tmp \<mapsto> StateFile next) in
          if \<not> io_renameTmp io then (Inl (PlainError ''rename''), [fs0, fs1, fs2, rm fs2])
          else let fs3 = fs2(tmp := None, path \<mapsto> StateFile next) in
            (Inr (), [fs0, fs1, fs2, fs3, rm fs3]))"

definition store_load :: "'s \<Rightarrow> bool \<Rightarrow> string \<Rightarrow> io \<Rightarrow> 's store \<Rightarrow> 's result \<times> 's store" where
  "store_load emptyState readOnly backup io st0 =
     (let st = st0\<lparr>sto_readOnly := readOnly\<rparr> in
      if \<not> readOnly \<and> \<not> io_mkdir io then (Inl (PlainError ''mkdir''), st)
      else case sto_fs st (sto_path st) of
             Some (StateFile s) \<Rightarrow> (Inr s, st\<lparr>sto_state := Some s\<rparr>)
           | None \<Rightarrow> (Inr emptyState, st\<lparr>sto_state := Some emptyState\<rparr>)
           | Some bad \<Rightarrow>
               if readOnly then (Inl (PlainError ''state_snapshot_unavailable''), st)
               else let fs1 = (if io_backup io then (sto_fs st)(sto_path st := None, backup \<mapsto> bad) else sto_fs st)
                    in (Inr emptyState, st\<lparr>sto_fs := fs1, sto_state := Some emptyState\<rparr>))"

definition store_snapshot :: "'s \<Rightarrow> 's store \<Rightarrow> 's" where
  "store_snapshot emptyState st = (case sto_state st of None \<Rightarrow> emptyState | Some s \<Rightarrow> s)"

text \<open>What surrounds one write: the random name of its temporary file, the name a corrupt file would
  be moved to, and what the file system does to it.\<close>

record tx_env =
  te_tmp :: string
  te_backup :: string
  te_io :: io

text \<open>One transaction. The mutator gets a copy, so what it did before throwing is lost with the copy.
  The result is what \<^verbatim>\<open>update\<close> resolves to.\<close>

definition store_update ::
  "'s \<Rightarrow> tx_env \<Rightarrow> ('s \<Rightarrow> 's result) \<Rightarrow> 's store \<Rightarrow> 's result \<times> 's store" where
  "store_update emptyState env mutator st0 =
     (if sto_readOnly st0 then (Inl (PlainError ''state_store_read_only''), st0)
      else case (if sto_state st0 = None then store_load emptyState False (te_backup env) (te_io env) st0 else (Inr emptyState, st0)) of
             (Inl e, st) \<Rightarrow> (Inl e, st)
           | (Inr _, st) \<Rightarrow>
               (case mutator (store_snapshot emptyState st) of
                  Inl e \<Rightarrow> (Inl e, st)
                | Inr next \<Rightarrow>
                    (case atomic_write (sto_path st) (te_tmp env) next (te_io env) (sto_fs st) of
                       (Inl e, trace) \<Rightarrow> (Inl e, st\<lparr>sto_fs := last trace\<rparr>)
                     | (Inr _, trace) \<Rightarrow> (Inr next, st\<lparr>sto_fs := last trace, sto_state := Some next\<rparr>))))"

text \<open>A transaction of the queue \<^verbatim>\<open>writeChain\<close>: its mutator and its surroundings. Transactions run one after the other; a failed one is reported to
  its caller only.\<close>

record 's transaction =
  tx_mutator :: "'s \<Rightarrow> 's result"
  tx_environment :: tx_env

definition run_transaction :: "'s \<Rightarrow> 's transaction \<Rightarrow> 's store \<Rightarrow> 's result \<times> 's store" where
  "run_transaction emptyState tx st =
     store_update emptyState (tx_environment tx) (tx_mutator tx) st"

fun run_transactions :: "'s \<Rightarrow> 's transaction list \<Rightarrow> 's store \<Rightarrow> 's result list \<times> 's store" where
  "run_transactions emptyState [] st = ([], st)"
| "run_transactions emptyState (tx # txs) st =
     (case run_transaction emptyState tx st of (r, st1) \<Rightarrow>
      (case run_transactions emptyState txs st1 of (rs, st2) \<Rightarrow> (r # rs, st2)))"

section \<open>Atomicity\<close>

lemma atomic_write_trace:
  assumes "tmp \<noteq> path" and "fs' \<in> set (snd (atomic_write path tmp next io fs))"
  shows "fs' path = fs path \<or> fs' path = Some (StateFile next)"
  using assms by (auto simp: atomic_write_def Let_def split: if_splits)

lemma atomic_write_last:
  assumes "tmp \<noteq> path" and "atomic_write path tmp next io fs = (r, trace)"
  shows "trace \<noteq> []" and "last trace path = (if r = Inr () then Some (StateFile next) else fs path)"
  using assms by (auto simp: atomic_write_def Let_def split: if_splits)

lemma atomic_write_others:
  assumes "p \<noteq> tmp" and "p \<noteq> path" and "fs' \<in> set (snd (atomic_write path tmp next io fs))"
  shows "fs' p = fs p"
  using assms by (auto simp: atomic_write_def Let_def split: if_splits)

text \<open>The store is in sync when the state in memory is the one on disk.\<close>

definition in_sync :: "'s store \<Rightarrow> bool" where
  "in_sync st \<longleftrightarrow> \<not> sto_readOnly st \<and>
     (case sto_state st of None \<Rightarrow> False | Some s \<Rightarrow> sto_fs st (sto_path st) = Some (StateFile s))"

lemma store_update_cases:
  assumes "in_sync st" and "te_tmp env \<noteq> sto_path st"
  shows "in_sync (snd (store_update e env m st)) \<and>
    sto_path (snd (store_update e env m st)) = sto_path st \<and>
    (case fst (store_update e env m st) of
       Inr s \<Rightarrow> m (the (sto_state st)) = Inr s \<and> sto_state (snd (store_update e env m st)) = Some s
     | Inl _ \<Rightarrow> sto_state (snd (store_update e env m st)) = sto_state st)"
proof -
  from assms(1) obtain s where s: "sto_state st = Some s" "sto_fs st (sto_path st) = Some (StateFile s)"
    and ro: "\<not> sto_readOnly st"
    by (auto simp: in_sync_def split: option.splits)
  show ?thesis
  proof (cases "m s")
    case (Inl a)
    then show ?thesis using s ro assms(1) by (simp add: store_update_def store_snapshot_def)
  next
    case (Inr s')
    obtain r trace where w: "atomic_write (sto_path st) (te_tmp env) s' (te_io env) (sto_fs st) = (r, trace)" by fastforce
    show ?thesis
      using atomic_write_last [OF assms(2) w] s ro Inr w
      by (cases r) (simp_all add: store_update_def store_snapshot_def in_sync_def)
  qed
qed

text \<open>Applying the mutators of the transactions that succeeded, in order.\<close>

fun apply_committed :: "('s transaction \<times> 's result) list \<Rightarrow> 's \<Rightarrow> 's result" where
  "apply_committed [] s = Inr s"
| "apply_committed ((tx, Inl _) # rest) s = apply_committed rest s"
| "apply_committed ((tx, Inr _) # rest) s =
     (case tx_mutator tx s of Inl e \<Rightarrow> Inl e | Inr s' \<Rightarrow> apply_committed rest s')"

lemma run_transactions_committed:
  assumes "in_sync st" and "\<forall>tx \<in> set txs. te_tmp (tx_environment tx) \<noteq> sto_path st"
  shows "in_sync (snd (run_transactions e txs st)) \<and>
    apply_committed (zip txs (fst (run_transactions e txs st))) (the (sto_state st))
      = Inr (the (sto_state (snd (run_transactions e txs st))))"
  using assms
proof (induction txs arbitrary: st)
  case (Cons tx txs)
  obtain r st1 where r: "run_transaction e tx st = (r, st1)" by fastforce
  note upd = store_update_cases [OF Cons.prems(1), of "tx_environment tx" e "tx_mutator tx"]
  have st1: "in_sync st1" "sto_path st1 = sto_path st"
    "case r of Inr s \<Rightarrow> tx_mutator tx (the (sto_state st)) = Inr s \<and> sto_state st1 = Some s
     | Inl _ \<Rightarrow> sto_state st1 = sto_state st"
    using upd Cons.prems(2) r by (cases r; simp add: run_transaction_def)+
  show ?case
    using Cons.IH [OF st1(1)] Cons.prems(2) st1 r by (cases r) (auto split: prod.splits)
qed simp

section \<open>The interface the components rely on\<close>

text \<open>
  A transactional store: a snapshot, and an update that either commits what the mutator made of the
  snapshot or leaves the snapshot alone. \<open>ready\<close> says that an update may be attempted.
\<close>

locale transactional_store =
  fixes snapshot :: "'st \<Rightarrow> 's" and update :: "'env \<Rightarrow> ('s \<Rightarrow> 's result) \<Rightarrow> 'st \<Rightarrow> 's result \<times> 'st"
    and ready :: "'env \<Rightarrow> 'st \<Rightarrow> bool"
  assumes commit: "ready env st \<Longrightarrow> update env m st = (Inr s', st') \<Longrightarrow> m (snapshot st) = Inr s' \<and> snapshot st' = s'"
    and abort: "ready env st \<Longrightarrow> update env m st = (Inl e, st') \<Longrightarrow> snapshot st' = snapshot st"
    and stays_ready: "ready env st \<Longrightarrow> ready env' st \<Longrightarrow> update env m st = (r, st') \<Longrightarrow> ready env' st'"
begin

text \<open>What every mutator keeps, every update keeps.\<close>

lemma update_keeps:
  assumes "ready env st" and "update env m st = (r, st')" and "P (snapshot st)"
    and "\<And>s'. m (snapshot st) = Inr s' \<Longrightarrow> P s'"
  shows "P (snapshot st')"
  using assms commit [OF assms(1), of m] abort [OF assms(1), of m] by (cases r) auto

lemma update_relates:
  assumes "ready env st" and "update env m st = (r, st')" and "R (snapshot st) (snapshot st)"
    and "\<And>s'. m (snapshot st) = Inr s' \<Longrightarrow> R (snapshot st) s'"
  shows "R (snapshot st) (snapshot st')"
  using update_keeps [of env st m r st' "R (snapshot st)"] assms by blast

end

definition store_ready :: "tx_env \<Rightarrow> 's store \<Rightarrow> bool" where
  "store_ready env st \<longleftrightarrow> in_sync st \<and> te_tmp env \<noteq> sto_path st"

interpretation local_store: transactional_store "store_snapshot e" "store_update e" store_ready
proof unfold_locales
  fix env st m s' st'
  assume "store_ready env st" "store_update e env m st = (Inr s', st')"
  then show "m (store_snapshot e st) = Inr s' \<and> store_snapshot e st' = s'"
    using store_update_cases [of st env e m]
    by (auto simp: store_ready_def store_snapshot_def in_sync_def split: option.splits)
next
  fix env st m er st'
  assume "store_ready env st" "store_update e env m st = (Inl er, st')"
  then show "store_snapshot e st' = store_snapshot e st"
    using store_update_cases [of st env e m] by (simp add: store_ready_def store_snapshot_def)
next
  fix env st env' m r st'
  assume "store_ready env st" "store_ready env' st" "store_update e env m st = (r, st')"
  then show "store_ready env' st'"
    using store_update_cases [of st env e m] by (simp add: store_ready_def)
qed

text \<open>With a file system that obeys and a fresh temporary name, an update commits.\<close>

definition store_writable :: "tx_env \<Rightarrow> 's store \<Rightarrow> bool" where
  "store_writable env st \<longleftrightarrow> store_ready env st \<and> te_io env = io_ok \<and> sto_fs st (te_tmp env) = None"

lemma store_update_commits:
  assumes "store_writable env st" and "m (store_snapshot e st) = Inr s'"
  shows "\<exists>st'. store_update e env m st = (Inr s', st') \<and> store_snapshot e st' = s'"
  using assms
  by (auto simp: store_writable_def store_ready_def in_sync_def store_update_def atomic_write_def io_ok_def
      store_snapshot_def Let_def split: option.splits)

text \<open>A store that has just been saved, and surroundings in which a write succeeds.\<close>

definition saved_store :: "'s \<Rightarrow> 's store" where
  "saved_store s = \<lparr>sto_path = ''state.json'', sto_state = Some s, sto_readOnly = False,
     sto_fs = [''state.json'' \<mapsto> StateFile s]\<rparr>"

definition quiet_env :: tx_env where
  "quiet_env = \<lparr>te_tmp = ''tmp'', te_backup = ''backup'', te_io = io_ok\<rparr>"

lemma saved_store_writable [simp]: "store_writable quiet_env (saved_store s)" "store_ready quiet_env (saved_store s)"
  "in_sync (saved_store s)" "store_snapshot e (saved_store s) = s"
  by (simp_all add: store_writable_def store_ready_def in_sync_def saved_store_def quiet_env_def store_snapshot_def)

section \<open>Properties\<close>

lemma in_sync_load:
  assumes "in_sync st" and "io_mkdir io"
  shows "fst (store_load e False b io (st\<lparr>sto_state := None\<rparr>)) = Inr (the (sto_state st))"
  using assms by (auto simp: in_sync_def store_load_def Let_def split: option.splits)

text \<open>
  C6. Transactions are atomic and isolated. For every queue of transactions, whatever mutators
  throw and whatever system calls fail, memory and disk agree at the end, and the state is the
  result of applying, in order, exactly the mutators whose callers were told of success; a caller
  that was told of a failure left no trace.
\<close>
theorem transactions_serializable:
  assumes "in_sync st" and "\<forall>tx \<in> set txs. te_tmp (tx_environment tx) \<noteq> sto_path st"
  shows "in_sync (snd (run_transactions e txs st)) \<and>
    apply_committed (zip txs (fst (run_transactions e txs st))) (the (sto_state st))
      = Inr (the (sto_state (snd (run_transactions e txs st))))"
  by (rule run_transactions_committed [OF assms])

theorem transactions_serializable_witness:
  "let st = \<lparr>sto_path = ''state.json'', sto_state = Some (0::int), sto_readOnly = False,
             sto_fs = [''state.json'' \<mapsto> StateFile 0]\<rparr>;
       txs = [\<lparr>tx_mutator = (\<lambda>n. Inr (n + 1)), tx_environment = \<lparr>te_tmp = ''t1'', te_backup = ''b'', te_io = io_ok\<rparr>\<rparr>,
              \<lparr>tx_mutator = (\<lambda>n. Inl (PlainError ''no'')), tx_environment = \<lparr>te_tmp = ''t2'', te_backup = ''b'', te_io = io_ok\<rparr>\<rparr>]
   in in_sync (snd (run_transactions 0 txs st)) \<and> the (sto_state (snd (run_transactions 0 txs st))) = 1"
proof -
  let ?st = "\<lparr>sto_path = ''state.json'', sto_state = Some (0::int), sto_readOnly = False,
             sto_fs = [''state.json'' \<mapsto> StateFile 0]\<rparr>"
  let ?txs = "[\<lparr>tx_mutator = (\<lambda>n. Inr (n + 1)), tx_environment = \<lparr>te_tmp = ''t1'', te_backup = ''b'', te_io = io_ok\<rparr>\<rparr>,
              \<lparr>tx_mutator = (\<lambda>n. Inl (PlainError ''no'')), tx_environment = \<lparr>te_tmp = ''t2'', te_backup = ''b'', te_io = io_ok\<rparr>\<rparr>]"
  have "in_sync ?st" by (simp add: in_sync_def)
  then have "in_sync (snd (run_transactions 0 ?txs ?st))"
    using transactions_serializable [of ?st ?txs 0] by simp
  moreover have "the (sto_state (snd (run_transactions 0 ?txs ?st))) = 1"
    by (simp add: run_transaction_def store_update_def store_snapshot_def atomic_write_def io_ok_def Let_def)
  ultimately show ?thesis by (simp only: Let_def)
qed

text \<open>
  C7. A crash loses at most the transaction that was running. If the node stops between any two
  system calls of a write and starts again, \<^verbatim>\<open>load\<close> returns the state before the transaction or
  the complete state after it, never a partial one and never the empty one.
\<close>
theorem crash_safe:
  assumes "in_sync st" and "tmp \<noteq> sto_path st" and "io_mkdir io'"
    and "crashed \<in> set (snd (atomic_write (sto_path st) tmp next io (sto_fs st)))"
  shows "fst (store_load e False b io' (st\<lparr>sto_fs := crashed, sto_state := None\<rparr>)) \<in>
    {Inr (the (sto_state st)), Inr next}"
proof -
  have "sto_fs st (sto_path st) = Some (StateFile (the (sto_state st)))"
    using assms(1) by (auto simp: in_sync_def split: option.splits)
  then have "crashed (sto_path st) = Some (StateFile (the (sto_state st))) \<or> crashed (sto_path st) = Some (StateFile next)"
    using atomic_write_trace [OF assms(2, 4)] by simp
  then show ?thesis
    using assms(3) by (auto simp: store_load_def Let_def)
qed

theorem crash_safe_witness:
  "fst (store_load 9 False ''b'' io_ok \<lparr>sto_path = ''s'', sto_state = None, sto_readOnly = False,
      sto_fs = [''s'' \<mapsto> StateFile (1::int), ''t'' \<mapsto> Garbage]\<rparr>) \<in> {Inr 1, Inr 2}"
proof -
  let ?st = "\<lparr>sto_path = ''s'', sto_state = Some (1::int), sto_readOnly = False, sto_fs = [''s'' \<mapsto> StateFile 1]\<rparr>"
  have "in_sync ?st" by (simp add: in_sync_def)
  moreover have "[''s'' \<mapsto> StateFile 1, ''t'' \<mapsto> Garbage] \<in> set (snd (atomic_write ''s'' ''t'' 2 io_ok [''s'' \<mapsto> StateFile 1]))"
    by (simp add: atomic_write_def io_ok_def Let_def)
  ultimately show ?thesis
    using crash_safe [of ?st "''t''" io_ok "[''s'' \<mapsto> StateFile 1, ''t'' \<mapsto> Garbage]" 2 io_ok 9 "''b''"]
    by (simp add: io_ok_def)
qed

end
