(* ===== verification/Pairing_Service.thy ===== *)
theory Pairing_Service
  imports Local_Store
begin

text \<open>
  Pairing and credentials, \<^verbatim>\<open>src/src/localApi/pairingService.ts\<close>: minting a pairing session, exchanging
  its secret for a credential, issuing a credential for a remote attachment, revoking one and
  authorizing a request. The part of the durable state it uses is \<open>pairing_state\<close>, held in a
  \<open>store\<close>. SHA-256 in hexadecimal is the parameter \<open>sha\<close>; random identifiers, secrets and the clock
  are arguments. \<^verbatim>\<open>exchange\<close> reads a snapshot first and commits in a later transaction, so the two
  halves are definitions of their own and other transactions may run in between.
\<close>

section \<open>Model\<close>

record pairing_session =
  se_secretHash :: string
  se_createdAt :: int
  se_expiresAt :: int
  se_usedAt :: "int option"

record credential =
  cr_tokenHash :: string
  cr_label :: "string option"
  cr_scopes :: "local_scope list"
  cr_createdAt :: int
  cr_lastUsedAt :: "int option"
  cr_revokedAt :: "int option"

record pairing_state =
  ps_nodeKey :: "string option"
  ps_nodeId :: "string option"
  ps_pairingSessions :: "(string, pairing_session) jsmap"
  ps_localCredentials :: "(string, credential) jsmap"

definition empty_pairing :: pairing_state where
  "empty_pairing = \<lparr>ps_nodeKey = None, ps_nodeId = None, ps_pairingSessions = [], ps_localCredentials = []\<rparr>"

type_synonym pairing_store = "pairing_state store"

abbreviation p_snapshot :: "pairing_store \<Rightarrow> pairing_state" where
  "p_snapshot \<equiv> store_snapshot empty_pairing"

abbreviation p_update ::
  "tx_env \<Rightarrow> (pairing_state \<Rightarrow> pairing_state result) \<Rightarrow> pairing_store \<Rightarrow> pairing_state result \<times> pairing_store" where
  "p_update \<equiv> store_update empty_pairing"

text \<open>\<^verbatim>\<open>getOrCreateNodeKey(provided)\<close>; \<open>generated\<close> is the random key.\<close>

definition getOrCreateNodeKey ::
  "tx_env \<Rightarrow> string option \<Rightarrow> string \<Rightarrow> pairing_store \<Rightarrow> string result \<times> pairing_store" where
  "getOrCreateNodeKey env provided generated st =
     (let existing = ps_nodeKey (p_snapshot st) in
      if trim (opt_str provided) \<noteq> [] then
        (case p_update env (\<lambda>s. Inr (s\<lparr>ps_nodeKey := Some (trim (opt_str provided))\<rparr>)) st of
           (Inl e, st1) \<Rightarrow> (Inl e, st1) | (Inr _, st1) \<Rightarrow> (Inr (trim (opt_str provided)), st1))
      else if opt_str existing \<noteq> [] then (Inr (opt_str existing), st)
      else (case p_update env (\<lambda>s. Inr (s\<lparr>ps_nodeKey := Some (''kubus-node-'' @ generated)\<rparr>)) st of
              (Inl e, st1) \<Rightarrow> (Inl e, st1) | (Inr _, st1) \<Rightarrow> (Inr (''kubus-node-'' @ generated), st1)))"

text \<open>\<^verbatim>\<open>Buffer.from(s, 'hex')\<close> decodes pairs of hexadecimal digits up to the first that is not one.\<close>

fun hex_decode :: "string \<Rightarrow> nat list" where
  "hex_decode (a # b # s) =
     (case (hex_value a, hex_value b) of (Some x, Some y) \<Rightarrow> (16 * x + y) # hex_decode s | _ \<Rightarrow> [])"
| "hex_decode _ = []"

definition safeEqual :: "string \<Rightarrow> string \<Rightarrow> bool" where
  "safeEqual left right \<longleftrightarrow>
     length (hex_decode left) = length (hex_decode right) \<and> hex_decode left = hex_decode right"

definition pairingAttemptKey :: "(string \<Rightarrow> string) \<Rightarrow> string \<Rightarrow> string \<Rightarrow> string" where
  "pairingAttemptKey sha client sessionId = client @ '':'' @ take 24 (sha sessionId)"

text \<open>\<^verbatim>\<open>URLSearchParams\<close> serialization: letters, digits and \<^verbatim>\<open>*-._\<close> stay, a space becomes \<^verbatim>\<open>+\<close>,
  every other byte is percent-encoded.\<close>

definition upper_hex_digit :: "nat \<Rightarrow> char" where
  "upper_hex_digit n = (if n < 10 then char_of (48 + n) else char_of (55 + n))"

definition form_char :: "char \<Rightarrow> string" where
  "form_char c =
     (if is_alnum c \<or> c \<in> set ''*-._'' then [c]
      else if c = CHR '' '' then ''+''
      else [CHR ''%'', upper_hex_digit (char_code c div 16), upper_hex_digit (char_code c mod 16)])"

definition form_encode :: "string \<Rightarrow> string" where
  "form_encode s = concat (map form_char s)"

definition form_serialize :: "(string \<times> string) list \<Rightarrow> string" where
  "form_serialize ps = join_with ''&'' (map (\<lambda>(k, v). form_encode k @ ''='' @ form_encode v) ps)"

record pairing_payload =
  pp_endpoint :: string
  pp_alternateEndpoints :: "string list"
  pp_sessionId :: string
  pp_secret :: string
  pp_nodeId :: string
  pp_label :: string
  pp_fingerprint :: string
  pp_publicKey :: string

definition serializePairingPayload :: "pairing_payload \<Rightarrow> string" where
  "serializePairingPayload input =
     ''kubus-node://pair?'' @ form_serialize
       ([(''v'', ''3''), (''e'', pp_endpoint input), (''s'', pp_sessionId input), (''k'', pp_secret input),
         (''n'', pp_nodeId input), (''l'', take 80 (pp_label input)), (''f'', pp_fingerprint input),
         (''pk'', pp_publicKey input)]
        @ map (\<lambda>endpoint. (''a'', endpoint)) (pp_alternateEndpoints input))"

record pairing_config =
  pc_nodeKey :: "string option"
  pc_nodeLabel :: string
  pc_pairingSessionTtlMs :: int
  pc_localApiAllowLan :: bool
  pc_localApiLanUrl :: "string option"
  pc_localApiRemoteUrl :: "string option"
  pc_fingerprint :: string
  pc_publicKeyBase64Url :: string

record pairing_session_response =
  psr_sessionId :: string
  psr_secret :: string
  psr_expiresAt :: int
  psr_payload :: string
  psr_nodeId :: string
  psr_endpoints :: "string list"

definition session_endpoints :: "pairing_config \<Rightarrow> string list" where
  "session_endpoints cfg =
     filter (\<lambda>e. e \<noteq> [])
       (map opt_str [if pc_localApiAllowLan cfg then pc_localApiLanUrl cfg else None, pc_localApiRemoteUrl cfg])"

text \<open>The mutator of \<^verbatim>\<open>createSession\<close>: drop expired and used sessions, add the new one.\<close>

definition session_mutator :: "(string \<Rightarrow> string) \<Rightarrow> string \<Rightarrow> string \<Rightarrow> int \<Rightarrow> int \<Rightarrow> pairing_state \<Rightarrow> pairing_state result" where
  "session_mutator sha sid secret now expiresAt s =
     Inr (s\<lparr>ps_pairingSessions :=
       jm_set sid \<lparr>se_secretHash = sha secret, se_createdAt = now, se_expiresAt = expiresAt, se_usedAt = None\<rparr>
         (filter (\<lambda>(_, se). \<not> (se_expiresAt se \<le> now \<or> se_usedAt se \<noteq> None)) (ps_pairingSessions s))\<rparr>)"

definition createSession ::
  "(string \<Rightarrow> string) \<Rightarrow> pairing_config \<Rightarrow> tx_env \<Rightarrow> tx_env \<Rightarrow> string \<Rightarrow> string \<Rightarrow> string \<Rightarrow> int \<Rightarrow> pairing_store
    \<Rightarrow> pairing_session_response result \<times> pairing_store" where
  "createSession sha cfg env1 env2 generatedKey sid secret now st0 =
     (case getOrCreateNodeKey env1 (pc_nodeKey cfg) generatedKey st0 of
        (Inl e, st1) \<Rightarrow> (Inl e, st1)
      | (Inr _, st1) \<Rightarrow>
          let expiresAt = now + pc_pairingSessionTtlMs cfg in
          (case p_update env2 (session_mutator sha sid secret now expiresAt) st1 of
             (Inl e, st2) \<Rightarrow> (Inl e, st2)
           | (Inr _, st2) \<Rightarrow>
               (case session_endpoints cfg of
                  [] \<Rightarrow> (Inl (localError 409 ''pairing_endpoint_unavailable''), st2)
                | endpoint # alternates \<Rightarrow>
                    let nodeId = str_or (opt_str (ps_nodeId (p_snapshot st2))) (''local-'' @ pc_fingerprint cfg) in
                    (Inr \<lparr>psr_sessionId = sid, psr_secret = secret, psr_expiresAt = expiresAt,
                          psr_payload = serializePairingPayload
                            \<lparr>pp_endpoint = endpoint, pp_alternateEndpoints = alternates, pp_sessionId = sid,
                             pp_secret = secret, pp_nodeId = nodeId, pp_label = pc_nodeLabel cfg,
                             pp_fingerprint = pc_fingerprint cfg, pp_publicKey = pc_publicKeyBase64Url cfg\<rparr>,
                          psr_nodeId = nodeId, psr_endpoints = endpoint # alternates\<rparr>, st2))))"

text \<open>The first half of \<^verbatim>\<open>exchange\<close>: what the snapshot is checked for.\<close>

definition exchange_check :: "(string \<Rightarrow> string) \<Rightarrow> string \<Rightarrow> string \<Rightarrow> int \<Rightarrow> pairing_state \<Rightarrow> unit result" where
  "exchange_check sha sessionId secret now s =
     (case jm_get (ps_pairingSessions s) sessionId of
        None \<Rightarrow> Inl (localError 401 ''invalid_pairing_session'')
      | Some session \<Rightarrow>
          if se_usedAt session \<noteq> None then Inl (localError 409 ''pairing_session_replayed'')
          else if se_expiresAt session \<le> now then Inl (localError 410 ''pairing_session_expired'')
          else if secret = [] \<or> \<not> safeEqual (se_secretHash session) (sha secret)
          then Inl (localError 401 ''invalid_pairing_secret'')
          else Inr ())"

definition use_session :: "string \<Rightarrow> int \<Rightarrow> pairing_state \<Rightarrow> pairing_state result" where
  "use_session sessionId now s =
     (case jm_get (ps_pairingSessions s) sessionId of
        None \<Rightarrow> Inl (localError 409 ''pairing_session_replayed'')
      | Some current \<Rightarrow>
          if se_usedAt current \<noteq> None then Inl (localError 409 ''pairing_session_replayed'')
          else Inr (s\<lparr>ps_pairingSessions := jm_set sessionId (current\<lparr>se_usedAt := Some now\<rparr>) (ps_pairingSessions s)\<rparr>))"

definition refuse_known :: "string \<Rightarrow> pairing_state \<Rightarrow> pairing_state result" where
  "refuse_known authorizationId s =
     (if jm_has (ps_localCredentials s) authorizationId then Inl (localError 409 ''remote_attach_replayed'') else Inr s)"

definition add_credential ::
  "(string \<Rightarrow> string) \<Rightarrow> string \<Rightarrow> string option \<Rightarrow> string \<Rightarrow> int \<Rightarrow> pairing_state \<Rightarrow> pairing_state" where
  "add_credential sha credentialId label token now s =
     s\<lparr>ps_localCredentials := jm_set credentialId
         \<lparr>cr_tokenHash = sha token, cr_label = map_option (take 80) label, cr_scopes = LOCAL_SCOPES,
          cr_createdAt = now, cr_lastUsedAt = None, cr_revokedAt = None\<rparr> (ps_localCredentials s)\<rparr>"

record issued =
  iss_token :: string
  iss_credentialId :: string
  iss_scopes :: "local_scope list"

definition local_token :: "string \<Rightarrow> string" where
  "local_token random = ''kubus_local_'' @ random"

text \<open>\<open>random\<close> is \<^verbatim>\<open>crypto.randomBytes(32).toString('base64url')\<close>.\<close>

definition issueCredential ::
  "(string \<Rightarrow> string) \<Rightarrow> tx_env \<Rightarrow> string option \<Rightarrow> (pairing_state \<Rightarrow> pairing_state result) \<Rightarrow> string \<Rightarrow> string \<Rightarrow> int
    \<Rightarrow> pairing_store \<Rightarrow> issued result \<times> pairing_store" where
  "issueCredential sha env label authorize credentialId random now st =
     (let token = local_token random in
      case p_update env (\<lambda>s. map_sum id (add_credential sha credentialId label token now) (authorize s)) st of
        (Inl e, st1) \<Rightarrow> (Inl e, st1)
      | (Inr _, st1) \<Rightarrow> (Inr \<lparr>iss_token = token, iss_credentialId = credentialId, iss_scopes = LOCAL_SCOPES\<rparr>, st1))"

text \<open>The second half of \<^verbatim>\<open>exchange\<close>, and the whole of it.\<close>

definition exchange_commit ::
  "(string \<Rightarrow> string) \<Rightarrow> tx_env \<Rightarrow> string \<Rightarrow> string option \<Rightarrow> string \<Rightarrow> string \<Rightarrow> int \<Rightarrow> pairing_store
    \<Rightarrow> issued result \<times> pairing_store" where
  "exchange_commit sha env sessionId label credentialId random now st =
     issueCredential sha env label (use_session sessionId now) credentialId random now st"

definition exchange ::
  "(string \<Rightarrow> string) \<Rightarrow> tx_env \<Rightarrow> string \<Rightarrow> string \<Rightarrow> string option \<Rightarrow> string \<Rightarrow> string \<Rightarrow> int \<Rightarrow> int \<Rightarrow> pairing_store
    \<Rightarrow> issued result \<times> pairing_store" where
  "exchange sha env sessionId secret label credentialId random now now' st =
     (case exchange_check sha sessionId secret now (p_snapshot st) of
        Inl e \<Rightarrow> (Inl e, st)
      | Inr _ \<Rightarrow> exchange_commit sha env sessionId label credentialId random now' st)"

definition issueRemoteCredential ::
  "(string \<Rightarrow> string) \<Rightarrow> tx_env \<Rightarrow> string \<Rightarrow> string \<Rightarrow> int \<Rightarrow> pairing_store \<Rightarrow> issued result \<times> pairing_store" where
  "issueRemoteCredential sha env authorizationId random now st =
     issueCredential sha env (Some ''art.kubus remote device'') (refuse_known authorizationId) authorizationId random now st"

definition mark_revoked :: "string \<Rightarrow> int \<Rightarrow> pairing_state \<Rightarrow> pairing_state" where
  "mark_revoked credentialId now s =
     (case jm_get (ps_localCredentials s) credentialId of
        None \<Rightarrow> s
      | Some current \<Rightarrow>
          s\<lparr>ps_localCredentials := jm_set credentialId (current\<lparr>cr_revokedAt := Some now\<rparr>) (ps_localCredentials s)\<rparr>)"

definition revoke :: "tx_env \<Rightarrow> string \<Rightarrow> int \<Rightarrow> pairing_store \<Rightarrow> unit result \<times> pairing_store" where
  "revoke env credentialId now st =
     (case jm_get (ps_localCredentials (p_snapshot st)) credentialId of
        None \<Rightarrow> (Inl (localError 404 ''device_not_found''), st)
      | Some credential \<Rightarrow>
          if cr_revokedAt credential \<noteq> None then (Inl (localError 404 ''device_not_found''), st)
          else (case p_update env (\<lambda>s. Inr (mark_revoked credentialId now s)) st of
                  (Inl e, st1) \<Rightarrow> (Inl e, st1) | (Inr _, st1) \<Rightarrow> (Inr (), st1)))"

definition find_credential :: "(string \<Rightarrow> string) \<Rightarrow> string \<Rightarrow> pairing_state \<Rightarrow> (string \<times> credential) option" where
  "find_credential sha token s =
     find (\<lambda>(_, c). cr_revokedAt c = None \<and> safeEqual (cr_tokenHash c) (sha token)) (ps_localCredentials s)"

definition mark_used :: "string \<Rightarrow> int \<Rightarrow> pairing_state \<Rightarrow> pairing_state" where
  "mark_used credentialId now s =
     (case jm_get (ps_localCredentials s) credentialId of
        None \<Rightarrow> s
      | Some current \<Rightarrow>
          s\<lparr>ps_localCredentials := jm_set credentialId (current\<lparr>cr_lastUsedAt := Some now\<rparr>) (ps_localCredentials s)\<rparr>)"

definition authorize ::
  "(string \<Rightarrow> string) \<Rightarrow> tx_env \<Rightarrow> string option \<Rightarrow> local_scope \<Rightarrow> int \<Rightarrow> pairing_store \<Rightarrow> bool result \<times> pairing_store" where
  "authorize sha env token requiredScope now st =
     (if \<not> starts_with (opt_str token) ''kubus_local_'' then (Inr False, st)
      else case find_credential sha (opt_str token) (p_snapshot st) of
             None \<Rightarrow> (Inr False, st)
           | Some (cid, c) \<Rightarrow>
               if requiredScope \<notin> set (cr_scopes c) then (Inr False, st)
               else (case p_update env (\<lambda>s. Inr (mark_used cid now s)) st of
                       (Inl e, st1) \<Rightarrow> (Inl e, st1) | (Inr _, st1) \<Rightarrow> (Inr True, st1)))"

section \<open>Transactions of the service\<close>

text \<open>Every write of the service is one of these transactions, in the order of the store's queue.\<close>

datatype pairing_tx =
    TxNodeKey string
  | TxSession string string int int
  | TxExchange string "string option" string string int
  | TxRemote string string int
  | TxRevoke string int
  | TxUsed string int

fun tx_token :: "pairing_tx \<Rightarrow> string option" where
  "tx_token (TxExchange _ _ _ random _) = Some (local_token random)"
| "tx_token (TxRemote _ random _) = Some (local_token random)"
| "tx_token _ = None"

fun pairing_mutator :: "(string \<Rightarrow> string) \<Rightarrow> pairing_tx \<Rightarrow> pairing_state \<Rightarrow> pairing_state result" where
  "pairing_mutator sha (TxNodeKey k) s = Inr (s\<lparr>ps_nodeKey := Some k\<rparr>)"
| "pairing_mutator sha (TxSession sid secret now expiresAt) s = session_mutator sha sid secret now expiresAt s"
| "pairing_mutator sha (TxExchange sid label cid random now) s =
     map_sum id (add_credential sha cid label (local_token random) now) (use_session sid now s)"
| "pairing_mutator sha (TxRemote aid random now) s =
     map_sum id (add_credential sha aid (Some ''art.kubus remote device'') (local_token random) now) (refuse_known aid s)"
| "pairing_mutator sha (TxRevoke cid now) s = Inr (mark_revoked cid now s)"
| "pairing_mutator sha (TxUsed cid now) s = Inr (mark_used cid now s)"

definition pairing_run :: "(string \<Rightarrow> string) \<Rightarrow> tx_env \<times> pairing_tx \<Rightarrow> pairing_store \<Rightarrow> pairing_state result \<times> pairing_store" where
  "pairing_run sha e st = p_update (fst e) (pairing_mutator sha (snd e)) st"

lemma exchange_commit_run:
  "exchange_commit sha env sid label cid random now st =
     (case pairing_run sha (env, TxExchange sid label cid random now) st of
        (Inl e, st1) \<Rightarrow> (Inl e, st1)
      | (Inr _, st1) \<Rightarrow> (Inr \<lparr>iss_token = local_token random, iss_credentialId = cid, iss_scopes = LOCAL_SCOPES\<rparr>, st1))"
proof -
  have "pairing_mutator sha (TxExchange sid label cid random now) =
      (\<lambda>s. map_sum id (add_credential sha cid label (local_token random) now) (use_session sid now s))"
    by (rule ext) simp
  then show ?thesis
    by (simp only: exchange_commit_def issueCredential_def pairing_run_def Let_def fst_conv snd_conv)
qed

subsection \<open>A session is used once\<close>

definition session_spent :: "string \<Rightarrow> pairing_state \<Rightarrow> bool" where
  "session_spent sid s \<longleftrightarrow> (case jm_get (ps_pairingSessions s) sid of None \<Rightarrow> True | Some se \<Rightarrow> se_usedAt se \<noteq> None)"

definition wf_pairing :: "pairing_state \<Rightarrow> bool" where
  "wf_pairing s \<longleftrightarrow> wf_map (ps_pairingSessions s) \<and> wf_map (ps_localCredentials s)"

lemma pairing_mutator_wf: "wf_pairing s \<Longrightarrow> pairing_mutator sha tx s = Inr s' \<Longrightarrow> wf_pairing s'"
  by (cases tx) (auto simp: wf_pairing_def session_mutator_def use_session_def refuse_known_def add_credential_def
      mark_revoked_def mark_used_def split: option.splits if_splits)

lemma spent_stays:
  assumes "wf_pairing s" and "session_spent sid s" and "pairing_mutator sha tx s = Inr s'"
    and "\<forall>secret now ex. tx \<noteq> TxSession sid secret now ex"
  shows "session_spent sid s'"
  using assms
  by (cases tx) (auto simp: session_spent_def session_mutator_def use_session_def refuse_known_def add_credential_def
      mark_revoked_def mark_used_def wf_pairing_def jm_get_filter split: option.splits if_splits)

lemma spent_refuses: "session_spent sid s \<Longrightarrow> pairing_mutator sha (TxExchange sid l c r n) s = Inl (localError 409 ''pairing_session_replayed'')"
  by (auto simp: session_spent_def use_session_def split: option.splits)

lemma exchange_spends: "pairing_mutator sha (TxExchange sid l c r n) s = Inr s' \<Longrightarrow> session_spent sid s'"
  by (auto simp: session_spent_def use_session_def add_credential_def split: option.splits if_splits)

subsection \<open>A dead token stays dead\<close>

definition creds_dead :: "string \<Rightarrow> (string, credential) jsmap \<Rightarrow> bool" where
  "creds_dead h m \<longleftrightarrow> (\<forall>(cid, c) \<in> set m. cr_revokedAt c = None \<longrightarrow> \<not> safeEqual (cr_tokenHash c) h)"

abbreviation token_dead :: "(string \<Rightarrow> string) \<Rightarrow> string \<Rightarrow> pairing_state \<Rightarrow> bool" where
  "token_dead sha token s \<equiv> creds_dead (sha token) (ps_localCredentials s)"

lemma token_dead_find: "token_dead sha token s \<longleftrightarrow> find_credential sha token s = None"
  by (force simp: creds_dead_def find_credential_def find_None_iff)

lemma creds_dead_set:
  "creds_dead h m \<Longrightarrow> cr_revokedAt c = None \<longrightarrow> \<not> safeEqual (cr_tokenHash c) h \<Longrightarrow> creds_dead h (jm_set cid c m)"
  using set_jm_set [of cid c m] by (fastforce simp: creds_dead_def)

lemma creds_dead_get: "creds_dead h m \<Longrightarrow> jm_get m cid = Some c \<Longrightarrow> cr_revokedAt c = None \<Longrightarrow> \<not> safeEqual (cr_tokenHash c) h"
  by (auto simp: creds_dead_def dest: jm_get_memD)

lemma dead_stays:
  assumes "token_dead sha token s" and "pairing_mutator sha tx s = Inr s'"
    and "\<forall>t. tx_token tx = Some t \<longrightarrow> \<not> safeEqual (sha t) (sha token)"
  shows "token_dead sha token s'"
proof (cases tx)
  case (TxUsed cid now)
  then show ?thesis
    using assms by (auto simp: mark_used_def creds_dead_get intro!: creds_dead_set split: option.splits)
qed (use assms in \<open>auto simp: session_mutator_def use_session_def refuse_known_def add_credential_def
      mark_revoked_def intro!: creds_dead_set split: option.splits if_splits\<close>)

section \<open>Properties\<close>

text \<open>Whether an event is a successful exchange of the given session.\<close>

definition exchange_step ::
  "(string \<Rightarrow> string) \<Rightarrow> string \<Rightarrow> tx_env \<times> pairing_tx \<Rightarrow> pairing_store \<Rightarrow> bool \<times> pairing_store" where
  "exchange_step sha sid e st =
     (case pairing_run sha e st of (r, st') \<Rightarrow>
        ((\<exists>l c x n. snd e = TxExchange sid l c x n) \<and> (\<exists>s. r = Inr s), st'))"

lemma pairing_run_keeps:
  assumes "store_ready (fst e) st" and "pairing_run sha e st = (r, st')"
    and "P (p_snapshot st)" and "\<And>s'. pairing_mutator sha (snd e) (p_snapshot st) = Inr s' \<Longrightarrow> P s'"
  shows "P (p_snapshot st')"
  using local_store.update_keeps [OF assms(1), of empty_pairing "pairing_mutator sha (snd e)" r st' P] assms(2-4)
  by (simp add: pairing_run_def)

lemma pairing_run_ready:
  "store_ready (fst e) st \<Longrightarrow> store_ready env st \<Longrightarrow> pairing_run sha e st = (r, st') \<Longrightarrow> store_ready env st'"
  by (auto simp: pairing_run_def intro: local_store.stays_ready)

lemma spent_never_exchanges:
  assumes "\<forall>e \<in> set es. store_ready (fst e) st" and "wf_pairing (p_snapshot st)" and "session_spent sid (p_snapshot st)"
    and "\<forall>e \<in> set es. \<forall>secret now ex. snd e \<noteq> TxSession sid secret now ex"
  shows "run_admit (exchange_step sha sid) es st = 0"
  using assms
proof (induction es arbitrary: st)
  case (Cons e es)
  obtain r st' where r: "pairing_run sha e st = (r, st')" by fastforce
  have ready: "store_ready (fst e) st" using Cons.prems(1) by simp
  have "wf_pairing (p_snapshot st') \<and> session_spent sid (p_snapshot st')"
    using pairing_run_keeps [OF ready r, of "\<lambda>s. wf_pairing s \<and> session_spent sid s"] Cons.prems
      pairing_mutator_wf spent_stays by (metis list.set_intros(1))
  moreover have "\<forall>e' \<in> set es. store_ready (fst e') st'"
    using Cons.prems(1) pairing_run_ready [OF ready _ r] by auto
  ultimately have "run_admit (exchange_step sha sid) es st' = 0"
    using Cons.IH [of st'] Cons.prems(4) by simp
  moreover have "snd e \<noteq> TxExchange sid l c x n" if "r = Inr s" for s l c x n
    using local_store.commit [OF ready, of empty_pairing "pairing_mutator sha (snd e)" s st'] r that
      spent_refuses [OF Cons.prems(3), of sha l c x n] by (auto simp: pairing_run_def)
  then have "exchange_step sha sid e st = (False, st')"
    unfolding exchange_step_def r by simp blast
  ultimately show ?case by simp
qed simp

text \<open>
  C4. A pairing session is exchanged at most once. Over every sequence of the service's
  transactions, from any state and whatever writes fail, at most one exchange of a given session
  succeeds, as long as its random identifier is not minted again; two clients that both pass the
  check on a snapshot cannot both get a credential.
\<close>
theorem session_exchanged_once:
  assumes "\<forall>e \<in> set es. store_ready (fst e) st" and "wf_pairing (p_snapshot st)"
    and "\<forall>e \<in> set es. \<forall>secret now ex. snd e \<noteq> TxSession sid secret now ex"
  shows "run_admit (exchange_step sha sid) es st \<le> 1"
  using assms
proof (induction es arbitrary: st)
  case (Cons e es)
  obtain b st' where st': "exchange_step sha sid e st = (b, st')" by fastforce
  then obtain r where r: "pairing_run sha e st = (r, st')" by (auto simp: exchange_step_def split: prod.splits)
  have ready: "store_ready (fst e) st" using Cons.prems(1) by simp
  have wf: "wf_pairing (p_snapshot st')"
    using pairing_run_keeps [OF ready r, of wf_pairing] Cons.prems(2) pairing_mutator_wf by blast
  have readys: "\<forall>e' \<in> set es. store_ready (fst e') st'"
    using Cons.prems(1) pairing_run_ready [OF ready _ r] by auto
  show ?case
  proof (cases b)
    case True
    then have "session_spent sid (p_snapshot st')"
      using st' r local_store.commit [OF ready, of empty_pairing "pairing_mutator sha (snd e)"] exchange_spends
      by (auto simp: exchange_step_def pairing_run_def)
    then show ?thesis
      using spent_never_exchanges [OF readys wf] Cons.prems(3) st' by simp
  next
    case False
    then show ?thesis
      using Cons.IH [OF readys wf] Cons.prems(3) st' by simp
  qed
qed simp

lemma dead_after_run:
  assumes "\<forall>e \<in> set es. store_ready (fst e) st" and "token_dead sha token (p_snapshot st)"
    and "\<forall>e \<in> set es. \<forall>t. tx_token (snd e) = Some t \<longrightarrow> \<not> safeEqual (sha t) (sha token)"
  shows "token_dead sha token (p_snapshot (fold (\<lambda>e st. snd (pairing_run sha e st)) es st))"
  using assms
proof (induction es arbitrary: st)
  case (Cons e es)
  obtain r st' where r: "pairing_run sha e st = (r, st')" by fastforce
  have ready: "store_ready (fst e) st" using Cons.prems(1) by simp
  have "token_dead sha token (p_snapshot st')"
    using pairing_run_keeps [OF ready r, of "token_dead sha token"] Cons.prems(2, 3) dead_stays
    by (metis list.set_intros(1))
  then show ?case
    using Cons.IH [of st'] Cons.prems(1, 3) pairing_run_ready [OF ready _ r] r by simp
qed simp

text \<open>Every other live credential is that of another token.\<close>

definition only_credential :: "(string \<Rightarrow> string) \<Rightarrow> string \<Rightarrow> string \<Rightarrow> pairing_state \<Rightarrow> bool" where
  "only_credential sha token cid s \<longleftrightarrow>
     (\<forall>(k, c) \<in> set (ps_localCredentials s). k = cid \<or> cr_revokedAt c \<noteq> None \<or> \<not> safeEqual (cr_tokenHash c) (sha token))"

lemma revoke_kills:
  assumes "store_ready env st" and "wf_pairing (p_snapshot st)" and "only_credential sha token cid (p_snapshot st)"
    and "revoke env cid now st = (Inr (), st')"
  shows "token_dead sha token (p_snapshot st')"
proof -
  let ?m = "ps_localCredentials (p_snapshot st)"
  obtain c s' where c: "jm_get ?m cid = Some c"
    and up: "p_update env (\<lambda>s. Inr (mark_revoked cid now s)) st = (Inr s', st')"
    using assms(4) by (auto simp: revoke_def split: option.splits if_splits prod.splits sum.splits)
  have "ps_localCredentials (p_snapshot st') = jm_set cid (c\<lparr>cr_revokedAt := Some now\<rparr>) ?m"
    using local_store.commit [OF assms(1) up] c by (auto simp: mark_revoked_def)
  moreover have "set (jm_set cid (c\<lparr>cr_revokedAt := Some now\<rparr>) ?m) =
      insert (cid, c\<lparr>cr_revokedAt := Some now\<rparr>) {(k, v) \<in> set ?m. k \<noteq> cid}"
    using assms(2) by (intro set_jm_set_wf) (simp add: wf_pairing_def)
  ultimately show ?thesis
    using assms(3) by (auto simp: creds_dead_def only_credential_def)
qed

text \<open>
  C5. A revoked token is refused for good. When \<^verbatim>\<open>revoke\<close> returns for the credential that a token finds, and no other live
  credential is one of that token, then \<^verbatim>\<open>authorize\<close> answers false for the token, for every scope, at once and after every
  later sequence of the service's transactions, whatever writes fail, as long as no token with the same hash is issued.
\<close>
theorem revoked_stays_revoked:
  assumes "store_ready env st" and "\<forall>e \<in> set es. store_ready (fst e) st" and "wf_pairing (p_snapshot st)"
    and "find_credential sha token (p_snapshot st) = Some (cid, c)" and "only_credential sha token cid (p_snapshot st)"
    and "revoke env cid now st = (Inr (), st')"
    and "\<forall>e \<in> set es. \<forall>t. tx_token (snd e) = Some t \<longrightarrow> \<not> safeEqual (sha t) (sha token)"
  shows "fst (authorize sha env' (Some token) scope now' (fold (\<lambda>e st. snd (pairing_run sha e st)) es st')) = Inr False"
proof -
  obtain s' where up: "p_update env (\<lambda>s. Inr (mark_revoked cid now s)) st = (Inr s', st')"
    using assms(6) by (auto simp: revoke_def split: option.splits if_splits prod.splits sum.splits)
  have "\<forall>e \<in> set es. store_ready (fst e) st'"
    using assms(1, 2) local_store.stays_ready [OF assms(1) _ up] by blast
  from dead_after_run [OF this revoke_kills [OF assms(1, 3, 5, 6)] assms(7)] show ?thesis
    by (simp add: authorize_def token_dead_find)
qed

lemma find_credential_sound:
  "find_credential sha token s = Some (cid, c) \<Longrightarrow>
    (cid, c) \<in> set (ps_localCredentials s) \<and> cr_revokedAt c = None \<and> safeEqual (cr_tokenHash c) (sha token)"
  by (auto simp: find_credential_def find_Some_iff in_set_conv_nth)

lemma safeEqual_refl [simp]: "safeEqual h h"
  by (simp add: safeEqual_def)

lemma find_credential_complete:
  assumes "(cid, c) \<in> set (ps_localCredentials s)" and "cr_revokedAt c = None" and "safeEqual (cr_tokenHash c) (sha token)"
  shows "\<exists>cid' c'. find_credential sha token s = Some (cid', c')"
  using assms token_dead_find [of sha token s] by (cases "find_credential sha token s") (auto simp: creds_dead_def)

lemma exchange_outcome:
  assumes "store_writable env st"
  shows "case exchange sha env sid secret label cid random now now' st of
      (Inr i, st') \<Rightarrow>
        (\<exists>se. jm_get (ps_pairingSessions (p_snapshot st)) sid = Some se \<and> se_usedAt se = None \<and>
          now < se_expiresAt se \<and> secret \<noteq> [] \<and> safeEqual (se_secretHash se) (sha secret)) \<and>
        (\<exists>c. jm_get (ps_localCredentials (p_snapshot st')) cid = Some c \<and> cr_tokenHash c = sha (iss_token i) \<and>
          set (cr_scopes c) = UNIV \<and> cr_revokedAt c = None) \<and>
        session_spent sid (p_snapshot st')
    | (Inl _, st') \<Rightarrow> st' = st \<and>
        \<not> (\<exists>se. jm_get (ps_pairingSessions (p_snapshot st)) sid = Some se \<and> se_usedAt se = None \<and>
          now < se_expiresAt se \<and> secret \<noteq> [] \<and> safeEqual (se_secretHash se) (sha secret))"
proof (cases "exchange_check sha sid secret now (p_snapshot st)")
  case (Inl e)
  then show ?thesis
    by (auto simp: exchange_def exchange_check_def split: option.splits if_splits)
next
  case (Inr u)
  then obtain se where se: "jm_get (ps_pairingSessions (p_snapshot st)) sid = Some se" "se_usedAt se = None"
    "now < se_expiresAt se" "secret \<noteq> []" "safeEqual (se_secretHash se) (sha secret)"
    by (auto simp: exchange_check_def split: option.splits if_splits)
  define s' where "s' = add_credential sha cid label (local_token random) now'
    ((p_snapshot st)\<lparr>ps_pairingSessions := jm_set sid (se\<lparr>se_usedAt := Some now'\<rparr>) (ps_pairingSessions (p_snapshot st))\<rparr>)"
  have "pairing_mutator sha (TxExchange sid label cid random now') (p_snapshot st) = Inr s'"
    using se by (simp add: use_session_def s'_def)
  from store_update_commits [where m = "pairing_mutator sha (TxExchange sid label cid random now')", OF assms this]
  obtain st'
    where "p_update env (pairing_mutator sha (TxExchange sid label cid random now')) st = (Inr s', st')"
      and snap: "p_snapshot st' = s'" by blast
  then have ex: "exchange sha env sid secret label cid random now now' st =
      (Inr \<lparr>iss_token = local_token random, iss_credentialId = cid, iss_scopes = LOCAL_SCOPES\<rparr>, st')"
    using Inr by (simp add: exchange_def exchange_commit_run pairing_run_def)
  have "set LOCAL_SCOPES = UNIV" using all_scopes by auto
  then show ?thesis
    using se by (simp add: ex snap s'_def add_credential_def session_spent_def)
qed


text \<open>
  What \<^verbatim>\<open>exchange\<close> decides. On a writable store it issues a credential exactly when the session
  exists, has not been used, has not expired, and the non-empty secret has the recorded hash; the
  new credential is then in the state with the hash of the returned token and every scope, and the
  session is spent. In every other case it throws and neither memory nor disk changes.
\<close>
theorem exchange_decides:
  assumes "store_writable env st"
  shows "case exchange sha env sid secret label cid random now now' st of
      (Inr i, st') \<Rightarrow>
        (\<exists>se. jm_get (ps_pairingSessions (p_snapshot st)) sid = Some se \<and> se_usedAt se = None \<and>
          now < se_expiresAt se \<and> secret \<noteq> [] \<and> safeEqual (se_secretHash se) (sha secret)) \<and>
        (\<exists>c. jm_get (ps_localCredentials (p_snapshot st')) cid = Some c \<and> cr_tokenHash c = sha (iss_token i) \<and>
          set (cr_scopes c) = UNIV \<and> cr_revokedAt c = None) \<and>
        session_spent sid (p_snapshot st')
    | (Inl _, st') \<Rightarrow> st' = st \<and>
        \<not> (\<exists>se. jm_get (ps_pairingSessions (p_snapshot st)) sid = Some se \<and> se_usedAt se = None \<and>
          now < se_expiresAt se \<and> secret \<noteq> [] \<and> safeEqual (se_secretHash se) (sha secret))"
  by (rule exchange_outcome [OF assms])
lemma token_prefix: "starts_with (local_token r) ''kubus_local_''"
  by (simp only: local_token_def starts_with_append)

text \<open>
  The life of a credential. The token that \<^verbatim>\<open>exchange\<close> returns is authorized for every scope;
  after \<^verbatim>\<open>revoke\<close> of its credential no live credential matches it any more. (The hash of the new
  token must not be that of a credential already live, and the store must be writable.)
\<close>
theorem credential_lifecycle:
  assumes "store_writable env st" and "wf_pairing (p_snapshot st)"
    and "exchange sha env sid secret label cid random now now' st = (Inr i, st')"
    and "token_dead sha (iss_token i) (p_snapshot st)" and "store_writable env' st'"
  shows "fst (authorize sha env' (Some (iss_token i)) scope t st') = Inr True \<and>
    fst (revoke env' cid t st') = Inr () \<and> token_dead sha (iss_token i) (p_snapshot (snd (revoke env' cid t st')))"
proof -
  let ?m = "ps_localCredentials (p_snapshot st)"
  define c where "c = \<lparr>cr_tokenHash = sha (iss_token i), cr_label = map_option (take 80) label, cr_scopes = LOCAL_SCOPES,
    cr_createdAt = now', cr_lastUsedAt = None, cr_revokedAt = None\<rparr>"
  have tok: "iss_token i = local_token random" and m': "ps_localCredentials (p_snapshot st') = jm_set cid c ?m"
  proof -
    have ready: "store_ready env st" using assms(1) by (simp add: store_writable_def)
    have "exchange_commit sha env sid label cid random now' st = (Inr i, st')"
      using assms(3) by (auto simp: exchange_def split: sum.splits)
    then obtain s' where run: "pairing_run sha (env, TxExchange sid label cid random now') st = (Inr s', st')"
      and tok: "iss_token i = local_token random"
      by (auto simp: exchange_commit_run split: prod.splits sum.splits)
    from local_store.commit [OF ready run [unfolded pairing_run_def fst_conv]] tok
    show "iss_token i = local_token random" and "ps_localCredentials (p_snapshot st') = jm_set cid c ?m"
      by (auto simp: use_session_def add_credential_def c_def split: option.splits if_splits)
  qed
  have wf: "wf_map ?m" using assms(2) by (simp add: wf_pairing_def)
  have mem: "set (jm_set cid c ?m) = insert (cid, c) {(k, v) \<in> set ?m. k \<noteq> cid}"
    by (rule set_jm_set_wf [OF wf])
  obtain cid' c' where f: "find_credential sha (iss_token i) (p_snapshot st') = Some (cid', c')"
    using find_credential_complete [of cid c "p_snapshot st'" sha "iss_token i"] mem m' by (auto simp: c_def)
  have "(cid', c') = (cid, c)"
    using find_credential_sound [OF f] assms(4) mem m' by (auto simp: creds_dead_def)
  then have auth: "fst (authorize sha env' (Some (iss_token i)) scope t st') = Inr True"
    using f store_update_commits [OF assms(5), of "\<lambda>s. Inr (mark_used cid t s)" empty_pairing] all_scopes [of scope]
    by (auto simp: authorize_def tok token_prefix c_def)
  have "mark_revoked cid t (p_snapshot st') =
      (p_snapshot st')\<lparr>ps_localCredentials := jm_set cid (c\<lparr>cr_revokedAt := Some t\<rparr>) (jm_set cid c ?m)\<rparr>"
    by (simp add: mark_revoked_def m')
  moreover have "creds_dead (sha (iss_token i)) (jm_set cid (c\<lparr>cr_revokedAt := Some t\<rparr>) (jm_set cid c ?m))"
    using creds_dead_set [OF assms(4), of "c\<lparr>cr_revokedAt := Some t\<rparr>" cid] by simp
  moreover have "jm_get (ps_localCredentials (p_snapshot st')) cid = Some c" "cr_revokedAt c = None"
    by (simp_all add: m' c_def)
  ultimately show ?thesis
    using auth store_update_commits [OF assms(5), of "\<lambda>s. Inr (mark_revoked cid t s)" empty_pairing]
    by (auto simp: revoke_def)
qed

subsection \<open>Witnesses\<close>

text \<open>A digest for the concrete runs: 64 hexadecimal digits that depend on the first character.\<close>

definition toy_sha :: "string \<Rightarrow> string" where
  "toy_sha s = replicate 62 CHR ''0'' @ (case rev s of [] \<Rightarrow> ''00'' | c # _ \<Rightarrow> ''0'' @ [if is_digit c then c else CHR ''a''])"

definition demo_pairing :: pairing_state where
  "demo_pairing = empty_pairing\<lparr>ps_pairingSessions :=
     [(''s1'', \<lparr>se_secretHash = toy_sha ''7'', se_createdAt = 0, se_expiresAt = 100, se_usedAt = None\<rparr>)]\<rparr>"

theorem session_exchanged_once_witness:
  "run_admit (exchange_step toy_sha ''s1'')
     [(quiet_env, TxExchange ''s1'' None ''c1'' ''r1'' 5), (quiet_env, TxExchange ''s1'' None ''c2'' ''r2'' 6)]
     (saved_store demo_pairing) \<le> 1"
  by (rule session_exchanged_once) (simp_all add: wf_pairing_def demo_pairing_def empty_pairing_def wf_map_def)

text \<open>A paired device whose credential is revoked, and a second one that pairs afterwards.\<close>

definition paired_state :: pairing_state where
  "paired_state = demo_pairing\<lparr>ps_localCredentials := [(''c0'', \<lparr>cr_tokenHash = toy_sha ''kubus_local_1'', cr_label = None,
     cr_scopes = LOCAL_SCOPES, cr_createdAt = 0, cr_lastUsedAt = None, cr_revokedAt = None\<rparr>)]\<rparr>"

lemma paired_authorized:
  "fst (authorize toy_sha quiet_env (Some ''kubus_local_1'') ContentRead 3 (saved_store paired_state)) = Inr True"
  "fst (revoke quiet_env ''c0'' 4 (saved_store paired_state)) = Inr ()"
  by code_simp+

theorem revoked_stays_revoked_witness:
  "fst (authorize toy_sha quiet_env (Some ''kubus_local_1'') ContentRead 3 (saved_store paired_state)) = Inr True \<and>
   fst (authorize toy_sha quiet_env (Some ''kubus_local_1'') ContentRead 9
     (fold (\<lambda>e st. snd (pairing_run toy_sha e st)) [(quiet_env, TxExchange ''s1'' None ''c1'' ''2'' 5)]
       (snd (revoke quiet_env ''c0'' 4 (saved_store paired_state))))) = Inr False"
proof
  have "\<not> safeEqual (toy_sha (local_token ''2'')) (toy_sha ''kubus_local_1'')"
    unfolding local_token_def by code_simp
  moreover have "find_credential toy_sha ''kubus_local_1'' paired_state = Some (''c0'', \<lparr>cr_tokenHash = toy_sha ''kubus_local_1'', cr_label = None,
     cr_scopes = LOCAL_SCOPES, cr_createdAt = 0, cr_lastUsedAt = None, cr_revokedAt = None\<rparr>)" by code_simp
  moreover have "revoke quiet_env ''c0'' 4 (saved_store paired_state) = (Inr (), snd (revoke quiet_env ''c0'' 4 (saved_store paired_state)))"
    using paired_authorized(2) by (metis prod.collapse)
  ultimately show "fst (authorize toy_sha quiet_env (Some ''kubus_local_1'') ContentRead 9
     (fold (\<lambda>e st. snd (pairing_run toy_sha e st)) [(quiet_env, TxExchange ''s1'' None ''c1'' ''2'' 5)]
       (snd (revoke quiet_env ''c0'' 4 (saved_store paired_state))))) = Inr False"
    by (intro revoked_stays_revoked [where env = quiet_env and st = "saved_store paired_state" and cid = "''c0''"])
       (auto simp: only_credential_def wf_pairing_def wf_map_def paired_state_def demo_pairing_def empty_pairing_def)
qed (rule paired_authorized(1))

theorem exchange_decides_witness:
  "case exchange toy_sha quiet_env ''s1'' ''7'' None ''c1'' ''3'' 1 2 (saved_store demo_pairing) of
     (Inr i, st') \<Rightarrow> session_spent ''s1'' (p_snapshot st')
   | (Inl _, st') \<Rightarrow> False"
proof -
  have "jm_get (ps_pairingSessions demo_pairing) ''s1'' =
      Some \<lparr>se_secretHash = toy_sha ''7'', se_createdAt = 0, se_expiresAt = 100, se_usedAt = None\<rparr>"
    by (simp add: demo_pairing_def)
  then show ?thesis
    using exchange_decides [where st = "saved_store demo_pairing" and env = quiet_env and sha = toy_sha and sid = "''s1''"
        and secret = "''7''" and label = None and cid = "''c1''" and random = "''3''" and now = 1 and now' = 2]
    by (auto split: prod.splits sum.splits)
qed

theorem credential_lifecycle_witness:
  "\<exists>i st'. exchange toy_sha quiet_env ''s1'' ''7'' None ''c1'' ''3'' 1 2 (saved_store demo_pairing) = (Inr i, st') \<and>
     fst (authorize toy_sha quiet_env (Some (iss_token i)) JobsRead 5 st') = Inr True"
proof -
  let ?st = "saved_store demo_pairing"
  have fs: "sto_fs (snd (p_update quiet_env m ?st)) ''tmp'' = None \<and> sto_path (snd (p_update quiet_env m ?st)) = ''state.json''" for m
    by (simp add: store_update_def saved_store_def quiet_env_def store_snapshot_def atomic_write_def io_ok_def Let_def
        split: sum.split)
  have get: "jm_get (ps_pairingSessions demo_pairing) ''s1'' =
      Some \<lparr>se_secretHash = toy_sha ''7'', se_createdAt = 0, se_expiresAt = 100, se_usedAt = None\<rparr>"
    by (simp add: demo_pairing_def)
  obtain i st' where ex: "exchange toy_sha quiet_env ''s1'' ''7'' None ''c1'' ''3'' 1 2 ?st = (Inr i, st')"
    using exchange_outcome [where st = "saved_store demo_pairing" and env = quiet_env and sha = toy_sha and sid = "''s1''"
        and secret = "''7''" and label = None and cid = "''c1''" and random = "''3''" and now = 1 and now' = 2] get
    by (auto split: prod.splits sum.splits)
  then have run: "st' = snd (p_update quiet_env (pairing_mutator toy_sha (TxExchange ''s1'' None ''c1'' ''3'' 2)) ?st)"
    by (auto simp: exchange_def exchange_commit_run pairing_run_def split: prod.splits sum.splits)
  have "store_ready quiet_env st'"
    using local_store.stays_ready [OF saved_store_writable(2) saved_store_writable(2)] run by (metis prod.collapse)
  then have wr: "store_writable quiet_env st'"
    using fs by (simp add: store_writable_def run) (simp add: quiet_env_def)
  have "wf_pairing (p_snapshot ?st)" "token_dead toy_sha (iss_token i) (p_snapshot ?st)"
    by (simp_all add: wf_pairing_def demo_pairing_def empty_pairing_def wf_map_def creds_dead_def)
  from credential_lifecycle [OF saved_store_writable(1) this(1) ex this(2) wr, of JobsRead 5] ex show ?thesis by blast
qed

end
