(* ===== verification/Base64.thy ===== *)
theory Base64
  imports Node_Prelude
begin

text \<open>
  Node's \<^verbatim>\<open>Buffer\<close> encodings \<^verbatim>\<open>base64\<close> and \<^verbatim>\<open>base64url\<close>. Encoding pads \<^verbatim>\<open>base64\<close> with \<^verbatim>\<open>=\<close> and
  leaves \<^verbatim>\<open>base64url\<close> unpadded. Decoding accepts both alphabets, skips characters of neither, ends
  at the first \<^verbatim>\<open>=\<close> and drops the bits of an incomplete byte.
\<close>

definition b64_char :: "bool \<Rightarrow> nat \<Rightarrow> char" where
  "b64_char url n =
     (if n < 26 then char_of (65 + n) else if n < 52 then char_of (71 + n) else if n < 62 then char_of (n - 4)
      else if n = 62 then (if url then CHR ''-'' else CHR ''+'') else (if url then CHR ''_'' else CHR ''/''))"

definition b64_value :: "char \<Rightarrow> nat option" where
  "b64_value c =
     (let n = char_code c in
      if is_upper c then Some (n - 65) else if is_lower c then Some (n - 71) else if is_digit c then Some (n + 4)
      else if c = CHR ''-'' \<or> c = CHR ''+'' then Some 62 else if c = CHR ''_'' \<or> c = CHR ''/'' then Some 63
      else None)"

text \<open>Sextets of a byte list, and bytes of a sextet list.\<close>

fun sextets :: "nat list \<Rightarrow> nat list" where
  "sextets (a # b # c # bs) = a div 4 # (a mod 4 * 16 + b div 16) # (b mod 16 * 4 + c div 64) # c mod 64 # sextets bs"
| "sextets [a, b] = [a div 4, a mod 4 * 16 + b div 16, b mod 16 * 4]"
| "sextets [a] = [a div 4, a mod 4 * 16]"
| "sextets [] = []"

fun octets :: "nat list \<Rightarrow> nat list" where
  "octets (p # q # r # s # xs) = (p * 4 + q div 16) # (q mod 16 * 16 + r div 4) # (r mod 4 * 64 + s) # octets xs"
| "octets [p, q, r] = [p * 4 + q div 16, q mod 16 * 16 + r div 4]"
| "octets [p, q] = [p * 4 + q div 16]"
| "octets _ = []"

definition base64_encode :: "bool \<Rightarrow> bytes \<Rightarrow> string" where
  "base64_encode url bs =
     map (b64_char url) (sextets (map unat bs))
     @ (if url then [] else replicate ((3 - length bs mod 3) mod 3) CHR ''='')"

definition base64_decode :: "string \<Rightarrow> bytes" where
  "base64_decode s = map of_nat (octets (List.map_filter b64_value (takeWhile (\<lambda>c. c \<noteq> CHR ''='') s)))"

lemma b64_value_char: "n < 64 \<Longrightarrow> b64_value (b64_char url n) = Some n \<and> b64_char url n \<noteq> CHR ''=''"
proof -
  assume n: "n < 64"
  have code: "char_code (char_of m) = m" if "m < 256" for m
    using that by (simp add: char_code_def)
  have eq: "(c = d) = (char_code c = char_code d)" for c d
    by (simp add: char_code_inj)
  have lit: "char_code CHR ''='' = 61" "char_code CHR ''-'' = 45" "char_code CHR ''+'' = 43"
    "char_code CHR ''_'' = 95" "char_code CHR ''/'' = 47"
    by (simp_all add: char_code_def)
  consider "n < 26" | "26 \<le> n" "n < 52" | "52 \<le> n" "n < 62" | "n = 62" | "n = 63" using n by linarith
  then show ?thesis
    by cases (auto simp: b64_char_def b64_value_def Let_def is_upper_def is_lower_def is_digit_def code eq lit)
qed

lemma sextets_bound: "\<forall>b \<in> set bs. b < 256 \<Longrightarrow> \<forall>x \<in> set (sextets bs). x < 64"
  by (induction bs rule: sextets.induct) (auto simp: less_mult_imp_div_less)

lemma octets_sextets: "\<forall>b \<in> set bs. b < 256 \<Longrightarrow> octets (sextets bs) = bs"
  by (induction bs rule: sextets.induct) (auto simp: div_mult_mod_eq)

lemma map_filter_b64: "\<forall>x \<in> set xs. x < 64 \<Longrightarrow> List.map_filter b64_value (map (b64_char url) xs) = xs"
  by (induction xs) (simp_all add: List.map_filter_simps b64_value_char)

lemma takeWhile_all: "\<forall>x \<in> set xs. P x \<Longrightarrow> takeWhile P (xs @ replicate n y) = xs @ takeWhile P (replicate n y)"
  by (simp add: takeWhile_append2)

lemma base64_roundtrip: "base64_decode (base64_encode url bs) = bs"
proof -
  have b: "\<forall>b \<in> set (map unat bs). b < 256"
  proof -
    have "unat b < 2 ^ LENGTH(8)" for b :: byte by (rule unsigned_less)
    then show ?thesis by auto
  qed
  note sx = sextets_bound [OF b]
  have "takeWhile (\<lambda>c. c \<noteq> CHR ''='') (map (b64_char url) (sextets (map unat bs)) @ replicate n CHR ''='')
      = map (b64_char url) (sextets (map unat bs))" for n
    using takeWhile_all [of "map (b64_char url) (sextets (map unat bs))" "\<lambda>c. c \<noteq> CHR ''=''" n "CHR ''=''"] sx b64_value_char
    by (cases n) auto
  from this [of "if url then 0 else (3 - length bs mod 3) mod 3"]
  have "takeWhile (\<lambda>c. c \<noteq> CHR ''='') (base64_encode url bs) = map (b64_char url) (sextets (map unat bs))"
    by (cases url) (simp_all add: base64_encode_def)
  then show ?thesis
    by (simp add: base64_decode_def map_filter_b64 [OF sx] octets_sextets [OF b] comp_def)
qed

interpretation base64: codec "\<lambda>bs. Some (base64_encode url bs)" "\<lambda>s. Some (base64_decode s)" "\<lambda>_. True" "\<lambda>bs. bs"
  by unfold_locales (auto simp: base64_roundtrip)

end
