(* ===== verification/Node_Identity.thy ===== *)
theory Node_Identity
  imports Local_Request Base64
begin

text \<open>
  The node's Ed25519 identity: \<^verbatim>\<open>src/src/identity/identityProof.ts\<close> (the message a proof signs, creating
  and verifying a proof), \<^verbatim>\<open>nodeIdentity.ts\<close> (the fingerprint, and the mint-once protocol on the
  identity file, as a step relation over any number of processes) and \<^verbatim>\<open>remoteAttach.ts\<close> (enrolment
  and the checks before a remote attachment is signed).

  Ed25519 signing is a field of the identity, verification the parameter \<open>vrfy\<close>; SHA-256 over
  strings and bytes are \<open>sha\<close> and \<open>sha_bytes\<close>, the third-party canonical JSON printer is
  \<open>canonical\<close>, and \<open>date_parse\<close> is \<^verbatim>\<open>Date.parse\<close>, \<open>None\<close> for NaN.
\<close>

section \<open>Identity proofs\<close>

definition IDENTITY_PROOF_PROTOCOL_VERSION :: string where
  "IDENTITY_PROOF_PROTOCOL_VERSION = ''kubus-node/1''"

definition DOMAIN_SEPARATOR :: bytes where
  "DOMAIN_SEPARATOR = bytes_of_string ''kubus-node-identity-proof/v1''"

definition NONCE_LENGTH :: nat where "NONCE_LENGTH = 32"
definition PUBLIC_KEY_LENGTH :: nat where "PUBLIC_KEY_LENGTH = 32"
definition SIGNATURE_LENGTH :: nat where "SIGNATURE_LENGTH = 64"

record proof_input =
  pi_protocolVersion :: string
  pi_sessionId :: string
  pi_nonce :: bytes
  pi_publicKeyRaw :: bytes
  pi_clientRole :: string

definition utf8Field :: "string \<Rightarrow> bytes" where
  "utf8Field v = bytes_of_string v @ [0]"

definition buildIdentityProofMessage :: "proof_input \<Rightarrow> bytes result" where
  "buildIdentityProofMessage input =
     (if length (pi_nonce input) \<noteq> NONCE_LENGTH then Inl (PlainError ''identity_proof_nonce_invalid_length'')
      else if length (pi_publicKeyRaw input) \<noteq> PUBLIC_KEY_LENGTH
      then Inl (PlainError ''identity_proof_public_key_invalid_length'')
      else Inr (DOMAIN_SEPARATOR @ [0] @ utf8Field (pi_protocolVersion input) @ utf8Field (pi_sessionId input)
                @ pi_nonce input @ pi_publicKeyRaw input @ utf8Field (pi_clientRole input)))"

record node_identity =
  ni_publicKeyRaw :: bytes
  ni_publicKeyBase64Url :: string
  ni_fingerprint :: string
  ni_createdAt :: int
  ni_sign :: "bytes \<Rightarrow> bytes"

definition nodeFingerprintFromPublicKey :: "(bytes \<Rightarrow> string) \<Rightarrow> bytes \<Rightarrow> string" where
  "nodeFingerprintFromPublicKey sha_bytes publicKeyRaw = sha_bytes publicKeyRaw"

text \<open>\<^verbatim>\<open>match(/.{1,4}/g)\<close> on at most sixteen characters: groups of four.\<close>

fun groups_of_4 :: "string \<Rightarrow> string list" where
  "groups_of_4 s = (if s = [] then [] else take 4 s # groups_of_4 (drop 4 s))"

declare groups_of_4.simps [simp del]

definition formatFingerprint :: "string \<Rightarrow> string" where
  "formatFingerprint fingerprint = join_with '' '' (groups_of_4 (to_upper (take 16 fingerprint)))"

record identity_proof =
  ip_signature :: bytes
  ip_publicKeyRaw :: bytes
  ip_fingerprint :: string

definition createIdentityProof ::
  "node_identity \<Rightarrow> string \<Rightarrow> string \<Rightarrow> bytes \<Rightarrow> string \<Rightarrow> identity_proof result" where
  "createIdentityProof identity protocolVersion sessionId nonce clientRole =
     map_sum id (\<lambda>message. \<lparr>ip_signature = ni_sign identity message, ip_publicKeyRaw = ni_publicKeyRaw identity,
                            ip_fingerprint = ni_fingerprint identity\<rparr>)
       (buildIdentityProofMessage
          \<lparr>pi_protocolVersion = protocolVersion, pi_sessionId = sessionId, pi_nonce = nonce,
           pi_publicKeyRaw = ni_publicKeyRaw identity, pi_clientRole = clientRole\<rparr>)"

text \<open>\<open>vrfy\<close> is \<^verbatim>\<open>crypto.verify\<close>, a throw on a malformed key or signature read as false.\<close>

definition verifyNodeSignature :: "(bytes \<Rightarrow> bytes \<Rightarrow> bytes \<Rightarrow> bool) \<Rightarrow> bytes \<Rightarrow> bytes \<Rightarrow> bytes \<Rightarrow> bool" where
  "verifyNodeSignature vrfy publicKeyRaw message signature \<longleftrightarrow>
     length publicKeyRaw = 32 \<and> vrfy publicKeyRaw message signature"

definition verifyIdentityProof ::
  "(bytes \<Rightarrow> bytes \<Rightarrow> bytes \<Rightarrow> bool) \<Rightarrow> proof_input \<Rightarrow> bytes \<Rightarrow> bool" where
  "verifyIdentityProof vrfy input signature =
     (if length (pi_nonce input) \<noteq> NONCE_LENGTH then False
      else if length (pi_publicKeyRaw input) \<noteq> PUBLIC_KEY_LENGTH then False
      else if length signature \<noteq> SIGNATURE_LENGTH then False
      else case buildIdentityProofMessage input of
             Inl _ \<Rightarrow> False
           | Inr message \<Rightarrow> verifyNodeSignature vrfy (pi_publicKeyRaw input) message signature)"

section \<open>Remote attachment\<close>

definition b64url_43 :: "json option \<Rightarrow> bool" where
  "b64url_43 j = (case j of Some (JStr s) \<Rightarrow> length s = 43 \<and> list_all is_b64url s | _ \<Rightarrow> False)"

text \<open>\<open>canonical\<close> prints an object with its keys sorted; members that are \<^verbatim>\<open>undefined\<close> are omitted.\<close>

definition authorizationMessage :: "(json \<Rightarrow> string) \<Rightarrow> json option \<Rightarrow> bytes" where
  "authorizationMessage canonical grant =
     bytes_of_string (''kubus.node-authorization/1'' @ [char_of (10::nat)] @ canonical (JObj
       (List.map_filter (\<lambda>k. map_option (Pair k) (json_field grant k))
          [''id'', ''nodeId'', ''kind'', ''challenge'', ''payload''])))"

definition signRemoteAttach ::
  "(string \<Rightarrow> string) \<Rightarrow> (json \<Rightarrow> string) \<Rightarrow> (json option \<Rightarrow> int option) \<Rightarrow> int \<Rightarrow> json option \<Rightarrow> json option \<Rightarrow> string \<Rightarrow> string
    \<Rightarrow> node_identity \<Rightarrow> string result" where
  "signRemoteAttach sha canonical date_parse now grant verifier sessionId nodeId identity =
     (let payload = json_field grant ''payload'' in
      if json_falsy grant \<or> json_field grant ''kind'' \<noteq> Some (JStr ''REMOTE_ATTACH'')
         \<or> json_field grant ''nodeId'' \<noteq> Some (JStr nodeId)
         \<or> json_falsy payload \<or> json_field payload ''publicKey'' \<noteq> Some (JStr (ni_publicKeyBase64Url identity))
         \<or> json_field payload ''sessionId'' \<noteq> Some (JStr sessionId) \<or> \<not> b64url_43 verifier
         \<or> json_field payload ''verifierHash'' \<noteq> map_option (\<lambda>v. case v of JStr s \<Rightarrow> JStr (sha s) | j \<Rightarrow> j) verifier
         \<or> \<not> b64url_43 (json_field payload ''deviceId'')
         \<or> (case date_parse (json_field grant ''expiresAt'') of None \<Rightarrow> True | Some t \<Rightarrow> t \<le> now)
      then Inl (localError 403 ''remote_attach_binding_invalid'')
      else Inr (base64_encode True (ni_sign identity (authorizationMessage canonical grant))))"

definition enrollNodeIdentity ::
  "(json \<Rightarrow> string) \<Rightarrow> (string \<Rightarrow> string \<Rightarrow> json result) \<Rightarrow> string \<Rightarrow> node_identity
    \<Rightarrow> (string \<times> json option \<times> json option \<times> string) result" where
  "enrollNodeIdentity canonical createIdentityChallenge nodeId identity =
     (case createIdentityChallenge nodeId (ni_publicKeyBase64Url identity) of
        Inl e \<Rightarrow> Inl e
      | Inr grant \<Rightarrow>
          if json_field (Some grant) ''nodeId'' \<noteq> Some (JStr nodeId) \<or> json_field (Some grant) ''kind'' \<noteq> Some (JStr ''ENROLLMENT'')
             \<or> json_field (json_field (Some grant) ''payload'') ''publicKey'' \<noteq> Some (JStr (ni_publicKeyBase64Url identity))
          then Inl (localError 403 ''node_identity_enrollment_invalid'')
          else Inr (nodeId, json_field (Some grant) ''id'', json_field (Some grant) ''challenge'',
                    base64_encode True (ni_sign identity (authorizationMessage canonical (Some grant)))))"

section \<open>The proof message is unambiguous\<close>

lemma nul_field_inject:
  "(0::byte) \<notin> set a \<Longrightarrow> 0 \<notin> set b \<Longrightarrow> a @ [0] @ x = b @ [0] @ y \<longleftrightarrow> a = b \<and> x = y"
proof (induction a arbitrary: b)
  case Nil
  then show ?case by (cases b) auto
next
  case (Cons c a)
  then show ?case by (cases b) auto
qed

definition nul_free :: "string \<Rightarrow> bool" where
  "nul_free s \<longleftrightarrow> list_all (\<lambda>c. char_code c \<noteq> 0) s"

lemma nul_free_bytes: "nul_free s \<Longrightarrow> (0::byte) \<notin> set (bytes_of_string s)"
proof -
  have "char_code c = 0" if "(of_char c :: byte) = 0" for c
    using char_of_unat_of_char [of c] that by (metis char_code_def of_char_of mod_0 unsigned_0)
  then show "nul_free s \<Longrightarrow> ?thesis" by (auto simp: nul_free_def bytes_of_string_def list_all_iff)
qed

lemma utf8Field_inject:
  "nul_free a \<Longrightarrow> nul_free b \<Longrightarrow> utf8Field a @ x = utf8Field b @ y \<longleftrightarrow> a = b \<and> x = y"
  using nul_field_inject [of "bytes_of_string a" "bytes_of_string b" x y] nul_free_bytes
  by (simp add: utf8Field_def)

text \<open>
  A proof answers one question only. If two inputs whose text fields contain no NUL give the
  same bytes to sign, they are the same input: the same protocol version, session, nonce, key and
  role. A signature obtained for one session, nonce or role is therefore never one for another; in
  particular an HTTP proof is never a proof for a signalling session.
\<close>
theorem proof_message_unambiguous:
  assumes "buildIdentityProofMessage a = Inr m" and "buildIdentityProofMessage b = Inr m"
    and "\<And>s. s \<in> {pi_protocolVersion a, pi_sessionId a, pi_clientRole a, pi_protocolVersion b, pi_sessionId b, pi_clientRole b}
      \<Longrightarrow> nul_free s"
  shows "(a :: proof_input) = b"
proof -
  have len: "length (pi_nonce a) = 32" "length (pi_nonce b) = 32" "length (pi_publicKeyRaw a) = 32" "length (pi_publicKeyRaw b) = 32"
    using assms(1, 2) by (auto simp: buildIdentityProofMessage_def NONCE_LENGTH_def PUBLIC_KEY_LENGTH_def split: if_splits)
  have nf: "nul_free (pi_protocolVersion a)" "nul_free (pi_protocolVersion b)" "nul_free (pi_sessionId a)"
    "nul_free (pi_sessionId b)" "nul_free (pi_clientRole a)" "nul_free (pi_clientRole b)"
    using assms(3) by auto
  have "utf8Field (pi_protocolVersion a) @ utf8Field (pi_sessionId a) @ pi_nonce a @ pi_publicKeyRaw a @ utf8Field (pi_clientRole a)
      = utf8Field (pi_protocolVersion b) @ utf8Field (pi_sessionId b) @ pi_nonce b @ pi_publicKeyRaw b @ utf8Field (pi_clientRole b)"
    using assms(1, 2) by (auto simp: buildIdentityProofMessage_def split: if_splits)
  then have "pi_protocolVersion a = pi_protocolVersion b" "pi_sessionId a = pi_sessionId b"
    "pi_nonce a @ pi_publicKeyRaw a @ utf8Field (pi_clientRole a) = pi_nonce b @ pi_publicKeyRaw b @ utf8Field (pi_clientRole b)"
    using nf by (simp_all add: utf8Field_inject)
  moreover from this(3) have "pi_nonce a = pi_nonce b" "pi_publicKeyRaw a = pi_publicKeyRaw b"
    "utf8Field (pi_clientRole a) = utf8Field (pi_clientRole b)"
    using len by simp_all
  moreover from this(3) have "pi_clientRole a = pi_clientRole b"
    using utf8Field_inject [OF nf(5, 6), of "[]" "[]"] by simp
  ultimately show ?thesis by simp
qed

definition sample_input :: "string \<Rightarrow> proof_input" where
  "sample_input sid = \<lparr>pi_protocolVersion = ''kubus-node/1'', pi_sessionId = sid, pi_nonce = replicate 32 0,
     pi_publicKeyRaw = replicate 32 1, pi_clientRole = ''client''\<rparr>"

theorem proof_message_unambiguous_witness:
  "buildIdentityProofMessage (sample_input ''local-http/v1'') \<noteq> buildIdentityProofMessage (sample_input ''session-1'')"
proof
  assume eq: "buildIdentityProofMessage (sample_input ''local-http/v1'') = buildIdentityProofMessage (sample_input ''session-1'')"
  obtain m where m: "buildIdentityProofMessage (sample_input ''session-1'') = Inr m"
    by (simp add: buildIdentityProofMessage_def sample_input_def NONCE_LENGTH_def PUBLIC_KEY_LENGTH_def)
  have "sample_input ''local-http/v1'' = sample_input ''session-1''"
    by (rule proof_message_unambiguous [OF eq [unfolded m] m]) (auto simp: sample_input_def nul_free_def char_code_def)
  then show False by (simp add: sample_input_def)
qed

text \<open>
  An honest node is recognised. If the signature scheme verifies what the node's key signs and
  its signatures have 64 bytes, the proof that \<^verbatim>\<open>createIdentityProof\<close> makes for a 32-byte nonce is
  accepted by \<^verbatim>\<open>verifyIdentityProof\<close> for the node's key, the same session, nonce and role.
\<close>
theorem created_proof_verifies:
  assumes "\<And>m. vrfy (ni_publicKeyRaw identity) m (ni_sign identity m)" and "\<And>m. length (ni_sign identity m) = 64"
    and "length (ni_publicKeyRaw identity) = 32" and "length nonce = 32"
  shows "\<exists>p. createIdentityProof identity version sid nonce role = Inr p \<and>
    verifyIdentityProof vrfy \<lparr>pi_protocolVersion = version, pi_sessionId = sid, pi_nonce = nonce,
      pi_publicKeyRaw = ip_publicKeyRaw p, pi_clientRole = role\<rparr> (ip_signature p)"
  using assms by (simp add: createIdentityProof_def verifyIdentityProof_def buildIdentityProofMessage_def
      verifyNodeSignature_def NONCE_LENGTH_def PUBLIC_KEY_LENGTH_def SIGNATURE_LENGTH_def)

theorem created_proof_verifies_witness:
  "\<exists>p. createIdentityProof \<lparr>ni_publicKeyRaw = replicate 32 1, ni_publicKeyBase64Url = ''AQ'', ni_fingerprint = ''f0'',
        ni_createdAt = 0, ni_sign = (\<lambda>m. replicate 64 (of_nat (length m)))\<rparr> ''kubus-node/1'' ''s'' (replicate 32 7) ''client'' = Inr p \<and>
    verifyIdentityProof (\<lambda>pk m sg. sg = replicate 64 (of_nat (length m))) \<lparr>pi_protocolVersion = ''kubus-node/1'',
      pi_sessionId = ''s'', pi_nonce = replicate 32 7, pi_publicKeyRaw = ip_publicKeyRaw p, pi_clientRole = ''client''\<rparr> (ip_signature p)"
  by (rule created_proof_verifies) simp_all

section \<open>The identity is minted once\<close>

text \<open>
  Any number of processes run \<^verbatim>\<open>loadOrCreateNodeIdentity\<close> on one state directory. A process reads the
  identity file; if there is none it generates a key pair, writes it to a temporary file of its own
  and links that file to the identity file's name, which fails when the name exists; then it reads
  the winner. \<open>'k\<close> is the stored identity. A process may fail at any system call.
\<close>

datatype 'k mint_pc = MStart | MGenerated 'k | MLost | MDone 'k | MFailed

record 'k mint =
  mi_file :: "'k option"
  mi_pc :: "nat \<Rightarrow> 'k mint_pc"

inductive mint_step :: "'k mint \<Rightarrow> 'k mint \<Rightarrow> bool" where
  read_present: "mi_pc s p = MStart \<Longrightarrow> mi_file s = Some k \<Longrightarrow> mint_step s (s\<lparr>mi_pc := (mi_pc s)(p := MDone k)\<rparr>)"
| read_absent: "mi_pc s p = MStart \<Longrightarrow> mi_file s = None \<Longrightarrow> mint_step s (s\<lparr>mi_pc := (mi_pc s)(p := MGenerated k)\<rparr>)"
| link_wins: "mi_pc s p = MGenerated k \<Longrightarrow> mi_file s = None \<Longrightarrow>
    mint_step s (s\<lparr>mi_file := Some k, mi_pc := (mi_pc s)(p := MDone k)\<rparr>)"
| link_exists: "mi_pc s p = MGenerated k \<Longrightarrow> mi_file s = Some k' \<Longrightarrow> mint_step s (s\<lparr>mi_pc := (mi_pc s)(p := MLost)\<rparr>)"
| read_winner: "mi_pc s p = MLost \<Longrightarrow> mi_file s = Some k \<Longrightarrow> mint_step s (s\<lparr>mi_pc := (mi_pc s)(p := MDone k)\<rparr>)"
| io_failure: "mi_pc s p \<in> {MStart, MGenerated k, MLost} \<Longrightarrow> mint_step s (s\<lparr>mi_pc := (mi_pc s)(p := MFailed)\<rparr>)"

inductive_cases mint_stepE: "mint_step s s'"

definition mint_start :: "'k option \<Rightarrow> 'k mint" where
  "mint_start f = \<lparr>mi_file = f, mi_pc = (\<lambda>_. MStart)\<rparr>"

definition mint_inv :: "'k mint \<Rightarrow> bool" where
  "mint_inv s \<longleftrightarrow> (\<forall>p k. mi_pc s p = MDone k \<longrightarrow> mi_file s = Some k) \<and> (\<forall>p. mi_pc s p = MLost \<longrightarrow> mi_file s \<noteq> None)"

lemma mint_step_inv: "mint_step s s' \<Longrightarrow> mint_inv s \<Longrightarrow> mint_inv s'"
  by (erule mint_stepE) (auto simp: mint_inv_def split: if_splits)

lemma mint_step_file: "mint_step s s' \<Longrightarrow> mi_file s = Some k \<Longrightarrow> mi_file s' = Some k"
  by (erule mint_stepE) auto

lemma mint_reach_inv: "mint_step\<^sup>*\<^sup>* s s' \<Longrightarrow> mint_inv s \<Longrightarrow> mint_inv s'"
  by (induction rule: rtranclp_induct) (auto intro: mint_step_inv)

lemma mint_reach_file: "mint_step\<^sup>*\<^sup>* s s' \<Longrightarrow> mi_file s = Some k \<Longrightarrow> mi_file s' = Some k"
  by (induction rule: rtranclp_induct) (auto intro: mint_step_file)

text \<open>
  C35. The identity is minted once. Whatever the interleaving of processes that load or create the
  identity, and whichever of them fail, every process that obtained an identity obtained the one in
  the file; it never changes afterwards, and an identity present at the start is the one everybody
  gets.
\<close>
theorem identity_minted_once:
  assumes "mint_step\<^sup>*\<^sup>* (mint_start f) s" and "mi_pc s p = MDone k" and "mint_step\<^sup>*\<^sup>* s s'"
  shows "mi_file s' = Some k \<and> (\<forall>q k'. mi_pc s' q = MDone k' \<longrightarrow> k' = k) \<and> (\<forall>k0. f = Some k0 \<longrightarrow> k = k0)"
proof -
  have inv: "mint_inv s" using mint_reach_inv [OF assms(1)] by (simp add: mint_inv_def mint_start_def)
  then have on: "mi_file s = Some k" using assms(2) by (simp add: mint_inv_def)
  moreover have "mint_inv s'" using mint_reach_inv [OF assms(3) inv] .
  moreover have "f = Some k0 \<Longrightarrow> mi_file s = Some k0" for k0
    using mint_reach_file [OF assms(1)] by (simp add: mint_start_def)
  ultimately show ?thesis
    using mint_reach_file [OF assms(3) on] by (auto simp: mint_inv_def)
qed

theorem identity_minted_once_witness:
  "\<exists>s. mint_step\<^sup>*\<^sup>* (mint_start (None :: nat option)) s \<and> mi_pc s 0 = MDone 5 \<and> mi_file s = Some 5"
proof -
  let ?s0 = "mint_start (None :: nat option)"
  let ?s1 = "?s0\<lparr>mi_pc := (mi_pc ?s0)(0 := MGenerated 5)\<rparr>"
  let ?s2 = "?s1\<lparr>mi_file := Some 5, mi_pc := (mi_pc ?s1)(0 := MDone 5)\<rparr>"
  have "mint_step ?s0 ?s1" by (rule read_absent) (simp_all add: mint_start_def)
  moreover have "mint_step ?s1 ?s2" by (rule link_wins) (simp_all add: mint_start_def)
  ultimately have reach: "mint_step\<^sup>*\<^sup>* ?s0 ?s2"
    by (meson converse_rtranclp_into_rtranclp rtranclp.rtrancl_refl)
  have fin: "mi_pc ?s2 0 = MDone 5" by simp
  from identity_minted_once [OF reach fin rtranclp.rtrancl_refl] reach fin show ?thesis by blast
qed

end
