(* ===== verification/Rate_Limiters.thy ===== *)
theory Rate_Limiters
  imports Local_Request
begin

text \<open>
  The two in-memory limiters of the Local API: \<^verbatim>\<open>PairingAttemptLimiter\<close>
  (\<^verbatim>\<open>src/src/localApi/pairingService.ts\<close>), a budget of failures per client, and \<^verbatim>\<open>AdmissionLimiter\<close>
  (\<^verbatim>\<open>src/src/localApi/dispatch.ts\<close>), a budget of admissions per client, each below a process-wide
  budget per window. Both are instances of the prelude's \<open>window_limiter\<close>, which gives the
  process-wide bound.
\<close>

record bucket =
  bk_windowStartedAt :: int
  bk_count :: nat

record limiter =
  lim_clients :: "(string, bucket) jsmap"
  lim_globalWindowStartedAt :: "int option"
  lim_globalCount :: nat
  lim_max :: nat
  lim_windowMs :: int
  lim_maxTrackedKeys :: nat
  lim_maxGlobal :: nat

definition new_limiter :: "nat \<Rightarrow> int \<Rightarrow> nat \<Rightarrow> nat \<Rightarrow> limiter" where
  "new_limiter mx windowMs maxTrackedKeys maxGlobal =
     \<lparr>lim_clients = [], lim_globalWindowStartedAt = None, lim_globalCount = 0, lim_max = mx,
      lim_windowMs = windowMs, lim_maxTrackedKeys = maxTrackedKeys, lim_maxGlobal = maxGlobal\<rparr>"

text \<open>\<^verbatim>\<open>globalWindowStartedAt === undefined || now - globalWindowStartedAt >= windowMs\<close>\<close>

definition window_over :: "int \<Rightarrow> limiter \<Rightarrow> bool" where
  "window_over now l \<longleftrightarrow>
     lim_globalWindowStartedAt l = None \<or> now - the (lim_globalWindowStartedAt l) \<ge> lim_windowMs l"

definition roll_window :: "int \<Rightarrow> limiter \<Rightarrow> limiter" where
  "roll_window now l =
     (if window_over now l then l\<lparr>lim_globalWindowStartedAt := Some now, lim_globalCount := 0\<rparr> else l)"

text \<open>\<^verbatim>\<open>if (oldest) this.clients.delete(oldest)\<close>: an empty key is falsy and stays.\<close>

definition evict_oldest :: "string \<Rightarrow> limiter \<Rightarrow> limiter" where
  "evict_oldest client l =
     (if \<not> jm_has (lim_clients l) client \<and> jm_size (lim_clients l) \<ge> lim_maxTrackedKeys l
      then (case lim_clients l of
              [] \<Rightarrow> l
            | (oldest, _) # _ \<Rightarrow> if oldest = [] then l else l\<lparr>lim_clients := jm_delete oldest (lim_clients l)\<rparr>)
      else l)"

section \<open>PairingAttemptLimiter\<close>

definition pairing_assertAllowed :: "string \<Rightarrow> int \<Rightarrow> limiter \<Rightarrow> unit result \<times> limiter" where
  "pairing_assertAllowed client now l0 =
     (let l = roll_window now l0 in
      if lim_globalCount l \<ge> lim_maxGlobal l then (Inl (localError 429 ''pairing_rate_limited''), l)
      else (let l1 = l\<lparr>lim_globalCount := lim_globalCount l + 1\<rparr> in
            case jm_get (lim_clients l1) client of
              None \<Rightarrow> (Inr (), l1)
            | Some attempts \<Rightarrow>
                if now - bk_windowStartedAt attempts < lim_windowMs l1 \<and> bk_count attempts \<ge> lim_max l1
                then (Inl (localError 429 ''pairing_rate_limited''), l1)
                else if now - bk_windowStartedAt attempts \<ge> lim_windowMs l1
                then (Inr (), l1\<lparr>lim_clients := jm_delete client (lim_clients l1)\<rparr>)
                else (Inr (), l1)))"

definition pairing_failed :: "string \<Rightarrow> int \<Rightarrow> limiter \<Rightarrow> limiter" where
  "pairing_failed client now l =
     (let attempts = (case jm_get (lim_clients l) client of
                        Some previous \<Rightarrow>
                          if now - bk_windowStartedAt previous < lim_windowMs l
                          then previous\<lparr>bk_count := bk_count previous + 1\<rparr>
                          else \<lparr>bk_windowStartedAt = now, bk_count = 1\<rparr>
                      | None \<Rightarrow> \<lparr>bk_windowStartedAt = now, bk_count = 1\<rparr>);
          l1 = evict_oldest client l
      in l1\<lparr>lim_clients := jm_set client attempts (lim_clients l1)\<rparr>)"

definition pairing_succeeded :: "string \<Rightarrow> limiter \<Rightarrow> limiter" where
  "pairing_succeeded client l = l\<lparr>lim_clients := jm_delete client (lim_clients l)\<rparr>"

section \<open>AdmissionLimiter\<close>

definition admission_assertAllowed :: "string \<Rightarrow> int \<Rightarrow> limiter \<Rightarrow> unit result \<times> limiter" where
  "admission_assertAllowed client now l0 =
     (let l = roll_window now l0;
          bucket = (case jm_get (lim_clients l) client of
                      Some existing \<Rightarrow>
                        if now - bk_windowStartedAt existing < lim_windowMs l then existing
                        else \<lparr>bk_windowStartedAt = now, bk_count = 0\<rparr>
                    | None \<Rightarrow> \<lparr>bk_windowStartedAt = now, bk_count = 0\<rparr>)
      in if bk_count bucket \<ge> lim_max l then (Inl (localError 429 ''identity_proof_rate_limited''), l)
         else if lim_globalCount l \<ge> lim_maxGlobal l then (Inl (localError 429 ''identity_proof_rate_limited''), l)
         else (let l1 = evict_oldest client l in
               (Inr (), l1\<lparr>lim_clients := jm_set client (bucket\<lparr>bk_count := bk_count bucket + 1\<rparr>) (lim_clients l1),
                          lim_globalCount := lim_globalCount l1 + 1\<rparr>)))"

definition identityProofAttempts :: limiter where
  "identityProofAttempts = new_limiter 600 60000 4096 3000"

definition pairingAttempts :: limiter where
  "pairingAttempts = new_limiter 5 60000 4096 120"

section \<open>The process-wide bound\<close>

datatype pairing_event = PAssert string int | PFailed string int | PSucceeded string int

fun pe_at :: "pairing_event \<Rightarrow> int" where
  "pe_at (PAssert _ t) = t" | "pe_at (PFailed _ t) = t" | "pe_at (PSucceeded _ t) = t"

fun pairing_step :: "pairing_event \<Rightarrow> limiter \<Rightarrow> bool \<times> limiter" where
  "pairing_step (PAssert c t) l = (case pairing_assertAllowed c t l of (r, l') \<Rightarrow> (r = Inr (), l'))"
| "pairing_step (PFailed c t) l = (False, pairing_failed c t l)"
| "pairing_step (PSucceeded c t) l = (False, pairing_succeeded c l)"

definition admission_step :: "string \<times> int \<Rightarrow> limiter \<Rightarrow> bool \<times> limiter" where
  "admission_step e l = (case admission_assertAllowed (fst e) (snd e) l of (r, l') \<Rightarrow> (r = Inr (), l'))"

lemma evict_oldest_simps [simp]:
  "lim_globalWindowStartedAt (evict_oldest c l) = lim_globalWindowStartedAt l"
  "lim_globalCount (evict_oldest c l) = lim_globalCount l" "lim_max (evict_oldest c l) = lim_max l"
  "lim_windowMs (evict_oldest c l) = lim_windowMs l" "lim_maxTrackedKeys (evict_oldest c l) = lim_maxTrackedKeys l"
  "lim_maxGlobal (evict_oldest c l) = lim_maxGlobal l"
  by (auto simp: evict_oldest_def split: list.splits)

lemma roll_window_simps [simp]:
  "lim_clients (roll_window now l) = lim_clients l" "lim_max (roll_window now l) = lim_max l"
  "lim_windowMs (roll_window now l) = lim_windowMs l" "lim_maxTrackedKeys (roll_window now l) = lim_maxTrackedKeys l"
  "lim_maxGlobal (roll_window now l) = lim_maxGlobal l"
  "lim_globalWindowStartedAt (roll_window now l) = (if window_over now l then Some now else lim_globalWindowStartedAt l)"
  "lim_globalCount (roll_window now l) = (if window_over now l then 0 else lim_globalCount l)"
  by (simp_all add: roll_window_def)

lemma pairing_assert_global:
  "lim_maxGlobal (snd (pairing_assertAllowed c t l)) = lim_maxGlobal l \<and>
   lim_windowMs (snd (pairing_assertAllowed c t l)) = lim_windowMs l \<and>
   lim_globalWindowStartedAt (snd (pairing_assertAllowed c t l)) =
     (if window_over t l then Some t else lim_globalWindowStartedAt l) \<and>
   (let n = (if window_over t l then 0 else lim_globalCount l) in
    lim_globalCount (snd (pairing_assertAllowed c t l)) = (if n < lim_maxGlobal l then Suc n else n) \<and>
    (fst (pairing_assertAllowed c t l) = Inr () \<longrightarrow> n < lim_maxGlobal l))"
  by (auto simp: pairing_assertAllowed_def Let_def split: option.splits)

lemma admission_assert_global:
  "lim_maxGlobal (snd (admission_assertAllowed c t l)) = lim_maxGlobal l \<and>
   lim_windowMs (snd (admission_assertAllowed c t l)) = lim_windowMs l \<and>
   lim_globalWindowStartedAt (snd (admission_assertAllowed c t l)) =
     (if window_over t l then Some t else lim_globalWindowStartedAt l) \<and>
   (let n = (if window_over t l then 0 else lim_globalCount l) in
    lim_globalCount (snd (admission_assertAllowed c t l)) =
      (if fst (admission_assertAllowed c t l) = Inr () then Suc n else n) \<and>
    (fst (admission_assertAllowed c t l) = Inr () \<longrightarrow> n < lim_maxGlobal l))"
  by (auto simp: admission_assertAllowed_def Let_def)

interpretation pairing_window: window_limiter pairing_step pe_at lim_globalWindowStartedAt lim_globalCount
  lim_maxGlobal lim_windowMs
proof unfold_locales
  fix e s s'
  assume st: "pairing_step e s = (True, s')"
  then obtain c t where e: "e = PAssert c t" by (cases e) auto
  then show "if lim_globalWindowStartedAt s = None \<or> lim_windowMs s \<le> pe_at e - the (lim_globalWindowStartedAt s)
    then 0 < lim_maxGlobal s \<and> lim_globalWindowStartedAt s' = Some (pe_at e) \<and> lim_globalCount s' = 1
    else lim_globalCount s < lim_maxGlobal s \<and> lim_globalWindowStartedAt s' = lim_globalWindowStartedAt s
      \<and> lim_globalCount s' = Suc (lim_globalCount s)"
    using st pairing_assert_global [of c t s]
    by (cases "window_over t s") (auto simp: Let_def window_over_def split: prod.splits)
next
  fix e s s'
  assume "pairing_step e s = (False, s')"
  then show "lim_globalWindowStartedAt s' = lim_globalWindowStartedAt s \<and> lim_globalCount s \<le> lim_globalCount s' \<or>
    (lim_globalWindowStartedAt s = None \<or> lim_windowMs s \<le> pe_at e - the (lim_globalWindowStartedAt s)) \<and>
    lim_globalWindowStartedAt s' = Some (pe_at e)"
  proof (cases e)
    case (PAssert c t)
    then show ?thesis
      using \<open>pairing_step e s = (False, s')\<close> pairing_assert_global [of c t s]
      by (cases "window_over t s") (auto simp: Let_def window_over_def split: prod.splits)
  qed (auto simp: pairing_failed_def pairing_succeeded_def Let_def)
next
  fix e s b s'
  assume "pairing_step e s = (b, s')"
  then show "lim_maxGlobal s' = lim_maxGlobal s \<and> lim_windowMs s' = lim_windowMs s"
  proof (cases e)
    case (PAssert c t)
    then show ?thesis
      using \<open>pairing_step e s = (b, s')\<close> pairing_assert_global [of c t s] by (auto split: prod.splits)
  qed (auto simp: pairing_failed_def pairing_succeeded_def Let_def)
qed

interpretation admission_window: window_limiter admission_step snd lim_globalWindowStartedAt lim_globalCount
  lim_maxGlobal lim_windowMs
proof unfold_locales
  fix e :: "string \<times> int" and s s'
  assume "admission_step e s = (True, s')"
  then show "if lim_globalWindowStartedAt s = None \<or> lim_windowMs s \<le> snd e - the (lim_globalWindowStartedAt s)
    then 0 < lim_maxGlobal s \<and> lim_globalWindowStartedAt s' = Some (snd e) \<and> lim_globalCount s' = 1
    else lim_globalCount s < lim_maxGlobal s \<and> lim_globalWindowStartedAt s' = lim_globalWindowStartedAt s
      \<and> lim_globalCount s' = Suc (lim_globalCount s)"
    using admission_assert_global [of "fst e" "snd e" s]
    by (cases "window_over (snd e) s") (auto simp: admission_step_def Let_def window_over_def split: prod.splits)
next
  fix e :: "string \<times> int" and s s'
  assume "admission_step e s = (False, s')"
  then show "lim_globalWindowStartedAt s' = lim_globalWindowStartedAt s \<and> lim_globalCount s \<le> lim_globalCount s' \<or>
    (lim_globalWindowStartedAt s = None \<or> lim_windowMs s \<le> snd e - the (lim_globalWindowStartedAt s)) \<and>
    lim_globalWindowStartedAt s' = Some (snd e)"
    using admission_assert_global [of "fst e" "snd e" s]
    by (cases "window_over (snd e) s") (auto simp: admission_step_def Let_def window_over_def split: prod.splits)
next
  fix e :: "string \<times> int" and s b s'
  assume "admission_step e s = (b, s')"
  then show "lim_maxGlobal s' = lim_maxGlobal s \<and> lim_windowMs s' = lim_windowMs s"
    using admission_assert_global [of "fst e" "snd e" s] by (auto simp: admission_step_def split: prod.splits)
qed

section \<open>Bounded tables\<close>

definition limiter_inv :: "limiter \<Rightarrow> bool" where
  "limiter_inv l \<longleftrightarrow> wf_map (lim_clients l) \<and> [] \<notin> set (jm_keys (lim_clients l)) \<and>
     0 < lim_maxTrackedKeys l \<and> jm_size (lim_clients l) \<le> lim_maxTrackedKeys l"

lemma evict_then_set_inv:
  assumes "limiter_inv l" and "c \<noteq> []"
  shows "limiter_inv ((evict_oldest c l)\<lparr>lim_clients := jm_set c b (lim_clients (evict_oldest c l))\<rparr>)"
proof -
  have keys: "[] \<notin> set (jm_keys (jm_set c b m))" if "[] \<notin> set (jm_keys m)" for m :: "(string, bucket) jsmap"
    using set_jm_set [of c b m] that assms(2) by auto
  show ?thesis
  proof (cases "\<not> jm_has (lim_clients l) c \<and> jm_size (lim_clients l) \<ge> lim_maxTrackedKeys l")
    case True
    then obtain k v m where m: "lim_clients l = (k, v) # m" and "k \<noteq> []"
      using assms(1) by (cases "lim_clients l") (auto simp: limiter_inv_def)
    then have e: "lim_clients (evict_oldest c l) = jm_delete k (lim_clients l)"
      using True by (simp add: evict_oldest_def)
    have "Suc (jm_size (jm_delete k (lim_clients l))) = jm_size (lim_clients l)"
      using assms(1) m by (intro jm_size_delete_present) (simp_all add: limiter_inv_def jm_has_def)
    then show ?thesis
      using assms(1) keys [of "jm_delete k (lim_clients l)"] jm_size_set_le [of c b "jm_delete k (lim_clients l)"]
      by (auto simp: limiter_inv_def e set_jm_delete)
  next
    case False
    then have e: "evict_oldest c l = l"
      by (auto simp: evict_oldest_def)
    show ?thesis
      using False assms(1) keys [of "lim_clients l"] by (auto simp: limiter_inv_def e jm_size_set)
  qed
qed

lemma delete_client_inv: "limiter_inv l \<Longrightarrow> limiter_inv (l\<lparr>lim_clients := jm_delete c (lim_clients l)\<rparr>)"
  using jm_size_delete_le [of c "lim_clients l"] by (auto simp: limiter_inv_def set_jm_delete)

lemma limiter_inv_cong:
  "lim_clients l' = lim_clients l \<Longrightarrow> lim_maxTrackedKeys l' = lim_maxTrackedKeys l \<Longrightarrow> limiter_inv l' = limiter_inv l"
  by (simp add: limiter_inv_def)

lemma pairing_assert_inv: "limiter_inv l \<Longrightarrow> limiter_inv (snd (pairing_assertAllowed c t l))"
  using jm_size_delete_le [of c "lim_clients l"]
  by (auto simp: pairing_assertAllowed_def Let_def limiter_inv_def set_jm_delete split: option.splits)

lemma pairing_failed_inv: "limiter_inv l \<Longrightarrow> c \<noteq> [] \<Longrightarrow> limiter_inv (pairing_failed c t l)"
  using evict_then_set_inv by (simp add: pairing_failed_def Let_def)

lemma admission_assert_inv:
  assumes "limiter_inv l" and "c \<noteq> []"
  shows "limiter_inv (snd (admission_assertAllowed c t l))"
proof -
  have "limiter_inv (roll_window t l)" using assms(1) by (simp add: limiter_inv_cong [of "roll_window t l" l])
  from evict_then_set_inv [OF this assms(2)] assms(1) show ?thesis
    by (simp add: admission_assertAllowed_def Let_def limiter_inv_def)
qed

section \<open>A client's budget of failures\<close>

fun pe_client :: "pairing_event \<Rightarrow> string" where
  "pe_client (PAssert c _) = c" | "pe_client (PFailed c _) = c" | "pe_client (PSucceeded c _) = c"

definition own_failures :: "string \<Rightarrow> pairing_event list \<Rightarrow> nat" where
  "own_failures c es = length (filter (\<lambda>e. case e of PFailed c' _ \<Rightarrow> c' = c | _ \<Rightarrow> False) es)"

lemma evict_oldest_none: "jm_size (lim_clients l) < lim_maxTrackedKeys l \<Longrightarrow> evict_oldest c l = l"
  by (simp add: evict_oldest_def)

lemma bucket_step:
  assumes "jm_get (lim_clients l) c = Some \<lparr>bk_windowStartedAt = w, bk_count = k\<rparr>"
    and "pe_at e - w < lim_windowMs l" and "\<forall>t. e \<noteq> PSucceeded c t"
    and "jm_size (lim_clients l) < lim_maxTrackedKeys l"
  shows "jm_get (lim_clients (snd (pairing_step e l))) c =
      Some \<lparr>bk_windowStartedAt = w, bk_count = k + own_failures c [e]\<rparr>
    \<and> jm_size (lim_clients (snd (pairing_step e l))) \<le> Suc (jm_size (lim_clients l))
    \<and> lim_windowMs (snd (pairing_step e l)) = lim_windowMs l \<and> lim_max (snd (pairing_step e l)) = lim_max l
    \<and> lim_maxTrackedKeys (snd (pairing_step e l)) = lim_maxTrackedKeys l"
proof (cases e)
  case (PAssert c' t)
  then show ?thesis
    using assms jm_size_delete_le [of c' "lim_clients l"]
    by (auto simp: pairing_assertAllowed_def Let_def own_failures_def split: option.splits prod.splits)
next
  case (PFailed c' t)
  then show ?thesis
    using assms jm_size_set_le [of c' _ "lim_clients l"]
    by (auto simp: pairing_failed_def Let_def own_failures_def evict_oldest_none split: option.splits)
next
  case (PSucceeded c' t)
  then show ?thesis
    using assms jm_size_delete_le [of c' "lim_clients l"] by (auto simp: pairing_succeeded_def own_failures_def)
qed

lemma own_failures_Cons: "own_failures c (e # es) = own_failures c [e] + own_failures c es"
  by (simp add: own_failures_def)

lemma bucket_run:
  assumes "jm_get (lim_clients l) c = Some \<lparr>bk_windowStartedAt = w, bk_count = k\<rparr>"
    and "\<forall>e \<in> set es. pe_at e - w < lim_windowMs l \<and> (\<forall>t. e \<noteq> PSucceeded c t)"
    and "jm_size (lim_clients l) + length es \<le> lim_maxTrackedKeys l"
  shows "jm_get (lim_clients (fold (\<lambda>e l. snd (pairing_step e l)) es l)) c =
      Some \<lparr>bk_windowStartedAt = w, bk_count = k + own_failures c es\<rparr>
    \<and> lim_windowMs (fold (\<lambda>e l. snd (pairing_step e l)) es l) = lim_windowMs l
    \<and> lim_max (fold (\<lambda>e l. snd (pairing_step e l)) es l) = lim_max l"
  using assms
proof (induction es arbitrary: l k)
  case Nil
  then show ?case by (simp add: own_failures_def)
next
  case (Cons e es)
  have "jm_size (lim_clients l) < lim_maxTrackedKeys l" using Cons.prems(3) by simp
  note st = bucket_step [OF Cons.prems(1), of e, OF _ _ this]
  show ?case
    using st Cons.IH [of "snd (pairing_step e l)" "k + own_failures c [e]"] Cons.prems(2, 3)
    by (simp add: own_failures_Cons [of c e es] add.assoc)
qed

section \<open>Properties\<close>

lemma first_failure_bucket:
  assumes "jm_get (lim_clients l) c = None" and "jm_size (lim_clients l) < lim_maxTrackedKeys l"
  shows "jm_get (lim_clients (pairing_failed c w l)) c = Some \<lparr>bk_windowStartedAt = w, bk_count = 1\<rparr>"
    and "jm_size (lim_clients (pairing_failed c w l)) = Suc (jm_size (lim_clients l))"
    and "lim_windowMs (pairing_failed c w l) = lim_windowMs l" and "lim_max (pairing_failed c w l) = lim_max l"
    and "lim_maxTrackedKeys (pairing_failed c w l) = lim_maxTrackedKeys l"
  using assms by (simp_all add: pairing_failed_def Let_def evict_oldest_none jm_size_set jm_has_def)

text \<open>
  Guessing a pairing secret is bounded per client. When a client's first failure at time \<open>w\<close>
  is followed, within the window and without a success of its own, by enough further failures to
  reach \<^verbatim>\<open>maxAttempts\<close>, every later attempt in that window is refused with 429, however the calls
  of other clients are interleaved (as long as the tracked-key table has not overflowed).
\<close>
theorem pairing_failure_budget:
  assumes "jm_get (lim_clients l) c = None"
    and "jm_size (lim_clients l) + length es < lim_maxTrackedKeys l"
    and "\<forall>e \<in> set es. pe_at e - w < lim_windowMs l \<and> (\<forall>t. e \<noteq> PSucceeded c t)"
    and "lim_max l \<le> Suc (own_failures c es)" and "t - w < lim_windowMs l"
  shows "fst (pairing_assertAllowed c t (fold (\<lambda>e l. snd (pairing_step e l)) es (pairing_failed c w l)))
    = Inl (LocalError 429 ''pairing_rate_limited'')"
proof -
  have room: "jm_size (lim_clients l) < lim_maxTrackedKeys l" using assms(2) by simp
  note first = first_failure_bucket [OF assms(1) room, of w]
  let ?l = "fold (\<lambda>e l. snd (pairing_step e l)) es (pairing_failed c w l)"
  have "jm_get (lim_clients ?l) c = Some \<lparr>bk_windowStartedAt = w, bk_count = Suc (own_failures c es)\<rparr>
      \<and> lim_windowMs ?l = lim_windowMs l \<and> lim_max ?l = lim_max l"
    using bucket_run [OF first(1), of es] assms(2, 3) first by simp
  then show ?thesis
    using assms(4, 5) by (simp add: pairing_assertAllowed_def Let_def localError_def)
qed

theorem pairing_failure_budget_witness:
  "fst (pairing_assertAllowed ''c'' 30 (fold (\<lambda>e l. snd (pairing_step e l))
     [PFailed ''c'' 11, PAssert ''d'' 12, PFailed ''c'' 13] (pairing_failed ''c'' 10 (new_limiter 3 100 8 50))))
   = Inl (LocalError 429 ''pairing_rate_limited'')"
  by (rule pairing_failure_budget) (simp_all add: new_limiter_def own_failures_def)

text \<open>
  Both limiters bound the process. In any stretch of time shorter than the window, over calls
  made in order of time, whatever the clients and whatever the state at its beginning, at most
  twice \<^verbatim>\<open>maxGlobalAttempts\<close> pairing attempts and at most twice \<^verbatim>\<open>maxGlobal\<close> identity proofs
  are admitted.
\<close>
theorem limiters_bound_the_process:
  assumes "sorted (map pe_at es)" and "\<forall>e \<in> set es. t \<le> pe_at e \<and> pe_at e < t + lim_windowMs l"
    and "sorted (map snd qs)" and "\<forall>q \<in> set qs. t \<le> snd q \<and> snd q < t + lim_windowMs l"
  shows "run_admit pairing_step es l \<le> 2 * lim_maxGlobal l \<and> run_admit admission_step qs l \<le> 2 * lim_maxGlobal l"
  using pairing_window.admitted_at_most_twice [OF assms(1), of t l] assms(2)
    admission_window.admitted_at_most_twice [OF assms(3), of t l] assms(4) by auto

theorem limiters_bound_the_process_witness:
  "run_admit pairing_step [PAssert ''a'' 1, PAssert ''b'' 2, PAssert ''c'' 3] (new_limiter 3 100 8 1) \<le> 2 \<and>
   run_admit admission_step [(''a'', 1), (''b'', 2)] (new_limiter 3 100 8 1) \<le> 2"
  using limiters_bound_the_process [of "[PAssert ''a'' 1, PAssert ''b'' 2, PAssert ''c'' 3]" 1 "new_limiter 3 100 8 1"
      "[(''a'', 1), (''b'', 2)]"]
  by (simp add: new_limiter_def)

text \<open>Every call keeps the table within \<^verbatim>\<open>maxTrackedKeys\<close>, for the non-empty client keys that
  \<^verbatim>\<open>pairingAttemptKey\<close> makes.\<close>

datatype limiter_call = CallPairing pairing_event | CallAdmission string int

fun call_client :: "limiter_call \<Rightarrow> string" where
  "call_client (CallPairing e) = pe_client e" | "call_client (CallAdmission c _) = c"

fun limiter_step :: "limiter_call \<Rightarrow> limiter \<Rightarrow> limiter" where
  "limiter_step (CallPairing e) l = snd (pairing_step e l)"
| "limiter_step (CallAdmission c t) l = snd (admission_assertAllowed c t l)"

lemma limiter_step_inv: "limiter_inv l \<Longrightarrow> call_client e \<noteq> [] \<Longrightarrow> limiter_inv (limiter_step e l)"
proof (cases e)
  case (CallPairing p)
  then show "limiter_inv l \<Longrightarrow> call_client e \<noteq> [] \<Longrightarrow> ?thesis"
    by (cases p) (auto simp: pairing_failed_inv pairing_succeeded_def delete_client_inv split: prod.splits
        dest: pairing_assert_inv [of l] dest!: arg_cong [of _ _ snd])
qed (simp add: admission_assert_inv)

lemma limiter_step_max: "lim_maxTrackedKeys (limiter_step e l) = lim_maxTrackedKeys l"
proof (cases e)
  case (CallPairing p)
  then show ?thesis
    by (cases p) (auto simp: pairing_assertAllowed_def pairing_failed_def pairing_succeeded_def Let_def
        split: prod.splits option.splits if_splits)
qed (simp add: admission_assertAllowed_def Let_def)

lemma limiter_run_inv:
  "limiter_inv l \<Longrightarrow> \<forall>e \<in> set es. call_client e \<noteq> [] \<Longrightarrow>
    limiter_inv (fold limiter_step es l) \<and> lim_maxTrackedKeys (fold limiter_step es l) = lim_maxTrackedKeys l"
  by (induction es arbitrary: l) (simp_all add: limiter_step_inv limiter_step_max)

text \<open>
  The table of tracked clients never outgrows \<^verbatim>\<open>maxTrackedKeys\<close>, over every sequence of calls
  with non-empty client keys, starting from a fresh limiter.
\<close>
theorem limiter_table_bounded:
  assumes "0 < k" and "\<forall>e \<in> set es. call_client e \<noteq> []"
  shows "jm_size (lim_clients (fold limiter_step es (new_limiter m w k g))) \<le> k"
proof -
  have "limiter_inv (new_limiter m w k g)" "lim_maxTrackedKeys (new_limiter m w k g) = k"
    using assms(1) by (simp_all add: limiter_inv_def new_limiter_def)
  then show ?thesis
    using limiter_run_inv [OF _ assms(2), of "new_limiter m w k g"] by (simp add: limiter_inv_def)
qed

theorem limiter_table_bounded_witness:
  "jm_size (lim_clients (fold limiter_step
     [CallPairing (PFailed ''a'' 1), CallPairing (PFailed ''b'' 2), CallAdmission ''c'' 3] (new_limiter 5 100 2 9))) \<le> 2"
  using limiter_table_bounded [of 2 "[CallPairing (PFailed ''a'' 1), CallPairing (PFailed ''b'' 2), CallAdmission ''c'' 3]"
      5 100 9] by (simp del: fold_simps)

end
