(* ===== verification/Idempotency_Store.thy ===== *)
theory Idempotency_Store
  imports Local_Request
begin

text \<open>
  The memory of recent mutations, \<^verbatim>\<open>src/src/localApi/idempotencyStore.ts\<close>: key normalisation, the
  claim of a key (\<^verbatim>\<open>begin\<close>), its settlement, expiry and the capacity bound. The closure \<^verbatim>\<open>settle\<close>
  that \<^verbatim>\<open>begin\<close> returns captures a map key and an operation; it is the value \<open>Claim\<close> here, and
  \<open>settle\<close> applies it. SHA-256 (in hexadecimal) is the parameter \<open>sha\<close>.
\<close>

section \<open>Model\<close>

definition DEFAULT_RETENTION_MS :: int where "DEFAULT_RETENTION_MS = 24 * 60 * 60 * 1000"
definition DEFAULT_MAX_ENTRIES :: nat where "DEFAULT_MAX_ENTRIES = 2048"
definition MAX_REPLAYABLE_BYTES :: nat where "MAX_REPLAYABLE_BYTES = 64 * 1024"
definition MAX_KEY_LENGTH :: nat where "MAX_KEY_LENGTH = 128"
definition MIN_KEY_LENGTH :: nat where "MIN_KEY_LENGTH = 8"

definition key_char :: "char \<Rightarrow> bool" where
  "key_char c \<longleftrightarrow> is_alnum c \<or> c \<in> set ''-._~:''"

datatype idem_entry =
    CompletedEntry (ie_status: nat) (ie_value: "json option") (ie_storedAt: int) (ie_operation: string)
  | InFlightEntry (ie_storedAt: int) (ie_operation: string)

record idem_store =
  is_entries :: "(string, idem_entry) jsmap"
  is_retentionMs :: int
  is_maxEntries :: nat

definition new_idem_store :: "int \<Rightarrow> nat \<Rightarrow> idem_store" where
  "new_idem_store retentionMs maxEntries =
     \<lparr>is_entries = [], is_retentionMs = retentionMs, is_maxEntries = maxEntries\<rparr>"

datatype idem_claim = NoClaim | Claim (cl_key: string) (cl_operation: string)

record idem_outcome =
  oc_replay :: "(nat \<times> json option) option"
  oc_settle :: idem_claim

definition normalizeIdempotencyKey :: "string option \<Rightarrow> string option" where
  "normalizeIdempotencyKey raw =
     (case raw of
        None \<Rightarrow> None
      | Some r \<Rightarrow>
          (let v = trim r in
           if v \<noteq> r then None
           else if length v < MIN_KEY_LENGTH \<or> length v > MAX_KEY_LENGTH then None
           else if \<not> list_all key_char v then None
           else Some v))"

definition scopedKey :: "(string \<Rightarrow> string) \<Rightarrow> string \<Rightarrow> string option \<Rightarrow> string" where
  "scopedKey sha key credential =
     (let subject = (if opt_str credential \<noteq> [] then take 32 (sha (opt_str credential)) else ''anonymous'')
      in subject @ '':'' @ key)"

definition evictExpired :: "int \<Rightarrow> idem_store \<Rightarrow> idem_store" where
  "evictExpired now s =
     (let cutoff = now - is_retentionMs s in
      s\<lparr>is_entries := filter (\<lambda>(k, e). \<not> ie_storedAt e \<le> cutoff) (is_entries s)\<rparr>)"

function enforce_loop :: "nat \<Rightarrow> (string, idem_entry) jsmap \<Rightarrow> (string, idem_entry) jsmap" where
  "enforce_loop maxEntries es =
     (if jm_size es > maxEntries
      then (case es of
              [] \<Rightarrow> es
            | (oldest, _) # _ \<Rightarrow> if oldest = [] then es else enforce_loop maxEntries (jm_delete oldest es))
      else es)"
  by pat_completeness auto
termination
  by (relation "measure (\<lambda>(_, es). length es)")
    (auto simp: less_Suc_eq_le jm_size_delete_le)

declare enforce_loop.simps [simp del]

definition enforceCapacity :: "idem_store \<Rightarrow> idem_store" where
  "enforceCapacity s = s\<lparr>is_entries := enforce_loop (is_maxEntries s) (is_entries s)\<rparr>"

definition idem_begin ::
  "(string \<Rightarrow> string) \<Rightarrow> string option \<Rightarrow> string option \<Rightarrow> string \<Rightarrow> int \<Rightarrow> idem_store
    \<Rightarrow> idem_outcome result \<times> idem_store" where
  "idem_begin sha rawKey credential operation now s =
     (case normalizeIdempotencyKey rawKey of
        None \<Rightarrow> (Inr \<lparr>oc_replay = None, oc_settle = NoClaim\<rparr>, s)
      | Some key \<Rightarrow>
          (let s1 = evictExpired now s; mapKey = scopedKey sha key credential in
           case jm_get (is_entries s1) mapKey of
             Some existing \<Rightarrow>
               if ie_operation existing \<noteq> operation
               then (Inl (localError 409 ''idempotency_key_reused_for_different_operation''), s1)
               else (case existing of
                       InFlightEntry _ _ \<Rightarrow> (Inl (localError 409 ''idempotency_key_in_flight''), s1)
                     | CompletedEntry status v _ _ \<Rightarrow>
                         (Inr \<lparr>oc_replay = Some (status, v), oc_settle = NoClaim\<rparr>, s1))
           | None \<Rightarrow>
               (Inr \<lparr>oc_replay = None, oc_settle = Claim mapKey operation\<rparr>,
                enforceCapacity (s1\<lparr>is_entries := jm_set mapKey (InFlightEntry now operation) (is_entries s1)\<rparr>))))"

definition replay_size :: "json option \<Rightarrow> nat" where
  "replay_size v = length (bytes_of_string (json_stringify (case v of None \<Rightarrow> JNull | Some j \<Rightarrow> j)))"

definition idem_settle :: "idem_claim \<Rightarrow> local_response option \<Rightarrow> bool \<Rightarrow> int \<Rightarrow> idem_store \<Rightarrow> idem_store" where
  "idem_settle claim response failed now s =
     (case claim of
        NoClaim \<Rightarrow> s
      | Claim mapKey operation \<Rightarrow>
          (if failed \<or> response = None then s\<lparr>is_entries := jm_delete mapKey (is_entries s)\<rparr>
           else (case the response of
                   JsonResponse status v \<Rightarrow>
                     if replay_size v > MAX_REPLAYABLE_BYTES
                     then s\<lparr>is_entries := jm_delete mapKey (is_entries s)\<rparr>
                     else s\<lparr>is_entries := jm_set mapKey (CompletedEntry status v now operation) (is_entries s)\<rparr>
                 | _ \<Rightarrow> s\<lparr>is_entries := jm_delete mapKey (is_entries s)\<rparr>)))"

definition idem_size :: "int \<Rightarrow> idem_store \<Rightarrow> nat \<times> idem_store" where
  "idem_size now s = (let s1 = evictExpired now s in (jm_size (is_entries s1), s1))"

section \<open>Keys\<close>

lemma normalize_Some:
  "normalizeIdempotencyKey raw = Some k \<longleftrightarrow>
     raw = Some k \<and> trim k = k \<and> MIN_KEY_LENGTH \<le> length k \<and> length k \<le> MAX_KEY_LENGTH \<and> list_all key_char k"
  by (cases raw) (auto simp: normalizeIdempotencyKey_def Let_def)

lemma scopedKey_nonempty [simp]: "scopedKey sha k c \<noteq> []"
  by (simp add: scopedKey_def Let_def)

lemma append_colon_inject:
  "CHR '':'' \<notin> set a \<Longrightarrow> CHR '':'' \<notin> set b \<Longrightarrow> a @ '':'' @ x = b @ '':'' @ y \<longleftrightarrow> a = b \<and> x = y"
proof (induction a arbitrary: b)
  case Nil
  then show ?case by (cases b) auto
next
  case (Cons c a)
  then show ?case by (cases b) auto
qed

lemma lower_hex_no_colon: "list_all is_lower_hex s \<Longrightarrow> CHR '':'' \<notin> set s"
  by (auto simp: list_all_iff is_lower_hex_def is_digit_def char_code_def)

lemma scopedKey_inject:
  assumes "\<And>x. list_all is_lower_hex (sha x)" and "\<And>x. length (sha x) = 64"
  shows "scopedKey sha k c = scopedKey sha k' c' \<longleftrightarrow>
    k = k' \<and> (opt_str c = [] \<longleftrightarrow> opt_str c' = []) \<and>
    (opt_str c \<noteq> [] \<longrightarrow> take 32 (sha (opt_str c)) = take 32 (sha (opt_str c')))"
proof -
  let ?sub = "\<lambda>c. if opt_str c \<noteq> [] then take 32 (sha (opt_str c)) else ''anonymous''"
  have "CHR '':'' \<notin> set (?sub c)" for c
    using lower_hex_no_colon [OF assms(1)] by (auto dest: in_set_takeD)
  then have "scopedKey sha k c = scopedKey sha k' c' \<longleftrightarrow> ?sub c = ?sub c' \<and> k = k'"
    unfolding scopedKey_def Let_def using append_colon_inject by blast
  moreover have "take 32 (sha x) \<noteq> ''anonymous''" for x
  proof
    assume "take 32 (sha x) = ''anonymous''"
    then have "length (take 32 (sha x)) = 9" by simp
    then show False using assms(2) [of x] by simp
  qed
  ultimately show ?thesis by (auto split: if_splits dest: sym)
qed

section \<open>Invariant and capacity\<close>

definition idem_inv :: "idem_store \<Rightarrow> bool" where
  "idem_inv s \<longleftrightarrow> wf_map (is_entries s) \<and> [] \<notin> set (jm_keys (is_entries s))"

lemma new_idem_store_inv [simp]: "idem_inv (new_idem_store r n)"
  by (simp add: idem_inv_def new_idem_store_def)

lemma enforce_loop_drop:
  "wf_map es \<Longrightarrow> [] \<notin> set (jm_keys es) \<Longrightarrow> enforce_loop n es = drop (length es - n) es"
proof (induction n es rule: enforce_loop.induct)
  case (1 n es)
  show ?case
  proof (cases "length es > n")
    case True
    then obtain k e es' where es: "es = (k, e) # es'" by (cases es) auto
    with "1.prems" have "jm_delete k es = es'" "k \<noteq> []" "wf_map es'" "[] \<notin> set (jm_keys es')"
      by (auto simp: wf_map_def intro: jm_delete_absent [of es' k] simp: jm_has_iff)
    then show ?thesis
      using "1.IH" [of "(k, e)" es' k e] True es by (simp add: enforce_loop.simps [of n "(k, e) # es'"] Suc_diff_le)
  qed (simp add: enforce_loop.simps [of n es])
qed

lemma enforceCapacity_entries:
  "idem_inv s \<Longrightarrow> is_entries (enforceCapacity s) = drop (length (is_entries s) - is_maxEntries s) (is_entries s)"
  by (simp add: enforceCapacity_def enforce_loop_drop idem_inv_def)

lemma wf_map_drop [simp, intro]: "wf_map m \<Longrightarrow> wf_map (drop n m)"
  by (simp add: wf_map_def drop_map [symmetric])

lemma enforceCapacity_inv: "idem_inv s \<Longrightarrow> idem_inv (enforceCapacity s)"
  using enforceCapacity_entries [of s] by (auto simp: idem_inv_def dest: in_set_dropD)

lemma evictExpired_inv: "idem_inv s \<Longrightarrow> idem_inv (evictExpired now s)"
  by (auto simp: idem_inv_def evictExpired_def Let_def)

lemma insert_entry_inv: "idem_inv s \<Longrightarrow> k \<noteq> [] \<Longrightarrow> idem_inv (s\<lparr>is_entries := jm_set k e (is_entries s)\<rparr>)"
  using set_jm_set [of k e "is_entries s"] by (auto simp: idem_inv_def)

lemma delete_entry_inv: "idem_inv s \<Longrightarrow> idem_inv (s\<lparr>is_entries := jm_delete k (is_entries s)\<rparr>)"
  by (auto simp: idem_inv_def set_jm_delete)

lemma idem_begin_inv: "idem_inv s \<Longrightarrow> idem_inv (snd (idem_begin sha rk c op now s))"
  by (auto simp: idem_begin_def Let_def evictExpired_inv
      intro!: enforceCapacity_inv insert_entry_inv split: option.splits idem_entry.splits)

lemma idem_settle_inv: "idem_inv s \<Longrightarrow> cl_key cl \<noteq> [] \<or> cl = NoClaim \<Longrightarrow> idem_inv (idem_settle cl r f now s)"
  by (auto simp: idem_settle_def delete_entry_inv insert_entry_inv
      split: idem_claim.splits local_response.splits)

lemma idem_begin_claim_key: "fst (idem_begin sha rk c op now s) = Inr oc \<Longrightarrow> cl_key (oc_settle oc) \<noteq> [] \<or> oc_settle oc = NoClaim"
  by (auto simp: idem_begin_def Let_def split: option.splits idem_entry.splits if_splits)

section \<open>Sequences of requests\<close>

text \<open>The store serves interleaved requests: a \<open>Begin\<close> when one arrives, a \<open>Settle\<close> when one ends.\<close>

datatype idem_event =
    Begin "string option" "string option" string (ev_now: int)
  | Settle idem_claim "local_response option" bool (ev_now: int)

fun idem_step :: "(string \<Rightarrow> string) \<Rightarrow> idem_event \<Rightarrow> idem_store \<Rightarrow> idem_store" where
  "idem_step sha (Begin rk c op now) s = snd (idem_begin sha rk c op now s)"
| "idem_step sha (Settle cl r f now) s = idem_settle cl r f now s"

fun event_key :: "(string \<Rightarrow> string) \<Rightarrow> idem_event \<Rightarrow> string option" where
  "event_key sha (Begin rk c op now) = map_option (\<lambda>k. scopedKey sha k c) (normalizeIdempotencyKey rk)"
| "event_key sha (Settle NoClaim r f now) = None"
| "event_key sha (Settle (Claim mk op) r f now) = Some mk"

lemma entry_survives_step:
  assumes "idem_inv s" and "jm_get (is_entries s) mk = Some e" and "event_key sha ev \<noteq> Some mk"
    and "event_key sha ev \<noteq> Some []" and "ev_now ev < ie_storedAt e + is_retentionMs s"
    and "length (is_entries s) < is_maxEntries s"
  shows "idem_inv (idem_step sha ev s) \<and> jm_get (is_entries (idem_step sha ev s)) mk = Some e \<and>
    length (is_entries (idem_step sha ev s)) \<le> Suc (length (is_entries s)) \<and>
    is_retentionMs (idem_step sha ev s) = is_retentionMs s \<and> is_maxEntries (idem_step sha ev s) = is_maxEntries s"
proof (cases ev)
  case (Begin rk c op now)
  let ?s1 = "evictExpired now s"
  have wf: "wf_map (is_entries s)" using assms(1) by (simp add: idem_inv_def)
  have get: "jm_get (is_entries ?s1) mk = Some e"
    using assms(2, 5) Begin by (simp add: evictExpired_def Let_def jm_get_filter [OF wf])
  have len: "length (is_entries ?s1) \<le> length (is_entries s)"
    by (simp add: evictExpired_def Let_def)
  have par: "is_retentionMs ?s1 = is_retentionMs s" "is_maxEntries ?s1 = is_maxEntries s"
    by (simp_all add: evictExpired_def Let_def)
  have ins: "is_entries (enforceCapacity (?s1\<lparr>is_entries := jm_set k e' (is_entries ?s1)\<rparr>)) = jm_set k e' (is_entries ?s1)"
    if "k \<noteq> []" for k e'
    using enforceCapacity_entries [OF insert_entry_inv [OF evictExpired_inv [OF assms(1)] that]]
      len assms(6) jm_size_set_le [of k e' "is_entries ?s1"] by (simp add: par)
  have cap: "is_retentionMs (enforceCapacity x) = is_retentionMs x" "is_maxEntries (enforceCapacity x) = is_maxEntries x" for x
    by (simp_all add: enforceCapacity_def)
  have size: "jm_size (jm_set k e' (is_entries ?s1)) \<le> Suc (jm_size (is_entries s))" for k e'
    using jm_size_set_le [of k e' "is_entries ?s1"] len by linarith
  have "idem_inv (idem_step sha ev s)"
    using idem_begin_inv [OF assms(1)] Begin by simp
  then show ?thesis
    using get le_SucI [OF len] ins size Begin assms(2, 3)
    by (simp add: idem_begin_def Let_def par cap split: option.splits idem_entry.splits) auto
next
  case (Settle cl r f now)
  show ?thesis
  proof (cases cl)
    case (Claim k op)
    then have "idem_inv (idem_step sha ev s)"
      using Settle assms(4) idem_settle_inv [OF assms(1), of cl r f now] by simp
    then show ?thesis
      using Settle Claim assms(2, 3) jm_size_set_le [of k _ "is_entries s"] jm_size_delete_le [of k "is_entries s"]
      by (auto simp: idem_settle_def le_SucI split: local_response.splits)
  qed (use Settle assms in \<open>simp add: idem_settle_def\<close>)
qed

lemma entry_survives:
  assumes "idem_inv s" and "jm_get (is_entries s) mk = Some e"
    and "\<forall>ev \<in> set evs. event_key sha ev \<noteq> Some mk \<and> event_key sha ev \<noteq> Some [] \<and>
      ev_now ev < ie_storedAt e + is_retentionMs s"
    and "length (is_entries s) + length evs \<le> is_maxEntries s"
  shows "idem_inv (fold (idem_step sha) evs s) \<and> jm_get (is_entries (fold (idem_step sha) evs s)) mk = Some e \<and>
    is_retentionMs (fold (idem_step sha) evs s) = is_retentionMs s"
  using assms
proof (induction evs arbitrary: s)
  case (Cons ev evs)
  have "length (is_entries s) < is_maxEntries s" using Cons.prems(4) by simp
  note step = entry_survives_step [OF Cons.prems(1, 2), of sha ev, OF _ _ _ this]
  show ?case
    using step Cons.IH [of "idem_step sha ev s"] Cons.prems(3, 4) by auto
qed simp

text \<open>What a request with the key of a live entry is told.\<close>

lemma idem_begin_existing:
  assumes "idem_inv s" and "normalizeIdempotencyKey rk = Some k"
    and "jm_get (is_entries s) (scopedKey sha k c) = Some e" and "now < ie_storedAt e + is_retentionMs s"
  shows "fst (idem_begin sha rk c op now s) =
    (if ie_operation e \<noteq> op then Inl (localError 409 ''idempotency_key_reused_for_different_operation'')
     else case e of InFlightEntry _ _ \<Rightarrow> Inl (localError 409 ''idempotency_key_in_flight'')
          | CompletedEntry st v _ _ \<Rightarrow> Inr \<lparr>oc_replay = Some (st, v), oc_settle = NoClaim\<rparr>)"
proof -
  have "jm_get (is_entries (evictExpired now s)) (scopedKey sha k c) = Some e"
    using assms by (simp add: evictExpired_def Let_def jm_get_filter idem_inv_def)
  then show ?thesis
    using assms(2) by (simp add: idem_begin_def split: idem_entry.split)
qed

lemma idem_begin_length:
  assumes "idem_inv s" and "idem_begin sha rk c op now s = (r, s1)"
  shows "length (is_entries s1) \<le> Suc (length (is_entries s))"
proof -
  let ?e = "evictExpired now s"
  have e: "length (is_entries ?e) \<le> length (is_entries s)" by (simp add: evictExpired_def Let_def)
  have "length (is_entries (enforceCapacity (?e\<lparr>is_entries := jm_set (scopedKey sha k c) x (is_entries ?e)\<rparr>))) \<le> Suc (length (is_entries s))" for k x
    using enforceCapacity_entries [OF insert_entry_inv [OF evictExpired_inv [OF assms(1)] scopedKey_nonempty]]
      jm_size_set_le [of "scopedKey sha k c" x "is_entries ?e"] e by simp
  then show ?thesis
    using assms(2) le_SucI [OF e] by (auto simp: idem_begin_def Let_def split: option.splits if_splits idem_entry.splits)
qed

lemma idem_begin_claimed:
  assumes "idem_begin sha rk c op t0 s = (Inr oc, s1)" and "oc_settle oc = Claim mk op'"
  shows "\<exists>k. normalizeIdempotencyKey rk = Some k \<and> mk = scopedKey sha k c \<and> op' = op \<and> oc_replay oc = None \<and>
    jm_get (is_entries (evictExpired t0 s)) mk = None \<and>
    s1 = enforceCapacity ((evictExpired t0 s)\<lparr>is_entries :=
      jm_set mk (InFlightEntry t0 op) (is_entries (evictExpired t0 s))\<rparr>)"
  using assms by (auto simp: idem_begin_def Let_def split: option.splits idem_entry.splits if_splits)

lemma claimed_entry:
  assumes "idem_begin sha rk c op t0 s = (Inr oc, s1)" and "oc_settle oc = Claim mk op'"
    and "idem_inv s" and "0 < is_maxEntries s"
  shows "jm_get (is_entries s1) mk = Some (InFlightEntry t0 op)"
    and "length (is_entries s1) \<le> is_maxEntries s"
    and "is_retentionMs s1 = is_retentionMs s" and "is_maxEntries s1 = is_maxEntries s"
proof -
  let ?e = "evictExpired t0 s"
  obtain k where k: "mk = scopedKey sha k c" "jm_get (is_entries ?e) mk = None"
    and s1: "s1 = enforceCapacity (?e\<lparr>is_entries := jm_set mk (InFlightEntry t0 op) (is_entries ?e)\<rparr>)"
    using idem_begin_claimed [OF assms(1, 2)] by blast
  have "idem_inv (?e\<lparr>is_entries := jm_set mk (InFlightEntry t0 op) (is_entries ?e)\<rparr>)"
    using k by (simp add: insert_entry_inv evictExpired_inv assms(3))
  from enforceCapacity_entries [OF this]
  have ent: "is_entries s1 = drop (Suc (length (is_entries ?e)) - is_maxEntries s) (is_entries ?e @ [(mk, InFlightEntry t0 op)])"
    using k(2) by (simp add: s1 jm_keys_set_absent jm_has_def) (simp add: evictExpired_def Let_def)
  then show "length (is_entries s1) \<le> is_maxEntries s" by simp
  have "(mk, InFlightEntry t0 op) \<in> set (is_entries s1)"
    using assms(4) by (simp add: ent drop_append)
  moreover have "wf_map (is_entries s1)"
    using idem_begin_inv [OF assms(3), of sha rk c op t0] assms(1) by (simp add: idem_inv_def)
  ultimately show "jm_get (is_entries s1) mk = Some (InFlightEntry t0 op)"
    by (rule jm_get_memI [rotated])
  show "is_retentionMs s1 = is_retentionMs s" "is_maxEntries s1 = is_maxEntries s"
    by (simp_all add: s1 enforceCapacity_def evictExpired_def Let_def)
qed

section \<open>Properties\<close>

text \<open>
  A key in flight is refused. Once \<^verbatim>\<open>begin\<close> has granted a claim, a second request with the
  same key, credential and operation is refused with \<^verbatim>\<open>idempotency_key_in_flight\<close>, whatever
  requests with other keys begin or end in between, as long as the claim has not expired and the
  map has not overflowed.
\<close>
theorem key_in_flight_rejected:
  assumes "idem_inv s" and "idem_begin sha rk c op t0 s = (Inr oc, s1)" and "oc_settle oc = Claim mk op"
    and "\<forall>ev \<in> set evs. event_key sha ev \<noteq> Some mk \<and> event_key sha ev \<noteq> Some [] \<and> ev_now ev < t0 + is_retentionMs s"
    and "length (is_entries s1) + length evs \<le> is_maxEntries s" and "0 < is_maxEntries s"
    and "t < t0 + is_retentionMs s"
  shows "fst (idem_begin sha rk c op t (fold (idem_step sha) evs s1)) = Inl (LocalError 409 ''idempotency_key_in_flight'')"
proof -
  note c = claimed_entry [OF assms(2, 3, 1, 6)]
  have inv: "idem_inv s1" using idem_begin_inv [OF assms(1), of sha rk c op t0] assms(2) by simp
  obtain k where k: "normalizeIdempotencyKey rk = Some k" "mk = scopedKey sha k c"
    using idem_begin_claimed [OF assms(2, 3)] by blast
  have "idem_inv (fold (idem_step sha) evs s1) \<and> jm_get (is_entries (fold (idem_step sha) evs s1)) mk
      = Some (InFlightEntry t0 op) \<and> is_retentionMs (fold (idem_step sha) evs s1) = is_retentionMs s1"
    using entry_survives [OF inv c(1), of evs sha] assms(4, 5) c by simp
  then show ?thesis
    using idem_begin_existing [of "fold (idem_step sha) evs s1" rk k sha c _ t op] k c assms(7)
    by (simp add: localError_def)
qed

theorem key_in_flight_rejected_witness:
  "fst (idem_begin id (Some ''draft-0001'') None ''POST /x'' 5
     (fold (idem_step id) [Begin (Some ''draft-0002'') None ''POST /x'' 2]
       (snd (idem_begin id (Some ''draft-0001'') None ''POST /x'' 1 (new_idem_store 100 4)))))
   = Inl (LocalError 409 ''idempotency_key_in_flight'')"
proof -
  let ?b = "idem_begin id (Some ''draft-0001'') None ''POST /x'' 1 (new_idem_store 100 4)"
  have b: "?b = (Inr \<lparr>oc_replay = None, oc_settle = Claim ''anonymous:draft-0001'' ''POST /x''\<rparr>, snd ?b)"
    and n: "length (is_entries (snd ?b)) = 1"
    by code_simp+
  have ev: "event_key id (Begin (Some ''draft-0002'') None ''POST /x'' 2) = Some ''anonymous:draft-0002''"
    by code_simp
  have "\<forall>x \<in> set [Begin (Some ''draft-0002'') None ''POST /x'' 2]. event_key id x \<noteq> Some ''anonymous:draft-0001'' \<and>
      event_key id x \<noteq> Some [] \<and> ev_now x < 1 + is_retentionMs (new_idem_store 100 4)"
    using ev by (simp add: new_idem_store_def del: event_key.simps)
  from key_in_flight_rejected [OF new_idem_store_inv b _ this, of 5] show ?thesis
    by (simp add: n del: fold_simps) (simp add: new_idem_store_def del: fold_simps)
qed

text \<open>
  A settled success is replayed. After a claim is settled with a JSON response small enough to
  keep, a retry with the same key, credential and operation within the retention time gets exactly
  that status and value back and no claim, whatever requests with other keys come in between (as
  long as the map has not overflowed).
\<close>
theorem settled_success_replayed:
  assumes "idem_inv s" and "idem_begin sha rk c op t0 s = (Inr oc, s1)" and "oc_settle oc = Claim mk op"
    and "replay_size v \<le> MAX_REPLAYABLE_BYTES"
    and "\<forall>ev \<in> set evs. event_key sha ev \<noteq> Some mk \<and> event_key sha ev \<noteq> Some [] \<and> ev_now ev < t1 + is_retentionMs s"
    and "length (is_entries s1) + length evs \<le> is_maxEntries s" and "0 < is_maxEntries s"
    and "t < t1 + is_retentionMs s"
  shows "fst (idem_begin sha rk c op t
           (fold (idem_step sha) evs (idem_settle (oc_settle oc) (Some (JsonResponse status v)) False t1 s1)))
         = Inr \<lparr>oc_replay = Some (status, v), oc_settle = NoClaim\<rparr>"
proof -
  note c = claimed_entry [OF assms(2, 3, 1, 7)]
  have inv: "idem_inv s1" using idem_begin_inv [OF assms(1), of sha rk c op t0] assms(2) by simp
  obtain k where k: "normalizeIdempotencyKey rk = Some k" "mk = scopedKey sha k c"
    using idem_begin_claimed [OF assms(2, 3)] by blast
  let ?s2 = "idem_settle (oc_settle oc) (Some (JsonResponse status v)) False t1 s1"
  have s2: "?s2 = s1\<lparr>is_entries := jm_set mk (CompletedEntry status v t1 op) (is_entries s1)\<rparr>"
    using assms(3, 4) by (simp add: idem_settle_def)
  have inv2: "idem_inv ?s2"
    using idem_settle_inv [OF inv] k by (simp add: assms(3))
  have len: "length (is_entries ?s2) = length (is_entries s1)"
    using c(1) by (simp add: s2 jm_size_set jm_has_def)
  have get: "jm_get (is_entries ?s2) mk = Some (CompletedEntry status v t1 op)"
    by (simp add: s2)
  have par: "is_retentionMs ?s2 = is_retentionMs s" "is_maxEntries ?s2 = is_maxEntries s"
    using c by (simp_all add: s2)
  have "idem_inv (fold (idem_step sha) evs ?s2) \<and> jm_get (is_entries (fold (idem_step sha) evs ?s2)) mk
      = Some (CompletedEntry status v t1 op) \<and> is_retentionMs (fold (idem_step sha) evs ?s2) = is_retentionMs s"
    using entry_survives [OF inv2 get, of evs sha] assms(5, 6) len par by simp
  then show ?thesis
    using idem_begin_existing [of "fold (idem_step sha) evs ?s2" rk k sha c _ t op] k assms(8) by simp
qed

theorem settled_success_replayed_witness:
  "fst (idem_begin id (Some ''draft-0001'') None ''POST /x'' 9
     (fold (idem_step id) []
       (idem_settle (Claim ''anonymous:draft-0001'' ''POST /x'') (Some (JsonResponse 201 (Some JNull))) False 6
         (snd (idem_begin id (Some ''draft-0001'') None ''POST /x'' 1 (new_idem_store 100 4))))))
   = Inr \<lparr>oc_replay = Some (201, Some JNull), oc_settle = NoClaim\<rparr>"
proof -
  let ?b = "idem_begin id (Some ''draft-0001'') None ''POST /x'' 1 (new_idem_store 100 4)"
  let ?oc = "\<lparr>oc_replay = None, oc_settle = Claim ''anonymous:draft-0001'' ''POST /x''\<rparr>"
  have b: "?b = (Inr ?oc, snd ?b)" and n: "length (is_entries (snd ?b)) = 1"
    by code_simp+
  have "replay_size (Some JNull) \<le> MAX_REPLAYABLE_BYTES"
    by (simp add: replay_size_def MAX_REPLAYABLE_BYTES_def)
  from settled_success_replayed [OF new_idem_store_inv b _ this, of "''anonymous:draft-0001''" "[]" 6 9 201]
  show ?thesis by (simp add: n) (simp add: new_idem_store_def)
qed

definition replayable :: "local_response option \<Rightarrow> bool" where
  "replayable r = (case r of Some (JsonResponse _ v) \<Rightarrow> replay_size v \<le> MAX_REPLAYABLE_BYTES | _ \<Rightarrow> False)"

text \<open>
  Anything but a kept success releases the key. When a claim is settled as failed, without a
  response, or with one that is not small JSON, the next request with the key is granted a claim
  of its own, for any operation and at any time.
\<close>
theorem failure_releases_key:
  assumes "idem_inv s" and "idem_begin sha rk c op t0 s = (Inr oc, s1)" and "oc_settle oc = Claim mk op"
    and "failed \<or> \<not> replayable r"
  shows "\<exists>s3. idem_begin sha rk c op2 t (idem_settle (oc_settle oc) r failed t1 s1)
           = (Inr \<lparr>oc_replay = None, oc_settle = Claim mk op2\<rparr>, s3)"
proof -
  have inv: "idem_inv s1" using idem_begin_inv [OF assms(1), of sha rk c op t0] assms(2) by simp
  obtain k where k: "normalizeIdempotencyKey rk = Some k" "mk = scopedKey sha k c"
    using idem_begin_claimed [OF assms(2, 3)] by blast
  let ?s2 = "idem_settle (oc_settle oc) r failed t1 s1"
  have "?s2 = s1\<lparr>is_entries := jm_delete mk (is_entries s1)\<rparr>"
    using assms(3, 4) by (auto simp: idem_settle_def replayable_def split: option.splits local_response.splits)
  then have "jm_get (is_entries (evictExpired t ?s2)) mk = None"
    using inv by (simp add: evictExpired_def Let_def jm_get_filter idem_inv_def)
  then show ?thesis
    using k by (simp add: idem_begin_def Let_def)
qed

theorem failure_releases_key_witness:
  "\<exists>s3. idem_begin id (Some ''draft-0001'') None ''POST /x'' 3
     (idem_settle (Claim ''anonymous:draft-0001'' ''POST /x'') None True 2
       (snd (idem_begin id (Some ''draft-0001'') None ''POST /x'' 1 (new_idem_store 100 4))))
     = (Inr \<lparr>oc_replay = None, oc_settle = Claim ''anonymous:draft-0001'' ''POST /x''\<rparr>, s3)"
proof -
  let ?b = "idem_begin id (Some ''draft-0001'') None ''POST /x'' 1 (new_idem_store 100 4)"
  let ?oc = "\<lparr>oc_replay = None, oc_settle = Claim ''anonymous:draft-0001'' ''POST /x''\<rparr>"
  have b: "?b = (Inr ?oc, snd ?b)" by code_simp
  from failure_releases_key [OF new_idem_store_inv b, of "''anonymous:draft-0001''" True None "''POST /x''" 3 2]
  show ?thesis by simp
qed

text \<open>
  Keys of different devices never meet. Two scoped keys are equal only if the client keys are
  equal and the credentials have the same 128-bit SHA-256 prefix (or both are absent), given only
  that the digest is 64 lower-case hexadecimal digits; a client key may itself contain the
  separator.
\<close>
theorem scoped_keys_disjoint:
  assumes "\<And>x. list_all is_lower_hex (sha x)" and "\<And>x. length (sha x) = 64"
    and "scopedKey sha k c = scopedKey sha k' c'"
  shows "k = k' \<and> (if opt_str c = [] then opt_str c' = []
    else opt_str c' \<noteq> [] \<and> take 32 (sha (opt_str c)) = take 32 (sha (opt_str c')))"
  using scopedKey_inject [where sha = sha and k = k and c = c and k' = k' and c' = c', OF assms(1, 2)] assms(3)
  by auto

theorem scoped_keys_disjoint_witness:
  "let sha = (\<lambda>_. replicate 64 CHR ''a'') in
   ''k:1'' = ''k:1'' \<and> (if opt_str (Some ''t'') = [] then opt_str (Some ''t'') = []
     else opt_str (Some ''t'') \<noteq> [] \<and> take 32 (sha ''t'') = take 32 (sha ''t''))"
  using scoped_keys_disjoint [where sha = "\<lambda>_. replicate 64 CHR ''a''" and k = "''k:1''" and c = "Some ''t''"
      and k' = "''k:1''" and c' = "Some ''t''"]
  by (simp add: opt_str_def list_all_iff is_lower_hex_def char_code_def)

text \<open>
  The memory is bounded after every claim: whatever the store contained, the request that is
  granted a claim leaves at most \<^verbatim>\<open>maxEntries\<close> entries.
\<close>
theorem capacity_after_claim:
  assumes "idem_inv s" and "idem_begin sha rk c op t s = (Inr oc, s1)" and "oc_settle oc \<noteq> NoClaim"
  shows "jm_size (is_entries s1) \<le> is_maxEntries s"
proof -
  obtain mk op' where cl: "oc_settle oc = Claim mk op'" using assms(3) by (cases "oc_settle oc") auto
  let ?e = "evictExpired t s"
  obtain k where "mk = scopedKey sha k c"
    and s1: "s1 = enforceCapacity (?e\<lparr>is_entries := jm_set mk (InFlightEntry t op) (is_entries ?e)\<rparr>)"
    using idem_begin_claimed [OF assms(2) cl] by blast
  then have "idem_inv (?e\<lparr>is_entries := jm_set mk (InFlightEntry t op) (is_entries ?e)\<rparr>)"
    by (simp add: insert_entry_inv evictExpired_inv assms(1))
  from enforceCapacity_entries [OF this] show ?thesis
    by (simp add: s1) (simp add: evictExpired_def Let_def)
qed

theorem capacity_after_claim_witness:
  "jm_size (is_entries (snd (idem_begin id (Some ''draft-0001'') None ''POST /x'' 1 (new_idem_store 100 4)))) \<le> 4"
proof -
  let ?b = "idem_begin id (Some ''draft-0001'') None ''POST /x'' 1 (new_idem_store 100 4)"
  have b: "?b = (Inr \<lparr>oc_replay = None, oc_settle = Claim ''anonymous:draft-0001'' ''POST /x''\<rparr>, snd ?b)" by code_simp
  from capacity_after_claim [OF new_idem_store_inv b] show ?thesis by (simp add: new_idem_store_def)
qed

text \<open>
  Two limits of the design, on a store of one entry. The capacity loop evicts the oldest entry even
  when it is a claim in flight, so the duplicate of a running operation is then granted a claim;
  and \<^verbatim>\<open>settle\<close> stores its result without enforcing the capacity again.
\<close>

definition crowded :: idem_store where
  "crowded = fold (idem_step id) [Begin (Some ''draft-0001'') None ''POST /x'' 1, Begin (Some ''draft-0002'') None ''POST /x'' 2]
     (new_idem_store 100 1)"

lemma in_flight_claim_evicted:
  "map_sum id oc_settle (fst (idem_begin id (Some ''draft-0001'') None ''POST /x'' 3 crowded))
     = Inr (Claim ''anonymous:draft-0001'' ''POST /x'')"
  by code_simp

lemma crowded_entries:
  "is_entries crowded = [(''anonymous:draft-0002'', InFlightEntry 2 ''POST /x'')] \<and> is_maxEntries crowded = 1"
  by code_simp

lemma settle_exceeds_capacity:
  "jm_size (is_entries (idem_settle (Claim ''anonymous:draft-0001'' ''POST /x'')
     (Some (JsonResponse 200 None)) False 3 crowded)) = 2 \<and> is_maxEntries crowded = 1"
  by (simp add: idem_settle_def crowded_entries replay_size_def MAX_REPLAYABLE_BYTES_def)

end
