(* ===== verification/Local_Api_Routes.thy ===== *)
theory Local_Api_Routes
  imports Content_Id Pairing_Service Node_Identity Rate_Limiters Idempotency_Store
begin

text \<open>
  The route table of the Local API, \<^verbatim>\<open>src/src/localApi/dispatch.ts\<close>: which scope a path needs
  (\<^verbatim>\<open>routeScope\<close>) and which operation a method and a path name (the chain of conditions of
  \<^verbatim>\<open>route\<close>, in its order). The path patterns capture one segment of non-slash characters, so a path
  is matched on its segments.
\<close>

section \<open>Scopes\<close>

definition local_root :: string where "local_root = ''/local/v1/''"

text \<open>\<^verbatim>\<open>^/local/v1/<name>(?:/|$)\<close>\<close>

definition route_prefix :: "string \<Rightarrow> string \<Rightarrow> bool" where
  "route_prefix name path \<longleftrightarrow> path = local_root @ name \<or> starts_with path (local_root @ name @ ''/'')"

definition SCOPE_BY_ROUTE :: "((string \<Rightarrow> bool) \<times> local_scope) list" where
  "SCOPE_BY_ROUTE =
     [(\<lambda>p. starts_with p (local_root @ ''content/''), ContentRead),
      (route_prefix ''captures'', CapturesRead),
      (route_prefix ''jobs'', JobsRead),
      (route_prefix ''spatial'', SpatialRead),
      (route_prefix ''compute'', JobsRead)]"

definition routeScope :: "string \<Rightarrow> local_scope" where
  "routeScope path = (case find (\<lambda>(pattern, _). pattern path) SCOPE_BY_ROUTE of Some (_, sc) \<Rightarrow> sc | None \<Rightarrow> ContentRead)"

definition MUTATING_METHODS :: "string list" where
  "MUTATING_METHODS = [''POST'', ''PUT'', ''PATCH'', ''DELETE'']"

section \<open>Operations\<close>

datatype operation =
    Info | Status | Participation | Capabilities | Network | Storage
  | Content string
  | CreateCapture | BeginDraft | WriteDraftFile string | GetDraft string | DiscardDraft string | CommitDraft string
  | GetCapture string | DeleteCapture string
  | CreateJob | ListJobs | CleanupJobs | CancelJob string | GetJob string
  | ComputeCandidates | ComputeCleanup | GetComputeSettings | PutComputeSettings
  | BeginPermissionUpdate | RefreshPermissionUpdate
  | RequestComputeJob | ComputeJobStatus string | RetrieveComputeJob string | AcknowledgeComputeJob string | CancelComputeJob string
  | PublishSpatial string | GetSpatial string

text \<open>The segments after \<^verbatim>\<open>/local/v1/\<close>; a captured segment must not be empty.\<close>

definition route_segments :: "string \<Rightarrow> string list" where
  "route_segments path = split_on CHR ''/'' (drop (length local_root) path)"

definition seg :: "string \<Rightarrow> operation \<Rightarrow> operation option" where
  "seg s op = (if s = [] then None else Some op)"

fun match_get :: "string list \<Rightarrow> operation option" where
  "match_get ss =
     (case ss of
        [a] \<Rightarrow>
          if a = ''info'' then Some Info else if a = ''status'' then Some Status
          else if a = ''participation'' then Some Participation else if a = ''capabilities'' then Some Capabilities
          else if a = ''network'' then Some Network else if a = ''storage'' then Some Storage
          else if a = ''jobs'' then Some ListJobs else None
      | [a, b] \<Rightarrow>
          if a = ''content'' then seg b (Content b)
          else if a = ''captures'' then seg b (GetCapture b)
          else if a = ''jobs'' then seg b (GetJob b)
          else if a = ''compute'' \<and> b = ''settings'' then Some GetComputeSettings
          else if a = ''compute'' \<and> b = ''permission-update'' then Some RefreshPermissionUpdate
          else if a = ''spatial'' then seg b (GetSpatial b) else None
      | [a, b, c] \<Rightarrow> if a = ''captures'' \<and> b = ''drafts'' then seg c (GetDraft c) else None
      | _ \<Rightarrow> None)"

fun match_post :: "string list \<Rightarrow> operation option" where
  "match_post ss =
     (case ss of
        [a] \<Rightarrow> if a = ''captures'' then Some CreateCapture else if a = ''jobs'' then Some CreateJob else None
      | [a, b] \<Rightarrow>
          if a = ''captures'' \<and> b = ''drafts'' then Some BeginDraft
          else if a = ''jobs'' \<and> b = ''cleanup'' then Some CleanupJobs
          else if a = ''compute'' \<and> b = ''candidates'' then Some ComputeCandidates
          else if a = ''compute'' \<and> b = ''cleanup'' then Some ComputeCleanup
          else if a = ''compute'' \<and> b = ''permission-update'' then Some BeginPermissionUpdate
          else if a = ''compute'' \<and> b = ''jobs'' then Some RequestComputeJob else None
      | [a, b, c] \<Rightarrow>
          if a = ''jobs'' \<and> c = ''cancel'' then seg b (CancelJob b)
          else if a = ''spatial'' \<and> c = ''publish'' then seg b (PublishSpatial b) else None
      | [a, b, c, d] \<Rightarrow>
          if a = ''captures'' \<and> b = ''drafts'' \<and> d = ''commit'' then seg c (CommitDraft c)
          else if a = ''compute'' \<and> b = ''jobs'' \<and> d = ''status'' then seg c (ComputeJobStatus c)
          else if a = ''compute'' \<and> b = ''jobs'' \<and> d = ''retrieve'' then seg c (RetrieveComputeJob c)
          else if a = ''compute'' \<and> b = ''jobs'' \<and> d = ''acknowledge'' then seg c (AcknowledgeComputeJob c)
          else if a = ''compute'' \<and> b = ''jobs'' \<and> d = ''cancel'' then seg c (CancelComputeJob c) else None
      | _ \<Rightarrow> None)"

fun match_put :: "string list \<Rightarrow> operation option" where
  "match_put ss =
     (case ss of
        [a, b, c, d] \<Rightarrow> if a = ''captures'' \<and> b = ''drafts'' \<and> d = ''files'' then seg c (WriteDraftFile c) else None
      | [a, b] \<Rightarrow> if a = ''compute'' \<and> b = ''settings'' then Some PutComputeSettings else None
      | _ \<Rightarrow> None)"

fun match_delete :: "string list \<Rightarrow> operation option" where
  "match_delete ss =
     (case ss of
        [a, b, c] \<Rightarrow> if a = ''captures'' \<and> b = ''drafts'' then seg c (DiscardDraft c) else None
      | [a, b] \<Rightarrow> if a = ''captures'' then seg b (DeleteCapture b) else None
      | _ \<Rightarrow> None)"

definition match_route :: "string \<Rightarrow> string \<Rightarrow> operation option" where
  "match_route method path =
     (let ss = route_segments path in
      if method = ''GET'' then match_get ss
      else if method = ''POST'' then match_post ss
      else if method = ''PUT'' then match_put ss
      else if method = ''DELETE'' then match_delete ss
      else None)"

text \<open>The scope an operation asks for again inside \<^verbatim>\<open>route\<close>, beyond the one of its path.\<close>

fun extra_scope :: "operation \<Rightarrow> local_scope option" where
  "extra_scope CreateCapture = Some CapturesCreate"
| "extra_scope BeginDraft = Some CapturesCreate"
| "extra_scope (WriteDraftFile _) = Some CapturesCreate"
| "extra_scope (DiscardDraft _) = Some CapturesCreate"
| "extra_scope (CommitDraft _) = Some CapturesCreate"
| "extra_scope (DeleteCapture _) = Some CapturesCreate"
| "extra_scope CreateJob = Some JobsCreate"
| "extra_scope CleanupJobs = Some JobsCreate"
| "extra_scope (CancelJob _) = Some JobsCreate"
| "extra_scope ComputeCleanup = Some ComputeManage"
| "extra_scope PutComputeSettings = Some ComputeManage"
| "extra_scope BeginPermissionUpdate = Some ComputeManage"
| "extra_scope RefreshPermissionUpdate = Some ComputeManage"
| "extra_scope RequestComputeJob = Some JobsCreate"
| "extra_scope (PublishSpatial _) = Some SpatialPublishRequest"
| "extra_scope _ = None"

end
