(* ===== verification/Local_Api_Dispatch.thy ===== *)
theory Local_Api_Dispatch
  imports Local_Api_Routes
begin

text \<open>
  The dispatcher, \<^verbatim>\<open>src/src/localApi/dispatch.ts\<close>: \<^verbatim>\<open>dispatchLocalRequest\<close> with its gates in order,
  \<^verbatim>\<open>proveIdentity\<close>, \<^verbatim>\<open>exchangePairing\<close>, the remote attachment, and \<^verbatim>\<open>route\<close>.

  The services behind the dispatcher (captures, jobs, compute, participation, Kubo, the backend) are
  the injected \<^verbatim>\<open>LocalApiDeps\<close>: one function \<open>dp_call\<close> from a call and the services' state \<open>'w\<close> to a
  JSON result and the new state. Nothing is assumed of it, so what is proved holds whatever the
  services do. The state of the dispatcher is \<open>api\<close>: the pairing store, the two limiters, the
  idempotency store and the services' state. The clock, the random values and the file system of
  one request are its \<open>req_context\<close>; the clock does not advance while one request is served.
\<close>

section \<open>Values of JavaScript\<close>

text \<open>\<^verbatim>\<open>Number(v || 0)\<close>; \<open>JNull\<close> stands for NaN, which is what a string that is not a numeral gives.\<close>

definition js_number :: "json option \<Rightarrow> json" where
  "js_number v =
     (if json_falsy v then JNum 0
      else case the v of
             JNum i \<Rightarrow> JNum i | JDec m k \<Rightarrow> JDec m k | JBool _ \<Rightarrow> JNum 1
           | JStr s \<Rightarrow> (case json_parse (trim s) of Some (JNum i) \<Rightarrow> JNum i | Some (JDec m k) \<Rightarrow> JDec m k | _ \<Rightarrow> JNull)
           | _ \<Rightarrow> JNull)"

definition as_object :: "json option \<Rightarrow> json" where
  "as_object v = (case v of Some (JObj m) \<Rightarrow> JObj m | Some (JArr js) \<Rightarrow> JArr js | _ \<Rightarrow> JObj [])"

section \<open>Services\<close>

datatype service_call =
    CallParticipationRefresh | CallCapabilitiesRefresh | CallWorkerHealth | CallJobsHealth | CallCapturesList
  | CallCleanupDiagnostics | CallComputeAuthorizationRequired | CallSnapshot | CallRepoStat | CallKuboCat string
  | CallCaptureCreate json | CallDraftBegin json | CallDraftWrite string string "bytes list \<times> node_error option" "string option" nat
  | CallDraftGet string | CallDraftDiscard string | CallDraftCommit string | CallCaptureGet string | CallCaptureDelete string
  | CallJobCreate string json | CallJobsList | CallJobsReconcileCleanup | CallJobCancel string | CallJobGet string
  | CallComputeCandidates string string json json | CallProviderCleanup | CallComputeSettings | CallUpdateComputeSettings json
  | CallPermissionBegin | CallPermissionRefresh | CallRequestJob string string json json "string option"
  | CallRequesterJob string string | CallRetrieveOutput string string
  | CallAcknowledgeOutput string string bool "string option" | CallCancelRequesterJob string string
  | CallPublishSpatial json "json option" "json option" string | CallMarkPublished string json
  | CallConsumeNodeAuthorization string "json option" json

record api_config =
  ac_localApiEnabled :: bool
  ac_guiToken :: "string option"
  ac_maxPinnedBytes :: int
  ac_maxPinnedCids :: int
  ac_pairing :: pairing_config

record 'w deps =
  dp_sha :: "string \<Rightarrow> string"
  dp_canonical :: "json \<Rightarrow> string"
  dp_date_parse :: "json option \<Rightarrow> int option"
  dp_uri_decode :: "string \<Rightarrow> string option"
  dp_config :: api_config
  dp_identity :: node_identity
  dp_permissionUpdate :: bool
  dp_call :: "service_call \<Rightarrow> 'w \<Rightarrow> json result \<times> 'w"

record 'w api =
  ap_pairing :: pairing_store
  ap_pairingAttempts :: limiter
  ap_identityProofAttempts :: limiter
  ap_idempotency :: idem_store
  ap_world :: 'w

record req_context =
  cx_now :: int
  cx_env1 :: tx_env
  cx_env2 :: tx_env
  cx_random1 :: string
  cx_random2 :: string
  cx_uuid :: string

section \<open>Sequencing\<close>

text \<open>A step that may throw, on the dispatcher's state.\<close>

type_synonym ('a, 'w) step = "'w api \<Rightarrow> 'a result \<times> 'w api"

definition bind_step :: "('a, 'w) step \<Rightarrow> ('a \<Rightarrow> ('b, 'w) step) \<Rightarrow> ('b, 'w) step" where
  "bind_step m f a = (case m a of (Inl e, a1) \<Rightarrow> (Inl e, a1) | (Inr x, a1) \<Rightarrow> f x a1)"

definition return_step :: "'a \<Rightarrow> ('a, 'w) step" where
  "return_step x a = (Inr x, a)"

definition throw_step :: "node_error \<Rightarrow> ('a, 'w) step" where
  "throw_step e a = (Inl e, a)"

definition lift_result :: "'a result \<Rightarrow> ('a, 'w) step" where
  "lift_result r a = (r, a)"

definition call :: "'w deps \<Rightarrow> service_call \<Rightarrow> (json, 'w) step" where
  "call d c a = (case dp_call d c (ap_world a) of (r, w) \<Rightarrow> (r, a\<lparr>ap_world := w\<rparr>))"

text \<open>\<^verbatim>\<open>.catch(() => fallback)\<close>\<close>

definition call_or :: "'w deps \<Rightarrow> service_call \<Rightarrow> json \<Rightarrow> (json, 'w) step" where
  "call_or d c fallback a = (case call d c a of (Inl _, a1) \<Rightarrow> (Inr fallback, a1) | (Inr j, a1) \<Rightarrow> (Inr j, a1))"

definition authorize_step :: "'w deps \<Rightarrow> req_context \<Rightarrow> tx_env \<Rightarrow> string option \<Rightarrow> local_scope \<Rightarrow> (bool, 'w) step" where
  "authorize_step d cx env credential scope a =
     (case authorize (dp_sha d) env credential scope (cx_now cx) (ap_pairing a) of
        (r, st) \<Rightarrow> (r, a\<lparr>ap_pairing := st\<rparr>))"

text \<open>\<^verbatim>\<open>if (!(await pairing.authorize(credential, scope))) throw localError(status, code)\<close>\<close>

definition require_scope ::
  "'w deps \<Rightarrow> req_context \<Rightarrow> tx_env \<Rightarrow> string option \<Rightarrow> local_scope \<Rightarrow> nat \<Rightarrow> string \<Rightarrow> (unit, 'w) step" where
  "require_scope d cx env credential scope status code =
     bind_step (authorize_step d cx env credential scope)
       (\<lambda>okay. if okay then return_step () else throw_step (localError status code))"

text \<open>Property access on a parsed body: on \<^verbatim>\<open>null\<close> it throws.\<close>

definition body_json :: "local_request \<Rightarrow> nat \<Rightarrow> (json, 'w) step" where
  "body_json request maxBytes =
     lift_result (case lb_json (rq_body request) maxBytes of
        Inr JNull \<Rightarrow> Inl (PlainError ''TypeError'') | r \<Rightarrow> r)"

definition raw_body :: "local_request \<Rightarrow> nat \<Rightarrow> (json, 'w) step" where
  "raw_body request maxBytes = lift_result (lb_json (rq_body request) maxBytes)"

section \<open>Operations\<close>

abbreviation respond :: "nat \<Rightarrow> json \<Rightarrow> (local_response, 'w) step" where
  "respond status v \<equiv> return_step (jsonResponse status (Some v))"

definition or_null :: "json option \<Rightarrow> json" where
  "or_null v = (if json_falsy v then JNull else the v)"

definition node_id_or_local :: "'w deps \<Rightarrow> 'w api \<Rightarrow> string" where
  "node_id_or_local d a =
     str_or (opt_str (ps_nodeId (p_snapshot (ap_pairing a)))) (''local-'' @ ni_fingerprint (dp_identity d))"

definition info_endpoints :: "pairing_config \<Rightarrow> json list" where
  "info_endpoints cfg =
     map JStr (filter (\<lambda>e. e \<noteq> [])
       (map opt_str [pc_localApiRemoteUrl cfg, if pc_localApiAllowLan cfg then pc_localApiLanUrl cfg else None]))"

definition info_json :: "'w deps \<Rightarrow> json \<Rightarrow> 'w api \<Rightarrow> json" where
  "info_json d state a =
     JObj [(''apiVersion'', JStr ''local/v1''), (''nodeId'', JStr (node_id_or_local d a)),
       (''label'', JStr (pc_nodeLabel (ac_pairing (dp_config d)))), (''peerId'', or_null (json_field (Some state) ''peerId'')),
       (''fingerprint'', JStr (ni_fingerprint (dp_identity d))),
       (''publicKey'', JStr (ni_publicKeyBase64Url (dp_identity d))), (''identityAlgorithm'', JStr ''ed25519''),
       (''endpoints'', JArr (info_endpoints (ac_pairing (dp_config d)))),
       (''version'', or_null (json_field (json_field (Some state) ''latestHeartbeat'') ''agentVersion''))]"

definition arr_items :: "json option \<Rightarrow> json list" where
  "arr_items v = (case v of Some (JArr js) \<Rightarrow> js | _ \<Rightarrow> [])"

definition num_value :: "json \<Rightarrow> int" where
  "num_value j = (case j of JNum i \<Rightarrow> i | _ \<Rightarrow> 0)"

definition network_json :: "json \<Rightarrow> 'w api \<Rightarrow> json" where
  "network_json state a =
     JObj [(''peerId'', or_null (json_field (Some state) ''peerId'')),
       (''nodeId'', or_null (map_option JStr (ps_nodeId (p_snapshot (ap_pairing a))))),
       (''publicPinSetCount'', (case json_field (Some state) ''publicPinSetTotal'' of
           Some n \<Rightarrow> if n = JNull then JNum (int (length (arr_items (json_field (Some state) ''publicPinSet'')))) else n
         | None \<Rightarrow> JNum (int (length (arr_items (json_field (Some state) ''publicPinSet''))))) ),
       (''verification'', or_null (json_field (json_field (json_field (Some state) ''latestStatus'') ''archiveContribution'') ''metadata''))]"

definition storage_json :: "api_config \<Rightarrow> json \<Rightarrow> json \<Rightarrow> json \<Rightarrow> json" where
  "storage_json cfg state repo capturesList =
     (let pinned = arr_items (json_field (Some state) ''pinnedCids'');
          replica = sum_list (map (\<lambda>item. num_value (js_number (json_field (Some item) ''sizeBytes'')))
            (filter (\<lambda>item. (case json_field (Some item) ''cid'' of Some c \<Rightarrow> c \<in> set pinned | None \<Rightarrow> False))
              (arr_items (json_field (Some state) ''desiredCids''))));
          private = sum_list (map (\<lambda>item. num_value (js_number (json_field (Some item) ''sizeBytes''))) (arr_items (Some capturesList)))
      in JObj [(''repoBytes'', JNum (num_value (js_number (json_field (Some repo) ''RepoSize'')))),
           (''storageMaxBytes'', JNum (num_value (js_number (json_field (Some repo) ''StorageMax'')))),
           (''publicReplicaBytes'', JNum replica), (''privateCaptureBytes'', JNum private),
           (''maxPinnedBytes'', JNum (ac_maxPinnedBytes cfg)), (''maxPinnedCids'', JNum (ac_maxPinnedCids cfg))])"

text \<open>\<^verbatim>\<open>{ ...job, output: undefined }\<close> loses the member when it is printed.\<close>

definition hide_output :: "json \<Rightarrow> json \<Rightarrow> json" where
  "hide_output gate job =
     (if \<not> json_falsy (json_field (Some gate) ''leaseEligible'') \<or> json_falsy (json_field (Some job) ''output'') then job
      else case job of JObj m \<Rightarrow> JObj (jm_delete ''output'' m) | j \<Rightarrow> j)"

definition with_authorization :: "local_request \<Rightarrow> (json \<Rightarrow> string \<Rightarrow> (local_response, 'w) step) \<Rightarrow> (local_response, 'w) step" where
  "with_authorization request k =
     bind_step (body_json request BODY_LIMITS_json)
       (\<lambda>body. k body (str_field (json_field (Some body) ''backendAuthorization'')))"

definition guard_scope :: "'w deps \<Rightarrow> req_context \<Rightarrow> local_request \<Rightarrow> operation \<Rightarrow> (unit, 'w) step" where
  "guard_scope d cx request op =
     (case extra_scope op of
        None \<Rightarrow> return_step ()
      | Some sc \<Rightarrow>
          if op \<in> {BeginPermissionUpdate, RefreshPermissionUpdate} \<and> \<not> dp_permissionUpdate d
          then throw_step (localError 503 ''permission_update_unavailable'')
          else require_scope d cx (cx_env2 cx) (rq_credential request) sc 403 ''scope_required'')"

fun run_operation :: "'w deps \<Rightarrow> local_request \<Rightarrow> operation \<Rightarrow> (local_response, 'w) step" where
  "run_operation d request Info =
     bind_step (call d CallSnapshot) (\<lambda>state a. respond 200 (info_json d state a) a)"
| "run_operation d request Status =
     bind_step (call d CallSnapshot) (\<lambda>state. bind_step (call d CallCapabilitiesRefresh) (\<lambda>_.
     bind_step (call d CallParticipationRefresh) (\<lambda>participation. bind_step (call d CallJobsHealth) (\<lambda>jobs.
     bind_step (call d CallCapturesList) (\<lambda>captures. bind_step (call d CallCleanupDiagnostics) (\<lambda>cleanup.
     bind_step (call d CallComputeAuthorizationRequired) (\<lambda>required. bind_step (call d CallWorkerHealth) (\<lambda>worker.
       respond 200 (JObj [(''status'', (if json_falsy (json_field (json_field (Some state) ''latestStatus'') ''status'')
           then JStr ''offline'' else the (json_field (json_field (Some state) ''latestStatus'') ''status''))),
         (''lastHeartbeat'', or_null (json_field (Some state) ''latestHeartbeatAt'')), (''participation'', participation),
         (''jobs'', jobs), (''captures'', JNum (int (length (arr_items (Some captures))))),
         (''computeCleanup'', or_null (Some cleanup)),
         (''computeAuthorization'', JObj [(''state'', JStr (if json_falsy (Some required) then ''OK'' else ''COMPUTE_AUTHORIZATION_REQUIRED''))]),
         (''worker'', worker)])))))))))"
| "run_operation d request Participation = bind_step (call d CallParticipationRefresh) (respond 200)"
| "run_operation d request Capabilities =
     bind_step (call d CallCapabilitiesRefresh) (\<lambda>caps. bind_step (call d CallWorkerHealth) (\<lambda>worker.
       respond 200 (JObj [(''capabilities'', caps), (''worker'', worker)])))"
| "run_operation d request Network = bind_step (call d CallSnapshot) (\<lambda>state a. respond 200 (network_json state a) a)"
| "run_operation d request Storage =
     bind_step (call d CallSnapshot) (\<lambda>state. bind_step (call_or d CallRepoStat (JObj [(''RepoSize'', JNum 0), (''StorageMax'', JNum 0)])) (\<lambda>repo.
     bind_step (call d CallCapturesList) (\<lambda>captures. respond 200 (storage_json (dp_config d) state repo captures))))"
| "run_operation d request (Content raw) =
     (case dp_uri_decode d raw of
        None \<Rightarrow> throw_step (PlainError ''URIError'')
      | Some cid \<Rightarrow>
          if \<not> isValidCidLike cid then throw_step (localError 400 ''cid_invalid'')
          else bind_step (lift_result (normalizeCid cid)) (\<lambda>cid. bind_step (call d (CallKuboCat cid)) (\<lambda>bs.
            return_step (BytesResponse 200 ''application/octet-stream'' (bytes_of_string (opt_str (as_string (Some bs))))
              (Some ''private, max-age=300'') None))))"
| "run_operation d request CreateCapture =
     bind_step (raw_body request BODY_LIMITS_capturePackage) (\<lambda>payload. bind_step (call d (CallCaptureCreate payload)) (respond 201))"
| "run_operation d request BeginDraft =
     bind_step (raw_body request BODY_LIMITS_captureDraftMetadata) (\<lambda>payload. bind_step (call d (CallDraftBegin payload)) (respond 201))"
| "run_operation d request (WriteDraftFile i) =
     (case jm_get (rq_query request) ''path'' of
        None \<Rightarrow> throw_step (localError 400 ''capture_file_path_invalid'')
      | Some filePath \<Rightarrow>
          if filePath = [] then throw_step (localError 400 ''capture_file_path_invalid'')
          else bind_step (call d (CallDraftWrite i filePath (lb_stream (rq_body request))
                 (if rq_contentType request = Some ''application/octet-stream'' then None else rq_contentType request)
                 BODY_LIMITS_captureDraftFile)) (respond 200))"
| "run_operation d request (GetDraft i) = bind_step (call d (CallDraftGet i)) (respond 200)"
| "run_operation d request (DiscardDraft i) =
     bind_step (call d (CallDraftDiscard i)) (\<lambda>_. respond 200 (JObj [(''discarded'', JBool True)]))"
| "run_operation d request (CommitDraft i) = bind_step (call d (CallDraftCommit i)) (respond 201)"
| "run_operation d request (GetCapture i) = bind_step (call d (CallCaptureGet i)) (respond 200)"
| "run_operation d request (DeleteCapture i) =
     bind_step (call d (CallCaptureDelete i)) (\<lambda>_. respond 200 (JObj [(''deleted'', JBool True)]))"
| "run_operation d request CreateJob =
     bind_step (body_json request BODY_LIMITS_json) (\<lambda>body.
       bind_step (call d (CallJobCreate (str_field (json_field (Some body) ''type'')) (as_object (json_field (Some body) ''input'')))) (respond 201))"
| "run_operation d request ListJobs =
     bind_step (call d CallParticipationRefresh) (\<lambda>gate. bind_step (call d CallJobsList) (\<lambda>jobs.
       respond 200 (JObj [(''jobs'', JArr (map (hide_output gate) (arr_items (Some jobs))))])))"
| "run_operation d request CleanupJobs =
     bind_step (call d CallJobsReconcileCleanup) (\<lambda>_. bind_step (call d CallJobsHealth) (\<lambda>h. respond 200 (JObj [(''jobs'', h)])))"
| "run_operation d request (CancelJob i) = bind_step (call d (CallJobCancel i)) (respond 200)"
| "run_operation d request (GetJob i) = bind_step (call d (CallJobGet i)) (respond 200)"
| "run_operation d request ComputeCandidates =
     with_authorization request (\<lambda>body auth. bind_step (call d (CallComputeCandidates auth
         (case as_string (json_field (Some body) ''type'') of Some t \<Rightarrow> t | None \<Rightarrow> ''spatial.reconstruct'')
         (js_number (json_field (Some body) ''minimumVramBytes'')) (js_number (json_field (Some body) ''inputBytes'')))) (respond 200))"
| "run_operation d request ComputeCleanup = bind_step (call d CallProviderCleanup) (respond 200)"
| "run_operation d request GetComputeSettings = bind_step (call d CallComputeSettings) (respond 200)"
| "run_operation d request PutComputeSettings =
     bind_step (raw_body request BODY_LIMITS_json) (\<lambda>body. bind_step (call d (CallUpdateComputeSettings body)) (respond 200))"
| "run_operation d request BeginPermissionUpdate = bind_step (call d CallPermissionBegin) (respond 202)"
| "run_operation d request RefreshPermissionUpdate = bind_step (call d CallPermissionRefresh) (respond 200)"
| "run_operation d request RequestComputeJob =
     with_authorization request (\<lambda>body auth. bind_step (call d (CallRequestJob auth
         (str_field (json_field (Some body) ''captureId'')) (as_object (json_field (Some body) ''provider''))
         (as_object (json_field (Some body) ''requirements'')) (as_string (json_field (Some body) ''type'')))) (respond 201))"
| "run_operation d request (ComputeJobStatus i) =
     with_authorization request (\<lambda>body auth. bind_step (call d (CallRequesterJob i auth)) (respond 200))"
| "run_operation d request (RetrieveComputeJob i) =
     with_authorization request (\<lambda>body auth. bind_step (call d (CallRetrieveOutput i auth)) (respond 200))"
| "run_operation d request (AcknowledgeComputeJob i) =
     with_authorization request (\<lambda>body auth. bind_step (call d (CallAcknowledgeOutput i auth
         (json_field (Some body) ''accepted'' = Some (JBool True)) (as_string (json_field (Some body) ''reason'')))) (respond 200))"
| "run_operation d request (CancelComputeJob i) =
     with_authorization request (\<lambda>body auth. bind_step (call d (CallCancelRequesterJob i auth)) (respond 200))"
| "run_operation d request (PublishSpatial i) =
     bind_step (call d CallSnapshot) (\<lambda>state.
       let spatial = json_field (json_field (Some state) ''spatial'') i in
       if json_falsy spatial then throw_step (localError 404 ''spatial_not_found'')
       else bind_step (body_json request BODY_LIMITS_json) (\<lambda>body.
         let authorization = opt_str (as_string (json_field (Some body) ''backendAuthorization'')) in
         if \<not> starts_with authorization ''Bearer '' then throw_step (localError 400 ''backend_authorization_required'')
         else bind_step (call d (CallPublishSpatial (the spatial) (json_field (Some body) ''artworkId'')
                (json_field (Some body) ''markerId'') authorization)) (\<lambda>result.
              bind_step (call d (CallMarkPublished i result)) (\<lambda>_. respond 202 result))))"
| "run_operation d request (GetSpatial i) =
     bind_step (call d CallSnapshot) (\<lambda>state.
       let v = json_field (json_field (Some state) ''spatial'') i in
       if json_falsy v then throw_step (localError 404 ''spatial_not_found'') else respond 200 (the v))"

definition route :: "'w deps \<Rightarrow> req_context \<Rightarrow> string \<Rightarrow> local_request \<Rightarrow> (local_response, 'w) step" where
  "route d cx method request =
     (case match_route method (rq_path request) of
        None \<Rightarrow> throw_step (localError 404 ''local_route_not_found'')
      | Some op \<Rightarrow> bind_step (guard_scope d cx request op) (\<lambda>_. run_operation d request op))"

section \<open>The dispatcher\<close>

definition HTTP_IDENTITY_SESSION_ID :: string where
  "HTTP_IDENTITY_SESSION_ID = ''local-http/v1''"

text \<open>\<^verbatim>\<open>request.peer.address || request.peer.kind\<close>\<close>

definition peer_name :: "local_peer \<Rightarrow> string" where
  "peer_name peer = str_or (opt_str (lp_address peer)) (peer_kind_name (lp_kind peer))"

definition session_json :: "pairing_session_response \<Rightarrow> pairing_config \<Rightarrow> json" where
  "session_json r cfg =
     JObj [(''version'', JNum 3), (''sessionId'', JStr (psr_sessionId r)), (''secret'', JStr (psr_secret r)),
       (''expiresAt'', JNum (psr_expiresAt r)), (''payload'', JStr (psr_payload r)),
       (''node'', JObj [(''id'', JStr (psr_nodeId r)), (''label'', JStr (pc_nodeLabel cfg)),
         (''endpoint'', JStr (hd (psr_endpoints r))), (''endpoints'', JArr (map JStr (psr_endpoints r))),
         (''fingerprint'', JStr (pc_fingerprint cfg)), (''publicKey'', JStr (pc_publicKeyBase64Url cfg))])]"

fun scope_name :: "local_scope \<Rightarrow> string" where
  "scope_name ContentRead = ''content:read''"
| "scope_name CapturesCreate = ''captures:create''"
| "scope_name CapturesRead = ''captures:read''"
| "scope_name JobsCreate = ''jobs:create''"
| "scope_name JobsRead = ''jobs:read''"
| "scope_name SpatialRead = ''spatial:read''"
| "scope_name SpatialPublishRequest = ''spatial:publish-request''"
| "scope_name ComputeManage = ''compute:manage''"

definition issued_json :: "issued \<Rightarrow> json" where
  "issued_json i = JObj [(''token'', JStr (iss_token i)), (''credentialId'', JStr (iss_credentialId i)),
     (''scopes'', JArr (map (\<lambda>sc. JStr (scope_name sc)) (iss_scopes i)))]"

definition on_pairing :: "(pairing_store \<Rightarrow> 'a result \<times> pairing_store) \<Rightarrow> ('a, 'w) step" where
  "on_pairing f a = (case f (ap_pairing a) of (r, st) \<Rightarrow> (r, a\<lparr>ap_pairing := st\<rparr>))"

definition activate_session :: "'w deps \<Rightarrow> req_context \<Rightarrow> local_request \<Rightarrow> (local_response, 'w) step" where
  "activate_session d cx request =
     (if opt_str (ac_guiToken (dp_config d)) = [] \<or> rq_credential request \<noteq> ac_guiToken (dp_config d)
      then throw_step (localError 401 ''pairing_activation_required'')
      else bind_step (on_pairing (createSession (dp_sha d) (ac_pairing (dp_config d)) (cx_env1 cx) (cx_env2 cx)
               (cx_random1 cx) (cx_uuid cx) (cx_random2 cx) (cx_now cx)))
             (\<lambda>r. respond 201 (session_json r (ac_pairing (dp_config d)))))"

definition pairing_failure_codes :: "string list" where
  "pairing_failure_codes =
     [''invalid_pairing_session'', ''pairing_session_replayed'', ''pairing_session_expired'', ''invalid_pairing_secret'']"

definition exchangePairing :: "'w deps \<Rightarrow> req_context \<Rightarrow> local_request \<Rightarrow> (local_response, 'w) step" where
  "exchangePairing d cx request =
     bind_step (body_json request BODY_LIMITS_json) (\<lambda>body.
       let sessionId = str_field (json_field (Some body) ''sessionId'');
           client = pairingAttemptKey (dp_sha d) (peer_name (rq_peer request)) sessionId
       in (\<lambda>a. case pairing_assertAllowed client (cx_now cx) (ap_pairingAttempts a) of
            (Inl e, l) \<Rightarrow> (Inl e, a\<lparr>ap_pairingAttempts := l\<rparr>)
          | (Inr _, l) \<Rightarrow>
              (case exchange (dp_sha d) (cx_env1 cx) sessionId (str_field (json_field (Some body) ''secret''))
                      (as_string (json_field (Some body) ''label'')) (cx_uuid cx) (cx_random1 cx) (cx_now cx) (cx_now cx) (ap_pairing a) of
                 (Inr i, st) \<Rightarrow> (Inr (jsonResponse 201 (Some (issued_json i))),
                    a\<lparr>ap_pairing := st, ap_pairingAttempts := pairing_succeeded client l\<rparr>)
               | (Inl e, st) \<Rightarrow>
                   if (case error_code e of Some c \<Rightarrow> c \<in> set pairing_failure_codes | None \<Rightarrow> False)
                   then (Inl (localError 401 ''pairing_exchange_failed''),
                         a\<lparr>ap_pairing := st, ap_pairingAttempts := pairing_failed client (cx_now cx) l\<rparr>)
                   else (Inl e, a\<lparr>ap_pairing := st, ap_pairingAttempts := l\<rparr>))))"

definition remote_attach :: "'w deps \<Rightarrow> req_context \<Rightarrow> local_request \<Rightarrow> (local_response, 'w) step" where
  "remote_attach d cx request =
     (if lp_kind (rq_peer request) \<noteq> Webrtc \<or> \<not> lp_identityHandshakeComplete (rq_peer request)
         \<or> opt_str (lp_sessionId (rq_peer request)) = []
      then throw_step (localError 403 ''remote_attach_verified_channel_required'')
      else bind_step (body_json request (16 * 1024)) (\<lambda>body a.
        let grant = json_field (Some body) ''authorization''; verifier = json_field (Some body) ''verifier'';
            sessionId = opt_str (lp_sessionId (rq_peer request));
            nodeId = opt_str (ps_nodeId (p_snapshot (ap_pairing a)))
        in if nodeId = [] then (Inl (localError 409 ''node_registration_required''), a)
           else bind_step (lift_result (signRemoteAttach (dp_sha d) (dp_canonical d) (dp_date_parse d) (cx_now cx)
                    grant verifier sessionId nodeId (dp_identity d))) (\<lambda>signature.
                let deviceId = json_field (json_field grant ''payload'') ''deviceId'' in
                bind_step (call d (CallConsumeNodeAuthorization nodeId (json_field grant ''id'')
                    (JObj [(''challenge'', or_null (json_field grant ''challenge'')), (''signature'', JStr signature),
                      (''verifier'', or_null verifier), (''sessionId'', JStr sessionId), (''deviceId'', or_null deviceId)]))) (\<lambda>result.
                if json_field (Some result) ''authorized'' \<noteq> Some (JBool True)
                   \<or> json_field (Some result) ''kind'' \<noteq> Some (JStr ''REMOTE_ATTACH'')
                   \<or> json_field (Some result) ''nodeId'' \<noteq> Some (JStr nodeId)
                   \<or> json_field (Some result) ''deviceId'' \<noteq> deviceId
                then throw_step (localError 403 ''remote_attach_not_authorized'')
                else bind_step (on_pairing (issueRemoteCredential (dp_sha d) (cx_env1 cx)
                         (str_field (json_field grant ''id'')) (cx_random1 cx) (cx_now cx)))
                       (\<lambda>i. respond 201 (issued_json i)))) a))"

definition proveIdentity :: "'w deps \<Rightarrow> req_context \<Rightarrow> local_request \<Rightarrow> (local_response, 'w) step" where
  "proveIdentity d cx request a0 =
     (case admission_assertAllowed (pairingAttemptKey (dp_sha d) (peer_name (rq_peer request)) ''identity-proof'')
             (cx_now cx) (ap_identityProofAttempts a0) of
        (Inl e, l) \<Rightarrow> (Inl e, a0\<lparr>ap_identityProofAttempts := l\<rparr>)
      | (Inr _, l) \<Rightarrow>
          bind_step (body_json request BODY_LIMITS_json) (\<lambda>body a.
            if str_field (json_field (Some body) ''protocolVersion'') \<noteq> IDENTITY_PROOF_PROTOCOL_VERSION
            then (Inl (localError 400 ''identity_protocol_version_unsupported''), a)
            else let nonce = base64_decode (str_field (json_field (Some body) ''nonce'')) in
              if length nonce \<noteq> 32 then (Inl (localError 400 ''identity_nonce_invalid''), a)
              else bind_step (lift_result (createIdentityProof (dp_identity d) IDENTITY_PROOF_PROTOCOL_VERSION
                       HTTP_IDENTITY_SESSION_ID nonce ''client'')) (\<lambda>p a.
                     respond 200 (JObj [(''protocolVersion'', JStr IDENTITY_PROOF_PROTOCOL_VERSION),
                       (''sessionId'', JStr HTTP_IDENTITY_SESSION_ID), (''nodeId'', JStr (node_id_or_local d a)),
                       (''fingerprint'', JStr (ip_fingerprint p)),
                       (''publicKey'', JStr (base64_encode True (ip_publicKeyRaw p))),
                       (''signature'', JStr (base64_encode False (ip_signature p)))]) a) a)
            (a0\<lparr>ap_identityProofAttempts := l\<rparr>))"

text \<open>The part behind the credential gate: claim the idempotency key, run the route, settle.\<close>

definition begin_claim :: "'w deps \<Rightarrow> req_context \<Rightarrow> string \<Rightarrow> local_request \<Rightarrow> idem_store \<Rightarrow> idem_outcome result \<times> idem_store" where
  "begin_claim d cx method request s =
     (if method \<in> set MUTATING_METHODS
      then idem_begin (dp_sha d) (rq_idempotencyKey request) (rq_credential request)
             (method @ '' '' @ rq_path request) (cx_now cx) s
      else (Inr \<lparr>oc_replay = None, oc_settle = NoClaim\<rparr>, s))"

definition dispatch_keyed :: "'w deps \<Rightarrow> req_context \<Rightarrow> string \<Rightarrow> local_request \<Rightarrow> (local_response, 'w) step" where
  "dispatch_keyed d cx method request a =
     (case begin_claim d cx method request (ap_idempotency a) of
        (Inl e, s1) \<Rightarrow> (Inl e, a\<lparr>ap_idempotency := s1\<rparr>)
      | (Inr claim, s1) \<Rightarrow>
          (case oc_replay claim of
             Some (status, v) \<Rightarrow> (Inr (jsonResponse status v), a\<lparr>ap_idempotency := s1\<rparr>)
           | None \<Rightarrow>
               (case route d cx method request (a\<lparr>ap_idempotency := s1\<rparr>) of
                  (Inl e, a1) \<Rightarrow>
                    (Inl e, a1\<lparr>ap_idempotency := idem_settle (oc_settle claim) None True (cx_now cx) (ap_idempotency a1)\<rparr>)
                | (Inr response, a1) \<Rightarrow>
                    (Inr response, a1\<lparr>ap_idempotency :=
                       idem_settle (oc_settle claim) (Some response) False (cx_now cx) (ap_idempotency a1)\<rparr>))))"

definition dispatchLocalRequest :: "'w deps \<Rightarrow> req_context \<Rightarrow> local_request \<Rightarrow> (local_response, 'w) step" where
  "dispatchLocalRequest d cx request =
     (if \<not> ac_localApiEnabled (dp_config d) then throw_step (localError 503 ''local_api_disabled'')
      else let method = to_upper (rq_method request); path = rq_path request in
        if \<not> starts_with path local_root then throw_step (localError 404 ''local_route_not_found'')
        else if method = ''POST'' \<and> path = ''/local/v1/pairing/session'' then activate_session d cx request
        else if method = ''POST'' \<and> path = ''/local/v1/pairing/exchange'' then exchangePairing d cx request
        else if method = ''POST'' \<and> path = ''/local/v1/pairing/remote-attach'' then remote_attach d cx request
        else if method = ''POST'' \<and> path = ''/local/v1/identity/proof'' then
          (if lp_kind (rq_peer request) = Webrtc then throw_step (localError 404 ''local_route_not_found'')
           else proveIdentity d cx request)
        else bind_step (require_scope d cx (cx_env1 cx) (rq_credential request) (routeScope path) 401 ''local_credential_required'')
               (\<lambda>_. if \<not> lp_identityHandshakeComplete (rq_peer request)
                    then throw_step (localError 403 ''node_identity_proof_required'')
                    else dispatch_keyed d cx method request))"

section \<open>What a step leaves alone\<close>

text \<open>\<open>keeps g m\<close>: the step \<open>m\<close> does not change the observation \<open>g\<close> of the state.\<close>

definition keeps :: "('w api \<Rightarrow> 'o) \<Rightarrow> ('a, 'w) step \<Rightarrow> bool" where
  "keeps g m \<longleftrightarrow> (\<forall>a. g (snd (m a)) = g a)"

named_theorems keeps_intros

lemma keeps_return [keeps_intros, intro]: "keeps g (return_step x)"
  by (simp add: keeps_def return_step_def)

lemma keeps_throw [keeps_intros, intro]: "keeps g (throw_step e)"
  by (simp add: keeps_def throw_step_def)

lemma keeps_lift [keeps_intros, intro]: "keeps g (lift_result r)"
  by (simp add: keeps_def lift_result_def)

lemma keepsD: "keeps g m \<Longrightarrow> m a = (r, a') \<Longrightarrow> g a' = g a"
  by (metis keeps_def snd_conv)

lemma keepsI: "(\<And>a r a'. m a = (r, a') \<Longrightarrow> g a' = g a) \<Longrightarrow> keeps g m"
  by (simp add: keeps_def) (metis prod.collapse)

lemma keeps_bind [keeps_intros]:
  assumes "keeps g m" and "\<And>x. keeps g (f x)"
  shows "keeps g (bind_step m f)"
proof (rule keepsI)
  fix a r a'
  assume b: "bind_step m f a = (r, a')"
  obtain r1 a1 where m: "m a = (r1, a1)" by fastforce
  show "g a' = g a"
    using b m keepsD [OF assms(1) m] keepsD [OF assms(2)] by (cases r1) (auto simp: bind_step_def)
qed

lemma keeps_if [keeps_intros]: "(b \<Longrightarrow> keeps g m) \<Longrightarrow> (\<not> b \<Longrightarrow> keeps g n) \<Longrightarrow> keeps g (if b then m else n)"
  by simp

lemma keeps_return_state [keeps_intros]: "keeps g (\<lambda>a. return_step (h a) a)"
  by (simp add: keeps_def return_step_def)

lemma keeps_body [keeps_intros, intro]: "keeps g (body_json request n)" "keeps g (raw_body request n)"
  by (simp_all add: body_json_def raw_body_def keeps_lift)

lemma keeps_call [keeps_intros]: "(\<And>a w. g (a\<lparr>ap_world := w\<rparr>) = g a) \<Longrightarrow> keeps g (call d c)"
  by (simp add: keeps_def call_def split: prod.splits)

lemma keeps_call_or [keeps_intros]:
  assumes "\<And>a w. g (a\<lparr>ap_world := w\<rparr>) = g a"
  shows "keeps g (call_or d c j)"
proof (rule keepsI)
  fix a r a'
  assume "call_or d c j a = (r, a')"
  then have "snd (call d c a) = a'"
    by (auto simp: call_or_def split: prod.splits sum.splits)
  then show "g a' = g a"
    using keeps_call [of g d c, OF assms] by (simp add: keeps_def) blast
qed

lemma keeps_authorize [keeps_intros]: "(\<And>a st. g (a\<lparr>ap_pairing := st\<rparr>) = g a) \<Longrightarrow> keeps g (authorize_step d cx env c sc)"
  by (simp add: keeps_def authorize_step_def split: prod.splits)

lemma keeps_require [keeps_intros]: "(\<And>a st. g (a\<lparr>ap_pairing := st\<rparr>) = g a) \<Longrightarrow> keeps g (require_scope d cx env c sc n e)"
  by (simp add: require_scope_def keeps_intros)

lemma keeps_guard: "(\<And>a st. g (a\<lparr>ap_pairing := st\<rparr>) = g a) \<Longrightarrow> keeps g (guard_scope d cx request op)"
  by (cases "extra_scope op") (simp_all add: guard_scope_def keeps_intros)

lemma keeps_operation:
  assumes "\<And>a w. g (a\<lparr>ap_world := w\<rparr>) = g a"
  shows "keeps g (run_operation d request op)"
  by (cases op) (simp_all add: with_authorization_def Let_def keeps_intros assms split: option.split)

lemma keeps_route:
  assumes "\<And>a w. g (a\<lparr>ap_world := w\<rparr>) = g a" and "\<And>a st. g (a\<lparr>ap_pairing := st\<rparr>) = g a"
  shows "keeps g (route d cx method request)"
  by (cases "match_route method (rq_path request)")
    (simp_all add: route_def keeps_throw keeps_bind keeps_guard [OF assms(2)] keeps_operation [OF assms(1)])

section \<open>Authorization\<close>

definition authorized_for :: "(string \<Rightarrow> string) \<Rightarrow> string option \<Rightarrow> local_scope \<Rightarrow> pairing_state \<Rightarrow> bool" where
  "authorized_for sha token scope s \<longleftrightarrow> starts_with (opt_str token) ''kubus_local_'' \<and>
     (\<exists>(cid, c) \<in> set (ps_localCredentials s). cr_revokedAt c = None \<and>
        safeEqual (cr_tokenHash c) (sha (opt_str token)) \<and> scope \<in> set (cr_scopes c))"

lemma authorize_True:
  "authorize sha env token scope now st = (Inr True, st') \<Longrightarrow> authorized_for sha token scope (p_snapshot st)"
  by (auto simp: authorize_def authorized_for_def split: if_splits option.splits prod.splits sum.splits
      dest!: find_credential_sound)

lemma mark_used_authorized:
  "authorized_for sha token scope (mark_used cid now s) \<Longrightarrow> authorized_for sha token scope s"
  using set_jm_set [of cid _ "ps_localCredentials s"]
  by (fastforce simp: mark_used_def authorized_for_def dest: jm_get_memD split: option.splits)

lemma authorize_keeps_authorized:
  assumes "store_ready env st" and "authorize sha' env token' scope' now st = (r, st')"
    and "authorized_for sha token scope (p_snapshot st')"
  shows "authorized_for sha token scope (p_snapshot st)"
proof (cases "st' = st")
  case False
  then obtain cid r' where "p_update env (\<lambda>s. Inr (mark_used cid now s)) st = (r', st')"
    using assms(2) by (auto simp: authorize_def split: if_splits option.splits prod.splits sum.splits)
  from local_store.update_relates [OF assms(1) this,
      of "\<lambda>s s'. authorized_for sha token scope s' \<longrightarrow> authorized_for sha token scope s"] assms(3)
  show ?thesis by (auto intro: mark_used_authorized)
qed (use assms in simp)

lemma require_scope_ok:
  "require_scope d cx env c sc n e a = (Inr (), a') \<Longrightarrow>
    \<exists>st. authorize (dp_sha d) env c sc (cx_now cx) (ap_pairing a) = (Inr True, st) \<and> a' = a\<lparr>ap_pairing := st\<rparr>"
  by (auto simp: require_scope_def bind_step_def authorize_step_def return_step_def throw_step_def
      split: prod.splits sum.splits if_splits)

lemma bind_step_Inr:
  "bind_step m f a = (r, a') \<Longrightarrow> (\<exists>e. m a = (Inl e, a') \<and> r = Inl e) \<or> (\<exists>x a1. m a = (Inr x, a1) \<and> f x a1 = (r, a'))"
  by (auto simp: bind_step_def split: prod.splits sum.splits)

lemma keeps_on_pairing [keeps_intros]: "keeps ap_world (on_pairing f)"
  by (simp add: keeps_def on_pairing_def split: prod.splits)

lemma keeps_unkeyed:
  "keeps ap_world (activate_session d cx request)" "keeps ap_world (exchangePairing d cx request)"
  "keeps ap_world (proveIdentity d cx request)"
proof -
  show "keeps ap_world (activate_session d cx request)"
    by (simp add: activate_session_def keeps_intros)
  show "keeps ap_world (exchangePairing d cx request)"
    unfolding exchangePairing_def keeps_def
    by (auto simp: bind_step_def body_json_def lift_result_def Let_def split: prod.splits sum.splits)
  show "keeps ap_world (proveIdentity d cx request)"
    unfolding proveIdentity_def keeps_def
    by (auto simp: bind_step_def body_json_def lift_result_def return_step_def Let_def split: prod.splits sum.splits)
qed

lemma guard_scope_ok:
  assumes "guard_scope d cx request op a = (Inr (), a')" and "extra_scope op = Some sc"
  shows "authorized_for (dp_sha d) (rq_credential request) sc (p_snapshot (ap_pairing a))"
  using assms require_scope_ok [of d cx "cx_env2 cx" "rq_credential request" sc 403 "''scope_required''" a a'] authorize_True
  by (auto simp: guard_scope_def throw_step_def split: if_splits)

lemma dispatch_keyed_world:
  assumes "dispatch_keyed d cx method request a = (r, a')" and "ap_world a' \<noteq> ap_world a"
  shows "\<exists>op. match_route method (rq_path request) = Some op \<and>
    (\<forall>sc. extra_scope op = Some sc \<longrightarrow>
      authorized_for (dp_sha d) (rq_credential request) sc (p_snapshot (ap_pairing a)))"
proof -
  obtain claim s1 where "begin_claim d cx method request (ap_idempotency a) = (claim, s1)" by fastforce
  then obtain r1 a1 where rt: "route d cx method request (a\<lparr>ap_idempotency := s1\<rparr>) = (r1, a1)"
    and w: "ap_world a1 \<noteq> ap_world a"
    using assms by (auto simp: dispatch_keyed_def split: prod.splits sum.splits option.splits)
  obtain op where op: "match_route method (rq_path request) = Some op"
    using rt w by (cases "match_route method (rq_path request)") (auto simp: route_def throw_step_def)
  have g: "keeps ap_world (guard_scope d cx request op)" by (rule keeps_guard) simp
  have "\<exists>a2. guard_scope d cx request op (a\<lparr>ap_idempotency := s1\<rparr>) = (Inr (), a2)"
    using rt w op bind_step_Inr [of "guard_scope d cx request op"] keepsD [OF g] by (fastforce simp: route_def)
  then show ?thesis
    using op guard_scope_ok [of d cx request op "a\<lparr>ap_idempotency := s1\<rparr>"] by auto
qed

definition unkeyed_path :: "string \<Rightarrow> string \<Rightarrow> bool" where
  "unkeyed_path method path \<longleftrightarrow> method = ''POST'' \<and> path \<in>
     {''/local/v1/pairing/session'', ''/local/v1/pairing/exchange'', ''/local/v1/pairing/remote-attach'', ''/local/v1/identity/proof''}"

text \<open>What stands between a request and \<open>dispatch_keyed\<close>.\<close>

lemma dispatch_cases:
  assumes "\<not> unkeyed_path (to_upper (rq_method request)) (rq_path request)"
    and "dispatchLocalRequest d cx request a = (r, a')"
  shows "(\<exists>e st. r = Inl e \<and> a' = a\<lparr>ap_pairing := st\<rparr>) \<or>
    (\<exists>st. authorize (dp_sha d) (cx_env1 cx) (rq_credential request) (routeScope (rq_path request)) (cx_now cx) (ap_pairing a)
        = (Inr True, st) \<and> lp_identityHandshakeComplete (rq_peer request) \<and>
      dispatch_keyed d cx (to_upper (rq_method request)) request (a\<lparr>ap_pairing := st\<rparr>) = (r, a'))"
proof -
  let ?req = "require_scope d cx (cx_env1 cx) (rq_credential request) (routeScope (rq_path request)) 401 ''local_credential_required''"
  let ?rest = "\<lambda>_. if \<not> lp_identityHandshakeComplete (rq_peer request)
    then throw_step (localError 403 ''node_identity_proof_required'')
    else dispatch_keyed d cx (to_upper (rq_method request)) request"
  have chain: "dispatchLocalRequest d cx request =
      (if \<not> ac_localApiEnabled (dp_config d) then throw_step (localError 503 ''local_api_disabled'')
       else if \<not> starts_with (rq_path request) local_root then throw_step (localError 404 ''local_route_not_found'')
       else bind_step ?req ?rest)"
    using assms(1) by (cases "to_upper (rq_method request) = ''POST''")
      (simp_all add: dispatchLocalRequest_def unkeyed_path_def Let_def)
  show ?thesis
  proof (cases "ac_localApiEnabled (dp_config d) \<and> starts_with (rq_path request) local_root")
    case False
    then obtain e where "r = Inl e" "a' = a"
      using assms(2) by (auto simp: chain throw_step_def split: if_splits)
    then show ?thesis by (intro disjI1 exI [of _ e] exI [of _ "ap_pairing a"]) simp
  next
    case True
    then have "bind_step ?req ?rest a = (r, a')" using assms(2) by (simp add: chain)
    from bind_step_Inr [OF this] show ?thesis
    proof (elim disjE exE conjE)
      fix e
      assume "?req a = (Inl e, a')" "r = Inl e"
      then show ?thesis
        by (auto simp: require_scope_def bind_step_def authorize_step_def return_step_def throw_step_def
            split: prod.splits sum.splits if_splits)
    next
      fix x a1
      assume "?req a = (Inr x, a1)" and rest: "?rest x a1 = (r, a')"
      then obtain st where "authorize (dp_sha d) (cx_env1 cx) (rq_credential request) (routeScope (rq_path request))
          (cx_now cx) (ap_pairing a) = (Inr True, st)" "a1 = a\<lparr>ap_pairing := st\<rparr>"
        using require_scope_ok [of d cx "cx_env1 cx"] by (cases x) blast
      then show ?thesis
        using rest by (auto simp: throw_step_def split: if_splits)
    qed
  qed
qed

section \<open>Properties\<close>

lemma effects_authorized:
  assumes "store_ready (cx_env1 cx) (ap_pairing a)"
    and "dispatchLocalRequest d cx request a = (r, a')" and "ap_world a' \<noteq> ap_world a"
  shows "(rq_path request = ''/local/v1/pairing/remote-attach'' \<and> lp_kind (rq_peer request) = Webrtc \<and>
      lp_identityHandshakeComplete (rq_peer request)) \<or>
    (lp_identityHandshakeComplete (rq_peer request) \<and>
     authorized_for (dp_sha d) (rq_credential request) (routeScope (rq_path request)) (p_snapshot (ap_pairing a)) \<and>
     (\<exists>op. match_route (to_upper (rq_method request)) (rq_path request) = Some op \<and>
       (\<forall>sc. extra_scope op = Some sc \<longrightarrow>
         authorized_for (dp_sha d) (rq_credential request) sc (p_snapshot (ap_pairing a)))))"
proof (cases "unkeyed_path (to_upper (rq_method request)) (rq_path request)")
  case True
  then have "rq_path request = ''/local/v1/pairing/remote-attach'' \<and> remote_attach d cx request a = (r, a')"
    using assms(2, 3) keepsD [OF keeps_unkeyed(1), of d cx request a r a'] keepsD [OF keeps_unkeyed(2), of d cx request a r a']
      keepsD [OF keeps_unkeyed(3), of d cx request a r a']
    by (auto simp: dispatchLocalRequest_def unkeyed_path_def throw_step_def Let_def split: if_splits)
  then show ?thesis
    using assms(3) by (auto simp: remote_attach_def throw_step_def split: if_splits)
next
  case False
  from dispatch_cases [OF this assms(2)] assms(3) obtain st where
    au: "authorize (dp_sha d) (cx_env1 cx) (rq_credential request) (routeScope (rq_path request)) (cx_now cx) (ap_pairing a) = (Inr True, st)"
    and hs: "lp_identityHandshakeComplete (rq_peer request)"
    and kd: "dispatch_keyed d cx (to_upper (rq_method request)) request (a\<lparr>ap_pairing := st\<rparr>) = (r, a')"
    by auto
  from dispatch_keyed_world [OF kd] assms(3) obtain op where
    op: "match_route (to_upper (rq_method request)) (rq_path request) = Some op"
    and ex: "\<forall>sc. extra_scope op = Some sc \<longrightarrow> authorized_for (dp_sha d) (rq_credential request) sc (p_snapshot st)"
    by auto
  show ?thesis
    using hs op ex authorize_True [OF au] authorize_keeps_authorized [OF assms(1) au] by blast
qed


text \<open>
  C1. No effect without a credential. Whatever the services do, a request changes their state only
  if it is a remote attachment over a data channel whose handshake has completed, or if the
  handshake has completed and its credential is a live one that carries the scope of the path and,
  where the operation asks for another scope, that one too.
\<close>
theorem effects_need_credential:
  assumes "store_ready (cx_env1 cx) (ap_pairing a)"
    and "dispatchLocalRequest d cx request a = (r, a')" and "ap_world a' \<noteq> ap_world a"
  shows "(rq_path request = ''/local/v1/pairing/remote-attach'' \<and> lp_kind (rq_peer request) = Webrtc \<and>
      lp_identityHandshakeComplete (rq_peer request)) \<or>
    (lp_identityHandshakeComplete (rq_peer request) \<and>
     authorized_for (dp_sha d) (rq_credential request) (routeScope (rq_path request)) (p_snapshot (ap_pairing a)) \<and>
     (\<exists>op. match_route (to_upper (rq_method request)) (rq_path request) = Some op \<and>
       (\<forall>sc. extra_scope op = Some sc \<longrightarrow>
         authorized_for (dp_sha d) (rq_credential request) sc (p_snapshot (ap_pairing a)))))"
  by (rule effects_authorized [OF assms])

lemma keeps_idem_route: "keeps ap_idempotency (route d cx method request)"
  by (rule keeps_route) simp_all

lemma keeps_idem_unkeyed:
  "keeps ap_idempotency (activate_session d cx request)" "keeps ap_idempotency (exchangePairing d cx request)"
  "keeps ap_idempotency (remote_attach d cx request)" "keeps ap_idempotency (proveIdentity d cx request)"
  unfolding activate_session_def exchangePairing_def remote_attach_def proveIdentity_def keeps_def
  by (auto simp: bind_step_def body_json_def lift_result_def return_step_def throw_step_def on_pairing_def call_def Let_def
      split: prod.splits sum.splits)

lemma dispatch_keyed_stores:
  assumes "dispatch_keyed d cx method request a = (Inr resp, a')"
    and "method \<in> set MUTATING_METHODS" and "normalizeIdempotencyKey (rq_idempotencyKey request) = Some k"
    and "mk = scopedKey (dp_sha d) k (rq_credential request)" and "op = method @ '' '' @ rq_path request"
    and "idem_inv (ap_idempotency a)" and "0 < is_maxEntries (ap_idempotency a)"
    and "jm_get (is_entries (ap_idempotency a)) mk = None" and "replayable (Some resp)"
  shows "\<exists>status v. resp = JsonResponse status v \<and>
    jm_get (is_entries (ap_idempotency a')) mk = Some (CompletedEntry status v (cx_now cx) op) \<and>
    idem_inv (ap_idempotency a') \<and> is_retentionMs (ap_idempotency a') = is_retentionMs (ap_idempotency a) \<and>
    is_maxEntries (ap_idempotency a') = is_maxEntries (ap_idempotency a) \<and>
    length (is_entries (ap_idempotency a')) \<le> Suc (length (is_entries (ap_idempotency a)))"
proof -
  let ?s = "ap_idempotency a" and ?b = "idem_begin (dp_sha d) (rq_idempotencyKey request) (rq_credential request) op (cx_now cx) (ap_idempotency a)"
  obtain status v where resp: "resp = JsonResponse status v" and small: "replay_size v \<le> MAX_REPLAYABLE_BYTES"
    using assms(9) by (cases resp) (auto simp: replayable_def)
  have "jm_get (is_entries (evictExpired (cx_now cx) ?s)) mk = None"
    using assms(6, 8) by (simp add: evictExpired_def Let_def jm_get_filter idem_inv_def)
  then obtain s1 where b: "?b = (Inr \<lparr>oc_replay = None, oc_settle = Claim mk op\<rparr>, s1)"
    using assms(3, 4) by (simp add: idem_begin_def Let_def)
  have s1: "idem_inv s1" "is_retentionMs s1 = is_retentionMs ?s" "is_maxEntries s1 = is_maxEntries ?s" "jm_has (is_entries s1) mk"
    "length (is_entries s1) \<le> Suc (length (is_entries ?s))"
    using idem_begin_inv [OF assms(6), of "dp_sha d" "rq_idempotencyKey request" "rq_credential request" op "cx_now cx"] b
      claimed_entry [OF b _ assms(6, 7)] idem_begin_length [OF assms(6) b] by (simp_all add: jm_has_def)
  obtain a1 where rt: "route d cx method request (a\<lparr>ap_idempotency := s1\<rparr>) = (Inr resp, a1)"
    and a': "a' = a1\<lparr>ap_idempotency := idem_settle (Claim mk op) (Some resp) False (cx_now cx) (ap_idempotency a1)\<rparr>"
    using assms(1, 2) b by (auto simp: dispatch_keyed_def begin_claim_def assms(5) split: prod.splits sum.splits)
  have "ap_idempotency a1 = s1" using keepsD [OF keeps_idem_route rt] by simp
  moreover have "mk \<noteq> []" using assms(4) by simp
  ultimately show ?thesis
    using s1 small idem_settle_inv [OF s1(1), of "Claim mk op" "Some resp" False "cx_now cx"]
    by (simp add: a' resp idem_settle_def jm_size_set_has)
qed

text \<open>A kept entry with so much room left in the map.\<close>

definition kept_entry :: "string \<Rightarrow> idem_entry \<Rightarrow> int \<Rightarrow> nat \<Rightarrow> nat \<Rightarrow> idem_store \<Rightarrow> bool" where
  "kept_entry mk e retention maxEntries used s \<longleftrightarrow> idem_inv s \<and> jm_get (is_entries s) mk = Some e \<and> is_retentionMs s = retention \<and>
     is_maxEntries s = maxEntries \<and> length (is_entries s) \<le> used"

lemma kept_entry_expiry:
  "kept_entry mk e ret mx n s \<Longrightarrow> now < ie_storedAt e + ret \<Longrightarrow> kept_entry mk e ret mx n (evictExpired now s)"
  using order_trans [OF length_filter_le [of "\<lambda>(k, e). \<not> ie_storedAt e \<le> now - ret" "is_entries s"], of n]
  by (simp add: kept_entry_def evictExpired_inv) (simp add: evictExpired_def Let_def jm_get_filter idem_inv_def)

lemma kept_entry_begin:
  assumes "kept_entry mk e ret mx n s" and "now < ie_storedAt e + ret" and "n < mx"
    and "idem_begin sha rk c op now s = (r, s1)"
  shows "kept_entry mk e ret mx (Suc n) s1"
proof (cases "event_key sha (Begin rk c op now) = Some mk")
  case True
  then obtain k where k: "normalizeIdempotencyKey rk = Some k" "mk = scopedKey sha k c" by auto
  have "kept_entry mk e ret mx n (evictExpired now s)" using assms(1, 2) by (rule kept_entry_expiry)
  moreover from this have "s1 = evictExpired now s"
    using assms(4) k by (auto simp: idem_begin_def kept_entry_def Let_def split: if_splits idem_entry.splits)
  ultimately show ?thesis by (simp add: kept_entry_def)
next
  case False
  have "length (is_entries s) < is_maxEntries s" using assms(1, 3) by (simp add: kept_entry_def)
  then show ?thesis
    using entry_survives_step [of s mk e sha "Begin rk c op now"] assms False by (auto simp: kept_entry_def)
qed

lemma kept_entry_settle:
  assumes "kept_entry mk e ret mx n s" and "mk' \<noteq> mk" and "mk' \<noteq> []" and "jm_has (is_entries s) mk'"
  shows "kept_entry mk e ret mx n (idem_settle (Claim mk' op) r f now s)"
  using assms idem_settle_inv [of s "Claim mk' op" r f now] jm_size_set_has [OF assms(4)] jm_size_delete_le [of mk' "is_entries s"]
  by (auto simp: kept_entry_def idem_settle_def split: local_response.splits)

lemma kept_entry_keyed:
  assumes kept: "kept_entry mk e ret mx n (ap_idempotency a)" and "cx_now cx < ie_storedAt e + ret" and "n < mx"
    and run: "dispatch_keyed d cx method request a = (r, a')"
  shows "kept_entry mk e ret mx (Suc n) (ap_idempotency a')"
proof -
  obtain claim s1 where b: "begin_claim d cx method request (ap_idempotency a) = (claim, s1)" by fastforce
  have s1: "kept_entry mk e ret mx (Suc n) s1"
    using b kept kept_entry_begin [OF kept assms(2, 3)] by (auto simp: begin_claim_def kept_entry_def split: if_splits)
  have settled: "kept_entry mk e ret mx (Suc n) (idem_settle (oc_settle oc) x f (cx_now cx) s1)" if oc: "claim = Inr oc" "oc_replay oc = None" for oc x f
  proof (cases "oc_settle oc")
    case (Claim mk' op)
    then have ib: "idem_begin (dp_sha d) (rq_idempotencyKey request) (rq_credential request) (method @ '' '' @ rq_path request) (cx_now cx)
        (ap_idempotency a) = (Inr oc, s1)" using b oc by (auto simp: begin_claim_def split: if_splits)
    obtain k where k: "mk' = scopedKey (dp_sha d) k (rq_credential request)" "jm_get (is_entries (evictExpired (cx_now cx) (ap_idempotency a))) mk' = None"
      using idem_begin_claimed [OF ib Claim] by blast
    have "mk' \<noteq> mk" using k(2) kept_entry_expiry [OF kept assms(2)] by (auto simp: kept_entry_def)
    moreover have "jm_has (is_entries s1) mk'"
      using claimed_entry(1) [OF ib Claim] kept assms(3) by (simp add: jm_has_def kept_entry_def)
    ultimately show ?thesis using kept_entry_settle [OF s1] k(1) Claim by simp
  qed (use s1 in \<open>simp add: idem_settle_def\<close>)
  have "ap_idempotency a1 = s1" if "route d cx method request (a\<lparr>ap_idempotency := s1\<rparr>) = (r1, a1)" for r1 a1
    using keepsD [OF keeps_idem_route that] by simp
  then show ?thesis
    using run b s1 settled by (auto simp: dispatch_keyed_def split: prod.splits sum.splits option.splits)
qed

lemma kept_entry_dispatch:
  assumes kept: "kept_entry mk e ret mx n (ap_idempotency a)" and "cx_now cx < ie_storedAt e + ret" and "n < mx"
    and run: "dispatchLocalRequest d cx request a = (r, a')"
  shows "kept_entry mk e ret mx (Suc n) (ap_idempotency a')"
proof (cases "unkeyed_path (to_upper (rq_method request)) (rq_path request)")
  case True
  then have "ap_idempotency a' = ap_idempotency a"
    using run keeps_idem_unkeyed [THEN keepsD] by (auto simp: dispatchLocalRequest_def unkeyed_path_def throw_step_def Let_def split: if_splits)
  then show ?thesis using kept by (simp add: kept_entry_def)
next
  case False
  from dispatch_cases [OF this run] show ?thesis
  proof (elim disjE exE conjE)
    fix st
    assume "dispatch_keyed d cx (to_upper (rq_method request)) request (a\<lparr>ap_pairing := st\<rparr>) = (r, a')"
    from kept_entry_keyed [OF _ assms(2, 3) this] kept show ?thesis by simp
  qed (use kept in \<open>simp add: kept_entry_def\<close>)
qed

lemma kept_entry_run:
  assumes "kept_entry mk e ret mx n (ap_idempotency a)" and "\<forall>x \<in> set xs. cx_now (fst x) < ie_storedAt e + ret" and "n + length xs \<le> mx"
  shows "kept_entry mk e ret mx (n + length xs) (ap_idempotency (fold (\<lambda>x a. snd (dispatchLocalRequest d (fst x) (snd x) a)) xs a))"
  using assms
proof (induction xs arbitrary: a n)
  case (Cons x xs)
  have "kept_entry mk e ret mx (Suc n) (ap_idempotency (snd (dispatchLocalRequest d (fst x) (snd x) a)))"
    by (rule kept_entry_dispatch [OF Cons.prems(1) _ _ prod.collapse [symmetric]]) (use Cons.prems in auto)
  from Cons.IH [OF this] Cons.prems show ?case by simp
qed simp

text \<open>What the gates in front of the routes answer.\<close>

lemma dispatch_gate:
  assumes "\<not> unkeyed_path (to_upper (rq_method request)) (rq_path request)"
    and "ac_localApiEnabled (dp_config d)" and "starts_with (rq_path request) local_root"
  shows "dispatchLocalRequest d cx request a =
    (case authorize (dp_sha d) (cx_env1 cx) (rq_credential request) (routeScope (rq_path request)) (cx_now cx) (ap_pairing a) of
       (Inl e, st) \<Rightarrow> (Inl e, a\<lparr>ap_pairing := st\<rparr>)
     | (Inr okay, st) \<Rightarrow>
         if \<not> okay then (Inl (localError 401 ''local_credential_required''), a\<lparr>ap_pairing := st\<rparr>)
         else if \<not> lp_identityHandshakeComplete (rq_peer request) then (Inl (localError 403 ''node_identity_proof_required''), a\<lparr>ap_pairing := st\<rparr>)
         else dispatch_keyed d cx (to_upper (rq_method request)) request (a\<lparr>ap_pairing := st\<rparr>))"
  using assms
  by (cases "to_upper (rq_method request) = ''POST''")
     (simp_all add: dispatchLocalRequest_def unkeyed_path_def Let_def require_scope_def authorize_step_def bind_step_def return_step_def
       throw_step_def split: prod.split sum.split)

lemma dispatch_open:
  assumes "dispatchLocalRequest d cx request a = (Inr resp, a')"
  shows "ac_localApiEnabled (dp_config d) \<and> starts_with (rq_path request) local_root"
  using assms by (auto simp: dispatchLocalRequest_def throw_step_def Let_def split: if_splits)

lemma authorize_snapshot:
  assumes "store_ready env st" and "authorize sha env token scope now st = (r, st')"
  shows "p_snapshot st' = p_snapshot st \<or> (\<exists>cid. p_snapshot st' = mark_used cid now (p_snapshot st))"
proof (cases "st' = st")
  case False
  then obtain cid r' where "p_update env (\<lambda>s. Inr (mark_used cid now s)) st = (r', st')"
    using assms(2) by (auto simp: authorize_def split: if_splits option.splits prod.splits sum.splits)
  from local_store.update_relates [OF assms(1) this, of "\<lambda>s s'. s' = s \<or> s' = mark_used cid now s"] show ?thesis by auto
qed simp

text \<open>What a data channel's peer gets before the handshake: an error, unless it asks for a pairing session with the administrator's token
  or exchanges one.\<close>

lemma unverified_refused:
  assumes "store_ready (cx_env1 cx) (ap_pairing a)" and "lp_kind (rq_peer request) = Webrtc" and "\<not> lp_identityHandshakeComplete (rq_peer request)"
    and run: "dispatchLocalRequest d cx request a = (r, a')"
  shows "ap_idempotency a' = ap_idempotency a \<and>
    ((\<exists>e. r = Inl e) \<and> (p_snapshot (ap_pairing a') = p_snapshot (ap_pairing a) \<or>
        (\<exists>cid. p_snapshot (ap_pairing a') = mark_used cid (cx_now cx) (p_snapshot (ap_pairing a)))) \<or>
     to_upper (rq_method request) = ''POST'' \<and>
       (rq_path request = ''/local/v1/pairing/session'' \<and> opt_str (ac_guiToken (dp_config d)) \<noteq> [] \<and> rq_credential request = ac_guiToken (dp_config d) \<or>
        rq_path request = ''/local/v1/pairing/exchange''))"
proof (cases "unkeyed_path (to_upper (rq_method request)) (rq_path request)")
  case True
  then have "ap_idempotency a' = ap_idempotency a"
    using run keeps_idem_unkeyed [THEN keepsD] by (auto simp: dispatchLocalRequest_def unkeyed_path_def throw_step_def Let_def split: if_splits)
  then show ?thesis
    using True run assms(2, 3)
    by (auto simp: dispatchLocalRequest_def unkeyed_path_def throw_step_def remote_attach_def activate_session_def Let_def split: if_splits)
next
  case False
  show ?thesis
  proof (cases "ac_localApiEnabled (dp_config d) \<and> starts_with (rq_path request) local_root")
    case True
    obtain v st where au: "authorize (dp_sha d) (cx_env1 cx) (rq_credential request) (routeScope (rq_path request)) (cx_now cx) (ap_pairing a) = (v, st)"
      by fastforce
    have "(\<exists>e. r = Inl e) \<and> a' = a\<lparr>ap_pairing := st\<rparr>"
      using run assms(3) dispatch_gate [OF False, of d cx a] True au by (auto split: sum.splits if_splits)
    then show ?thesis using authorize_snapshot [OF assms(1) au] by auto
  qed (use run in \<open>auto simp: dispatchLocalRequest_def throw_step_def Let_def split: if_splits\<close>)
qed

text \<open>
  C2. A retried mutation is applied once. A POST, PUT, PATCH or DELETE with an idempotency key that is not in the store was answered with a
  JSON response small enough to keep. Then any requests follow, of any clients and with any keys, that key included, within the
  retention time and no more than the store has room for beside the entries it had. A repetition of the request with the same credential, on
  whatever transport and with whatever body, then leaves the services' state as it is; when its credential is still good for the path and its
  peer has completed the handshake it gets the same response, and otherwise an error.
\<close>
theorem retried_mutation_applied_once:
  assumes "dispatchLocalRequest d cx request a = (Inr resp, a1)"
    and "\<not> unkeyed_path (to_upper (rq_method request)) (rq_path request)"
    and "to_upper (rq_method request) \<in> set MUTATING_METHODS"
    and "normalizeIdempotencyKey (rq_idempotencyKey request) = Some k"
    and "idem_inv (ap_idempotency a)"
    and "jm_get (is_entries (ap_idempotency a)) (scopedKey (dp_sha d) k (rq_credential request)) = None"
    and "replayable (Some resp)"
    and "\<forall>x \<in> set between. cx_now (fst x) < cx_now cx + is_retentionMs (ap_idempotency a)"
    and "length (is_entries (ap_idempotency a)) + length between < is_maxEntries (ap_idempotency a)"
    and "a2 = fold (\<lambda>x a. snd (dispatchLocalRequest d (fst x) (snd x) a)) between a1"
    and "cx_now cx' < cx_now cx + is_retentionMs (ap_idempotency a)"
    and "dispatchLocalRequest d cx' (request\<lparr>rq_peer := peer, rq_body := body\<rparr>) a2 = (r, a3)"
  shows "ap_world a3 = ap_world a2 \<and>
    (if fst (authorize (dp_sha d) (cx_env1 cx') (rq_credential request) (routeScope (rq_path request)) (cx_now cx') (ap_pairing a2)) = Inr True \<and>
        lp_identityHandshakeComplete peer
     then r = Inr resp else (\<exists>e. r = Inl e))"
proof -
  let ?m = "to_upper (rq_method request)" and ?op = "to_upper (rq_method request) @ '' '' @ rq_path request"
  let ?mk = "scopedKey (dp_sha d) k (rq_credential request)" and ?rq = "request\<lparr>rq_peer := peer, rq_body := body\<rparr>"
  let ?ret = "is_retentionMs (ap_idempotency a)" and ?mx = "is_maxEntries (ap_idempotency a)" and ?n = "length (is_entries (ap_idempotency a))"
  obtain st where kd: "dispatch_keyed d cx ?m request (a\<lparr>ap_pairing := st\<rparr>) = (Inr resp, a1)"
    using dispatch_cases [OF assms(2, 1)] by auto
  have pos: "0 < ?mx" using assms(9) by simp
  from dispatch_keyed_stores [OF kd assms(3, 4) refl refl] assms(5-7) pos obtain status v
    where resp: "resp = JsonResponse status v"
      and kept: "kept_entry ?mk (CompletedEntry status v (cx_now cx) ?op) ?ret ?mx (Suc ?n) (ap_idempotency a1)"
    by (auto simp: kept_entry_def)
  have "kept_entry ?mk (CompletedEntry status v (cx_now cx) ?op) ?ret ?mx (Suc ?n + length between) (ap_idempotency a2)"
    unfolding assms(10) by (rule kept_entry_run [OF kept]) (use assms(8, 9) in auto)
  then have "idem_inv (ap_idempotency a2)" "jm_get (is_entries (ap_idempotency a2)) ?mk = Some (CompletedEntry status v (cx_now cx) ?op)"
    "is_retentionMs (ap_idempotency a2) = ?ret" by (simp_all add: kept_entry_def)
  then have rep: "fst (idem_begin (dp_sha d) (rq_idempotencyKey request) (rq_credential request) ?op (cx_now cx') (ap_idempotency a2))
      = Inr \<lparr>oc_replay = Some (status, v), oc_settle = NoClaim\<rparr>"
    using idem_begin_existing [of "ap_idempotency a2", OF _ assms(4)] assms(11) by simp
  then have keyed: "dispatch_keyed d cx' ?m ?rq (a2\<lparr>ap_pairing := st\<rparr>) = (x, y) \<Longrightarrow> x = Inr resp \<and> ap_world y = ap_world a2" for st x y
    using assms(3) by (auto simp: dispatch_keyed_def begin_claim_def resp jsonResponse_def split: prod.splits)
  have "\<not> unkeyed_path (to_upper (rq_method ?rq)) (rq_path ?rq)" using assms(2) by simp
  note gate = dispatch_gate [OF this, of d cx' a2]
  obtain v st' where au: "authorize (dp_sha d) (cx_env1 cx') (rq_credential request) (routeScope (rq_path request)) (cx_now cx') (ap_pairing a2) = (v, st')"
    by fastforce
  obtain x y where kd': "dispatch_keyed d cx' ?m ?rq (a2\<lparr>ap_pairing := st'\<rparr>) = (x, y)" by fastforce
  show ?thesis
    using gate dispatch_open [OF assms(1)] keyed [OF kd'] kd' au assms(12) by (auto split: sum.splits if_splits)
qed

subsection \<open>Witnesses\<close>

text \<open>A node with one paired device and a job service that counts the jobs it created.\<close>

fun demo_call :: "service_call \<Rightarrow> int \<Rightarrow> json result \<times> int" where
  "demo_call (CallJobCreate t j) n = (Inr (JNum (n + 1)), n + 1)"
| "demo_call _ n = (Inr JNull, n)"

definition demo_identity :: node_identity where
  "demo_identity = \<lparr>ni_publicKeyRaw = replicate 32 1, ni_publicKeyBase64Url = ''AQ'', ni_fingerprint = ''f0'',
     ni_createdAt = 0, ni_sign = (\<lambda>m. replicate 64 (of_nat (length m)))\<rparr>"

definition demo_deps :: "int deps" where
  "demo_deps = \<lparr>dp_sha = toy_sha, dp_canonical = json_stringify, dp_date_parse = (\<lambda>_. None), dp_uri_decode = Some,
     dp_config = \<lparr>ac_localApiEnabled = True, ac_guiToken = None, ac_maxPinnedBytes = 0, ac_maxPinnedCids = 0,
       ac_pairing = \<lparr>pc_nodeKey = None, pc_nodeLabel = ''node'', pc_pairingSessionTtlMs = 1000, pc_localApiAllowLan = False,
         pc_localApiLanUrl = None, pc_localApiRemoteUrl = None, pc_fingerprint = ''f0'', pc_publicKeyBase64Url = ''AQ''\<rparr>\<rparr>,
     dp_identity = demo_identity, dp_permissionUpdate = False, dp_call = demo_call\<rparr>"

definition demo_state :: pairing_state where
  "demo_state = empty_pairing\<lparr>ps_localCredentials :=
     [(''c1'', \<lparr>cr_tokenHash = toy_sha ''kubus_local_1'', cr_label = None, cr_scopes = LOCAL_SCOPES, cr_createdAt = 0,
        cr_lastUsedAt = None, cr_revokedAt = None\<rparr>)]\<rparr>"

definition demo_api :: "int api" where
  "demo_api = \<lparr>ap_pairing = saved_store demo_state, ap_pairingAttempts = pairingAttempts,
     ap_identityProofAttempts = identityProofAttempts, ap_idempotency = new_idem_store 100 4, ap_world = 0\<rparr>"

definition demo_cx :: "int \<Rightarrow> req_context" where
  "demo_cx now = \<lparr>cx_now = now, cx_env1 = quiet_env, cx_env2 = quiet_env, cx_random1 = ''r1'', cx_random2 = ''r2'', cx_uuid = ''u''\<rparr>"

definition demo_peer :: local_peer where
  "demo_peer = \<lparr>lp_kind = Loopback, lp_address = Some ''127.0.0.1'', lp_identityHandshakeComplete = True, lp_sessionId = None\<rparr>"

definition demo_body :: local_body where
  "demo_body = \<lparr>lb_json = (\<lambda>_. Inr (JObj [(''type'', JStr ''spatial.reconstruct'')])), lb_binary = (\<lambda>_. Inr []), lb_stream = ([], None)\<rparr>"

definition demo_request :: local_request where
  "demo_request = \<lparr>rq_method = ''POST'', rq_path = ''/local/v1/jobs'', rq_query = [], rq_credential = Some ''kubus_local_1'',
     rq_idempotencyKey = Some ''capture-0001'', rq_contentType = None, rq_body = demo_body, rq_peer = demo_peer\<rparr>"

lemma demo_run:
  "fst (dispatchLocalRequest demo_deps (demo_cx 1) demo_request demo_api) = Inr (JsonResponse 201 (Some (JNum 1)))"
  "ap_world (snd (dispatchLocalRequest demo_deps (demo_cx 1) demo_request demo_api)) = 1"
  by code_simp+

theorem effects_need_credential_witness:
  "authorized_for toy_sha (Some ''kubus_local_1'') JobsRead demo_state"
proof -
  let ?r = "dispatchLocalRequest demo_deps (demo_cx 1) demo_request demo_api"
  have ready: "store_ready (cx_env1 (demo_cx 1)) (ap_pairing demo_api)"
    by (simp add: demo_cx_def demo_api_def)
  have run: "?r = (fst ?r, snd ?r)" by simp
  have "ap_world (snd ?r) \<noteq> ap_world demo_api" using demo_run(2) by (simp add: demo_api_def)
  from effects_need_credential [OF ready run this]
  have "authorized_for (dp_sha demo_deps) (rq_credential demo_request) (routeScope (rq_path demo_request))
      (p_snapshot (ap_pairing demo_api))" by (auto simp: demo_request_def)
  moreover have "routeScope (rq_path demo_request) = JobsRead" by code_simp
  ultimately show ?thesis by (simp add: demo_deps_def demo_request_def demo_api_def)
qed

text \<open>Another job is created in between; the repetition of the first request creates none.\<close>

definition demo_between :: "(req_context \<times> local_request) list" where
  "demo_between = [(demo_cx 20, demo_request\<lparr>rq_idempotencyKey := Some ''capture-0002''\<rparr>), (demo_cx 30, demo_request)]"

definition demo_after :: "int api" where
  "demo_after = fold (\<lambda>x a. snd (dispatchLocalRequest demo_deps (fst x) (snd x) a)) demo_between
     (snd (dispatchLocalRequest demo_deps (demo_cx 1) demo_request demo_api))"

lemma demo_after_facts:
  "ap_world demo_after = 2"
  "fst (authorize (dp_sha demo_deps) (cx_env1 (demo_cx 50)) (rq_credential demo_request) (routeScope (rq_path demo_request)) (cx_now (demo_cx 50))
     (ap_pairing demo_after)) = Inr True"
  by code_simp+

theorem retried_mutation_applied_once_witness:
  "fst (dispatchLocalRequest demo_deps (demo_cx 50) (demo_request\<lparr>rq_peer := demo_peer, rq_body := demo_body\<rparr>) demo_after)
     = Inr (JsonResponse 201 (Some (JNum 1))) \<and>
   ap_world (snd (dispatchLocalRequest demo_deps (demo_cx 50) (demo_request\<lparr>rq_peer := demo_peer, rq_body := demo_body\<rparr>) demo_after)) = 2"
proof -
  let ?r = "dispatchLocalRequest demo_deps (demo_cx 1) demo_request demo_api"
  let ?r2 = "dispatchLocalRequest demo_deps (demo_cx 50) (demo_request\<lparr>rq_peer := demo_peer, rq_body := demo_body\<rparr>) demo_after"
  have run: "?r = (Inr (JsonResponse 201 (Some (JNum 1))), snd ?r)" using demo_run(1) by (metis prod.collapse)
  have f: "\<not> unkeyed_path (to_upper (rq_method demo_request)) (rq_path demo_request)"
    "to_upper (rq_method demo_request) \<in> set MUTATING_METHODS"
    "normalizeIdempotencyKey (rq_idempotencyKey demo_request) = Some ''capture-0001''"
    "replayable (Some (JsonResponse 201 (Some (JNum 1))))"
    by code_simp+
  have g: "idem_inv (ap_idempotency demo_api)" "jm_get (is_entries (ap_idempotency demo_api)) (scopedKey (dp_sha demo_deps) ''capture-0001'' (rq_credential demo_request)) = None"
    "\<forall>x \<in> set demo_between. cx_now (fst x) < cx_now (demo_cx 1) + is_retentionMs (ap_idempotency demo_api)"
    "length (is_entries (ap_idempotency demo_api)) + length demo_between < is_maxEntries (ap_idempotency demo_api)"
    "cx_now (demo_cx 50) < cx_now (demo_cx 1) + is_retentionMs (ap_idempotency demo_api)"
    by (simp_all add: demo_api_def demo_cx_def demo_between_def) (simp_all add: new_idem_store_def)
  from retried_mutation_applied_once [OF run f(1-3) g(1, 2) f(4) g(3, 4) demo_after_def g(5) prod.collapse [symmetric], where peer = demo_peer and body = demo_body]
    demo_after_facts show ?thesis by (simp add: demo_peer_def)
qed

end
