(* ===== verification/Http_Adapter.thy ===== *)
theory Http_Adapter
  imports Local_Api_Dispatch
begin

text \<open>
  The HTTP transport, \<^verbatim>\<open>src/src/localApi/httpAdapter.ts\<close>: which peers may reach the API
  (\<^verbatim>\<open>classifyPeer\<close>), reading a body from the socket within a limit, and rendering a response. A
  request is given by its parsed URL, its headers (keys in lower case, as Node presents them), the
  peer's address and the chunks the socket delivers. A body is read once per request by the
  dispatcher, so the guard against a second read is not modelled.
\<close>

section \<open>Model\<close>

record http_request =
  hr_method :: "string option"
  hr_path :: string
  hr_query :: "(string, string) jsmap"
  hr_headers :: "(string, string) jsmap"
  hr_remoteAddress :: "string option"
  hr_chunks :: "bytes list"

record http_config =
  hc_localApiAllowLan :: bool
  hc_localApiRemoteUrl :: "string option"
  hc_localApiTrustedProxyAddresses :: "string list"

definition is_ipv4 :: "string \<Rightarrow> bool" where
  "is_ipv4 s \<longleftrightarrow> (let parts = split_on CHR ''.'' s in length parts = 4 \<and> list_all (\<lambda>p. p \<noteq> [] \<and> list_all is_digit p) parts)"

definition normalizePeerAddress :: "string option \<Rightarrow> string" where
  "normalizePeerAddress address =
     (let s0 = to_lower (trim (opt_str address));
          s1 = (case s0 of c # r \<Rightarrow> if c = CHR ''['' then r else s0 | [] \<Rightarrow> []);
          s2 = (if s1 \<noteq> [] \<and> last s1 = CHR '']'' then butlast s1 else s1);
          normalized = hd (split_on CHR ''%'' s2)
      in if starts_with normalized ''::ffff:'' \<and> is_ipv4 (drop 7 normalized) then drop 7 normalized else normalized)"

definition http_peer :: "peer_kind \<Rightarrow> string \<Rightarrow> local_peer" where
  "http_peer kind address =
     \<lparr>lp_kind = kind, lp_address = Some address, lp_identityHandshakeComplete = True, lp_sessionId = None\<rparr>"

definition classifyPeer :: "http_config \<Rightarrow> string option \<Rightarrow> local_peer option" where
  "classifyPeer cfg address =
     (let normalized = normalizePeerAddress address in
      if normalized = ''127.0.0.1'' \<or> normalized = ''::1'' then Some (http_peer Loopback normalized)
      else if hc_localApiAllowLan cfg then Some (http_peer Lan normalized)
      else if opt_str (hc_localApiRemoteUrl cfg) \<noteq> []
              \<and> list_ex (\<lambda>candidate. normalizePeerAddress (Some candidate) = normalized) (hc_localApiTrustedProxyAddresses cfg)
      then Some (http_peer TrustedProxy normalized)
      else None)"

definition isAllowedLocalApiPeer :: "http_config \<Rightarrow> string option \<Rightarrow> bool" where
  "isAllowedLocalApiPeer cfg address \<longleftrightarrow> classifyPeer cfg address \<noteq> None"

definition bearer :: "string option \<Rightarrow> string option" where
  "bearer authorization =
     (let v = opt_str authorization in if starts_with v ''Bearer '' then Some (trim (drop 7 v)) else None)"

fun read_all :: "nat \<Rightarrow> nat \<Rightarrow> bytes list \<Rightarrow> bytes list \<Rightarrow> bytes result" where
  "read_all maxBytes sz chunks [] = Inr (concat chunks)"
| "read_all maxBytes sz chunks (b # src) =
     (if sz + length b > maxBytes then Inl (localError 413 ''request_too_large'')
      else read_all maxBytes (sz + length b) (chunks @ [b]) src)"

definition parse_body :: "bytes \<Rightarrow> json result" where
  "parse_body buffer =
     (case json_parse (str_or (string_of_bytes buffer) ''{}'') of
        None \<Rightarrow> Inl (localError 400 ''json_invalid'') | Some j \<Rightarrow> Inr j)"

definition httpBody :: "bytes list \<Rightarrow> local_body" where
  "httpBody chunks =
     \<lparr>lb_json = (\<lambda>maxBytes. case read_all maxBytes 0 [] chunks of Inl e \<Rightarrow> Inl e | Inr buffer \<Rightarrow> parse_body buffer),
      lb_binary = (\<lambda>maxBytes. case read_all maxBytes 0 [] chunks of
          Inl e \<Rightarrow> Inl e
        | Inr buffer \<Rightarrow> if buffer = [] then Inl (localError 400 ''capture_file_empty'') else Inr buffer),
      lb_stream = (chunks, None)\<rparr>"

definition http_local_request :: "http_request \<Rightarrow> local_peer \<Rightarrow> local_request" where
  "http_local_request req peer =
     \<lparr>rq_method = str_or (opt_str (hr_method req)) ''GET'', rq_path = hr_path req, rq_query = hr_query req,
      rq_credential = bearer (jm_get (hr_headers req) ''authorization''),
      rq_idempotencyKey = jm_get (hr_headers req) ''idempotency-key'',
      rq_contentType = jm_get (hr_headers req) ''content-type'',
      rq_body = httpBody (hr_chunks req), rq_peer = peer\<rparr>"

record http_reply =
  hp_status :: nat
  hp_headers :: "(string \<times> string) list"
  hp_body :: bytes

definition opt_header :: "string \<Rightarrow> string option \<Rightarrow> (string \<times> string) list" where
  "opt_header name v = (if opt_str v = [] then [] else [(name, opt_str v)])"

definition envelope :: "json option \<Rightarrow> json" where
  "envelope v = JObj ([(''success'', JBool True)] @ (case v of None \<Rightarrow> [] | Some j \<Rightarrow> [(''data'', j)]))"

definition security_headers :: "(string \<times> string) list" where
  "security_headers = [(''Access-Control-Allow-Origin'', ''null''), (''Referrer-Policy'', ''no-referrer''),
     (''X-Content-Type-Options'', ''nosniff''), (''Cache-Control'', ''no-store'')]"

definition writeResponse :: "local_response \<Rightarrow> http_reply" where
  "writeResponse response =
     (case response of
        JsonResponse status v \<Rightarrow>
          \<lparr>hp_status = status, hp_headers = [(''Content-Type'', ''application/json; charset=utf-8'')],
           hp_body = bytes_of_string (json_stringify (envelope v) @ [char_of (10::nat)])\<rparr>
      | BytesResponse status contentType body cacheControl sha \<Rightarrow>
          \<lparr>hp_status = status,
           hp_headers = [(''Content-Type'', contentType), (''Content-Length'', digits_of (length body))]
             @ opt_header ''Cache-Control'' cacheControl @ opt_header ''X-Kubus-Content-SHA256'' sha
             @ [(''X-Content-Type-Options'', ''nosniff'')],
           hp_body = body\<rparr>
      | StreamResponse status contentType body contentLength cacheControl sha \<Rightarrow>
          \<lparr>hp_status = status,
           hp_headers = [(''Content-Type'', contentType)]
             @ (case contentLength of None \<Rightarrow> [] | Some n \<Rightarrow> [(''Content-Length'', digits_of n)])
             @ opt_header ''Cache-Control'' cacheControl @ opt_header ''X-Kubus-Content-SHA256'' sha
             @ [(''X-Content-Type-Options'', ''nosniff'')],
           hp_body = concat body\<rparr>)"

text \<open>\<open>None\<close> when the path is not one of this API (\<^verbatim>\<open>handleLocalApi\<close> returns false).\<close>

definition handleLocalApi ::
  "http_config \<Rightarrow> 'w deps \<Rightarrow> req_context \<Rightarrow> http_request \<Rightarrow> 'w api \<Rightarrow> http_reply result option \<times> 'w api" where
  "handleLocalApi hc d cx req a =
     (if \<not> starts_with (hr_path req) local_root then (None, a)
      else if opt_str (jm_get (hr_headers req) ''origin'') \<noteq> [] then (Some (Inl (localError 403 ''browser_origin_not_allowed'')), a)
      else case classifyPeer hc (hr_remoteAddress req) of
             None \<Rightarrow> (Some (Inl (localError 403 ''lan_api_disabled'')), a)
           | Some peer \<Rightarrow>
               (case dispatchLocalRequest d cx (http_local_request req peer) a of
                  (Inl e, a1) \<Rightarrow> (Some (Inl e), a1)
                | (Inr response, a1) \<Rightarrow> (Some (Inr (writeResponse response)), a1)))"

section \<open>Bodies\<close>

text \<open>
  What every transport's body owes the routes: bytes handed over by \<^verbatim>\<open>binary(maxBytes)\<close> are within
  the limit and not empty, and a body that is refused is refused with a typed error.
\<close>

locale bounded_body =
  fixes body :: "'t \<Rightarrow> local_body" and content :: "'t \<Rightarrow> bytes"
  assumes binary_ok: "lb_binary (body t) n = Inr bs \<Longrightarrow> bs = content t \<and> length bs \<le> n \<and> bs \<noteq> []"
    and binary_complete: "content t \<noteq> [] \<Longrightarrow> length (content t) \<le> n \<Longrightarrow> lb_binary (body t) n = Inr (content t)"
begin

lemma binary_iff: "(\<exists>bs. lb_binary (body t) n = Inr bs) \<longleftrightarrow> content t \<noteq> [] \<and> length (content t) \<le> n"
  by (blast dest: binary_ok intro: binary_complete)

lemma binary_monotone:
  assumes "n \<le> m" and "lb_binary (body t) n = Inr bs"
  shows "lb_binary (body t) m = Inr bs"
proof -
  from binary_ok [OF assms(2)] have "bs = content t" "length (content t) \<le> m" "content t \<noteq> []"
    using assms(1) by auto
  then show ?thesis by (simp add: binary_complete)
qed

end

lemma read_all_spec:
  "sz = length (concat chunks) \<Longrightarrow> sz \<le> n \<Longrightarrow>
    read_all n sz chunks src =
      (if sz + length (concat src) \<le> n then Inr (concat chunks @ concat src) else Inl (localError 413 ''request_too_large''))"
proof (induction src arbitrary: sz chunks)
  case (Cons b src)
  show ?case
    using Cons.IH [of "sz + length b" "chunks @ [b]"] Cons.prems by simp
qed simp

lemma read_all_whole:
  "read_all n 0 [] src = (if length (concat src) \<le> n then Inr (concat src) else Inl (localError 413 ''request_too_large''))"
  using read_all_spec [of 0 "[]" n src] by simp

interpretation http_body: bounded_body httpBody concat
  by unfold_locales (auto simp: httpBody_def read_all_whole split: if_splits)

section \<open>Properties\<close>

text \<open>
  A JSON body over the limit is refused before it is parsed: over HTTP, \<^verbatim>\<open>json(maxBytes)\<close> gives
  exactly the parse of the whole body when that has at most \<^verbatim>\<open>maxBytes\<close> bytes, and 413 otherwise,
  however the socket cuts the body into chunks.
\<close>
theorem http_json_limited:
  "lb_json (httpBody chunks) n =
    (if length (concat chunks) \<le> n then parse_body (concat chunks) else Inl (LocalError 413 ''request_too_large''))"
  by (simp add: httpBody_def read_all_whole localError_def)

text \<open>
  Who may reach the HTTP listener. A request that carries an Origin, or comes from a peer that is
  neither loopback nor, with LAN access off, a configured trusted proxy, gets 403 and changes
  nothing at all: no limiter, no store, no service.
\<close>
theorem http_peer_gate:
  assumes "starts_with (hr_path req) local_root"
    and "opt_str (jm_get (hr_headers req) ''origin'') \<noteq> [] \<or>
      (normalizePeerAddress (hr_remoteAddress req) \<notin> {''127.0.0.1'', ''::1''} \<and> \<not> hc_localApiAllowLan hc \<and>
       (opt_str (hc_localApiRemoteUrl hc) = [] \<or>
        normalizePeerAddress (hr_remoteAddress req) \<notin>
          (\<lambda>c. normalizePeerAddress (Some c)) ` set (hc_localApiTrustedProxyAddresses hc)))"
  shows "\<exists>code. handleLocalApi hc d cx req a = (Some (Inl (LocalError 403 code)), a)"
proof (cases "opt_str (jm_get (hr_headers req) ''origin'') = []")
  case True
  then have "classifyPeer hc (hr_remoteAddress req) = None"
    using assms(2) by (auto simp: classifyPeer_def Let_def list_ex_iff image_iff)
  then show ?thesis using True assms(1) by (simp add: handleLocalApi_def localError_def)
qed (use assms(1) in \<open>simp add: handleLocalApi_def localError_def\<close>)

definition demo_http_config :: http_config where
  "demo_http_config = \<lparr>hc_localApiAllowLan = False, hc_localApiRemoteUrl = None, hc_localApiTrustedProxyAddresses = []\<rparr>"

definition demo_http_request :: http_request where
  "demo_http_request = \<lparr>hr_method = None, hr_path = ''/local/v1/info'', hr_query = [], hr_headers = [],
     hr_remoteAddress = Some ''::ffff:192.168.1.7'', hr_chunks = []\<rparr>"

theorem http_peer_gate_witness:
  "\<exists>code. handleLocalApi demo_http_config demo_deps (demo_cx 1) demo_http_request demo_api
     = (Some (Inl (LocalError 403 code)), demo_api)"
proof (rule http_peer_gate)
  show "starts_with (hr_path demo_http_request) local_root" by code_simp
  have "normalizePeerAddress (hr_remoteAddress demo_http_request) = ''192.168.1.7''" by code_simp
  then show "opt_str (jm_get (hr_headers demo_http_request) ''origin'') \<noteq> [] \<or>
    (normalizePeerAddress (hr_remoteAddress demo_http_request) \<notin> {''127.0.0.1'', ''::1''} \<and> \<not> hc_localApiAllowLan demo_http_config \<and>
     (opt_str (hc_localApiRemoteUrl demo_http_config) = [] \<or>
      normalizePeerAddress (hr_remoteAddress demo_http_request) \<notin>
        (\<lambda>c. normalizePeerAddress (Some c)) ` set (hc_localApiTrustedProxyAddresses demo_http_config)))"
    by (simp add: demo_http_config_def)
qed

end
