(* ===== verification/Frame_Codec.thy ===== *)
theory Frame_Codec
  imports Json_Text
begin

text \<open>
  The wire format of the WebRTC data channel, \<^verbatim>\<open>src/src/webrtc/frameCodec.ts\<close>: the frame header
  and its limits, \<open>encode_frame\<close> and \<open>decode_frame\<close>, the table-driven CRC-32, the generator
  that splits a byte stream into frames and the reassembler that puts it back together.

  A JavaScript number is an \<^typ>\<open>int\<close>; \<^verbatim>\<open>n >>> 0\<close> and \<^verbatim>\<open>n & 0xff\<close> are its residues modulo
  \<open>2 ^ 32\<close> and \<open>2 ^ 8\<close>; the CRC register is a 32-bit word. The loop of \<open>splitIntoFrames\<close> does
  not end for a chunk size of 0, so it is a partial function, \<open>None\<close> standing for "does not
  return"; \<open>split_into_frames_total\<close> shows that it returns for every positive size.
\<close>

unbundle bit_operations_syntax

section \<open>Frames\<close>

definition FRAME_MAGIC :: nat where "FRAME_MAGIC = 0x6b"
definition FRAME_PROTOCOL_VERSION :: nat where "FRAME_PROTOCOL_VERSION = 1"
definition FRAME_HEADER_LENGTH :: nat where "FRAME_HEADER_LENGTH = 16"
definition MAX_PAYLOAD_LENGTH :: nat where "MAX_PAYLOAD_LENGTH = 64 * 1024"
definition MAX_METADATA_LENGTH :: nat where "MAX_METADATA_LENGTH = 16 * 1024"
definition FLAG_FINAL :: nat where "FLAG_FINAL = 1"

lemmas frame_constants =
  FRAME_MAGIC_def FRAME_PROTOCOL_VERSION_def FRAME_HEADER_LENGTH_def
  MAX_PAYLOAD_LENGTH_def MAX_METADATA_LENGTH_def FLAG_FINAL_def

datatype frame_type =
    RequestHead | RequestChunk | ResponseHead | ResponseChunk | Cancel | WindowUpdate | ErrorFrame

fun type_code :: "frame_type \<Rightarrow> nat" where
  "type_code RequestHead = 1"
| "type_code RequestChunk = 2"
| "type_code ResponseHead = 3"
| "type_code ResponseChunk = 4"
| "type_code Cancel = 5"
| "type_code WindowUpdate = 6"
| "type_code ErrorFrame = 7"

definition FRAME_TYPES :: "frame_type list" where
  "FRAME_TYPES = [RequestHead, RequestChunk, ResponseHead, ResponseChunk, Cancel, WindowUpdate, ErrorFrame]"

definition type_of_code :: "nat \<Rightarrow> frame_type option" where
  "type_of_code n = find (\<lambda>t. type_code t = n) FRAME_TYPES"

record kubus_frame =
  fr_type :: frame_type
  fr_requestId :: int
  fr_flags :: int
  fr_metadata :: "json_object option"
  fr_payload :: "bytes option"

datatype frame_error = FrameError string | FrameVersionError nat

text \<open>\<^verbatim>\<open>writeUInt8\<close>, \<^verbatim>\<open>writeUInt32BE\<close> and their reads.\<close>

definition write_u8 :: "nat \<Rightarrow> bytes" where
  "write_u8 n = [of_nat n]"

definition write_u32 :: "nat \<Rightarrow> bytes" where
  "write_u32 n = [of_nat (n div 16777216), of_nat (n div 65536 mod 256), of_nat (n div 256 mod 256), of_nat (n mod 256)]"

definition read_u8 :: "bytes \<Rightarrow> nat \<Rightarrow> nat" where
  "read_u8 bs i = unat (bs ! i)"

definition read_u32 :: "bytes \<Rightarrow> nat \<Rightarrow> nat" where
  "read_u32 bs i = ((read_u8 bs i * 256 + read_u8 bs (i + 1)) * 256 + read_u8 bs (i + 2)) * 256 + read_u8 bs (i + 3)"

definition metadata_bytes :: "json_object option \<Rightarrow> bytes" where
  "metadata_bytes md = (case md of None \<Rightarrow> [] | Some m \<Rightarrow> bytes_of_string (json_stringify (JObj m)))"

definition payload_bytes :: "bytes option \<Rightarrow> bytes" where
  "payload_bytes p = (case p of None \<Rightarrow> [] | Some b \<Rightarrow> b)"

definition encode_frame :: "kubus_frame \<Rightarrow> frame_error + bytes" where
  "encode_frame frame =
     (let metadataBytes = metadata_bytes (fr_metadata frame);
          payload = payload_bytes (fr_payload frame)
      in if length metadataBytes > MAX_METADATA_LENGTH then Inl (FrameError ''metadata exceeds 16384 bytes'')
         else if length payload > MAX_PAYLOAD_LENGTH then Inl (FrameError ''payload exceeds 65536 bytes'')
         else Inr (write_u8 FRAME_MAGIC @ write_u8 FRAME_PROTOCOL_VERSION @ write_u8 (type_code (fr_type frame))
                   @ write_u8 (nat (fr_flags frame mod 256)) @ write_u32 (nat (fr_requestId frame mod 2 ^ 32))
                   @ write_u32 (length metadataBytes) @ write_u32 (length payload)
                   @ metadataBytes @ payload))"

definition decode_metadata :: "bytes \<Rightarrow> frame_error + json_object" where
  "decode_metadata bs =
     (case json_parse (string_of_bytes bs) of
        None \<Rightarrow> Inl (FrameError ''metadata is not valid JSON'')
      | Some (JObj m) \<Rightarrow> Inr m
      | Some _ \<Rightarrow> Inl (FrameError ''metadata is not an object''))"

definition decode_frame :: "bytes \<Rightarrow> frame_error + kubus_frame" where
  "decode_frame bs =
     (if length bs < FRAME_HEADER_LENGTH then Inl (FrameError ''frame shorter than header'')
      else if read_u8 bs 0 \<noteq> FRAME_MAGIC then Inl (FrameError ''not a kubus frame'')
      else if read_u8 bs 1 \<noteq> FRAME_PROTOCOL_VERSION then Inl (FrameVersionError (read_u8 bs 1))
      else (case type_of_code (read_u8 bs 2) of
              None \<Rightarrow> Inl (FrameError (''unknown frame type '' @ digits_of (read_u8 bs 2)))
            | Some rawType \<Rightarrow>
                (let flags = read_u8 bs 3; requestId = read_u32 bs 4;
                     metadataLength = read_u32 bs 8; payloadLength = read_u32 bs 12
                 in if metadataLength > MAX_METADATA_LENGTH \<or> payloadLength > MAX_PAYLOAD_LENGTH
                    then Inl (FrameError ''declared length exceeds limit'')
                    else if length bs \<noteq> FRAME_HEADER_LENGTH + metadataLength + payloadLength
                    then Inl (FrameError ''declared length does not match frame size'')
                    else (case (if metadataLength = 0 then Inr None
                                else map_sum id Some (decode_metadata (take metadataLength (drop FRAME_HEADER_LENGTH bs)))) of
                            Inl e \<Rightarrow> Inl e
                          | Inr metadata \<Rightarrow>
                              Inr \<lparr>fr_type = rawType, fr_requestId = int requestId, fr_flags = int flags,
                                   fr_metadata = metadata,
                                   fr_payload = (if payloadLength = 0 then None
                                                 else Some (drop (FRAME_HEADER_LENGTH + metadataLength) bs))\<rparr>))))"

definition isFinalFrame :: "kubus_frame \<Rightarrow> bool" where
  "isFinalFrame frame \<longleftrightarrow> fr_flags frame mod 2 \<noteq> 0"

section \<open>CRC-32\<close>

type_synonym crc = "32 word"

definition CRC_POLY :: crc where "CRC_POLY = 0xedb88320"

definition crc_step :: "crc \<Rightarrow> crc" where
  "crc_step c = (if c AND 1 \<noteq> 0 then CRC_POLY XOR drop_bit 1 c else drop_bit 1 c)"

definition crc_table :: "crc list" where
  "crc_table = map (\<lambda>i. (crc_step ^^ 8) (of_nat i)) [0..<256]"

definition crc_init :: crc where
  "crc_init = 0xffffffff"

definition crc_update :: "crc \<Rightarrow> byte \<Rightarrow> crc" where
  "crc_update c b = (crc_table ! unat ((c XOR ucast b) AND 0xff)) XOR drop_bit 8 c"

definition crc_add :: "crc \<Rightarrow> bytes \<Rightarrow> crc" where
  "crc_add c bs = foldl crc_update c bs"

definition crc_value :: "crc \<Rightarrow> crc" where
  "crc_value c = c XOR 0xffffffff"

section \<open>Splitting a stream into frames\<close>

text \<open>The inner \<^verbatim>\<open>while\<close>: as long as a whole chunk is pending, hash it, count it, yield it.\<close>

partial_function (option) drain ::
  "nat \<Rightarrow> crc \<Rightarrow> nat \<Rightarrow> bytes \<Rightarrow> bytes list \<Rightarrow> (crc \<times> nat \<times> bytes \<times> bytes list) option" where
  "drain chunkSize c tot pending out =
     (if chunkSize \<le> length pending
      then drain chunkSize (crc_add c (take chunkSize pending))
             (tot + length (take chunkSize pending)) (drop chunkSize pending)
             (out @ [take chunkSize pending])
      else Some (c, tot, pending, out))"

fun split_source ::
  "nat \<Rightarrow> crc \<times> nat \<times> bytes \<times> bytes list \<Rightarrow> bytes list \<Rightarrow> (crc \<times> nat \<times> bytes \<times> bytes list) option" where
  "split_source chunkSize st [] = Some st"
| "split_source chunkSize (c, tot, pending, out) (b # src) =
     Option.bind (drain chunkSize c tot (pending @ b) out) (\<lambda>st. split_source chunkSize st src)"

definition chunk_frame :: "int \<Rightarrow> frame_type \<Rightarrow> bytes \<Rightarrow> kubus_frame" where
  "chunk_frame requestId type chunk =
     \<lparr>fr_type = type, fr_requestId = requestId, fr_flags = 0, fr_metadata = None, fr_payload = Some chunk\<rparr>"

definition final_frame :: "int \<Rightarrow> frame_type \<Rightarrow> nat \<Rightarrow> crc \<Rightarrow> bytes \<Rightarrow> kubus_frame" where
  "final_frame requestId type tot c pending =
     \<lparr>fr_type = type, fr_requestId = requestId, fr_flags = int FLAG_FINAL,
      fr_metadata = Some [(''length'', JNum (int tot)), (''crc32'', JNum (uint (crc_value c)))],
      fr_payload = (if pending = [] then None else Some pending)\<rparr>"

definition split_into_frames :: "int \<Rightarrow> bytes list \<Rightarrow> frame_type \<Rightarrow> nat \<Rightarrow> kubus_frame list option" where
  "split_into_frames requestId source type chunkSize =
     (case split_source chunkSize (crc_init, 0, [], []) source of
        None \<Rightarrow> None
      | Some (c, tot, pending, out) \<Rightarrow>
          Some (map (chunk_frame requestId type) out
                @ [final_frame requestId type (tot + length pending) (crc_add c pending) pending]))"

section \<open>Reassembly\<close>

datatype stream_error = BodyTooLarge | LengthMismatch json nat | ChecksumMismatch

record reassembler =
  rs_chunks :: "bytes list"
  rs_crc :: crc
  rs_received :: nat
  rs_maxBytes :: nat

definition new_reassembler :: "nat \<Rightarrow> reassembler" where
  "new_reassembler maxBytes = \<lparr>rs_chunks = [], rs_crc = crc_init, rs_received = 0, rs_maxBytes = maxBytes\<rparr>"

definition rs_append :: "bytes option \<Rightarrow> reassembler \<Rightarrow> (stream_error + unit) \<times> reassembler" where
  "rs_append payload r =
     (let p = payload_bytes payload in
      if p = [] then (Inr (), r)
      else (let r1 = r\<lparr>rs_received := rs_received r + length p\<rparr> in
            if rs_received r1 > rs_maxBytes r1 then (Inl BodyTooLarge, r1)
            else (Inr (), r1\<lparr>rs_crc := crc_add (rs_crc r1) p, rs_chunks := rs_chunks r1 @ [p]\<rparr>)))"

fun is_number :: "json option \<Rightarrow> bool" where
  "is_number (Some (JNum _)) \<longleftrightarrow> True"
| "is_number (Some (JDec _ _)) \<longleftrightarrow> True"
| "is_number _ \<longleftrightarrow> False"

definition rs_verify :: "json_object option \<Rightarrow> reassembler \<Rightarrow> stream_error + unit" where
  "rs_verify metadata r =
     (case metadata of
        None \<Rightarrow> Inr ()
      | Some m \<Rightarrow>
          (let declaredLength = jm_get m ''length''; declaredCrc = jm_get m ''crc32'' in
           if is_number declaredLength \<and> declaredLength \<noteq> Some (JNum (int (rs_received r)))
           then Inl (LengthMismatch (the declaredLength) (rs_received r))
           else if is_number declaredCrc \<and> declaredCrc \<noteq> Some (JNum (uint (crc_value (rs_crc r))))
           then Inl ChecksumMismatch
           else Inr ()))"

text \<open>\<^verbatim>\<open>Buffer.concat(chunks, received)\<close> cuts or zero-fills to the given length.\<close>

definition rs_take :: "reassembler \<Rightarrow> bytes" where
  "rs_take r = take (rs_received r) (concat (rs_chunks r) @ replicate (rs_received r) 0)"

section \<open>Encoding and decoding are inverse\<close>

lemma unat_of_nat_byte: "n < 256 \<Longrightarrow> unat (of_nat n :: byte) = n"
  by (simp add: unat_of_nat)

lemma write_u8_length [simp]: "length (write_u8 n) = 1"
  by (simp add: write_u8_def)

lemma write_u32_length [simp]: "length (write_u32 n) = 4"
  by (simp add: write_u32_def)

lemma read_u8_at: "length p = i \<Longrightarrow> n < 256 \<Longrightarrow> read_u8 (p @ write_u8 n @ s) i = n"
  by (simp add: read_u8_def write_u8_def nth_append unat_of_nat_byte)

lemma read_u32_at:
  assumes "length p = i" and "n < 2 ^ 32"
  shows "read_u32 (p @ write_u32 n @ s) i = n"
proof -
  let ?a = "n div 16777216" and ?b = "n div 65536 mod 256" and ?c = "n div 256 mod 256" and ?d = "n mod 256"
  have u: "unat (of_nat ?a :: byte) = ?a" "unat (of_nat ?b :: byte) = ?b"
    "unat (of_nat ?c :: byte) = ?c" "unat (of_nat ?d :: byte) = ?d"
    using assms(2) by (intro unat_of_nat_byte; simp)+
  have at: "(p @ write_u32 n @ s) ! i = of_nat ?a" "(p @ write_u32 n @ s) ! (i + 1) = of_nat ?b"
    "(p @ write_u32 n @ s) ! (i + 2) = of_nat ?c" "(p @ write_u32 n @ s) ! (i + 3) = of_nat ?d"
    using assms(1) by (simp_all add: write_u32_def nth_append)
  have "?a * 256 + ?b = n div 65536"
    using div_mult_mod_eq [of "n div 65536" 256] by (simp add: div_mult2_eq [symmetric])
  moreover have "n div 65536 * 256 + ?c = n div 256"
    using div_mult_mod_eq [of "n div 256" 256] by (simp add: div_mult2_eq [symmetric])
  ultimately have "((?a * 256 + ?b) * 256 + ?c) * 256 + ?d = n"
    by (simp add: div_mult_mod_eq)
  then show ?thesis by (simp only: read_u32_def read_u8_def at u)
qed

lemma read_u8_bound: "read_u8 bs i < 256"
proof -
  have "unat (bs ! i) < 2 ^ LENGTH(8)" by (rule unsigned_less)
  then show ?thesis by (simp add: read_u8_def)
qed

lemma read_u32_bound: "read_u32 bs i < 2 ^ 32"
  using read_u8_bound [of bs i] read_u8_bound [of bs "i + 1"] read_u8_bound [of bs "i + 2"]
    read_u8_bound [of bs "i + 3"]
  by (simp add: read_u32_def)

lemma type_code_bound: "type_code t < 256"
  by (cases t) auto

lemma type_of_type_code [simp]: "type_of_code (type_code t) = Some t"
  by (cases t) (simp_all add: type_of_code_def FRAME_TYPES_def)

text \<open>The header of a frame whose metadata and payload have the given lengths.\<close>

definition frame_header :: "kubus_frame \<Rightarrow> nat \<Rightarrow> nat \<Rightarrow> bytes" where
  "frame_header f m p = write_u8 FRAME_MAGIC @ write_u8 FRAME_PROTOCOL_VERSION @ write_u8 (type_code (fr_type f))
     @ write_u8 (nat (fr_flags f mod 256)) @ write_u32 (nat (fr_requestId f mod 2 ^ 32)) @ write_u32 m @ write_u32 p"

lemma frame_header_length [simp]: "length (frame_header f m p) = FRAME_HEADER_LENGTH"
  by (simp add: frame_header_def FRAME_HEADER_LENGTH_def)

lemma encode_frame_Inr:
  "encode_frame f = Inr bs \<longleftrightarrow>
     length (metadata_bytes (fr_metadata f)) \<le> MAX_METADATA_LENGTH \<and>
     length (payload_bytes (fr_payload f)) \<le> MAX_PAYLOAD_LENGTH \<and>
     bs = frame_header f (length (metadata_bytes (fr_metadata f))) (length (payload_bytes (fr_payload f)))
          @ metadata_bytes (fr_metadata f) @ payload_bytes (fr_payload f)"
  by (auto simp: encode_frame_def frame_header_def Let_def)

lemma frame_header_reads:
  assumes "m < 2 ^ 32" and "p < 2 ^ 32"
  shows "read_u8 (frame_header f m p @ s) 0 = FRAME_MAGIC"
    and "read_u8 (frame_header f m p @ s) 1 = FRAME_PROTOCOL_VERSION"
    and "read_u8 (frame_header f m p @ s) 2 = type_code (fr_type f)"
    and "read_u8 (frame_header f m p @ s) 3 = nat (fr_flags f mod 256)"
    and "read_u32 (frame_header f m p @ s) 4 = nat (fr_requestId f mod 2 ^ 32)"
    and "read_u32 (frame_header f m p @ s) 8 = m"
    and "read_u32 (frame_header f m p @ s) 12 = p"
proof -
  let ?ty = "type_code (fr_type f)" and ?fl = "nat (fr_flags f mod 256)"
  let ?id = "nat (fr_requestId f mod 2 ^ 32)"
  let ?h = "frame_header f m p @ s"
  have fl: "?fl < 256" and id: "?id < 2 ^ 32"
    by (simp_all add: nat_less_iff)
  show "read_u8 ?h 0 = FRAME_MAGIC"
    using read_u8_at [of "[]" 0 FRAME_MAGIC] by (simp add: frame_header_def FRAME_MAGIC_def)
  show "read_u8 ?h 1 = FRAME_PROTOCOL_VERSION"
    using read_u8_at [of "write_u8 FRAME_MAGIC" 1 FRAME_PROTOCOL_VERSION]
    by (simp add: frame_header_def FRAME_PROTOCOL_VERSION_def)
  show "read_u8 ?h 2 = ?ty"
    using read_u8_at [of "write_u8 FRAME_MAGIC @ write_u8 FRAME_PROTOCOL_VERSION" 2 ?ty]
    by (simp add: frame_header_def type_code_bound)
  show "read_u8 ?h 3 = ?fl"
    using read_u8_at [of "write_u8 FRAME_MAGIC @ write_u8 FRAME_PROTOCOL_VERSION @ write_u8 ?ty" 3 ?fl] fl
    by (simp add: frame_header_def)
  show "read_u32 ?h 4 = ?id"
    using read_u32_at [of "write_u8 FRAME_MAGIC @ write_u8 FRAME_PROTOCOL_VERSION @ write_u8 ?ty @ write_u8 ?fl" 4 ?id] id
    by (simp add: frame_header_def)
  show "read_u32 ?h 8 = m"
    using read_u32_at [of "write_u8 FRAME_MAGIC @ write_u8 FRAME_PROTOCOL_VERSION @ write_u8 ?ty @ write_u8 ?fl
      @ write_u32 ?id" 8 m] assms by (simp add: frame_header_def)
  show "read_u32 ?h 12 = p"
    using read_u32_at [of "write_u8 FRAME_MAGIC @ write_u8 FRAME_PROTOCOL_VERSION @ write_u8 ?ty @ write_u8 ?fl
      @ write_u32 ?id @ write_u32 m" 12 p] assms by (simp add: frame_header_def)
qed

lemma decode_metadata_bytes:
  "wf_json (JObj m) \<Longrightarrow> decode_metadata (bytes_of_string (json_stringify (JObj m))) = Inr m"
  by (simp add: decode_metadata_def json_roundtrip del: json_stringify.simps)

lemma stringify_obj_nonempty: "json_stringify (JObj m) \<noteq> []"
  by (cases m) auto

lemma metadata_bytes_empty: "metadata_bytes md = [] \<longleftrightarrow> md = None"
proof (cases md)
  case (Some m)
  then show ?thesis
    by (cases m) (auto simp: metadata_bytes_def bytes_of_string_def)
qed (simp add: metadata_bytes_def)

text \<open>What survives the wire: the identifier modulo \<open>2 ^ 32\<close>, the flags modulo 256, an empty payload
  read back as an absent one. \<open>wf_frame\<close> asks that the metadata be printable.\<close>

definition wire_frame :: "kubus_frame \<Rightarrow> kubus_frame" where
  "wire_frame f = f\<lparr>fr_requestId := fr_requestId f mod 2 ^ 32, fr_flags := fr_flags f mod 256,
     fr_payload := (if payload_bytes (fr_payload f) = [] then None else fr_payload f)\<rparr>"

definition wf_frame :: "kubus_frame \<Rightarrow> bool" where
  "wf_frame f \<longleftrightarrow> (case fr_metadata f of None \<Rightarrow> True | Some m \<Rightarrow> wf_json (JObj m))"

lemma decode_encode:
  assumes "encode_frame f = Inr bs" and "wf_frame f"
  shows "decode_frame bs = Inr (wire_frame f)"
proof -
  define mb where "mb = metadata_bytes (fr_metadata f)"
  define pb where "pb = payload_bytes (fr_payload f)"
  from assms(1) have len: "length mb \<le> MAX_METADATA_LENGTH" "length pb \<le> MAX_PAYLOAD_LENGTH"
    and bs: "bs = frame_header f (length mb) (length pb) @ mb @ pb"
    unfolding encode_frame_Inr mb_def pb_def by simp_all
  have small: "length mb < 2 ^ 32" "length pb < 2 ^ 32"
    using len by (simp_all add: frame_constants)
  note reads = frame_header_reads [OF small, of f "mb @ pb", folded bs]
  have size: "length bs = FRAME_HEADER_LENGTH + length mb + length pb"
    by (simp add: bs)
  have meta: "(if length mb = 0 then Inr None
      else map_sum id Some (decode_metadata (take (length mb) (drop FRAME_HEADER_LENGTH bs)))) = Inr (fr_metadata f)"
    using assms(2) metadata_bytes_empty [of "fr_metadata f"]
    by (cases "fr_metadata f")
      (auto simp: bs mb_def wf_frame_def metadata_bytes_def decode_metadata_bytes stringify_obj_nonempty
        simp del: json_stringify.simps)
  have pay: "(if length pb = 0 then None else Some (drop (FRAME_HEADER_LENGTH + length mb) bs))
      = fr_payload (wire_frame f)"
    by (cases "fr_payload f") (auto simp: bs pb_def wire_frame_def payload_bytes_def)
  show ?thesis
    unfolding decode_frame_def
    using len size meta pay by (simp add: reads reads(2) [unfolded One_nat_def] Let_def) (simp add: wire_frame_def)
qed

lemma decode_frame_Inr:
  assumes "decode_frame bs = Inr f"
  shows "\<exists>m p. m \<le> MAX_METADATA_LENGTH \<and> p \<le> MAX_PAYLOAD_LENGTH \<and>
           length bs = FRAME_HEADER_LENGTH + m + p \<and>
           length (payload_bytes (fr_payload f)) = p \<and>
           0 \<le> fr_requestId f \<and> fr_requestId f < 2 ^ 32 \<and> 0 \<le> fr_flags f \<and> fr_flags f < 256"
proof -
  let ?m = "read_u32 bs 8" and ?p = "read_u32 bs 12"
  from assms obtain t md where lim: "?m \<le> MAX_METADATA_LENGTH" "?p \<le> MAX_PAYLOAD_LENGTH"
    and len: "length bs = FRAME_HEADER_LENGTH + ?m + ?p"
    and f: "f = \<lparr>fr_type = t, fr_requestId = int (read_u32 bs 4), fr_flags = int (read_u8 bs 3),
        fr_metadata = md, fr_payload = (if ?p = 0 then None else Some (drop (FRAME_HEADER_LENGTH + ?m) bs))\<rparr>"
    by (auto simp: decode_frame_def Let_def split: if_splits option.splits sum.splits)
  have "length (payload_bytes (fr_payload f)) = ?p"
    using len by (simp add: f payload_bytes_def)
  moreover have "int (read_u32 bs 4) < 2 ^ 32" and "int (read_u8 bs 3) < 256"
    using read_u32_bound [of bs 4] read_u8_bound [of bs 3] by simp_all
  ultimately show ?thesis
    using lim len by (intro exI [of _ ?m] exI [of _ ?p]) (simp add: f)
qed

section \<open>The table-driven CRC is the bitwise one\<close>

text \<open>The reference: fold a byte into the low end of the register and divide bit by bit.\<close>

definition crc_update_bitwise :: "crc \<Rightarrow> byte \<Rightarrow> crc" where
  "crc_update_bitwise c b = (crc_step ^^ 8) (c XOR ucast b)"

definition crc_add_bitwise :: "crc \<Rightarrow> bytes \<Rightarrow> crc" where
  "crc_add_bitwise c bs = foldl crc_update_bitwise c bs"

lemma and_one_odd: "(c :: crc) AND 1 \<noteq> 0 \<longleftrightarrow> odd c"
  by (simp add: and_one_eq odd_iff_mod_2_eq_one)

lemma crc_step_alt: "crc_step c = (if odd c then CRC_POLY else 0) XOR drop_bit 1 c"
  by (simp add: crc_step_def and_one_odd)

lemma odd_xor: "odd (a XOR b :: crc) \<longleftrightarrow> odd a \<noteq> odd b"
  by (simp add: even_xor_iff)

lemma drop_bit_xor_crc: "drop_bit n (a XOR b :: crc) = drop_bit n a XOR drop_bit n b"
  by (rule drop_bit_xor)

lemma if_xor: "(if p \<noteq> q then x else 0) = (if p then x else 0) XOR (if q then (x :: crc) else 0)"
  by (cases p; cases q) simp_all

lemma crc_step_xor: "crc_step (a XOR b) = crc_step a XOR crc_step b"
  unfolding crc_step_alt drop_bit_xor_crc odd_xor if_xor
  by (simp only: ac_simps)

lemma crc_steps_xor: "(crc_step ^^ n) (a XOR b) = (crc_step ^^ n) a XOR (crc_step ^^ n) b"
  by (induction n) (simp_all add: crc_step_xor)

lemma crc_steps_shift:
  assumes "\<forall>i < n. \<not> bit (c :: crc) i"
  shows "(crc_step ^^ n) c = drop_bit n c"
  using assms
proof (induction n)
  case 0
  then show ?case by simp
next
  case (Suc n)
  then have "(crc_step ^^ n) c = drop_bit n c" by simp
  moreover have "even (drop_bit n c)"
    using Suc.prems by (auto simp: bit_iff_odd_drop_bit)
  ultimately show ?case
    using crc_step_alt [of "drop_bit n c"] by (simp add: drop_bit_drop_bit)
qed

lemma crc_table_nth: "n < 256 \<Longrightarrow> crc_table ! n = (crc_step ^^ 8) (of_nat n)"
  by (simp add: crc_table_def del: funpow.simps)

lemma crc_update_bitwise_eq: "crc_update c b = crc_update_bitwise c b"
proof -
  let ?x = "c XOR ucast b" and ?m = "0xff :: crc"
  have m: "bit ?m i \<longleftrightarrow> i < 8" for i
  proof -
    have "?m = mask 8" by (simp add: mask_eq_exp_minus_1)
    then have "bit ?m i \<longleftrightarrow> bit (mask 8 :: crc) i" by (simp only:)
    also have "\<dots> \<longleftrightarrow> i < 8" unfolding bit_mask_iff by auto
    finally show ?thesis .
  qed
  have split: "?x = (?x AND ?m) XOR (?x AND NOT ?m)"
    by (rule bit_eqI) (auto simp: bit_simps)
  have hi: "(crc_step ^^ 8) (?x AND NOT ?m) = drop_bit 8 (?x AND NOT ?m)"
    by (rule crc_steps_shift) (simp only: bit_and_iff bit_not_iff m, simp)
  also have "\<dots> = drop_bit 8 c"
    by (rule bit_eqI) (simp only: bit_drop_bit_eq bit_and_iff bit_not_iff bit_xor_iff m comp_def,
      auto simp: bit_ucast_iff dest: bit_imp_le_length)
  finally have hi': "(crc_step ^^ 8) (?x AND NOT ?m) = drop_bit 8 c" .
  have "?x AND ?m = take_bit 8 ?x"
    by (simp add: take_bit_eq_mask mask_eq_exp_minus_1)
  then have lt: "unat (?x AND ?m) < 256"
    using take_bit_nat_less_exp [of 8 "unat ?x"] by (simp only: unsigned_take_bit_eq) simp
  have "crc_update_bitwise c b = (crc_step ^^ 8) (?x AND ?m) XOR drop_bit 8 c"
    unfolding crc_update_bitwise_def by (subst split) (simp only: crc_steps_xor hi')
  also have "(crc_step ^^ 8) (?x AND ?m) = crc_table ! unat (?x AND ?m)"
    using crc_table_nth [OF lt] by (simp del: funpow.simps)
  finally show ?thesis by (simp only: crc_update_def)
qed

lemma crc_add_bitwise_eq: "crc_add c bs = crc_add_bitwise c bs"
proof -
  have "crc_update = crc_update_bitwise"
    by (intro ext) (rule crc_update_bitwise_eq)
  then show ?thesis by (simp only: crc_add_def crc_add_bitwise_def)
qed

lemma crc_add_append: "crc_add c (xs @ ys) = crc_add (crc_add c xs) ys"
  by (simp add: crc_add_def)

lemma crc_add_Nil [simp]: "crc_add c [] = c"
  by (simp add: crc_add_def)

section \<open>Splitting returns, keeps every byte and bounds every frame\<close>

text \<open>What the loop of \<open>splitIntoFrames\<close> maintains after consuming the bytes \<open>seen\<close>.\<close>

fun split_inv :: "nat \<Rightarrow> bytes \<Rightarrow> crc \<times> nat \<times> bytes \<times> bytes list \<Rightarrow> bool" where
  "split_inv cs seen (c, tot, pending, out) \<longleftrightarrow>
     c = crc_add crc_init (concat out) \<and> tot = length (concat out) \<and>
     (\<forall>x \<in> set out. length x = cs) \<and> concat out @ pending = seen"

lemma drain_split_inv:
  assumes "0 < cs" and "split_inv cs seen (c, tot, pending, out)"
  shows "\<exists>c' tot' pending' out'. drain cs c tot pending out = Some (c', tot', pending', out') \<and>
           split_inv cs seen (c', tot', pending', out') \<and> length pending' < cs"
  using assms
proof (induction "length pending" arbitrary: c tot pending out rule: less_induct)
  case less
  show ?case
  proof (cases "cs \<le> length pending")
    case True
    have "split_inv cs seen (crc_add c (take cs pending), tot + length (take cs pending),
        drop cs pending, out @ [take cs pending])"
      using less.prems(2) True by (auto simp: crc_add_append)
    moreover have "length (drop cs pending) < length pending"
      using less.prems(1) True by simp
    ultimately show ?thesis
      using less.hyps less.prems(1) True by (simp only: drain.simps [of cs c tot pending] if_True)
  next
    case False
    then show ?thesis
      using less.prems(2) by (subst drain.simps) auto
  qed
qed

lemma split_source_inv:
  assumes "0 < cs" and "split_inv cs seen (c, tot, pending, out)" and "length pending < cs"
  shows "\<exists>c' tot' pending' out'. split_source cs (c, tot, pending, out) src = Some (c', tot', pending', out') \<and>
           split_inv cs (seen @ concat src) (c', tot', pending', out') \<and> length pending' < cs"
  using assms(2, 3)
proof (induction src arbitrary: seen c tot pending out)
  case Nil
  then show ?case by simp
next
  case (Cons b src)
  have "split_inv cs (seen @ b) (c, tot, pending @ b, out)"
    using Cons.prems by auto
  from drain_split_inv [OF assms(1) this] obtain c1 tot1 pending1 out1
    where d: "drain cs c tot (pending @ b) out = Some (c1, tot1, pending1, out1)"
      and i: "split_inv cs (seen @ b) (c1, tot1, pending1, out1)" "length pending1 < cs" by blast
  from Cons.IH [OF i] show ?case
    by (simp add: d del: split_inv.simps)
qed

lemma split_into_frames_form:
  assumes "0 < cs"
  shows "\<exists>out pending. split_into_frames rid src ty cs =
           Some (map (chunk_frame rid ty) out
             @ [final_frame rid ty (length (concat src)) (crc_add crc_init (concat src)) pending]) \<and>
           concat out @ pending = concat src \<and> (\<forall>x \<in> set out. length x = cs) \<and> length pending < cs"
proof -
  have "split_inv cs [] (crc_init, 0, [], [])" by simp
  from split_source_inv [OF assms this, of src] assms obtain c tot pending out
    where "split_source cs (crc_init, 0, [], []) src = Some (c, tot, pending, out)"
      and "split_inv cs (concat src) (c, tot, pending, out)" and "length pending < cs"
    by (auto simp del: split_inv.simps)
  then show ?thesis
    by (intro exI [of _ out] exI [of _ pending])
      (auto simp: split_into_frames_def crc_add_append [symmetric] simp flip: length_append)
qed

section \<open>The reassembler\<close>

definition rs_inv :: "reassembler \<Rightarrow> bool" where
  "rs_inv r \<longleftrightarrow> rs_crc r = crc_add crc_init (concat (rs_chunks r)) \<and>
     length (concat (rs_chunks r)) \<le> rs_maxBytes r \<and> length (concat (rs_chunks r)) \<le> rs_received r"

text \<open>As long as no append was refused, every byte counted is a byte held.\<close>

definition rs_open :: "reassembler \<Rightarrow> bool" where
  "rs_open r \<longleftrightarrow> rs_inv r \<and> rs_received r = length (concat (rs_chunks r))"

lemma new_reassembler_open [simp]: "rs_open (new_reassembler n)"
  by (simp add: rs_open_def rs_inv_def new_reassembler_def)

lemma rs_append_inv: "rs_inv r \<Longrightarrow> rs_open r \<or> rs_maxBytes r < rs_received r \<Longrightarrow>
    rs_inv (snd (rs_append p r)) \<and>
    (rs_open (snd (rs_append p r)) \<or> rs_maxBytes r < rs_received (snd (rs_append p r))) \<and>
    rs_maxBytes (snd (rs_append p r)) = rs_maxBytes r"
  by (auto simp: rs_append_def Let_def rs_inv_def rs_open_def crc_add_append)

text \<open>Feeding a list of payloads, as the channel does until an append throws.\<close>

fun rs_appends :: "bytes option list \<Rightarrow> reassembler \<Rightarrow> (stream_error + unit) \<times> reassembler" where
  "rs_appends [] r = (Inr (), r)"
| "rs_appends (p # ps) r =
     (case rs_append p r of (Inl e, r') \<Rightarrow> (Inl e, r') | (Inr _, r') \<Rightarrow> rs_appends ps r')"

lemma rs_append_ok:
  assumes "rs_open r" and "rs_received r + length (payload_bytes p) \<le> rs_maxBytes r"
  shows "\<exists>r'. rs_append p r = (Inr (), r') \<and> rs_open r' \<and> rs_maxBytes r' = rs_maxBytes r \<and>
           concat (rs_chunks r') = concat (rs_chunks r) @ payload_bytes p"
  using assms by (auto simp: rs_append_def Let_def rs_open_def rs_inv_def crc_add_append)

lemma rs_appends_ok:
  assumes "rs_open r" and "rs_received r + length (concat (map payload_bytes ps)) \<le> rs_maxBytes r"
  shows "\<exists>r'. rs_appends ps r = (Inr (), r') \<and> rs_open r' \<and>
           concat (rs_chunks r') = concat (rs_chunks r) @ concat (map payload_bytes ps)"
  using assms
proof (induction ps arbitrary: r)
  case Nil
  then show ?case by simp
next
  case (Cons p ps)
  then obtain r1 where r1: "rs_append p r = (Inr (), r1)" "rs_open r1" "rs_maxBytes r1 = rs_maxBytes r"
    "concat (rs_chunks r1) = concat (rs_chunks r) @ payload_bytes p"
    using rs_append_ok [of r p] by auto
  moreover have "rs_received r1 + length (concat (map payload_bytes ps)) \<le> rs_maxBytes r1"
    using Cons.prems r1 by (simp add: rs_open_def)
  ultimately show ?case
    using Cons.IH [of r1] by auto
qed

lemma rs_appends_new:
  "length (concat (map payload_bytes ps)) \<le> maxBytes \<Longrightarrow>
    \<exists>r. rs_appends ps (new_reassembler maxBytes) = (Inr (), r) \<and> rs_open r \<and>
      concat (rs_chunks r) = concat (map payload_bytes ps)"
  using rs_appends_ok [OF new_reassembler_open, of maxBytes ps] by (simp add: new_reassembler_def)

lemma rs_take_open: "rs_open r \<Longrightarrow> rs_take r = concat (rs_chunks r)"
  by (simp add: rs_open_def rs_take_def)

lemma rs_verify_open:
  assumes "rs_open r"
  shows "rs_verify (Some [(''length'', JNum (int n)), (''crc32'', JNum (uint (crc_value c)))]) r = Inr () \<longleftrightarrow>
    n = length (concat (rs_chunks r)) \<and> c = crc_add crc_init (concat (rs_chunks r))"
proof -
  have "crc_value (crc_value d) = d" for d
    by (simp add: crc_value_def xor.assoc)
  then have "uint (crc_value c) = uint (crc_value d) \<longleftrightarrow> c = d" for d
    by (metis word_uint_eq_iff)
  then show ?thesis
    using assms by (auto simp: rs_verify_def Let_def rs_open_def rs_inv_def)
qed

section \<open>The wire as a codec, and the properties\<close>

interpretation frame_codec: codec
  "\<lambda>f. ok (encode_frame f)" "\<lambda>b. ok (decode_frame b)" wf_frame wire_frame
  by unfold_locales (auto simp: decode_encode)

lemma digits_of_length: "n < 10 ^ Suc k \<Longrightarrow> length (digits_of n) \<le> Suc k"
proof (induction k arbitrary: n)
  case (Suc k)
  show ?case
  proof (cases "n < 10")
    case False
    have "n div 10 < 10 ^ Suc k"
      using Suc.prems by (simp add: less_mult_imp_div_less mult.commute)
    from Suc.IH [OF this] False show ?thesis
      by (simp add: digits_of.simps [of n])
  qed (simp add: digits_of.simps)
qed (simp add: digits_of.simps)

lemma encode_chunk_frame:
  "length x \<le> MAX_PAYLOAD_LENGTH \<Longrightarrow> \<exists>bs. encode_frame (chunk_frame rid ty x) = Inr bs"
  by (simp add: encode_frame_Inr chunk_frame_def metadata_bytes_def payload_bytes_def)

lemma encode_final_frame:
  assumes "length x \<le> MAX_PAYLOAD_LENGTH" and "n < 10 ^ 16"
  shows "\<exists>bs. encode_frame (final_frame rid ty n c x) = Inr bs"
proof -
  have "uint (crc_value c) < 2 ^ 32"
    using uint_lt2p [of "crc_value c"] by simp
  then have "uint (crc_value c) < int (10 ^ 10)" by simp
  then have "nat (uint (crc_value c)) < 10 ^ 10" by (subst nat_less_iff) auto
  then have "length (print_int (uint (crc_value c))) \<le> 10"
    using digits_of_length [of "nat (uint (crc_value c))" 9] by (simp add: print_int_def)
  moreover have "length (print_int (int n)) \<le> 16"
    using digits_of_length [of n 15] assms(2) by (simp add: print_int_def)
  moreover have "length (quote ''length'') = 8" "length (quote ''crc32'') = 7"
    by (simp_all add: quote_def escape_char_def Let_def char_code_def)
  ultimately have "length (metadata_bytes (fr_metadata (final_frame rid ty n c x))) \<le> MAX_METADATA_LENGTH"
    by (simp add: final_frame_def metadata_bytes_def frame_constants)
  then show ?thesis
    using assms(1) by (auto simp: encode_frame_Inr final_frame_def payload_bytes_def)
qed

lemma wf_chunk_frame [simp]: "wf_frame (chunk_frame rid ty x)"
  by (simp add: wf_frame_def chunk_frame_def)

lemma wf_final_frame [simp]: "wf_frame (final_frame rid ty n c x)"
  by (simp add: wf_frame_def final_frame_def wf_map_def)

lemma encode_all:
  "(\<And>f. f \<in> set fs \<Longrightarrow> \<exists>bs. encode_frame f = Inr bs) \<Longrightarrow> \<exists>wire. map encode_frame fs = map Inr wire"
proof (induction fs)
  case (Cons f fs)
  then obtain bs wire where "encode_frame f = Inr bs" "map encode_frame fs = map Inr wire" by force
  then have "map encode_frame (f # fs) = map Inr (bs # wire)" by simp
  then show ?case by blast
qed simp

lemma decode_all:
  assumes "map encode_frame fs = map Inr wire" and "\<And>f. f \<in> set fs \<Longrightarrow> wf_frame f"
  shows "map decode_frame wire = map Inr (map wire_frame fs)"
proof -
  have "map (\<lambda>f. ok (encode_frame f)) fs = map Some wire"
    using arg_cong [OF assms(1), of "map ok"] by (simp add: comp_def)
  from frame_codec.dec_enc_all [OF this assms(2)]
  have "map (\<lambda>b. ok (decode_frame b)) wire = map (\<lambda>f. Some (wire_frame f)) fs" .
  then have "\<forall>i < length fs. ok (decode_frame (wire ! i)) = Some (wire_frame (fs ! i))" "length wire = length fs"
    by (auto simp: list_eq_iff_nth_eq)
  then show ?thesis
    by (simp add: list_eq_iff_nth_eq)
qed

lemma wire_payload [simp]: "payload_bytes (fr_payload (wire_frame f)) = payload_bytes (fr_payload f)"
  by (simp add: wire_frame_def payload_bytes_def split: option.splits)

lemma wire_metadata [simp]: "fr_metadata (wire_frame f) = fr_metadata f"
  by (simp add: wire_frame_def)

lemma chunk_payload [simp]: "payload_bytes (fr_payload (chunk_frame rid ty x)) = x"
  by (simp add: chunk_frame_def payload_bytes_def)

lemma final_payload [simp]: "payload_bytes (fr_payload (final_frame rid ty n c x)) = x"
  by (simp add: final_frame_def payload_bytes_def)

text \<open>
  Frames survive the wire. If \<^verbatim>\<open>encodeFrame\<close> accepts a frame whose metadata is a printable
  object, \<^verbatim>\<open>decodeFrame\<close> accepts its bytes and returns the frame, with the request identifier
  reduced modulo \<open>2 ^ 32\<close>, the flags modulo 256 and an empty payload read back as an absent one.
\<close>
theorem decode_encode_frame:
  assumes "encode_frame f = Inr bs" and "wf_frame f"
  shows "decode_frame bs = Inr (f\<lparr>fr_requestId := fr_requestId f mod 2 ^ 32, fr_flags := fr_flags f mod 256,
           fr_payload := (if payload_bytes (fr_payload f) = [] then None else fr_payload f)\<rparr>)"
  using decode_encode [OF assms] by (simp only: wire_frame_def)

theorem decode_encode_frame_witness:
  "\<exists>bs. encode_frame (final_frame 7 ResponseChunk 2 5 [1, 2]) = Inr bs \<and>
        map_sum id fr_payload (decode_frame bs) = Inr (Some [1, 2])"
proof -
  obtain bs where bs: "encode_frame (final_frame 7 ResponseChunk 2 5 [1, 2]) = Inr bs"
    using encode_final_frame [of "[1, 2]" 2 7 ResponseChunk 5] by (auto simp: frame_constants)
  have "map_sum id fr_payload (decode_frame bs) = Inr (Some [1, 2])"
    by (simp add: decode_encode_frame [OF bs] payload_bytes_def) (simp add: final_frame_def)
  with bs show ?thesis by blast
qed

text \<open>
  C33. A stream that is split, encoded, decoded and reassembled is the stream. For a chunk size
  between 1 and the frame limit, \<^verbatim>\<open>splitIntoFrames\<close> returns; every frame it yields encodes; a
  receiver that decodes the messages and appends their payloads to a reassembler whose ceiling
  the stream respects is never refused, accepts the length and checksum of the last frame, and
  takes exactly the bytes of the source. (Lengths below \<open>10 ^ 16\<close>, beyond the integers a
  JavaScript number holds exactly.)
\<close>
theorem split_reassemble:
  assumes "0 < cs" and "cs \<le> MAX_PAYLOAD_LENGTH"
    and "length (concat src) \<le> maxBytes" and "length (concat src) < 10 ^ 16"
  shows "\<exists>frames wire received r.
           split_into_frames rid src ty cs = Some frames \<and>
           map encode_frame frames = map Inr wire \<and>
           map decode_frame wire = map Inr received \<and>
           rs_appends (map fr_payload received) (new_reassembler maxBytes) = (Inr (), r) \<and>
           rs_verify (fr_metadata (last received)) r = Inr () \<and>
           rs_take r = concat src"
proof -
  let ?fin = "\<lambda>p. final_frame rid ty (length (concat src)) (crc_add crc_init (concat src)) p"
  obtain out pending where
    sp: "split_into_frames rid src ty cs = Some (map (chunk_frame rid ty) out @ [?fin pending])"
    and cat: "concat out @ pending = concat src"
    and len: "\<forall>x \<in> set out. length x = cs" "length pending < cs"
    using split_into_frames_form [OF assms(1), of rid src ty] by blast
  let ?fs = "map (chunk_frame rid ty) out @ [?fin pending]"
  have "\<exists>bs. encode_frame f = Inr bs" if "f \<in> set ?fs" for f
    using that len assms(2, 4) encode_chunk_frame encode_final_frame by fastforce
  then obtain wire where wire: "map encode_frame ?fs = map Inr wire"
    using encode_all [of ?fs] by blast
  have dec: "map decode_frame wire = map Inr (map wire_frame ?fs)"
    by (rule decode_all [OF wire]) auto
  have pay: "concat (map payload_bytes (map fr_payload (map wire_frame ?fs))) = concat src"
    by (simp add: comp_def flip: cat)
  obtain r where r: "rs_appends (map fr_payload (map wire_frame ?fs)) (new_reassembler maxBytes) = (Inr (), r)"
    "rs_open r" "concat (rs_chunks r) = concat src"
    using rs_appends_new [of "map fr_payload (map wire_frame ?fs)" maxBytes] assms(3)
    unfolding pay by blast
  have "rs_verify (fr_metadata (last (map wire_frame ?fs))) r = Inr ()"
    using rs_verify_open [OF r(2)] r(3) by (simp add: final_frame_def)
  then show ?thesis
    using sp wire dec r rs_take_open [OF r(2)] by metis
qed

theorem split_reassemble_witness:
  "\<exists>frames wire received r.
     split_into_frames 3 [[1, 2, 3], [], [4, 5]] ResponseChunk 2 = Some frames \<and>
     map encode_frame frames = map Inr wire \<and> map decode_frame wire = map Inr received \<and>
     rs_appends (map fr_payload received) (new_reassembler 5) = (Inr (), r) \<and>
     rs_verify (fr_metadata (last received)) r = Inr () \<and> rs_take r = [1, 2, 3, 4, 5]"
  using split_reassemble [of 2 "[[1, 2, 3], [], [4, 5]]" 5 3 ResponseChunk]
  by (simp add: frame_constants)

text \<open>
  C38. The CRC-32 of \<^verbatim>\<open>Crc32.add\<close>, one table lookup per byte, is the bit-by-bit division by the
  reflected polynomial \<open>0xedb88320\<close>, for every register content and every buffer.
\<close>
theorem crc_table_driven_correct:
  "crc_add c bs = foldl (\<lambda>c b. (crc_step ^^ 8) (c XOR ucast b)) c bs"
  using crc_add_bitwise_eq [of c bs]
  by (simp only: crc_add_bitwise_def crc_update_bitwise_def [abs_def])

lemma rs_append_received: "rs_received (snd (rs_append p r)) = rs_received r + length (payload_bytes p)"
  by (simp add: rs_append_def Let_def)

lemma rs_append_result:
  "fst (rs_append p r) =
     (if payload_bytes p = [] \<or> rs_received r + length (payload_bytes p) \<le> rs_maxBytes r
      then Inr () else Inl BodyTooLarge)"
  by (auto simp: rs_append_def Let_def)

interpretation reassembly: event_machine "\<lambda>p r. snd (rs_append p r)"
  "\<lambda>r. rs_inv r \<and> (rs_open r \<or> rs_maxBytes r < rs_received r)"
  by unfold_locales (metis rs_append_inv)

lemma rs_run_counts:
  "rs_received (fold (\<lambda>p r. snd (rs_append p r)) ps r) = rs_received r + length (concat (map payload_bytes ps))
   \<and> rs_maxBytes (fold (\<lambda>p r. snd (rs_append p r)) ps r) = rs_maxBytes r"
  by (induction ps arbitrary: r) (auto simp: rs_append_received, simp add: rs_append_def Let_def)

text \<open>
  A reassembler never holds more than its ceiling. Whatever payloads \<open>ps\<close> a peer sends, and
  however long it goes on after a refusal, the bytes a \<^verbatim>\<open>ChunkReassembler\<close> keeps are at most
  \<^verbatim>\<open>maxBytes\<close>; and the next payload is accepted exactly when it is empty or the bytes sent so
  far together with it stay within the ceiling.
\<close>
theorem reassembler_bounded:
  "length (concat (rs_chunks (fold (\<lambda>p r. snd (rs_append p r)) ps (new_reassembler maxBytes)))) \<le> maxBytes
   \<and> fst (rs_append p (fold (\<lambda>p r. snd (rs_append p r)) ps (new_reassembler maxBytes))) =
       (if payload_bytes p = [] \<or> length (concat (map payload_bytes ps)) + length (payload_bytes p) \<le> maxBytes
        then Inr () else Inl BodyTooLarge)"
proof -
  let ?r = "fold (\<lambda>p r. snd (rs_append p r)) ps (new_reassembler maxBytes)"
  have "rs_inv ?r"
    using reassembly.run_inv [of "new_reassembler maxBytes" ps] by (simp add: rs_open_def [of "new_reassembler maxBytes"])
      (metis new_reassembler_open rs_open_def)
  moreover have "rs_received ?r = length (concat (map payload_bytes ps))" "rs_maxBytes ?r = maxBytes"
    using rs_run_counts [of ps "new_reassembler maxBytes"] by (simp_all add: new_reassembler_def)
  ultimately show ?thesis
    by (simp add: rs_append_result rs_inv_def)
qed

text \<open>
  A length header is never trusted. Every message \<^verbatim>\<open>decodeFrame\<close> accepts consists of the
  16-byte header, at most 16 KiB of metadata and a payload of at most 64 KiB that make up the
  message exactly, and its identifier and flags fit their fields.
\<close>
theorem decode_frame_bounds:
  assumes "decode_frame bs = Inr f"
  shows "\<exists>m. m \<le> MAX_METADATA_LENGTH \<and> length (payload_bytes (fr_payload f)) \<le> MAX_PAYLOAD_LENGTH \<and>
           length bs = FRAME_HEADER_LENGTH + m + length (payload_bytes (fr_payload f)) \<and>
           0 \<le> fr_requestId f \<and> fr_requestId f < 2 ^ 32 \<and> 0 \<le> fr_flags f \<and> fr_flags f < 256"
  using decode_frame_Inr [OF assms] by blast

theorem decode_frame_bounds_witness:
  "length (payload_bytes (fr_payload (wire_frame (chunk_frame 9 RequestChunk [1, 2, 3])))) \<le> MAX_PAYLOAD_LENGTH"
proof -
  obtain bs where bs: "encode_frame (chunk_frame 9 RequestChunk [1, 2, 3]) = Inr bs"
    using encode_chunk_frame [of "[1, 2, 3]" 9 RequestChunk] by (auto simp: frame_constants)
  from decode_frame_bounds [OF decode_encode [OF this wf_chunk_frame]] show ?thesis by blast
qed

end
