(* ===== verification/Channel_Server.thy ===== *)
theory Channel_Server
  imports Frame_Codec Http_Adapter
begin

text \<open>
  The data-channel transport, \<^verbatim>\<open>src/src/webrtc/channelServer.ts\<close>. One \<open>channel\<close> serves frames from one
  peer. The class keeps a map from request identifiers to mutable \<^verbatim>\<open>InFlight\<close> objects that its
  asynchronous \<^verbatim>\<open>runRequest\<close> goes on using after they have left the map; the objects are therefore
  a heap (\<open>ch_heap\<close>, an object being its index) and the map holds indices. A dispatch runs
  asynchronously: it is started by a request head and ends in an event \<open>Finish\<close> with its result.
  What the peer is sent is the list \<open>ch_sent\<close> of encoded messages.
\<close>

section \<open>Model\<close>

definition DEFAULT_MAX_CONCURRENT_REQUESTS :: nat where "DEFAULT_MAX_CONCURRENT_REQUESTS = 16"
definition DEFAULT_MAX_REQUEST_BODY_BYTES :: nat where "DEFAULT_MAX_REQUEST_BODY_BYTES = 192 * 1024 * 1024"
definition IDENTITY_CHALLENGE_PATH :: string where "IDENTITY_CHALLENGE_PATH = ''/local/v1/identity/challenge''"

datatype body_promise = BodyPending | BodyResolved bytes | BodyRejected string

record in_flight =
  if_id :: int
  if_method :: string
  if_path :: string
  if_reassembler :: reassembler
  if_metadata :: json_object
  if_cancelled :: bool
  if_bodyComplete :: bool
  if_body :: body_promise
  if_handshake :: bool
  if_finished :: bool

record channel =
  ch_sessionId :: string
  ch_maxConcurrentRequests :: nat
  ch_maxRequestBodyBytes :: nat
  ch_inFlight :: "(int, nat) jsmap"
  ch_heap :: "in_flight list"
  ch_identityHandshakeComplete :: bool
  ch_proofTimer :: bool
  ch_closed :: bool
  ch_isOpen :: bool
  ch_sent :: "bytes list"

definition new_channel :: "string \<Rightarrow> nat \<Rightarrow> nat \<Rightarrow> channel" where
  "new_channel sessionId maxConcurrent maxBody =
     \<lparr>ch_sessionId = sessionId, ch_maxConcurrentRequests = maxConcurrent, ch_maxRequestBodyBytes = maxBody,
      ch_inFlight = [], ch_heap = [], ch_identityHandshakeComplete = False, ch_proofTimer = True,
      ch_closed = False, ch_isOpen = True, ch_sent = []\<rparr>"

definition update_object :: "nat \<Rightarrow> (in_flight \<Rightarrow> in_flight) \<Rightarrow> channel \<Rightarrow> channel" where
  "update_object n f ch = (if n < length (ch_heap ch) then ch\<lparr>ch_heap := (ch_heap ch)[n := f (ch_heap ch ! n)]\<rparr> else ch)"

text \<open>A promise keeps its first outcome.\<close>

definition resolveBody :: "bytes \<Rightarrow> in_flight \<Rightarrow> in_flight" where
  "resolveBody bs e = (if if_body e = BodyPending then e\<lparr>if_body := BodyResolved bs\<rparr> else e)"

definition rejectBody :: "string \<Rightarrow> in_flight \<Rightarrow> in_flight" where
  "rejectBody msg e = (if if_body e = BodyPending then e\<lparr>if_body := BodyRejected msg\<rparr> else e)"

subsection \<open>Sending\<close>

definition send :: "kubus_frame \<Rightarrow> channel \<Rightarrow> channel" where
  "send frame ch =
     (if \<not> ch_isOpen ch then ch
      else case encode_frame frame of Inl _ \<Rightarrow> ch | Inr bs \<Rightarrow> ch\<lparr>ch_sent := ch_sent ch @ [bs]\<rparr>)"

definition sendError :: "int \<Rightarrow> string \<Rightarrow> channel \<Rightarrow> channel" where
  "sendError requestId message =
     send \<lparr>fr_type = ErrorFrame, fr_requestId = requestId, fr_flags = int FLAG_FINAL,
           fr_metadata = Some [(''message'', JStr message)], fr_payload = None\<rparr>"

definition json_content_type :: json where
  "json_content_type = JStr ''application/json; charset=utf-8''"

definition response_head :: "int \<Rightarrow> int \<Rightarrow> json_object \<Rightarrow> bytes option \<Rightarrow> kubus_frame" where
  "response_head requestId flags metadata payload =
     \<lparr>fr_type = ResponseHead, fr_requestId = requestId, fr_flags = flags, fr_metadata = Some metadata, fr_payload = payload\<rparr>"

text \<open>The frames of a body; the loop of \<^verbatim>\<open>splitIntoFrames\<close> returns for the chunk size used here.\<close>

definition body_frames :: "int \<Rightarrow> bytes list \<Rightarrow> kubus_frame list" where
  "body_frames requestId source = the (split_into_frames requestId source ResponseChunk MAX_PAYLOAD_LENGTH)"

definition sendJson :: "int \<Rightarrow> nat \<Rightarrow> json \<Rightarrow> channel \<Rightarrow> channel" where
  "sendJson requestId status v ch =
     (let payload = bytes_of_string (json_stringify v);
          metadata = [(''status'', JNum (int status)), (''contentType'', json_content_type)]
      in if length payload \<le> MAX_PAYLOAD_LENGTH
         then send (response_head requestId (int FLAG_FINAL) metadata (Some payload)) ch
         else fold send (body_frames requestId [payload]) (send (response_head requestId 0 metadata None) ch))"

definition sendResponse :: "int \<Rightarrow> local_response \<Rightarrow> channel \<Rightarrow> channel" where
  "sendResponse requestId response ch =
     (let sha = (if opt_str (lr_contentSha256 response) = [] then [] else [(''contentSha256'', JStr (opt_str (lr_contentSha256 response)))])
      in case response of
           JsonResponse status v \<Rightarrow> sendJson requestId status (envelope v) ch
         | BytesResponse status contentType body _ _ \<Rightarrow>
             fold send (body_frames requestId [body])
               (send (response_head requestId 0 ([(''status'', JNum (int status)), (''contentType'', JStr contentType)] @ sha) None) ch)
         | StreamResponse status contentType body contentLength _ _ \<Rightarrow>
             fold send (body_frames requestId body)
               (send (response_head requestId 0 ([(''status'', JNum (int status)), (''contentType'', JStr contentType)]
                  @ (case contentLength of None \<Rightarrow> [] | Some n \<Rightarrow> [(''contentLength'', JNum (int n))]) @ sha) None) ch))"

subsection \<open>Receiving\<close>

definition close_channel :: "channel \<Rightarrow> channel" where
  "close_channel ch =
     (if ch_closed ch then ch
      else let cancel = (\<lambda>n ch. update_object n (\<lambda>e. rejectBody ''channel closed'' (e\<lparr>if_cancelled := True\<rparr>)) ch)
           in (fold cancel (jm_values (ch_inFlight ch)) (ch\<lparr>ch_closed := True, ch_proofTimer := False\<rparr>))
                \<lparr>ch_inFlight := [], ch_isOpen := False\<rparr>)"

definition answerIdentityChallenge :: "node_identity \<Rightarrow> int \<Rightarrow> json_object \<Rightarrow> channel \<Rightarrow> channel" where
  "answerIdentityChallenge identity requestId metadata ch =
     (let nonce = base64_decode (opt_str (as_string (jm_get metadata ''nonce''))) in
      if length nonce \<noteq> 32 then sendError requestId ''identity_challenge_invalid'' ch
      else let protocolVersion = (case as_string (jm_get metadata ''protocolVersion'') of
                                    Some v \<Rightarrow> v | None \<Rightarrow> IDENTITY_PROOF_PROTOCOL_VERSION) in
        if protocolVersion \<noteq> IDENTITY_PROOF_PROTOCOL_VERSION
        then sendError requestId ''identity_protocol_version_unsupported'' ch
        else case createIdentityProof identity IDENTITY_PROOF_PROTOCOL_VERSION (ch_sessionId ch) nonce ''client'' of
               Inl _ \<Rightarrow> ch
             | Inr p \<Rightarrow>
                 sendJson requestId 200 (envelope (Some (JObj [(''protocolVersion'', JStr IDENTITY_PROOF_PROTOCOL_VERSION),
                     (''sessionId'', JStr (ch_sessionId ch)), (''publicKey'', JStr (base64_encode True (ip_publicKeyRaw p))),
                     (''fingerprint'', JStr (ip_fingerprint p)), (''signature'', JStr (base64_encode False (ip_signature p)))])))
                   (ch\<lparr>ch_identityHandshakeComplete := True, ch_proofTimer := False\<rparr>))"

definition nullish_or :: "json option \<Rightarrow> string \<Rightarrow> string" where
  "nullish_or v dflt = (case v of None \<Rightarrow> dflt | Some JNull \<Rightarrow> dflt | Some j \<Rightarrow> js_string j)"

definition frame_metadata :: "kubus_frame \<Rightarrow> json_object" where
  "frame_metadata frame = (case fr_metadata frame of None \<Rightarrow> [] | Some m \<Rightarrow> m)"

definition frame_path :: "kubus_frame \<Rightarrow> string" where
  "frame_path frame = nullish_or (jm_get (frame_metadata frame) ''path'') []"

definition onRequestHead :: "node_identity \<Rightarrow> kubus_frame \<Rightarrow> channel \<Rightarrow> channel" where
  "onRequestHead identity frame ch =
     (let metadata = frame_metadata frame; method = to_upper (nullish_or (jm_get metadata ''method'') ''GET'');
          path = frame_path frame
      in if jm_has (ch_inFlight ch) (fr_requestId frame) then sendError (fr_requestId frame) ''request_id_in_use'' ch
         else if path = IDENTITY_CHALLENGE_PATH then answerIdentityChallenge identity (fr_requestId frame) metadata ch
         else if jm_size (ch_inFlight ch) \<ge> ch_maxConcurrentRequests ch
         then sendError (fr_requestId frame) ''too_many_concurrent_requests'' ch
         else let entry = \<lparr>if_id = fr_requestId frame, if_method = method, if_path = path,
                           if_reassembler = new_reassembler (ch_maxRequestBodyBytes ch), if_metadata = metadata,
                           if_cancelled = False, if_bodyComplete = isFinalFrame frame,
                           if_body = (if isFinalFrame frame then BodyResolved [] else BodyPending),
                           if_handshake = ch_identityHandshakeComplete ch, if_finished = False\<rparr>
              in ch\<lparr>ch_heap := ch_heap ch @ [entry],
                    ch_inFlight := jm_set (fr_requestId frame) (length (ch_heap ch)) (ch_inFlight ch)\<rparr>)"

definition onRequestChunk :: "kubus_frame \<Rightarrow> channel \<Rightarrow> channel" where
  "onRequestChunk frame ch =
     (case jm_get (ch_inFlight ch) (fr_requestId frame) of
        None \<Rightarrow> ch
      | Some n \<Rightarrow>
          (let e = ch_heap ch ! n in
           if if_cancelled e then ch
           else case rs_append (fr_payload frame) (if_reassembler e) of
                  (r, rs) \<Rightarrow>
                    (let verdict = (case r of Inl err \<Rightarrow> Inl err
                                    | Inr _ \<Rightarrow> if isFinalFrame frame then rs_verify (fr_metadata frame) rs else Inr ())
                     in case verdict of
                          Inl _ \<Rightarrow>
                            (sendError (fr_requestId frame) ''request_body_invalid''
                               (update_object n (\<lambda>e. rejectBody ''integrity'' (e\<lparr>if_reassembler := rs\<rparr>)) ch))
                              \<lparr>ch_inFlight := jm_delete (fr_requestId frame) (ch_inFlight ch)\<rparr>
                        | Inr _ \<Rightarrow>
                            update_object n (\<lambda>e. if isFinalFrame frame
                                then resolveBody (rs_take rs) (e\<lparr>if_reassembler := rs, if_bodyComplete := True\<rparr>)
                                else e\<lparr>if_reassembler := rs\<rparr>) ch)))"

definition onCancel :: "int \<Rightarrow> channel \<Rightarrow> channel" where
  "onCancel requestId ch =
     (case jm_get (ch_inFlight ch) requestId of
        None \<Rightarrow> ch
      | Some n \<Rightarrow> (update_object n (\<lambda>e. rejectBody ''request cancelled by peer'' (e\<lparr>if_cancelled := True\<rparr>)) ch)
                    \<lparr>ch_inFlight := jm_delete requestId (ch_inFlight ch)\<rparr>)"

definition handleMessage :: "node_identity \<Rightarrow> bytes \<Rightarrow> channel \<Rightarrow> channel" where
  "handleMessage identity data ch =
     (if ch_closed ch then ch
      else case decode_frame data of
             Inl (FrameVersionError _) \<Rightarrow> close_channel (sendError 0 ''protocol_version_unsupported'' ch)
           | Inl (FrameError _) \<Rightarrow> ch
           | Inr frame \<Rightarrow>
               (case fr_type frame of
                  RequestHead \<Rightarrow> onRequestHead identity frame ch
                | RequestChunk \<Rightarrow> onRequestChunk frame ch
                | Cancel \<Rightarrow> onCancel (fr_requestId frame) ch
                | _ \<Rightarrow> ch))"

text \<open>The end of \<^verbatim>\<open>runRequest\<close>: send the result unless the request was cancelled, then, in the
  \<^verbatim>\<open>finally\<close>, delete the identifier from the map.\<close>

definition error_json :: "string \<Rightarrow> json" where
  "error_json code = JObj [(''error'', JStr code)]"

definition finishRequest :: "nat \<Rightarrow> local_response result \<Rightarrow> channel \<Rightarrow> channel" where
  "finishRequest n outcome ch =
     (if \<not> n < length (ch_heap ch) \<or> if_finished (ch_heap ch ! n) then ch
      else let e = ch_heap ch ! n;
               ch1 = (if if_cancelled e then ch
                      else case outcome of
                             Inr response \<Rightarrow> sendResponse (if_id e) response ch
                           | Inl (LocalError status code) \<Rightarrow> sendJson (if_id e) status (error_json code) ch
                           | Inl (PlainError _) \<Rightarrow> sendError (if_id e) ''internal_error'' ch)
           in (update_object n (\<lambda>e. e\<lparr>if_finished := True\<rparr>) ch1)\<lparr>ch_inFlight := jm_delete (if_id e) (ch_inFlight ch1)\<rparr>)"

definition proofTimeout :: "channel \<Rightarrow> channel" where
  "proofTimeout ch = (if ch_proofTimer ch \<and> \<not> ch_identityHandshakeComplete ch then close_channel ch else ch)"

subsection \<open>The request handed to the dispatcher\<close>

fun string_members :: "json_object \<Rightarrow> (string, string) jsmap" where
  "string_members [] = []"
| "string_members ((k, JStr v) # m) = (k, v) # string_members m"
| "string_members ((k, _) # m) = string_members m"

definition toQuery :: "json option \<Rightarrow> (string, string) jsmap" where
  "toQuery v = (case v of Some (JObj m) \<Rightarrow> string_members m | _ \<Rightarrow> [])"

definition readCredential :: "json_object \<Rightarrow> string option" where
  "readCredential metadata =
     (case jm_get metadata ''headers'' of
        Some (JObj headers) \<Rightarrow>
          (case find (\<lambda>(k, v). to_lower k = ''authorization'') (string_members headers) of
             Some (_, v) \<Rightarrow> bearer (Some v)
           | None \<Rightarrow> None)
      | _ \<Rightarrow> None)"

fun chunks_of :: "nat \<Rightarrow> bytes \<Rightarrow> bytes list" where
  "chunks_of n bs = (if bs = [] \<or> n = 0 then [] else take n bs # chunks_of n (drop n bs))"

declare chunks_of.simps [simp del]

text \<open>\<^verbatim>\<open>bodyFor(entry)\<close>, given what the body promise settled to. The JSON accessor takes no limit.\<close>

definition bodyFor :: "json_object \<Rightarrow> bytes result \<Rightarrow> local_body" where
  "bodyFor metadata promise =
     \<lparr>lb_json = (\<lambda>_. case jm_get metadata ''json'' of
          Some (JObj m) \<Rightarrow> Inr (JObj m)
        | _ \<Rightarrow> (case promise of
                  Inl e \<Rightarrow> Inl e
                | Inr bs \<Rightarrow> if bs = [] then Inr (JObj [])
                            else (case json_parse (string_of_bytes bs) of
                                    None \<Rightarrow> Inl (localError 400 ''json_invalid'') | Some j \<Rightarrow> Inr j))),
      lb_binary = (\<lambda>maxBytes. case promise of
          Inl e \<Rightarrow> Inl e
        | Inr bs \<Rightarrow> if length bs > maxBytes then Inl (localError 413 ''request_too_large'')
                    else if bs = [] then Inl (localError 400 ''capture_file_empty'') else Inr bs),
      lb_stream = (case promise of Inl e \<Rightarrow> ([], Some e) | Inr bs \<Rightarrow> (chunks_of MAX_PAYLOAD_LENGTH bs, None))\<rparr>"

definition channel_request :: "string \<Rightarrow> in_flight \<Rightarrow> bytes result \<Rightarrow> local_request" where
  "channel_request sessionId e promise =
     \<lparr>rq_method = if_method e, rq_path = if_path e, rq_query = toQuery (jm_get (if_metadata e) ''query''),
      rq_credential = readCredential (if_metadata e),
      rq_idempotencyKey = as_string (jm_get (if_metadata e) ''idempotencyKey''),
      rq_contentType = as_string (jm_get (if_metadata e) ''contentType''),
      rq_body = bodyFor (if_metadata e) promise,
      rq_peer = \<lparr>lp_kind = Webrtc, lp_address = None, lp_identityHandshakeComplete = if_handshake e, lp_sessionId = Some sessionId\<rparr>\<rparr>"

interpretation channel_body: bounded_body "\<lambda>bs. bodyFor metadata (Inr bs)" "\<lambda>bs. bs"
  by unfold_locales (auto simp: bodyFor_def split: if_splits)

section \<open>The channel as an event machine\<close>

datatype channel_event = Message bytes | ProofTimeout | Finish nat "local_response result" | Close | TransportClosed

fun channel_step :: "node_identity \<Rightarrow> channel_event \<Rightarrow> channel \<Rightarrow> channel" where
  "channel_step identity (Message data) ch = handleMessage identity data ch"
| "channel_step identity ProofTimeout ch = proofTimeout ch"
| "channel_step identity (Finish n r) ch = finishRequest n r ch"
| "channel_step identity Close ch = close_channel ch"
| "channel_step identity TransportClosed ch = ch\<lparr>ch_isOpen := False\<rparr>"

text \<open>The part of the state that sending never touches.\<close>

definition core :: "channel \<Rightarrow> channel" where
  "core ch = ch\<lparr>ch_sent := []\<rparr>"

lemma send_core [simp]: "core (send f ch) = core ch"
  by (simp add: send_def core_def split: sum.split)

lemma fold_send_core [simp]: "core (fold send fs ch) = core ch"
  by (induction fs arbitrary: ch) simp_all

lemma sendError_core [simp]: "core (sendError i m ch) = core ch"
  by (simp add: sendError_def)

lemma sendJson_core [simp]: "core (sendJson i n v ch) = core ch"
  by (simp add: sendJson_def Let_def)

lemma sendResponse_core [simp]: "core (sendResponse i r ch) = core ch"
  by (simp add: sendResponse_def Let_def split: local_response.split)

lemma core_fields:
  "core a = core b \<Longrightarrow> ch_inFlight a = ch_inFlight b \<and> ch_heap a = ch_heap b \<and>
    ch_identityHandshakeComplete a = ch_identityHandshakeComplete b \<and> ch_maxConcurrentRequests a = ch_maxConcurrentRequests b \<and>
    ch_maxRequestBodyBytes a = ch_maxRequestBodyBytes b \<and> ch_sessionId a = ch_sessionId b \<and> ch_closed a = ch_closed b
    \<and> ch_isOpen a = ch_isOpen b \<and> ch_proofTimer a = ch_proofTimer b"
  by (cases a; cases b) (simp add: core_def)

lemmas send_fields [simp] =
  core_fields [OF sendError_core, THEN conjunct1] core_fields [OF sendError_core, THEN conjunct2, THEN conjunct1]

text \<open>
  The invariant: identifiers are unique and their number bounded; an identifier in the map names a
  live object with that identifier; every object's reassembler respects the body limit; an object
  was started with the handshake done only if it is done now; a closed channel serves nothing.
\<close>

definition object_ok :: "channel \<Rightarrow> in_flight \<Rightarrow> bool" where
  "object_ok ch e \<longleftrightarrow> rs_inv (if_reassembler e) \<and>
     (rs_open (if_reassembler e) \<or> rs_maxBytes (if_reassembler e) < rs_received (if_reassembler e)) \<and>
     rs_maxBytes (if_reassembler e) = ch_maxRequestBodyBytes ch \<and>
     (if_handshake e \<longrightarrow> ch_identityHandshakeComplete ch)"

lemma object_ok_updates [simp]:
  "object_ok (ch\<lparr>ch_inFlight := m\<rparr>) e = object_ok ch e" "object_ok (ch\<lparr>ch_heap := h\<rparr>) e = object_ok ch e"
  "object_ok (ch\<lparr>ch_isOpen := b\<rparr>) e = object_ok ch e" "object_ok (ch\<lparr>ch_closed := b\<rparr>) e = object_ok ch e"
  "object_ok (ch\<lparr>ch_proofTimer := b\<rparr>) e = object_ok ch e" "object_ok (ch\<lparr>ch_sent := l\<rparr>) e = object_ok ch e"
  by (simp_all add: object_ok_def)

definition channel_inv :: "channel \<Rightarrow> bool" where
  "channel_inv ch \<longleftrightarrow> wf_map (ch_inFlight ch) \<and> jm_size (ch_inFlight ch) \<le> ch_maxConcurrentRequests ch \<and>
     (\<forall>(i, n) \<in> set (ch_inFlight ch). n < length (ch_heap ch) \<and> if_id (ch_heap ch ! n) = i) \<and>
     (\<forall>e \<in> set (ch_heap ch). object_ok ch e) \<and> (ch_closed ch \<longrightarrow> ch_inFlight ch = [])"

lemma channel_inv_core: "core a = core b \<Longrightarrow> channel_inv a \<longleftrightarrow> channel_inv b"
  using core_fields [of a b] by (simp add: channel_inv_def object_ok_def)

lemma new_channel_inv [simp]: "channel_inv (new_channel sid m n)"
  by (simp add: channel_inv_def new_channel_def)

lemma update_object_inv:
  assumes "channel_inv ch" and "\<And>e. if_id (f e) = if_id e" and "\<And>e. e \<in> set (ch_heap ch) \<Longrightarrow> object_ok ch e \<Longrightarrow> object_ok ch (f e)"
  shows "channel_inv (update_object n f ch)"
proof (cases "n < length (ch_heap ch)")
  case True
  have ok: "object_ok (ch\<lparr>ch_heap := h\<rparr>) = object_ok ch" for h
    by (intro ext) (simp add: object_ok_def)
  have "object_ok ch e" if "e \<in> set ((ch_heap ch)[n := f (ch_heap ch ! n)])" for e
    using that set_update_subset_insert [of "ch_heap ch" n "f (ch_heap ch ! n)"] assms(1, 3) True
    by (auto simp: channel_inv_def)
  moreover have "if_id ((ch_heap ch)[n := f (ch_heap ch ! n)] ! m) = if_id (ch_heap ch ! m)" if "m < length (ch_heap ch)" for m
    using that assms(2) by (cases "m = n") simp_all
  ultimately show ?thesis
    using assms(1) True by (auto simp: channel_inv_def update_object_def ok)
qed (use assms(1) in \<open>simp add: update_object_def\<close>)

lemma delete_id_inv: "channel_inv ch \<Longrightarrow> channel_inv (ch\<lparr>ch_inFlight := jm_delete i (ch_inFlight ch)\<rparr>)"
  using jm_size_delete_le [of i "ch_inFlight ch"]
  by (auto simp: channel_inv_def object_ok_def set_jm_delete)

lemma body_settled_ok [simp]:
  "object_ok ch (rejectBody m e) = object_ok ch e" "object_ok ch (resolveBody bs e) = object_ok ch e"
  "if_id (rejectBody m e) = if_id e" "if_id (resolveBody bs e) = if_id e"
  by (simp_all add: object_ok_def rejectBody_def resolveBody_def)

lemma object_ok_flags [simp]:
  "object_ok ch (e\<lparr>if_cancelled := b\<rparr>) = object_ok ch e" "object_ok ch (e\<lparr>if_finished := b\<rparr>) = object_ok ch e"
  "object_ok ch (e\<lparr>if_bodyComplete := b\<rparr>) = object_ok ch e"
  by (simp_all add: object_ok_def)

lemma onCancel_inv: "channel_inv ch \<Longrightarrow> channel_inv (onCancel i ch)"
proof (cases "jm_get (ch_inFlight ch) i")
  case (Some n)
  let ?u = "update_object n (\<lambda>e. rejectBody ''request cancelled by peer'' (e\<lparr>if_cancelled := True\<rparr>)) ch"
  assume "channel_inv ch"
  then have "channel_inv ?u" by (rule update_object_inv) simp_all
  moreover have "ch_inFlight ?u = ch_inFlight ch" by (simp add: update_object_def)
  ultimately show ?thesis
    using delete_id_inv [of ?u i] Some by (simp add: onCancel_def)
qed (simp add: onCancel_def)

lemma cancel_all_inv:
  "channel_inv ch \<Longrightarrow> channel_inv (fold (\<lambda>n ch. update_object n (\<lambda>e. rejectBody m (e\<lparr>if_cancelled := True\<rparr>)) ch) ns ch)"
  by (induction ns arbitrary: ch) (simp_all add: update_object_inv)

lemma empty_map_inv:
  "channel_inv ch \<Longrightarrow> channel_inv (ch\<lparr>ch_inFlight := [], ch_isOpen := b\<rparr>)"
  by (simp add: channel_inv_def)

lemma close_channel_inv:
  assumes "channel_inv ch"
  shows "channel_inv (close_channel ch)"
proof (cases "ch_closed ch")
  case False
  let ?c = "\<lambda>n ch. update_object n (\<lambda>e. rejectBody ''channel closed'' (e\<lparr>if_cancelled := True\<rparr>)) ch"
  let ?ch = "fold ?c (jm_values (ch_inFlight ch)) (ch\<lparr>ch_proofTimer := False\<rparr>)"
  have comm: "fold ?c ns (x\<lparr>ch_closed := True, ch_proofTimer := False\<rparr>) = (fold ?c ns (x\<lparr>ch_proofTimer := False\<rparr>))\<lparr>ch_closed := True\<rparr>" for ns x
    by (induction ns rule: rev_induct) (simp_all add: update_object_def)
  have "channel_inv ?ch"
    using assms by (intro cancel_all_inv) (simp add: channel_inv_def)
  then have "channel_inv (?ch\<lparr>ch_closed := True, ch_inFlight := [], ch_isOpen := False\<rparr>)"
    by (simp add: channel_inv_def)
  then show ?thesis
    using False by (simp add: close_channel_def comm [of "jm_values (ch_inFlight ch)" ch])
qed (use assms in \<open>simp add: close_channel_def\<close>)

lemma answer_inv: "channel_inv ch \<Longrightarrow> channel_inv (answerIdentityChallenge identity i m ch)"
proof -
  assume inv: "channel_inv ch"
  then have "channel_inv (ch\<lparr>ch_identityHandshakeComplete := True, ch_proofTimer := False\<rparr>)"
    by (auto simp: channel_inv_def object_ok_def)
  then show ?thesis
    using inv channel_inv_core [OF sendError_core] channel_inv_core [OF sendJson_core]
    by (auto simp: answerIdentityChallenge_def Let_def split: sum.split)
qed

lemma onRequestHead_inv:
  assumes "channel_inv ch" and "\<not> ch_closed ch"
  shows "channel_inv (onRequestHead identity frame ch)"
proof -
  let ?i = "fr_requestId frame"
  have err: "channel_inv (sendError ?i m ch)" for m
    using assms(1) channel_inv_core [OF sendError_core] by blast
  have ok: "channel_inv (ch\<lparr>ch_heap := ch_heap ch @ [e], ch_inFlight := jm_set ?i (length (ch_heap ch)) (ch_inFlight ch)\<rparr>)"
    if "\<not> jm_has (ch_inFlight ch) ?i" "jm_size (ch_inFlight ch) < ch_maxConcurrentRequests ch" "object_ok ch e" "if_id e = ?i" for e
    using that assms by (auto simp: channel_inv_def object_ok_def jm_keys_set_absent nth_append wf_map_def jm_has_iff)
  show ?thesis
    unfolding onRequestHead_def Let_def
    using err answer_inv [OF assms(1)]
    by (auto intro!: ok simp: object_ok_def new_reassembler_open [unfolded rs_open_def] rs_open_def) (simp_all add: new_reassembler_def)
qed

lemma rs_append_object:
  assumes "object_ok ch e" and "rs_append p (if_reassembler e) = (r, rs)"
  shows "object_ok ch (e\<lparr>if_reassembler := rs\<rparr>)"
  using assms rs_append_inv [of "if_reassembler e" p] by (auto simp: object_ok_def)

lemma inFlight_update_object [simp]: "ch_inFlight (update_object n f ch) = ch_inFlight ch"
  by (simp add: update_object_def)

lemma update_at_inv:
  assumes "channel_inv ch" and "if_id (f (ch_heap ch ! n)) = if_id (ch_heap ch ! n)"
    and "object_ok ch (f (ch_heap ch ! n))"
  shows "channel_inv (update_object n f ch)"
proof -
  have "update_object n f ch = update_object n (\<lambda>e. if e = ch_heap ch ! n then f e else e) ch"
    by (simp add: update_object_def)
  then show ?thesis
    using update_object_inv [OF assms(1), of "\<lambda>e. if e = ch_heap ch ! n then f e else e" n] assms(2, 3) by simp
qed

lemma onRequestChunk_inv:
  assumes "channel_inv ch"
  shows "channel_inv (onRequestChunk frame ch)"
proof (cases "jm_get (ch_inFlight ch) (fr_requestId frame)")
  case (Some n)
  let ?e = "ch_heap ch ! n" and ?i = "fr_requestId frame"
  have "n < length (ch_heap ch)"
    using assms Some by (auto simp: channel_inv_def dest!: jm_get_memD)
  then have ok: "object_ok ch ?e"
    using assms by (auto simp: channel_inv_def)
  obtain r rs where ap: "rs_append (fr_payload frame) (if_reassembler ?e) = (r, rs)" by fastforce
  note ok' = rs_append_object [OF ok ap]
  have bad: "channel_inv ((sendError ?i m (update_object n (\<lambda>e. rejectBody m' (e\<lparr>if_reassembler := rs\<rparr>)) ch))
      \<lparr>ch_inFlight := jm_delete ?i (ch_inFlight ch)\<rparr>)" for m m'
  proof -
    let ?u = "update_object n (\<lambda>e. rejectBody m' (e\<lparr>if_reassembler := rs\<rparr>)) ch"
    have "channel_inv (sendError ?i m ?u)"
      using channel_inv_core [OF sendError_core] update_at_inv [OF assms] ok' by simp
    from delete_id_inv [OF this, of ?i] show ?thesis
      using core_fields [OF sendError_core, of ?i m ?u] by simp
  qed
  have good: "channel_inv (update_object n (\<lambda>e. if isFinalFrame frame
      then resolveBody (rs_take rs) (e\<lparr>if_reassembler := rs, if_bodyComplete := True\<rparr>) else e\<lparr>if_reassembler := rs\<rparr>) ch)"
    by (rule update_at_inv [OF assms]) (simp_all add: ok')
  show ?thesis
    using assms bad good
    by (cases "isFinalFrame frame"; cases r) (simp_all add: onRequestChunk_def Some ap Let_def split: sum.split)
qed (use assms in \<open>simp add: onRequestChunk_def\<close>)

lemma finishRequest_inv:
  assumes "channel_inv ch"
  shows "channel_inv (finishRequest n r ch)"
proof (cases "n < length (ch_heap ch) \<and> \<not> if_finished (ch_heap ch ! n)")
  case True
  define e where "e = ch_heap ch ! n"
  define ch1 where "ch1 = (if if_cancelled e then ch
    else case r of Inr response \<Rightarrow> sendResponse (if_id e) response ch
      | Inl (LocalError status code) \<Rightarrow> sendJson (if_id e) status (error_json code) ch
      | Inl (PlainError _) \<Rightarrow> sendError (if_id e) ''internal_error'' ch)"
  have "core ch1 = core ch"
    by (simp add: ch1_def split: sum.split node_error.split)
  then have "channel_inv ch1" using assms channel_inv_core by blast
  then have "channel_inv (update_object n (\<lambda>e. e\<lparr>if_finished := True\<rparr>) ch1)"
    by (rule update_object_inv) simp_all
  moreover have "finishRequest n r ch =
      (update_object n (\<lambda>e. e\<lparr>if_finished := True\<rparr>) ch1)\<lparr>ch_inFlight := jm_delete (if_id e) (ch_inFlight ch1)\<rparr>"
    using True unfolding finishRequest_def Let_def ch1_def e_def by simp
  ultimately show ?thesis
    using delete_id_inv [of "update_object n (\<lambda>e. e\<lparr>if_finished := True\<rparr>) ch1" "if_id e"] by simp
qed (use assms in \<open>auto simp: finishRequest_def\<close>)

lemma transport_closed_inv: "channel_inv ch \<Longrightarrow> channel_inv (ch\<lparr>ch_isOpen := b\<rparr>)"
  by (simp add: channel_inv_def)

lemma channel_step_inv: "channel_inv ch \<Longrightarrow> channel_inv (channel_step identity ev ch)"
proof (cases ev)
  case (Message data)
  assume inv: "channel_inv ch"
  have "channel_inv (close_channel (sendError 0 m ch))" for m
    using inv channel_inv_core [OF sendError_core] by (intro close_channel_inv) blast
  then show ?thesis
    using inv Message onRequestHead_inv [OF inv] onRequestChunk_inv [OF inv] onCancel_inv [OF inv]
    by (auto simp: handleMessage_def split: sum.split frame_error.split frame_type.split)
qed (simp_all add: proofTimeout_def close_channel_inv finishRequest_inv transport_closed_inv)

interpretation channel_machine: event_machine "channel_step identity" channel_inv
  by unfold_locales (rule channel_step_inv)

section \<open>Properties\<close>

text \<open>The settings of the channel and its handshake flag, and which operations leave them alone.\<close>

definition settings :: "channel \<Rightarrow> nat \<times> nat \<times> bool" where
  "settings ch = (ch_maxConcurrentRequests ch, ch_maxRequestBodyBytes ch, ch_identityHandshakeComplete ch)"

lemma settings_core: "core a = core b \<Longrightarrow> settings a = settings b"
  using core_fields [of a b] by (simp add: settings_def)

lemma settings_simps [simp]:
  "settings (update_object n f ch) = settings ch" "settings (ch\<lparr>ch_inFlight := m\<rparr>) = settings ch"
  "settings (ch\<lparr>ch_heap := h\<rparr>) = settings ch" "settings (ch\<lparr>ch_isOpen := b\<rparr>) = settings ch"
  "settings (ch\<lparr>ch_closed := b\<rparr>) = settings ch" "settings (ch\<lparr>ch_proofTimer := b\<rparr>) = settings ch"
  by (simp_all add: settings_def update_object_def)

lemma settings_send [simp]:
  "settings (sendError i m ch) = settings ch" "settings (sendJson i n v ch) = settings ch"
  "settings (sendResponse i r ch) = settings ch"
  by (rule settings_core; simp)+

lemma settings_cancel [simp]: "settings (fold (\<lambda>n. update_object n f) ns ch) = settings ch"
  by (induction ns arbitrary: ch) simp_all

lemma settings_close [simp]: "settings (close_channel ch) = settings ch"
  by (simp add: close_channel_def Let_def)

lemma settings_cancel_one [simp]: "settings (onCancel i ch) = settings ch"
  by (simp add: onCancel_def split: option.split)

lemma settings_chunk [simp]: "settings (onRequestChunk f ch) = settings ch"
  by (simp add: onRequestChunk_def Let_def split: option.split prod.split sum.split)

lemma settings_finish [simp]: "settings (finishRequest n r ch) = settings ch"
  by (simp add: finishRequest_def Let_def split: sum.split node_error.split)

lemma settings_answer:
  "settings (answerIdentityChallenge identity i m ch) =
    (fst (settings ch), fst (snd (settings ch)), ch_identityHandshakeComplete (answerIdentityChallenge identity i m ch))"
proof -
  have "settings (answerIdentityChallenge identity i m ch) \<in> {settings ch, settings (ch\<lparr>ch_identityHandshakeComplete := True\<rparr>)}"
    by (auto simp: answerIdentityChallenge_def Let_def split: sum.split)
  then show ?thesis by (auto simp: settings_def)
qed

lemma settings_head:
  "settings (onRequestHead identity f ch) =
    (fst (settings ch), fst (snd (settings ch)), ch_identityHandshakeComplete (onRequestHead identity f ch))"
proof -
  have "settings ch = (fst (settings ch), fst (snd (settings ch)), ch_identityHandshakeComplete ch)"
    by (simp add: settings_def)
  moreover have "ch_identityHandshakeComplete x = snd (snd (settings x))" for x
    by (simp add: settings_def)
  ultimately show ?thesis
    using settings_answer [of identity "fr_requestId f" "frame_metadata f" ch] by (auto simp: onRequestHead_def Let_def)
qed

lemma step_limits:
  "fst (settings (channel_step identity ev ch)) = fst (settings ch) \<and>
   fst (snd (settings (channel_step identity ev ch))) = fst (snd (settings ch))"
  using settings_head [of identity _ ch]
  by (cases ev) (auto simp: handleMessage_def proofTimeout_def split: sum.split frame_error.split frame_type.split)

lemma run_limits:
  "ch_maxConcurrentRequests (fold (channel_step identity) es ch) = ch_maxConcurrentRequests ch \<and>
   ch_maxRequestBodyBytes (fold (channel_step identity) es ch) = ch_maxRequestBodyBytes ch"
proof -
  have "fst (settings (fold (channel_step identity) es ch)) = fst (settings ch) \<and>
      fst (snd (settings (fold (channel_step identity) es ch))) = fst (snd (settings ch))"
    by (induction es arbitrary: ch) (simp_all add: step_limits)
  then show ?thesis by (simp add: settings_def)
qed

text \<open>
  C34. What one peer can make the node hold is bounded. Over every sequence of messages, timeouts,
  ends of dispatches and closings, at most \<^verbatim>\<open>maxConcurrentRequests\<close> requests are in flight, and the
  bytes buffered for them are at most that number times \<^verbatim>\<open>maxRequestBodyBytes\<close>.
\<close>
theorem channel_memory_bounded:
  "jm_size (ch_inFlight (fold (channel_step identity) es (new_channel sid m n))) \<le> m \<and>
   sum_list (map (\<lambda>k. length (concat (rs_chunks (if_reassembler (ch_heap (fold (channel_step identity) es (new_channel sid m n)) ! k)))))
     (jm_values (ch_inFlight (fold (channel_step identity) es (new_channel sid m n))))) \<le> m * n"
proof -
  define ch where "ch = fold (channel_step identity) es (new_channel sid m n)"
  have inv: "channel_inv ch"
    unfolding ch_def by (rule channel_machine.run_inv) simp
  have lim: "ch_maxConcurrentRequests ch = m" "ch_maxRequestBodyBytes ch = n"
    using run_limits [of identity es "new_channel sid m n"] by (simp_all add: ch_def new_channel_def)
  have each: "length (concat (rs_chunks (if_reassembler (ch_heap ch ! k)))) \<le> n" if "k \<in> set (jm_values (ch_inFlight ch))" for k
  proof -
    have "k < length (ch_heap ch)" using inv that by (auto simp: channel_inv_def)
    then have "object_ok ch (ch_heap ch ! k)" using inv by (auto simp: channel_inv_def)
    then show ?thesis using lim by (simp add: object_ok_def rs_inv_def)
  qed
  have size: "jm_size (ch_inFlight ch) \<le> m" using inv lim by (simp add: channel_inv_def)
  have "sum_list (map (\<lambda>k. length (concat (rs_chunks (if_reassembler (ch_heap ch ! k))))) (jm_values (ch_inFlight ch)))
      \<le> sum_list (map (\<lambda>_. n) (jm_values (ch_inFlight ch)))"
    using each by (intro sum_list_mono) auto
  also have "\<dots> = jm_size (ch_inFlight ch) * n"
    by (simp add: sum_list_triv comp_def)
  finally show ?thesis
    unfolding ch_def [symmetric] using size by (meson le_trans mult_le_mono1)
qed

subsection \<open>Nothing before the handshake\<close>

text \<open>A message that \<^verbatim>\<open>answerIdentityChallenge\<close> would answer with a proof.\<close>

definition is_challenge :: "bytes \<Rightarrow> bool" where
  "is_challenge data = (case decode_frame data of
     Inl _ \<Rightarrow> False
   | Inr frame \<Rightarrow> fr_type frame = RequestHead \<and> frame_path frame = IDENTITY_CHALLENGE_PATH \<and>
       length (base64_decode (opt_str (as_string (jm_get (frame_metadata frame) ''nonce'')))) = 32)"

lemma handshake_step:
  assumes "\<not> ch_identityHandshakeComplete ch" and "\<forall>data. ev = Message data \<longrightarrow> \<not> is_challenge data"
  shows "\<not> ch_identityHandshakeComplete (channel_step identity ev ch)"
proof -
  have h: "ch_identityHandshakeComplete x = snd (snd (settings x))" for x
    by (simp add: settings_def)
  show ?thesis
  proof (cases ev)
    case (Message data)
    have "snd (snd (settings (onRequestHead identity f ch))) = snd (snd (settings ch))"
      if "decode_frame data = Inr f" "fr_type f = RequestHead" for f
      using assms(2) Message that
      by (auto simp: is_challenge_def onRequestHead_def answerIdentityChallenge_def Let_def split: sum.split)
    then show ?thesis
      using assms(1) Message by (auto simp: h handleMessage_def split: sum.split frame_error.split frame_type.split)
  qed (use assms(1) in \<open>simp_all add: h proofTimeout_def\<close>)
qed

text \<open>
  C3. Before the handshake a peer gets nothing but the pairing protocol. On a fresh channel, as long as no message was a challenge with a
  32-byte nonce, no request the channel has started changes the services' state or claims an idempotency key, whatever credential it
  carries and whatever its body turns out to be. It is refused with an error, and then leaves the pairing state as it is up to the time a
  credential was last used, unless it is one of two requests: to open a pairing session, which takes the administrator's token, or to
  exchange the secret of one.
\<close>
theorem no_effect_before_handshake:
  assumes "\<forall>data. Message data \<in> set es \<longrightarrow> \<not> is_challenge data"
    and "e \<in> set (ch_heap (fold (channel_step identity) es (new_channel sid m n)))"
    and "store_ready (cx_env1 cx) (ap_pairing a)"
    and "dispatchLocalRequest d cx (channel_request sid e promise) a = (r, a')"
  shows "ap_world a' = ap_world a \<and> ap_idempotency a' = ap_idempotency a \<and>
    ((\<exists>err. r = Inl err) \<and> (p_snapshot (ap_pairing a') = p_snapshot (ap_pairing a) \<or>
        (\<exists>cid. p_snapshot (ap_pairing a') = mark_used cid (cx_now cx) (p_snapshot (ap_pairing a)))) \<or>
     to_upper (rq_method (channel_request sid e promise)) = ''POST'' \<and>
       (rq_path (channel_request sid e promise) = ''/local/v1/pairing/session'' \<and> opt_str (ac_guiToken (dp_config d)) \<noteq> [] \<and>
          rq_credential (channel_request sid e promise) = ac_guiToken (dp_config d) \<or>
        rq_path (channel_request sid e promise) = ''/local/v1/pairing/exchange''))"
proof -
  let ?ch = "fold (channel_step identity) es (new_channel sid m n)"
  have "\<not> ch_identityHandshakeComplete (fold (channel_step identity) es ch)"
    if "\<not> ch_identityHandshakeComplete ch" "\<forall>data. Message data \<in> set es \<longrightarrow> \<not> is_challenge data" for es ch
    using that by (induction es arbitrary: ch) (auto simp: handshake_step)
  then have "\<not> ch_identityHandshakeComplete ?ch"
    using assms(1) by (simp add: new_channel_def)
  moreover have "channel_inv ?ch" by (rule channel_machine.run_inv) simp
  ultimately have hs: "\<not> if_handshake e"
    using assms(2) by (auto simp: channel_inv_def object_ok_def)
  then have peer: "lp_kind (rq_peer (channel_request sid e promise)) = Webrtc" "\<not> lp_identityHandshakeComplete (rq_peer (channel_request sid e promise))"
    by (simp_all add: channel_request_def)
  have "ap_world a' = ap_world a"
    using effects_authorized [OF assms(3, 4)] peer(2) by blast
  then show ?thesis using unverified_refused [OF assms(3) peer assms(4)] by blast
qed

text \<open>A paired device that asks for a job before it has challenged the node.\<close>

definition request_message :: "frame_type \<Rightarrow> int \<Rightarrow> bool \<Rightarrow> json_object \<Rightarrow> bytes" where
  "request_message t i final m =
     projr (encode_frame \<lparr>fr_type = t, fr_requestId = i, fr_flags = (if final then int FLAG_FINAL else 0),
        fr_metadata = Some m, fr_payload = None\<rparr>)"

definition demo_head :: bytes where
  "demo_head = request_message RequestHead 1 True [(''method'', JStr ''POST''), (''path'', JStr ''/local/v1/jobs''),
     (''headers'', JObj [(''Authorization'', JStr ''Bearer kubus_local_1'')])]"

definition demo_channel :: "channel_event list \<Rightarrow> channel" where
  "demo_channel es = fold (channel_step demo_identity) es (new_channel ''s1'' 2 1000)"

definition demo_early :: "local_response result \<times> int api" where
  "demo_early = dispatchLocalRequest demo_deps (demo_cx 1) (channel_request ''s1'' (hd (ch_heap (demo_channel [Message demo_head]))) (Inr [])) demo_api"

lemma demo_early_facts:
  "readCredential (if_metadata (hd (ch_heap (demo_channel [Message demo_head])))) = Some ''kubus_local_1''"
  "rq_path (channel_request ''s1'' (hd (ch_heap (demo_channel [Message demo_head]))) (Inr [])) = ''/local/v1/jobs''"
  "\<not> is_challenge demo_head" "ch_heap (demo_channel [Message demo_head]) \<noteq> []"
  by code_simp+

theorem no_effect_before_handshake_witness:
  "readCredential (if_metadata (hd (ch_heap (demo_channel [Message demo_head])))) = Some ''kubus_local_1'' \<and>
   (\<exists>err. fst demo_early = Inl err) \<and> ap_world (snd demo_early) = 0"
proof -
  have "\<forall>data. Message data \<in> set [Message demo_head] \<longrightarrow> \<not> is_challenge data"
    "hd (ch_heap (demo_channel [Message demo_head])) \<in> set (ch_heap (demo_channel [Message demo_head]))"
    using demo_early_facts(3, 4) by simp_all
  moreover have "store_ready (cx_env1 (demo_cx 1)) (ap_pairing demo_api)" by (simp add: demo_cx_def demo_api_def)
  ultimately have "ap_world (snd demo_early) = ap_world demo_api \<and> (\<exists>err. fst demo_early = Inl err)"
    using no_effect_before_handshake [where es = "[Message demo_head]" and identity = demo_identity and sid = "''s1''" and m = 2 and n = 1000
        and e = "hd (ch_heap (demo_channel [Message demo_head]))" and promise = "Inr []" and cx = "demo_cx 1" and a = demo_api and d = demo_deps
        and r = "fst demo_early" and a' = "snd demo_early"] demo_early_facts(2)
    by (auto simp: demo_early_def demo_channel_def)
  then show ?thesis using demo_early_facts(1) by (simp add: demo_api_def)
qed

subsection \<open>What the map does not count\<close>

text \<open>
  The \<^verbatim>\<open>finally\<close> of \<^verbatim>\<open>runRequest\<close> deletes by identifier. When the peer cancels a request and reuses its
  identifier, the end of the first dispatch drops the second request from the map, so its body
  chunks are ignored from then on.
\<close>

lemma stale_finish_drops_new_request:
  "let head = request_message RequestHead 7 False [(''method'', JStr ''PUT''), (''path'', JStr ''/local/v1/captures'')];
       cancel = request_message Cancel 7 True [];
       ch = demo_channel [Message head, Message cancel, Message head]
   in jm_get (ch_inFlight ch) 7 = Some 1 \<and> \<not> if_cancelled (ch_heap ch ! 1) \<and>
      jm_get (ch_inFlight (finishRequest 0 (Inr (JsonResponse 200 None)) ch)) 7 = None"
  by code_simp

text \<open>
  A cancelled request leaves the map at once while its dispatch goes on, so a peer that cancels what
  it starts has more dispatches running than \<^verbatim>\<open>maxConcurrentRequests\<close>.
\<close>

lemma cancelled_dispatches_uncounted:
  "let head = (\<lambda>i. Message (request_message RequestHead i True [(''path'', JStr ''/local/v1/info'')]));
       cancel = (\<lambda>i. Message (request_message Cancel i True []));
       ch = demo_channel [head 1, cancel 1, head 2, cancel 2, head 3, head 4]
   in ch_maxConcurrentRequests ch = 2 \<and> length (filter (\<lambda>e. \<not> if_finished e) (ch_heap ch)) = 4"
  by code_simp

text \<open>The JSON accessor of a data-channel body ignores the limit it is given.\<close>

lemma channel_json_unlimited:
  "lb_json (bodyFor metadata promise) n = lb_json (bodyFor metadata promise) m"
  by (simp add: bodyFor_def)

end
