(* ===== verification/Step_Monad.thy ===== *)
theory Step_Monad
  imports Local_Store
begin

text \<open>
  Asynchronous methods that read and write the node's state and may throw, as functions from a world
  to a result and the world they leave. An \<^verbatim>\<open>await\<close> that throws keeps what was done before it, so
  the world is returned with the error too. \<open>wp\<close> is the weakest precondition of such a method for a
  postcondition on return and one on throw; its equations, collected in \<open>wp_simps\<close>, reduce a method
  to its calls, and \<open>store_in_world\<close> gives the rule for a transaction of the local store that is one
  part of the world.
\<close>

named_theorems wp_simps \<open>weakest preconditions of the composed steps\<close>

section \<open>Steps\<close>

type_synonym ('a, 'w) comp = "'w \<Rightarrow> 'a result \<times> 'w"

definition ret :: "'a \<Rightarrow> ('a, 'w) comp" where
  "ret x w = (Inr x, w)"

definition throw :: "node_error \<Rightarrow> ('a, 'w) comp" where
  "throw e w = (Inl e, w)"

definition of_result :: "'a result \<Rightarrow> ('a, 'w) comp" where
  "of_result r w = (r, w)"

definition reads :: "('w \<Rightarrow> 'a) \<Rightarrow> ('a, 'w) comp" where
  "reads f w = (Inr (f w), w)"

definition writes :: "('w \<Rightarrow> 'w) \<Rightarrow> (unit, 'w) comp" where
  "writes f w = (Inr (), f w)"

text \<open>\<^verbatim>\<open>const x = await m; ...\<close>\<close>

definition andThen :: "('a, 'w) comp \<Rightarrow> ('a \<Rightarrow> ('b, 'w) comp) \<Rightarrow> ('b, 'w) comp" where
  "andThen m f w = (case m w of (Inl e, w1) \<Rightarrow> (Inl e, w1) | (Inr x, w1) \<Rightarrow> f x w1)"

text \<open>\<^verbatim>\<open>try { m } catch (e) { h }\<close>\<close>

definition handle :: "('a, 'w) comp \<Rightarrow> (node_error \<Rightarrow> ('a, 'w) comp) \<Rightarrow> ('a, 'w) comp" where
  "handle m h w = (case m w of (Inl e, w1) \<Rightarrow> h e w1 | (Inr x, w1) \<Rightarrow> (Inr x, w1))"

text \<open>The outcome of a step as a value: \<^verbatim>\<open>m.then(ok, failed)\<close>.\<close>

definition settled :: "('a, 'w) comp \<Rightarrow> ('a result, 'w) comp" where
  "settled m w = (case m w of (r, w1) \<Rightarrow> (Inr r, w1))"

text \<open>\<^verbatim>\<open>for (const x of xs) body(x)\<close>\<close>

fun for_each :: "('a \<Rightarrow> (unit, 'w) comp) \<Rightarrow> 'a list \<Rightarrow> (unit, 'w) comp" where
  "for_each body [] = ret ()"
| "for_each body (x # xs) = andThen (body x) (\<lambda>_. for_each body xs)"

lemmas comp_defs = ret_def throw_def of_result_def reads_def writes_def andThen_def handle_def settled_def

section \<open>Weakest preconditions\<close>

definition wp :: "('a, 'w) comp \<Rightarrow> ('a \<Rightarrow> 'w \<Rightarrow> bool) \<Rightarrow> (node_error \<Rightarrow> 'w \<Rightarrow> bool) \<Rightarrow> 'w \<Rightarrow> bool" where
  "wp m Q R w = (case m w of (Inl e, w1) \<Rightarrow> R e w1 | (Inr x, w1) \<Rightarrow> Q x w1)"

lemma wp_basic [wp_simps]:
  "wp (ret x) Q R w = Q x w" "wp (throw e) Q R w = R e w" "wp (reads f) Q R w = Q (f w) w"
  "wp (writes g) Q' R w = Q' () (g w)"
  "wp (of_result r) Q R w = (case r of Inl e \<Rightarrow> R e w | Inr x \<Rightarrow> Q x w)"
  by (simp_all add: wp_def comp_defs split: sum.split)

lemma wp_basic_fun [wp_simps]: "wp (ret x) Q R = Q x" "wp (throw e) Q R = R e"
  by (rule ext, simp add: wp_basic)+

lemma wp_writes_fun: "wp (writes g) Q R = (\<lambda>w. Q () (g w))"
  by (rule ext) (simp add: wp_basic)

lemma wp_andThen [wp_simps]: "wp (andThen m f) Q R w = wp m (\<lambda>x. wp (f x) Q R) R w"
  by (auto simp: wp_def andThen_def split: prod.split sum.split)

lemma wp_andThen_fun: "wp (andThen m f) Q R = wp m (\<lambda>x. wp (f x) Q R) R"
  by (rule ext) (rule wp_andThen)

lemma wp_handle [wp_simps]: "wp (handle m h) Q R w = wp m Q (\<lambda>e. wp (h e) Q R) w"
  by (auto simp: wp_def handle_def split: prod.split sum.split)

lemma wp_settled [wp_simps]: "wp (settled m) Q R w = wp m (\<lambda>x. Q (Inr x)) (\<lambda>e. Q (Inl e)) w"
  by (auto simp: wp_def settled_def split: prod.split sum.split)

lemma wp_if [wp_simps]: "wp (if b then m else n) Q R w = (if b then wp m Q R w else wp n Q R w)"
  by simp

lemma wp_case_option [wp_simps]:
  "wp (case x of None \<Rightarrow> m | Some y \<Rightarrow> f y) Q R w = (case x of None \<Rightarrow> wp m Q R w | Some y \<Rightarrow> wp (f y) Q R w)"
  by (simp split: option.split)

lemma wp_case_sum [wp_simps]:
  "wp (case x of Inl y \<Rightarrow> f y | Inr z \<Rightarrow> g z) Q R w = (case x of Inl y \<Rightarrow> wp (f y) Q R w | Inr z \<Rightarrow> wp (g z) Q R w)"
  by (simp split: sum.split)

lemma wp_case_prod [wp_simps]:
  "wp (case x of (y, z) \<Rightarrow> f y z) Q R w = (case x of (y, z) \<Rightarrow> wp (f y z) Q R w)"
  by (simp split: prod.split)

lemma wp_mono:
  assumes "wp m Q R w" and "\<And>x w'. Q x w' \<Longrightarrow> Q' x w'" and "\<And>e w'. R e w' \<Longrightarrow> R' e w'"
  shows "wp m Q' R' w"
  using assms by (auto simp: wp_def split: prod.splits sum.splits)

lemma wp_result: "wp m Q R w \<Longrightarrow> m w = (Inr x, w') \<Longrightarrow> Q x w'" "wp m Q R w \<Longrightarrow> m w = (Inl e, w') \<Longrightarrow> R e w'"
  by (simp_all add: wp_def)

text \<open>An invariant: kept whether the step returns or throws.\<close>

lemma wp_snd: "wp m (\<lambda>_. I) (\<lambda>_. I) w \<Longrightarrow> I (snd (m w))"
  by (cases "m w"; cases "fst (m w)") (auto simp: wp_def)

lemma wp_then:
  assumes "wp m (\<lambda>_. I) (\<lambda>_. I) w" and "\<And>x w'. I w' \<Longrightarrow> wp (f x) Q (\<lambda>_. I) w'"
  shows "wp (andThen m f) Q (\<lambda>_. I) w"
  unfolding wp_andThen by (rule wp_mono [OF assms(1)]) (use assms(2) in auto)

lemma wp_handle_inv:
  assumes "wp m (\<lambda>_. I) (\<lambda>_. I) w" and "\<And>e w'. I w' \<Longrightarrow> wp (h e) (\<lambda>_. I) (\<lambda>_. I) w'"
  shows "wp (handle m h) (\<lambda>_. I) (\<lambda>_. I) w"
  unfolding wp_handle by (rule wp_mono [OF assms(1)]) (use assms(2) in auto)

lemma wp_for_each:
  assumes "\<And>x w. x \<in> set xs \<Longrightarrow> I w \<Longrightarrow> wp (body x) (\<lambda>_. I) (\<lambda>_. I) w" and "I w"
  shows "wp (for_each body xs) (\<lambda>_. I) (\<lambda>_. I) w"
  using assms
proof (induction xs arbitrary: w)
  case (Cons x xs)
  then have "wp (body x) (\<lambda>_. I) (\<lambda>_. I) w" by simp
  then show ?case
    unfolding for_each.simps wp_andThen by (rule wp_mono) (use Cons in auto)
qed (simp add: wp_simps)

section \<open>Relations that every step keeps\<close>

text \<open>A computation moves its world only along a relation.\<close>

definition along :: "('w \<Rightarrow> 'w \<Rightarrow> bool) \<Rightarrow> ('a, 'w) comp \<Rightarrow> bool" where
  "along R m \<longleftrightarrow> (\<forall>w. R w (snd (m w)))"

named_theorems along_intros \<open>computations that keep a relation\<close>

lemma along_if [along_intros]: "(b \<Longrightarrow> along R m) \<Longrightarrow> (\<not> b \<Longrightarrow> along R m') \<Longrightarrow> along R (if b then m else m')"
  by simp

lemma along_run: "along R m \<Longrightarrow> m w = (r, w') \<Longrightarrow> R w w'"
  by (metis along_def snd_conv)

locale step_relation =
  fixes R :: "'w \<Rightarrow> 'w \<Rightarrow> bool"
  assumes refl: "R w w" and trans: "R w w1 \<Longrightarrow> R w1 w2 \<Longrightarrow> R w w2"
begin

lemma along_then_result:
  assumes "along R m" and "\<And>x w w1. m w = (Inr x, w1) \<Longrightarrow> along R (f x)"
  shows "along R (andThen m f)"
  unfolding along_def
proof
  fix w
  obtain r w1 where m: "m w = (r, w1)" by (cases "m w")
  then have "R w w1" using along_run [OF assms(1)] by blast
  then show "R w (snd (andThen m f w))"
    using trans assms(2) m by (cases r) (auto simp: andThen_def along_def)
qed

lemma along_then: "along R m \<Longrightarrow> (\<And>x. along R (f x)) \<Longrightarrow> along R (andThen m f)"
  by (rule along_then_result)

lemma along_handle:
  assumes "along R m" and "\<And>e. along R (h e)"
  shows "along R (handle m h)"
  unfolding along_def
proof
  fix w
  obtain r w1 where m: "m w = (r, w1)" by (cases "m w")
  then have "R w w1" using along_run [OF assms(1)] by blast
  then show "R w (snd (handle m h w))"
    using trans assms(2) m by (cases r) (auto simp: handle_def along_def)
qed

lemma along_pure: "along R (ret x)" "along R (throw e)" "along R (of_result r)" "along R (reads f)"
  by (simp_all add: along_def comp_defs refl)

lemma along_for_each: "(\<And>x. along R (body x)) \<Longrightarrow> along R (for_each body xs)"
  by (induction xs) (auto intro: along_then along_pure)

end

section \<open>A transaction of the local store inside a world\<close>

text \<open>\<open>get\<close> and \<open>put\<close> say where the world keeps the store.\<close>

definition transact ::
  "('w \<Rightarrow> 's store) \<Rightarrow> ('s store \<Rightarrow> 'w \<Rightarrow> 'w) \<Rightarrow> 's \<Rightarrow> tx_env \<Rightarrow> ('s \<Rightarrow> 's result) \<Rightarrow> (unit, 'w) comp" where
  "transact get put emptyState env m w =
     (case store_update emptyState env m (get w) of (r, st) \<Rightarrow> (map_sum id (\<lambda>_. ()) r, put st w))"

text \<open>The store of the world is in sync and at this path.\<close>

definition synced :: "string \<Rightarrow> 's store \<Rightarrow> bool" where
  "synced p st \<longleftrightarrow> in_sync st \<and> sto_path st = p"

definition writes_beside :: "string \<Rightarrow> tx_env \<Rightarrow> bool" where
  "writes_beside p env \<longleftrightarrow> te_tmp env \<noteq> p"

lemma saved_store_synced [simp]: "synced ''state.json'' (saved_store s)"
  by (simp add: synced_def) (simp add: saved_store_def)

lemma quiet_env_beside [simp]: "writes_beside ''state.json'' quiet_env"
  by (simp add: writes_beside_def quiet_env_def)

locale store_in_world =
  fixes get :: "'w \<Rightarrow> 's store" and put :: "'s store \<Rightarrow> 'w \<Rightarrow> 'w"
  assumes get_put: "get (put st w) = st"
begin

lemma wp_transact:
  assumes "synced p (get w)" and "writes_beside p env"
    and "\<And>s' st'. Inr s' = m (store_snapshot e (get w)) \<Longrightarrow> synced p st' \<Longrightarrow> store_snapshot e st' = s' \<Longrightarrow> Q () (put st' w)"
    and "\<And>er st'. synced p st' \<Longrightarrow> store_snapshot e st' = store_snapshot e (get w) \<Longrightarrow> R er (put st' w)"
  shows "wp (transact get put e env m) Q R w"
proof -
  obtain r st' where u: "store_update e env m (get w) = (r, st')" by fastforce
  have rd: "store_ready env (get w)"
    using assms(1, 2) by (simp add: store_ready_def synced_def writes_beside_def)
  have "synced p st'"
    using store_update_cases [of "get w" env e m] rd u assms(1) by (simp add: store_ready_def synced_def)
  then show ?thesis
    using local_store.commit [OF rd, of e m] local_store.abort [OF rd, of e m] u assms(3, 4)
    by (cases r) (auto simp: wp_def transact_def dest: sym)
qed

text \<open>What the mutator keeps of the state, the transaction keeps.\<close>

lemma wp_transact_inv:
  assumes "synced p (get w)" and "writes_beside p env"
    and "\<And>s' st'. Inr s' = m (store_snapshot e (get w)) \<Longrightarrow> synced p st' \<Longrightarrow> store_snapshot e st' = s' \<Longrightarrow> I (put st' w)"
    and "\<And>st'. synced p st' \<Longrightarrow> store_snapshot e st' = store_snapshot e (get w) \<Longrightarrow> I (put st' w)"
  shows "wp (transact get put e env m) (\<lambda>_. I) (\<lambda>_. I) w"
  by (rule wp_transact [OF assms(1, 2)]) (use assms(3, 4) in auto)

end

text \<open>A world that is nothing but the store.\<close>

interpretation bare_store: store_in_world "\<lambda>st. st" "\<lambda>st _. st"
  by unfold_locales simp

text \<open>A transaction whose mutator does not throw commits when the file system obeys, and leaves the
  store as writable as it was.\<close>

lemma store_update_writable:
  assumes "store_writable env st" and "store_writable env' st" and "m (store_snapshot e st) = Inr s'"
  shows "\<exists>st'. store_update e env m st = (Inr s', st') \<and> store_snapshot e st' = s' \<and> store_writable env' st'"
proof -
  obtain s where "sto_state st = Some s"
    using assms(1) by (auto simp: store_writable_def store_ready_def in_sync_def split: option.splits)
  then show ?thesis
    using assms
    by (auto simp: store_writable_def store_ready_def in_sync_def store_update_def atomic_write_def io_ok_def
        store_snapshot_def Let_def)
qed

lemma transact_commits:
  assumes "\<forall>env \<in> E. store_writable env (get w)" and "env \<in> E" and "m (store_snapshot e (get w)) = Inr s'"
  shows "\<exists>st'. transact get put e env m w = (Inr (), put st' w) \<and> store_snapshot e st' = s' \<and>
    (\<forall>env \<in> E. store_writable env st')"
proof -
  obtain st' where "store_update e env m (get w) = (Inr s', st')" "store_snapshot e st' = s'"
    using store_update_writable [of env "get w" env m e s'] assms by blast
  then show ?thesis
    using store_update_writable [of env "get w" _ m e s'] assms by (fastforce simp: transact_def)
qed

end
