(* ===== verification/Managed_Pins.thy ===== *)
theory Managed_Pins
  imports Step_Monad Content_Id Json_Text
begin

text \<open>
  Pin ownership, \<^verbatim>\<open>src/src/ipfs/managedPins.ts\<close>, and the pinning of the public archive,
  \<^verbatim>\<open>src/src/ipfs/pinning.ts\<close>. The world is the part of the local state that pins and references
  live in, in the transactional store, and the list of calls made to the Kubo daemon. What the
  daemon, the gateways and the file system answer to one operation is its \<open>kubo_env\<close>. The lock per
  content identifier (\<^verbatim>\<open>exclusive\<close>) makes the operations on one identifier sequential; the model
  runs operations one after the other, and \<open>EvRefs\<close> stands for what other components do to the
  references in between. A crash in the middle of an operation leaves what the transactions so far
  committed, which is what failing transactions leave.
\<close>

section \<open>Model\<close>

datatype pin_ownership = Created | Preexisting | UnknownOwnership

datatype pin_state = Pending | Pinned | ReleasePending | Releasing | ReleaseUncertain | Retained | Released

record managed_pin =
  mp_cid :: string
  mp_ownership :: pin_ownership
  mp_owners :: "(string, int) jsmap"
  mp_state :: pin_state
  mp_updatedAt :: int
  mp_reason :: "string option"
  mp_lastReleasedOwner :: "string option"

record pin_release =
  rel_ownerReleased :: bool
  rel_pinRemoved :: bool
  rel_reason :: "string option"

text \<open>The references \<^verbatim>\<open>referenced\<close> looks for: the cids of \<^verbatim>\<open>desiredCids\<close>; of each spatial record the
  manifest's cid and those of its variants; the private compute cids with \<^verbatim>\<open>pinOwner\<close> and
  \<^verbatim>\<open>releasedAt\<close>; of each remote job its \<^verbatim>\<open>cleanup\<close> with input cid, pin owner and pending flag.\<close>

record job_pin_cleanup =
  jc_inputCid :: "string option"
  jc_pinOwner :: "string option"
  jc_inputPinReleasePending :: "bool option"

record pin_refs =
  rf_desiredCids :: "string list"
  rf_spatial :: "(string option \<times> string option list) list"
  rf_privateComputeCids :: "(string, string option \<times> int option) jsmap"
  rf_remoteJobs :: "job_pin_cleanup option list"

record pins_state =
  ms_managedPins :: "(string, managed_pin) jsmap"
  ms_refs :: pin_refs

definition empty_pins :: pins_state where
  "empty_pins = \<lparr>ms_managedPins = [],
     ms_refs = \<lparr>rf_desiredCids = [], rf_spatial = [], rf_privateComputeCids = [], rf_remoteJobs = []\<rparr>\<rparr>"

datatype kubo_call = PinLs | PinAdd string | PinRm string | AddBytes string

datatype pin_rm_outcome = RmDone | RmFailed bool bool string

text \<open>\<open>ke_pinLs\<close>: \<open>Inr None\<close> is a response without an object of keys. \<open>ke_pinAdd i\<close> is the answer to
  the \<open>i\<close>-th \<^verbatim>\<open>pinAdd\<close> of the operation, \<open>ke_tx i\<close> what surrounds its \<open>i\<close>-th transaction.
  \<open>RmFailed\<close> carries \<^verbatim>\<open>outcomeUncertain === true\<close>, \<^verbatim>\<open>kuboResponseComplete === true\<close> and the message.\<close>

record kubo_env =
  ke_pinLs :: "string list option result"
  ke_pinAdd :: "nat \<Rightarrow> unit result"
  ke_pinRm :: pin_rm_outcome
  ke_fetch :: "string \<Rightarrow> bytes result"
  ke_addBytes :: "bytes \<Rightarrow> string \<Rightarrow> string option result"
  ke_tx :: "nat \<Rightarrow> tx_env"
  ke_now :: int

record pin_world =
  pw_store :: "pins_state store"
  pw_calls :: "kubo_call list"

abbreviation pins_of :: "pin_world \<Rightarrow> pins_state" where
  "pins_of w \<equiv> store_snapshot empty_pins (pw_store w)"

abbreviation record_of :: "string \<Rightarrow> pin_world \<Rightarrow> managed_pin option" where
  "record_of cid w \<equiv> jm_get (ms_managedPins (pins_of w)) cid"

abbreviation put_pins :: "pins_state store \<Rightarrow> pin_world \<Rightarrow> pin_world" where
  "put_pins st w \<equiv> w\<lparr>pw_store := st\<rparr>"

definition pins_update :: "kubo_env \<Rightarrow> nat \<Rightarrow> (pins_state \<Rightarrow> pins_state result) \<Rightarrow> (unit, pin_world) comp" where
  "pins_update env i = transact pw_store put_pins empty_pins (ke_tx env i)"

definition kubo_log :: "kubo_call \<Rightarrow> (unit, pin_world) comp" where
  "kubo_log c = writes (\<lambda>w. w\<lparr>pw_calls := pw_calls w @ [c]\<rparr>)"

text \<open>\<^verbatim>\<open>state.managedPins![cid]!\<close> throws when the record is absent.\<close>

definition change_pin :: "string \<Rightarrow> (managed_pin \<Rightarrow> managed_pin) \<Rightarrow> pins_state \<Rightarrow> pins_state result" where
  "change_pin cid f s =
     (case jm_get (ms_managedPins s) cid of
        None \<Rightarrow> Inl (PlainError ''TypeError'')
      | Some r \<Rightarrow> Inr (s\<lparr>ms_managedPins := jm_set cid (f r) (ms_managedPins s)\<rparr>))"

definition PIN_OWNER_KINDS :: "string list" where
  "PIN_OWNER_KINDS = [''archive'', ''spatial'', ''requester-input'', ''provider-input'', ''manual'']"

definition owner_char :: "char \<Rightarrow> bool" where
  "owner_char c \<longleftrightarrow> is_alnum c \<or> c \<in> set ''_.:-''"

definition valid_owner :: "string \<Rightarrow> bool" where
  "valid_owner owner \<longleftrightarrow> (\<exists>k \<in> set PIN_OWNER_KINDS. starts_with owner (k @ '':'') \<and>
     (let name = drop (length k + 1) owner in 1 \<le> length name \<and> length name \<le> 480 \<and> list_all owner_char name))"

definition checkOwner :: "string \<Rightarrow> unit result" where
  "checkOwner owner = (if valid_owner owner then Inr () else Inl (PlainError ''invalid_pin_owner''))"

text \<open>A key of the listing that is no content identifier makes \<^verbatim>\<open>canonicalPinCid\<close> throw, so the whole
  probe answers \<^verbatim>\<open>unknown\<close>.\<close>

definition listing_ownership :: "(string \<Rightarrow> string option) \<Rightarrow> string \<Rightarrow> string list option result \<Rightarrow> pin_ownership" where
  "listing_ownership cid_v1 cid listing =
     (case listing of
        Inr (Some keys) \<Rightarrow>
          (if \<exists>k \<in> set keys. ok (canonicalPinCid cid_v1 k) = None then UnknownOwnership
           else if \<exists>k \<in> set keys. canonicalPinCid cid_v1 k = Inr cid then Preexisting else Created)
      | _ \<Rightarrow> UnknownOwnership)"

definition probeOwnership :: "(string \<Rightarrow> string option) \<Rightarrow> kubo_env \<Rightarrow> string \<Rightarrow> (pin_ownership, pin_world) comp" where
  "probeOwnership cid_v1 env cid =
     andThen (kubo_log PinLs) (\<lambda>_. ret (listing_ownership cid_v1 cid (ke_pinLs env)))"

definition registered_pin :: "string \<Rightarrow> string \<Rightarrow> pin_ownership \<Rightarrow> int \<Rightarrow> managed_pin option \<Rightarrow> managed_pin" where
  "registered_pin cid owner ownership now previous =
     (let current = (case previous of
                       Some r \<Rightarrow> r
                     | None \<Rightarrow> \<lparr>mp_cid = cid, mp_ownership = ownership, mp_owners = [], mp_state = Pending,
                               mp_updatedAt = now, mp_reason = None, mp_lastReleasedOwner = None\<rparr>)
      in current\<lparr>mp_ownership := ownership,
                 mp_owners := (if jm_has (mp_owners current) owner then mp_owners current
                               else jm_set owner now (mp_owners current)),
                 mp_state := Pending, mp_reason := None, mp_updatedAt := now\<rparr>)"

definition register_owner :: "string \<Rightarrow> string \<Rightarrow> pin_ownership \<Rightarrow> int \<Rightarrow> pins_state \<Rightarrow> pins_state result" where
  "register_owner cid owner ownership now s =
     Inr (s\<lparr>ms_managedPins :=
       jm_set cid (registered_pin cid owner ownership now (jm_get (ms_managedPins s) cid)) (ms_managedPins s)\<rparr>)"

definition review_required :: "managed_pin option \<Rightarrow> bool" where
  "review_required r \<longleftrightarrow> (case r of None \<Rightarrow> False | Some p \<Rightarrow> mp_state p \<in> {Releasing, ReleaseUncertain})"

definition needs_probe :: "managed_pin option \<Rightarrow> bool" where
  "needs_probe r \<longleftrightarrow> (case r of None \<Rightarrow> True | Some p \<Rightarrow> mp_state p \<in> {Released, Pending})"

text \<open>\<open>pin\<close> is the caller's way to pin, by default \<^verbatim>\<open>kubo.pinAdd\<close>.\<close>

definition default_pin :: "kubo_env \<Rightarrow> string \<Rightarrow> (unit, pin_world) comp" where
  "default_pin env cid = andThen (kubo_log (PinAdd cid)) (\<lambda>_. of_result (ke_pinAdd env 0))"

definition acquire ::
  "(string \<Rightarrow> string option) \<Rightarrow> kubo_env \<Rightarrow> string \<Rightarrow> string \<Rightarrow> (string \<Rightarrow> (unit, pin_world) comp) \<Rightarrow> (string, pin_world) comp" where
  "acquire cid_v1 env raw owner pin =
     andThen (of_result (canonicalPinCid cid_v1 raw)) (\<lambda>cid.
     andThen (of_result (checkOwner owner)) (\<lambda>_.
     andThen (reads (record_of cid)) (\<lambda>previous.
       if review_required previous then throw (PlainError ''pin_release_outcome_requires_review'')
       else andThen (if needs_probe previous then probeOwnership cid_v1 env cid else ret (mp_ownership (the previous))) (\<lambda>ownership.
       andThen (pins_update env 0 (register_owner cid owner ownership (ke_now env))) (\<lambda>_.
       andThen (handle
           (andThen (pin cid) (\<lambda>_.
              pins_update env 1 (change_pin cid (\<lambda>r. r\<lparr>mp_state := Pinned, mp_updatedAt := ke_now env\<rparr>))))
           (\<lambda>error.
              andThen (pins_update env 2 (change_pin cid (\<lambda>r. r\<lparr>mp_reason := Some ''pin_acquisition_retry_required''\<rparr>)))
                (\<lambda>_. throw error)))
         (\<lambda>_. ret cid))))))"

definition same_cid :: "(string \<Rightarrow> string option) \<Rightarrow> string \<Rightarrow> string option \<Rightarrow> bool" where
  "same_cid cid_v1 cid raw = (case raw of None \<Rightarrow> False | Some r \<Rightarrow> canonicalPinCid cid_v1 r = Inr cid)"

definition referenced :: "(string \<Rightarrow> string option) \<Rightarrow> string \<Rightarrow> pins_state \<Rightarrow> bool" where
  "referenced cid_v1 cid s \<longleftrightarrow>
     (let refs = ms_refs s; same = same_cid cid_v1 cid in
      list_ex (\<lambda>c. same (Some c)) (rf_desiredCids refs) \<or>
      list_ex (\<lambda>(manifest, variants). same manifest \<or> list_ex same variants) (rf_spatial refs) \<or>
      list_ex (\<lambda>(v, pinOwner, releasedAt). opt_str pinOwner = [] \<and> releasedAt = None \<and> same (Some v)) (rf_privateComputeCids refs) \<or>
      list_ex (\<lambda>job. case job of
          None \<Rightarrow> False
        | Some c \<Rightarrow> opt_str (jc_pinOwner c) = [] \<and> jc_inputPinReleasePending c \<noteq> Some False \<and> same (jc_inputCid c)) (rf_remoteJobs refs))"

definition pin_result :: "bool \<Rightarrow> bool \<Rightarrow> string option \<Rightarrow> pin_release" where
  "pin_result released removed reason = \<lparr>rel_ownerReleased = released, rel_pinRemoved = removed, rel_reason = reason\<rparr>"

definition set_pin_state :: "kubo_env \<Rightarrow> nat \<Rightarrow> string \<Rightarrow> pin_state \<Rightarrow> string option \<Rightarrow> (unit, pin_world) comp" where
  "set_pin_state env i cid st reason = pins_update env i (change_pin cid (\<lambda>r. r\<lparr>mp_state := st, mp_reason := reason\<rparr>))"

text \<open>The \<^verbatim>\<open>try\<close> around \<^verbatim>\<open>kubo.pinRm\<close>.\<close>

definition remove_pin :: "kubo_env \<Rightarrow> string \<Rightarrow> (unit, pin_world) comp" where
  "remove_pin env cid =
     andThen (kubo_log (PinRm cid)) (\<lambda>_.
       case ke_pinRm env of
         RmDone \<Rightarrow> ret ()
       | RmFailed uncertain complete message \<Rightarrow>
           if uncertain \<or> \<not> complete
           then andThen (set_pin_state env 3 cid ReleaseUncertain (Some ''pin_release_outcome_requires_review''))
                  (\<lambda>_. throw (PlainError message))
           else if \<not> str_includes (to_lower message) ''not pinned''
           then andThen (set_pin_state env 3 cid ReleasePending (Some ''pin_release_retry_required''))
                  (\<lambda>_. throw (PlainError message))
           else ret ())"

definition releaseUnreferenced :: "(string \<Rightarrow> string option) \<Rightarrow> bool \<Rightarrow> kubo_env \<Rightarrow> string \<Rightarrow> (pin_release, pin_world) comp" where
  "releaseUnreferenced cid_v1 allowUnpin env cid =
     andThen (reads pins_of) (\<lambda>state.
       case jm_get (ms_managedPins state) cid of
         None \<Rightarrow> ret (pin_result False False (Some ''ownership_unknown''))
       | Some r \<Rightarrow>
           if mp_owners r \<noteq> [] \<or> referenced cid_v1 cid state then ret (pin_result True False (Some ''other_references''))
           else if mp_ownership r \<noteq> Created
           then andThen (set_pin_state env 1 cid Retained (Some ''preexisting_or_unknown_pin''))
                  (\<lambda>_. ret (pin_result True False (Some ''preexisting_or_unknown_pin'')))
           else if \<not> allowUnpin
           then andThen (if mp_state r \<noteq> ReleasePending \<or> mp_reason r \<noteq> Some ''pin_release_activation_required''
                         then set_pin_state env 1 cid ReleasePending (Some ''pin_release_activation_required'') else ret ())
                  (\<lambda>_. ret (pin_result True False (Some ''pin_release_activation_required'')))
           else andThen (set_pin_state env 1 cid Releasing (Some ''pin_release_in_flight'')) (\<lambda>_.
                andThen (remove_pin env cid) (\<lambda>_.
                andThen (pins_update env 2 (change_pin cid
                     (\<lambda>r. r\<lparr>mp_state := Released, mp_reason := None, mp_updatedAt := ke_now env\<rparr>)))
                  (\<lambda>_. ret (pin_result True True None)))))"

definition drop_owner :: "string \<Rightarrow> int \<Rightarrow> managed_pin \<Rightarrow> managed_pin" where
  "drop_owner owner now r =
     (let owners = jm_delete owner (mp_owners r) in
      r\<lparr>mp_owners := owners, mp_lastReleasedOwner := Some owner,
        mp_state := (if owners = [] then ReleasePending else mp_state r), mp_updatedAt := now\<rparr>)"

definition release :: "(string \<Rightarrow> string option) \<Rightarrow> bool \<Rightarrow> kubo_env \<Rightarrow> string \<Rightarrow> string \<Rightarrow> (pin_release, pin_world) comp" where
  "release cid_v1 allowUnpin env raw owner =
     andThen (of_result (canonicalPinCid cid_v1 raw)) (\<lambda>cid.
     andThen (of_result (checkOwner owner)) (\<lambda>_.
     andThen (reads (record_of cid)) (\<lambda>previous.
       if review_required previous then throw (PlainError ''pin_release_outcome_requires_review'')
       else case previous of
         None \<Rightarrow> ret (pin_result False False (Some ''owner_not_registered''))
       | Some r \<Rightarrow>
           if \<not> jm_has (mp_owners r) owner \<and> mp_state r \<noteq> ReleasePending
           then ret (pin_result False False (Some ''owner_not_registered''))
           else andThen (pins_update env 0 (change_pin cid (drop_owner owner (ke_now env))))
                  (\<lambda>_. releaseUnreferenced cid_v1 allowUnpin env cid))))"

text \<open>\<^verbatim>\<open>reconcile\<close> visits the records of one snapshot, keeps the first failure and throws it at the end.\<close>

fun reconcile_records ::
  "(string \<Rightarrow> string option) \<Rightarrow> bool \<Rightarrow> (string \<Rightarrow> kubo_env) \<Rightarrow> string \<Rightarrow> (string, managed_pin) jsmap \<Rightarrow> node_error option
    \<Rightarrow> (unit, pin_world) comp" where
  "reconcile_records cid_v1 allowUnpin envs ownerPrefix [] failure = (case failure of None \<Rightarrow> ret () | Some e \<Rightarrow> throw e)"
| "reconcile_records cid_v1 allowUnpin envs ownerPrefix ((cid, r) # rs) failure =
     (if mp_state r \<noteq> ReleasePending \<or> ownerPrefix \<noteq> [] \<and> \<not> starts_with (opt_str (mp_lastReleasedOwner r)) ownerPrefix
      then reconcile_records cid_v1 allowUnpin envs ownerPrefix rs failure
      else andThen (settled (releaseUnreferenced cid_v1 allowUnpin (envs cid) cid)) (\<lambda>outcome.
             reconcile_records cid_v1 allowUnpin envs ownerPrefix rs
               (case (failure, outcome) of (None, Inl e) \<Rightarrow> Some e | _ \<Rightarrow> failure)))"

definition reconcile :: "(string \<Rightarrow> string option) \<Rightarrow> bool \<Rightarrow> (string \<Rightarrow> kubo_env) \<Rightarrow> string \<Rightarrow> (unit, pin_world) comp" where
  "reconcile cid_v1 allowUnpin envs ownerPrefix =
     andThen (reads pins_of) (\<lambda>s. reconcile_records cid_v1 allowUnpin envs ownerPrefix (ms_managedPins s) None)"

subsection \<open>The public archive\<close>

record pin_item =
  it_id :: json
  it_cid :: string
  it_role :: json
  it_objectType :: json
  it_objectId :: json
  it_version :: json

definition archivePinOwner :: "(string \<Rightarrow> string) \<Rightarrow> pin_item \<Rightarrow> string" where
  "archivePinOwner sha item =
     ''archive:'' @ sha (json_stringify (JArr [it_id item, it_objectType item, it_objectId item, it_version item, it_role item]))"

definition error_message :: "node_error \<Rightarrow> string" where
  "error_message e = str_or (case e of LocalError _ code \<Rightarrow> code | PlainError m \<Rightarrow> m) ''Error''"

fun strip_slashes :: "string \<Rightarrow> string" where
  "strip_slashes s = rev (dropWhile (\<lambda>c. c = CHR ''/'') (rev s))"

text \<open>\<^verbatim>\<open>encodeURIComponent\<close> leaves the letters and digits of a normalised cid alone.\<close>

definition cid_urls :: "string option \<Rightarrow> string \<Rightarrow> string list" where
  "cid_urls apiBaseUrl cid =
     [''https://ipfs.io/ipfs/'' @ cid, ''https://dweb.link/ipfs/'' @ cid] @
     (if opt_str apiBaseUrl = [] then [] else [strip_slashes (opt_str apiBaseUrl) @ ''/api/upload/'' @ cid])"

fun fetch_first :: "(string \<Rightarrow> bytes result) \<Rightarrow> string list \<Rightarrow> string list \<Rightarrow> bytes result" where
  "fetch_first fetch [] errors = Inl (PlainError (''Unable to fetch CID bytes over HTTP: '' @ join_with ''; '' errors))"
| "fetch_first fetch (url # urls) errors =
     (case fetch url of
        Inr bs \<Rightarrow> Inr bs
      | Inl e \<Rightarrow> fetch_first fetch urls (errors @ [url @ '': '' @ error_message e]))"

definition fetchPublicCid :: "kubo_env \<Rightarrow> string option \<Rightarrow> string \<Rightarrow> bytes result" where
  "fetchPublicCid env apiBaseUrl cid = fetch_first (ke_fetch env) (cid_urls apiBaseUrl cid) []"

definition pinWithBackendFallback ::
  "(string \<Rightarrow> string option) \<Rightarrow> kubo_env \<Rightarrow> pin_item \<Rightarrow> string option \<Rightarrow> (unit, pin_world) comp" where
  "pinWithBackendFallback cid_v1 env item apiBaseUrl =
     andThen (of_result (normalizeCid (it_cid item))) (\<lambda>cid.
     andThen (of_result (canonicalPinCid cid_v1 cid)) (\<lambda>pinCid.
       handle (andThen (kubo_log (PinAdd pinCid)) (\<lambda>_. of_result (ke_pinAdd env 0))) (\<lambda>pinError.
       handle
         (andThen (of_result (fetchPublicCid env apiBaseUrl cid)) (\<lambda>bs.
          andThen (kubo_log (AddBytes (cid @ ''.bin''))) (\<lambda>_.
          andThen (of_result (ke_addBytes env bs (cid @ ''.bin''))) (\<lambda>hash.
          andThen (if opt_str hash = [] then throw (PlainError ''HTTP CID bytes hashed to a different content identifier'')
                   else andThen (of_result (canonicalPinCid cid_v1 (opt_str hash))) (\<lambda>added.
                     if added \<noteq> pinCid then throw (PlainError ''HTTP CID bytes hashed to a different content identifier'') else ret ()))
            (\<lambda>_. andThen (kubo_log (PinAdd pinCid)) (\<lambda>_. of_result (ke_pinAdd env 1)))))))
         (\<lambda>fallbackError. throw (PlainError (''Native Kubo retrieval failed ('' @ error_message pinError
            @ ''); HTTP fallback failed ('' @ error_message fallbackError @ '')''))))))"

record pin_attempt =
  pa_cid :: string
  pa_error :: "string option"

text \<open>\<^verbatim>\<open>reconcilePins\<close> with the managed pins its only caller passes; \<open>envs i\<close> surrounds the \<open>i\<close>-th item. A
  record with an invalid cid throws before the \<^verbatim>\<open>try\<close>.\<close>

fun reconcilePins ::
  "(string \<Rightarrow> string option) \<Rightarrow> (string \<Rightarrow> string) \<Rightarrow> (nat \<Rightarrow> kubo_env) \<Rightarrow> bool \<Rightarrow> string option \<Rightarrow> pin_item list
    \<Rightarrow> (pin_attempt list, pin_world) comp" where
  "reconcilePins cid_v1 sha envs skipPinning apiBaseUrl [] = ret []"
| "reconcilePins cid_v1 sha envs skipPinning apiBaseUrl (item # items) =
     andThen (of_result (normalizeCid (it_cid item))) (\<lambda>cid.
     andThen (if skipPinning then ret None
              else handle
                (andThen (acquire cid_v1 (envs 0) cid (archivePinOwner sha item)
                            (\<lambda>_. pinWithBackendFallback cid_v1 (envs 0) item apiBaseUrl)) (\<lambda>_. ret None))
                (\<lambda>e. ret (Some (error_message e)))) (\<lambda>outcome.
     andThen (reconcilePins cid_v1 sha (\<lambda>i. envs (Suc i)) skipPinning apiBaseUrl items) (\<lambda>rest.
       ret (\<lparr>pa_cid = cid, pa_error = outcome\<rparr> # rest))))"

section \<open>The record of one content identifier\<close>

interpretation pins_store: store_in_world pw_store put_pins
  by unfold_locales simp

text \<open>
  What the operations do to the record of one identifier and to the calls made for it. \<open>tracked\<close> says
  that the record satisfies \<open>P\<close> and the calls satisfy \<open>C\<close>; the rules say which changes of \<open>P\<close> and
  \<open>C\<close> an operation needs, and ask for nothing when it works on another identifier.
\<close>

definition tracked :: "string \<Rightarrow> string \<Rightarrow> (managed_pin option \<Rightarrow> bool) \<Rightarrow> (kubo_call list \<Rightarrow> bool) \<Rightarrow> pin_world \<Rightarrow> bool" where
  "tracked p cid P C w \<longleftrightarrow> synced p (pw_store w) \<and> wf_map (ms_managedPins (pins_of w)) \<and> P (record_of cid w) \<and> C (pw_calls w)"

definition ignores_others :: "string \<Rightarrow> (kubo_call list \<Rightarrow> bool) \<Rightarrow> bool" where
  "ignores_others cid C \<longleftrightarrow> (\<forall>cs c. C cs \<longrightarrow> c \<notin> {PinAdd cid, PinRm cid} \<longrightarrow> C (cs @ [c]))"

definition allows_add :: "string \<Rightarrow> (kubo_call list \<Rightarrow> bool) \<Rightarrow> bool" where
  "allows_add cid C \<longleftrightarrow> (\<forall>cs. C cs \<longrightarrow> C (cs @ [PinAdd cid]))"

definition stable :: "(managed_pin option \<Rightarrow> bool) \<Rightarrow> bool" where
  "stable P \<longleftrightarrow> (\<forall>r st re u. P (Some r) \<longrightarrow> P (Some (r\<lparr>mp_state := st, mp_reason := re, mp_updatedAt := u\<rparr>)))"

definition env_beside :: "string \<Rightarrow> kubo_env \<Rightarrow> bool" where
  "env_beside p env \<longleftrightarrow> (\<forall>i. writes_beside p (ke_tx env i))"

lemma stable_changes:
  assumes "stable P" and "P (Some r)"
  shows "P (Some (r\<lparr>mp_state := st, mp_reason := re\<rparr>))" and "P (Some (r\<lparr>mp_state := st, mp_updatedAt := u\<rparr>))"
    and "P (Some (r\<lparr>mp_reason := re\<rparr>))" and "P (Some (r\<lparr>mp_state := st, mp_reason := re, mp_updatedAt := u\<rparr>))"
proof -
  have *: "P (Some (r\<lparr>mp_state := st, mp_reason := re, mp_updatedAt := u\<rparr>))" for st re u
    using assms by (simp add: stable_def)
  show "P (Some (r\<lparr>mp_state := st, mp_reason := re\<rparr>))" using * [where st = st and re = re and u = "mp_updatedAt r"] by simp
  show "P (Some (r\<lparr>mp_state := st, mp_updatedAt := u\<rparr>))" using * [where st = st and re = "mp_reason r" and u = u] by simp
  show "P (Some (r\<lparr>mp_reason := re\<rparr>))" using * [where st = "mp_state r" and re = re and u = "mp_updatedAt r"] by simp
  show "P (Some (r\<lparr>mp_state := st, mp_reason := re, mp_updatedAt := u\<rparr>))" by (rule *)
qed

lemma wp_log:
  assumes "tracked p cid P C w" and "C (pw_calls w @ [c])"
  shows "tracked p cid P C (w\<lparr>pw_calls := pw_calls w @ [c]\<rparr>)"
  using assms by (simp add: tracked_def)

lemma wp_change:
  assumes "tracked p cid P C w" and "env_beside p env" and "\<And>r. c = cid \<Longrightarrow> P (Some r) \<Longrightarrow> P (Some (f r))"
  shows "wp (pins_update env i (change_pin c f)) (\<lambda>_. tracked p cid P C) (\<lambda>_. tracked p cid P C) w"
  unfolding pins_update_def
proof (rule pins_store.wp_transact_inv)
  show "synced p (pw_store w)" "writes_beside p (ke_tx env i)" using assms by (simp_all add: tracked_def env_beside_def)
qed (use assms in \<open>auto simp: tracked_def change_pin_def split: option.splits\<close>)

lemma wp_register:
  assumes "tracked p cid P C w" and "env_beside p env"
    and "c = cid \<Longrightarrow> P (Some (registered_pin cid owner own now (record_of cid w)))"
  shows "wp (pins_update env i (register_owner c owner own now)) (\<lambda>_. tracked p cid P C) (\<lambda>_. tracked p cid P C) w"
  unfolding pins_update_def
proof (rule pins_store.wp_transact_inv)
  show "synced p (pw_store w)" "writes_beside p (ke_tx env i)" using assms by (simp_all add: tracked_def env_beside_def)
qed (use assms in \<open>auto simp: tracked_def register_owner_def\<close>)

lemma acquire_tracked:
  assumes tr: "tracked p cid P C w" and env: "env_beside p env" and ign: "ignores_others cid C"
    and pin: "\<And>c w. canonicalPinCid cid_v1 raw = Inr c \<Longrightarrow> (c = cid \<Longrightarrow> allows_add cid C) \<Longrightarrow> tracked p cid P C w
      \<Longrightarrow> wp (pin c) (\<lambda>_. tracked p cid P C) (\<lambda>_. tracked p cid P C) w"
    and mine: "canonicalPinCid cid_v1 raw = Inr cid \<Longrightarrow> \<not> review_required (record_of cid w) \<Longrightarrow>
      stable P \<and> allows_add cid C \<and>
      P (Some (registered_pin cid owner
        (if needs_probe (record_of cid w) then listing_ownership cid_v1 cid (ke_pinLs env)
         else mp_ownership (the (record_of cid w))) (ke_now env) (record_of cid w)))"
  shows "wp (acquire cid_v1 env raw owner pin) (\<lambda>_. tracked p cid P C) (\<lambda>_. tracked p cid P C) w"
proof (cases "canonicalPinCid cid_v1 raw")
  case (Inr c)
  let ?T = "tracked p cid P C"
  define own where "own = (if needs_probe (record_of c w) then listing_ownership cid_v1 c (ke_pinLs env)
    else mp_ownership (the (record_of c w)))"
  let ?rest = "\<lambda>own. andThen (pins_update env 0 (register_owner c owner own (ke_now env))) (\<lambda>_.
       andThen (handle
           (andThen (pin c) (\<lambda>_. pins_update env 1 (change_pin c (\<lambda>r. r\<lparr>mp_state := Pinned, mp_updatedAt := ke_now env\<rparr>))))
           (\<lambda>error. andThen (pins_update env 2 (change_pin c (\<lambda>r. r\<lparr>mp_reason := Some ''pin_acquisition_retry_required''\<rparr>)))
                (\<lambda>_. throw error)))
         (\<lambda>_. ret c))"
  have rest: "wp (?rest own) (\<lambda>_. ?T) (\<lambda>_. ?T) w'"
    if "?T w'" "record_of c w' = record_of c w" "\<not> review_required (record_of c w)" for w'
  proof -
    have m: "c = cid \<Longrightarrow> stable P \<and> allows_add cid C" using mine Inr that(3) by blast
    have reg: "wp (pins_update env 0 (register_owner c owner own (ke_now env))) (\<lambda>_. ?T) (\<lambda>_. ?T) w'"
      by (rule wp_register [OF that(1) env]) (use mine Inr that own_def in auto)
    have change: "wp (pins_update env i (change_pin c (\<lambda>r. r\<lparr>mp_state := Pinned, mp_updatedAt := ke_now env\<rparr>))) (\<lambda>_. ?T) (\<lambda>_. ?T) v"
      "wp (pins_update env i (change_pin c (\<lambda>r. r\<lparr>mp_reason := Some ''pin_acquisition_retry_required''\<rparr>))) (\<lambda>_. ?T) (\<lambda>_. ?T) v"
      if "?T v" for v i
      by (rule wp_change [OF that env]; use m stable_changes in blast)+
    show ?thesis
      by (intro wp_then [OF reg] wp_then [OF wp_handle_inv])
         (use pin Inr m change in \<open>auto intro!: wp_then simp: wp_basic\<close>)
  qed
  have log: "?T (w\<lparr>pw_calls := pw_calls w @ [PinLs]\<rparr>)"
    using tr ign by (auto simp: tracked_def ignores_others_def)
  show ?thesis
    using tr rest [OF tr] rest [OF log] Inr
    by (auto simp: acquire_def wp_andThen wp_basic wp_if own_def probeOwnership_def kubo_log_def split: sum.split)
qed (use tr in \<open>simp add: acquire_def wp_simps\<close>)

text \<open>Releasing asks that the record of the identifier never be one that may be unpinned.\<close>

definition unremovable :: "(managed_pin option \<Rightarrow> bool) \<Rightarrow> bool" where
  "unremovable P \<longleftrightarrow> (\<forall>r. P (Some r) \<longrightarrow> mp_owners r \<noteq> [] \<or> mp_ownership r \<noteq> Created)"

lemma releaseUnreferenced_tracked:
  assumes tr: "tracked p cid P C w" and env: "env_beside p env" and ign: "ignores_others cid C"
    and mine: "c = cid \<Longrightarrow> stable P \<and> unremovable P"
  shows "wp (releaseUnreferenced cid_v1 allowUnpin env c) (\<lambda>_. tracked p cid P C) (\<lambda>_. tracked p cid P C) w"
proof (cases "record_of c w")
  case None
  then show ?thesis using tr by (simp add: releaseUnreferenced_def wp_simps)
next
  case (Some r)
  let ?T = "tracked p cid P C"
  have set: "wp (set_pin_state env i c st re) (\<lambda>_. ?T) (\<lambda>_. ?T) v" if "?T v" for v i st re
    unfolding set_pin_state_def by (rule wp_change [OF that env]) (use mine stable_changes in blast)
  have fin: "wp (pins_update env i (change_pin c (\<lambda>r. r\<lparr>mp_state := Released, mp_reason := None, mp_updatedAt := u\<rparr>)))
      (\<lambda>_. ?T) (\<lambda>_. ?T) v" if "?T v" for v i u
    by (rule wp_change [OF that env]) (use mine stable_changes in blast)
  have rm: "wp (remove_pin env c) (\<lambda>_. ?T) (\<lambda>_. ?T) v" if "?T v" "c \<noteq> cid" for v
  proof -
    have "?T (v\<lparr>pw_calls := pw_calls v @ [PinRm c]\<rparr>)"
      using that ign by (auto simp: tracked_def ignores_others_def)
    then show ?thesis
      by (auto simp: remove_pin_def kubo_log_def wp_andThen wp_basic wp_if split: pin_rm_outcome.split
          intro!: wp_mono [OF set])
  qed
  have other: "c \<noteq> cid" if "mp_owners r = []" "mp_ownership r = Created"
    using that mine Some tr by (auto simp: unremovable_def tracked_def)
  have go: "wp (andThen (set_pin_state env 1 c Releasing re) (\<lambda>_. andThen (remove_pin env c) (\<lambda>_.
      andThen (pins_update env 2 (change_pin c (\<lambda>r. r\<lparr>mp_state := Released, mp_reason := None, mp_updatedAt := ke_now env\<rparr>)))
        (\<lambda>_. ret (pin_result True True None))))) (\<lambda>_. ?T) (\<lambda>_. ?T) w"
    if "c \<noteq> cid" for re
    by (intro wp_then [OF set [OF tr]] wp_then [OF rm] wp_then [OF fin]) (use that in \<open>auto simp: wp_basic\<close>)
  show ?thesis
    using tr other go Some
    by (auto simp: releaseUnreferenced_def wp_andThen [of "reads _"] wp_basic wp_if wp_case_option intro!: wp_then set)
qed

lemma release_tracked:
  assumes tr: "tracked p cid P C w" and env: "env_beside p env" and ign: "ignores_others cid C"
    and mine: "canonicalPinCid cid_v1 raw = Inr cid \<Longrightarrow> \<not> review_required (record_of cid w) \<Longrightarrow>
      stable P \<and> unremovable P \<and> (\<forall>r. P (Some r) \<longrightarrow> P (Some (drop_owner owner (ke_now env) r)))"
  shows "wp (release cid_v1 allowUnpin env raw owner) (\<lambda>_. tracked p cid P C) (\<lambda>_. tracked p cid P C) w"
proof (cases "canonicalPinCid cid_v1 raw")
  case (Inr c)
  have go: "wp (andThen (pins_update env 0 (change_pin c (drop_owner owner (ke_now env))))
      (\<lambda>_. releaseUnreferenced cid_v1 allowUnpin env c)) (\<lambda>_. tracked p cid P C) (\<lambda>_. tracked p cid P C) w"
    if "\<not> review_required (record_of c w)"
    by (rule wp_then [OF wp_change [OF tr env] releaseUnreferenced_tracked]) (use mine that Inr env ign in auto)
  show ?thesis
    using tr go Inr by (auto simp: release_def wp_andThen [of "of_result _"] wp_andThen [of "reads _"] wp_basic wp_if wp_case_option
        split: sum.split option.split)
qed (use tr in \<open>simp add: release_def wp_simps\<close>)

lemma reconcile_records_tracked:
  assumes "tracked p cid P C w" and "\<And>c. env_beside p (envs c)" and "ignores_others cid C"
    and "\<And>r. (cid, r) \<in> set rs \<Longrightarrow> mp_state r = ReleasePending \<Longrightarrow> stable P \<and> unremovable P"
  shows "wp (reconcile_records cid_v1 allowUnpin envs ownerPrefix rs failure) (\<lambda>_. tracked p cid P C) (\<lambda>_. tracked p cid P C) w"
  using assms
proof (induction rs arbitrary: w failure)
  case (Cons cr rs)
  obtain c r where cr: "cr = (c, r)" by (cases cr)
  have "wp (settled (releaseUnreferenced cid_v1 allowUnpin (envs c) c)) (\<lambda>_. tracked p cid P C) (\<lambda>_. tracked p cid P C) w"
    if "mp_state r = ReleasePending"
    unfolding wp_settled by (rule releaseUnreferenced_tracked) (use Cons.prems that cr in auto)
  then show ?case
    using Cons unfolding cr by (auto intro!: wp_then)
qed (auto simp: wp_basic split: option.split)

lemma reconcile_tracked:
  assumes "tracked p cid P C w" and "\<And>c. env_beside p (envs c)" and "ignores_others cid C"
    and "\<And>r. record_of cid w = Some r \<Longrightarrow> mp_state r = ReleasePending \<Longrightarrow> stable P \<and> unremovable P"
  shows "wp (reconcile cid_v1 allowUnpin envs ownerPrefix) (\<lambda>_. tracked p cid P C) (\<lambda>_. tracked p cid P C) w"
  unfolding reconcile_def wp_andThen wp_basic
  by (rule reconcile_records_tracked) (use assms in \<open>auto simp: tracked_def dest: jm_get_memI\<close>)

lemma fallback_tracked:
  assumes tr: "tracked p cid P C w" and ign: "ignores_others cid C"
    and add: "\<And>c c'. normalizeCid (it_cid item) = Inr c' \<Longrightarrow> canonicalPinCid cid_v1 c' = Inr cid \<Longrightarrow> allows_add cid C"
  shows "wp (pinWithBackendFallback cid_v1 env item apiBaseUrl) (\<lambda>_. tracked p cid P C) (\<lambda>_. tracked p cid P C) w"
proof (cases "normalizeCid (it_cid item)")
  case (Inr c')
  show ?thesis
  proof (cases "canonicalPinCid cid_v1 c'")
    case (Inr pinCid)
    have log: "tracked p cid P C (v\<lparr>pw_calls := pw_calls v @ [c]\<rparr>)"
      if "tracked p cid P C v" "c = PinAdd pinCid \<or> c = AddBytes n" for v c n
      using that ign add \<open>normalizeCid (it_cid item) = Inr c'\<close> Inr
      by (cases "pinCid = cid") (auto simp: tracked_def ignores_others_def allows_add_def)
    show ?thesis
      using log [OF log [OF log [OF tr]], of "PinAdd pinCid" "c' @ ''.bin''"] log [OF log [OF tr]] log [OF tr]
      unfolding pinWithBackendFallback_def \<open>normalizeCid (it_cid item) = Inr c'\<close> Inr
      by (auto simp: wp_simps Inr kubo_log_def split: sum.split)
  qed (use tr Inr in \<open>simp add: pinWithBackendFallback_def wp_simps\<close>)
qed (use tr in \<open>simp add: pinWithBackendFallback_def wp_simps\<close>)

section \<open>Sequences of operations\<close>

text \<open>An operation of the node on its pins, or (\<open>EvRefs\<close>) of another component on the references.\<close>

datatype pins_event =
    EvAcquire kubo_env string string
  | EvArchive "nat \<Rightarrow> kubo_env" bool "string option" "pin_item list"
  | EvRelease kubo_env bool string string
  | EvReconcile "string \<Rightarrow> kubo_env" bool string
  | EvRefs tx_env pin_refs

fun pins_step :: "(string \<Rightarrow> string option) \<Rightarrow> (string \<Rightarrow> string) \<Rightarrow> pins_event \<Rightarrow> pin_world \<Rightarrow> pin_world" where
  "pins_step cid_v1 sha (EvAcquire env raw owner) w = snd (acquire cid_v1 env raw owner (default_pin env) w)"
| "pins_step cid_v1 sha (EvArchive envs skip api items) w = snd (reconcilePins cid_v1 sha envs skip api items w)"
| "pins_step cid_v1 sha (EvRelease env allow raw owner) w = snd (release cid_v1 allow env raw owner w)"
| "pins_step cid_v1 sha (EvReconcile envs allow pre) w = snd (reconcile cid_v1 allow envs pre w)"
| "pins_step cid_v1 sha (EvRefs env refs) w = snd (transact pw_store put_pins empty_pins env (\<lambda>s. Inr (s\<lparr>ms_refs := refs\<rparr>)) w)"

fun event_envs :: "pins_event \<Rightarrow> kubo_env set" where
  "event_envs (EvAcquire env raw owner) = {env}"
| "event_envs (EvArchive envs skip api items) = range envs"
| "event_envs (EvRelease env allow raw owner) = {env}"
| "event_envs (EvReconcile envs allow pre) = range envs"
| "event_envs (EvRefs env refs) = {}"

fun event_beside :: "string \<Rightarrow> pins_event \<Rightarrow> bool" where
  "event_beside p (EvRefs env refs) = writes_beside p env"
| "event_beside p ev = (\<forall>env \<in> event_envs ev. env_beside p env)"

definition registers_ok :: "(string \<Rightarrow> string option) \<Rightarrow> string \<Rightarrow> (managed_pin option \<Rightarrow> bool) \<Rightarrow> kubo_env \<Rightarrow> managed_pin option \<Rightarrow> bool" where
  "registers_ok cid_v1 cid P env previous \<longleftrightarrow> (\<forall>owner. P (Some (registered_pin cid owner
     (if needs_probe previous then listing_ownership cid_v1 cid (ke_pinLs env) else mp_ownership (the previous)) (ke_now env) previous)))"

text \<open>What an event asks of \<open>P\<close> and \<open>C\<close>, for a record that is not under review.\<close>

definition event_ok :: "(string \<Rightarrow> string option) \<Rightarrow> string \<Rightarrow> (managed_pin option \<Rightarrow> bool) \<Rightarrow> (kubo_call list \<Rightarrow> bool) \<Rightarrow> pins_event \<Rightarrow> bool" where
  "event_ok cid_v1 cid P C ev \<longleftrightarrow> (\<forall>r. P r \<longrightarrow> \<not> review_required r \<longrightarrow>
     stable P \<and> unremovable P \<and> allows_add cid C \<and> (\<forall>env \<in> event_envs ev. registers_ok cid_v1 cid P env r) \<and>
     (\<forall>env allow raw owner. ev = EvRelease env allow raw owner \<longrightarrow> canonicalPinCid cid_v1 raw = Inr cid \<longrightarrow>
        (\<forall>r. P (Some r) \<longrightarrow> P (Some (drop_owner owner (ke_now env) r)))))"

lemma default_pin_tracked:
  assumes "tracked p cid P C w" and "ignores_others cid C" and "c = cid \<Longrightarrow> allows_add cid C"
  shows "wp (default_pin env c) (\<lambda>_. tracked p cid P C) (\<lambda>_. tracked p cid P C) w"
  using assms by (cases "c = cid")
    (auto simp: default_pin_def kubo_log_def wp_simps tracked_def ignores_others_def allows_add_def split: sum.split)

lemma reconcilePins_tracked:
  assumes "tracked p cid P C w" and "\<And>i. env_beside p (envs i)" and "ignores_others cid C"
    and "\<And>i r. P r \<Longrightarrow> \<not> review_required r \<Longrightarrow> stable P \<and> allows_add cid C \<and> registers_ok cid_v1 cid P (envs i) r"
  shows "wp (reconcilePins cid_v1 sha envs skip api items) (\<lambda>_. tracked p cid P C) (\<lambda>_. tracked p cid P C) w"
  using assms
proof (induction items arbitrary: w envs)
  case (Cons item items)
  let ?T = "tracked p cid P C"
  show ?case
  proof (cases "normalizeCid (it_cid item)")
    case (Inr c)
    have P: "P (record_of cid w)" using Cons.prems(1) by (simp add: tracked_def)
    have acq: "wp (acquire cid_v1 (envs 0) c (archivePinOwner sha item) (\<lambda>_. pinWithBackendFallback cid_v1 (envs 0) item api))
        (\<lambda>_. ?T) (\<lambda>_. ?T) w"
    proof (rule acquire_tracked [OF Cons.prems(1, 2, 3)])
      fix c' v
      assume "canonicalPinCid cid_v1 c = Inr c'" "c' = cid \<Longrightarrow> allows_add cid C" "?T v"
      then show "wp (pinWithBackendFallback cid_v1 (envs 0) item api) (\<lambda>_. ?T) (\<lambda>_. ?T) v"
        using fallback_tracked [of p cid P C v item cid_v1 "envs 0" api] Cons.prems(3) Inr by auto
    qed (use Cons.prems(4) P in \<open>auto simp: registers_ok_def\<close>)
    have IH: "wp (reconcilePins cid_v1 sha (\<lambda>i. envs (Suc i)) skip api items) (\<lambda>_. ?T) (\<lambda>_. ?T) v" if "?T v" for v
      by (rule Cons.IH [OF that]) (use Cons.prems in auto)
    have attempt: "wp (if skip then ret None else handle (andThen (acquire cid_v1 (envs 0) c (archivePinOwner sha item)
          (\<lambda>_. pinWithBackendFallback cid_v1 (envs 0) item api)) (\<lambda>_. ret None)) (\<lambda>e. ret (Some (error_message e))))
        (\<lambda>_. ?T) (\<lambda>_. ?T) w"
      using Cons.prems(1) acq by (auto simp: wp_if wp_basic intro!: wp_handle_inv wp_then [OF acq])
    show ?thesis
      by (simp only: reconcilePins.simps wp_andThen [of "of_result _"] wp_basic Inr sum.case)
         (intro wp_then [OF attempt] wp_then [OF IH]; simp add: wp_basic)
  qed (use Cons.prems(1) in \<open>simp add: wp_simps\<close>)
qed (simp add: wp_basic)

lemma pins_step_tracked:
  assumes "tracked p cid P C w" and "ignores_others cid C" and "event_beside p ev" and "event_ok cid_v1 cid P C ev"
  shows "tracked p cid P C (pins_step cid_v1 sha ev w)"
proof -
  have P: "P (record_of cid w)" using assms(1) by (simp add: tracked_def)
  show ?thesis
  proof (cases ev)
    case (EvAcquire env raw owner)
    have "wp (acquire cid_v1 env raw owner (default_pin env)) (\<lambda>_. tracked p cid P C) (\<lambda>_. tracked p cid P C) w"
      by (rule acquire_tracked [OF assms(1) _ assms(2)])
         (use assms P EvAcquire in \<open>auto simp: event_ok_def registers_ok_def intro!: default_pin_tracked\<close>)
    then show ?thesis using wp_snd EvAcquire by auto
  next
    case (EvArchive envs skip api items)
    have "wp (reconcilePins cid_v1 sha envs skip api items) (\<lambda>_. tracked p cid P C) (\<lambda>_. tracked p cid P C) w"
      by (rule reconcilePins_tracked [OF assms(1) _ assms(2)]) (use assms EvArchive in \<open>auto simp: event_ok_def\<close>)
    then show ?thesis using wp_snd EvArchive by auto
  next
    case (EvRelease env allow raw owner)
    have "wp (release cid_v1 allow env raw owner) (\<lambda>_. tracked p cid P C) (\<lambda>_. tracked p cid P C) w"
      by (rule release_tracked [OF assms(1) _ assms(2)]) (use assms P EvRelease in \<open>auto simp: event_ok_def\<close>)
    then show ?thesis using wp_snd EvRelease by auto
  next
    case (EvReconcile envs allow pre)
    have "wp (reconcile cid_v1 allow envs pre) (\<lambda>_. tracked p cid P C) (\<lambda>_. tracked p cid P C) w"
      by (rule reconcile_tracked [OF assms(1) _ assms(2)])
         (use assms P EvReconcile in \<open>auto simp: event_ok_def review_required_def\<close>)
    then show ?thesis using wp_snd EvReconcile by auto
  next
    case (EvRefs env refs)
    have "wp (transact pw_store put_pins empty_pins env (\<lambda>s. Inr (s\<lparr>ms_refs := refs\<rparr>))) (\<lambda>_. tracked p cid P C) (\<lambda>_. tracked p cid P C) w"
      by (rule pins_store.wp_transact_inv [where p = p]) (use assms EvRefs in \<open>auto simp: tracked_def\<close>)
    then show ?thesis using wp_snd EvRefs by auto
  qed
qed

lemma pins_run_tracked:
  assumes "tracked p cid P C w" and "ignores_others cid C" and "\<forall>ev \<in> set evs. event_beside p ev \<and> event_ok cid_v1 cid P C ev"
  shows "tracked p cid P C (fold (pins_step cid_v1 sha) evs w)"
  using assms by (induction evs arbitrary: w) (auto intro!: pins_step_tracked)

section \<open>Properties\<close>

lemma registered_pin_simps [simp]:
  "mp_ownership (registered_pin cid owner own now prev) = own"
  "jm_has (mp_owners (registered_pin cid owner own now prev)) o' \<longleftrightarrow>
     o' = owner \<or> (case prev of None \<Rightarrow> False | Some r \<Rightarrow> jm_has (mp_owners r) o')"
  by (auto simp: registered_pin_def jm_has_def Let_def split: option.splits)

lemma listing_lists:
  assumes "\<And>keys. ke_pinLs env = Inr (Some keys) \<Longrightarrow> \<exists>k \<in> set keys. canonicalPinCid cid_v1 k = Inr cid"
  shows "listing_ownership cid_v1 cid (ke_pinLs env) \<noteq> Created"
  using assms by (auto simp: listing_ownership_def split: sum.splits option.splits)

text \<open>
  C8. A pin that was there before the node is never removed. If Kubo lists an identifier whenever it
  lists its pins, and the node has no record of it at the beginning, then no sequence of
  acquisitions, archive reconciliations, releases and release retries, whatever the owners, the
  options, the other components' references, the daemon's answers and the failures of the state
  file, makes the node ask Kubo to unpin it.
\<close>
theorem foreign_pin_never_removed:
  assumes "synced p (pw_store w)" and "wf_map (ms_managedPins (pins_of w))"
    and "record_of cid w = None" and "PinRm cid \<notin> set (pw_calls w)"
    and "\<forall>ev \<in> set evs. event_beside p ev"
    and "\<forall>ev \<in> set evs. \<forall>env \<in> event_envs ev. \<forall>keys. ke_pinLs env = Inr (Some keys) \<longrightarrow>
           (\<exists>k \<in> set keys. canonicalPinCid cid_v1 k = Inr cid)"
  shows "PinRm cid \<notin> set (pw_calls (fold (pins_step cid_v1 sha) evs w))"
proof -
  define P :: "managed_pin option \<Rightarrow> bool" where "P = (\<lambda>r. \<forall>x. r = Some x \<longrightarrow> mp_ownership x \<noteq> Created)"
  define C where "C = (\<lambda>cs. PinRm cid \<notin> set cs)"
  have "tracked p cid P C w" using assms by (simp add: tracked_def P_def C_def)
  moreover have "ignores_others cid C" by (auto simp: ignores_others_def C_def)
  moreover have "event_ok cid_v1 cid P C ev" if "ev \<in> set evs" for ev
  proof -
    have "listing_ownership cid_v1 cid (ke_pinLs env) \<noteq> Created" if "env \<in> event_envs ev" for env
      by (rule listing_lists) (use assms(6) \<open>ev \<in> set evs\<close> that in blast)
    then show ?thesis
      by (auto simp: event_ok_def registers_ok_def P_def C_def stable_def unremovable_def allows_add_def drop_owner_def
          needs_probe_def Let_def split: option.splits)
  qed
  ultimately have "tracked p cid P C (fold (pins_step cid_v1 sha) evs w)"
    using pins_run_tracked [of p cid P C w evs] assms(5) by blast
  then show ?thesis by (simp add: tracked_def C_def)
qed

text \<open>
  C9. A pin is kept as long as one owner has not released it. From a state in which an owner is
  registered for an identifier, over every sequence of operations that does not contain this
  owner's release of it, the owner stays registered and Kubo is not asked to unpin the identifier.
\<close>
theorem owned_pin_kept:
  assumes "synced p (pw_store w)" and "wf_map (ms_managedPins (pins_of w))"
    and "record_of cid w = Some r" and "jm_has (mp_owners r) owner"
    and "\<forall>ev \<in> set evs. event_beside p ev"
    and "\<forall>env allow raw. EvRelease env allow raw owner \<in> set evs \<longrightarrow> canonicalPinCid cid_v1 raw \<noteq> Inr cid"
  shows "\<exists>r' calls. record_of cid (fold (pins_step cid_v1 sha) evs w) = Some r' \<and> jm_has (mp_owners r') owner \<and>
    pw_calls (fold (pins_step cid_v1 sha) evs w) = pw_calls w @ calls \<and> PinRm cid \<notin> set calls"
proof -
  define P :: "managed_pin option \<Rightarrow> bool" where "P = (\<lambda>r. \<exists>x. r = Some x \<and> jm_has (mp_owners x) owner)"
  define C where "C = (\<lambda>cs. \<exists>xs. cs = pw_calls w @ xs \<and> PinRm cid \<notin> set xs)"
  have "tracked p cid P C w" using assms by (auto simp: tracked_def P_def C_def)
  moreover have "ignores_others cid C" "allows_add cid C"
    by (auto simp: ignores_others_def allows_add_def C_def)
  moreover have "event_ok cid_v1 cid P C ev" if "ev \<in> set evs" for ev
    using assms(6) that \<open>allows_add cid C\<close>
    by (auto simp: event_ok_def registers_ok_def P_def stable_def unremovable_def drop_owner_def Let_def)
       (auto simp: jm_has_def)
  ultimately have "tracked p cid P C (fold (pins_step cid_v1 sha) evs w)"
    using pins_run_tracked [of p cid P C w evs] assms(5) by blast
  then show ?thesis by (auto simp: tracked_def P_def C_def)
qed

text \<open>
  An unpin whose outcome is not known is never followed by another. Once the record of an
  identifier says that a release is in flight or uncertain, every acquisition and release of it is
  refused with the demand for a review, and over every sequence of operations the record stays as
  it is and Kubo is asked neither to pin nor to unpin it.
\<close>
theorem uncertain_release_frozen:
  assumes "synced p (pw_store w)" and "wf_map (ms_managedPins (pins_of w))"
    and "record_of cid w = Some r" and "mp_state r \<in> {Releasing, ReleaseUncertain}"
    and "\<forall>ev \<in> set evs. event_beside p ev"
    and "canonicalPinCid cid_v1 raw = Inr cid" and "valid_owner owner"
  shows "acquire cid_v1 env raw owner pin w = (Inl (PlainError ''pin_release_outcome_requires_review''), w) \<and>
    release cid_v1 allow env raw owner w = (Inl (PlainError ''pin_release_outcome_requires_review''), w) \<and>
    record_of cid (fold (pins_step cid_v1 sha) evs w) = Some r \<and>
    (\<exists>calls. pw_calls (fold (pins_step cid_v1 sha) evs w) = pw_calls w @ calls \<and> PinAdd cid \<notin> set calls \<and> PinRm cid \<notin> set calls)"
proof -
  define P :: "managed_pin option \<Rightarrow> bool" where "P = (\<lambda>x. x = Some r)"
  define C where "C = (\<lambda>cs. \<exists>xs. cs = pw_calls w @ xs \<and> PinAdd cid \<notin> set xs \<and> PinRm cid \<notin> set xs)"
  have "tracked p cid P C w" using assms by (auto simp: tracked_def P_def C_def)
  moreover have "ignores_others cid C" by (auto simp: ignores_others_def C_def)
  moreover have "event_ok cid_v1 cid P C ev" for ev
    using assms(4) by (auto simp: event_ok_def P_def review_required_def)
  ultimately have "tracked p cid P C (fold (pins_step cid_v1 sha) evs w)"
    using pins_run_tracked [of p cid P C w evs] assms(5) by blast
  then show ?thesis
    using assms(3, 4, 6, 7)
    by (auto simp: tracked_def P_def C_def acquire_def release_def comp_defs checkOwner_def review_required_def)
qed

text \<open>When the state can be written, a change of the record happens.\<close>

lemma pins_update_commits:
  assumes "\<forall>t \<in> E. store_writable t (pw_store w)" and "ke_tx env i \<in> E" and "m (pins_of w) = Inr s'"
  obtains st' where "pins_update env i m w = (Inr (), w\<lparr>pw_store := st'\<rparr>)" and "store_snapshot empty_pins st' = s'"
    and "\<forall>t \<in> E. store_writable t st'"
  using transact_commits [where get = pw_store and put = put_pins and e = empty_pins and w = w and E = E and env = "ke_tx env i"
      and m = m and s' = s'] assms by (auto simp: pins_update_def)

lemma change_pin_commits:
  assumes "\<forall>t \<in> E. store_writable t (pw_store w)" and "ke_tx env i \<in> E" and "record_of cid w = Some r"
  obtains st' where "pins_update env i (change_pin cid f) w = (Inr (), w\<lparr>pw_store := st'\<rparr>)"
    and "jm_get (ms_managedPins (store_snapshot empty_pins st')) cid = Some (f r)"
    and "ms_refs (store_snapshot empty_pins st') = ms_refs (pins_of w)" and "\<forall>t \<in> E. store_writable t st'"
proof -
  let ?s' = "(pins_of w)\<lparr>ms_managedPins := jm_set cid (f r) (ms_managedPins (pins_of w))\<rparr>"
  obtain st' where "pins_update env i (change_pin cid f) w = (Inr (), w\<lparr>pw_store := st'\<rparr>)"
    "store_snapshot empty_pins st' = ?s'" "\<forall>t \<in> E. store_writable t st'"
    using pins_update_commits [OF assms(1, 2), of "change_pin cid f" ?s'] assms(3) by (auto simp: change_pin_def)
  then show thesis using that by simp
qed

lemma referenced_refs: "ms_refs s = ms_refs s' \<Longrightarrow> referenced cid_v1 cid s = referenced cid_v1 cid s'"
  by (simp add: referenced_def)

lemma acquire_fresh:
  assumes E: "\<forall>t \<in> E. store_writable t (pw_store w)" "range (ke_tx env) \<subseteq> E"
    and "canonicalPinCid cid_v1 raw = Inr cid" and "valid_owner owner" and "record_of cid w = None"
    and own: "listing_ownership cid_v1 cid (ke_pinLs env) = own" and "ke_pinAdd env 0 = Inr ()"
  shows "\<exists>w1 r. acquire cid_v1 env raw owner (default_pin env) w = (Inr cid, w1) \<and>
    pw_calls w1 = pw_calls w @ [PinLs, PinAdd cid] \<and> record_of cid w1 = Some r \<and> mp_owners r = [(owner, ke_now env)] \<and>
    mp_ownership r = own \<and> mp_state r = Pinned \<and> ms_refs (pins_of w1) = ms_refs (pins_of w) \<and>
    (\<forall>t \<in> E. store_writable t (pw_store w1))"
proof -
  define reg where "reg = registered_pin cid owner own (ke_now env) None"
  have reg: "mp_owners reg = [(owner, ke_now env)]" "mp_ownership reg = own"
    by (simp_all add: reg_def registered_pin_def Let_def jm_has_def)
  let ?w0 = "w\<lparr>pw_calls := pw_calls w @ [PinLs]\<rparr>" and ?m = "register_owner cid owner own (ke_now env)"
  let ?s1 = "(pins_of w)\<lparr>ms_managedPins := jm_set cid reg (ms_managedPins (pins_of w))\<rparr>"
  obtain st1 where u1: "pins_update env 0 ?m ?w0 = (Inr (), ?w0\<lparr>pw_store := st1\<rparr>)"
    "store_snapshot empty_pins st1 = ?s1" "\<forall>t \<in> E. store_writable t st1"
    by (rule pins_update_commits [where E = E and w = ?w0 and env = env and i = 0 and m = ?m and s' = ?s1])
       (use assms in \<open>auto simp: register_owner_def reg_def\<close>)
  let ?w1 = "w\<lparr>pw_store := st1, pw_calls := pw_calls w @ [PinLs, PinAdd cid]\<rparr>"
    and ?f = "\<lambda>r. r\<lparr>mp_state := Pinned, mp_updatedAt := ke_now env\<rparr>"
  obtain st2 where u2: "pins_update env 1 (change_pin cid ?f) ?w1 = (Inr (), ?w1\<lparr>pw_store := st2\<rparr>)"
    "jm_get (ms_managedPins (store_snapshot empty_pins st2)) cid = Some (?f reg)"
    "ms_refs (store_snapshot empty_pins st2) = ms_refs (pins_of ?w1)" "\<forall>t \<in> E. store_writable t st2"
    by (rule change_pin_commits [where E = E and w = ?w1 and env = env and i = 1 and cid = cid and r = reg and f = ?f])
       (use u1 E in auto)
  have "acquire cid_v1 env raw owner (default_pin env) w = (Inr cid, ?w1\<lparr>pw_store := st2\<rparr>)"
    using assms(3-5, 7) u1(1) u2(1)
    by (simp add: acquire_def comp_defs checkOwner_def review_required_def needs_probe_def probeOwnership_def
        kubo_log_def own default_pin_def)
  then show ?thesis using u1 u2 reg by auto
qed

lemma release_sole_owner:
  assumes E: "\<forall>t \<in> E. store_writable t (pw_store w)" "range (ke_tx env) \<subseteq> E"
    and "canonicalPinCid cid_v1 raw = Inr cid" and "valid_owner owner"
    and r: "record_of cid w = Some r" "mp_owners r = [(owner, t)]" "mp_ownership r = Created" "mp_state r = Pinned"
    and "ke_pinRm env = RmDone" and refs: "\<not> referenced cid_v1 cid (pins_of w)"
  shows "\<exists>w' r'. release cid_v1 True env raw owner w = (Inr (pin_result True True None), w') \<and>
    pw_calls w' = pw_calls w @ [PinRm cid] \<and> record_of cid w' = Some r' \<and> mp_state r' = Released \<and> mp_owners r' = []"
proof -
  let ?d = "drop_owner owner (ke_now env)"
    and ?g = "\<lambda>r. r\<lparr>mp_state := Releasing, mp_reason := Some ''pin_release_in_flight''\<rparr>"
    and ?f = "\<lambda>r. r\<lparr>mp_state := Released, mp_reason := None, mp_updatedAt := ke_now env\<rparr>"
  have d: "mp_owners (?d r) = []" "mp_ownership (?d r) = Created" using r by (simp_all add: drop_owner_def Let_def)
  obtain st1 where u1: "pins_update env 0 (change_pin cid ?d) w = (Inr (), w\<lparr>pw_store := st1\<rparr>)"
    "jm_get (ms_managedPins (store_snapshot empty_pins st1)) cid = Some (?d r)"
    "ms_refs (store_snapshot empty_pins st1) = ms_refs (pins_of w)" "\<forall>t \<in> E. store_writable t st1"
    by (rule change_pin_commits [where w = w and env = env and i = 0 and f = ?d, OF E(1) _ r(1)]) (use E in auto)
  let ?w1 = "w\<lparr>pw_store := st1\<rparr>"
  obtain st2 where u2: "pins_update env 1 (change_pin cid ?g) ?w1 = (Inr (), ?w1\<lparr>pw_store := st2\<rparr>)"
    "jm_get (ms_managedPins (store_snapshot empty_pins st2)) cid = Some (?g (?d r))" "\<forall>t \<in> E. store_writable t st2"
    by (rule change_pin_commits [where E = E and w = ?w1 and env = env and i = 1 and cid = cid and r = "?d r" and f = ?g])
       (use u1 E in auto)
  let ?w2 = "w\<lparr>pw_store := st2, pw_calls := pw_calls w @ [PinRm cid]\<rparr>"
  obtain st3 where u3: "pins_update env 2 (change_pin cid ?f) ?w2 = (Inr (), ?w2\<lparr>pw_store := st3\<rparr>)"
    "jm_get (ms_managedPins (store_snapshot empty_pins st3)) cid = Some (?f (?g (?d r)))"
    by (rule change_pin_commits [where E = E and w = ?w2 and env = env and i = 2 and cid = cid and r = "?g (?d r)" and f = ?f])
       (use u2 E in auto)
  have "\<not> referenced cid_v1 cid (store_snapshot empty_pins st1)" using refs referenced_refs u1(3) by blast
  then have "release cid_v1 True env raw owner w = (Inr (pin_result True True None), ?w2\<lparr>pw_store := st3\<rparr>)"
    using assms(3, 4, 9) r d u1 u2 u3
    by (simp add: release_def releaseUnreferenced_def comp_defs checkOwner_def review_required_def kubo_log_def remove_pin_def
        set_pin_state_def jm_has_def)
  then show ?thesis using u3 d by auto
qed

text \<open>
  The last owner's release removes what the node added. When the listing shows that an
  identifier was not pinned, Kubo obeys and the state can be written, acquiring the pin and
  releasing it, with no other owner and no reference, asks Kubo for exactly one pin and one unpin
  of the identifier, reports the pin as removed and leaves a released record without owners.
\<close>
theorem created_pin_removed:
  assumes "\<forall>t \<in> range (ke_tx env) \<union> range (ke_tx env'). store_writable t (pw_store w)"
    and "canonicalPinCid cid_v1 raw = Inr cid" and "valid_owner owner" and "record_of cid w = None"
    and "ke_pinLs env = Inr (Some keys)" and "\<forall>k \<in> set keys. \<exists>c. canonicalPinCid cid_v1 k = Inr c \<and> c \<noteq> cid"
    and "ke_pinAdd env 0 = Inr ()" and "ke_pinRm env' = RmDone" and "\<not> referenced cid_v1 cid (pins_of w)"
  shows "\<exists>w1 w2 r. acquire cid_v1 env raw owner (default_pin env) w = (Inr cid, w1) \<and>
    release cid_v1 True env' raw owner w1 = (Inr (pin_result True True None), w2) \<and>
    pw_calls w2 = pw_calls w @ [PinLs, PinAdd cid, PinRm cid] \<and>
    record_of cid w2 = Some r \<and> mp_state r = Released \<and> mp_owners r = []"
proof -
  have "listing_ownership cid_v1 cid (ke_pinLs env) = Created"
    using assms(5, 6) by (fastforce simp: listing_ownership_def)
  from acquire_fresh [OF assms(1) _ assms(2-4) this assms(7)] obtain w1 r where
    a: "acquire cid_v1 env raw owner (default_pin env) w = (Inr cid, w1)" "pw_calls w1 = pw_calls w @ [PinLs, PinAdd cid]"
    and r: "record_of cid w1 = Some r" "mp_owners r = [(owner, ke_now env)]" "mp_ownership r = Created" "mp_state r = Pinned"
    and w1: "ms_refs (pins_of w1) = ms_refs (pins_of w)"
      "\<forall>t \<in> range (ke_tx env) \<union> range (ke_tx env'). store_writable t (pw_store w1)"
    by blast
  have "\<not> referenced cid_v1 cid (pins_of w1)" using assms(9) referenced_refs w1(1) by blast
  from release_sole_owner [OF w1(2) _ assms(2, 3) r assms(8) this] a show ?thesis by auto
qed

subsection \<open>Witnesses\<close>

text \<open>A daemon that obeys and lists these pins, and a node without records.\<close>

definition demo_kubo :: "string list \<Rightarrow> kubo_env" where
  "demo_kubo keys = \<lparr>ke_pinLs = Inr (Some keys), ke_pinAdd = (\<lambda>_. Inr ()), ke_pinRm = RmDone, ke_fetch = (\<lambda>_. Inr []),
     ke_addBytes = (\<lambda>_ _. Inr None), ke_tx = (\<lambda>_. quiet_env), ke_now = 5\<rparr>"

definition demo_pins :: "(string, managed_pin) jsmap \<Rightarrow> pin_world" where
  "demo_pins ps = \<lparr>pw_store = saved_store (empty_pins\<lparr>ms_managedPins := ps\<rparr>), pw_calls = []\<rparr>"

definition demo_record :: "string \<Rightarrow> pin_state \<Rightarrow> managed_pin" where
  "demo_record owner st = \<lparr>mp_cid = ''bafyOne'', mp_ownership = Created, mp_owners = [(owner, 1)], mp_state = st,
     mp_updatedAt = 1, mp_reason = None, mp_lastReleasedOwner = None\<rparr>"

lemma demo_pins_simps [simp]:
  "synced ''state.json'' (pw_store (demo_pins ps))" "pins_of (demo_pins ps) = empty_pins\<lparr>ms_managedPins := ps\<rparr>"
  "pw_calls (demo_pins ps) = []" "env_beside ''state.json'' (demo_kubo keys)"
  "\<forall>t \<in> range (ke_tx (demo_kubo keys)) \<union> range (ke_tx (demo_kubo keys)). store_writable t (pw_store (demo_pins ps))"
  by (simp_all add: demo_pins_def env_beside_def demo_kubo_def)

lemma ke_pinLs_demo: "ke_pinLs (demo_kubo keys) = Inr (Some keys)"
  by (simp add: demo_kubo_def)

lemma demo_cids: "canonicalPinCid Some ''bafyOne'' = Inr ''bafyOne''" "valid_owner ''manual:a''" "valid_owner ''spatial:b''"
  by code_simp+

theorem foreign_pin_never_removed_witness:
  "PinRm ''bafyOne'' \<notin> set (pw_calls (fold (pins_step Some id)
     [EvAcquire (demo_kubo [''bafyOne'']) ''bafyOne'' ''manual:a'', EvRelease (demo_kubo [''bafyOne'']) True ''bafyOne'' ''manual:a'']
     (demo_pins [])))"
  by (rule foreign_pin_never_removed [where p = "''state.json''"])
     (simp_all add: demo_cids ke_pinLs_demo del: pins_step.simps)

theorem owned_pin_kept_witness:
  "\<exists>r' calls. record_of ''bafyOne'' (fold (pins_step Some id) [EvRelease (demo_kubo []) True ''bafyOne'' ''spatial:b'']
       (demo_pins [(''bafyOne'', demo_record ''manual:a'' Pinned)])) = Some r' \<and> jm_has (mp_owners r') ''manual:a'' \<and>
     pw_calls (fold (pins_step Some id) [EvRelease (demo_kubo []) True ''bafyOne'' ''spatial:b'']
       (demo_pins [(''bafyOne'', demo_record ''manual:a'' Pinned)])) = [] @ calls \<and> PinRm ''bafyOne'' \<notin> set calls"
  using owned_pin_kept [where p = "''state.json''" and w = "demo_pins [(''bafyOne'', demo_record ''manual:a'' Pinned)]"
      and cid = "''bafyOne''" and r = "demo_record ''manual:a'' Pinned" and owner = "''manual:a''"
      and evs = "[EvRelease (demo_kubo []) True ''bafyOne'' ''spatial:b'']" and ?cid_v1.0 = Some and sha = id]
  by (simp add: wf_map_def demo_record_def jm_has_def del: pins_step.simps)

theorem uncertain_release_frozen_witness:
  "acquire Some (demo_kubo []) ''bafyOne'' ''manual:a'' (default_pin (demo_kubo []))
     (demo_pins [(''bafyOne'', demo_record ''manual:a'' ReleaseUncertain)])
   = (Inl (PlainError ''pin_release_outcome_requires_review''), demo_pins [(''bafyOne'', demo_record ''manual:a'' ReleaseUncertain)])"
  using uncertain_release_frozen [where p = "''state.json''" and w = "demo_pins [(''bafyOne'', demo_record ''manual:a'' ReleaseUncertain)]"
      and cid = "''bafyOne''" and r = "demo_record ''manual:a'' ReleaseUncertain" and owner = "''manual:a''" and raw = "''bafyOne''"
      and evs = "[]" and ?cid_v1.0 = Some and sha = id]
  by (simp add: wf_map_def demo_cids) (simp add: demo_record_def)

theorem created_pin_removed_witness:
  "\<exists>w1 w2 r. acquire Some (demo_kubo []) ''bafyOne'' ''manual:a'' (default_pin (demo_kubo [])) (demo_pins []) = (Inr ''bafyOne'', w1) \<and>
    release Some True (demo_kubo []) ''bafyOne'' ''manual:a'' w1 = (Inr (pin_result True True None), w2) \<and>
    pw_calls w2 = pw_calls (demo_pins []) @ [PinLs, PinAdd ''bafyOne'', PinRm ''bafyOne''] \<and>
    record_of ''bafyOne'' w2 = Some r \<and> mp_state r = Released \<and> mp_owners r = []"
  by (rule created_pin_removed [where keys = "[]"])
     (use demo_cids in \<open>simp_all add: demo_kubo_def empty_pins_def referenced_def demo_pins_def\<close>)

end
