(* ===== verification/Participation_Gate.thy ===== *)
theory Participation_Gate
  imports Step_Monad
begin

text \<open>
  The participation gate, \<^verbatim>\<open>src/src/participation/networkParticipationGate.ts\<close>: whether the node takes
  part in the public archive well enough to run useful work, as a lease that an accepted heartbeat
  grants and that expires. \<open>assess\<close> is what \<^verbatim>\<open>refresh\<close> computes from its snapshot, \<open>commit_assessment\<close> what
  it then writes; between the two the method waits for Kubo, so other methods may run. Byte counts,
  intervals and instants are integers; durations are kept in milliseconds.
\<close>

section \<open>Model\<close>

datatype participation_state = UNCONFIGURED | JOINING | CONTRIBUTING | DEGRADED | LOCKED

record availability_policy =
  po_version :: string
  po_minimumContributionCapacityBytes :: "int option"
  po_cidSyncIntervalMs :: int
  po_participationLeaseSeconds :: "int option"
  po_participationGraceSeconds :: "int option"

record persisted_participation =
  pp_state :: participation_state
  pp_reason :: "string option"
  pp_lastVerifiedAt :: "int option"
  pp_leaseExpiresAt :: "int option"
  pp_graceExpiresAt :: "int option"
  pp_verificationGeneration :: "int option"

text \<open>The members of the local state that the gate reads.\<close>

record archive_state =
  as_policy :: "availability_policy option"
  as_nodeId :: "string option"
  as_nodeStatus :: "string option"
  as_latestPublicPinSetSyncAt :: "int option"
  as_latestPinReconcileAt :: "int option"
  as_latestHeartbeatAt :: "int option"
  as_publicPinSetComplete :: bool
  as_failedCids :: "string list"
  as_desiredCids :: "string list"
  as_pinnedCids :: "string list"

record gate_state =
  gs_archive :: archive_state
  gs_participation :: "persisted_participation option"

record gate_config =
  gc_operatorWallet :: "string option"
  gc_operatorToken :: "string option"
  gc_skipPinning :: bool
  gc_maxPinnedBytes :: int
  gc_isProduction :: bool
  gc_participationGraceMs :: int

record participation_snapshot =
  sn_state :: participation_state
  sn_reason :: string
  sn_leaseEligible :: bool
  sn_leaseExpiresAt :: "int option"
  sn_graceExpiresAt :: "int option"
  sn_lastVerifiedAt :: "int option"
  sn_verificationGeneration :: int
  sn_requirements :: "(string \<times> bool) list"

definition empty_archive :: archive_state where
  "empty_archive = \<lparr>as_policy = None, as_nodeId = None, as_nodeStatus = None, as_latestPublicPinSetSyncAt = None,
     as_latestPinReconcileAt = None, as_latestHeartbeatAt = None, as_publicPinSetComplete = False, as_failedCids = [],
     as_desiredCids = [], as_pinnedCids = []\<rparr>"

definition empty_gate :: gate_state where
  "empty_gate = \<lparr>gs_archive = empty_archive, gs_participation = None\<rparr>"

record gate =
  ga_store :: "gate_state store"
  ga_schedulerActive :: bool
  ga_latest :: participation_snapshot

definition initial_snapshot :: participation_snapshot where
  "initial_snapshot = \<lparr>sn_state = UNCONFIGURED, sn_reason = ''operator_identity_unconfigured'', sn_leaseEligible = False,
     sn_leaseExpiresAt = None, sn_graceExpiresAt = None, sn_lastVerifiedAt = None, sn_verificationGeneration = 0, sn_requirements = []\<rparr>"

abbreviation gate_of :: "gate \<Rightarrow> gate_state" where
  "gate_of w \<equiv> store_snapshot empty_gate (ga_store w)"

abbreviation put_gate :: "gate_state store \<Rightarrow> gate \<Rightarrow> gate" where
  "put_gate st w \<equiv> w\<lparr>ga_store := st\<rparr>"

definition setSchedulerActive :: "bool \<Rightarrow> gate \<Rightarrow> gate" where
  "setSchedulerActive active w = w\<lparr>ga_schedulerActive := active\<rparr>"

text \<open>\<^verbatim>\<open>Number(x || d)\<close> for an optional integer.\<close>

definition num_or :: "int option \<Rightarrow> int \<Rightarrow> int" where
  "num_or x d = (case x of None \<Rightarrow> d | Some n \<Rightarrow> if n = 0 then d else n)"

definition freshness_ms :: "archive_state \<Rightarrow> int" where
  "freshness_ms s = max (num_or (map_option po_cidSyncIntervalMs (as_policy s)) 300000 * 3) (5 * 60 * 1000)"

definition fresh :: "archive_state \<Rightarrow> int \<Rightarrow> int option \<Rightarrow> bool" where
  "fresh s now v = (case v of None \<Rightarrow> False | Some t \<Rightarrow> now - t \<le> freshness_ms s)"

definition policy_minimum :: "archive_state \<Rightarrow> int" where
  "policy_minimum s = max (num_or (Option.bind (as_policy s) po_minimumContributionCapacityBytes) 0) 1"

definition desired_pinned :: "archive_state \<Rightarrow> bool" where
  "desired_pinned s = list_all (\<lambda>c. c \<in> set (as_pinnedCids s)) (as_desiredCids s)"

definition present :: "string option \<Rightarrow> bool" where
  "present s \<longleftrightarrow> opt_str s \<noteq> []"

definition requirements :: "gate_config \<Rightarrow> bool \<Rightarrow> bool \<Rightarrow> int \<Rightarrow> archive_state \<Rightarrow> (string \<times> bool) list" where
  "requirements cfg schedulerActive kuboHealthy now s =
     [(''operatorIdentity'', present (gc_operatorWallet cfg) \<and> present (gc_operatorToken cfg)),
      (''registered'', present (as_nodeId s) \<and> as_nodeStatus s \<in> {Some ''active'', Some ''registered''}),
      (''backendPolicy'', present (map_option po_version (as_policy s))),
      (''kuboHealthy'', kuboHealthy),
      (''publicPinningEnabled'', \<not> gc_skipPinning cfg),
      (''contributionCapacity'', gc_maxPinnedBytes cfg \<ge> policy_minimum s),
      (''canonicalPinSetSynchronized'', fresh s now (as_latestPublicPinSetSyncAt s)),
      (''pinReconciliationHealthy'', fresh s now (as_latestPinReconcileAt s) \<and> as_publicPinSetComplete s \<and>
         as_failedCids s = [] \<and> desired_pinned s),
      (''actualContributionStateVerified'', as_publicPinSetComplete s \<and> desired_pinned s),
      (''schedulerActive'', schedulerActive),
      (''heartbeatAccepted'', fresh s now (as_latestHeartbeatAt s)),
      (''productionPinningSafe'', \<not> (gc_isProduction cfg \<and> gc_skipPinning cfg))]"

definition missing_of :: "(string \<times> bool) list \<Rightarrow> string list" where
  "missing_of reqs = map fst (filter (\<lambda>(_, holds). \<not> holds) reqs)"

definition after :: "int option \<Rightarrow> int \<Rightarrow> bool" where
  "after expires now = (case expires of None \<Rightarrow> 0 > now | Some t \<Rightarrow> t > now)"

definition generation_of :: "persisted_participation option \<Rightarrow> int" where
  "generation_of p = max 0 (num_or (Option.bind p pp_verificationGeneration) 0)"

definition previously_verified :: "persisted_participation option \<Rightarrow> bool" where
  "previously_verified p \<longleftrightarrow> Option.bind p pp_lastVerifiedAt \<noteq> None \<and> generation_of p > 0"

definition configured :: "(string \<times> bool) list \<Rightarrow> bool" where
  "configured reqs \<longleftrightarrow> map_of reqs ''operatorIdentity'' = Some True \<and> map_of reqs ''backendPolicy'' = Some True"

definition assess :: "gate_config \<Rightarrow> bool \<Rightarrow> bool \<Rightarrow> int \<Rightarrow> gate_state \<Rightarrow> participation_snapshot" where
  "assess cfg schedulerActive kuboHealthy now s =
     (let reqs = requirements cfg schedulerActive kuboHealthy now (gs_archive s); missing = missing_of reqs;
          p = gs_participation s; lease = Option.bind p pp_leaseExpiresAt; grace = Option.bind p pp_graceExpiresAt;
          result = (\<lambda>st reason eligible. \<lparr>sn_state = st, sn_reason = reason, sn_leaseEligible = eligible,
             sn_leaseExpiresAt = lease, sn_graceExpiresAt = grace, sn_lastVerifiedAt = Option.bind p pp_lastVerifiedAt,
             sn_verificationGeneration = generation_of p, sn_requirements = reqs\<rparr>);
          listed = join_with '','' missing
      in if \<not> configured reqs then result UNCONFIGURED (case missing of m # _ \<Rightarrow> str_or m ''unconfigured'' | [] \<Rightarrow> ''unconfigured'') False
         else if missing = [] \<and> previously_verified p \<and> after lease now
         then result CONTRIBUTING ''verified_archive_participation'' True
         else if previously_verified p \<and> after grace now
         then result DEGRADED (str_or listed ''verified_lease_renewal_pending'') True
         else if previously_verified p then result LOCKED (str_or listed ''verified_lease_expired'') False
         else result JOINING (str_or listed ''verified_heartbeat_pending'') False)"

definition commit_participation :: "participation_snapshot \<Rightarrow> gate_state \<Rightarrow> gate_state" where
  "commit_participation nxt s =
     (let old = gs_participation s in
      s\<lparr>gs_participation := Some \<lparr>pp_state = sn_state nxt, pp_reason = Some (sn_reason nxt),
         pp_lastVerifiedAt = Option.bind old pp_lastVerifiedAt, pp_leaseExpiresAt = sn_leaseExpiresAt nxt,
         pp_graceExpiresAt = sn_graceExpiresAt nxt, pp_verificationGeneration = Option.bind old pp_verificationGeneration\<rparr>\<rparr>)"

definition commit_assessment :: "tx_env \<Rightarrow> participation_snapshot \<Rightarrow> (participation_snapshot, gate) comp" where
  "commit_assessment env nxt =
     andThen (writes (\<lambda>w. w\<lparr>ga_latest := nxt\<rparr>)) (\<lambda>_.
     andThen (transact ga_store put_gate empty_gate env (\<lambda>s. Inr (commit_participation nxt s))) (\<lambda>_.
       reads ga_latest))"

text \<open>What surrounds one call, by the position in it: the time read, whether \<^verbatim>\<open>kubo.id()\<close> answers, and
  what happens to the transaction.\<close>

record gate_env =
  gv_now :: "nat \<Rightarrow> int"
  gv_kubo :: "nat \<Rightarrow> bool"
  gv_tx :: "nat \<Rightarrow> tx_env"

definition refresh_at :: "gate_config \<Rightarrow> gate_env \<Rightarrow> nat \<Rightarrow> (participation_snapshot, gate) comp" where
  "refresh_at cfg env i =
     andThen (reads (\<lambda>w. assess cfg (ga_schedulerActive w) (gv_kubo env i) (gv_now env i) (gate_of w)))
       (commit_assessment (gv_tx env i))"

abbreviation refresh :: "gate_config \<Rightarrow> gate_env \<Rightarrow> (participation_snapshot, gate) comp" where
  "refresh cfg env \<equiv> refresh_at cfg env 0"

definition lease_ms :: "gate_config \<Rightarrow> archive_state \<Rightarrow> int" where
  "lease_ms cfg s = max (num_or (Option.bind (as_policy s) po_participationLeaseSeconds) 180) 30 * 1000"

definition grace_ms :: "gate_config \<Rightarrow> archive_state \<Rightarrow> int" where
  "grace_ms cfg s =
     max (case Option.bind (as_policy s) po_participationGraceSeconds of
            Some n \<Rightarrow> if n = 0 then gc_participationGraceMs cfg else n * 1000
          | None \<Rightarrow> gc_participationGraceMs cfg) (60 * 1000)"

definition grant_lease :: "int \<Rightarrow> int \<Rightarrow> int \<Rightarrow> gate_state \<Rightarrow> gate_state" where
  "grant_lease now lease grace s =
     s\<lparr>gs_participation := Some \<lparr>pp_state = CONTRIBUTING, pp_reason = Some ''heartbeat_accepted'', pp_lastVerifiedAt = Some now,
        pp_leaseExpiresAt = Some (now + lease), pp_graceExpiresAt = Some (now + (lease + grace)),
        pp_verificationGeneration = Some (generation_of (gs_participation s) + 1)\<rparr>\<rparr>"

definition all_hold :: "(string \<times> bool) list \<Rightarrow> bool" where
  "all_hold reqs = list_all snd reqs"

definition recordHeartbeatAccepted :: "gate_config \<Rightarrow> gate_env \<Rightarrow> (participation_snapshot, gate) comp" where
  "recordHeartbeatAccepted cfg env =
     andThen (refresh_at cfg env 1) (\<lambda>candidate.
       if \<not> all_hold (sn_requirements candidate) then ret candidate
       else andThen (reads gate_of) (\<lambda>s.
            andThen (transact ga_store put_gate empty_gate (gv_tx env 2)
              (\<lambda>draft. Inr (grant_lease (gv_now env 0) (lease_ms cfg (gs_archive s)) (grace_ms cfg (gs_archive s)) draft)))
              (\<lambda>_. refresh_at cfg env 3)))"

definition assertUsefulOperation :: "gate_config \<Rightarrow> gate_env \<Rightarrow> (unit, gate) comp" where
  "assertUsefulOperation cfg env =
     andThen (refresh cfg env) (\<lambda>snapshot.
       if \<not> sn_leaseEligible snapshot \<or> sn_state snapshot \<notin> {CONTRIBUTING, DEGRADED}
       then throw (LocalError 423 ''NETWORK_PARTICIPATION_REQUIRED'') else ret ())"

section \<open>What the gate keeps\<close>

interpretation gate_store: store_in_world ga_store put_gate
  by unfold_locales simp

text \<open>The evidence of participation: when it was last verified, until when, and how often.\<close>

definition evidence :: "gate_state \<Rightarrow> int option \<times> int option \<times> int option \<times> int option" where
  "evidence s = (let p = gs_participation s in
     (Option.bind p pp_lastVerifiedAt, Option.bind p pp_leaseExpiresAt, Option.bind p pp_graceExpiresAt, Option.bind p pp_verificationGeneration))"

lemma assess_fields [simp]:
  "sn_leaseExpiresAt (assess cfg a k now s) = Option.bind (gs_participation s) pp_leaseExpiresAt"
  "sn_graceExpiresAt (assess cfg a k now s) = Option.bind (gs_participation s) pp_graceExpiresAt"
  "sn_requirements (assess cfg a k now s) = requirements cfg a k now (gs_archive s)"
  by (simp_all add: assess_def Let_def)

lemma commit_evidence:
  "evidence (commit_participation (assess cfg a k now s) s) = evidence s"
  "gs_archive (commit_participation nxt s) = gs_archive s"
  by (simp_all add: commit_participation_def evidence_def Let_def)

text \<open>The same gate but for \<^verbatim>\<open>latest\<close> and the displayed state and reason.\<close>

definition same_gate :: "string \<Rightarrow> gate \<Rightarrow> gate \<Rightarrow> bool" where
  "same_gate p w w' \<longleftrightarrow> synced p (ga_store w') \<and> evidence (gate_of w') = evidence (gate_of w) \<and>
     gs_archive (gate_of w') = gs_archive (gate_of w) \<and> ga_schedulerActive w' = ga_schedulerActive w"

definition beside :: "string \<Rightarrow> gate_env \<Rightarrow> bool" where
  "beside p env \<longleftrightarrow> (\<forall>i. writes_beside p (gv_tx env i))"

lemma refresh_same:
  assumes "synced p (ga_store w)" and "beside p env"
  shows "wp (refresh_at cfg env i)
    (\<lambda>r w'. same_gate p w w' \<and> r = assess cfg (ga_schedulerActive w) (gv_kubo env i) (gv_now env i) (gate_of w)) (\<lambda>_. same_gate p w) w"
  unfolding refresh_at_def commit_assessment_def wp_andThen wp_basic
  by (rule gate_store.wp_transact [where p = p])
     (use assms in \<open>auto simp: same_gate_def beside_def commit_evidence\<close>)

text \<open>A heartbeat either leaves the evidence alone or, with every requirement met, renews it.\<close>

definition renewed :: "gate_config \<Rightarrow> gate_env \<Rightarrow> gate \<Rightarrow> gate \<Rightarrow> bool" where
  "renewed cfg env w w' \<longleftrightarrow>
     (let a = gs_archive (gate_of w); lease = lease_ms cfg a; grace = grace_ms cfg a in
      all_hold (requirements cfg (ga_schedulerActive w) (gv_kubo env 1) (gv_now env 1) a) \<and>
      evidence (gate_of w') = (Some (gv_now env 0), Some (gv_now env 0 + lease), Some (gv_now env 0 + (lease + grace)),
        Some (generation_of (gs_participation (gate_of w')))))"

definition after_heartbeat :: "gate_config \<Rightarrow> string \<Rightarrow> gate_env \<Rightarrow> gate \<Rightarrow> gate \<Rightarrow> bool" where
  "after_heartbeat cfg p env w w' \<longleftrightarrow> synced p (ga_store w') \<and> gs_archive (gate_of w') = gs_archive (gate_of w) \<and>
     ga_schedulerActive w' = ga_schedulerActive w \<and> (evidence (gate_of w') = evidence (gate_of w) \<or> renewed cfg env w w')"

lemma generation_evidence:
  "generation_of (gs_participation s) = max 0 (num_or (snd (snd (snd (evidence s)))) 0)"
  by (simp add: generation_of_def evidence_def Let_def)

lemma previously_verified_evidence:
  "previously_verified (gs_participation s) \<longleftrightarrow> fst (evidence s) \<noteq> None \<and> max 0 (num_or (snd (snd (snd (evidence s)))) 0) > 0"
  by (simp add: previously_verified_def generation_evidence) (simp add: evidence_def Let_def)

lemma same_gate_after:
  assumes "after_heartbeat cfg p env w w1" and "same_gate p w1 w2"
  shows "after_heartbeat cfg p env w w2"
  using assms by (auto simp: after_heartbeat_def same_gate_def renewed_def generation_evidence Let_def)

lemma grant_evidence:
  "evidence (grant_lease now lease grace s) = (Some now, Some (now + lease), Some (now + (lease + grace)),
     Some (generation_of (gs_participation (grant_lease now lease grace s))))"
  "gs_archive (grant_lease now lease grace s) = gs_archive s"
  by (simp_all add: grant_lease_def evidence_def Let_def generation_of_def num_or_def)

lemma heartbeat_after:
  assumes sy: "synced p (ga_store w)" and env: "beside p env"
  shows "wp (recordHeartbeatAccepted cfg env) (\<lambda>_. after_heartbeat cfg p env w) (\<lambda>_. after_heartbeat cfg p env w) w"
proof -
  have self: "after_heartbeat cfg p env w w'" if "same_gate p w w'" for w'
    using that by (simp add: after_heartbeat_def same_gate_def)
  have grant: "wp (transact ga_store put_gate empty_gate (gv_tx env 2)
      (\<lambda>d. Inr (grant_lease (gv_now env 0) (lease_ms cfg (gs_archive (gate_of w1))) (grace_ms cfg (gs_archive (gate_of w1))) d)))
      (\<lambda>_. after_heartbeat cfg p env w) (\<lambda>_. after_heartbeat cfg p env w) w1"
    if "same_gate p w w1" "all_hold (requirements cfg (ga_schedulerActive w) (gv_kubo env 1) (gv_now env 1) (gs_archive (gate_of w)))" for w1
    by (rule gate_store.wp_transact_inv [where p = p])
       (use that env in \<open>auto simp: same_gate_def after_heartbeat_def renewed_def beside_def grant_evidence Let_def\<close>)
  have fin: "wp (refresh_at cfg env 3) (\<lambda>_. after_heartbeat cfg p env w) (\<lambda>_. after_heartbeat cfg p env w) w2"
    if "after_heartbeat cfg p env w w2" for w2
  proof (rule wp_mono [OF refresh_same [where p = p]])
    show "synced p (ga_store w2)" using that by (simp add: after_heartbeat_def)
  qed (use that env same_gate_after in auto)
  show ?thesis
    unfolding recordHeartbeatAccepted_def wp_andThen [of "refresh_at _ _ _"]
    by (rule wp_mono [OF refresh_same [OF sy env]])
       (use self in \<open>auto simp: wp_if wp_basic wp_andThen [of "reads _"] intro!: wp_then [OF grant] fin\<close>)
qed

section \<open>Runs of the gate\<close>

datatype gate_event =
    GRefresh gate_env
  | GHeartbeat gate_env
  | GUseful gate_env
  | GScheduler bool
  | GArchive tx_env archive_state

fun gate_step :: "gate_config \<Rightarrow> gate_event \<Rightarrow> gate \<Rightarrow> gate" where
  "gate_step cfg (GRefresh env) w = snd (refresh cfg env w)"
| "gate_step cfg (GHeartbeat env) w = snd (recordHeartbeatAccepted cfg env w)"
| "gate_step cfg (GUseful env) w = snd (assertUsefulOperation cfg env w)"
| "gate_step cfg (GScheduler b) w = setSchedulerActive b w"
| "gate_step cfg (GArchive env a) w = snd (transact ga_store put_gate empty_gate env (\<lambda>s. Inr (s\<lparr>gs_archive := a\<rparr>)) w)"

fun gate_event_beside :: "string \<Rightarrow> gate_event \<Rightarrow> bool" where
  "gate_event_beside p (GRefresh env) = beside p env"
| "gate_event_beside p (GHeartbeat env) = beside p env"
| "gate_event_beside p (GUseful env) = beside p env"
| "gate_event_beside p (GScheduler b) = True"
| "gate_event_beside p (GArchive env a) = writes_beside p env"

lemma useful_same:
  assumes "synced p (ga_store w)" and "beside p env"
  shows "wp (assertUsefulOperation cfg env)
    (\<lambda>_ w'. same_gate p w w' \<and> sn_leaseEligible (assess cfg (ga_schedulerActive w) (gv_kubo env 0) (gv_now env 0) (gate_of w)))
    (\<lambda>_. same_gate p w) w"
  unfolding assertUsefulOperation_def wp_andThen
  by (rule wp_mono [OF refresh_same [OF assms]]) (auto simp: wp_if wp_basic)

lemma gate_step_evidence:
  assumes "synced p (ga_store w)" and "gate_event_beside p ev"
  shows "synced p (ga_store (gate_step cfg ev w)) \<and>
    (evidence (gate_of (gate_step cfg ev w)) = evidence (gate_of w) \<or>
     (\<exists>env. ev = GHeartbeat env \<and> renewed cfg env w (gate_step cfg ev w)))"
proof (cases ev)
  case (GRefresh env)
  have "wp (refresh cfg env) (\<lambda>_. same_gate p w) (\<lambda>_. same_gate p w) w"
    by (rule wp_mono [OF refresh_same]) (use assms GRefresh in auto)
  from wp_snd [OF this] show ?thesis using GRefresh by (simp add: same_gate_def)
next
  case (GHeartbeat env)
  then show ?thesis using wp_snd [OF heartbeat_after [OF assms(1), of env cfg]] assms(2) by (auto simp: after_heartbeat_def)
next
  case (GUseful env)
  have "wp (assertUsefulOperation cfg env) (\<lambda>_. same_gate p w) (\<lambda>_. same_gate p w) w"
    by (rule wp_mono [OF useful_same]) (use assms GUseful in auto)
  from wp_snd [OF this] show ?thesis using GUseful by (simp add: same_gate_def)
next
  case (GArchive env a)
  have "wp (transact ga_store put_gate empty_gate env (\<lambda>s. Inr (s\<lparr>gs_archive := a\<rparr>)))
      (\<lambda>_ w'. synced p (ga_store w') \<and> evidence (gate_of w') = evidence (gate_of w))
      (\<lambda>_ w'. synced p (ga_store w') \<and> evidence (gate_of w') = evidence (gate_of w)) w"
    by (rule gate_store.wp_transact_inv [where p = p]) (use assms GArchive in \<open>auto simp: evidence_def\<close>)
  from wp_snd [OF this] show ?thesis using GArchive by simp
qed (use assms in \<open>simp add: setSchedulerActive_def\<close>)

text \<open>Where the evidence of a run comes from.\<close>

definition lease_from :: "gate_config \<Rightarrow> gate_event list \<Rightarrow> gate \<Rightarrow> gate_state \<Rightarrow> bool" where
  "lease_from cfg es w s \<longleftrightarrow> (\<exists>pre env post. es = pre @ GHeartbeat env # post \<and>
     (let w0 = fold (gate_step cfg) pre w; a = gs_archive (gate_of w0) in
      all_hold (requirements cfg (ga_schedulerActive w0) (gv_kubo env 1) (gv_now env 1) a) \<and>
      fst (snd (evidence s)) = Some (gv_now env 0 + lease_ms cfg a) \<and>
      fst (snd (snd (evidence s))) = Some (gv_now env 0 + (lease_ms cfg a + grace_ms cfg a))))"

lemma run_lease:
  assumes "synced p (ga_store w)" and "generation_of (gs_participation (gate_of w)) = 0"
    and "\<forall>ev \<in> set es. gate_event_beside p ev"
  shows "synced p (ga_store (fold (gate_step cfg) es w)) \<and>
    (generation_of (gs_participation (gate_of (fold (gate_step cfg) es w))) = 0 \<or>
     lease_from cfg es w (gate_of (fold (gate_step cfg) es w)))"
  using assms(3)
proof (induction es rule: rev_induct)
  case (snoc ev es)
  let ?w = "fold (gate_step cfg) es w" and ?w' = "gate_step cfg ev (fold (gate_step cfg) es w)"
  have sy: "synced p (ga_store ?w)" using snoc by simp
  from gate_step_evidence [OF sy, of ev cfg] snoc.prems have step: "synced p (ga_store ?w')"
    "evidence (gate_of ?w') = evidence (gate_of ?w) \<or> (\<exists>env. ev = GHeartbeat env \<and> renewed cfg env ?w ?w')" by auto
  have old: "lease_from cfg (es @ [ev]) w s" if "lease_from cfg es w s" for s
    using that unfolding lease_from_def by (metis append.assoc append_Cons)
  have same: "lease_from cfg es w (gate_of ?w) \<Longrightarrow> evidence (gate_of ?w') = evidence (gate_of ?w) \<Longrightarrow> lease_from cfg es w (gate_of ?w')"
    by (simp add: lease_from_def)
  have new: "lease_from cfg (es @ [GHeartbeat env]) w (gate_of ?w')" if "renewed cfg env ?w ?w'" for env
    unfolding lease_from_def
    by (rule exI [of _ es], rule exI [of _ env], rule exI [of _ "[]"]) (use that in \<open>auto simp: renewed_def Let_def\<close>)
  show ?case
    using step snoc old same new by (auto simp: generation_evidence)
qed (use assms in simp)

lemma assess_eligible:
  assumes "sn_leaseEligible (assess cfg a k now s)"
  shows "previously_verified (gs_participation s) \<and>
    (after (fst (snd (evidence s))) now \<or> after (fst (snd (snd (evidence s)))) now) \<and> configured (requirements cfg a k now (gs_archive s))"
  using assms by (simp add: assess_def evidence_def Let_def split: if_splits)

section \<open>Properties\<close>

text \<open>
  C24. Useful work needs a recent heartbeat. Starting from a node whose participation was never
  verified, over every sequence of refreshes, heartbeats, checks, changes of the scheduler flag and
  of the archive state (with any failures of the state file), the gate lets useful work through
  only if some accepted heartbeat of the sequence found every requirement met, and the lease and
  the grace period that it granted are not over.
\<close>
theorem useful_work_needs_heartbeat:
  assumes "synced p (ga_store w)" and "generation_of (gs_participation (gate_of w)) = 0"
    and "\<forall>ev \<in> set es. gate_event_beside p ev" and "beside p env"
    and "assertUsefulOperation cfg env (fold (gate_step cfg) es w) = (Inr (), w')"
  shows "\<exists>pre env0 post. es = pre @ GHeartbeat env0 # post \<and>
    (let w0 = fold (gate_step cfg) pre w; a = gs_archive (gate_of w0) in
     all_hold (requirements cfg (ga_schedulerActive w0) (gv_kubo env0 1) (gv_now env0 1) a) \<and>
     gv_now env 0 < gv_now env0 0 + (lease_ms cfg a + grace_ms cfg a))"
proof -
  let ?r = "fold (gate_step cfg) es w"
  have run: "synced p (ga_store ?r)" "generation_of (gs_participation (gate_of ?r)) = 0 \<or> lease_from cfg es w (gate_of ?r)"
    using run_lease [OF assms(1-3), of cfg] by auto
  have "sn_leaseEligible (assess cfg (ga_schedulerActive ?r) (gv_kubo env 0) (gv_now env 0) (gate_of ?r))"
    using wp_result(1) [OF useful_same [OF run(1) assms(4)] assms(5)] by simp
  note el = assess_eligible [OF this]
  have "generation_of (gs_participation (gate_of ?r)) \<noteq> 0" using el by (simp add: previously_verified_def)
  then obtain pre env0 post where es: "es = pre @ GHeartbeat env0 # post"
    and ev: "let w0 = fold (gate_step cfg) pre w; a = gs_archive (gate_of w0) in
      all_hold (requirements cfg (ga_schedulerActive w0) (gv_kubo env0 1) (gv_now env0 1) a) \<and>
      fst (snd (evidence (gate_of ?r))) = Some (gv_now env0 0 + lease_ms cfg a) \<and>
      fst (snd (snd (evidence (gate_of ?r)))) = Some (gv_now env0 0 + (lease_ms cfg a + grace_ms cfg a))"
    using run(2) unfolding lease_from_def by blast
  let ?a = "gs_archive (gate_of (fold (gate_step cfg) pre w))"
  have "grace_ms cfg ?a \<ge> 0" by (simp add: grace_ms_def)
  then have "gv_now env 0 < gv_now env0 0 + (lease_ms cfg ?a + grace_ms cfg ?a)"
    using ev el by (auto simp: Let_def after_def)
  with es ev show ?thesis unfolding Let_def by blast
qed

lemma gate_transact_commits:
  assumes "\<forall>t \<in> E. store_writable t (ga_store w)" and "t \<in> E"
  obtains st' where "transact ga_store put_gate empty_gate t (\<lambda>s. Inr (f s)) w = (Inr (), w\<lparr>ga_store := st'\<rparr>)"
    and "store_snapshot empty_gate st' = f (gate_of w)" and "\<forall>t \<in> E. store_writable t st'"
  using transact_commits [where get = ga_store and put = put_gate and e = empty_gate and w = w and E = E and env = t
      and m = "\<lambda>s. Inr (f s)" and s' = "f (gate_of w)"] assms by auto

text \<open>A refresh on a store that can be written returns the assessment and keeps the evidence.\<close>

lemma refresh_returns:
  assumes "\<forall>t \<in> E. store_writable t (ga_store w)" and "range (gv_tx env) \<subseteq> E"
  shows "\<exists>w'. refresh_at cfg env i w = (Inr (assess cfg (ga_schedulerActive w) (gv_kubo env i) (gv_now env i) (gate_of w)), w') \<and>
    (\<forall>t \<in> E. store_writable t (ga_store w')) \<and> evidence (gate_of w') = evidence (gate_of w) \<and>
    gs_archive (gate_of w') = gs_archive (gate_of w) \<and> ga_schedulerActive w' = ga_schedulerActive w"
proof -
  let ?n = "assess cfg (ga_schedulerActive w) (gv_kubo env i) (gv_now env i) (gate_of w)"
  obtain st' where "transact ga_store put_gate empty_gate (gv_tx env i) (\<lambda>s. Inr (commit_participation ?n s)) (w\<lparr>ga_latest := ?n\<rparr>)
      = (Inr (), (w\<lparr>ga_latest := ?n\<rparr>)\<lparr>ga_store := st'\<rparr>)"
    "store_snapshot empty_gate st' = commit_participation ?n (gate_of w)" "\<forall>t \<in> E. store_writable t st'"
    by (rule gate_transact_commits [where E = E and w = "w\<lparr>ga_latest := ?n\<rparr>" and t = "gv_tx env i" and f = "commit_participation ?n"])
       (use assms in auto)
  then show ?thesis
    by (simp add: refresh_at_def commit_assessment_def comp_defs commit_evidence)
qed

lemma assess_evidence:
  assumes "evidence s = evidence s'" and "gs_archive s = gs_archive s'"
  shows "assess cfg a k n s = assess cfg a k n s'"
proof -
  have "generation_of (gs_participation s) = generation_of (gs_participation s')"
    "previously_verified (gs_participation s) = previously_verified (gs_participation s')"
    by (simp_all add: generation_evidence previously_verified_evidence assms)
  moreover have "Option.bind (gs_participation s) pp_lastVerifiedAt = Option.bind (gs_participation s') pp_lastVerifiedAt"
    "Option.bind (gs_participation s) pp_leaseExpiresAt = Option.bind (gs_participation s') pp_leaseExpiresAt"
    "Option.bind (gs_participation s) pp_graceExpiresAt = Option.bind (gs_participation s') pp_graceExpiresAt"
    using assms(1) by (simp_all add: evidence_def Let_def)
  ultimately show ?thesis by (simp only: assess_def assms(2) Let_def)
qed

lemma all_hold_configured:
  assumes "all_hold (requirements cfg a k now s)"
  shows "configured (requirements cfg a' k' now' s)" and "missing_of (requirements cfg a k now s) = []"
  using assms by (simp_all add: all_hold_def configured_def requirements_def missing_of_def)

lemma assess_with_lease:
  assumes "configured (requirements cfg a k now (gs_archive s))" and "previously_verified (gs_participation s)"
    and "fst (snd (snd (evidence s))) = Some g" and "now < g"
  shows "sn_leaseEligible (assess cfg a k now s) \<and> sn_state (assess cfg a k now s) \<in> {CONTRIBUTING, DEGRADED}"
  using assms by (auto simp: assess_def evidence_def after_def Let_def)

lemma heartbeat_renews:
  assumes E: "\<forall>t \<in> E. store_writable t (ga_store w)" "range (gv_tx env) \<subseteq> E"
    and hold: "all_hold (requirements cfg (ga_schedulerActive w) (gv_kubo env 1) (gv_now env 1) (gs_archive (gate_of w)))"
  shows "\<exists>r w'. recordHeartbeatAccepted cfg env w = (Inr r, w') \<and>
    r = assess cfg (ga_schedulerActive w') (gv_kubo env 3) (gv_now env 3) (gate_of w') \<and>
    (\<forall>t \<in> E. store_writable t (ga_store w')) \<and> gs_archive (gate_of w') = gs_archive (gate_of w) \<and>
    ga_schedulerActive w' = ga_schedulerActive w \<and> previously_verified (gs_participation (gate_of w')) \<and>
    evidence (gate_of w') = (Some (gv_now env 0), Some (gv_now env 0 + lease_ms cfg (gs_archive (gate_of w))),
      Some (gv_now env 0 + (lease_ms cfg (gs_archive (gate_of w)) + grace_ms cfg (gs_archive (gate_of w)))),
      Some (generation_of (gs_participation (gate_of w)) + 1))"
proof -
  obtain w1 where r1: "refresh_at cfg env 1 w = (Inr (assess cfg (ga_schedulerActive w) (gv_kubo env 1) (gv_now env 1) (gate_of w)), w1)"
    "\<forall>t \<in> E. store_writable t (ga_store w1)" "evidence (gate_of w1) = evidence (gate_of w)"
    "gs_archive (gate_of w1) = gs_archive (gate_of w)" "ga_schedulerActive w1 = ga_schedulerActive w"
    using refresh_returns [OF E, of cfg 1] by auto
  let ?a = "gs_archive (gate_of w)"
  define g where "g = grant_lease (gv_now env 0) (lease_ms cfg ?a) (grace_ms cfg ?a)"
  obtain st2 where r2: "transact ga_store put_gate empty_gate (gv_tx env 2) (\<lambda>s. Inr (g s)) w1 = (Inr (), w1\<lparr>ga_store := st2\<rparr>)"
    "store_snapshot empty_gate st2 = g (gate_of w1)" "\<forall>t \<in> E. store_writable t st2"
    by (rule gate_transact_commits [where E = E and w = w1 and t = "gv_tx env 2" and f = g]) (use r1 E in auto)
  let ?w2 = "w1\<lparr>ga_store := st2\<rparr>"
  obtain w3 where r3: "refresh_at cfg env 3 ?w2 = (Inr (assess cfg (ga_schedulerActive ?w2) (gv_kubo env 3) (gv_now env 3) (gate_of ?w2)), w3)"
    "\<forall>t \<in> E. store_writable t (ga_store w3)" "evidence (gate_of w3) = evidence (gate_of ?w2)"
    "gs_archive (gate_of w3) = gs_archive (gate_of ?w2)" "ga_schedulerActive w3 = ga_schedulerActive ?w2"
    using refresh_returns [OF _ E(2), of ?w2 cfg 3] r2(3) by auto
  have ev: "evidence (g (gate_of w1)) = (Some (gv_now env 0), Some (gv_now env 0 + lease_ms cfg ?a),
      Some (gv_now env 0 + (lease_ms cfg ?a + grace_ms cfg ?a)), Some (generation_of (gs_participation (gate_of w)) + 1))"
    by (simp add: g_def grant_lease_def evidence_def Let_def) (simp add: generation_evidence r1)
  have "assess cfg a k n (gate_of ?w2) = assess cfg a k n (gate_of w3)" for a k n
    by (rule assess_evidence) (use r3(3, 4) in auto)
  moreover have "recordHeartbeatAccepted cfg env w = (Inr (assess cfg (ga_schedulerActive ?w2) (gv_kubo env 3) (gv_now env 3) (gate_of ?w2)), w3)"
    using hold r1 r2 r3 by (simp add: recordHeartbeatAccepted_def comp_defs g_def)
  moreover have "previously_verified (gs_participation (gate_of w3))"
    using r3 r2 ev by (simp add: previously_verified_evidence num_or_def) (simp add: generation_of_def)
  ultimately show ?thesis
    using r1 r2 r3 ev by (auto simp: g_def grant_evidence)
qed

text \<open>
  An accepted heartbeat opens the gate for the lease and the grace period. When every
  requirement is met and the state can be written, \<^verbatim>\<open>recordHeartbeatAccepted\<close> returns, and from then
  on until the end of the grace period useful work is let through at every moment, whatever becomes
  of Kubo, of the scheduler and of the freshness of the archive.
\<close>
theorem heartbeat_opens_gate:
  assumes "\<forall>t \<in> range (gv_tx env) \<union> range (gv_tx env'). store_writable t (ga_store w)"
    and "all_hold (requirements cfg (ga_schedulerActive w) (gv_kubo env 1) (gv_now env 1) (gs_archive (gate_of w)))"
    and "gv_now env' 0 < gv_now env 0 + (lease_ms cfg (gs_archive (gate_of w)) + grace_ms cfg (gs_archive (gate_of w)))"
  shows "\<exists>r w1 w2. recordHeartbeatAccepted cfg env w = (Inr r, w1) \<and>
    assertUsefulOperation cfg env' (setSchedulerActive active w1) = (Inr (), w2)"
proof -
  let ?E = "range (gv_tx env) \<union> range (gv_tx env')"
  from heartbeat_renews [OF assms(1) _ assms(2)] obtain r w1 where
    h: "recordHeartbeatAccepted cfg env w = (Inr r, w1)" "\<forall>t \<in> ?E. store_writable t (ga_store w1)"
      "gs_archive (gate_of w1) = gs_archive (gate_of w)" "previously_verified (gs_participation (gate_of w1))"
      "fst (snd (snd (evidence (gate_of w1)))) = Some (gv_now env 0 + (lease_ms cfg (gs_archive (gate_of w)) + grace_ms cfg (gs_archive (gate_of w))))"
    by auto
  let ?w = "setSchedulerActive active w1"
  have w: "gate_of ?w = gate_of w1" "\<forall>t \<in> ?E. store_writable t (ga_store ?w)" using h(2) by (simp_all add: setSchedulerActive_def)
  let ?n = "assess cfg (ga_schedulerActive ?w) (gv_kubo env' 0) (gv_now env' 0) (gate_of ?w)"
  have "sn_leaseEligible ?n \<and> sn_state ?n \<in> {CONTRIBUTING, DEGRADED}"
    by (rule assess_with_lease) (use h w assms(3) all_hold_configured(1) [OF assms(2)] in auto)
  moreover obtain w2 where "refresh cfg env' ?w = (Inr ?n, w2)"
    using refresh_returns [OF w(2), of env' cfg 0] by auto
  ultimately show ?thesis
    using h(1) by (auto simp: assertUsefulOperation_def comp_defs)
qed

subsection \<open>Witnesses\<close>

definition demo_archive :: archive_state where
  "demo_archive = \<lparr>as_policy = Some \<lparr>po_version = ''1'', po_minimumContributionCapacityBytes = None, po_cidSyncIntervalMs = 300000,
      po_participationLeaseSeconds = None, po_participationGraceSeconds = None\<rparr>,
     as_nodeId = Some ''n1'', as_nodeStatus = Some ''active'', as_latestPublicPinSetSyncAt = Some 1000000,
     as_latestPinReconcileAt = Some 1000000, as_latestHeartbeatAt = Some 1000000, as_publicPinSetComplete = True,
     as_failedCids = [], as_desiredCids = [''c1''], as_pinnedCids = [''c1'']\<rparr>"

definition demo_gate_config :: gate_config where
  "demo_gate_config = \<lparr>gc_operatorWallet = Some ''w'', gc_operatorToken = Some ''t'', gc_skipPinning = False,
     gc_maxPinnedBytes = 10, gc_isProduction = True, gc_participationGraceMs = 600000\<rparr>"

definition demo_gate :: gate where
  "demo_gate = \<lparr>ga_store = saved_store (empty_gate\<lparr>gs_archive := demo_archive\<rparr>), ga_schedulerActive = True, ga_latest = initial_snapshot\<rparr>"

definition demo_gate_env :: "int \<Rightarrow> bool \<Rightarrow> gate_env" where
  "demo_gate_env now kubo = \<lparr>gv_now = (\<lambda>_. now), gv_kubo = (\<lambda>_. kubo), gv_tx = (\<lambda>_. quiet_env)\<rparr>"

lemma demo_gate_simps [simp]:
  "gate_of demo_gate = empty_gate\<lparr>gs_archive := demo_archive\<rparr>" "synced ''state.json'' (ga_store demo_gate)"
  "beside ''state.json'' (demo_gate_env now kubo)" "gv_now (demo_gate_env now kubo) i = now" "gv_kubo (demo_gate_env now kubo) i = kubo"
  "\<forall>t \<in> range (gv_tx (demo_gate_env now kubo)) \<union> range (gv_tx (demo_gate_env now' kubo')). store_writable t (ga_store demo_gate)"
  by (simp_all add: demo_gate_def beside_def demo_gate_env_def)

lemma demo_requirements:
  "all_hold (requirements demo_gate_config (ga_schedulerActive demo_gate) True 1000100 demo_archive)"
  "lease_ms demo_gate_config demo_archive = 180000" "grace_ms demo_gate_config demo_archive = 600000"
  "generation_of (gs_participation empty_gate) = 0"
  by code_simp+

theorem heartbeat_opens_gate_witness:
  "\<exists>r w1 w2. recordHeartbeatAccepted demo_gate_config (demo_gate_env 1000100 True) demo_gate = (Inr r, w1) \<and>
    assertUsefulOperation demo_gate_config (demo_gate_env 1700000 False) (setSchedulerActive False w1) = (Inr (), w2)"
  by (rule heartbeat_opens_gate) (simp_all add: demo_requirements)

theorem useful_work_needs_heartbeat_witness:
  "\<exists>pre env0 post. [GHeartbeat (demo_gate_env 1000100 True)] = pre @ GHeartbeat env0 # post \<and>
    (let w0 = fold (gate_step demo_gate_config) pre demo_gate; a = gs_archive (gate_of w0) in
     all_hold (requirements demo_gate_config (ga_schedulerActive w0) (gv_kubo env0 1) (gv_now env0 1) a) \<and>
     gv_now (demo_gate_env 1700000 False) 0 < gv_now env0 0 + (lease_ms demo_gate_config a + grace_ms demo_gate_config a))"
proof -
  let ?es = "[GHeartbeat (demo_gate_env 1000100 True)]"
  have "fst (assertUsefulOperation demo_gate_config (demo_gate_env 1700000 False) (fold (gate_step demo_gate_config) ?es demo_gate)) = Inr ()"
    by code_simp
  then obtain w' where run: "assertUsefulOperation demo_gate_config (demo_gate_env 1700000 False)
      (fold (gate_step demo_gate_config) ?es demo_gate) = (Inr (), w')"
    by (metis prod.collapse)
  show ?thesis
    by (rule useful_work_needs_heartbeat [where p = "''state.json''", OF _ _ _ _ run]) (simp_all add: demo_requirements)
qed

text \<open>
  \<^verbatim>\<open>refresh\<close> takes its snapshot before it waits for Kubo and writes the lease of that snapshot
  afterwards. A refresh that was waiting while a heartbeat renewed the lease takes the renewal back:
  here the lease granted at 1000100 is gone and the gate is locked one millisecond later.
\<close>

lemma stale_refresh_revokes_lease:
  "let stale = assess demo_gate_config True True 1000099 (gate_of demo_gate);
       renewed = snd (recordHeartbeatAccepted demo_gate_config (demo_gate_env 1000100 True) demo_gate);
       overwritten = snd (commit_assessment quiet_env stale renewed)
   in fst (assertUsefulOperation demo_gate_config (demo_gate_env 1000101 True) renewed) = Inr () \<and>
      fst (assertUsefulOperation demo_gate_config (demo_gate_env 1000101 True) overwritten)
        = Inl (LocalError 423 ''NETWORK_PARTICIPATION_REQUIRED'')"
  by code_simp

end
