(* ===== verification/Capture_Package.thy ===== *)
theory Capture_Package
  imports Json_Text
begin

text \<open>
  The integrity check of a capture directory, \<^verbatim>\<open>src/src/captures/capturePackage.ts\<close>. A directory is a
  map from the segments of a relative path to the contents of a regular file. \<^verbatim>\<open>path.join\<close> on a POSIX
  system drops empty and \<open>.\<close> segments; the paths here contain no \<open>..\<close>. The main result compares the
  loops with early returns of \<^verbatim>\<open>inspectCapturePackage\<close> with a declarative description of a complete
  package.
\<close>

section \<open>Model\<close>

type_synonym file_tree = "(string list, string) jsmap"

definition MISSING_PATH_LIMIT :: nat where "MISSING_PATH_LIMIT = 50"
definition MAX_FRAMES :: nat where "MAX_FRAMES = 5000"

datatype package_problem = PackageIncomplete | FramesMissing | FramesInvalid | FrameFileMissing

fun problem_code :: "package_problem \<Rightarrow> string" where
  "problem_code PackageIncomplete = ''capture_package_incomplete''"
| "problem_code FramesMissing = ''capture_frames_missing''"
| "problem_code FramesInvalid = ''capture_frames_invalid''"
| "problem_code FrameFileMissing = ''capture_frame_file_missing''"

record package_report =
  rp_ok :: bool
  rp_code :: "package_problem option"
  rp_message :: "string option"
  rp_missingPaths :: "string list"
  rp_missingCount :: nat
  rp_frameCount :: nat

definition isPlainObject :: "json \<Rightarrow> bool" where
  "isPlainObject v = (case v of JObj _ \<Rightarrow> True | _ \<Rightarrow> False)"

text \<open>\<^verbatim>\<open>raw.replaceAll('\', '/').replace(/^\/+/, '')\<close>; what is left of a POSIX path is not absolute.\<close>

definition normal_path :: "string \<Rightarrow> string" where
  "normal_path raw = dropWhile (\<lambda>c. c = CHR ''/'') (map (\<lambda>c. if c = char_of (92::nat) then CHR ''/'' else c) raw)"

definition captureRelativePath :: "json option \<Rightarrow> string option" where
  "captureRelativePath raw =
     (case as_string raw of
        None \<Rightarrow> None
      | Some r \<Rightarrow> (let n = normal_path r in if n = [] \<or> str_includes n ''..'' then None else Some n))"

text \<open>The segments \<^verbatim>\<open>path.join(directory, relative)\<close> adds to the directory.\<close>

definition path_segments :: "string \<Rightarrow> string list" where
  "path_segments relative = filter (\<lambda>s. s \<noteq> [] \<and> s \<noteq> ''.'') (split_on CHR ''/'' relative)"

text \<open>A path with a trailing slash never names a regular file.\<close>

definition hasContent :: "file_tree \<Rightarrow> string \<Rightarrow> bool" where
  "hasContent dir relative \<longleftrightarrow> last relative \<noteq> CHR ''/'' \<and>
     (case jm_get dir (path_segments relative) of None \<Rightarrow> False | Some c \<Rightarrow> c \<noteq> [])"

definition report :: "package_problem \<Rightarrow> string \<Rightarrow> string list \<Rightarrow> nat \<Rightarrow> package_report" where
  "report code message missing frameCount =
     \<lparr>rp_ok = False, rp_code = Some code, rp_message = Some message, rp_missingPaths = take MISSING_PATH_LIMIT missing,
      rp_missingCount = length missing, rp_frameCount = frameCount\<rparr>"

text \<open>The loop over the declared paths: the paths without content, or the early return.\<close>

fun check_declared :: "file_tree \<Rightarrow> string list \<Rightarrow> package_report + string list" where
  "check_declared dir [] = Inr []"
| "check_declared dir (relative # rest) =
     (case captureRelativePath (Some (JStr relative)) of
        None \<Rightarrow> Inl (report FramesInvalid ''A declared file path escapes the capture directory'' [] 0)
      | Some safe \<Rightarrow>
          map_sum id (\<lambda>missing. if hasContent dir safe then missing else safe # missing) (check_declared dir rest))"

fun check_optional :: "file_tree \<Rightarrow> nat \<Rightarrow> json \<Rightarrow> string list \<Rightarrow> package_report + string list" where
  "check_optional dir n frame [] = Inr []"
| "check_optional dir n frame (key # keys) =
     (let v = json_field (Some frame) key in
      if v = None \<or> v = Some JNull then check_optional dir n frame keys
      else case captureRelativePath v of
             None \<Rightarrow> Inl (report FramesInvalid (''A frame has an unusable '' @ key) [] n)
           | Some p \<Rightarrow> map_sum id (\<lambda>missing. if hasContent dir p then missing else p # missing) (check_optional dir n frame keys))"

definition OPTIONAL_KEYS :: "string list" where
  "OPTIONAL_KEYS = [''depthPath'', ''depthConfidencePath'']"

fun check_frames :: "file_tree \<Rightarrow> nat \<Rightarrow> nat \<Rightarrow> json list \<Rightarrow> package_report + string list" where
  "check_frames dir n index [] = Inr []"
| "check_frames dir n index (frame # frames) =
     (if \<not> isPlainObject frame
      then Inl (report FramesInvalid (''Frame '' @ digits_of index @ '' is not a JSON object'') [] n)
      else case captureRelativePath (json_field (Some frame) ''rgbPath'') of
             None \<Rightarrow> Inl (report FramesInvalid ''A frame has no usable rgbPath'' [] n)
           | Some rgb \<Rightarrow>
               (case check_optional dir n frame OPTIONAL_KEYS of
                  Inl r \<Rightarrow> Inl r
                | Inr optional \<Rightarrow>
                    map_sum id (\<lambda>rest. (if hasContent dir rgb then [] else [rgb]) @ optional @ rest)
                      (check_frames dir n (Suc index) frames)))"

definition plural :: "nat \<Rightarrow> string \<Rightarrow> string \<Rightarrow> string" where
  "plural n one many = (if n = 1 then one else many)"

definition inspect_frames :: "file_tree \<Rightarrow> int option \<Rightarrow> json \<Rightarrow> package_report" where
  "inspect_frames dir expected parsed =
     (if \<not> isPlainObject parsed then report FramesInvalid ''frames.json is not a JSON object'' [] 0
      else if json_field (Some parsed) ''schema'' \<noteq> Some (JStr ''kubus.capture.frames/1'')
      then report FramesInvalid ''frames.json does not declare schema kubus.capture.frames/1'' [] 0
      else case json_field (Some parsed) ''frames'' of
             Some (JArr (f # fs)) \<Rightarrow>
               (let frames = f # fs; n = length frames in
                if n > MAX_FRAMES
                then report FramesInvalid (''frames.json declares more than '' @ digits_of MAX_FRAMES @ '' frames'') [] 0
                else case check_frames dir n 0 frames of
                       Inl r \<Rightarrow> r
                     | Inr missing \<Rightarrow>
                         if missing \<noteq> []
                         then report FrameFileMissing (''frames.json references '' @ digits_of (length missing) @ '' '' @
                                plural (length missing) ''file'' ''files'' @ '' the capture does not contain'') missing n
                         else if (case expected of None \<Rightarrow> False | Some e \<Rightarrow> e > 0 \<and> e \<noteq> int n)
                         then report FramesInvalid (''The capture declares '' @ digits_of (nat (the expected)) @
                                '' frames but frames.json contains '' @ digits_of n) [] n
                         else \<lparr>rp_ok = True, rp_code = None, rp_message = None, rp_missingPaths = [], rp_missingCount = 0, rp_frameCount = n\<rparr>)
           | _ \<Rightarrow> report FramesInvalid ''frames.json declares no frames'' [] 0)"

definition inspectCapturePackage :: "file_tree \<Rightarrow> string list \<Rightarrow> int option \<Rightarrow> package_report" where
  "inspectCapturePackage dir declared expected =
     (case check_declared dir declared of
        Inl r \<Rightarrow> r
      | Inr missing \<Rightarrow>
          if missing \<noteq> []
          then report PackageIncomplete (digits_of (length missing) @ '' uploaded '' @
                 plural (length missing) ''file is'' ''files are'' @ '' no longer present in the capture'') missing 0
          else (case jm_get dir [''frames.json''] of
                 None \<Rightarrow> report FramesMissing ''The capture has no frames.json'' [''frames.json''] 0
               | Some raw \<Rightarrow>
                   (case json_parse raw of
                      None \<Rightarrow> report FramesInvalid ''frames.json is not valid JSON'' [] 0
                    | Some parsed \<Rightarrow> inspect_frames dir expected parsed)))"

definition declaredFrameCount :: "json option \<Rightarrow> int option" where
  "declaredFrameCount metadata =
     (case as_integer (json_field metadata ''frameCount'') of Some n \<Rightarrow> if n > 0 then Some n else None | None \<Rightarrow> None)"

section \<open>Paths stay inside\<close>

lemma dotdot_segment:
  assumes "''..'' \<in> set (split_on CHR ''/'' s)"
  shows "str_includes s ''..''"
  using assms by (rule split_on_infix) (auto simp: str_includes_iff)

lemma captureRelativePath_inside:
  assumes "captureRelativePath raw = Some p"
  shows "p \<noteq> []" and "hd p \<noteq> CHR ''/''" and "''..'' \<notin> set (path_segments p)" and "CHR ''/'' \<notin> \<Union>(set ` set (path_segments p))"
proof -
  obtain r where p: "p = normal_path r" "p \<noteq> []" "\<not> str_includes p ''..''"
    using assms by (auto simp: captureRelativePath_def Let_def split: option.splits if_splits)
  show "p \<noteq> []" by (rule p(2))
  show "hd p \<noteq> CHR ''/''" using hd_dropWhile [of "\<lambda>c. c = CHR ''/''"] p(1, 2) by (auto simp: normal_path_def)
  show "''..'' \<notin> set (path_segments p)" using p(3) dotdot_segment by (auto simp: path_segments_def)
  show "CHR ''/'' \<notin> \<Union>(set ` set (path_segments p))" by (auto simp: path_segments_def dest: split_on_no_sep)
qed

section \<open>What a complete package is\<close>

definition file_ok :: "file_tree \<Rightarrow> json option \<Rightarrow> bool" where
  "file_ok dir raw \<longleftrightarrow> (\<exists>p. captureRelativePath raw = Some p \<and> hasContent dir p)"

definition frame_ok :: "file_tree \<Rightarrow> json \<Rightarrow> bool" where
  "frame_ok dir frame \<longleftrightarrow> isPlainObject frame \<and> file_ok dir (json_field (Some frame) ''rgbPath'') \<and>
     (\<forall>key \<in> set OPTIONAL_KEYS. json_field (Some frame) key \<in> {None, Some JNull} \<or> file_ok dir (json_field (Some frame) key))"

definition complete_package :: "file_tree \<Rightarrow> string list \<Rightarrow> int option \<Rightarrow> bool" where
  "complete_package dir declared expected \<longleftrightarrow>
     (\<forall>d \<in> set declared. file_ok dir (Some (JStr d))) \<and>
     (\<exists>raw m frames. jm_get dir [''frames.json''] = Some raw \<and> json_parse raw = Some (JObj m) \<and>
        jm_get m ''schema'' = Some (JStr ''kubus.capture.frames/1'') \<and> jm_get m ''frames'' = Some (JArr frames) \<and>
        frames \<noteq> [] \<and> length frames \<le> MAX_FRAMES \<and> (\<forall>f \<in> set frames. frame_ok dir f) \<and>
        (\<forall>e. expected = Some e \<longrightarrow> e > 0 \<longrightarrow> e = int (length frames)))"

text \<open>A report is well formed when it is positive exactly without a code, and lists at most the limit of
  the missing paths it counts.\<close>

definition wf_report :: "package_report \<Rightarrow> bool" where
  "wf_report r \<longleftrightarrow> rp_ok r = (rp_code r = None) \<and> length (rp_missingPaths r) \<le> MISSING_PATH_LIMIT \<and>
     length (rp_missingPaths r) \<le> rp_missingCount r"

lemma report_simps [simp]: "\<not> rp_ok (report c m ms n)" "wf_report (report c m ms n)"
  by (simp_all add: report_def wf_report_def)

lemma check_declared_spec:
  "check_declared dir ds = Inr [] \<longleftrightarrow> (\<forall>d \<in> set ds. file_ok dir (Some (JStr d)))"
  "check_declared dir ds = Inl r \<Longrightarrow> \<not> rp_ok r \<and> wf_report r"
proof -
  show "check_declared dir ds = Inr [] \<longleftrightarrow> (\<forall>d \<in> set ds. file_ok dir (Some (JStr d)))"
    by (induction ds) (auto simp: file_ok_def map_sum_def split: option.splits sum.splits)
  show "check_declared dir ds = Inl r \<Longrightarrow> \<not> rp_ok r \<and> wf_report r"
    by (induction ds) (auto simp: map_sum_def split: option.splits sum.splits)
qed

lemma check_optional_spec:
  "check_optional dir n frame keys = Inr [] \<longleftrightarrow>
     (\<forall>key \<in> set keys. json_field (Some frame) key \<in> {None, Some JNull} \<or> file_ok dir (json_field (Some frame) key))"
  "check_optional dir n frame keys = Inl r \<Longrightarrow> \<not> rp_ok r \<and> wf_report r"
proof -
  have none: "\<not> file_ok dir None" "\<not> file_ok dir (Some JNull)"
    by (simp_all add: file_ok_def captureRelativePath_def as_string_def)
  show "check_optional dir n frame keys = Inr [] \<longleftrightarrow>
     (\<forall>key \<in> set keys. json_field (Some frame) key \<in> {None, Some JNull} \<or> file_ok dir (json_field (Some frame) key))"
    by (induction keys) (auto simp: file_ok_def map_sum_def Let_def split: option.splits sum.splits)
  show "check_optional dir n frame keys = Inl r \<Longrightarrow> \<not> rp_ok r \<and> wf_report r"
    by (induction keys) (auto simp: map_sum_def Let_def split: option.splits sum.splits if_splits)
qed

lemma check_frames_spec:
  "check_frames dir n i frames = Inr [] \<longleftrightarrow> (\<forall>f \<in> set frames. frame_ok dir f)"
  "check_frames dir n i frames = Inl r \<Longrightarrow> \<not> rp_ok r \<and> wf_report r"
proof -
  show "check_frames dir n i frames = Inr [] \<longleftrightarrow> (\<forall>f \<in> set frames. frame_ok dir f)"
  proof (induction frames arbitrary: i)
    case (Cons f fs)
    have "frame_ok dir f \<longleftrightarrow> isPlainObject f \<and> file_ok dir (json_field (Some f) ''rgbPath'') \<and> check_optional dir n f OPTIONAL_KEYS = Inr []"
      by (simp add: frame_ok_def check_optional_spec(1))
    then show ?case
      using Cons [of "Suc i"] by (auto simp: file_ok_def map_sum_def split: option.splits sum.splits)
  qed simp
  show "check_frames dir n i frames = Inl r \<Longrightarrow> \<not> rp_ok r \<and> wf_report r"
  proof (induction frames arbitrary: i)
    case (Cons f fs)
    then show ?case
      using check_optional_spec(2) [of dir n f OPTIONAL_KEYS r]
      by (auto simp: map_sum_def split: option.splits sum.splits if_splits)
  qed simp
qed

lemma inspect_frames_spec:
  "rp_ok (inspect_frames dir expected parsed) \<longleftrightarrow>
     (\<exists>m frames. parsed = JObj m \<and> jm_get m ''schema'' = Some (JStr ''kubus.capture.frames/1'') \<and>
        jm_get m ''frames'' = Some (JArr frames) \<and> frames \<noteq> [] \<and> length frames \<le> MAX_FRAMES \<and>
        (\<forall>f \<in> set frames. frame_ok dir f) \<and> (\<forall>e. expected = Some e \<longrightarrow> e > 0 \<longrightarrow> e = int (length frames)))"
  (is "?l \<longleftrightarrow> ?r")
proof (cases "\<exists>m f fs. parsed = JObj m \<and> jm_get m ''schema'' = Some (JStr ''kubus.capture.frames/1'') \<and>
    jm_get m ''frames'' = Some (JArr (f # fs))")
  case True
  then obtain m f fs where m: "parsed = JObj m" "jm_get m ''schema'' = Some (JStr ''kubus.capture.frames/1'')"
    "jm_get m ''frames'' = Some (JArr (f # fs))" by blast
  show ?thesis
    using check_frames_spec [of dir "length (f # fs)" 0 "f # fs"]
    by (cases "check_frames dir (length (f # fs)) 0 (f # fs)")
       (auto simp: inspect_frames_def m isPlainObject_def json_field_def Let_def split: option.splits)
next
  case False
  then have "\<not> ?l"
    by (auto simp: inspect_frames_def isPlainObject_def json_field_def split: json.splits option.splits list.splits)
  moreover have "\<not> ?r" using False by (metis neq_Nil_conv)
  ultimately show ?thesis by blast
qed

lemma inspect_frames_wf: "wf_report (inspect_frames dir expected parsed)"
proof (cases "json_field (Some parsed) ''frames''")
  case (Some v)
  show ?thesis
  proof (cases "\<exists>f fs. v = JArr (f # fs)")
    case True
    then obtain f fs where v: "v = JArr (f # fs)" by blast
    have "wf_report r" if "check_frames dir (length (f # fs)) 0 (f # fs) = Inl r" for r
      using check_frames_spec(2) [OF that] by simp
    then show ?thesis
      by (simp add: inspect_frames_def Some v Let_def split: sum.split) (simp add: wf_report_def)
  qed (simp add: inspect_frames_def Some split: json.split list.split)
qed (simp add: inspect_frames_def)

text \<open>The loops with early returns accept what the description describes.\<close>

lemma inspect_ok_iff: "rp_ok (inspectCapturePackage dir declared expected) \<longleftrightarrow> complete_package dir declared expected"
proof (cases "check_declared dir declared")
  case (Inl r)
  have "\<not> complete_package dir declared expected"
    using Inl check_declared_spec(1) [of dir declared] by (auto simp: complete_package_def)
  then show ?thesis
    using check_declared_spec(2) [OF Inl] by (simp add: inspectCapturePackage_def Inl)
next
  case (Inr missing)
  then show ?thesis
    using check_declared_spec(1) [of dir declared] inspect_frames_spec [of dir expected]
    by (cases missing) (auto simp: inspectCapturePackage_def complete_package_def split: option.splits)
qed

lemma inspect_wf: "wf_report (inspectCapturePackage dir declared expected)"
  using check_declared_spec(2) [of dir declared]
  by (auto simp: inspectCapturePackage_def inspect_frames_wf split: sum.split option.split)

text \<open>A further non-empty file leaves a package complete.\<close>

lemma complete_package_add:
  assumes "complete_package dir declared expected" and "p \<noteq> [''frames.json'']" and "c \<noteq> []"
  shows "complete_package (jm_set p c dir) declared expected"
proof -
  have "file_ok dir raw \<Longrightarrow> file_ok (jm_set p c dir) raw" for raw
    using assms(3) by (auto simp: file_ok_def hasContent_def split: option.splits)
  then have "frame_ok dir f \<Longrightarrow> frame_ok (jm_set p c dir) f" for f
    by (auto simp: frame_ok_def)
  then show ?thesis
    using assms \<open>\<And>raw. file_ok dir raw \<Longrightarrow> file_ok (jm_set p c dir) raw\<close> by (auto simp: complete_package_def)
qed

section \<open>Properties\<close>

text \<open>
  C36. The inspection accepts exactly the complete packages: those in which every declared file, and
  the image and every declared depth file of every frame of a well-formed \<^verbatim>\<open>frames.json\<close>, is a
  non-empty file inside the directory, with between one and 5000 frames and the number of frames
  the client stated, if it stated one. A negative report carries a code and at most 50 of the
  missing paths it counts.
\<close>
theorem inspect_iff_complete:
  "(rp_ok (inspectCapturePackage dir declared expected) \<longleftrightarrow> complete_package dir declared expected) \<and>
   wf_report (inspectCapturePackage dir declared expected)"
  by (simp add: inspect_ok_iff inspect_wf)

end
