(* ===== verification/Capture_Store.thy ===== *)
theory Capture_Store
  imports Step_Monad Capture_Package Local_Request
begin

text \<open>
  Private captures, \<^verbatim>\<open>src/src/captures/captureStore.ts\<close>: the legacy whole-package upload, streamed
  drafts with their accounting, the commit that makes a draft durable, deletion, and the sweep of
  directories nobody owns. The world is the captures and jobs of the local state in the
  transactional store, the draft map and the set of uploads in progress of this process, and the
  capture directories on disk with the time their draft marker was written. The promise chains
  \<^verbatim>\<open>entry.lock\<close> and \<^verbatim>\<open>commitLock\<close> make the operations on a draft, and the commits, sequential; the model
  runs them one after the other. A sweep waits for the disk between directories, so its unit is one
  directory; an upload of \<^verbatim>\<open>create\<close> is split where it waits for the state to be written. Request bodies
  are JSON values; file contents are strings of bytes.
\<close>

section \<open>Model\<close>

definition MAX_CAPTURE_BYTES :: int where "MAX_CAPTURE_BYTES = 5 * 1024 * 1024 * 1024"
definition MAX_CAPTURE_FILES :: nat where "MAX_CAPTURE_FILES = 5000"
definition DRAFT_IDLE_GRACE_MS :: int where "DRAFT_IDLE_GRACE_MS = 30 * 60 * 1000"
definition MARKER_REFRESH_MS :: int where "MARKER_REFRESH_MS = 60 * 1000"

text \<open>A directory below the capture root, by its name, or any other one.\<close>

datatype dir_ref = InRoot string | Elsewhere string

record capture_record =
  ca_id :: string
  ca_schema :: string
  ca_private :: bool
  ca_artworkId :: "json option"
  ca_markerId :: "json option"
  ca_capturedAt :: "json option"
  ca_createdAt :: int
  ca_sizeBytes :: int
  ca_fileCount :: nat
  ca_directory :: dir_ref
  ca_retention :: "json option"
  ca_localCaptureId :: "string option"

record capture_draft =
  dr_id :: string
  dr_createdAt :: int
  dr_directory :: dir_ref
  dr_fileCount :: nat
  dr_sizeBytes :: int

record draft_entry =
  de_draft :: capture_draft
  de_payload :: json
  de_files :: "(string, nat \<times> string option) jsmap"
  de_markerTouchedAt :: int

record capture_job =
  cj_captureId :: "string option"
  cj_state :: string

record captures_state =
  ct_captures :: "(string, capture_record) jsmap"
  ct_jobs :: "(string, capture_job) jsmap"

definition empty_captures :: captures_state where
  "empty_captures = \<lparr>ct_captures = [], ct_jobs = []\<rparr>"

record capture_directory =
  cd_files :: file_tree
  cd_marker :: "int option"

definition new_directory :: capture_directory where
  "new_directory = \<lparr>cd_files = [], cd_marker = None\<rparr>"

record capture_world =
  cw_store :: "captures_state store"
  cw_drafts :: "(string, draft_entry) jsmap"
  cw_creating :: "string list"
  cw_dirs :: "(dir_ref, capture_directory) jsmap"

text \<open>What surrounds an operation: the new identifier, the time, the time at which each chunk arrives,
  which file-system calls succeed, whether the marker can be written, and the transactions.\<close>

record capture_env =
  cv_id :: string
  cv_now :: int
  cv_chunkTime :: "nat \<Rightarrow> int"
  cv_fs :: "nat \<Rightarrow> bool"
  cv_marker :: "nat \<Rightarrow> bool"
  cv_tx :: "nat \<Rightarrow> tx_env"

abbreviation captures_of :: "capture_world \<Rightarrow> captures_state" where
  "captures_of w \<equiv> store_snapshot empty_captures (cw_store w)"

abbreviation put_captures :: "captures_state store \<Rightarrow> capture_world \<Rightarrow> capture_world" where
  "put_captures st w \<equiv> w\<lparr>cw_store := st\<rparr>"

definition captures_update :: "capture_env \<Rightarrow> nat \<Rightarrow> (captures_state \<Rightarrow> captures_state result) \<Rightarrow> (unit, capture_world) comp" where
  "captures_update env i = transact cw_store put_captures empty_captures (cv_tx env i)"

text \<open>A file-system call that fails throws.\<close>

definition fs_call :: "capture_env \<Rightarrow> nat \<Rightarrow> (capture_world \<Rightarrow> capture_world) \<Rightarrow> (unit, capture_world) comp" where
  "fs_call env i f = (if cv_fs env i then writes f else throw (PlainError ''filesystem''))"

definition dir_at :: "capture_world \<Rightarrow> dir_ref \<Rightarrow> capture_directory" where
  "dir_at w d = (case jm_get (cw_dirs w) d of None \<Rightarrow> new_directory | Some x \<Rightarrow> x)"

definition change_dir :: "dir_ref \<Rightarrow> (capture_directory \<Rightarrow> capture_directory) \<Rightarrow> capture_world \<Rightarrow> capture_world" where
  "change_dir d f w = w\<lparr>cw_dirs := jm_set d (f (dir_at w d)) (cw_dirs w)\<rparr>"

definition make_dir :: "dir_ref \<Rightarrow> capture_world \<Rightarrow> capture_world" where
  "make_dir d = change_dir d (\<lambda>x. x)"

definition remove_dir :: "dir_ref \<Rightarrow> capture_world \<Rightarrow> capture_world" where
  "remove_dir d w = w\<lparr>cw_dirs := jm_delete d (cw_dirs w)\<rparr>"

definition write_file :: "dir_ref \<Rightarrow> string list \<Rightarrow> string \<Rightarrow> capture_world \<Rightarrow> capture_world" where
  "write_file d p content = change_dir d (\<lambda>x. x\<lparr>cd_files := jm_set p content (cd_files x)\<rparr>)"

definition change_draft :: "string \<Rightarrow> (draft_entry \<Rightarrow> draft_entry) \<Rightarrow> capture_world \<Rightarrow> capture_world" where
  "change_draft i f w =
     (case jm_get (cw_drafts w) i of None \<Rightarrow> w | Some e \<Rightarrow> w\<lparr>cw_drafts := jm_set i (f e) (cw_drafts w)\<rparr>)"

definition forget_draft :: "string \<Rightarrow> capture_world \<Rightarrow> capture_world" where
  "forget_draft i w = w\<lparr>cw_drafts := jm_delete i (cw_drafts w)\<rparr>"

subsection \<open>Helpers of the source\<close>

definition localCaptureIdOf :: "json \<Rightarrow> string option" where
  "localCaptureIdOf payload =
     (case as_string (json_field (json_field (Some payload) ''metadata'') ''localCaptureId'') of
        None \<Rightarrow> None
      | Some raw \<Rightarrow> (let t = trim raw in if 0 < length t \<and> length t \<le> 200 then Some t else None))"

definition safeRelativePath :: "string \<Rightarrow> string result" where
  "safeRelativePath raw =
     (case captureRelativePath (Some (JStr raw)) of
        None \<Rightarrow> Inl (localError 400 ''capture_file_path_invalid'') | Some p \<Rightarrow> Inr p)"

text \<open>\<^verbatim>\<open>path.join(directory, relative).startsWith(directory + sep)\<close>; only dots and slashes join to the
  directory itself.\<close>

definition target_inside :: "string \<Rightarrow> bool" where
  "target_inside relative \<longleftrightarrow> path_segments relative \<noteq> [] \<or> last relative = CHR ''/''"

definition touchDraftMarker :: "bool \<Rightarrow> int \<Rightarrow> dir_ref \<Rightarrow> capture_world \<Rightarrow> capture_world" where
  "touchDraftMarker works now d w = (if works then change_dir d (\<lambda>x. x\<lparr>cd_marker := Some now\<rparr>) w else w)"

definition draftMarkerAgeMs :: "int \<Rightarrow> capture_directory \<Rightarrow> int option" where
  "draftMarkerAgeMs now d = map_option (\<lambda>t. now - t) (cd_marker d)"

definition activeJobOn :: "(string, capture_job) jsmap \<Rightarrow> string \<Rightarrow> bool" where
  "activeJobOn jobs captureId =
     list_ex (\<lambda>(_, job). cj_captureId job = Some captureId \<and> cj_state job \<in> {''queued'', ''running''}) jobs"

definition hasActiveJob :: "string \<Rightarrow> capture_world \<Rightarrow> bool" where
  "hasActiveJob captureId w = activeJobOn (ct_jobs (captures_of w)) captureId"

definition valid_payload :: "json \<Rightarrow> bool" where
  "valid_payload payload \<longleftrightarrow> json_field (Some payload) ''schema'' = Some (JStr ''kubus.capture/1'') \<and>
     \<not> json_falsy (json_field (Some payload) ''capturedAt'') \<and> \<not> json_falsy (json_field (Some payload) ''metadata'')"

text \<open>\<^verbatim>\<open>JSON.stringify({ ...payload, files }, null, 2)\<close>, up to white space.\<close>

definition capture_json :: "json \<Rightarrow> (string \<times> string option) list \<Rightarrow> string" where
  "capture_json payload files =
     json_stringify (JObj (jm_set ''files''
       (JArr (map (\<lambda>(p, mime). JObj ((''path'', JStr p) # (case mime of None \<Rightarrow> [] | Some m \<Rightarrow> [(''mimeType'', JStr m)]))) files))
       (case payload of JObj m \<Rightarrow> m | _ \<Rightarrow> [])))"

definition record_for :: "json \<Rightarrow> string \<Rightarrow> int \<Rightarrow> int \<Rightarrow> nat \<Rightarrow> string option \<Rightarrow> capture_record" where
  "record_for payload i createdAt sizeBytes fileCount localId =
     \<lparr>ca_id = i, ca_schema = ''kubus.capture/1'', ca_private = True, ca_artworkId = json_field (Some payload) ''artworkId'',
      ca_markerId = json_field (Some payload) ''markerId'', ca_capturedAt = json_field (Some payload) ''capturedAt'',
      ca_createdAt = createdAt, ca_sizeBytes = sizeBytes, ca_fileCount = fileCount, ca_directory = InRoot i,
      ca_retention = json_field (Some payload) ''retention'', ca_localCaptureId = localId\<rparr>"

definition add_capture :: "capture_record \<Rightarrow> captures_state \<Rightarrow> captures_state" where
  "add_capture r s = s\<lparr>ct_captures := jm_set (ca_id r) r (ct_captures s)\<rparr>"

subsection \<open>The whole-package upload\<close>

record capture_file =
  cf_path :: string
  cf_content :: string
  cf_mimeType :: "string option"

fun create_write :: "capture_env \<Rightarrow> dir_ref \<Rightarrow> nat \<Rightarrow> int \<Rightarrow> capture_file list \<Rightarrow> (int, capture_world) comp" where
  "create_write env d k sizeBytes [] = ret sizeBytes"
| "create_write env d k sizeBytes (f # fs) =
     andThen (of_result (safeRelativePath (cf_path f))) (\<lambda>relative.
       let sizeBytes' = sizeBytes + int (length (cf_content f)) in
       if sizeBytes' > MAX_CAPTURE_BYTES then throw (localError 413 ''capture_size_exceeded'')
       else if \<not> target_inside relative then throw (localError 400 ''capture_file_path_invalid'')
       else andThen (if last relative = CHR ''/'' then throw (PlainError ''filesystem'')
                     else fs_call env k (write_file d (path_segments relative) (cf_content f)))
              (\<lambda>_. create_write env d (Suc k) sizeBytes' fs))"

definition create_failed :: "capture_env \<Rightarrow> node_error \<Rightarrow> ('a, capture_world) comp" where
  "create_failed env e =
     andThen (writes (\<lambda>w. (if cv_fs env 2 then remove_dir (InRoot (cv_id env)) w else w)
                  \<lparr>cw_creating := removeAll (cv_id env) (cw_creating w)\<rparr>))
       (\<lambda>_. throw (if cv_fs env 2 then e else PlainError ''filesystem''))"

definition create_files :: "capture_env \<Rightarrow> json \<Rightarrow> capture_file list \<Rightarrow> (capture_record, capture_world) comp" where
  "create_files env payload files =
     (let d = InRoot (cv_id env) in
      andThen (fs_call env 0 (make_dir d)) (\<lambda>_.
      andThen (create_write env d 3 0 files) (\<lambda>sizeBytes.
      andThen (fs_call env 1 (write_file d [''capture.json'']
          (capture_json payload (map (\<lambda>f. (case safeRelativePath (cf_path f) of Inr p \<Rightarrow> p | Inl _ \<Rightarrow> [], cf_mimeType f)) files))))
        (\<lambda>_. ret (record_for payload (cv_id env) (cv_now env) sizeBytes (length files) None)))))"

text \<open>Up to the moment the record is written: the upload is in \<^verbatim>\<open>creating\<close>.\<close>

definition create_begin :: "capture_env \<Rightarrow> json \<Rightarrow> capture_file list option \<Rightarrow> (capture_record, capture_world) comp" where
  "create_begin env payload files =
     (if \<not> valid_payload payload \<or> files = None then throw (localError 400 ''capture_package_invalid'')
      else if length (the files) > 5000 then throw (localError 413 ''capture_file_count_exceeded'')
      else andThen (writes (\<lambda>w. w\<lparr>cw_creating := cv_id env # cw_creating w\<rparr>)) (\<lambda>_.
           handle (create_files env payload (the files)) (create_failed env)))"

definition create_finish :: "capture_env \<Rightarrow> capture_record \<Rightarrow> (capture_record, capture_world) comp" where
  "create_finish env r =
     handle
       (andThen (captures_update env 0 (\<lambda>s. Inr (add_capture r s))) (\<lambda>_.
        andThen (writes (\<lambda>w. w\<lparr>cw_creating := removeAll (cv_id env) (cw_creating w)\<rparr>)) (\<lambda>_. ret r)))
       (create_failed env)"

definition create :: "capture_env \<Rightarrow> json \<Rightarrow> capture_file list option \<Rightarrow> (capture_record, capture_world) comp" where
  "create env payload files = andThen (create_begin env payload files) (create_finish env)"

subsection \<open>Drafts\<close>

definition beginDraft :: "capture_env \<Rightarrow> json \<Rightarrow> (capture_draft, capture_world) comp" where
  "beginDraft env payload =
     (if \<not> valid_payload payload then throw (localError 400 ''capture_package_invalid'')
      else let d = InRoot (cv_id env);
               draft = \<lparr>dr_id = cv_id env, dr_createdAt = cv_now env, dr_directory = d, dr_fileCount = 0, dr_sizeBytes = 0\<rparr>
        in andThen (writes (\<lambda>w. w\<lparr>cw_drafts := jm_set (cv_id env)
               \<lparr>de_draft = draft, de_payload = payload, de_files = [], de_markerTouchedAt = cv_now env\<rparr> (cw_drafts w)\<rparr>)) (\<lambda>_.
           andThen (handle (fs_call env 0 (make_dir d)) (\<lambda>e. andThen (writes (forget_draft (cv_id env))) (\<lambda>_. throw e))) (\<lambda>_.
           andThen (writes (touchDraftMarker (cv_marker env 0) (cv_now env) d)) (\<lambda>_. ret draft))))"

text \<open>The loop over the chunks of one file: \<open>base\<close> is the size of the draft without an earlier version
  of the file. The chunks end, or the connection does with an error.\<close>

fun stream_chunks ::
  "capture_env \<Rightarrow> string \<Rightarrow> dir_ref \<Rightarrow> int \<Rightarrow> int \<Rightarrow> nat \<Rightarrow> nat \<Rightarrow> string list \<Rightarrow> node_error option \<Rightarrow> (nat, capture_world) comp" where
  "stream_chunks env i d base maxBytes k written [] failure =
     (case failure of Some e \<Rightarrow> throw e | None \<Rightarrow> ret written)"
| "stream_chunks env i d base maxBytes k written (chunk # chunks) failure =
     (let written' = written + length chunk in
      if int written' > maxBytes then throw (localError 413 ''request_too_large'')
      else if base + int written' > MAX_CAPTURE_BYTES then throw (localError 413 ''capture_size_exceeded'')
      else andThen (fs_call env (k + 3) (\<lambda>w. w)) (\<lambda>_.
           andThen (reads (\<lambda>w. map_option de_markerTouchedAt (jm_get (cw_drafts w) i))) (\<lambda>touched.
           andThen (if cv_chunkTime env k - the touched \<ge> MARKER_REFRESH_MS
                    then writes (\<lambda>w. touchDraftMarker (cv_marker env (Suc k)) (cv_chunkTime env k) d
                           (change_draft i (\<lambda>e. e\<lparr>de_markerTouchedAt := cv_chunkTime env k\<rparr>) w))
                    else ret ()) (\<lambda>_.
             stream_chunks env i d base maxBytes (Suc k) written' chunks failure))))"

definition account_file :: "string \<Rightarrow> nat \<Rightarrow> string option \<Rightarrow> int \<Rightarrow> draft_entry \<Rightarrow> draft_entry" where
  "account_file relative written mimeType now e =
     (let previous = (case jm_get (de_files e) relative of None \<Rightarrow> 0 | Some (n, _) \<Rightarrow> int n);
          files = jm_set relative (written, mimeType) (de_files e)
      in e\<lparr>de_files := files, de_markerTouchedAt := now,
           de_draft := (de_draft e)\<lparr>dr_sizeBytes := dr_sizeBytes (de_draft e) - previous + int written, dr_fileCount := jm_size files\<rparr>\<rparr>)"

text \<open>\<^verbatim>\<open>rename(temporary, target)\<close> and the accounting.\<close>

definition promote_file ::
  "capture_env \<Rightarrow> string \<Rightarrow> dir_ref \<Rightarrow> string \<Rightarrow> string \<Rightarrow> string option \<Rightarrow> nat \<Rightarrow> (capture_draft, capture_world) comp" where
  "promote_file env i d relative content mimeType written =
     (if written = 0 then throw (localError 400 ''capture_file_empty'')
      else andThen (if last relative = CHR ''/'' then throw (PlainError ''filesystem'')
                    else fs_call env 2 (write_file d (path_segments relative) content)) (\<lambda>_.
           andThen (writes (\<lambda>w. touchDraftMarker (cv_marker env 0) (cv_now env) d
               (change_draft i (account_file relative written mimeType (cv_now env)) w))) (\<lambda>_.
             reads (\<lambda>w. de_draft (the (jm_get (cw_drafts w) i))))))"

definition writeDraftFileStream ::
  "capture_env \<Rightarrow> string \<Rightarrow> string \<Rightarrow> string list \<times> node_error option \<Rightarrow> string option \<Rightarrow> int \<Rightarrow> (capture_draft, capture_world) comp" where
  "writeDraftFileStream env i rawPath stream mimeType maxBytes =
     andThen (reads (\<lambda>w. jm_get (cw_drafts w) i)) (\<lambda>found.
       case found of
         None \<Rightarrow> throw (localError 404 ''capture_draft_not_found'')
       | Some entry \<Rightarrow>
           andThen (of_result (safeRelativePath rawPath)) (\<lambda>relative.
             let d = dr_directory (de_draft entry);
                 previous = (case jm_get (de_files entry) relative of None \<Rightarrow> 0 | Some (n, _) \<Rightarrow> int n) in
             if \<not> target_inside relative then throw (localError 400 ''capture_file_path_invalid'')
             else if \<not> jm_has (de_files entry) relative \<and> jm_size (de_files entry) \<ge> MAX_CAPTURE_FILES
             then throw (localError 413 ''capture_file_count_exceeded'')
             else andThen (fs_call env 0 (make_dir d)) (\<lambda>_.
                  andThen (fs_call env 1 (\<lambda>w. w)) (\<lambda>_.
                  andThen (stream_chunks env i d (dr_sizeBytes (de_draft entry) - previous) maxBytes 0 0 (fst stream) (snd stream))
                    (promote_file env i d relative (concat (fst stream)) mimeType)))))"

definition writeDraftFile :: "capture_env \<Rightarrow> string \<Rightarrow> string \<Rightarrow> string \<Rightarrow> string option \<Rightarrow> (capture_draft, capture_world) comp" where
  "writeDraftFile env i rawPath bytes mimeType = writeDraftFileStream env i rawPath ([bytes], None) mimeType MAX_CAPTURE_BYTES"

text \<open>\<^verbatim>\<open>reconcile\<close>: drop the accounting of files that are gone.\<close>

definition reconcile_entry :: "file_tree \<Rightarrow> draft_entry \<Rightarrow> draft_entry" where
  "reconcile_entry files e =
     (let kept = filter (\<lambda>(p, _). hasContent files p) (de_files e);
          lost = filter (\<lambda>(p, _). \<not> hasContent files p) (de_files e);
          left = dr_sizeBytes (de_draft e) - int (sum_list (map (\<lambda>(_, n, _). n) lost))
      in e\<lparr>de_files := kept,
           de_draft := (if lost = [] then de_draft e
             else (de_draft e)\<lparr>dr_sizeBytes := max 0 left, dr_fileCount := jm_size kept\<rparr>)\<rparr>)"

definition reconcile_draft :: "string \<Rightarrow> capture_world \<Rightarrow> capture_world" where
  "reconcile_draft i w =
     (case jm_get (cw_drafts w) i of
        None \<Rightarrow> w
      | Some e \<Rightarrow> change_draft i (reconcile_entry (cd_files (dir_at w (dr_directory (de_draft e))))) w)"

text \<open>\<open>busy\<close> says that a write of this draft is queued or running.\<close>

definition getDraft :: "bool \<Rightarrow> string \<Rightarrow> (capture_draft \<times> string list, capture_world) comp" where
  "getDraft busy i =
     andThen (reads (\<lambda>w. jm_has (cw_drafts w) i)) (\<lambda>found.
       if \<not> found then throw (localError 404 ''capture_draft_not_found'')
       else andThen (if busy then ret () else writes (reconcile_draft i)) (\<lambda>_.
         reads (\<lambda>w. let e = the (jm_get (cw_drafts w) i) in (de_draft e, jm_keys (de_files e)))))"

subsection \<open>Stored captures\<close>

definition get_capture :: "string \<Rightarrow> (capture_record, capture_world) comp" where
  "get_capture i =
     andThen (reads (\<lambda>w. jm_get (ct_captures (captures_of w)) i)) (\<lambda>r.
       case r of None \<Rightarrow> throw (localError 404 ''capture_not_found'') | Some x \<Rightarrow> ret x)"

definition manifest_paths :: "string option \<Rightarrow> string list" where
  "manifest_paths raw =
     (case Option.bind raw json_parse of
        Some manifest \<Rightarrow>
          (case json_field (Some manifest) ''files'' of
             Some (JArr files) \<Rightarrow> List.map_filter (\<lambda>f. as_string (json_field (Some f) ''path'')) files
           | _ \<Rightarrow> [])
      | None \<Rightarrow> [])"

definition inspect :: "string \<Rightarrow> (package_report, capture_world) comp" where
  "inspect i =
     andThen (get_capture i) (\<lambda>r.
       reads (\<lambda>w. let files = cd_files (dir_at w (ca_directory r)) in
         inspectCapturePackage files (manifest_paths (jm_get files [''capture.json''])) None))"

definition list_captures :: "capture_world \<Rightarrow> capture_record list" where
  "list_captures w = jm_values (ct_captures (captures_of w))"

subsection \<open>The commit\<close>

definition same_local_capture :: "string option \<Rightarrow> captures_state \<Rightarrow> capture_record option" where
  "same_local_capture localId s =
     (case localId of None \<Rightarrow> None | Some l \<Rightarrow> find (\<lambda>r. ca_localCaptureId r = Some l) (jm_values (ct_captures s)))"

definition install_capture :: "capture_record option \<Rightarrow> capture_record \<Rightarrow> captures_state \<Rightarrow> captures_state result" where
  "install_capture replaces r s =
     (case replaces of
        None \<Rightarrow> Inr (add_capture r s)
      | Some old \<Rightarrow>
          if activeJobOn (ct_jobs s) (ca_id old) then Inl (localError 409 ''capture_in_use'')
          else Inr (add_capture r
            (if map_option ca_directory (jm_get (ct_captures s) (ca_id old)) = Some (ca_directory old)
             then s\<lparr>ct_captures := jm_delete (ca_id old) (ct_captures s)\<rparr> else s)))"

text \<open>After the state is written: the draft, its marker and the replaced directory go.\<close>

definition settle_commit :: "capture_env \<Rightarrow> string \<Rightarrow> capture_record option \<Rightarrow> capture_record \<Rightarrow> (capture_record, capture_world) comp" where
  "settle_commit env i replaces r =
     andThen (writes (forget_draft i)) (\<lambda>_.
     andThen (writes (\<lambda>w. if cv_fs env 1 then change_dir (ca_directory r) (\<lambda>x. x\<lparr>cd_marker := None\<rparr>) w else w)) (\<lambda>_.
     andThen (writes (\<lambda>w. case replaces of
           None \<Rightarrow> w
         | Some old \<Rightarrow> if ca_directory old \<noteq> ca_directory r \<and> cv_fs env 2 then remove_dir (ca_directory old) w else w)) (\<lambda>_.
       ret r)))"

definition finish_commit :: "capture_env \<Rightarrow> string \<Rightarrow> draft_entry \<Rightarrow> capture_record option \<Rightarrow> (capture_record, capture_world) comp" where
  "finish_commit env i entry replaces =
     (let draft = de_draft entry; d = dr_directory draft;
          r = (record_for (de_payload entry) (dr_id draft) (dr_createdAt draft) (dr_sizeBytes draft) (jm_size (de_files entry))
                (localCaptureIdOf (de_payload entry)))\<lparr>ca_directory := d\<rparr>
      in handle
           (andThen (fs_call env 0 (write_file d [''capture.json'']
               (capture_json (de_payload entry) (map (\<lambda>(p, _, mime). (p, mime)) (de_files entry))))) (\<lambda>_.
            andThen (captures_update env 0 (install_capture replaces r)) (\<lambda>_. settle_commit env i replaces r)))
           (\<lambda>e. andThen (writes (\<lambda>w. if jm_has (ct_captures (captures_of w)) (dr_id draft) then forget_draft i w else w)) (\<lambda>_. throw e)))"

definition commit_new :: "capture_env \<Rightarrow> string \<Rightarrow> draft_entry \<Rightarrow> capture_record option \<Rightarrow> (capture_record, capture_world) comp" where
  "commit_new env i entry replaces =
     andThen (reads (\<lambda>w. inspectCapturePackage (cd_files (dir_at w (dr_directory (de_draft entry)))) (jm_keys (de_files entry))
         (declaredFrameCount (json_field (Some (de_payload entry)) ''metadata'')))) (\<lambda>inspection.
       if \<not> rp_ok inspection
       then andThen (writes (reconcile_draft i)) (\<lambda>_. throw (localError 422 (problem_code (the (rp_code inspection)))))
       else andThen (reads (\<lambda>w. case replaces of None \<Rightarrow> False | Some old \<Rightarrow> hasActiveJob (ca_id old) w)) (\<lambda>busy.
         if busy then throw (localError 409 ''capture_in_use'') else finish_commit env i entry replaces))"

definition commitDraft :: "capture_env \<Rightarrow> string \<Rightarrow> (capture_record, capture_world) comp" where
  "commitDraft env i =
     andThen (reads (\<lambda>w. jm_get (cw_drafts w) i)) (\<lambda>found.
       case found of
         None \<Rightarrow> throw (localError 404 ''capture_draft_not_found'')
       | Some entry \<Rightarrow>
           if de_files entry = [] then throw (localError 400 ''capture_package_empty'')
           else andThen (reads (\<lambda>w. same_local_capture (localCaptureIdOf (de_payload entry)) (captures_of w))) (\<lambda>existing.
             case existing of
               None \<Rightarrow> commit_new env i entry None
             | Some old \<Rightarrow>
                 andThen (settled (inspect (ca_id old))) (\<lambda>health.
                   if (case health of Inr rep \<Rightarrow> rp_ok rep | Inl _ \<Rightarrow> True)
                   then andThen (writes (forget_draft i)) (\<lambda>_.
                        andThen (if dr_directory (de_draft entry) \<noteq> ca_directory old
                                 then fs_call env 3 (remove_dir (dr_directory (de_draft entry))) else ret ()) (\<lambda>_. ret old))
                   else commit_new env i entry (Some old))))"

subsection \<open>Removal\<close>

definition discardDraft :: "capture_env \<Rightarrow> string \<Rightarrow> (unit, capture_world) comp" where
  "discardDraft env i =
     andThen (reads (\<lambda>w. jm_get (cw_drafts w) i)) (\<lambda>found.
       case found of
         None \<Rightarrow> throw (localError 404 ''capture_draft_not_found'')
       | Some entry \<Rightarrow>
           andThen (writes (forget_draft i)) (\<lambda>_.
           andThen (reads (\<lambda>w. jm_has (ct_captures (captures_of w)) i)) (\<lambda>committed.
             if committed then throw (localError 409 ''capture_draft_committed'')
             else fs_call env 0 (remove_dir (dr_directory (de_draft entry))))))"

definition remove_record :: "string \<Rightarrow> captures_state \<Rightarrow> captures_state result" where
  "remove_record i s = Inr (s\<lparr>ct_captures := jm_delete i (ct_captures s)\<rparr>)"

definition delete_capture :: "capture_env \<Rightarrow> string \<Rightarrow> (unit, capture_world) comp" where
  "delete_capture env i =
     andThen (get_capture i) (\<lambda>r.
     andThen (reads (hasActiveJob i)) (\<lambda>busy.
       if busy then throw (localError 409 ''capture_in_use'')
       else andThen (fs_call env 0 (remove_dir (ca_directory r))) (\<lambda>_. captures_update env 0 (remove_record i))))"

definition registerRemote :: "capture_env \<Rightarrow> capture_record \<Rightarrow> bool \<Rightarrow> (capture_record, capture_world) comp" where
  "registerRemote env r absolute =
     (if \<not> ca_private r \<or> ca_schema r \<noteq> ''kubus.capture/1'' \<or> \<not> absolute then throw (localError 400 ''remote_capture_invalid'')
      else andThen (reads (\<lambda>w. jm_has (cw_dirs w) (ca_directory r))) (\<lambda>accessible.
        if \<not> accessible then throw (PlainError ''ENOENT'')
        else andThen (captures_update env 0 (\<lambda>s. Inr (add_capture r s))) (\<lambda>_. ret r)))"

definition removeRemote :: "capture_env \<Rightarrow> string \<Rightarrow> (unit, capture_world) comp" where
  "removeRemote env i =
     andThen (get_capture i) (\<lambda>r.
     andThen (fs_call env 0 (remove_dir (ca_directory r))) (\<lambda>_. captures_update env 0 (remove_record i)))"

subsection \<open>The sweep\<close>

definition ownsDirectory :: "string \<Rightarrow> capture_world \<Rightarrow> bool" where
  "ownsDirectory name w \<longleftrightarrow> jm_has (cw_drafts w) name \<or> name \<in> set (cw_creating w) \<or> jm_has (ct_captures (captures_of w)) name"

text \<open>One turn of the loop: the last look at the owners and the removal are not separated by a wait.\<close>

definition sweep_directory :: "capture_env \<Rightarrow> string \<Rightarrow> capture_world \<Rightarrow> bool \<times> capture_world" where
  "sweep_directory env name w =
     (if ownsDirectory name w then (False, w)
      else case jm_get (cw_dirs w) (InRoot name) of
             None \<Rightarrow> (False, w)
           | Some d \<Rightarrow>
               if (case draftMarkerAgeMs (cv_now env) d of None \<Rightarrow> False | Some age \<Rightarrow> age < DRAFT_IDLE_GRACE_MS) then (False, w)
               else if \<not> cv_fs env 0 then (False, w)
               else (True, remove_dir (InRoot name) w))"

fun sweep_names :: "(string \<Rightarrow> capture_env) \<Rightarrow> string list \<Rightarrow> capture_world \<Rightarrow> nat \<times> capture_world" where
  "sweep_names envs [] w = (0, w)"
| "sweep_names envs (name # names) w =
     (case sweep_directory (envs name) name w of (removed, w1) \<Rightarrow>
      (case sweep_names envs names w1 of (n, w2) \<Rightarrow> ((if removed then Suc n else n), w2)))"

fun root_name :: "dir_ref \<Rightarrow> string option" where
  "root_name (InRoot n) = Some n" | "root_name (Elsewhere d) = None"

definition sweepOnce :: "bool \<Rightarrow> (string \<Rightarrow> capture_env) \<Rightarrow> capture_world \<Rightarrow> nat \<times> capture_world" where
  "sweepOnce readable envs w =
     (if \<not> readable then (0, w) else sweep_names envs (List.map_filter root_name (jm_keys (cw_dirs w))) w)"

text \<open>What a restart of the process leaves.\<close>

definition forgetDrafts :: "capture_world \<Rightarrow> capture_world" where
  "forgetDrafts w = w\<lparr>cw_drafts := [], cw_creating := []\<rparr>"

end
