(* ===== verification/Capture_Safety.thy ===== *)
theory Capture_Safety
  imports Capture_Store
begin

text \<open>
  What the capture store keeps over every sequence of its operations, sweeps, restarts and losses of
  files: the accounting and the limits of drafts, the directory of every stored capture, and at most
  one stored replica of a local capture. \<open>captures_ok\<close> is the invariant; a few lemmas say which
  changes of the world keep it, and each operation is reduced to such changes by \<open>wp_simps\<close>.
\<close>

section \<open>The invariant\<close>

definition file_bytes :: "(string, nat \<times> string option) jsmap \<Rightarrow> nat" where
  "file_bytes files = sum_list (map (\<lambda>(_, n, _). n) files)"

definition draft_ok :: "string \<Rightarrow> draft_entry \<Rightarrow> bool" where
  "draft_ok i e \<longleftrightarrow> dr_id (de_draft e) = i \<and> dr_directory (de_draft e) = InRoot i \<and> wf_map (de_files e) \<and>
     dr_sizeBytes (de_draft e) = int (file_bytes (de_files e)) \<and> dr_fileCount (de_draft e) = jm_size (de_files e) \<and>
     dr_sizeBytes (de_draft e) \<le> MAX_CAPTURE_BYTES \<and> dr_fileCount (de_draft e) \<le> MAX_CAPTURE_FILES"

text \<open>A directory below the root belongs to the record of its name. \<open>D\<close> are the captures whose deletion was cut short.\<close>

definition placed :: "string set \<Rightarrow> (dir_ref, capture_directory) jsmap \<Rightarrow> string \<Rightarrow> capture_record \<Rightarrow> bool" where
  "placed D dirs k r \<longleftrightarrow> ca_id r = k \<and> (\<forall>n. ca_directory r = InRoot n \<longrightarrow> n = k \<and> (k \<notin> D \<longrightarrow> jm_has dirs (InRoot n)))"

definition one_replica :: "(string, capture_record) jsmap \<Rightarrow> bool" where
  "one_replica cs \<longleftrightarrow> (\<forall>k r k' r' l. jm_get cs k = Some r \<longrightarrow> jm_get cs k' = Some r' \<longrightarrow>
     ca_localCaptureId r = Some l \<longrightarrow> ca_localCaptureId r' = Some l \<longrightarrow> k = k')"

definition captures_ok :: "string \<Rightarrow> string set \<Rightarrow> capture_world \<Rightarrow> bool" where
  "captures_ok p D w \<longleftrightarrow> synced p (cw_store w) \<and> wf_map (ct_captures (captures_of w)) \<and> one_replica (ct_captures (captures_of w)) \<and>
     (\<forall>i e. jm_get (cw_drafts w) i = Some e \<longrightarrow> draft_ok i e \<and> \<not> jm_has (ct_captures (captures_of w)) i \<and> i \<notin> set (cw_creating w)) \<and>
     (\<forall>k r. jm_get (ct_captures (captures_of w)) k = Some r \<longrightarrow> placed D (cw_dirs w) k r) \<and>
     (\<forall>n \<in> set (cw_creating w). jm_has (cw_dirs w) (InRoot n) \<and> \<not> jm_has (ct_captures (captures_of w)) n)"

definition capture_env_ok :: "string \<Rightarrow> capture_env \<Rightarrow> bool" where
  "capture_env_ok p env \<longleftrightarrow> (\<forall>i. writes_beside p (cv_tx env i))"

text \<open>A new random identifier.\<close>

definition unused :: "string \<Rightarrow> capture_world \<Rightarrow> bool" where
  "unused i w \<longleftrightarrow> \<not> jm_has (cw_drafts w) i \<and> i \<notin> set (cw_creating w) \<and> \<not> jm_has (ct_captures (captures_of w)) i"

interpretation captures_store: store_in_world cw_store put_captures
  by unfold_locales simp

subsection \<open>What the small changes leave alone\<close>

named_theorems world_simps \<open>parts of the world a change leaves alone\<close>

lemma change_dir_parts [world_simps]:
  "cw_store (change_dir d f w) = cw_store w" "cw_drafts (change_dir d f w) = cw_drafts w"
  "cw_creating (change_dir d f w) = cw_creating w" "jm_has (cw_dirs (change_dir d f w)) d' = (d' = d \<or> jm_has (cw_dirs w) d')"
  by (simp_all add: change_dir_def jm_has_def)

lemma make_dir_parts [world_simps]:
  "cw_store (make_dir d w) = cw_store w" "cw_drafts (make_dir d w) = cw_drafts w"
  "cw_creating (make_dir d w) = cw_creating w" "jm_has (cw_dirs (make_dir d w)) d' = (d' = d \<or> jm_has (cw_dirs w) d')"
  by (simp_all add: make_dir_def world_simps)

lemma write_file_parts [world_simps]:
  "cw_store (write_file d q c w) = cw_store w" "cw_drafts (write_file d q c w) = cw_drafts w"
  "cw_creating (write_file d q c w) = cw_creating w" "jm_has (cw_dirs (write_file d q c w)) d' = (d' = d \<or> jm_has (cw_dirs w) d')"
  by (simp_all add: write_file_def world_simps)

lemma touch_parts [world_simps]:
  "cw_store (touchDraftMarker b t d w) = cw_store w" "cw_drafts (touchDraftMarker b t d w) = cw_drafts w"
  "cw_creating (touchDraftMarker b t d w) = cw_creating w"
  by (simp_all add: touchDraftMarker_def world_simps)

lemma remove_dir_parts [world_simps]:
  "cw_store (remove_dir d w) = cw_store w" "cw_drafts (remove_dir d w) = cw_drafts w"
  "cw_creating (remove_dir d w) = cw_creating w" "jm_has (cw_dirs (remove_dir d w)) d' = (d' \<noteq> d \<and> jm_has (cw_dirs w) d')"
  by (simp_all add: remove_dir_def jm_has_def)

lemma change_draft_parts [world_simps]:
  "cw_store (change_draft i f w) = cw_store w" "cw_dirs (change_draft i f w) = cw_dirs w"
  "cw_creating (change_draft i f w) = cw_creating w"
  "jm_get (cw_drafts (change_draft i f w)) j = (if j = i then map_option f (jm_get (cw_drafts w) i) else jm_get (cw_drafts w) j)"
  by (simp_all add: change_draft_def split: option.split)

lemma forget_draft_parts [world_simps]:
  "cw_store (forget_draft i w) = cw_store w" "cw_dirs (forget_draft i w) = cw_dirs w"
  "cw_creating (forget_draft i w) = cw_creating w"
  "jm_get (cw_drafts (forget_draft i w)) j = (if j = i then None else jm_get (cw_drafts w) j)"
  by (simp_all add: forget_draft_def)

subsection \<open>Changes that keep the invariant\<close>

lemma captures_okD:
  assumes "captures_ok p D w"
  shows "synced p (cw_store w)" "wf_map (ct_captures (captures_of w))" "one_replica (ct_captures (captures_of w))"
    "jm_get (cw_drafts w) i = Some e \<Longrightarrow> draft_ok i e \<and> \<not> jm_has (ct_captures (captures_of w)) i \<and> i \<notin> set (cw_creating w)"
    "jm_get (ct_captures (captures_of w)) k = Some r \<Longrightarrow> placed D (cw_dirs w) k r"
    "n \<in> set (cw_creating w) \<Longrightarrow> jm_has (cw_dirs w) (InRoot n) \<and> \<not> jm_has (ct_captures (captures_of w)) n"
  using assms by (simp_all add: captures_ok_def)

lemma ok_keep_dirs:
  assumes "captures_ok p D w" and "\<And>d. jm_has (cw_dirs w) d \<Longrightarrow> jm_has (cw_dirs w') d"
    and "cw_store w' = cw_store w" "cw_drafts w' = cw_drafts w" "cw_creating w' = cw_creating w"
  shows "captures_ok p D w'"
  using assms by (auto simp: captures_ok_def placed_def)

lemma ok_writes [intro]:
  assumes "captures_ok p D w"
  shows "captures_ok p D (change_dir d f w)" "captures_ok p D (make_dir d w)" "captures_ok p D (write_file d q c w)"
    "captures_ok p D (touchDraftMarker b t d w)"
  using assms by (auto intro: ok_keep_dirs simp: world_simps touchDraftMarker_def)

text \<open>A directory may go when no record and no upload in progress has its name.\<close>

lemma ok_remove_dir:
  assumes "captures_ok p D w" and "\<And>n. d = InRoot n \<Longrightarrow> \<not> jm_has (ct_captures (captures_of w)) n \<and> n \<notin> set (cw_creating w)"
  shows "captures_ok p D (remove_dir d w)"
  using assms by (fastforce simp: captures_ok_def placed_def remove_dir_def jm_has_def)

lemma ok_forget [intro]: "captures_ok p D w \<Longrightarrow> captures_ok p D (forget_draft i w)"
  by (auto simp: captures_ok_def world_simps split: if_splits)

lemma ok_change_draft:
  assumes "captures_ok p D w" and "\<And>e. jm_get (cw_drafts w) i = Some e \<Longrightarrow> draft_ok i e \<Longrightarrow> draft_ok i (f e)"
  shows "captures_ok p D (change_draft i f w)"
  using assms by (auto simp: captures_ok_def world_simps split: if_splits)

lemma ok_same_captures:
  assumes "captures_ok p D w" and "synced p st" and "ct_captures (store_snapshot empty_captures st) = ct_captures (captures_of w)"
  shows "captures_ok p D (put_captures st w)"
  using assms by (simp add: captures_ok_def)

lemma ok_uncreate: "captures_ok p D w \<Longrightarrow> captures_ok p D (w\<lparr>cw_creating := removeAll n (cw_creating w)\<rparr>)"
  by (auto simp: captures_ok_def)

lemma wp_fs_call [wp_simps]: "wp (fs_call env i f) Q R w = (if cv_fs env i then Q () (f w) else R (PlainError ''filesystem'') w)"
  by (simp add: fs_call_def wp_simps)

subsection \<open>Drafts\<close>

lemma file_bytes_simps [simp]: "file_bytes [] = 0" "file_bytes ((q, n, m) # fs) = n + file_bytes fs"
  by (simp_all add: file_bytes_def)

lemma file_bytes_set:
  assumes "wf_map files"
  shows "int (file_bytes (jm_set q (n, m) files)) =
    int (file_bytes files) - (case jm_get files q of None \<Rightarrow> 0 | Some (k, _) \<Rightarrow> int k) + int n"
  using assms
proof (induction files)
  case (Cons x files)
  then show ?case by (cases x; cases "fst x = q") (auto simp: wf_map_def map_of_eq_None_iff [THEN iffD2])
qed simp

lemma file_bytes_filter: "file_bytes (filter P files) + file_bytes (filter (\<lambda>x. \<not> P x) files) = file_bytes files"
  by (induction files) auto

lemma draft_ok_marker [simp]: "draft_ok i (e\<lparr>de_markerTouchedAt := t\<rparr>) = draft_ok i e"
  by (simp add: draft_ok_def)

lemma account_file_ok:
  assumes "draft_ok i e" and "jm_has (de_files e) q \<or> jm_size (de_files e) < MAX_CAPTURE_FILES"
    and "dr_sizeBytes (de_draft e) - (case jm_get (de_files e) q of None \<Rightarrow> 0 | Some (k, _) \<Rightarrow> int k) + int n \<le> MAX_CAPTURE_BYTES"
  shows "draft_ok i (account_file q n m t e)"
  using assms file_bytes_set [of "de_files e" q n m] jm_size_set [of q "(n, m)" "de_files e"]
  by (auto simp: draft_ok_def account_file_def Let_def)

lemma reconcile_entry_ok: "draft_ok i e \<Longrightarrow> draft_ok i (reconcile_entry files e)"
proof -
  assume e: "draft_ok i e"
  let ?P = "\<lambda>(q, _). hasContent files q"
  have b: "file_bytes (filter ?P (de_files e)) + file_bytes (filter (\<lambda>x. \<not> ?P x) (de_files e)) = file_bytes (de_files e)"
    by (rule file_bytes_filter)
  have "filter ?P (de_files e) = de_files e" if "filter (\<lambda>x. \<not> ?P x) (de_files e) = []"
    using that by (auto simp: filter_empty_conv filter_id_conv)
  then show ?thesis
    using e b wf_map_filter [of "de_files e" ?P]
    by (auto simp: draft_ok_def reconcile_entry_def Let_def file_bytes_def case_prod_unfold max_def
        intro: le_trans [OF length_filter_le])
qed

lemma reconcile_draft_ok [intro]: "captures_ok p D w \<Longrightarrow> captures_ok p D (reconcile_draft i w)"
  by (auto simp: reconcile_draft_def intro!: ok_change_draft reconcile_entry_ok split: option.split)

lemma beginDraft_ok:
  assumes "captures_ok p D w" and "unused (cv_id env) w"
  shows "wp (beginDraft env payload) (\<lambda>_. captures_ok p D) (\<lambda>_. captures_ok p D) w"
proof -
  let ?e = "\<lparr>de_draft = \<lparr>dr_id = cv_id env, dr_createdAt = cv_now env, dr_directory = InRoot (cv_id env), dr_fileCount = 0, dr_sizeBytes = 0\<rparr>,
    de_payload = payload, de_files = [], de_markerTouchedAt = cv_now env\<rparr>"
  have "draft_ok (cv_id env) ?e"
    by (simp add: draft_ok_def MAX_CAPTURE_BYTES_def MAX_CAPTURE_FILES_def wf_map_def)
  then have "captures_ok p D (w\<lparr>cw_drafts := jm_set (cv_id env) ?e (cw_drafts w)\<rparr>)"
    using assms by (auto simp: captures_ok_def unused_def)
  then show ?thesis
    using assms(1) by (auto simp: beginDraft_def wp_simps Let_def)
qed

text \<open>A stream that ends keeps the entry, apart from the time of its marker, and what it wrote fits.\<close>

lemma stream_chunks_ok:
  assumes "captures_ok p D w" and "jm_get (cw_drafts w) i = Some e" and "written = 0 \<or> base + int written \<le> MAX_CAPTURE_BYTES"
  shows "wp (stream_chunks env i d base maxBytes k written chunks failure)
    (\<lambda>n w'. captures_ok p D w' \<and> (\<exists>t. jm_get (cw_drafts w') i = Some (e\<lparr>de_markerTouchedAt := t\<rparr>)) \<and> (n = 0 \<or> base + int n \<le> MAX_CAPTURE_BYTES))
    (\<lambda>_. captures_ok p D) w"
  using assms
proof (induction chunks arbitrary: k written w e)
  case Nil
  have "\<exists>t. e = e\<lparr>de_markerTouchedAt := t\<rparr>" by (rule exI [of _ "de_markerTouchedAt e"]) simp
  then show ?case using Nil by (auto simp: wp_simps split: option.split)
next
  case (Cons c cs)
  let ?f = "\<lambda>e. e\<lparr>de_markerTouchedAt := cv_chunkTime env k\<rparr>"
  let ?w = "touchDraftMarker (cv_marker env (Suc k)) (cv_chunkTime env k) d (change_draft i ?f w)"
  have ok: "captures_ok p D ?w" using Cons.prems(1) by (intro ok_writes ok_change_draft) simp_all
  have "jm_get (cw_drafts ?w) i = Some (?f e)" using Cons.prems(2) by (simp add: world_simps)
  then show ?case
    using Cons.IH [OF Cons.prems(1, 2)] Cons.IH [OF ok, of "?f e"] Cons.prems
    by (simp add: wp_simps Let_def)
qed

lemma promote_file_ok:
  assumes "captures_ok p D w" and "jm_get (cw_drafts w) i = Some e"
    and "jm_has (de_files e) relative \<or> jm_size (de_files e) < MAX_CAPTURE_FILES"
    and "n = 0 \<or> dr_sizeBytes (de_draft e) - (case jm_get (de_files e) relative of None \<Rightarrow> 0 | Some (k, _) \<Rightarrow> int k) + int n \<le> MAX_CAPTURE_BYTES"
  shows "wp (promote_file env i d relative content mimeType n) (\<lambda>_. captures_ok p D) (\<lambda>_. captures_ok p D) w"
  using assms by (auto simp: promote_file_def wp_simps world_simps intro!: ok_writes ok_change_draft account_file_ok)

lemma writeDraftFileStream_ok:
  assumes "captures_ok p D w"
  shows "wp (writeDraftFileStream env i rawPath stream mimeType maxBytes) (\<lambda>_. captures_ok p D) (\<lambda>_. captures_ok p D) w"
proof (cases "jm_get (cw_drafts w) i")
  case (Some e)
  have "wp (stream_chunks env i d (dr_sizeBytes (de_draft e) - (case jm_get (de_files e) q of None \<Rightarrow> 0 | Some (k, _) \<Rightarrow> int k))
        maxBytes 0 0 chunks failure)
      (\<lambda>n. wp (promote_file env i d q content mimeType n) (\<lambda>_. captures_ok p D) (\<lambda>_. captures_ok p D)) (\<lambda>_. captures_ok p D) (make_dir d w)"
    if "jm_has (de_files e) q \<or> jm_size (de_files e) < MAX_CAPTURE_FILES" for d q chunks failure content
    by (rule wp_mono [OF stream_chunks_ok [where p = p and e = e]])
       (use assms Some that in \<open>auto simp: world_simps intro!: promote_file_ok\<close>)
  then show ?thesis
    using assms by (auto simp: writeDraftFileStream_def wp_simps Some Let_def split: sum.split)
qed (simp add: writeDraftFileStream_def wp_simps assms)

lemma getDraft_ok:
  assumes "captures_ok p D w"
  shows "wp (getDraft busy i) (\<lambda>_. captures_ok p D) (\<lambda>_. captures_ok p D) w"
  using assms by (auto simp: getDraft_def wp_simps)

lemma discardDraft_ok:
  assumes "captures_ok p D w"
  shows "wp (discardDraft env i) (\<lambda>_. captures_ok p D) (\<lambda>_. captures_ok p D) w"
proof (cases "jm_get (cw_drafts w) i")
  case (Some e)
  have "dr_directory (de_draft e) = InRoot i" "i \<notin> set (cw_creating w)"
    using captures_okD(4) [OF assms Some] by (simp_all add: draft_ok_def)
  then show ?thesis
    using assms by (auto simp: discardDraft_def wp_simps world_simps Some intro!: ok_remove_dir)
qed (simp add: discardDraft_def wp_simps assms)

subsection \<open>Whole-package uploads\<close>

text \<open>While an upload is written its name is not yet a record; the directory may still be missing.\<close>

definition creating_ok :: "string \<Rightarrow> string set \<Rightarrow> string \<Rightarrow> capture_world \<Rightarrow> bool" where
  "creating_ok p D n w \<longleftrightarrow> captures_ok p D (w\<lparr>cw_creating := removeAll n (cw_creating w)\<rparr>) \<and>
     \<not> jm_has (ct_captures (captures_of w)) n \<and> \<not> jm_has (cw_drafts w) n"

lemma creating_ok_done:
  assumes "creating_ok p D n w" and "jm_has (cw_dirs w) (InRoot n)"
  shows "captures_ok p D w"
  using assms by (fastforce simp: creating_ok_def captures_ok_def jm_has_def)

lemma creating_ok_write:
  assumes "creating_ok p D n w"
  shows "creating_ok p D n (make_dir d w)" "creating_ok p D n (write_file d q c w)"
  using assms
  by (auto simp: creating_ok_def world_simps intro!: ok_keep_dirs [of p D "w\<lparr>cw_creating := removeAll n (cw_creating w)\<rparr>"])

lemma create_failed_ok:
  assumes "creating_ok p D (cv_id env) w"
  shows "wp (create_failed env e) Q (\<lambda>_. captures_ok p D) w"
proof -
  have "captures_ok p D (remove_dir (InRoot (cv_id env)) (w\<lparr>cw_creating := removeAll (cv_id env) (cw_creating w)\<rparr>))"
    using assms by (auto simp: creating_ok_def intro!: ok_remove_dir)
  moreover have "(remove_dir d w)\<lparr>cw_creating := c\<rparr> = remove_dir d (w\<lparr>cw_creating := c\<rparr>)" for d c
    by (cases w) (simp add: remove_dir_def)
  ultimately show ?thesis
    using assms by (simp add: create_failed_def wp_simps creating_ok_def)
qed

lemma create_write_ok:
  assumes "creating_ok p D n w" and "jm_has (cw_dirs w) (InRoot n)"
  shows "wp (create_write env (InRoot n) k sizeBytes fs) (\<lambda>_ w'. creating_ok p D n w' \<and> jm_has (cw_dirs w') (InRoot n)) (\<lambda>_. creating_ok p D n) w"
  using assms
proof (induction fs arbitrary: k sizeBytes w)
  case (Cons f fs)
  have "creating_ok p D n (write_file (InRoot n) q c w)" "jm_has (cw_dirs (write_file (InRoot n) q c w)) (InRoot n)" for q c
    using Cons.prems creating_ok_write by (auto simp: world_simps)
  then show ?case
    using Cons by (auto simp: wp_simps Let_def split: sum.split)
qed (simp add: wp_simps)

lemma create_files_ok:
  assumes "creating_ok p D (cv_id env) w"
  shows "wp (create_files env payload files)
    (\<lambda>r w'. captures_ok p D w' \<and> ca_id r = cv_id env \<and> ca_directory r = InRoot (cv_id env) \<and> ca_localCaptureId r = None)
    (\<lambda>_. creating_ok p D (cv_id env)) w"
proof -
  let ?n = "cv_id env" and ?w = "make_dir (InRoot (cv_id env)) w"
  have "creating_ok p D ?n ?w" "jm_has (cw_dirs ?w) (InRoot ?n)"
    using assms creating_ok_write(1) by (simp_all add: world_simps)
  then have "wp (create_write env (InRoot ?n) 3 0 files)
     (\<lambda>s. wp (andThen (fs_call env 1 (write_file (InRoot ?n) q c)) (\<lambda>_. ret (record_for payload ?n t s k None)))
       (\<lambda>r w'. captures_ok p D w' \<and> ca_id r = ?n \<and> ca_directory r = InRoot ?n \<and> ca_localCaptureId r = None) (\<lambda>_. creating_ok p D ?n))
     (\<lambda>_. creating_ok p D ?n) ?w" for q c t k
    by (rule wp_mono [OF create_write_ok])
       (auto simp: wp_simps record_for_def world_simps intro: creating_ok_done creating_ok_write)
  then show ?thesis
    unfolding create_files_def Let_def using assms by (simp only: wp_andThen wp_fs_call if_True if_False split: if_split) simp
qed

text \<open>An upload that is written is in \<^verbatim>\<open>creating\<close> with its directory, and its record is as \<open>create_finish\<close>
  needs it.\<close>

definition upload_of :: "capture_env \<Rightarrow> capture_record \<Rightarrow> bool" where
  "upload_of env r \<longleftrightarrow> ca_id r = cv_id env \<and> ca_directory r = InRoot (cv_id env) \<and> ca_localCaptureId r = None"

lemma create_begin_ok:
  assumes "captures_ok p D w" and "unused (cv_id env) w"
  shows "wp (create_begin env payload files) (\<lambda>r w'. captures_ok p D w' \<and> upload_of env r) (\<lambda>_. captures_ok p D) w"
proof -
  let ?w = "w\<lparr>cw_creating := cv_id env # cw_creating w\<rparr>"
  have "creating_ok p D (cv_id env) ?w"
    using assms by (auto simp: creating_ok_def unused_def intro!: ok_uncreate)
  then have "wp (handle (create_files env payload fs) (create_failed env)) (\<lambda>r w'. captures_ok p D w' \<and> upload_of env r) (\<lambda>_. captures_ok p D) ?w" for fs
    unfolding wp_handle by (rule wp_mono [OF create_files_ok]) (auto simp: upload_of_def intro: create_failed_ok)
  then show ?thesis
    using assms(1) by (simp add: create_begin_def wp_simps)
qed

text \<open>A new record under \<open>n\<close>, which is then neither a draft nor an upload in progress.\<close>

lemma ok_installed:
  assumes "captures_ok p D w" and "synced p (cw_store w')" and "wf_map (ct_captures (captures_of w'))" and "one_replica (ct_captures (captures_of w'))"
    and "\<And>k r. jm_get (ct_captures (captures_of w')) k = Some r \<Longrightarrow>
      k = n \<and> placed D (cw_dirs w) n r \<or> jm_get (ct_captures (captures_of w)) k = Some r"
    and "\<And>d. jm_has (cw_dirs w) d \<Longrightarrow> jm_has (cw_dirs w') d"
    and "\<And>i e. jm_get (cw_drafts w') i = Some e \<Longrightarrow> i \<noteq> n \<and> jm_get (cw_drafts w) i = Some e"
    and "\<And>i. i \<in> set (cw_creating w') \<Longrightarrow> i \<noteq> n \<and> i \<in> set (cw_creating w)"
  shows "captures_ok p D w'"
proof -
  have has: "jm_has (ct_captures (captures_of w')) k \<Longrightarrow> k = n \<or> jm_has (ct_captures (captures_of w)) k" for k
    using assms(5) [of k] by (auto simp: jm_has_def)
  have "placed D (cw_dirs w') k r" if "jm_get (ct_captures (captures_of w')) k = Some r" for k r
    using assms(5) [OF that] assms(6) captures_okD(5) [OF assms(1), of k r] by (auto simp: placed_def)
  moreover have "draft_ok i e \<and> \<not> jm_has (ct_captures (captures_of w')) i \<and> i \<notin> set (cw_creating w')"
    if "jm_get (cw_drafts w') i = Some e" for i e
    using assms(7) [OF that] assms(8) captures_okD(4) [OF assms(1), of i e] has by blast
  moreover have "jm_has (cw_dirs w') (InRoot k) \<and> \<not> jm_has (ct_captures (captures_of w')) k" if "k \<in> set (cw_creating w')" for k
    using assms(8) [OF that] captures_okD(6) [OF assms(1), of k] assms(6) has by blast
  ultimately show ?thesis
    using assms(2-4) by (simp add: captures_ok_def)
qed

lemma one_replica_set:
  assumes "one_replica cs" and "\<And>l k r'. ca_localCaptureId r = Some l \<Longrightarrow> jm_get cs k = Some r' \<Longrightarrow> k \<noteq> n \<Longrightarrow> ca_localCaptureId r' \<noteq> Some l"
  shows "one_replica (jm_set n r cs)"
  using assms unfolding one_replica_def by (auto split: if_splits)

lemma one_replica_delete: "one_replica cs \<Longrightarrow> one_replica (jm_delete n cs)"
  unfolding one_replica_def by auto

lemma create_finish_ok:
  assumes "captures_ok p D w" and "capture_env_ok p env" and "upload_of env r" and "cv_id env \<in> set (cw_creating w)"
  shows "wp (create_finish env r) (\<lambda>_. captures_ok p D) (\<lambda>_. captures_ok p D) w"
proof -
  let ?n = "cv_id env"
  let ?m = "\<lambda>s. Inr (add_capture r s)" and ?done = "\<lambda>w. w\<lparr>cw_creating := removeAll ?n (cw_creating w)\<rparr>"
  have n: "jm_has (cw_dirs w) (InRoot ?n)" "\<not> jm_has (ct_captures (captures_of w)) ?n" "\<not> jm_has (cw_drafts w) ?n"
    using captures_okD(6) [OF assms(1, 4)] captures_okD(4) [OF assms(1), of ?n] assms(4)
    by (cases "jm_get (cw_drafts w) ?n"; auto simp: jm_has_def)+
  have fin: "captures_ok p D (?done (put_captures st w))"
    if "synced p st" "store_snapshot empty_captures st = add_capture r (captures_of w)" for st
  proof (rule ok_installed [OF assms(1), of _ ?n])
    have r: "ca_id r = ?n" "placed D (cw_dirs w) ?n r" "ca_localCaptureId r = None"
      using assms(3) n(1) by (simp_all add: upload_of_def placed_def)
    then have cs: "ct_captures (captures_of (?done (put_captures st w))) = jm_set ?n r (ct_captures (captures_of w))"
      using that(2) by (simp add: add_capture_def)
    show "wf_map (ct_captures (captures_of (?done (put_captures st w))))" "one_replica (ct_captures (captures_of (?done (put_captures st w))))"
      unfolding cs using captures_okD(2, 3) [OF assms(1)] r(3) by (auto intro!: one_replica_set)
    show "k = ?n \<and> placed D (cw_dirs w) ?n x \<or> jm_get (ct_captures (captures_of w)) k = Some x"
      if "jm_get (ct_captures (captures_of (?done (put_captures st w)))) k = Some x" for k x
      using that r(2) unfolding cs by (simp split: if_splits)
    show "i \<noteq> ?n \<and> jm_get (cw_drafts w) i = Some e" if "jm_get (cw_drafts (?done (put_captures st w))) i = Some e" for i e
      using that n(3) by (auto simp: jm_has_def)
  qed (use that in simp_all)
  have "creating_ok p D ?n (put_captures st w)" if "synced p st" "store_snapshot empty_captures st = captures_of w" for st
    using that n ok_uncreate [OF ok_same_captures [OF assms(1) that(1)], of ?n] by (simp add: creating_ok_def)
  then have "wp (captures_update env 0 ?m) (\<lambda>_ w'. captures_ok p D (?done w')) (\<lambda>_. creating_ok p D ?n) w"
    unfolding captures_update_def
    by (rule captures_store.wp_transact [where p = p, rotated 3])
       (use assms fin in \<open>auto simp: capture_env_ok_def captures_okD(1)\<close>)
  then show ?thesis
    unfolding create_finish_def wp_handle wp_andThen
    by (rule wp_mono) (auto simp: wp_simps intro: create_failed_ok)
qed

subsection \<open>Commits\<close>

text \<open>What a replica being replaced must be: the one stored replica of the same local capture.\<close>

definition replaceable :: "capture_record option \<Rightarrow> capture_record \<Rightarrow> captures_state \<Rightarrow> bool" where
  "replaceable replaces r s \<longleftrightarrow> (case replaces of
     None \<Rightarrow> (\<forall>l. ca_localCaptureId r = Some l \<longrightarrow> (\<forall>k r'. jm_get (ct_captures s) k = Some r' \<longrightarrow> ca_localCaptureId r' \<noteq> Some l))
   | Some old \<Rightarrow> jm_get (ct_captures s) (ca_id old) = Some old \<and> ca_localCaptureId old = ca_localCaptureId r \<and> ca_localCaptureId r \<noteq> None)"

lemma same_local_capture_replaceable:
  assumes "captures_ok p D w" and "ca_localCaptureId r = localId"
  shows "replaceable (same_local_capture localId (captures_of w)) r (captures_of w)"
proof (cases "same_local_capture localId (captures_of w)")
  case None
  then show ?thesis
    using assms(2) by (auto simp: replaceable_def same_local_capture_def find_None_iff dest!: jm_get_memD split: option.splits)
next
  case (Some old)
  then obtain l k where l: "localId = Some l" "ca_localCaptureId old = Some l" "(k, old) \<in> set (ct_captures (captures_of w))"
    by (auto simp: same_local_capture_def find_Some_iff set_zip in_set_conv_nth split: option.splits) (metis prod.collapse)
  then have "jm_get (ct_captures (captures_of w)) k = Some old"
    using captures_okD(2) [OF assms(1)] by (blast intro: jm_get_memI)
  then show ?thesis
    unfolding Some replaceable_def using l assms(2) captures_okD(5) [OF assms(1)] by (auto simp: placed_def)
qed

lemma install_capture_spec:
  assumes "captures_ok p D w" and "replaceable replaces r (captures_of w)" and "install_capture replaces r (captures_of w) = Inr s'"
  shows "wf_map (ct_captures s') \<and> one_replica (ct_captures s') \<and> jm_get (ct_captures s') (ca_id r) = Some r \<and>
    (\<forall>k. k \<noteq> ca_id r \<longrightarrow> jm_get (ct_captures s') k =
       (if map_option ca_id replaces = Some k then None else jm_get (ct_captures (captures_of w)) k))"
proof (cases replaces)
  case None
  then show ?thesis
    using assms captures_okD(2, 3) [OF assms(1)]
    by (auto simp: install_capture_def replaceable_def add_capture_def intro!: one_replica_set)
next
  case (Some old)
  let ?cs = "ct_captures (captures_of w)"
  have old: "jm_get ?cs (ca_id old) = Some old" "ca_localCaptureId old = ca_localCaptureId r" "ca_localCaptureId r \<noteq> None"
    using assms(2) by (simp_all add: replaceable_def Some)
  have s': "ct_captures s' = jm_set (ca_id r) r (jm_delete (ca_id old) ?cs)"
    using assms(3) old(1) by (auto simp: install_capture_def Some add_capture_def split: if_splits)
  have "ca_localCaptureId r' \<noteq> Some l" if "ca_localCaptureId r = Some l" "jm_get ?cs k = Some r'" "k \<noteq> ca_id old" for l k r'
    using captures_okD(3) [OF assms(1)] old that unfolding one_replica_def by metis
  then have "one_replica (ct_captures s')"
    unfolding s' by (intro one_replica_set one_replica_delete captures_okD(3) [OF assms(1)]) (auto split: if_splits)
  then show ?thesis
    using s' captures_okD(2) [OF assms(1)] by (auto simp: Some)
qed

lemma settle_commit_ok:
  assumes ok: "captures_ok p D w" and "jm_get (cw_drafts w) i = Some e" and r: "ca_id r = i" "ca_directory r = InRoot i"
    and "jm_has (cw_dirs w) (InRoot i)" and rep: "replaceable replaces r (captures_of w)"
    and st: "synced p st" "Inr (store_snapshot empty_captures st) = install_capture replaces r (captures_of w)"
  shows "wp (settle_commit env i replaces r) (\<lambda>_. captures_ok p D) R (put_captures st w)"
proof -
  let ?w = "forget_draft i (put_captures st w)"
  have i: "\<not> jm_has (ct_captures (captures_of w)) i" "i \<notin> set (cw_creating w)"
    using captures_okD(4) [OF ok assms(2)] by simp_all
  note spec = install_capture_spec [OF ok rep st(2) [symmetric]]
  have new: "k = i \<and> placed D (cw_dirs w) i x \<or> jm_get (ct_captures (captures_of w)) k = Some x"
    if "jm_get (ct_captures (captures_of ?w)) k = Some x" for k x
    using that spec r assms(5) by (cases "k = i") (auto simp: world_simps placed_def split: if_splits)
  have w: "captures_ok p D ?w"
    by (rule ok_installed [OF ok, of _ i])
       (use new spec st i in \<open>auto simp: world_simps split: if_splits\<close>)
  have gone: "\<not> jm_has (ct_captures (captures_of ?w)) n \<and> n \<notin> set (cw_creating ?w)"
    if "replaces = Some old" "ca_directory old = InRoot n" for old n
  proof -
    have "jm_get (ct_captures (captures_of w)) (ca_id old) = Some old" using rep that by (simp add: replaceable_def)
    then have "n = ca_id old" "jm_has (ct_captures (captures_of w)) n"
      using captures_okD(5) [OF ok, of "ca_id old" old] that(2) by (simp_all add: placed_def jm_has_def)
    moreover from this have "n \<noteq> i" using i(1) by blast
    ultimately show ?thesis
      using spec that(1) captures_okD(6) [OF ok, of n] r(1) by (auto simp: jm_has_def world_simps)
  qed
  show ?thesis
    using w gone r
    by (auto simp: settle_commit_def wp_simps world_simps split: option.split intro!: ok_remove_dir)
qed

lemma finish_commit_ok:
  assumes ok: "captures_ok p D w" and env: "capture_env_ok p env" and e: "jm_get (cw_drafts w) i = Some e"
    and dir: "jm_has (cw_dirs w) (InRoot i)" and rep: "\<And>r. ca_localCaptureId r = localCaptureIdOf (de_payload e) \<Longrightarrow> replaceable replaces r (captures_of w)"
  shows "wp (finish_commit env i e replaces) (\<lambda>_. captures_ok p D) (\<lambda>_. captures_ok p D) w"
proof -
  have i: "dr_id (de_draft e) = i" "dr_directory (de_draft e) = InRoot i"
    using captures_okD(4) [OF ok e] by (simp_all add: draft_ok_def)
  define r where "r = (record_for (de_payload e) i (dr_createdAt (de_draft e)) (dr_sizeBytes (de_draft e)) (jm_size (de_files e))
      (localCaptureIdOf (de_payload e)))\<lparr>ca_directory := InRoot i\<rparr>"
  have r: "ca_id r = i" "ca_directory r = InRoot i" "ca_localCaptureId r = localCaptureIdOf (de_payload e)"
    by (simp_all add: r_def record_for_def)
  have "wp (captures_update env 0 (install_capture replaces r)) (\<lambda>_. wp (settle_commit env i replaces r) (\<lambda>_. captures_ok p D) R)
      (\<lambda>_. captures_ok p D) w1"
    if "captures_ok p D w1" "cw_drafts w1 = cw_drafts w" "cw_store w1 = cw_store w" "jm_has (cw_dirs w1) (InRoot i)" for w1 R
    unfolding captures_update_def
    by (rule captures_store.wp_transact [where p = p])
       (use that env e r rep captures_okD(1) [OF that(1)] in \<open>auto simp: capture_env_ok_def intro!: settle_commit_ok ok_same_captures\<close>)
  from this [of "write_file (InRoot i) [''capture.json''] _ w"]
  have u: "wp (captures_update env 0 (install_capture replaces r)) (\<lambda>_. wp (settle_commit env i replaces r) (\<lambda>_. captures_ok p D) R)
      (\<lambda>_. captures_ok p D) (write_file (InRoot i) [''capture.json''] c w)" for c R
    using ok dir by (auto simp: world_simps)
  show ?thesis
    unfolding finish_commit_def Let_def i r_def [symmetric] wp_handle wp_andThen wp_fs_call
    by (simp add: wp_simps ok ok_forget, intro impI, rule wp_mono [OF u]) (auto simp: wp_simps)
qed

text \<open>A complete package is in a directory that exists.\<close>

lemma complete_package_dir: "complete_package (cd_files (dir_at w d)) declared expected \<Longrightarrow> jm_has (cw_dirs w) d"
  by (auto simp: complete_package_def dir_at_def new_directory_def jm_has_def split: option.splits)

lemma commit_new_ok:
  assumes ok: "captures_ok p D w" and "capture_env_ok p env" and e: "jm_get (cw_drafts w) i = Some e"
    and "\<And>r. ca_localCaptureId r = localCaptureIdOf (de_payload e) \<Longrightarrow> replaceable replaces r (captures_of w)"
  shows "wp (commit_new env i e replaces) (\<lambda>_. captures_ok p D) (\<lambda>_. captures_ok p D) w"
proof -
  have "dr_directory (de_draft e) = InRoot i"
    using captures_okD(4) [OF ok e] by (simp add: draft_ok_def)
  then show ?thesis
    using assms reconcile_draft_ok [OF ok]
    by (auto simp: commit_new_def wp_simps inspect_ok_iff intro!: finish_commit_ok complete_package_dir split: option.split)
qed

lemma wp_inspect [wp_simps]:
  "wp (inspect c) Q R w = (case jm_get (ct_captures (captures_of w)) c of
      None \<Rightarrow> R (localError 404 ''capture_not_found'') w
    | Some r \<Rightarrow> Q (let files = cd_files (dir_at w (ca_directory r)) in
         inspectCapturePackage files (manifest_paths (jm_get files [''capture.json''])) None) w)"
  by (simp add: inspect_def get_capture_def wp_simps Let_def split: option.split)

lemma commitDraft_ok:
  assumes ok: "captures_ok p D w" and env: "capture_env_ok p env"
  shows "wp (commitDraft env i) (\<lambda>_. captures_ok p D) (\<lambda>_. captures_ok p D) w"
proof (cases "jm_get (cw_drafts w) i")
  case (Some e)
  have i: "dr_directory (de_draft e) = InRoot i" "\<not> jm_has (ct_captures (captures_of w)) i" "i \<notin> set (cw_creating w)"
    using captures_okD(4) [OF ok Some] by (simp_all add: draft_ok_def)
  let ?x = "same_local_capture (localCaptureIdOf (de_payload e)) (captures_of w)"
  have new: "wp (commit_new env i e ?x) (\<lambda>_. captures_ok p D) (\<lambda>_. captures_ok p D) w"
    by (rule commit_new_ok [OF ok env Some]) (rule same_local_capture_replaceable [OF ok], simp)
  have "captures_ok p D (remove_dir (InRoot i) (forget_draft i w))"
    using ok i by (auto simp: world_simps intro!: ok_remove_dir)
  then show ?thesis
    using new ok i(1) by (auto simp: commitDraft_def wp_simps Some split: option.split option.split_asm)
qed (simp add: commitDraft_def wp_simps ok)

subsection \<open>Removal, remote captures and the sweep\<close>

text \<open>A record and its directory go together.\<close>

lemma ok_record_gone:
  assumes ok: "captures_ok p D w" and r: "jm_get (ct_captures (captures_of w)) i = Some r" and "synced p st"
    and s: "Inr (store_snapshot empty_captures st) = remove_record i (captures_of w)"
  shows "captures_ok p D (put_captures st (remove_dir (ca_directory r) w))"
proof -
  let ?w = "put_captures st w"
  have cs: "ct_captures (captures_of ?w) = jm_delete i (ct_captures (captures_of w))"
    using s by (simp add: remove_record_def)
  then have has: "jm_has (ct_captures (captures_of ?w)) k \<longleftrightarrow> k \<noteq> i \<and> jm_has (ct_captures (captures_of w)) k" for k
    by (simp add: jm_has_def)
  have "captures_ok p D ?w"
    using ok assms(3) cs one_replica_delete [OF captures_okD(3) [OF ok], of i] unfolding captures_ok_def has
    by (auto split: if_splits)
  moreover have "n = i \<and> n \<notin> set (cw_creating w)" if "ca_directory r = InRoot n" for n
    using captures_okD(5) [OF ok r] captures_okD(6) [OF ok, of n] that r by (auto simp: placed_def jm_has_def)
  ultimately have "captures_ok p D (remove_dir (ca_directory r) ?w)"
    using has by (intro ok_remove_dir) auto
  then show ?thesis by (cases w) (simp add: remove_dir_def)
qed

text \<open>A removal takes the directory first. It is cut short when the directory is gone and the state could not be written; one that was refused
  has done nothing, and one that returns has taken the record as well.\<close>

definition after_removal :: "capture_env \<Rightarrow> bool \<Rightarrow> string \<Rightarrow> capture_world \<Rightarrow> unit result \<Rightarrow> string set \<Rightarrow> string set" where
  "after_removal env refused i w r D =
     (case r of
        Inr _ \<Rightarrow> D - {i}
      | Inl _ \<Rightarrow> if refused \<or> \<not> jm_has (ct_captures (captures_of w)) i \<or> \<not> cv_fs env 0 then D else insert i D)"

lemma ok_cut_short:
  assumes ok: "captures_ok p D w" and r: "jm_get (ct_captures (captures_of w)) i = Some r"
  shows "captures_ok p (insert i D) (remove_dir (ca_directory r) w)"
proof -
  have "n = i \<and> n \<notin> set (cw_creating w)" if "ca_directory r = InRoot n" for n
    using captures_okD(5) [OF ok r] captures_okD(6) [OF ok, of n] that r by (auto simp: placed_def jm_has_def)
  then have dir: "InRoot n = ca_directory r \<Longrightarrow> n = i \<and> n \<notin> set (cw_creating w)" for n by metis
  have "placed (insert i D) (cw_dirs (remove_dir (ca_directory r) w)) k c" if "placed D (cw_dirs w) k c" for k c
    using that dir by (auto simp: placed_def world_simps)
  moreover have "jm_has (cw_dirs (remove_dir (ca_directory r) w)) (InRoot n)" if "n \<in> set (cw_creating w)" "jm_has (cw_dirs w) (InRoot n)" for n
    using that dir [of n] by (auto simp: world_simps)
  ultimately show ?thesis using ok by (simp add: captures_ok_def world_simps)
qed

lemma remove_update_ok:
  assumes ok: "captures_ok p D w" and "capture_env_ok p env" and r: "jm_get (ct_captures (captures_of w)) i = Some r" and fs: "cv_fs env 0"
  shows "wp (captures_update env 0 (remove_record i)) (\<lambda>_. captures_ok p (D - {i})) (\<lambda>_. captures_ok p (insert i D)) (remove_dir (ca_directory r) w)"
proof -
  have gone: "captures_ok p (D - {i}) (put_captures st (remove_dir (ca_directory r) w))"
    if "synced p st" "Inr (store_snapshot empty_captures st) = remove_record i (captures_of w)" for st
  proof -
    have "\<not> jm_has (ct_captures (store_snapshot empty_captures st)) i" using that(2) by (simp add: remove_record_def jm_has_def)
    then show ?thesis using ok_record_gone [OF ok r that] by (auto simp: captures_ok_def placed_def jm_has_def)
  qed
  show ?thesis
    unfolding captures_update_def
    by (rule captures_store.wp_transact [where p = p])
       (use assms captures_okD(1) [OF ok] gone in \<open>auto simp: capture_env_ok_def world_simps intro!: ok_same_captures ok_cut_short\<close>)
qed

lemma delete_capture_ok:
  assumes "captures_ok p D w" and "capture_env_ok p env"
  shows "delete_capture env i w = (r, w') \<Longrightarrow> captures_ok p (after_removal env (hasActiveJob i w) i w r D) w'"
    and "removeRemote env i w = (r, w') \<Longrightarrow> captures_ok p (after_removal env False i w r D) w'"
proof -
  have removal: "captures_ok p (after_removal env False i w r D) w'"
    if "jm_get (ct_captures (captures_of w)) i = Some c" "cv_fs env 0" "captures_update env 0 (remove_record i) (remove_dir (ca_directory c) w) = (r, w')" for c
    using that wp_result [OF remove_update_ok [OF assms that(1, 2)]] by (cases r) (auto simp: after_removal_def jm_has_def)
  show "delete_capture env i w = (r, w') \<Longrightarrow> captures_ok p (after_removal env (hasActiveJob i w) i w r D) w'"
    using assms(1) removal
    by (cases "jm_get (ct_captures (captures_of w)) i"; cases "hasActiveJob i w"; cases "cv_fs env 0")
      (auto simp: delete_capture_def get_capture_def fs_call_def comp_defs after_removal_def jm_has_def)
  show "removeRemote env i w = (r, w') \<Longrightarrow> captures_ok p (after_removal env False i w r D) w'"
    using assms(1) removal
    by (cases "jm_get (ct_captures (captures_of w)) i"; cases "cv_fs env 0")
      (auto simp: removeRemote_def get_capture_def fs_call_def comp_defs after_removal_def jm_has_def)
qed

definition remote_capture :: "capture_record \<Rightarrow> capture_world \<Rightarrow> bool" where
  "remote_capture r w \<longleftrightarrow> (\<exists>d. ca_directory r = Elsewhere d) \<and> ca_localCaptureId r = None \<and>
     \<not> jm_has (cw_drafts w) (ca_id r) \<and> ca_id r \<notin> set (cw_creating w)"

lemma registerRemote_ok:
  assumes ok: "captures_ok p D w" and "capture_env_ok p env" and r: "remote_capture r w"
  shows "wp (registerRemote env r absolute) (\<lambda>_. captures_ok p D) (\<lambda>_. captures_ok p D) w"
proof -
  have new: "captures_ok p D (put_captures st w)"
    if "synced p st" "store_snapshot empty_captures st = add_capture r (captures_of w)" for st
    using ok r that one_replica_set [OF captures_okD(3) [OF ok], of r "ca_id r"]
    by (auto simp: captures_ok_def add_capture_def remote_capture_def placed_def jm_has_def split: if_splits)
  have "wp (captures_update env 0 (\<lambda>s. Inr (add_capture r s))) (\<lambda>_. captures_ok p D) (\<lambda>_. captures_ok p D) w"
    unfolding captures_update_def
    by (rule captures_store.wp_transact_inv [where p = p])
       (use assms new captures_okD(1) [OF ok] in \<open>auto simp: capture_env_ok_def intro!: ok_same_captures\<close>)
  then show ?thesis
    using ok by (simp add: registerRemote_def wp_simps)
qed

lemma sweep_directory_ok: "captures_ok p D w \<Longrightarrow> captures_ok p D (snd (sweep_directory env name w))"
  by (auto simp: sweep_directory_def ownsDirectory_def intro!: ok_remove_dir split: option.split)

lemma sweep_names_ok: "captures_ok p D w \<Longrightarrow> captures_ok p D (snd (sweep_names envs names w))"
proof (induction names arbitrary: w)
  case (Cons n names)
  then show ?case
    using Cons.IH [OF sweep_directory_ok [OF Cons.prems, of "envs n" n]] by (auto split: prod.splits)
qed simp

lemma sweepOnce_ok: "captures_ok p D w \<Longrightarrow> captures_ok p D (snd (sweepOnce readable envs w))"
  by (simp add: sweepOnce_def sweep_names_ok)

section \<open>Every sequence of steps\<close>

text \<open>A start without captures, and after it any operation in any order, other components' changes to
  the jobs, files that appear or vanish inside the directories, and restarts. Identifiers of new
  captures and drafts are new; remote captures lie outside the capture root. Every operation may
  fail at any of its calls, the two removals included; \<open>D\<close> records the captures whose last removal was cut short between the directory and the record.\<close>

inductive capture_reachable :: "string \<Rightarrow> string set \<Rightarrow> capture_world \<Rightarrow> bool" for p where
  Start: "synced p (cw_store w) \<Longrightarrow> ct_captures (captures_of w) = [] \<Longrightarrow> cw_drafts w = [] \<Longrightarrow> cw_creating w = [] \<Longrightarrow>
    capture_reachable p {} w"
| CreateBegin: "capture_reachable p D w \<Longrightarrow> unused (cv_id env) w \<Longrightarrow> capture_reachable p D (snd (create_begin env payload files w))"
| CreateFinish: "capture_reachable p D w \<Longrightarrow> capture_env_ok p env \<Longrightarrow> upload_of env r \<Longrightarrow> cv_id env \<in> set (cw_creating w) \<Longrightarrow>
    capture_reachable p D (snd (create_finish env r w))"
| Begin: "capture_reachable p D w \<Longrightarrow> unused (cv_id env) w \<Longrightarrow> capture_reachable p D (snd (beginDraft env payload w))"
| Write: "capture_reachable p D w \<Longrightarrow> capture_reachable p D (snd (writeDraftFileStream env i rawPath stream mimeType maxBytes w))"
| Ask: "capture_reachable p D w \<Longrightarrow> capture_reachable p D (snd (getDraft busy i w))"
| Commit: "capture_reachable p D w \<Longrightarrow> capture_env_ok p env \<Longrightarrow> capture_reachable p D (snd (commitDraft env i w))"
| Discard: "capture_reachable p D w \<Longrightarrow> capture_reachable p D (snd (discardDraft env i w))"
| Delete: "capture_reachable p D w \<Longrightarrow> capture_env_ok p env \<Longrightarrow> delete_capture env i w = (r, w') \<Longrightarrow>
    capture_reachable p (after_removal env (hasActiveJob i w) i w r D) w'"
| Register: "capture_reachable p D w \<Longrightarrow> capture_env_ok p env \<Longrightarrow> remote_capture r w \<Longrightarrow>
    capture_reachable p D (snd (registerRemote env r absolute w))"
| RemoveRemote: "capture_reachable p D w \<Longrightarrow> capture_env_ok p env \<Longrightarrow> removeRemote env i w = (r, w') \<Longrightarrow>
    capture_reachable p (after_removal env False i w r D) w'"
| Sweep: "capture_reachable p D w \<Longrightarrow> capture_reachable p D (snd (sweep_directory env name w))"
| Restart: "capture_reachable p D w \<Longrightarrow> capture_reachable p D (forgetDrafts w)"
| Disk: "capture_reachable p D w \<Longrightarrow> (\<And>d. jm_has (cw_dirs w) d \<Longrightarrow> jm_has dirs d) \<Longrightarrow> capture_reachable p D (w\<lparr>cw_dirs := dirs\<rparr>)"
| Jobs: "capture_reachable p D w \<Longrightarrow> synced p st \<Longrightarrow> ct_captures (store_snapshot empty_captures st) = ct_captures (captures_of w) \<Longrightarrow>
    capture_reachable p D (put_captures st w)"

lemmas operations_ok = create_finish_ok [THEN wp_snd] beginDraft_ok [THEN wp_snd] writeDraftFileStream_ok [THEN wp_snd]
  getDraft_ok [THEN wp_snd] commitDraft_ok [THEN wp_snd] discardDraft_ok [THEN wp_snd] registerRemote_ok [THEN wp_snd]

lemma reachable_ok: "capture_reachable p D w \<Longrightarrow> captures_ok p D w"
proof (induction rule: capture_reachable.induct)
  case (Start w)
  then show ?case by (simp add: captures_ok_def wf_map_def one_replica_def)
next
  case (CreateBegin D w env payload files)
  have "wp (create_begin env payload files) (\<lambda>_. captures_ok p D) (\<lambda>_. captures_ok p D) w"
    by (rule wp_mono [OF create_begin_ok]) (use CreateBegin in auto)
  then show ?case by (rule wp_snd)
next
  case (Delete D w env i r w')
  then show ?case using delete_capture_ok(1) by blast
next
  case (RemoveRemote D w env i r w')
  then show ?case using delete_capture_ok(2) by blast
next
  case (Disk D w dirs)
  then show ?case by (auto intro: ok_keep_dirs)
next
  case (Restart D w)
  then show ?case by (simp add: forgetDrafts_def captures_ok_def)
qed (auto intro!: operations_ok sweep_directory_ok ok_same_captures)

section \<open>What a commit stores\<close>

lemma capture_json_nonempty: "capture_json payload files \<noteq> []"
proof -
  have "json_stringify (JObj m) \<noteq> []" for m by (cases m rule: list.exhaust) auto
  then show ?thesis by (simp add: capture_json_def)
qed

definition stored_from :: "string \<Rightarrow> draft_entry \<Rightarrow> capture_record \<Rightarrow> capture_world \<Rightarrow> bool" where
  "stored_from i e r w \<longleftrightarrow> ca_id r = i \<and> jm_get (ct_captures (captures_of w)) i = Some r \<and> ca_directory r = dr_directory (de_draft e) \<and>
     ca_sizeBytes r = dr_sizeBytes (de_draft e) \<and> ca_fileCount r = jm_size (de_files e) \<and>
     ca_localCaptureId r = localCaptureIdOf (de_payload e) \<and>
     complete_package (cd_files (dir_at w (ca_directory r))) (jm_keys (de_files e))
       (declaredFrameCount (json_field (Some (de_payload e)) ''metadata''))"

lemma settle_commit_stored:
  assumes "stored_from i e r w"
  shows "wp (settle_commit env i replaces r) (\<lambda>r' w'. r' = r \<and> stored_from i e r w' \<and> \<not> jm_has (cw_drafts w') i) R w"
  using assms
  by (auto simp: settle_commit_def wp_simps stored_from_def world_simps jm_has_def dir_at_def change_dir_def remove_dir_def
      forget_draft_def new_directory_def split: option.splits)

lemma finish_commit_stored:
  assumes "synced p (cw_store w)" and "capture_env_ok p env" and "dr_id (de_draft e) = i"
    and "complete_package (cd_files (dir_at w (dr_directory (de_draft e)))) (jm_keys (de_files e))
       (declaredFrameCount (json_field (Some (de_payload e)) ''metadata''))"
  shows "wp (finish_commit env i e replaces) (\<lambda>r w'. stored_from i e r w' \<and> \<not> jm_has (cw_drafts w') i) (\<lambda>_ _. True) w"
proof -
  define d where "d = dr_directory (de_draft e)"
  define r where "r = (record_for (de_payload e) i (dr_createdAt (de_draft e)) (dr_sizeBytes (de_draft e)) (jm_size (de_files e))
      (localCaptureIdOf (de_payload e)))\<lparr>ca_directory := d\<rparr>"
  have installed: "jm_get (ct_captures s') i = Some r" if "Inr s' = install_capture replaces r s" for s s'
    using that by (auto simp: install_capture_def add_capture_def r_def record_for_def split: option.splits if_splits)
  have stored: "stored_from i e r (put_captures st (write_file d [''capture.json''] (capture_json payload files) w))"
    if "Inr (store_snapshot empty_captures st) = install_capture replaces r s" for st s payload files
    using installed [OF that] complete_package_add [OF assms(4), of "[''capture.json'']"] capture_json_nonempty
    by (simp add: stored_from_def r_def record_for_def d_def dir_at_def write_file_def change_dir_def)
  have settle: "wp (settle_commit env i replaces r) (\<lambda>r' w'. stored_from i e r' w' \<and> \<not> jm_has (cw_drafts w') i) R
      (put_captures st (write_file d [''capture.json''] (capture_json payload files) w))"
    if "Inr (store_snapshot empty_captures st) = install_capture replaces r s" for st s payload files R
    by (rule wp_mono [OF settle_commit_stored [OF stored [OF that]]]) auto
  have "wp (captures_update env 0 (install_capture replaces r))
      (\<lambda>_. wp (settle_commit env i replaces r) (\<lambda>r' w'. stored_from i e r' w' \<and> \<not> jm_has (cw_drafts w') i) R) (\<lambda>_ _. True)
      (write_file d [''capture.json''] (capture_json payload files) w)" for payload files R
    unfolding captures_update_def
    by (rule captures_store.wp_transact [where p = p])
       (use assms(1, 2) settle in \<open>auto simp: capture_env_ok_def world_simps\<close>)
  then show ?thesis
    unfolding finish_commit_def Let_def assms(3) d_def [symmetric] r_def [symmetric] wp_handle wp_andThen wp_fs_call
    by (simp add: wp_simps wp_writes_fun)
qed

text \<open>A commit that returns either stored this draft, or found the replica of an earlier commit.\<close>

definition committed :: "string \<Rightarrow> capture_world \<Rightarrow> capture_record \<Rightarrow> capture_world \<Rightarrow> bool" where
  "committed i w r w' \<longleftrightarrow> \<not> jm_has (cw_drafts w') i \<and> (\<exists>e. jm_get (cw_drafts w) i = Some e \<and>
     (stored_from i e r w' \<or>
      captures_of w' = captures_of w \<and> jm_get (ct_captures (captures_of w)) (ca_id r) = Some r \<and>
      ca_localCaptureId r = localCaptureIdOf (de_payload e) \<and> ca_localCaptureId r \<noteq> None))"

lemma commitDraft_stores:
  assumes ok: "captures_ok p D w" and env: "capture_env_ok p env"
  shows "wp (commitDraft env i) (committed i w) (\<lambda>_ _. True) w"
proof (cases "jm_get (cw_drafts w) i")
  case (Some e)
  have i: "dr_id (de_draft e) = i" using captures_okD(4) [OF ok Some] by (simp add: draft_ok_def)
  have "wp (commit_new env i e x) (committed i w) (\<lambda>_ _. True) w" for x
    unfolding commit_new_def wp_andThen wp_basic inspect_ok_iff
    by (auto simp: wp_simps committed_def Some inspect_ok_iff
        intro!: wp_mono [OF finish_commit_stored [OF captures_okD(1) [OF ok] env i]] split: option.split)
  moreover have "committed i w old w'" if "same_local_capture (localCaptureIdOf (de_payload e)) (captures_of w) = Some old"
      "cw_store w' = cw_store w" "\<not> jm_has (cw_drafts w') i" for old w'
    using same_local_capture_replaceable [OF ok, of "old\<lparr>ca_localCaptureId := localCaptureIdOf (de_payload e)\<rparr>"] that
    by (auto simp: committed_def Some replaceable_def)
  ultimately show ?thesis
    by (auto simp: commitDraft_def wp_simps Some world_simps jm_has_def split: option.split option.split_asm)
qed (simp add: commitDraft_def wp_simps)

text \<open>The sweep takes only directories below the root that nobody owns and whose marker, if there is
  one, is older than the grace period.\<close>

lemma sweep_directory_cases:
  "snd (sweep_directory env name w) = w \<or>
   (\<exists>x. snd (sweep_directory env name w) = remove_dir (InRoot name) w \<and> \<not> ownsDirectory name w \<and> jm_get (cw_dirs w) (InRoot name) = Some x \<and>
      (case cd_marker x of None \<Rightarrow> True | Some t \<Rightarrow> DRAFT_IDLE_GRACE_MS \<le> cv_now env - t))"
  by (auto simp: sweep_directory_def draftMarkerAgeMs_def split: option.split)

section \<open>Concrete runs\<close>

definition demo_env :: "string \<Rightarrow> capture_env" where
  "demo_env i = \<lparr>cv_id = i, cv_now = 0, cv_chunkTime = (\<lambda>_. 0), cv_fs = (\<lambda>_. True), cv_marker = (\<lambda>_. True), cv_tx = (\<lambda>_. quiet_env)\<rparr>"

definition demo_world :: capture_world where
  "demo_world = \<lparr>cw_store = saved_store empty_captures, cw_drafts = [], cw_creating = [], cw_dirs = []\<rparr>"

definition demo_payload :: json where
  "demo_payload = JObj [(''schema'', JStr ''kubus.capture/1''), (''capturedAt'', JStr ''t''), (''metadata'', JObj [(''localCaptureId'', JStr ''x'')])]"

lemma demo_env_ok [simp]: "capture_env_ok ''state.json'' (demo_env i)"
  by (simp add: capture_env_ok_def demo_env_def)

lemma demo_world_reachable: "capture_reachable ''state.json'' {} demo_world"
  by (rule capture_reachable.Start) (simp_all add: demo_world_def, simp_all add: saved_store_def empty_captures_def store_snapshot_def)

definition demo_frames :: string where
  "demo_frames = json_stringify (JObj [(''schema'', JStr ''kubus.capture.frames/1''), (''frames'', JArr [JObj [(''rgbPath'', JStr ''r'')]])])"

text \<open>A draft, its two files, its commit, and the sweep after a restart.\<close>

definition demo_draft :: capture_world where
  "demo_draft = snd (beginDraft (demo_env ''a'') demo_payload demo_world)"

definition demo_partial :: capture_world where
  "demo_partial = snd (writeDraftFile (demo_env ''b'') ''a'' ''r'' ''xyz'' None demo_draft)"

definition demo_uploaded :: capture_world where
  "demo_uploaded = snd (writeDraftFile (demo_env ''c'') ''a'' ''frames.json'' demo_frames None demo_partial)"

definition demo_commit :: "capture_record result \<times> capture_world" where
  "demo_commit = commitDraft (demo_env ''d'') ''a'' demo_uploaded"

definition demo_swept :: capture_world where
  "demo_swept = snd (sweep_directory (demo_env ''e'') ''a'' (forgetDrafts (snd demo_commit)))"

lemma demo_reachable:
  "capture_reachable ''state.json'' {} demo_partial" "capture_reachable ''state.json'' {} demo_uploaded" "capture_reachable ''state.json'' {} demo_swept"
proof -
  have "unused ''a'' demo_world" by (simp add: unused_def demo_world_def jm_has_def) (simp add: saved_store_def empty_captures_def store_snapshot_def)
  then have "capture_reachable ''state.json'' {} demo_draft"
    unfolding demo_draft_def by (intro capture_reachable.Begin demo_world_reachable) (simp add: demo_env_def)
  then show partly: "capture_reachable ''state.json'' {} demo_partial"
    unfolding demo_partial_def writeDraftFile_def by (rule capture_reachable.Write)
  show upl: "capture_reachable ''state.json'' {} demo_uploaded"
    unfolding demo_uploaded_def writeDraftFile_def by (rule capture_reachable.Write [OF partly])
  show "capture_reachable ''state.json'' {} demo_swept"
    unfolding demo_swept_def demo_commit_def
    by (intro capture_reachable.Sweep capture_reachable.Restart capture_reachable.Commit upl) simp
qed

lemma demo_facts:
  "jm_get (cw_drafts demo_partial) ''a'' \<noteq> None" "fst demo_commit = Inr (projr (fst demo_commit))"
  "jm_get (ct_captures (captures_of demo_swept)) ''a'' = Some (projr (fst demo_commit))"
  "ca_directory (projr (fst demo_commit)) = InRoot ''a''"
  by code_simp+

text \<open>A deletion removes the directory before the record. When the state cannot be written, the record
  stays and names a directory that is gone.\<close>

definition full_disk :: capture_env where
  "full_disk = (demo_env ''f'')\<lparr>cv_tx := (\<lambda>_. quiet_env\<lparr>te_io := io_ok\<lparr>io_writeTmp := False\<rparr>\<rparr>)\<rparr>"

lemma delete_before_record:
  "\<not> jm_has (cw_dirs (snd (delete_capture full_disk ''a'' demo_swept))) (InRoot ''a'') \<and>
   map_option ca_directory (jm_get (ct_captures (captures_of (snd (delete_capture full_disk ''a'' demo_swept)))) ''a'') = Some (InRoot ''a'')"
  by code_simp

lemma delete_cut_short_reachable:
  "capture_reachable ''state.json'' {''a''} (snd (delete_capture full_disk ''a'' demo_swept))"
proof -
  have env: "capture_env_ok ''state.json'' full_disk" by (simp add: capture_env_ok_def full_disk_def demo_env_def writes_beside_def quiet_env_def)
  have "(case fst (delete_capture full_disk ''a'' demo_swept) of Inl _ \<Rightarrow> True | Inr _ \<Rightarrow> False) \<and> \<not> hasActiveJob ''a'' demo_swept \<and>
      jm_has (ct_captures (captures_of demo_swept)) ''a'' \<and> cv_fs full_disk 0"
    by code_simp
  then have "after_removal full_disk (hasActiveJob ''a'' demo_swept) ''a'' demo_swept (fst (delete_capture full_disk ''a'' demo_swept)) {} = {''a''}"
    by (auto simp: after_removal_def split: sum.splits)
  then show ?thesis
    using capture_reachable.Delete [OF demo_reachable(3) env prod.collapse [symmetric], of "''a''"] by simp
qed

section \<open>Properties\<close>

text \<open>
  C19. After any sequence of uploads, commits, repairs, discards, deletions, sweeps and restarts, with any failures of the file system and of the
  writes of the state, a stored capture of the capture root is under its own name and still has its directory, unless the last
  attempt to delete this very capture was cut short: it had removed the directory and then failed to write the state.
\<close>
theorem stored_capture_has_directory:
  assumes "capture_reachable p D w" and "jm_get (ct_captures (captures_of w)) k = Some r" and "ca_directory r = InRoot n"
  shows "n = k \<and> (k \<notin> D \<longrightarrow> jm_has (cw_dirs w) (InRoot n))"
  using captures_okD(5) [OF reachable_ok [OF assms(1)] assms(2)] assms(3) by (auto simp: placed_def)

theorem stored_capture_has_directory_witness: "jm_has (cw_dirs demo_swept) (InRoot ''a'')"
  using stored_capture_has_directory [OF demo_reachable(3) demo_facts(3, 4)] by simp



text \<open>
  C20. A commit that returns a record has either stored this draft, with its directory a complete
  package of every file received, or found the stored replica of an earlier commit of the same
  local capture. In both cases the draft is gone and no second replica of the local capture is
  stored.
\<close>
theorem commit_stores_complete_package:
  assumes "capture_reachable p D w" and "capture_env_ok p env" and "commitDraft env i w = (Inr r, w')"
  shows "committed i w r w' \<and>
    (\<forall>k r' l. jm_get (ct_captures (captures_of w')) k = Some r' \<longrightarrow> ca_localCaptureId r = Some l \<longrightarrow> ca_localCaptureId r' = Some l \<longrightarrow> k = ca_id r)"
proof -
  have ok: "captures_ok p D w" by (rule reachable_ok [OF assms(1)])
  have c: "committed i w r w'" using wp_result(1) [OF commitDraft_stores [OF ok assms(2)] assms(3)] .
  then have "jm_get (ct_captures (captures_of w')) (ca_id r) = Some r" by (auto simp: committed_def stored_from_def)
  moreover have "captures_ok p D w'" using wp_result(1) [OF commitDraft_ok [OF ok assms(2)] assms(3)] .
  ultimately show ?thesis
    using c captures_okD(3) [of p D w'] unfolding one_replica_def by blast
qed

theorem commit_stores_complete_package_witness: "committed ''a'' demo_uploaded (projr (fst demo_commit)) (snd demo_commit)"
  using commit_stores_complete_package [OF demo_reachable(2), of "demo_env ''d''" "''a''" "projr (fst demo_commit)" "snd demo_commit"]
    demo_facts(2) by (simp add: demo_commit_def [symmetric] prod_eq_iff)

end
