(* ===== verification/Runtime_Lease.thy ===== *)
theory Runtime_Lease
  imports Json_Text
begin

text \<open>
  The exclusive lease of the state file, \<^verbatim>\<open>src/runtime/runtimeLease.ts\<close>.

  A lease is a file beside the state, made by linking a temporary file that names its owner.
  Processes share nothing but the directory, so \<open>acquireRuntimeLease\<close> is a program counter
  (\<open>phase\<close>) per process and one transition (\<open>lease_op\<close>) per call of the file system: a link, a read,
  a judgement of an owner, a directory made or removed. \<open>lease_run\<close> interleaves the
  transitions of any number of processes, any of which may crash at any moment; every call may fail
  with a code of its own. What the kernel says of other processes is the argument \<open>os_view\<close>,
  and \<open>truthful\<close> is what the code relies on: it does not call a running process dead.

  The lease is exclusive as long as no owner gives its lease up while a process that reclaims a stale
  lease stands between its second reading of the owner and its judgement (\<open>one_live_holder\<close>); without
  that condition it is not (\<open>reclaim_races_with_release\<close>). A stale lease is recovered in a bounded
  number of steps (\<open>stale_lease_recovered\<close>).
\<close>

section \<open>Who runs\<close>

record ident =
  id_pid :: int
  id_host :: string
  id_namespace :: string
  id_boot :: "string option"
  id_processStart :: "string option"

text \<open>What a process sees of its machine: \<open>ov_kill\<close> is the code with which \<^verbatim>\<open>process.kill(pid, 0)\<close>
  fails, if it does, \<open>ov_stat\<close> the text of \<^verbatim>\<open>/proc/<pid>/stat\<close>.\<close>

record os_view =
  ov_platform :: string
  ov_hostname :: string
  ov_pid :: int
  ov_moduleStart :: string
  ov_namespace :: "string result"
  ov_bootId :: "string result"
  ov_stat :: "int \<Rightarrow> string option"
  ov_kill :: "int \<Rightarrow> string option"

text \<open>\<^verbatim>\<open>s.split(/\s+/)\<close>\<close>

function ws_fields :: "string \<Rightarrow> string list" where
  "ws_fields s = takeWhile (\<lambda>c. \<not> is_ws c) s #
     (case dropWhile (\<lambda>c. \<not> is_ws c) s of [] \<Rightarrow> [] | c # r \<Rightarrow> ws_fields (dropWhile is_ws r))"
  by pat_completeness auto
termination
proof (relation "measure length")
  fix s c r assume "dropWhile (\<lambda>c. \<not> is_ws c) s = c # r"
  then have "length r < length s"
    using length_dropWhile_le [of "\<lambda>c. \<not> is_ws c" s] by simp
  then show "(dropWhile is_ws r, s) \<in> measure length"
    using length_dropWhile_le [of is_ws r] by simp
qed simp

declare ws_fields.simps [simp del]

text \<open>\<^verbatim>\<open>stat.slice(stat.lastIndexOf(')') + 2).trim().split(/\s+/)[19]\<close>\<close>

definition after_last_paren :: "string \<Rightarrow> string" where
  "after_last_paren s =
     (if CHR '')'' \<in> set s then drop 1 (rev (takeWhile (\<lambda>c. c \<noteq> CHR '')'') (rev s))) else drop 1 s)"

definition stat_start :: "string \<Rightarrow> string option" where
  "stat_start s = (let fs = ws_fields (trim (after_last_paren s)) in if 19 < length fs then Some (fs ! 19) else None)"

definition identity :: "os_view \<Rightarrow> int \<Rightarrow> ident result" where
  "identity ov pid =
     (if ov_platform ov \<noteq> ''linux''
      then Inr \<lparr>id_pid = pid, id_host = ov_hostname ov, id_namespace = ov_platform ov, id_boot = None,
             id_processStart = (if pid = ov_pid ov then Some (ov_moduleStart ov) else None)\<rparr>
      else (case ov_namespace ov of Inl e \<Rightarrow> Inl e | Inr ns \<Rightarrow>
           (case ov_bootId ov of Inl e \<Rightarrow> Inl e | Inr b \<Rightarrow>
              Inr \<lparr>id_pid = pid, id_host = ov_hostname ov, id_namespace = ns, id_boot = Some (trim b),
                id_processStart = stat_start (opt_str (ov_stat ov pid))\<rparr>)))"

section \<open>The owner of a lease\<close>

definition owner_json :: "ident \<Rightarrow> string \<Rightarrow> json" where
  "owner_json c nonce = JObj ([(''version'', JNum 1), (''pid'', JNum (id_pid c)), (''host'', JStr (id_host c)),
       (''namespace'', JStr (id_namespace c))]
     @ (case id_boot c of None \<Rightarrow> [] | Some b \<Rightarrow> [(''boot'', JStr b)])
     @ (case id_processStart c of None \<Rightarrow> [] | Some s \<Rightarrow> [(''processStart'', JStr s)])
     @ [(''nonce'', JStr nonce)])"

definition max_safe_integer :: int where
  "max_safe_integer = 2 ^ 53 - 1"

definition valid_owner :: "json \<Rightarrow> bool" where
  "valid_owner v \<longleftrightarrow>
     json_field (Some v) ''version'' = Some (JNum 1) \<and>
     (case as_integer (json_field (Some v) ''pid'') of None \<Rightarrow> False | Some n \<Rightarrow> 0 < n \<and> n \<le> max_safe_integer) \<and>
     as_string (json_field (Some v) ''host'') \<noteq> None \<and>
     as_string (json_field (Some v) ''namespace'') \<noteq> None \<and>
     (case as_string (json_field (Some v) ''nonce'') of None \<Rightarrow> False | Some n \<Rightarrow> 10 < length n)"

text \<open>\<open>content\<close> is what reading the file gave.\<close>

definition readOwner :: "string result \<Rightarrow> json result" where
  "readOwner content =
     (case content of Inl e \<Rightarrow> Inl e | Inr text \<Rightarrow>
        (case json_parse text of None \<Rightarrow> Inl (PlainError ''SyntaxError'') | Some v \<Rightarrow>
           (if valid_owner v then Inr v else Inl (PlainError ''runtime_lease_owner_unverified''))))"

definition provenStopped :: "os_view \<Rightarrow> json \<Rightarrow> ident \<Rightarrow> bool result" where
  "provenStopped ov own cur =
     (let fld = json_field (Some own); pid = the (as_integer (fld ''pid'')) in
      if fld ''host'' \<noteq> Some (JStr (id_host cur)) then Inr False
      else if \<not> json_falsy (fld ''boot'') \<and> opt_str (id_boot cur) \<noteq> [] \<and> fld ''boot'' \<noteq> Some (JStr (opt_str (id_boot cur)))
      then Inr True
      else if fld ''namespace'' \<noteq> Some (JStr (id_namespace cur)) then Inr False
      else (case ov_kill ov pid of
          Some code \<Rightarrow> Inr (code = ''ESRCH'')
        | None \<Rightarrow>
            (case (if pid = ov_pid ov then Inr cur else identity ov pid) of
               Inl e \<Rightarrow> Inl e
             | Inr live \<Rightarrow>
                 Inr (\<not> json_falsy (fld ''processStart'') \<and> opt_str (id_processStart live) \<noteq> [] \<and>
                      fld ''processStart'' \<noteq> Some (JStr (opt_str (id_processStart live)))))))"

section \<open>Processes and their directory\<close>

text \<open>The phases of \<open>acquireRuntimeLease\<close> and of the \<open>release\<close> it returns; the number is the attempt.
  \<open>Cleaning\<close> is the outer \<^verbatim>\<open>finally\<close>, with the error it rethrows.\<close>

datatype phase =
    Opening
  | Writing
  | Linking nat
  | Inspecting nat
  | Judging nat json
  | Guarding nat
  | Rereading nat
  | Rejudging nat json
  | Unlinking nat
  | Unguarding nat "node_error option"
  | Cleaning "node_error option"
  | Holding
  | Releasing
  | Dropping
  | Released
  | Failed node_error

record lease_proc =
  lp_ident :: ident
  lp_nonce :: string
  lp_live :: bool
  lp_phase :: phase

record lease_world =
  lw_file :: string
  lw_files :: "string \<Rightarrow> string option"
  lw_dirs :: "string \<Rightarrow> bool"
  lw_procs :: "lease_proc list"

definition temporary :: "lease_world \<Rightarrow> lease_proc \<Rightarrow> string" where
  "temporary w p = lw_file w @ ''.'' @ lp_nonce p @ ''.tmp''"

definition reaper :: "lease_world \<Rightarrow> string" where
  "reaper w = lw_file w @ ''.reclaim''"

definition owner_text :: "lease_proc \<Rightarrow> string" where
  "owner_text p = json_stringify (owner_json (lp_ident p) (lp_nonce p))"

definition set_phase :: "nat \<Rightarrow> phase \<Rightarrow> lease_world \<Rightarrow> lease_world" where
  "set_phase i ph w = w\<lparr>lw_procs := (lw_procs w)[i := (lw_procs w ! i)\<lparr>lp_phase := ph\<rparr>]\<rparr>"

definition put_file :: "string \<Rightarrow> string option \<Rightarrow> lease_world \<Rightarrow> lease_world" where
  "put_file p c w = w\<lparr>lw_files := (lw_files w)(p := c)\<rparr>"

definition put_dir :: "string \<Rightarrow> bool \<Rightarrow> lease_world \<Rightarrow> lease_world" where
  "put_dir p b w = w\<lparr>lw_dirs := (lw_dirs w)(p := b)\<rparr>"

text \<open>Reading the lease file, with the error of the call when it fails.\<close>

definition read_lease :: "string option \<Rightarrow> lease_world \<Rightarrow> json result" where
  "read_lease io w = readOwner
     (case io of Some code \<Rightarrow> Inl (PlainError code) | None \<Rightarrow>
        (case lw_files w (lw_file w) of None \<Rightarrow> Inl (PlainError ''ENOENT'') | Some t \<Rightarrow> Inr t))"

section \<open>One call of one process\<close>

text \<open>\<open>io\<close> is the code with which the file system fails the call, \<open>ov\<close> what the process sees when
  it judges an owner.\<close>

text \<open>The \<^verbatim>\<open>mkdir\<close> of the parent directory comes first; its failure ends the process as that of the open does, and is not told apart from it.\<close>

definition open_temporary :: "string option \<Rightarrow> os_view \<Rightarrow> nat \<Rightarrow> lease_world \<Rightarrow> lease_world" where
  "open_temporary io ov i w =
     (case identity ov (ov_pid ov) of
        Inl e \<Rightarrow> set_phase i (Failed e) w
      | Inr cur \<Rightarrow>
          (let w1 = w\<lparr>lw_procs := (lw_procs w)[i := (lw_procs w ! i)\<lparr>lp_ident := cur\<rparr>]\<rparr>;
               temp = temporary w (lw_procs w ! i)
           in case io of Some code \<Rightarrow> set_phase i (Failed (PlainError code)) w1
              | None \<Rightarrow> if lw_files w temp \<noteq> None then set_phase i (Failed (PlainError ''EEXIST'')) w1
                        else set_phase i Writing (put_file temp (Some []) w1)))"

definition link_temporary :: "string option \<Rightarrow> nat \<Rightarrow> nat \<Rightarrow> lease_world \<Rightarrow> lease_world" where
  "link_temporary io n i w =
     (let temp = temporary w (lw_procs w ! i);
          outcome = (case io of Some code \<Rightarrow> Some code
             | None \<Rightarrow> if lw_files w temp = None then Some ''ENOENT''
                       else if lw_files w (lw_file w) \<noteq> None then Some ''EEXIST'' else None)
      in case outcome of
           None \<Rightarrow> set_phase i (Cleaning None) (put_file (lw_file w) (lw_files w temp) w)
         | Some code \<Rightarrow> if code \<noteq> ''EEXIST'' then set_phase i (Cleaning (Some (PlainError code))) w
                        else set_phase i (Inspecting n) w)"

definition next_attempt :: "nat \<Rightarrow> phase" where
  "next_attempt n = (if Suc n < 3 then Linking (Suc n) else Cleaning (Some (PlainError ''runtime_lease_acquisition_contended'')))"

definition judge_existing :: "os_view \<Rightarrow> nat \<Rightarrow> json \<Rightarrow> nat \<Rightarrow> lease_world \<Rightarrow> lease_world" where
  "judge_existing ov n own i w =
     (case provenStopped ov own (lp_ident (lw_procs w ! i)) of
        Inl e \<Rightarrow> set_phase i (Cleaning (Some e)) w
      | Inr stopped \<Rightarrow>
          (if \<not> stopped then set_phase i (Cleaning (Some (PlainError ''runtime_writer_already_active_or_unverified''))) w
           else set_phase i (Guarding n) w))"

definition claim_reaper :: "string option \<Rightarrow> nat \<Rightarrow> nat \<Rightarrow> lease_world \<Rightarrow> lease_world" where
  "claim_reaper io n i w =
     (if io \<noteq> None \<or> lw_dirs w (reaper w)
      then set_phase i (Cleaning (Some (PlainError ''runtime_lease_recovery_requires_review''))) w
      else set_phase i (Rereading n) (put_dir (reaper w) True w))"

definition reread_owner :: "string option \<Rightarrow> nat \<Rightarrow> nat \<Rightarrow> lease_world \<Rightarrow> lease_world" where
  "reread_owner io n i w =
     (case read_lease io w of
        Inr own \<Rightarrow> set_phase i (Rejudging n own) w
      | Inl e \<Rightarrow> set_phase i (Unguarding n (if e = PlainError ''ENOENT'' then None else Some e)) w)"

definition judge_actual :: "os_view \<Rightarrow> nat \<Rightarrow> json \<Rightarrow> nat \<Rightarrow> lease_world \<Rightarrow> lease_world" where
  "judge_actual ov n own i w =
     (case provenStopped ov own (lp_ident (lw_procs w ! i)) of
        Inl e \<Rightarrow> set_phase i (Unguarding n (Some e)) w
      | Inr stopped \<Rightarrow> set_phase i (if stopped then Unlinking n else Unguarding n None) w)"

definition unlink_stale :: "string option \<Rightarrow> nat \<Rightarrow> nat \<Rightarrow> lease_world \<Rightarrow> lease_world" where
  "unlink_stale io n i w =
     (case io of Some code \<Rightarrow> set_phase i (Unguarding n (Some (PlainError code))) w
      | None \<Rightarrow> if lw_files w (lw_file w) = None then set_phase i (Unguarding n (Some (PlainError ''ENOENT''))) w
                else set_phase i (Unguarding n None) (put_file (lw_file w) None w))"

definition drop_reaper :: "string option \<Rightarrow> nat \<Rightarrow> node_error option \<Rightarrow> nat \<Rightarrow> lease_world \<Rightarrow> lease_world" where
  "drop_reaper io n pending i w =
     (case io of Some code \<Rightarrow> set_phase i (Cleaning (Some (PlainError code))) w
      | None \<Rightarrow> set_phase i (case pending of None \<Rightarrow> next_attempt n | Some e \<Rightarrow> Cleaning (Some e))
                  (put_dir (reaper w) False w))"

definition release_read :: "string option \<Rightarrow> nat \<Rightarrow> lease_world \<Rightarrow> lease_world" where
  "release_read io i w =
     (case read_lease io w of
        Inl _ \<Rightarrow> set_phase i Released w
      | Inr own \<Rightarrow> set_phase i (if json_field (Some own) ''nonce'' = Some (JStr (lp_nonce (lw_procs w ! i)))
                               then Dropping else Released) w)"

definition release_unlink :: "string option \<Rightarrow> nat \<Rightarrow> lease_world \<Rightarrow> lease_world" where
  "release_unlink io i w =
     (case io of Some code \<Rightarrow> set_phase i (Failed (PlainError code)) w
      | None \<Rightarrow> if lw_files w (lw_file w) = None then set_phase i (Failed (PlainError ''ENOENT'')) w
                else set_phase i Released (put_file (lw_file w) None w))"

definition remove_temporary :: "string option \<Rightarrow> node_error option \<Rightarrow> nat \<Rightarrow> lease_world \<Rightarrow> lease_world" where
  "remove_temporary io err i w =
     set_phase i (case err of None \<Rightarrow> Holding | Some e \<Rightarrow> Failed e)
       (if io = None then put_file (temporary w (lw_procs w ! i)) None w else w)"

definition lease_op :: "string option \<Rightarrow> os_view \<Rightarrow> nat \<Rightarrow> lease_world \<Rightarrow> lease_world" where
  "lease_op io ov i w =
     (case lp_phase (lw_procs w ! i) of
        Opening \<Rightarrow> open_temporary io ov i w
      | Writing \<Rightarrow>
          (case io of Some code \<Rightarrow> set_phase i (Failed (PlainError code)) w
           | None \<Rightarrow> set_phase i (Linking 0)
               (put_file (temporary w (lw_procs w ! i)) (Some (owner_text (lw_procs w ! i))) w))
      | Linking n \<Rightarrow> link_temporary io n i w
      | Inspecting n \<Rightarrow>
          (case read_lease io w of Inl e \<Rightarrow> set_phase i (Cleaning (Some e)) w | Inr own \<Rightarrow> set_phase i (Judging n own) w)
      | Judging n own \<Rightarrow> judge_existing ov n own i w
      | Guarding n \<Rightarrow> claim_reaper io n i w
      | Rereading n \<Rightarrow> reread_owner io n i w
      | Rejudging n own \<Rightarrow> judge_actual ov n own i w
      | Unlinking n \<Rightarrow> unlink_stale io n i w
      | Unguarding n pending \<Rightarrow> drop_reaper io n pending i w
      | Cleaning err \<Rightarrow> remove_temporary io err i w
      | Holding \<Rightarrow> set_phase i Releasing w
      | Releasing \<Rightarrow> release_read io i w
      | Dropping \<Rightarrow> release_unlink io i w
      | Released \<Rightarrow> w
      | Failed e \<Rightarrow> w)"

section \<open>Interleaved processes\<close>

text \<open>What is relied on of the kernel: process \<open>i\<close> sees its own identity, and of a live process on its
  host it never sees another boot, nor, in its own namespace, that its pid is unused, shared or started
  at another instant.\<close>

definition truthful :: "lease_proc list \<Rightarrow> nat \<Rightarrow> os_view \<Rightarrow> bool" where
  "truthful ps i ov \<longleftrightarrow>
     (\<forall>c. identity ov (ov_pid ov) = Inr c \<longrightarrow> c = lp_ident (ps ! i)) \<and>
     (\<forall>j < length ps. lp_live (ps ! j) \<and> id_host (lp_ident (ps ! j)) = id_host (lp_ident (ps ! i)) \<longrightarrow>
        (id_boot (lp_ident (ps ! j)) = None \<or> id_boot (lp_ident (ps ! i)) = None \<or>
         id_boot (lp_ident (ps ! j)) = id_boot (lp_ident (ps ! i))) \<and>
        (id_namespace (lp_ident (ps ! j)) = id_namespace (lp_ident (ps ! i)) \<longrightarrow>
           ov_kill ov (id_pid (lp_ident (ps ! j))) \<noteq> Some ''ESRCH'' \<and>
           (id_pid (lp_ident (ps ! j)) = ov_pid ov \<longrightarrow> j = i) \<and>
           (\<forall>c. identity ov (id_pid (lp_ident (ps ! j))) = Inr c \<longrightarrow>
              id_processStart c = None \<or> id_processStart c = id_processStart (lp_ident (ps ! j)))))"

definition fresh_proc :: "lease_world \<Rightarrow> lease_proc \<Rightarrow> bool" where
  "fresh_proc w p \<longleftrightarrow> lp_live p \<and> lp_phase p = Opening \<and> 10 < length (lp_nonce p) \<and>
     0 < id_pid (lp_ident p) \<and> id_pid (lp_ident p) \<le> max_safe_integer \<and>
     lp_nonce p \<notin> set (map lp_nonce (lw_procs w))"

text \<open>Process \<open>i\<close> is not about to unlink its own lease while another one judges an owner it re-read.\<close>

definition is_rejudging :: "phase \<Rightarrow> bool" where
  "is_rejudging ph = (case ph of Rejudging _ _ \<Rightarrow> True | _ \<Rightarrow> False)"

definition calm :: "lease_world \<Rightarrow> nat \<Rightarrow> bool" where
  "calm w i \<longleftrightarrow> (lp_phase (lw_procs w ! i) = Dropping \<longrightarrow>
     \<not> list_ex (\<lambda>q. lp_live q \<and> is_rejudging (lp_phase q)) (lw_procs w))"

definition spawn :: "lease_proc \<Rightarrow> lease_world \<Rightarrow> lease_world" where
  "spawn p w = w\<lparr>lw_procs := lw_procs w @ [p]\<rparr>"

definition crash :: "nat \<Rightarrow> lease_world \<Rightarrow> lease_world" where
  "crash i w = w\<lparr>lw_procs := (lw_procs w)[i := (lw_procs w ! i)\<lparr>lp_live := False\<rparr>]\<rparr>"

inductive lease_run :: "bool \<Rightarrow> lease_world \<Rightarrow> bool" for quiet where
  start: "lw_procs w = [] \<Longrightarrow> lease_run quiet w"
| spawn: "lease_run quiet w \<Longrightarrow> fresh_proc w p \<Longrightarrow> lease_run quiet (spawn p w)"
| call: "lease_run quiet w \<Longrightarrow> i < length (lw_procs w) \<Longrightarrow> lp_live (lw_procs w ! i) \<Longrightarrow>
    truthful (lw_procs w) i ov \<Longrightarrow> quiet \<longrightarrow> calm w i \<Longrightarrow> lease_run quiet (lease_op io ov i w)"
| crash: "lease_run quiet w \<Longrightarrow> i < length (lw_procs w) \<Longrightarrow> lease_run quiet (crash i w)"

text \<open>The process has its lease, from the link to the unlink.\<close>

definition holds_lease :: "phase \<Rightarrow> bool" where
  "holds_lease ph \<longleftrightarrow> ph = Cleaning None \<or> ph = Holding \<or> ph = Releasing \<or> ph = Dropping"

definition live_holder :: "lease_world \<Rightarrow> nat \<Rightarrow> bool" where
  "live_holder w i \<longleftrightarrow> i < length (lw_procs w) \<and> lp_live (lw_procs w ! i) \<and> holds_lease (lp_phase (lw_procs w ! i))"

section \<open>Owners read back\<close>

lemma wf_owner_json: "wf_json (owner_json c n)"
  by (auto simp: owner_json_def wf_map_def split: option.splits)

lemma owner_field:
  "json_field (Some (owner_json c n)) ''version'' = Some (JNum 1)"
  "json_field (Some (owner_json c n)) ''pid'' = Some (JNum (id_pid c))"
  "json_field (Some (owner_json c n)) ''host'' = Some (JStr (id_host c))"
  "json_field (Some (owner_json c n)) ''namespace'' = Some (JStr (id_namespace c))"
  "json_field (Some (owner_json c n)) ''boot'' = map_option JStr (id_boot c)"
  "json_field (Some (owner_json c n)) ''processStart'' = map_option JStr (id_processStart c)"
  "json_field (Some (owner_json c n)) ''nonce'' = Some (JStr n)"
  by (simp_all add: owner_json_def json_field_def split: option.splits)

definition proc_ok :: "lease_proc \<Rightarrow> bool" where
  "proc_ok p \<longleftrightarrow> 10 < length (lp_nonce p) \<and> 0 < id_pid (lp_ident p) \<and> id_pid (lp_ident p) \<le> max_safe_integer"

lemma readOwner_text:
  "proc_ok p \<Longrightarrow> readOwner (Inr (owner_text p)) = Inr (owner_json (lp_ident p) (lp_nonce p))"
  by (simp add: readOwner_def owner_text_def json_roundtrip wf_owner_json valid_owner_def owner_field proc_ok_def
      as_integer_def as_string_def)

lemma owner_text_nonce:
  assumes "proc_ok p" "proc_ok q" "owner_text p = owner_text q" shows "lp_nonce p = lp_nonce q"
  using readOwner_text [OF assms(1)] readOwner_text [OF assms(2)] assms(3) owner_field(7)
  by (metis Inr_inject json.inject(4) option.inject)

lemma live_not_proven_stopped:
  assumes "truthful ps i ov" "j < length ps" "lp_live (ps ! j)"
  shows "provenStopped ov (owner_json (lp_ident (ps ! j)) n) (lp_ident (ps ! i)) \<noteq> Inr True"
proof (cases "id_host (lp_ident (ps ! j)) = id_host (lp_ident (ps ! i))")
  case True
  define a b where "a = lp_ident (ps ! j)" and "b = lp_ident (ps ! i)"
  have boot: "id_boot a = None \<or> id_boot b = None \<or> id_boot a = id_boot b"
    using assms True unfolding truthful_def a_def b_def by blast
  have seen: "ov_kill ov (id_pid a) \<noteq> Some ''ESRCH'' \<and> (id_pid a = ov_pid ov \<longrightarrow> a = b) \<and>
      (\<forall>c. identity ov (id_pid a) = Inr c \<longrightarrow> id_processStart c = None \<or> id_processStart c = id_processStart a)"
    if "id_namespace a = id_namespace b"
    using assms True that unfolding truthful_def a_def b_def by metis
  have "provenStopped ov (owner_json a n) b \<noteq> Inr True"
  proof (cases "id_namespace a = id_namespace b")
    case True
    then show ?thesis
      using boot seen
      by (cases "identity ov (id_pid a)"; cases "id_boot a"; cases "id_boot b"; cases "ov_kill ov (id_pid a)";
          cases "id_processStart a")
        (auto simp: provenStopped_def Let_def owner_field as_integer_def)
  next
    case False
    then show ?thesis
      using boot by (cases "id_boot a"; cases "id_boot b") (auto simp: provenStopped_def Let_def owner_field)
  qed
  then show ?thesis by (simp add: a_def b_def)
qed (simp add: provenStopped_def owner_field)

section \<open>The invariant of the interleaving\<close>

text \<open>From the first write of its temporary file to the link, and with the reclaim directory.\<close>

definition guarded :: "phase \<Rightarrow> bool" where
  "guarded ph = (case ph of Rereading _ \<Rightarrow> True | Rejudging _ _ \<Rightarrow> True | Unlinking _ \<Rightarrow> True
     | Unguarding _ _ \<Rightarrow> True | _ \<Rightarrow> False)"

definition has_temporary :: "phase \<Rightarrow> bool" where
  "has_temporary ph = (case ph of Linking _ \<Rightarrow> True | Inspecting _ \<Rightarrow> True | Judging _ _ \<Rightarrow> True
     | Guarding _ \<Rightarrow> True | _ \<Rightarrow> guarded ph)"

text \<open>The clauses: processes differ in their nonces; a process that will link has its whole record in
  its temporary file; the lease file names every live holder; one process at most is inside the
  reclaim directory; the owner it re-read is the one in the file; and when it has judged that owner
  stopped, the file is there and nobody alive holds the lease.\<close>

definition lease_inv :: "lease_world \<Rightarrow> bool" where
  "lease_inv w \<longleftrightarrow>
     (\<forall>i < length (lw_procs w). proc_ok (lw_procs w ! i)) \<and>
     distinct (map lp_nonce (lw_procs w)) \<and>
     (\<forall>i < length (lw_procs w). has_temporary (lp_phase (lw_procs w ! i)) \<longrightarrow>
        lw_files w (temporary w (lw_procs w ! i)) = Some (owner_text (lw_procs w ! i))) \<and>
     (\<forall>i. live_holder w i \<longrightarrow> lw_files w (lw_file w) = Some (owner_text (lw_procs w ! i))) \<and>
     (\<forall>i < length (lw_procs w). guarded (lp_phase (lw_procs w ! i)) \<longrightarrow> lw_dirs w (reaper w)) \<and>
     (\<forall>i < length (lw_procs w). \<forall>j < length (lw_procs w).
        guarded (lp_phase (lw_procs w ! i)) \<and> guarded (lp_phase (lw_procs w ! j)) \<longrightarrow> i = j) \<and>
     (\<forall>i < length (lw_procs w). \<forall>n own. lp_live (lw_procs w ! i) \<and> lp_phase (lw_procs w ! i) = Rejudging n own \<longrightarrow>
        (\<exists>t. lw_files w (lw_file w) = Some t \<and> readOwner (Inr t) = Inr own)) \<and>
     (\<forall>i < length (lw_procs w). \<forall>n. lp_live (lw_procs w ! i) \<and> lp_phase (lw_procs w ! i) = Unlinking n \<longrightarrow>
        lw_files w (lw_file w) \<noteq> None \<and> (\<forall>j. \<not> live_holder w j))"

lemma temporary_inj: "temporary w p = temporary w q \<longleftrightarrow> lp_nonce p = lp_nonce q"
  by (simp add: temporary_def)

lemma temporary_not_lease [simp]: "temporary w p \<noteq> lw_file w" "lw_file w \<noteq> temporary w p"
  by (simp_all add: temporary_def)

text \<open>One process moves to \<open>ph\<close>, with the files and directories of its call: what has to hold of the
  move for the clauses to survive.\<close>

lemma lease_inv_move:
  assumes inv: "lease_inv w" and i: "i < length (lw_procs w)"
    and w': "w' = w\<lparr>lw_files := f, lw_dirs := d, lw_procs := (lw_procs w)[i := (lw_procs w ! i)\<lparr>lp_phase := ph\<rparr>]\<rparr>"
    and temps: "\<And>j. j < length (lw_procs w) \<Longrightarrow> j \<noteq> i \<Longrightarrow>
       f (temporary w (lw_procs w ! j)) = lw_files w (temporary w (lw_procs w ! j))"
    and mine: "has_temporary ph \<Longrightarrow> f (temporary w (lw_procs w ! i)) = Some (owner_text (lw_procs w ! i))"
    and held: "\<And>j. live_holder w j \<Longrightarrow> j \<noteq> i \<Longrightarrow> f (lw_file w) = lw_files w (lw_file w)"
    and holding: "holds_lease ph \<Longrightarrow> lp_live (lw_procs w ! i) \<Longrightarrow> f (lw_file w) = Some (owner_text (lw_procs w ! i))"
    and guard: "guarded ph \<Longrightarrow> d (reaper w) \<and>
       (\<forall>j < length (lw_procs w). guarded (lp_phase (lw_procs w ! j)) \<longrightarrow> j = i)"
    and guards: "\<And>j. j < length (lw_procs w) \<Longrightarrow> j \<noteq> i \<Longrightarrow> guarded (lp_phase (lw_procs w ! j)) \<Longrightarrow> d (reaper w)"
    and judged: "\<And>n own. ph = Rejudging n own \<Longrightarrow> \<exists>t. f (lw_file w) = Some t \<and> readOwner (Inr t) = Inr own"
    and judges: "\<And>j n own. j < length (lw_procs w) \<Longrightarrow> j \<noteq> i \<Longrightarrow> lp_live (lw_procs w ! j) \<Longrightarrow>
       lp_phase (lw_procs w ! j) = Rejudging n own \<Longrightarrow> f (lw_file w) = lw_files w (lw_file w)"
    and unlinks: "\<And>n. ph = Unlinking n \<Longrightarrow> f (lw_file w) \<noteq> None \<and> (\<forall>j. \<not> live_holder w j)"
    and unlinking: "\<And>j n. j < length (lw_procs w) \<Longrightarrow> j \<noteq> i \<Longrightarrow> lp_live (lw_procs w ! j) \<Longrightarrow>
       lp_phase (lw_procs w ! j) = Unlinking n \<Longrightarrow>
       f (lw_file w) = lw_files w (lw_file w) \<and> \<not> (lp_live (lw_procs w ! i) \<and> holds_lease ph)"
  shows "lease_inv w'"
proof -
  have L: "live_holder w' j \<longleftrightarrow>
      (if j = i then lp_live (lw_procs w ! i) \<and> holds_lease ph else live_holder w j)" for j
    using i by (auto simp: w' live_holder_def nth_list_update)
  have T: "temporary w' p = temporary w p" "reaper w' = reaper w" for p
    by (simp_all add: w' temporary_def reaper_def)
  have O: "owner_text (p\<lparr>lp_phase := x\<rparr>) = owner_text p" "temporary w (p\<lparr>lp_phase := x\<rparr>) = temporary w p" for p x
    by (simp_all add: owner_text_def temporary_def)
  have ok: "\<forall>j < length (lw_procs w'). proc_ok (lw_procs w' ! j)"
    using inv i by (auto simp: w' lease_inv_def nth_list_update proc_ok_def)
  have di: "map lp_nonce (lw_procs w') = map lp_nonce (lw_procs w)"
    using i by (simp add: w' map_update list_update_same_conv)
  show ?thesis
    unfolding lease_inv_def
  proof (intro conjI)
    show "\<forall>j < length (lw_procs w'). proc_ok (lw_procs w' ! j)" by (rule ok)
    show "distinct (map lp_nonce (lw_procs w'))" using inv by (simp add: di lease_inv_def)
    show "\<forall>j < length (lw_procs w'). has_temporary (lp_phase (lw_procs w' ! j)) \<longrightarrow>
        lw_files w' (temporary w' (lw_procs w' ! j)) = Some (owner_text (lw_procs w' ! j))"
      unfolding T using inv i temps mine by (auto simp: w' O nth_list_update lease_inv_def)
    show "\<forall>j. live_holder w' j \<longrightarrow> lw_files w' (lw_file w') = Some (owner_text (lw_procs w' ! j))"
      unfolding L using inv i held holding by (auto simp: w' O nth_list_update lease_inv_def)
    show "\<forall>j < length (lw_procs w'). guarded (lp_phase (lw_procs w' ! j)) \<longrightarrow> lw_dirs w' (reaper w')"
      unfolding T using i guard guards by (auto simp: w' nth_list_update)
    show "\<forall>j < length (lw_procs w'). \<forall>k < length (lw_procs w').
        guarded (lp_phase (lw_procs w' ! j)) \<and> guarded (lp_phase (lw_procs w' ! k)) \<longrightarrow> j = k"
      using inv i guard by (auto simp: w' nth_list_update lease_inv_def)
    show "\<forall>j < length (lw_procs w'). \<forall>n own. lp_live (lw_procs w' ! j) \<and> lp_phase (lw_procs w' ! j) = Rejudging n own \<longrightarrow>
        (\<exists>t. lw_files w' (lw_file w') = Some t \<and> readOwner (Inr t) = Inr own)"
      using inv i judged judges by (auto simp: w' nth_list_update lease_inv_def)
    show "\<forall>j < length (lw_procs w'). \<forall>n. lp_live (lw_procs w' ! j) \<and> lp_phase (lw_procs w' ! j) = Unlinking n \<longrightarrow>
        lw_files w' (lw_file w') \<noteq> None \<and> (\<forall>k. \<not> live_holder w' k)"
      unfolding L using inv i unlinks unlinking
      by (auto simp: w' nth_list_update lease_inv_def holds_lease_def split: if_splits)
  qed
qed

text \<open>A move that touches no file.\<close>

lemma lease_inv_phase:
  assumes inv: "lease_inv w" and i: "i < length (lw_procs w)"
    and "has_temporary ph \<Longrightarrow> has_temporary (lp_phase (lw_procs w ! i))"
    and "holds_lease ph \<Longrightarrow> holds_lease (lp_phase (lw_procs w ! i))"
    and "guarded ph \<Longrightarrow> guarded (lp_phase (lw_procs w ! i))"
    and "\<And>n own. ph = Rejudging n own \<Longrightarrow> \<exists>t. lw_files w (lw_file w) = Some t \<and> readOwner (Inr t) = Inr own"
    and "\<And>n. ph = Unlinking n \<Longrightarrow> lw_files w (lw_file w) \<noteq> None \<and> (\<forall>j. \<not> live_holder w j)"
  shows "lease_inv (set_phase i ph w)"
proof (rule lease_inv_move [OF inv i, where f = "lw_files w" and d = "lw_dirs w" and ph = ph])
  show "holds_lease ph \<Longrightarrow> lp_live (lw_procs w ! i) \<Longrightarrow> lw_files w (lw_file w) = Some (owner_text (lw_procs w ! i))"
    using inv i assms(4) by (simp add: lease_inv_def live_holder_def)
  show "guarded ph \<Longrightarrow> lw_dirs w (reaper w) \<and> (\<forall>j < length (lw_procs w). guarded (lp_phase (lw_procs w ! j)) \<longrightarrow> j = i)"
    using inv i assms(5) unfolding lease_inv_def by blast
  show "lw_dirs w (reaper w)" if "j < length (lw_procs w)" "guarded (lp_phase (lw_procs w ! j))" for j
    using inv that unfolding lease_inv_def by blast
  show "lw_files w (lw_file w) = lw_files w (lw_file w) \<and> \<not> (lp_live (lw_procs w ! i) \<and> holds_lease ph)"
    if "j < length (lw_procs w)" "lp_live (lw_procs w ! j)" "lp_phase (lw_procs w ! j) = Unlinking n" for j n
    using inv i that assms(4) unfolding lease_inv_def live_holder_def by blast
qed (use assms in \<open>auto simp: set_phase_def lease_inv_def\<close>)

lemma is_rejudging_iff: "is_rejudging ph \<longleftrightarrow> (\<exists>n own. ph = Rejudging n own)"
  by (cases ph) (simp_all add: is_rejudging_def)

lemmas phase_kinds = has_temporary_def guarded_def holds_lease_def

lemma read_lease_text: "read_lease None w = Inr own \<Longrightarrow> \<exists>t. lw_files w (lw_file w) = Some t \<and> readOwner (Inr t) = Inr own"
  by (auto simp: read_lease_def readOwner_def split: option.splits)

lemma read_lease_SomeD: "read_lease io w = Inr own \<Longrightarrow> \<exists>t. lw_files w (lw_file w) = Some t \<and> readOwner (Inr t) = Inr own"
  by (cases io) (simp_all add: read_lease_text, simp add: read_lease_def readOwner_def)

text \<open>The moves that touch files.\<close>

lemma nonces_differ:
  assumes "lease_inv w" "i < length (lw_procs w)" "j < length (lw_procs w)" "j \<noteq> i"
  shows "lp_nonce (lw_procs w ! j) \<noteq> lp_nonce (lw_procs w ! i)"
  using assms unfolding lease_inv_def by (metis length_map nth_eq_iff_index_eq nth_map)

lemma procs_ok: "lease_inv w \<Longrightarrow> i < length (lw_procs w) \<Longrightarrow> proc_ok (lw_procs w ! i)"
  unfolding lease_inv_def by blast

lemma guard_taken:
  "lease_inv w \<Longrightarrow> j < length (lw_procs w) \<Longrightarrow> guarded (lp_phase (lw_procs w ! j)) \<Longrightarrow> lw_dirs w (reaper w)"
  unfolding lease_inv_def by blast

lemma unlinking_no_holder:
  "lease_inv w \<Longrightarrow> j < length (lw_procs w) \<Longrightarrow> lp_live (lw_procs w ! j) \<Longrightarrow> lp_phase (lw_procs w ! j) = Unlinking n \<Longrightarrow>
   lw_files w (lw_file w) \<noteq> None \<and> \<not> live_holder w k"
  unfolding lease_inv_def by blast

lemma holder_named:
  "lease_inv w \<Longrightarrow> live_holder w i \<Longrightarrow> lw_files w (lw_file w) = Some (owner_text (lw_procs w ! i))"
  unfolding lease_inv_def by blast

lemma put_temporary_inv:
  assumes inv: "lease_inv w" and i: "i < length (lw_procs w)" and ph: "\<not> guarded ph"
    and hold: "holds_lease ph \<Longrightarrow> holds_lease (lp_phase (lw_procs w ! i))"
    and whole: "has_temporary ph \<Longrightarrow> c = Some (owner_text (lw_procs w ! i))"
  shows "lease_inv (set_phase i ph (put_file (temporary w (lw_procs w ! i)) c w))"
proof (rule lease_inv_move [OF inv i, where f = "(lw_files w)(temporary w (lw_procs w ! i) := c)" and d = "lw_dirs w" and ph = ph])
  show "((lw_files w)(temporary w (lw_procs w ! i) := c)) (lw_file w) = Some (owner_text (lw_procs w ! i))"
    if "holds_lease ph" "lp_live (lw_procs w ! i)"
    using holder_named [OF inv, of i] hold i that by (simp add: live_holder_def)
  show "((lw_files w)(temporary w (lw_procs w ! i) := c)) (lw_file w) = lw_files w (lw_file w) \<and>
      \<not> (lp_live (lw_procs w ! i) \<and> holds_lease ph)"
    if "j < length (lw_procs w)" "lp_live (lw_procs w ! j)" "lp_phase (lw_procs w ! j) = Unlinking n" for j n
    using unlinking_no_holder [OF inv that, of i] hold i by (auto simp: live_holder_def)
qed (use ph whole nonces_differ [OF inv i] guard_taken [OF inv] in
    \<open>auto simp: set_phase_def put_file_def guarded_def temporary_inj\<close>)

lemma clean_inv:
  assumes "lease_inv w" and "i < length (lw_procs w)" and "lp_phase (lw_procs w ! i) = Cleaning err"
  shows "lease_inv (remove_temporary io err i w)"
proof (cases io)
  case None
  have "lease_inv (set_phase i (case err of None \<Rightarrow> Holding | Some e \<Rightarrow> Failed e)
      (put_file (temporary w (lw_procs w ! i)) None w))"
    by (rule put_temporary_inv [OF assms(1, 2)]) (use assms(3) in \<open>auto simp: phase_kinds split: option.splits\<close>)
  with None show ?thesis by (simp add: remove_temporary_def)
next
  case (Some code)
  have "lease_inv (set_phase i (case err of None \<Rightarrow> Holding | Some e \<Rightarrow> Failed e) w)"
    by (rule lease_inv_phase [OF assms(1, 2)]) (use assms(3) in \<open>auto simp: phase_kinds split: option.splits\<close>)
  with Some show ?thesis by (simp add: remove_temporary_def)
qed

lemma open_inv:
  assumes "lease_inv w" and "i < length (lw_procs w)" and "lp_phase (lw_procs w ! i) = Opening"
    and "truthful (lw_procs w) i ov"
  shows "lease_inv (open_temporary io ov i w)"
proof -
  have same: "w\<lparr>lw_procs := (lw_procs w)[i := (lw_procs w ! i)\<lparr>lp_ident := cur\<rparr>]\<rparr> = w"
    if "identity ov (ov_pid ov) = Inr cur" for cur
  proof -
    have "cur = lp_ident (lw_procs w ! i)" using assms(4) that by (auto simp: truthful_def)
    then show ?thesis by (cases w) (simp)
  qed
  have fail: "lease_inv (set_phase i (Failed e) w)" for e
    by (rule lease_inv_phase [OF assms(1, 2)]) (auto simp: phase_kinds)
  have go: "lease_inv (set_phase i Writing (put_file (temporary w (lw_procs w ! i)) (Some []) w))"
    by (rule put_temporary_inv [OF assms(1, 2)]) (auto simp: phase_kinds)
  show ?thesis
    using fail go same by (auto simp: open_temporary_def Let_def split: sum.splits option.splits)
qed

lemma link_inv:
  assumes inv: "lease_inv w" and i: "i < length (lw_procs w)" and ph: "lp_phase (lw_procs w ! i) = Linking n"
  shows "lease_inv (link_temporary io n i w)"
proof -
  let ?t = "temporary w (lw_procs w ! i)"
  have other: "lease_inv (set_phase i (Inspecting n) w)" "lease_inv (set_phase i (Cleaning (Some e)) w)" for e
    by (rule lease_inv_phase [OF inv i]; use ph in \<open>auto simp: phase_kinds\<close>)+
  have whole: "lw_files w ?t = Some (owner_text (lw_procs w ! i))"
    using inv i ph unfolding lease_inv_def by (auto simp: has_temporary_def)
  have "lease_inv (set_phase i (Cleaning None) (put_file (lw_file w) (lw_files w ?t) w))"
    if free: "lw_files w (lw_file w) = None"
  proof (rule lease_inv_move [OF inv i, where f = "(lw_files w)(lw_file w := lw_files w ?t)" and d = "lw_dirs w" and ph = "Cleaning None"])
    show "((lw_files w)(lw_file w := lw_files w ?t)) (lw_file w) = lw_files w (lw_file w)" if "live_holder w j" for j
      using holder_named [OF inv that] free by simp
    show "((lw_files w)(lw_file w := lw_files w ?t)) (lw_file w) = lw_files w (lw_file w)"
      if "j < length (lw_procs w)" "lp_live (lw_procs w ! j)" "lp_phase (lw_procs w ! j) = Rejudging m own" for j m own
      using inv that free unfolding lease_inv_def by fastforce
    show "((lw_files w)(lw_file w := lw_files w ?t)) (lw_file w) = lw_files w (lw_file w) \<and>
        \<not> (lp_live (lw_procs w ! i) \<and> holds_lease (Cleaning None))"
      if "j < length (lw_procs w)" "lp_live (lw_procs w ! j)" "lp_phase (lw_procs w ! j) = Unlinking m" for j m
      using unlinking_no_holder [OF inv that] free by blast
  qed (use whole guard_taken [OF inv] in \<open>auto simp: set_phase_def put_file_def phase_kinds\<close>)
  with other show ?thesis by (auto simp: link_temporary_def Let_def split: option.splits)
qed

lemma guard_inv:
  assumes inv: "lease_inv w" and i: "i < length (lw_procs w)" and ph: "lp_phase (lw_procs w ! i) = Guarding n"
  shows "lease_inv (claim_reaper io n i w)"
proof -
  have "lease_inv (set_phase i (Rereading n) (put_dir (reaper w) True w))" if "\<not> lw_dirs w (reaper w)"
  proof (rule lease_inv_move [OF inv i, where f = "lw_files w" and d = "(lw_dirs w)(reaper w := True)" and ph = "Rereading n"])
    show "lw_files w (temporary w (lw_procs w ! i)) = Some (owner_text (lw_procs w ! i))"
      using inv i ph unfolding lease_inv_def by (auto simp: has_temporary_def)
  qed (use guard_taken [OF inv] that in \<open>auto simp: set_phase_def put_dir_def holds_lease_def\<close>)
  moreover have "lease_inv (set_phase i (Cleaning (Some e)) w)" for e
    by (rule lease_inv_phase [OF inv i]) (auto simp: phase_kinds)
  ultimately show ?thesis by (auto simp: claim_reaper_def)
qed

lemma unguard_inv:
  assumes inv: "lease_inv w" and i: "i < length (lw_procs w)" and ph: "lp_phase (lw_procs w ! i) = Unguarding n pending"
  shows "lease_inv (drop_reaper io n pending i w)"
proof (cases io)
  case None
  define ph' where "ph' = (case pending of None \<Rightarrow> next_attempt n | Some e \<Rightarrow> Cleaning (Some e))"
  have ph': "\<not> guarded ph'" "\<not> holds_lease ph'" "ph' \<noteq> Rejudging m own" "ph' \<noteq> Unlinking m" for m own
    by (simp_all add: ph'_def next_attempt_def phase_kinds split: option.split)
  have alone: "j = i" if "j < length (lw_procs w)" "guarded (lp_phase (lw_procs w ! j))" for j
  proof -
    have "guarded (lp_phase (lw_procs w ! i))" by (simp add: ph guarded_def)
    then show ?thesis using inv i that unfolding lease_inv_def by blast
  qed
  have "lease_inv (set_phase i ph' (put_dir (reaper w) False w))"
  proof (rule lease_inv_move [OF inv i, where f = "lw_files w" and d = "(lw_dirs w)(reaper w := False)" and ph = ph'])
    show "lw_files w (temporary w (lw_procs w ! i)) = Some (owner_text (lw_procs w ! i))"
      using inv i ph unfolding lease_inv_def by (auto simp: phase_kinds)
  qed (use ph' alone in \<open>auto simp: set_phase_def put_dir_def\<close>)
  with None show ?thesis by (simp add: drop_reaper_def ph'_def)
next
  case (Some code)
  have "lease_inv (set_phase i (Cleaning (Some (PlainError code))) w)"
    by (rule lease_inv_phase [OF inv i]) (auto simp: phase_kinds)
  with Some show ?thesis by (simp add: drop_reaper_def)
qed

text \<open>The judgement under the guard: an owner that is proven stopped is no live holder.\<close>

lemma judge_actual_inv:
  assumes inv: "lease_inv w" and i: "i < length (lw_procs w)" and live: "lp_live (lw_procs w ! i)"
    and ph: "lp_phase (lw_procs w ! i) = Rejudging n own" and tr: "truthful (lw_procs w) i ov"
  shows "lease_inv (judge_actual ov n own i w)"
proof -
  obtain t where t: "lw_files w (lw_file w) = Some t" "readOwner (Inr t) = Inr own"
    using inv i live ph unfolding lease_inv_def by blast
  have nobody: "\<not> live_holder w j" if "provenStopped ov own (lp_ident (lw_procs w ! i)) = Inr True" for j
  proof
    assume j: "live_holder w j"
    then have "proc_ok (lw_procs w ! j)" "t = owner_text (lw_procs w ! j)"
      using procs_ok [OF inv, of j] holder_named [OF inv j] t(1) by (simp_all add: live_holder_def)
    then have "own = owner_json (lp_ident (lw_procs w ! j)) (lp_nonce (lw_procs w ! j))"
      using t(2) readOwner_text by simp
    then show False using live_not_proven_stopped [OF tr, of j] j that by (simp add: live_holder_def)
  qed
  have un: "lease_inv (set_phase i (Unlinking n) w)" if "provenStopped ov own (lp_ident (lw_procs w ! i)) = Inr True"
    by (rule lease_inv_phase [OF inv i]) (use nobody [OF that] t ph in \<open>auto simp: phase_kinds\<close>)
  have no: "lease_inv (set_phase i (Unguarding n e) w)" for e
    by (rule lease_inv_phase [OF inv i]) (use ph in \<open>auto simp: phase_kinds\<close>)
  show ?thesis
    using un no by (auto simp: judge_actual_def split: sum.split)
qed

text \<open>The lease file disappears: either the guard's owner unlinks it, or its live holder does.\<close>

lemma lease_gone_inv:
  assumes inv: "lease_inv w" and i: "i < length (lw_procs w)"
    and ph: "\<not> holds_lease ph" "\<not> is_rejudging ph" "\<And>n. ph \<noteq> Unlinking n"
    and kinds: "has_temporary ph \<Longrightarrow> has_temporary (lp_phase (lw_procs w ! i))"
      "guarded ph \<Longrightarrow> guarded (lp_phase (lw_procs w ! i))"
    and only: "\<And>j. live_holder w j \<Longrightarrow> j = i"
    and calm: "\<And>j. j < length (lw_procs w) \<Longrightarrow> j \<noteq> i \<Longrightarrow> lp_live (lw_procs w ! j) \<Longrightarrow>
      \<not> is_rejudging (lp_phase (lw_procs w ! j)) \<and> (\<forall>n. lp_phase (lw_procs w ! j) \<noteq> Unlinking n)"
  shows "lease_inv (set_phase i ph (put_file (lw_file w) None w))"
proof (rule lease_inv_move [OF inv i, where f = "(lw_files w)(lw_file w := None)" and d = "lw_dirs w" and ph = ph])
  show "guarded ph \<Longrightarrow> lw_dirs w (reaper w) \<and> (\<forall>j < length (lw_procs w). guarded (lp_phase (lw_procs w ! j)) \<longrightarrow> j = i)"
    using inv i kinds(2) unfolding lease_inv_def by blast
  show "((lw_files w)(lw_file w := None)) (temporary w (lw_procs w ! i)) = Some (owner_text (lw_procs w ! i))"
    if "has_temporary ph"
    using inv i kinds(1) [OF that] by (simp add: lease_inv_def)
qed (use ph only calm guard_taken [OF inv] in \<open>auto simp: set_phase_def put_file_def is_rejudging_iff\<close>)

lemma unlink_stale_inv:
  assumes inv: "lease_inv w" and i: "i < length (lw_procs w)" and live: "lp_live (lw_procs w ! i)"
    and ph: "lp_phase (lw_procs w ! i) = Unlinking n"
  shows "lease_inv (unlink_stale io n i w)"
proof -
  have alone: "j = i" if "j < length (lw_procs w)" "guarded (lp_phase (lw_procs w ! j))" for j
  proof -
    have "guarded (lp_phase (lw_procs w ! i))" by (simp add: ph guarded_def)
    then show ?thesis using inv i that unfolding lease_inv_def by blast
  qed
  have "lease_inv (set_phase i (Unguarding n None) (put_file (lw_file w) None w))"
    by (rule lease_gone_inv [OF inv i])
      (use alone unlinking_no_holder [OF inv i live ph] ph in
        \<open>auto simp: phase_kinds is_rejudging_iff\<close>)
  moreover have "lease_inv (set_phase i (Unguarding n e) w)" for e
    by (rule lease_inv_phase [OF inv i]) (use ph in \<open>auto simp: phase_kinds\<close>)
  ultimately show ?thesis by (auto simp: unlink_stale_def split: option.split)
qed

lemma holder_unique:
  assumes "lease_inv w" "live_holder w i" "live_holder w j" shows "i = j"
proof (rule ccontr)
  assume "i \<noteq> j"
  have "owner_text (lw_procs w ! i) = owner_text (lw_procs w ! j)"
    using holder_named [OF assms(1, 2)] holder_named [OF assms(1, 3)] by simp
  then have "lp_nonce (lw_procs w ! i) = lp_nonce (lw_procs w ! j)"
    using owner_text_nonce procs_ok [OF assms(1)] assms(2, 3) by (simp add: live_holder_def)
  then show False
    using nonces_differ [OF assms(1)] assms(2, 3) \<open>i \<noteq> j\<close> by (auto simp: live_holder_def)
qed

lemma release_unlink_inv:
  assumes inv: "lease_inv w" and i: "i < length (lw_procs w)" and live: "lp_live (lw_procs w ! i)"
    and ph: "lp_phase (lw_procs w ! i) = Dropping" and calm: "calm w i"
  shows "lease_inv (release_unlink io i w)"
proof -
  have me: "live_holder w i" using i live ph by (simp add: live_holder_def holds_lease_def)
  have "lease_inv (set_phase i Released (put_file (lw_file w) None w))"
  proof (rule lease_gone_inv [OF inv i])
    show "\<not> is_rejudging (lp_phase (lw_procs w ! j)) \<and> (\<forall>n. lp_phase (lw_procs w ! j) \<noteq> Unlinking n)"
      if "j < length (lw_procs w)" "lp_live (lw_procs w ! j)" for j
      using calm ph that unlinking_no_holder [OF inv that] me by (auto simp: calm_def list_ex_iff)
  qed (use holder_unique [OF inv _ me] in \<open>auto simp: phase_kinds is_rejudging_def\<close>)
  moreover have "lease_inv (set_phase i (Failed e) w)" for e
    by (rule lease_inv_phase [OF inv i]) (auto simp: phase_kinds)
  ultimately show ?thesis by (auto simp: release_unlink_def split: option.split)
qed

lemma lease_op_inv:
  assumes inv: "lease_inv w" and i: "i < length (lw_procs w)" and live: "lp_live (lw_procs w ! i)"
    and tr: "truthful (lw_procs w) i ov" and calm: "calm w i"
  shows "lease_inv (lease_op io ov i w)"
proof -
  have step: "lease_inv (set_phase i ph w)"
    if "\<not> guarded ph" "\<not> holds_lease ph" "has_temporary ph \<Longrightarrow> has_temporary (lp_phase (lw_procs w ! i))" for ph
    by (rule lease_inv_phase [OF inv i]) (use that in \<open>auto simp: guarded_def\<close>)
  show ?thesis
  proof (cases "lp_phase (lw_procs w ! i)")
    case Writing
    then show ?thesis
      using put_temporary_inv [OF inv i, of "Linking 0"] step [of "Failed e" for e]
      by (auto simp: lease_op_def phase_kinds split: option.split)
  next
    case (Inspecting n)
    then show ?thesis
      using step by (auto simp: lease_op_def phase_kinds split: sum.split)
  next
    case (Judging n own)
    then show ?thesis
      using step by (auto simp: lease_op_def judge_existing_def phase_kinds split: sum.split)
  next
    case (Rereading n)
    have "lease_inv (set_phase i (Unguarding n e) w)" for e
      by (rule lease_inv_phase [OF inv i]) (use Rereading in \<open>auto simp: phase_kinds\<close>)
    moreover have "lease_inv (set_phase i (Rejudging n own) w)" if "read_lease io w = Inr own" for own
      by (rule lease_inv_phase [OF inv i]) (use Rereading read_lease_SomeD [OF that] in \<open>auto simp: phase_kinds\<close>)
    ultimately show ?thesis
      by (simp add: lease_op_def Rereading reread_owner_def split: sum.split)
  next
    case Holding
    have "lease_inv (set_phase i Releasing w)"
      by (rule lease_inv_phase [OF inv i]) (use Holding in \<open>auto simp: phase_kinds\<close>)
    then show ?thesis by (simp add: lease_op_def Holding)
  next
    case Releasing
    have "lease_inv (set_phase i ph w)" if "ph \<in> {Dropping, Released}" for ph
      by (rule lease_inv_phase [OF inv i]) (use Releasing that in \<open>auto simp: phase_kinds\<close>)
    then show ?thesis by (simp add: lease_op_def Releasing release_read_def split: sum.split)
  qed (simp_all add: lease_op_def open_inv [OF inv i _ tr] link_inv [OF inv i] guard_inv [OF inv i]
      judge_actual_inv [OF inv i live _ tr] unlink_stale_inv [OF inv i live] unguard_inv [OF inv i]
      clean_inv [OF inv i] release_unlink_inv [OF inv i live _ calm] inv)
qed

lemma spawn_inv:
  assumes inv: "lease_inv w" and p: "fresh_proc w p" shows "lease_inv (spawn p w)"
proof -
  have L: "live_holder (spawn p w) i \<longleftrightarrow> live_holder w i" for i
    using p by (auto simp: live_holder_def spawn_def nth_append fresh_proc_def holds_lease_def less_Suc_eq)
  have N: "lw_procs (spawn p w) = lw_procs w @ [p]" "lw_files (spawn p w) = lw_files w" "lw_dirs (spawn p w) = lw_dirs w"
    "lw_file (spawn p w) = lw_file w" "temporary (spawn p w) q = temporary w q" "reaper (spawn p w) = reaper w" for q
    by (simp_all add: spawn_def temporary_def reaper_def)
  show ?thesis
    using inv p unfolding lease_inv_def L N
    by (auto simp: nth_append fresh_proc_def proc_ok_def phase_kinds less_Suc_eq live_holder_def)
qed

lemma crash_inv:
  assumes inv: "lease_inv w" and i: "i < length (lw_procs w)" shows "lease_inv (crash i w)"
proof -
  have L: "live_holder (crash i w) j \<Longrightarrow> live_holder w j \<and> j \<noteq> i" for j
    using i by (auto simp: live_holder_def crash_def nth_list_update split: if_splits)
  have N: "lw_files (crash i w) = lw_files w" "lw_dirs (crash i w) = lw_dirs w" "lw_file (crash i w) = lw_file w"
    "temporary (crash i w) q = temporary w q" "reaper (crash i w) = reaper w" "length (lw_procs (crash i w)) = length (lw_procs w)" for q
    by (simp_all add: crash_def temporary_def reaper_def)
  have P: "lw_procs (crash i w) ! j = (if j = i then (lw_procs w ! i)\<lparr>lp_live := False\<rparr> else lw_procs w ! j)" for j
    using i by (simp add: crash_def nth_list_update)
  have D: "map lp_nonce (lw_procs (crash i w)) = map lp_nonce (lw_procs w)"
    using i by (simp add: crash_def map_update list_update_same_conv)
  have O: "owner_text (q\<lparr>lp_live := b\<rparr>) = owner_text q" "temporary w (q\<lparr>lp_live := b\<rparr>) = temporary w q"
    "proc_ok (q\<lparr>lp_live := b\<rparr>) = proc_ok q" for q b
    by (simp_all add: owner_text_def temporary_def proc_ok_def)
  show ?thesis
    using inv unfolding lease_inv_def N D by (auto simp: P O dest!: L)
qed

lemma lease_run_inv: "lease_run True w \<Longrightarrow> lease_inv w"
proof (induction rule: lease_run.induct)
  case (start w)
  then show ?case by (simp add: lease_inv_def live_holder_def)
qed (auto intro: spawn_inv crash_inv lease_op_inv)

section \<open>Exclusion, its limit, and recovery\<close>

text \<open>Runs as lists of events, and machines whose processes have no boot id.\<close>

datatype lease_event = Spawn lease_proc | Call nat os_view | Crash nat

fun lease_exec :: "lease_event \<Rightarrow> lease_world \<Rightarrow> lease_world" where
  "lease_exec (Spawn p) w = spawn p w"
| "lease_exec (Call i ov) w = lease_op None ov i w"
| "lease_exec (Crash i) w = crash i w"

fun lease_allowed :: "bool \<Rightarrow> lease_event \<Rightarrow> lease_world \<Rightarrow> bool" where
  "lease_allowed quiet (Spawn p) w \<longleftrightarrow> fresh_proc w p"
| "lease_allowed quiet (Call i ov) w \<longleftrightarrow> i < length (lw_procs w) \<and> lp_live (lw_procs w ! i) \<and>
     truthful (lw_procs w) i ov \<and> (quiet \<longrightarrow> calm w i)"
| "lease_allowed quiet (Crash i) w \<longleftrightarrow> i < length (lw_procs w)"

fun lease_trace :: "bool \<Rightarrow> lease_event list \<Rightarrow> lease_world \<Rightarrow> lease_world option" where
  "lease_trace quiet [] w = Some w"
| "lease_trace quiet (e # es) w = (if lease_allowed quiet e w then lease_trace quiet es (lease_exec e w) else None)"

lemma lease_trace_run: "lease_run quiet w \<Longrightarrow> lease_trace quiet es w = Some w' \<Longrightarrow> lease_run quiet w'"
proof (induction es arbitrary: w)
  case (Cons e es)
  then have "lease_allowed quiet e w" by (auto split: if_splits)
  then have "lease_run quiet (lease_exec e w)"
    using Cons.prems(1) by (cases e) (auto intro: lease_run.intros)
  with Cons show ?case by (auto split: if_splits)
qed simp

definition mac_ident :: "int \<Rightarrow> ident" where
  "mac_ident pid = \<lparr>id_pid = pid, id_host = ''h'', id_namespace = ''darwin'', id_boot = None, id_processStart = Some ''0''\<rparr>"

definition mac_view :: "int \<Rightarrow> int list \<Rightarrow> os_view" where
  "mac_view pid dead = \<lparr>ov_platform = ''darwin'', ov_hostname = ''h'', ov_pid = pid, ov_moduleStart = ''0'',
     ov_namespace = Inl (PlainError []), ov_bootId = Inl (PlainError []), ov_stat = \<lambda>_. None,
     ov_kill = (\<lambda>p. if p \<in> set dead then Some ''ESRCH'' else None)\<rparr>"

definition mac_proc :: "int \<Rightarrow> char \<Rightarrow> lease_proc" where
  "mac_proc pid c = \<lparr>lp_ident = mac_ident pid, lp_nonce = replicate 11 c, lp_live = True, lp_phase = Opening\<rparr>"

definition lease_dir :: "string option \<Rightarrow> lease_world" where
  "lease_dir c = \<lparr>lw_file = ''l'', lw_files = (\<lambda>p. if p = ''l'' then c else None), lw_dirs = (\<lambda>_. False), lw_procs = []\<rparr>"

lemma mac_simps [simp]:
  "id_pid (mac_ident p) = p"
  "identity (mac_view p dead) p = Inr (mac_ident p)"
  "ov_pid (mac_view p dead) = p"
  by (simp_all add: mac_ident_def identity_def mac_view_def)

lemma mac_stopped [simp]:
  "q \<noteq> p \<Longrightarrow> provenStopped (mac_view p dead) (owner_json (mac_ident q) n) (mac_ident p) = Inr (q \<in> set dead)"
  by (auto simp: provenStopped_def owner_field as_integer_def mac_ident_def identity_def mac_view_def Let_def)

lemma mac_truthful:
  assumes "list_all (\<lambda>q. lp_ident q = mac_ident (id_pid (lp_ident q))) ps" "distinct (map (\<lambda>q. id_pid (lp_ident q)) ps)"
    "id_pid (lp_ident (ps ! i)) = p" "list_all (\<lambda>q. lp_live q \<longrightarrow> id_pid (lp_ident q) \<notin> set dead) ps" "i < length ps"
  shows "truthful ps i (mac_view p dead)"
proof -
  have pid: "lp_ident (ps ! j) = mac_ident (id_pid (lp_ident (ps ! j)))" if "j < length ps" for j
    using assms(1) that by (simp add: list_all_length)
  have dis: "j = i" if "j < length ps" "id_pid (lp_ident (ps ! j)) = p" for j
    using assms(2, 3, 5) that nth_eq_iff_index_eq [OF assms(2), of j i] by simp
  have own: "lp_ident (ps ! i) = mac_ident p"
    using pid [OF assms(5)] assms(3) by simp
  have kill: "ov_kill (mac_view p dead) q = (if q \<in> set dead then Some ''ESRCH'' else None)" for q
    by (simp add: mac_view_def)
  have other: "id_processStart c = None \<or> q = p" if "identity (mac_view p dead) q = Inr c" for c q
    using that by (auto simp: identity_def mac_view_def split: if_splits)
  have b: "id_boot (mac_ident q) = None" for q by (simp add: mac_ident_def)
  show ?thesis
    unfolding truthful_def
  proof (intro conjI allI impI)
    show "c = lp_ident (ps ! i)" if "identity (mac_view p dead) (ov_pid (mac_view p dead)) = Inr c" for c
      using that own by simp
  next
    fix j assume j: "j < length ps" "lp_live (ps ! j) \<and> id_host (lp_ident (ps ! j)) = id_host (lp_ident (ps ! i))"
    show "id_boot (lp_ident (ps ! j)) = None \<or> id_boot (lp_ident (ps ! i)) = None \<or>
        id_boot (lp_ident (ps ! j)) = id_boot (lp_ident (ps ! i))"
      using own b by simp
    show "ov_kill (mac_view p dead) (id_pid (lp_ident (ps ! j))) \<noteq> Some ''ESRCH''"
      using assms(4) j by (simp add: kill list_all_length)
    show "j = i" if "id_pid (lp_ident (ps ! j)) = ov_pid (mac_view p dead)"
      using dis j that by simp
    show "id_processStart c = None \<or> id_processStart c = id_processStart (lp_ident (ps ! j))"
      if "identity (mac_view p dead) (id_pid (lp_ident (ps ! j))) = Inr c" for c
      using other [OF that] that pid [OF j(1)] by auto
  qed
qed

lemma mac_read:
  assumes "lw_files w (lw_file w) = Some (owner_text q)" "lp_ident q = mac_ident pid" "0 < pid" "pid \<le> max_safe_integer" "10 < length (lp_nonce q)"
  shows "read_lease None w = Inr (owner_json (mac_ident pid) (lp_nonce q))"
  using readOwner_text [of q] assms by (simp add: read_lease_def proc_ok_def)

lemmas lease_defs = lease_op_def open_temporary_def link_temporary_def judge_existing_def claim_reaper_def reread_owner_def
  judge_actual_def unlink_stale_def drop_reaper_def release_read_def release_unlink_def remove_temporary_def next_attempt_def
  set_phase_def put_file_def put_dir_def spawn_def crash_def temporary_def reaper_def Let_def

lemmas lease_example_defs = lease_defs lease_dir_def mac_proc_def mac_truthful mac_read fresh_proc_def calm_def
  live_holder_def holds_lease_def max_safe_integer_def owner_field

definition first_calls :: "lease_event list" where
  "first_calls = [Spawn (mac_proc 1 CHR ''r'')] @ replicate 4 (Call 0 (mac_view 1 [9]))"

lemma first_calls_trace:
  "\<exists>w. lease_trace True first_calls (lease_dir None) = Some w \<and> live_holder w 0 \<and>
     lw_file w = ''l'' \<and> lp_ident (lw_procs w ! 0) = mac_ident 1"
  by (simp add: first_calls_def lease_example_defs eval_nat_numeral)

text \<open>
  C26. Over every interleaving of processes that start, call the file system with any failures, and crash at
  any point, in which no process gives its lease up while another one judges an owner it re-read:
  two live processes that hold the lease are the same process, and the lease file names it.
\<close>

theorem one_live_holder:
  assumes "lease_run True w" and "live_holder w i" and "live_holder w j"
  shows "i = j \<and> lw_files w (lw_file w) = Some (owner_text (lw_procs w ! i))"
  using holder_unique holder_named lease_run_inv assms by blast

theorem one_live_holder_witness:
  "\<exists>w. lease_run True w \<and> live_holder w 0 \<and> lw_files w ''l'' = Some (owner_text (lw_procs w ! 0))"
proof -
  obtain w where w: "lease_trace True first_calls (lease_dir None) = Some w" "live_holder w 0" "lw_file w = ''l''"
    using first_calls_trace by blast
  have "lease_run True w"
    using lease_trace_run [OF _ w(1)] by (simp add: lease_run.start lease_dir_def)
  with w(2, 3) one_live_holder [of w 0 0] show ?thesis by auto
qed

text \<open>Process 9 left its lease. The first process finds it stale; the second one does too, reclaims and
  takes it; the first one enters the reclaim directory and reads the second one's record; the second
  one gives its lease up and exits, and a third one takes the lease; the first one finds the second one
  gone, unlinks the lease of the third, and takes it.\<close>

definition race_calls :: "lease_event list" where
  "race_calls =
     (let r = Call 0 (mac_view 1 [9]); a = Call 1 (mac_view 2 [9]); b = Call 2 (mac_view 3 [9, 2]); r2 = Call 0 (mac_view 1 [9, 2])
      in [Spawn (mac_proc 1 CHR ''r''), Spawn (mac_proc 2 CHR ''a'')] @ replicate 5 r @ replicate 12 a @ [r, r]
         @ [a, a, a, Crash 1, Spawn (mac_proc 3 CHR ''b'')] @ replicate 4 b @ replicate 5 r2)"

definition stale_dir :: lease_world where
  "stale_dir = lease_dir (Some (owner_text (mac_proc 9 CHR ''z'')))"


lemma race_trace:
  "\<exists>w. lease_trace False race_calls stale_dir = Some w \<and> live_holder w 0 \<and> live_holder w 2"
  by (simp add: race_calls_def stale_dir_def lease_example_defs eval_nat_numeral)

lemma reclaim_races_with_release: "\<exists>w. lease_run False w \<and> live_holder w 0 \<and> live_holder w 2"
proof -
  obtain w where "lease_trace False race_calls stale_dir = Some w" "live_holder w 0" "live_holder w 2"
    using race_trace by blast
  moreover have "lease_run False stale_dir" by (simp add: lease_run.start stale_dir_def lease_dir_def)
  ultimately show ?thesis using lease_trace_run by blast
qed

text \<open>What a process can see of a stopped owner: the owner ran on the same host, and either under another boot, or in the same pid namespace and its
  pid is unused or belongs to a process that started at another instant.\<close>

definition seen_stopped :: "os_view \<Rightarrow> ident \<Rightarrow> ident \<Rightarrow> bool" where
  "seen_stopped ov owner cur \<longleftrightarrow> id_host owner = id_host cur \<and>
     ((\<exists>b c. id_boot owner = Some b \<and> id_boot cur = Some c \<and> b \<noteq> [] \<and> c \<noteq> [] \<and> b \<noteq> c) \<or>
      id_namespace owner = id_namespace cur \<and>
        (ov_kill ov (id_pid owner) = Some ''ESRCH'' \<or>
         ov_kill ov (id_pid owner) = None \<and> (\<exists>live s t. identity ov (id_pid owner) = Inr live \<and> id_processStart owner = Some s \<and>
           id_processStart live = Some t \<and> s \<noteq> [] \<and> t \<noteq> [] \<and> s \<noteq> t)))"

lemma provenStopped_iff:
  assumes "identity ov (ov_pid ov) = Inr cur"
  shows "provenStopped ov (owner_json owner n) cur = Inr True \<longleftrightarrow> seen_stopped ov owner cur"
proof -
  let ?rebooted = "\<exists>b c. id_boot owner = Some b \<and> id_boot cur = Some c \<and> b \<noteq> [] \<and> c \<noteq> [] \<and> b \<noteq> c"
  have boot: "\<not> json_falsy (map_option JStr (id_boot owner)) \<and> opt_str (id_boot cur) \<noteq> [] \<and> map_option JStr (id_boot owner) \<noteq> Some (JStr (opt_str (id_boot cur))) \<longleftrightarrow> ?rebooted"
    by (cases "id_boot owner"; cases "id_boot cur") auto
  have same: "(if id_pid owner = ov_pid ov then Inr cur else identity ov (id_pid owner)) = identity ov (id_pid owner)"
    using assms by simp
  have start: "\<not> json_falsy (map_option JStr (id_processStart owner)) \<and> opt_str (id_processStart live) \<noteq> [] \<and>
      map_option JStr (id_processStart owner) \<noteq> Some (JStr (opt_str (id_processStart live))) \<longleftrightarrow>
    (\<exists>s t. id_processStart owner = Some s \<and> id_processStart live = Some t \<and> s \<noteq> [] \<and> t \<noteq> [] \<and> s \<noteq> t)" for live
    by (cases "id_processStart owner"; cases "id_processStart live") auto
  have pid: "the (as_integer (json_field (Some (owner_json owner n)) ''pid'')) = id_pid owner" by (simp add: owner_field as_integer_def)
  show ?thesis
    unfolding provenStopped_def Let_def pid same
    unfolding owner_field boot start seen_stopped_def
    by (cases "ov_kill ov (id_pid owner)"; cases "identity ov (id_pid owner)") auto
qed

text \<open>
  C40. What happens to a lease that is there when a process starts alone. The lease file is one that some process \<open>q\<close> wrote, and the calls
  of the file system succeed. If \<open>q\<close> can be seen to have stopped (it ran on this host, and either under another boot, or in this pid
  namespace with its pid now unused or reused), and no reclaim directory was left behind, the new process holds the lease after at most twelve calls: the
  file names it, and the reclaim directory and its temporary file are gone. In every other case, also when the owner stopped in
  another pid namespace of the same boot or on another host, it fails and leaves all files and directories as they were.
\<close>

theorem stale_lease_recovered:
  fixes ov i
  assumes "i < length (lw_procs w)" and "lp_phase (lw_procs w ! i) = Opening"
    and "identity ov (ov_pid ov) = Inr (lp_ident (lw_procs w ! i))"
    and "lw_files w (temporary w (lw_procs w ! i)) = None"
    and "lw_files w (lw_file w) = Some (owner_text q)" and "proc_ok q"
  defines "w' \<equiv> (lease_op None ov i ^^ 12) w"
  shows "if seen_stopped ov (lp_ident q) (lp_ident (lw_procs w ! i)) \<and> \<not> lw_dirs w (reaper w)
    then lp_phase (lw_procs w' ! i) = Holding \<and>
      lw_files w' = (lw_files w)(lw_file w := Some (owner_text (lw_procs w ! i))) \<and> lw_dirs w' = lw_dirs w
    else (\<exists>e. lp_phase (lw_procs w' ! i) = Failed e) \<and> lw_files w' = lw_files w \<and> lw_dirs w' = lw_dirs w"
proof -
  let ?own = "owner_json (lp_ident q) (lp_nonce q)" and ?verdict = "provenStopped ov (owner_json (lp_ident q) (lp_nonce q)) (lp_ident (lw_procs w ! i))"
  have r: "read_lease None v = Inr ?own" if "lw_files v (lw_file v) = Some (owner_text q)" for v
    using that readOwner_text [OF assms(6)] by (simp add: read_lease_def)
  have o: "owner_text (p\<lparr>lp_phase := x\<rparr>) = owner_text p" for p x by (simp add: owner_text_def)
  note facts = assms(1-5) r o
  note evaluate = w'_def eval_nat_numeral lease_defs temporary_def reaper_def fun_upd_idem_iff fun_eq_iff
  show ?thesis
  proof (cases "?verdict = Inr True")
    case True
    then have seen: "seen_stopped ov (lp_ident q) (lp_ident (lw_procs w ! i))" using provenStopped_iff [OF assms(3)] by blast
    show ?thesis
    proof (cases "lw_dirs w (reaper w)")
      case free: False
      have "lp_phase (lw_procs w' ! i) = Holding \<and> lw_files w' = (lw_files w)(lw_file w := Some (owner_text (lw_procs w ! i))) \<and> lw_dirs w' = lw_dirs w"
        using True free facts by (simp add: evaluate)
      then show ?thesis using seen free by simp
    next
      case left: True
      have "(\<exists>e. lp_phase (lw_procs w' ! i) = Failed e) \<and> lw_files w' = lw_files w \<and> lw_dirs w' = lw_dirs w"
        using True left facts by (simp add: evaluate)
      then show ?thesis using left by simp
    qed
  next
    case False
    then have unseen: "\<not> seen_stopped ov (lp_ident q) (lp_ident (lw_procs w ! i))" using provenStopped_iff [OF assms(3)] by blast
    have "(\<exists>e. lp_phase (lw_procs w' ! i) = Failed e) \<and> lw_files w' = lw_files w \<and> lw_dirs w' = lw_dirs w"
    proof (cases ?verdict)
      case (Inr b)
      then have "?verdict = Inr False" using False by (cases b) auto
      then show ?thesis using facts by (simp add: evaluate)
    qed (use facts in \<open>simp add: evaluate\<close>)
    then show ?thesis using unseen by simp
  qed
qed

definition stale_start :: lease_world where
  "stale_start = spawn (mac_proc 1 CHR ''r'') stale_dir"

theorem stale_lease_recovered_witness:
  "seen_stopped (mac_view 1 [9]) (mac_ident 9) (mac_ident 1) \<and>
   lp_phase (lw_procs ((lease_op None (mac_view 1 [9]) 0 ^^ 12) stale_start) ! 0) = Holding"
proof -
  have seen: "seen_stopped (mac_view 1 [9]) (mac_ident 9) (mac_ident 1)" by (simp add: seen_stopped_def mac_ident_def mac_view_def)
  then show ?thesis
    using stale_lease_recovered [of 0 stale_start "mac_view 1 [9]" "mac_proc 9 CHR ''z''"]
    by (simp add: stale_start_def stale_dir_def lease_dir_def mac_proc_def spawn_def temporary_def reaper_def proc_ok_def max_safe_integer_def)
qed

text \<open>The start time is field 22 of a line whose second field, the name of the program in parentheses, may hold
  anything, blanks and parentheses included.\<close>

lemma ws_fields_join:
  assumes "fs \<noteq> []" and "\<forall>f \<in> set fs. f \<noteq> [] \<and> list_all (\<lambda>c. \<not> is_ws c) f"
  shows "ws_fields (join_with '' '' fs) = fs"
  using assms
proof (induction fs)
  case (Cons f fs)
  have f: "takeWhile (\<lambda>c. \<not> is_ws c) f = f" "dropWhile (\<lambda>c. \<not> is_ws c) f = []"
    using Cons.prems(2) by (simp_all add: takeWhile_eq_all_conv list_all_iff)
  have blank: "is_ws CHR '' ''" by (simp add: is_ws_def char_code_def)
  show ?case
  proof (cases fs)
    case Nil
    then show ?thesis by (simp add: f ws_fields.simps [of f])
  next
    case (Cons g gs)
    have d: "dropWhile is_ws (join_with '' '' fs) = join_with '' '' fs"
      using Cons.prems(2) Cons by (cases g; cases gs) (auto)
    have split: "takeWhile (\<lambda>c. \<not> is_ws c) (f @ CHR '' '' # r) = f" "dropWhile (\<lambda>c. \<not> is_ws c) (f @ CHR '' '' # r) = CHR '' '' # r" for r
      using Cons.prems(2) blank by (auto simp: takeWhile_append dropWhile_append list_all_iff)
    have "ws_fields (f @ CHR '' '' # join_with '' '' fs) = f # ws_fields (join_with '' '' fs)"
      by (subst ws_fields.simps) (simp add: split d)
    then show ?thesis using Cons.IH Cons.prems Cons by simp
  qed
qed simp

lemma stat_start_line:
  assumes "\<forall>f \<in> set fs. f \<noteq> [] \<and> list_all (\<lambda>c. \<not> is_ws c) f \<and> CHR '')'' \<notin> set f" and "19 < length fs"
  shows "stat_start (pid @ '' ('' @ comm @ '') '' @ join_with '' '' fs) = Some (fs ! 19)"
proof -
  let ?j = "join_with '' '' fs"
  have ne: "fs \<noteq> []" using assms(2) by auto
  obtain a b where ab: "?j = hd fs @ a" "?j = b @ last fs" using join_ends [OF ne] by metis
  have h: "hd fs \<in> set fs" "last fs \<in> set fs" using ne by simp_all
  have "dropWhile is_ws ?j = ?j"
    using assms(1) h(1) ab(1) by (cases "hd fs") (auto simp: list_all_iff)
  moreover have "dropWhile is_ws (rev ?j) = rev ?j"
    using assms(1) h(2) ab(2) by (cases "last fs" rule: rev_cases) (auto simp: list_all_iff)
  ultimately have tr: "trim ?j = ?j" by (simp add: trim_def)
  have np: "CHR '')'' \<notin> set ?j" using set_join [of "'' ''" fs] assms(1) by auto
  have "takeWhile (\<lambda>c. c \<noteq> CHR '')'') (rev ?j @ CHR '' '' # CHR '')'' # r) = rev ?j @ '' ''" for r
    using np by (subst takeWhile_append2) auto
  then have "after_last_paren (pid @ '' ('' @ comm @ '') '' @ ?j) = ?j"
    by (simp add: after_last_paren_def)
  then show ?thesis
    using ws_fields_join [OF ne] assms tr by (simp add: stat_start_def)
qed

end
