(* ===== verification/Pin_Holding.thy ===== *)
theory Pin_Holding
  imports Managed_Pins
begin

text \<open>
  What the components that acquire pins may rely on: a pin that is held under an owner stays held, and is never unpinned, over everything that
  is not this owner's release (\<open>pins_steps_hold\<close>); an acquisition that returns leaves the pin held (\<open>acquire_holds\<close>); and no operation
  damages the table of pins (\<open>pins_steps_ok\<close>).
\<close>

section \<open>Holding a pin\<close>

text \<open>The node holds the pin of an identifier under this owner.\<close>

definition held :: "string \<Rightarrow> string \<Rightarrow> string \<Rightarrow> pin_world \<Rightarrow> bool" where
  "held p cid owner v \<longleftrightarrow> synced p (pw_store v) \<and> wf_map (ms_managedPins (pins_of v)) \<and>
     (\<exists>r. record_of cid v = Some r \<and> jm_has (mp_owners r) owner)"

definition never_unpinned :: "string \<Rightarrow> pin_world \<Rightarrow> pin_world \<Rightarrow> bool" where
  "never_unpinned cid v v' \<longleftrightarrow> (\<exists>calls. pw_calls v' = pw_calls v @ calls \<and> PinRm cid \<notin> set calls)"

text \<open>An operation of others on pins that is not this owner's release.\<close>

definition spares :: "(string \<Rightarrow> string option) \<Rightarrow> string \<Rightarrow> string \<Rightarrow> string \<Rightarrow> pins_event \<Rightarrow> bool" where
  "spares cid_v1 p cid owner ev \<longleftrightarrow> event_beside p ev \<and>
     (case ev of EvRelease _ _ raw owner' \<Rightarrow> owner' \<noteq> owner \<or> canonicalPinCid cid_v1 raw \<noteq> Inr cid | _ \<Rightarrow> True)"

lemma pins_step_holds:
  assumes "held p cid owner v" and "spares cid_v1 p cid owner ev"
  shows "held p cid owner (pins_step cid_v1 sha ev v) \<and> never_unpinned cid v (pins_step cid_v1 sha ev v)"
proof -
  define P :: "managed_pin option \<Rightarrow> bool" where "P = (\<lambda>r. \<exists>x. r = Some x \<and> jm_has (mp_owners x) owner)"
  define C where "C = (\<lambda>cs. \<exists>xs. cs = pw_calls v @ xs \<and> PinRm cid \<notin> set xs)"
  have "tracked p cid P C v" using assms(1) by (auto simp: tracked_def held_def P_def C_def)
  moreover have "ignores_others cid C" "allows_add cid C" by (auto simp: ignores_others_def allows_add_def C_def)
  moreover have "event_ok cid_v1 cid P C ev"
    using assms(2) \<open>allows_add cid C\<close>
    by (auto simp: event_ok_def registers_ok_def P_def stable_def unremovable_def drop_owner_def Let_def spares_def)
       (auto simp: jm_has_def)
  moreover have "event_beside p ev" using assms(2) by (simp add: spares_def)
  ultimately have "tracked p cid P C (pins_step cid_v1 sha ev v)" using pins_step_tracked by blast
  then show ?thesis by (auto simp: tracked_def held_def never_unpinned_def P_def C_def)
qed

lemma never_unpinned_refl [simp]: "never_unpinned cid v v"
  by (simp add: never_unpinned_def)

lemma never_unpinned_trans: "never_unpinned cid v v1 \<Longrightarrow> never_unpinned cid v1 v2 \<Longrightarrow> never_unpinned cid v v2"
  by (auto simp: never_unpinned_def)

lemma pins_steps_hold:
  assumes "held p cid owner v" and "list_all (spares cid_v1 p cid owner) evs"
  shows "held p cid owner (fold (pins_step cid_v1 sha) evs v) \<and> never_unpinned cid v (fold (pins_step cid_v1 sha) evs v)"
  using assms
proof (induction evs arbitrary: v)
  case (Cons ev evs)
  then have "held p cid owner (pins_step cid_v1 sha ev v) \<and> never_unpinned cid v (pins_step cid_v1 sha ev v)"
    using pins_step_holds by simp
  then show ?case using Cons never_unpinned_trans by fastforce
qed simp

lemma held_uploads: "held p cid owner v \<Longrightarrow> held p cid owner (snd (kubo_log (AddBytes n) v)) \<and> never_unpinned cid v (snd (kubo_log (AddBytes n) v))"
  by (simp add: kubo_log_def writes_def held_def never_unpinned_def)

text \<open>An acquisition that returns leaves the pin held.\<close>

lemma acquire_holds:
  assumes v: "synced p (pw_store v)" "wf_map (ms_managedPins (pins_of v))" and env: "env_beside p kubo"
    and acq: "acquire cid_v1 kubo raw owner (default_pin kubo) v = (Inr cid, v')"
  shows "canonicalPinCid cid_v1 raw = Inr cid \<and> held p cid owner v'"
proof -
  obtain c where c: "canonicalPinCid cid_v1 raw = Inr c"
    using acq by (cases "canonicalPinCid cid_v1 raw") (simp_all add: acquire_def comp_defs)
  define P :: "managed_pin option \<Rightarrow> bool" where "P = (\<lambda>r. \<exists>x. r = Some x \<and> jm_has (mp_owners x) owner)"
  let ?T = "tracked p c P (\<lambda>_. True)"
  have P: "stable P" by (auto simp: stable_def P_def)
  have reg: "wp (pins_update kubo 0 (register_owner c owner own now)) (\<lambda>_. ?T) (\<lambda>_ _. True) u" if "pw_store u = pw_store v" for own now u
    unfolding pins_update_def
    by (rule pins_store.wp_transact [where p = p])
       (use v env that in \<open>auto simp: tracked_def env_beside_def register_owner_def P_def\<close>)
  have change: "wp (pins_update kubo i (change_pin c f)) (\<lambda>_. ?T) (\<lambda>_. ?T) u" if "?T u" "\<And>r. P (Some r) \<Longrightarrow> P (Some (f r))" for i f u
    by (rule wp_change [OF that(1) env]) (use that(2) in blast)
  have pin: "wp (default_pin kubo c) (\<lambda>_. ?T) (\<lambda>_. ?T) u" if "?T u" for u
    by (rule default_pin_tracked [OF that]) (simp_all add: ignores_others_def allows_add_def)
  let ?rest = "\<lambda>own. andThen (pins_update kubo 0 (register_owner c owner own (ke_now kubo))) (\<lambda>_. andThen (handle
       (andThen (default_pin kubo c) (\<lambda>_. pins_update kubo 1 (change_pin c (\<lambda>r. r\<lparr>mp_state := Pinned, mp_updatedAt := ke_now kubo\<rparr>))))
       (\<lambda>error. andThen (pins_update kubo 2 (change_pin c (\<lambda>r. r\<lparr>mp_reason := Some ''pin_acquisition_retry_required''\<rparr>))) (\<lambda>_. throw error)))
     (\<lambda>_. ret c))"
  have rest: "wp (?rest own) (\<lambda>x u. x = c \<and> ?T u) (\<lambda>_ _. True) u" if "pw_store u = pw_store v" for u own
  proof -
    have "wp (handle (andThen (default_pin kubo c) (\<lambda>_. pins_update kubo 1 (change_pin c (\<lambda>r. r\<lparr>mp_state := Pinned, mp_updatedAt := ke_now kubo\<rparr>))))
       (\<lambda>error. andThen (pins_update kubo 2 (change_pin c (\<lambda>r. r\<lparr>mp_reason := Some ''pin_acquisition_retry_required''\<rparr>))) (\<lambda>_. throw error)))
       (\<lambda>_. ?T) (\<lambda>_. ?T) u" if "?T u" for u
      by (intro wp_handle_inv wp_then [OF pin [OF that]] wp_then [OF change] change) (auto simp: wp_basic P_def)
    then have "wp (andThen (handle (andThen (default_pin kubo c) (\<lambda>_. pins_update kubo 1 (change_pin c (\<lambda>r. r\<lparr>mp_state := Pinned, mp_updatedAt := ke_now kubo\<rparr>))))
       (\<lambda>error. andThen (pins_update kubo 2 (change_pin c (\<lambda>r. r\<lparr>mp_reason := Some ''pin_acquisition_retry_required''\<rparr>))) (\<lambda>_. throw error)))
       (\<lambda>_. ret c)) (\<lambda>x u. x = c \<and> ?T u) (\<lambda>_ _. True) u" if "?T u" for u
      unfolding wp_andThen [of "handle _ _"] by (rule wp_mono) (use that in \<open>simp_all add: wp_basic\<close>)
    then show ?thesis unfolding wp_andThen [of "pins_update _ _ _"] by (intro wp_mono [OF reg [OF that]]) simp_all
  qed
  have "wp (acquire cid_v1 kubo raw owner (default_pin kubo)) (\<lambda>x u. x = c \<and> ?T u) (\<lambda>_ _. True) v"
    using rest c
    by (auto simp: acquire_def wp_andThen [of "of_result _"] wp_andThen [of "reads _"] wp_andThen [of "if _ then _ else _"]
        wp_andThen [of "kubo_log _"] wp_basic wp_if probeOwnership_def kubo_log_def wp_andThen [of "writes _"] split: sum.split)
  from wp_result(1) [OF this acq] show ?thesis using c by (auto simp: tracked_def held_def P_def)
qed

section \<open>The table of pins\<close>

text \<open>The operations change the record of an identifier that is in the table, and register an owner of a canonical identifier. What both
  keep of the table, every operation keeps.\<close>

definition table_ok :: "((string, managed_pin) jsmap \<Rightarrow> bool) \<Rightarrow> string \<Rightarrow> pin_world \<Rightarrow> bool" where
  "table_ok I p v \<longleftrightarrow> synced p (pw_store v) \<and> I (ms_managedPins (pins_of v))"

abbreviation keeps_table :: "((string, managed_pin) jsmap \<Rightarrow> bool) \<Rightarrow> string \<Rightarrow> ('a, pin_world) comp \<Rightarrow> bool" where
  "keeps_table I p m \<equiv> along (\<lambda>v v'. table_ok I p v \<longrightarrow> table_ok I p v') m"

lemma along_option: "(x = None \<Longrightarrow> along R m) \<Longrightarrow> (\<And>y. x = Some y \<Longrightarrow> along R (f y)) \<Longrightarrow> along R (case x of None \<Rightarrow> m | Some y \<Rightarrow> f y)"
  by (cases x) simp_all

interpretation sound_table: step_relation "\<lambda>v v'. table_ok I p v \<longrightarrow> table_ok I p v'" for I p
  by unfold_locales auto

lemma keeps_update: "writes_beside p env \<Longrightarrow> (\<And>s s'. m s = Inr s' \<Longrightarrow> I (ms_managedPins s) \<Longrightarrow> I (ms_managedPins s')) \<Longrightarrow>
  keeps_table I p (transact pw_store put_pins empty_pins env m)"
  unfolding along_def
proof safe
  fix v
  assume "writes_beside p env" "\<And>s s'. m s = Inr s' \<Longrightarrow> I (ms_managedPins s) \<Longrightarrow> I (ms_managedPins s')" "table_ok I p v"
  then have "wp (transact pw_store put_pins empty_pins env m) (\<lambda>_. table_ok I p) (\<lambda>_. table_ok I p) v"
    by (intro pins_store.wp_transact_inv [where p = p]) (auto simp: table_ok_def dest: sym)
  then show "table_ok I p (snd (transact pw_store put_pins empty_pins env m v))" by (rule wp_snd)
qed

lemma keeps_log: "keeps_table I p (kubo_log call)"
  by (simp add: along_def kubo_log_def writes_def table_ok_def)

lemma keeps_settled: "keeps_table I p m \<Longrightarrow> keeps_table I p (settled m)"
  by (simp add: along_def settled_def split: prod.split) (metis snd_conv)

lemmas keeps_table_rules = along_intros along_option sound_table.along_then sound_table.along_handle sound_table.along_pure keeps_log

locale table_invariant =
  fixes cid_v1 :: "string \<Rightarrow> string option" and I :: "(string, managed_pin) jsmap \<Rightarrow> bool"
  assumes changes: "I t \<Longrightarrow> jm_get t cid = Some r \<Longrightarrow> I (jm_set cid r' t)"
    and registers: "I t \<Longrightarrow> canonicalPinCid cid_v1 raw = Inr cid \<Longrightarrow> I (jm_set cid r t)"
begin

lemma keeps_change: "env_beside p env \<Longrightarrow> keeps_table I p (pins_update env i (change_pin cid f))"
  unfolding pins_update_def
  by (rule keeps_update) (auto simp: env_beside_def change_pin_def intro: changes split: option.splits)

lemma keeps_register:
  "env_beside p env \<Longrightarrow> canonicalPinCid cid_v1 raw = Inr cid \<Longrightarrow> keeps_table I p (pins_update env i (register_owner cid owner kind now))"
  unfolding pins_update_def
  by (rule keeps_update) (auto simp: env_beside_def register_owner_def intro: registers)

lemma keeps_acquire:
  assumes "env_beside p env" and "\<And>c. keeps_table I p (pin c)"
  shows "keeps_table I p (acquire cid_v1 env raw owner pin)"
  unfolding acquire_def
  by (rule sound_table.along_then_result)
     (auto simp: of_result_def probeOwnership_def intro!: keeps_table_rules keeps_change keeps_register assms)

lemma keeps_release:
  assumes "env_beside p env"
  shows "keeps_table I p (releaseUnreferenced cid_v1 allow env cid)" "keeps_table I p (release cid_v1 allow env raw owner)"
proof -
  have "keeps_table I p (case ke_pinRm env of RmDone \<Rightarrow> ret ()
       | RmFailed uncertain complete message \<Rightarrow>
           if uncertain \<or> \<not> complete
           then andThen (set_pin_state env 3 cid ReleaseUncertain (Some ''pin_release_outcome_requires_review'')) (\<lambda>_. throw (PlainError message))
           else if \<not> str_includes (to_lower message) ''not pinned''
           then andThen (set_pin_state env 3 cid ReleasePending (Some ''pin_release_retry_required'')) (\<lambda>_. throw (PlainError message))
           else ret ())" for cid
    unfolding set_pin_state_def by (cases "ke_pinRm env") (simp_all only: pin_rm_outcome.case, (intro keeps_table_rules keeps_change assms)+)
  then have "keeps_table I p (remove_pin env cid)" for cid unfolding remove_pin_def by (intro keeps_table_rules)
  then show *: "keeps_table I p (releaseUnreferenced cid_v1 allow env cid)" for cid
    unfolding releaseUnreferenced_def set_pin_state_def by (intro keeps_table_rules keeps_change assms)
  show "keeps_table I p (release cid_v1 allow env raw owner)"
    unfolding release_def by (intro keeps_table_rules keeps_change assms *)
qed

lemma keeps_reconcile:
  assumes "\<And>c. env_beside p (envs c)"
  shows "keeps_table I p (reconcile cid_v1 allow envs pre)"
proof -
  have "keeps_table I p (reconcile_records cid_v1 allow envs pre rs failure)" for rs failure
    by (induction rs arbitrary: failure) (auto intro!: keeps_table_rules keeps_settled keeps_release assms)
  then show ?thesis unfolding reconcile_def by (intro keeps_table_rules)
qed

lemma keeps_archive:
  assumes "\<And>i. env_beside p (envs i)"
  shows "keeps_table I p (reconcilePins cid_v1 sha envs skip api items)"
  using assms
proof (induction items arbitrary: envs)
  case (Cons item items)
  have "keeps_table I p (pinWithBackendFallback cid_v1 (envs 0) item api)"
    unfolding pinWithBackendFallback_def by (intro keeps_table_rules)
  then show ?case using Cons
    unfolding reconcilePins.simps by (intro keeps_table_rules keeps_acquire) auto
qed (simp add: sound_table.along_pure)

lemma step_keeps_table:
  assumes "event_beside p ev" and "table_ok I p v"
  shows "table_ok I p (pins_step cid_v1 sha ev v)"
proof -
  have pins: "keeps_table I p (default_pin kubo c)" for kubo c unfolding default_pin_def by (intro keeps_table_rules)
  show ?thesis
  proof (cases ev)
    case (EvAcquire env raw owner)
    then show ?thesis using keeps_acquire [of p env "default_pin env"] pins assms by (simp add: along_def)
  next
    case (EvArchive envs skip api items)
    then show ?thesis using keeps_archive [of p envs] assms by (simp add: along_def)
  next
    case (EvRelease env allow raw owner)
    then show ?thesis using keeps_release(2) [of p env] assms by (simp add: along_def)
  next
    case (EvReconcile envs allow pre)
    then show ?thesis using keeps_reconcile [of p envs] assms by (simp add: along_def)
  next
    case (EvRefs env refs)
    then show ?thesis using keeps_update [of p env "\<lambda>s. Inr (s\<lparr>ms_refs := refs\<rparr>)" I] assms by (auto simp: along_def)
  qed
qed

lemma steps_keep_table: "list_all (event_beside p) evs \<Longrightarrow> table_ok I p v \<Longrightarrow> table_ok I p (fold (pins_step cid_v1 sha) evs v)"
  by (induction evs arbitrary: v) (simp_all add: step_keeps_table del: pins_step.simps)

end

text \<open>Whatever is done with pins, their table stays well formed.\<close>

interpretation sound_pins: table_invariant cid_v1 wf_map for cid_v1
  by unfold_locales auto

abbreviation pins_ok :: "string \<Rightarrow> pin_world \<Rightarrow> bool" where
  "pins_ok \<equiv> table_ok wf_map"

lemmas pins_ok_def = table_ok_def [of wf_map]

lemmas pins_steps_ok = sound_pins.steps_keep_table

text \<open>The keys of the table are canonical, where the canonical form of an identifier is its own canonical form.\<close>

definition canonical_keys :: "(string \<Rightarrow> string option) \<Rightarrow> (string, managed_pin) jsmap \<Rightarrow> bool" where
  "canonical_keys cid_v1 t \<longleftrightarrow> (\<forall>k. jm_has t k \<longrightarrow> canonicalPinCid cid_v1 k = Inr k)"

definition settles :: "(string \<Rightarrow> string option) \<Rightarrow> bool" where
  "settles cid_v1 \<longleftrightarrow> (\<forall>raw cid. canonicalPinCid cid_v1 raw = Inr cid \<longrightarrow> canonicalPinCid cid_v1 cid = Inr cid)"

lemma jm_has_set: "jm_has (jm_set cid r t) k \<longleftrightarrow> k = cid \<or> jm_has t k"
  by (simp add: jm_has_def)

interpretation canonical_table: table_invariant cid_v1 "\<lambda>t. settles cid_v1 \<longrightarrow> canonical_keys cid_v1 t" for cid_v1
proof
  fix t cid r r'
  assume "settles cid_v1 \<longrightarrow> canonical_keys cid_v1 t" "jm_get t cid = Some r"
  moreover from this(2) have "jm_has t cid" by (simp add: jm_has_def)
  ultimately show "settles cid_v1 \<longrightarrow> canonical_keys cid_v1 (jm_set cid r' t)" unfolding canonical_keys_def jm_has_set by blast
next
  fix t raw cid r
  assume "settles cid_v1 \<longrightarrow> canonical_keys cid_v1 t" "canonicalPinCid cid_v1 raw = Inr cid"
  then show "settles cid_v1 \<longrightarrow> canonical_keys cid_v1 (jm_set cid r t)" unfolding canonical_keys_def jm_has_set settles_def by blast
qed

end
