(* ===== verification/Job_Cleanup.thy ===== *)
theory Job_Cleanup
  imports Capture_Store
begin

text \<open>
  Jobs of the spatial worker and the journal that owns their working directories:
  \<^verbatim>\<open>src/src/jobs/jobCleanup.ts\<close>, \<^verbatim>\<open>ownedWorkDirectory.ts\<close> and \<^verbatim>\<open>workerOutput.ts\<close>, with the data of
  \<^verbatim>\<open>jobRuntime.ts\<close>. Below the data root the file system is a map from paths to directories, regular
  files and symbolic links; \<^verbatim>\<open>realpath(p) = p\<close> holds for a path none of whose prefixes is a link. The
  receipt of the worker, which is another program, is an input. Times are milliseconds, progress is in
  hundredths.
\<close>

section \<open>Jobs\<close>

datatype job_type = Reconstruct | Optimize | GeneratePreview

datatype job_state = Queued | Running | Completed | Failed | Cancelled

datatype job_stage = StQueued | StPreparing | StStarting | StTraining | StImporting | StCompleted | StFailed | StCancelled

record local_job =
  jb_id :: string
  jb_type :: job_type
  jb_capability :: string
  jb_state :: job_state
  jb_stage :: job_stage
  jb_progress :: "nat option"
  jb_input :: json
  jb_output :: "string option"
  jb_error :: "(string \<times> string) option"
  jb_createdAt :: int
  jb_updatedAt :: int
  jb_startedAt :: "int option"
  jb_completedAt :: "int option"
  jb_logs :: "(int \<times> string \<times> string) list"

datatype cleanup_state = Pending | Blocked | Complete

record cleanup_record =
  cl_type :: job_type
  cl_state :: cleanup_state
  cl_workerInstanceId :: "string option"
  cl_workerAttempted :: bool
  cl_updatedAt :: int
  cl_reason :: "string option"

record spatial_record =
  sp_manifestCid :: string
  sp_variants :: "(string \<times> string \<times> nat) list"
  sp_artworkId :: string
  sp_captureId :: string
  sp_pinOwner :: string

record jobs_state =
  js_jobs :: "(string, local_job) jsmap"
  js_cleanup :: "(string, cleanup_record) jsmap"
  js_spatial :: "(string, spatial_record) jsmap"

definition empty_jobs :: jobs_state where
  "empty_jobs = \<lparr>js_jobs = [], js_cleanup = [], js_spatial = []\<rparr>"

definition active_job :: "local_job \<Rightarrow> bool" where
  "active_job job \<longleftrightarrow> jb_state job \<in> {Queued, Running}"

section \<open>Owned directories\<close>

datatype fs_node = Directory | RegularFile | SymbolicLink

type_synonym path_tree = "(string list, fs_node) jsmap"

definition jobIdPattern :: "string \<Rightarrow> bool" where
  "jobIdPattern s \<longleftrightarrow> map length (split_on CHR ''-'' s) = [8, 4, 4, 4, 12] \<and> list_all (list_all is_hex) (split_on CHR ''-'' s)"

text \<open>\<^verbatim>\<open>realpath(p) = p\<close> below a resolved root.\<close>

definition resolved :: "path_tree \<Rightarrow> string list \<Rightarrow> bool" where
  "resolved tree p \<longleftrightarrow> list_all (\<lambda>n. jm_get tree (take (Suc n) p) \<noteq> Some SymbolicLink) [0..<length p]"

text \<open>The loop over the parts of the path: it stops at the first that does not exist.\<close>

fun check_parts :: "path_tree \<Rightarrow> string list \<Rightarrow> string list \<Rightarrow> unit result" where
  "check_parts tree current [] = Inr ()"
| "check_parts tree current (part # parts) =
     (let here = current @ [part] in
      case jm_get tree here of
        None \<Rightarrow> Inr ()
      | Some info \<Rightarrow>
          if info = SymbolicLink \<or> info \<noteq> Directory \<or> \<not> resolved tree here then Inl (PlainError ''cleanup_path_not_owned'')
          else check_parts tree here parts)"

definition below :: "string list \<Rightarrow> string list \<Rightarrow> bool" where
  "below root p \<longleftrightarrow> take (length root) p = root"

text \<open>\<open>works\<close> says whether the removal itself succeeds. One that fails is taken to have removed nothing; what it may have removed in truth lies below the
  same checked directory, and is looked for again by the next attempt.\<close>

definition removeOwnedWorkDirectory :: "bool \<Rightarrow> string \<Rightarrow> string \<Rightarrow> path_tree \<Rightarrow> path_tree result" where
  "removeOwnedWorkDirectory works namespace jobId tree =
     (if \<not> jobIdPattern jobId \<or> namespace \<notin> {''jobs'', ''remote-jobs''} then Inl (PlainError ''cleanup_path_not_owned'')
      else case check_parts tree [] [''private'', namespace, jobId] of
             Inl e \<Rightarrow> Inl e
           | Inr _ \<Rightarrow>
               if \<not> works then Inl (PlainError ''filesystem'')
               else Inr (filter (\<lambda>(p, _). \<not> below [''private'', namespace, jobId] p) tree))"

section \<open>Worker output files\<close>

definition OUTPUT_EXTENSIONS :: "string list" where
  "OUTPUT_EXTENSIONS = [''.ply'', ''.spz'', ''.splat'', ''.sog'', ''.glb'', ''.gltf'']"

definition ends_with :: "string \<Rightarrow> string \<Rightarrow> bool" where
  "ends_with s e \<longleftrightarrow> length e \<le> length s \<and> drop (length s - length e) s = e"

fun check_output :: "path_tree \<Rightarrow> string list \<Rightarrow> string list \<Rightarrow> string list result" where
  "check_output tree current [] = Inr current"
| "check_output tree current (part # parts) =
     (let here = current @ [part] in
      case jm_get tree here of
        None \<Rightarrow> Inl (PlainError ''ENOENT'')
      | Some info \<Rightarrow>
          if info = SymbolicLink \<or> \<not> resolved tree here \<or> info \<noteq> (if parts = [] then RegularFile else Directory)
          then Inl (PlainError ''worker_output_path_invalid'')
          else check_output tree here parts)"

definition resolveWorkerOutputFile :: "path_tree \<Rightarrow> string list \<Rightarrow> json option \<Rightarrow> string list result" where
  "resolveWorkerOutputFile tree root raw =
     (case as_string raw of
        None \<Rightarrow> Inl (PlainError ''worker_output_path_invalid'')
      | Some relative \<Rightarrow>
          if relative = [] \<or> hd relative = CHR ''/'' \<or> char_of (92::nat) \<in> set relative then Inl (PlainError ''worker_output_path_invalid'')
          else let parts = split_on CHR ''/'' relative in
            if list_ex (\<lambda>p. p = [] \<or> p = ''.'' \<or> p = ''..'') parts \<or>
               to_lower (hd parts) \<in> {''dataset'', ''training'', ''raw'', ''input'', ''inputs''}
            then Inl (PlainError ''worker_output_path_invalid'')
            else if \<not> list_ex (ends_with (to_lower relative)) OUTPUT_EXTENSIONS then Inl (PlainError ''worker_output_format_invalid'')
            else if \<not> resolved tree root \<or> jm_get tree root = None then Inl (PlainError ''worker_output_path_invalid'')
            else check_output tree root parts)"

section \<open>The journal\<close>

record job_world =
  jw_store :: "jobs_state store"
  jw_tree :: path_tree

record worker_receipt =
  wr_ok :: bool
  wr_jobId :: string
  wr_cleanupProtocol :: int
  wr_quiescent :: bool
  wr_workerInstanceId :: "string option"

record cleanup_env =
  ce_now :: int
  ce_tx :: "nat \<Rightarrow> tx_env"
  ce_workerUrl :: bool
  ce_issue :: "unit result"
  ce_receipt :: "worker_receipt result"
  ce_rm :: bool

abbreviation jobs_of :: "('a job_world_scheme) \<Rightarrow> jobs_state" where
  "jobs_of w \<equiv> store_snapshot empty_jobs (jw_store w)"

abbreviation put_jobs :: "jobs_state store \<Rightarrow> ('a job_world_scheme) \<Rightarrow> ('a job_world_scheme)" where
  "put_jobs st w \<equiv> w\<lparr>jw_store := st\<rparr>"

definition jobs_update :: "tx_env \<Rightarrow> (jobs_state \<Rightarrow> jobs_state result) \<Rightarrow> (unit, 'a job_world_scheme) comp" where
  "jobs_update env = transact jw_store put_jobs empty_jobs env"

definition own_record :: "int \<Rightarrow> string \<Rightarrow> job_type \<Rightarrow> jobs_state \<Rightarrow> jobs_state result" where
  "own_record now jobId type s =
     (if jm_has (js_cleanup s) jobId then Inl (PlainError ''cleanup_job_already_owned'')
      else Inr (s\<lparr>js_cleanup := jm_set jobId \<lparr>cl_type = type, cl_state = Pending, cl_workerInstanceId = None,
             cl_workerAttempted = False, cl_updatedAt = now, cl_reason = None\<rparr> (js_cleanup s)\<rparr>))"

definition own :: "cleanup_env \<Rightarrow> string \<Rightarrow> job_type \<Rightarrow> (unit, 'a job_world_scheme) comp" where
  "own env jobId type =
     (if \<not> jobIdPattern jobId then throw (PlainError ''cleanup_job_id_invalid'')
      else jobs_update (ce_tx env 0) (own_record (ce_now env) jobId type))"

definition mark_record :: "int \<Rightarrow> string \<Rightarrow> string \<Rightarrow> jobs_state \<Rightarrow> jobs_state result" where
  "mark_record now jobId instanceId s =
     (case jm_get (js_cleanup s) jobId of
        None \<Rightarrow> Inl (PlainError ''cleanup_not_owned'')
      | Some c \<Rightarrow>
          if cl_state c = Complete then Inl (PlainError ''cleanup_not_owned'')
          else Inr (s\<lparr>js_cleanup := jm_set jobId (c\<lparr>cl_workerInstanceId := Some instanceId, cl_workerAttempted := True, cl_updatedAt := now\<rparr>) (js_cleanup s)\<rparr>))"

definition markWorkerAttempt :: "cleanup_env \<Rightarrow> string \<Rightarrow> string \<Rightarrow> (unit, 'a job_world_scheme) comp" where
  "markWorkerAttempt env jobId instanceId =
     (if \<not> jobIdPattern instanceId then throw (PlainError ''worker_cleanup_protocol_required'')
      else jobs_update (ce_tx env 0) (mark_record (ce_now env) jobId instanceId))"

definition settle_record :: "int \<Rightarrow> string \<Rightarrow> cleanup_state \<Rightarrow> string option \<Rightarrow> jobs_state \<Rightarrow> jobs_state result" where
  "settle_record now jobId state reason s =
     Inr (case jm_get (js_cleanup s) jobId of
            None \<Rightarrow> s
          | Some c \<Rightarrow> s\<lparr>js_cleanup := jm_set jobId (c\<lparr>cl_state := state, cl_reason := reason, cl_updatedAt := now\<rparr>) (js_cleanup s)\<rparr>)"

text \<open>The answer of the worker proves that this instance no longer works on this job.\<close>

definition receipt_proves :: "string \<Rightarrow> cleanup_record \<Rightarrow> worker_receipt \<Rightarrow> bool" where
  "receipt_proves jobId c r \<longleftrightarrow> wr_ok r \<and> wr_jobId r = jobId \<and> wr_cleanupProtocol r = 1 \<and> wr_quiescent r \<and>
     wr_workerInstanceId r = cl_workerInstanceId c"

definition confirm_quiescence :: "cleanup_env \<Rightarrow> string \<Rightarrow> cleanup_record \<Rightarrow> unit result" where
  "confirm_quiescence env jobId c =
     (if \<not> cl_workerAttempted c then Inr ()
      else if \<not> ce_workerUrl env \<or> cl_workerInstanceId c \<in> {None, Some []} then Inl (PlainError ''worker_identity_unavailable'')
      else case ce_issue env of
             Inl e \<Rightarrow> Inl e
           | Inr _ \<Rightarrow>
               (case ce_receipt env of
                  Inl e \<Rightarrow> Inl e
                | Inr r \<Rightarrow> if receipt_proves jobId c r then Inr () else Inl (PlainError ''worker_quiescence_unverified'')))"

definition release_owned :: "cleanup_env \<Rightarrow> string \<Rightarrow> cleanup_record \<Rightarrow> (unit, 'a job_world_scheme) comp" where
  "release_owned env jobId c =
     handle
       (andThen (of_result (confirm_quiescence env jobId c)) (\<lambda>_.
        andThen (reads (\<lambda>w. removeOwnedWorkDirectory (ce_rm env) ''jobs'' jobId (jw_tree w))) (\<lambda>removed.
        andThen (of_result removed) (\<lambda>tree.
        andThen (writes (\<lambda>w. w\<lparr>jw_tree := tree\<rparr>)) (\<lambda>_.
          jobs_update (ce_tx env 0) (settle_record (ce_now env) jobId Complete None))))))
       (\<lambda>e. andThen (jobs_update (ce_tx env 1) (settle_record (ce_now env) jobId Blocked (Some ''cleanup_retry_required''))) (\<lambda>_. throw e))"

definition release_job :: "cleanup_env \<Rightarrow> string \<Rightarrow> (unit, 'a job_world_scheme) comp" where
  "release_job env jobId =
     andThen (reads jobs_of) (\<lambda>s.
       case jm_get (js_cleanup s) jobId of
         None \<Rightarrow> ret ()
       | Some c \<Rightarrow>
           if cl_state c = Complete then ret ()
           else if (case jm_get (js_jobs s) jobId of None \<Rightarrow> False | Some job \<Rightarrow> active_job job) then ret ()
           else release_owned env jobId c)"

end
