(* ===== verification/Private_Payload.thy ===== *)
theory Private_Payload
  imports Base64 Job_Cleanup
begin

text \<open>
  The encrypted transport of captures between nodes, \<^verbatim>\<open>src/src/compute/privatePayloadTransport.ts\<close>: a
  requester walks a capture directory, packs, compresses and encrypts it under a fresh data key and
  wraps that key for the provider; the provider unwraps it and writes the files below a directory of
  the job.

  The primitives are fields of \<open>payload_crypto\<close>: SHA-256, gzip, AES-256-GCM, X25519, HKDF and the
  DER encoding of public keys; \<open>crypto_ok\<close> is what they are documented to do. Random values are
  arguments. The order of \<^verbatim>\<open>localeCompare\<close> is the argument \<open>before\<close>. Paths are POSIX paths; the
  directory tree is that of \<open>Job_Cleanup\<close>. It does not say where a symbolic link leads, so \<open>make_dirs\<close> and \<open>write_entry\<close> stop at one where
  the calls of the file system would follow it: they describe those calls on trees without links on the way (\<open>no_links\<close>).

  Packing and unpacking are inverse (\<open>payload_roundtrip\<close>); whatever a requester sends, unpacking
  changes nothing outside the job's directory, writes no more than the limit, and cleans up after a failure as far as the file system
  lets it (\<open>unpacking_confined\<close>).
\<close>

record payload_crypto =
  cy_sha :: "bytes \<Rightarrow> string"
  cy_gzip :: "bytes \<Rightarrow> bytes"
  cy_gunzip :: "bytes \<Rightarrow> bytes result"
  cy_seal :: "bytes \<Rightarrow> bytes \<Rightarrow> bytes \<Rightarrow> bytes \<Rightarrow> bytes \<times> bytes"
  cy_open :: "bytes \<Rightarrow> bytes \<Rightarrow> bytes \<Rightarrow> bytes \<Rightarrow> bytes \<Rightarrow> bytes result"
  cy_hkdf :: "bytes \<Rightarrow> bytes \<Rightarrow> bytes \<Rightarrow> bytes"
  cy_public :: "bytes \<Rightarrow> bytes"
  cy_dh :: "bytes \<Rightarrow> bytes \<Rightarrow> bytes"
  cy_export :: "bytes \<Rightarrow> bytes"
  cy_import :: "bytes \<Rightarrow> (string \<times> bytes) result"
  cy_bufferFrom :: "json \<Rightarrow> bytes result"

definition crypto_ok :: "payload_crypto \<Rightarrow> bool" where
  "crypto_ok c \<longleftrightarrow>
     (\<forall>x. cy_gunzip c (cy_gzip c x) = Inr x) \<and>
     (\<forall>k iv aad x ct tag. cy_seal c k iv aad x = (ct, tag) \<longrightarrow> cy_open c k iv aad tag ct = Inr x) \<and>
     (\<forall>a b. cy_dh c a (cy_public c b) = cy_dh c b (cy_public c a)) \<and>
     (\<forall>a. cy_import c (cy_export c (cy_public c a)) = Inr (''x25519'', cy_public c a))"

section \<open>Walking a capture\<close>

datatype dir_entry = EntryDir "(string \<times> dir_entry) list" | EntryFile bytes | EntryLink | EntryOther

fun insert_entry :: "(string \<Rightarrow> string \<Rightarrow> bool) \<Rightarrow> string \<times> 'a \<Rightarrow> (string \<times> 'a) list \<Rightarrow> (string \<times> 'a) list" where
  "insert_entry before x [] = [x]"
| "insert_entry before x (y # ys) = (if before (fst y) (fst x) then y # insert_entry before x ys else x # y # ys)"

primrec sort_dir :: "(string \<Rightarrow> string \<Rightarrow> bool) \<Rightarrow> dir_entry \<Rightarrow> dir_entry" where
  "sort_dir before (EntryDir es) = EntryDir (foldr (insert_entry before) (map (map_prod id (sort_dir before)) es) [])"
| "sort_dir before (EntryFile b) = EntryFile b"
| "sort_dir before EntryLink = EntryLink"
| "sort_dir before EntryOther = EntryOther"

definition forward_slashes :: "string \<Rightarrow> string" where
  "forward_slashes s = map (\<lambda>c. if c = char_of (92::nat) then CHR ''/'' else c) s"

fun visit :: "string list \<Rightarrow> dir_entry \<Rightarrow> (string \<times> bytes) list result"
  and visit_entries :: "string list \<Rightarrow> (string \<times> dir_entry) list \<Rightarrow> (string \<times> bytes) list result" where
  "visit at (EntryDir es) = visit_entries at es"
| "visit at (EntryFile b) =
     (let relative = forward_slashes (join_with ''/'' at) in
      if relative = [] \<or> starts_with relative ''../'' then Inl (LocalError 400 ''capture_path_invalid'') else Inr [(relative, b)])"
| "visit at EntryLink = Inl (LocalError 400 ''capture_symlink_forbidden'')"
| "visit at EntryOther = Inr []"
| "visit_entries at [] = Inr []"
| "visit_entries at ((n, e) # es) =
     (case visit (at @ [n]) e of Inl x \<Rightarrow> Inl x | Inr fs \<Rightarrow>
        (case visit_entries at es of Inl x \<Rightarrow> Inl x | Inr gs \<Rightarrow> Inr (fs @ gs)))"

definition walkFiles :: "(string \<Rightarrow> string \<Rightarrow> bool) \<Rightarrow> dir_entry \<Rightarrow> (string \<times> bytes) list result" where
  "walkFiles before root = visit [] (sort_dir before root)"

section \<open>Packing\<close>

record payload_random =
  pr_dataKey :: bytes
  pr_payloadIv :: bytes
  pr_ephemeral :: bytes
  pr_salt :: bytes
  pr_wrapIv :: bytes

abbreviation b64 :: "bytes \<Rightarrow> json" where
  "b64 bs \<equiv> JStr (base64_encode False bs)"

definition payload_aad :: bytes where
  "payload_aad = bytes_of_string ''kubus.private-capture/1''"

definition keyObject :: "payload_crypto \<Rightarrow> string \<Rightarrow> (string \<times> bytes) result" where
  "keyObject c raw = cy_import c (base64_decode raw)"

definition providerKey :: "payload_crypto \<Rightarrow> string \<Rightarrow> bytes result" where
  "providerKey c raw =
     (case keyObject c raw of
        Inl _ \<Rightarrow> Inl (LocalError 400 ''compute_provider_key_invalid'')
      | Inr (kind, key) \<Rightarrow> if kind \<noteq> ''x25519'' then Inl (LocalError 400 ''compute_provider_key_invalid'') else Inr key)"

definition packed_json :: "json \<Rightarrow> (string \<times> bytes) list \<Rightarrow> json" where
  "packed_json capture files = JObj [(''schema'', JStr ''kubus.private-capture/1''), (''capture'', capture),
     (''files'', JArr (map (\<lambda>(p, b). JObj [(''path'', JStr p), (''contentBase64'', b64 b)]) files))]"

definition header_json :: "payload_crypto \<Rightarrow> bytes \<Rightarrow> bytes \<Rightarrow> bytes \<Rightarrow> json" where
  "header_json c iv tag compressed = JObj [(''schema'', JStr ''kubus.encrypted-payload/1''), (''algorithm'', JStr ''AES-256-GCM''),
     (''compression'', JStr ''gzip''), (''iv'', b64 iv), (''authTag'', b64 tag), (''plaintextHash'', JStr (cy_sha c compressed))]"

definition payload_magic :: bytes where
  "payload_magic = bytes_of_string ''KUBUSENC1''"

definition seal_payload :: "payload_crypto \<Rightarrow> payload_random \<Rightarrow> json \<Rightarrow> (string \<times> bytes) list \<Rightarrow> bytes" where
  "seal_payload c r capture files =
     (let compressed = cy_gzip c (bytes_of_string (json_stringify (packed_json capture files)));
          (ciphertext, tag) = cy_seal c (pr_dataKey r) (pr_payloadIv r) payload_aad compressed
      in payload_magic @ [10] @ bytes_of_string (json_stringify (header_json c (pr_payloadIv r) tag compressed)) @ [10] @ ciphertext)"

definition total_bytes :: "(string \<times> bytes) list \<Rightarrow> nat" where
  "total_bytes files = sum_list (map (length \<circ> snd) files)"

text \<open>\<open>encryptCapture\<close> up to the upload.\<close>

definition encrypt_payload :: "payload_crypto \<Rightarrow> nat \<Rightarrow> payload_random \<Rightarrow> json \<Rightarrow> (string \<times> bytes) list \<Rightarrow> bytes result" where
  "encrypt_payload c maxInputBytes r capture files =
     (if total_bytes files > maxInputBytes then Inl (LocalError 413 ''remote_compute_input_too_large'')
      else let encrypted = seal_payload c r capture files in
        if length encrypted > maxInputBytes then Inl (LocalError 413 ''remote_compute_input_too_large'') else Inr encrypted)"

text \<open>\<open>encryptCapture\<close> after the upload: the data key wrapped for the provider.\<close>

definition key_envelope :: "payload_crypto \<Rightarrow> payload_random \<Rightarrow> bytes \<Rightarrow> string \<Rightarrow> string \<Rightarrow> json" where
  "key_envelope c r providerEncryptionKey providerNodeId cid =
     (let context = providerNodeId @ '':'' @ cid;
          shared = cy_dh c (pr_ephemeral r) providerEncryptionKey;
          wrappingKey = cy_hkdf c shared (pr_salt r) (bytes_of_string context);
          (wrapped, tag) = cy_seal c wrappingKey (pr_wrapIv r) (bytes_of_string context) (pr_dataKey r)
      in JObj [(''algorithm'', JStr ''X25519-HKDF-SHA256-AES-256-GCM''),
           (''ephemeralPublicKey'', b64 (cy_export c (cy_public c (pr_ephemeral r)))), (''salt'', b64 (pr_salt r)),
           (''iv'', b64 (pr_wrapIv r)), (''authTag'', b64 tag), (''wrappedKey'', b64 wrapped), (''context'', JStr context)])"

section \<open>Unpacking\<close>

text \<open>\<^verbatim>\<open>bytes.indexOf(10)\<close> twice: what is before, between and after.\<close>

definition split_payload :: "bytes \<Rightarrow> (bytes \<times> bytes \<times> bytes) option" where
  "split_payload bs =
     (let rest = drop 1 (dropWhile (\<lambda>b. b \<noteq> 10) bs) in
      if 10 \<notin> set bs \<or> 10 \<notin> set rest then None
      else Some (takeWhile (\<lambda>b. b \<noteq> 10) bs, takeWhile (\<lambda>b. b \<noteq> 10) rest, drop 1 (dropWhile (\<lambda>b. b \<noteq> 10) rest)))"

text \<open>\<^verbatim>\<open>Buffer.from(j.k, 'base64')\<close> and \<^verbatim>\<open>Buffer.from(j.k)\<close>.\<close>

definition buffer_field :: "payload_crypto \<Rightarrow> (string \<Rightarrow> bytes) \<Rightarrow> json \<Rightarrow> string \<Rightarrow> bytes result" where
  "buffer_field c decode j k =
     (case json_field (Some j) k of None \<Rightarrow> Inl (PlainError ''TypeError'') | Some (JStr s) \<Rightarrow> Inr (decode s)
      | Some v \<Rightarrow> cy_bufferFrom c v)"

definition unwrap_key :: "payload_crypto \<Rightarrow> bytes \<Rightarrow> json \<Rightarrow> bytes result" where
  "unwrap_key c secret envelope =
     res_bind (buffer_field c base64_decode envelope ''ephemeralPublicKey'') (\<lambda>raw.
     res_bind (cy_import c raw) (\<lambda>(kind, ephemeral).
     res_bind (buffer_field c base64_decode envelope ''salt'') (\<lambda>salt.
     res_bind (buffer_field c bytes_of_string envelope ''context'') (\<lambda>context.
     res_bind (buffer_field c base64_decode envelope ''iv'') (\<lambda>iv.
     res_bind (buffer_field c base64_decode envelope ''authTag'') (\<lambda>tag.
     res_bind (buffer_field c base64_decode envelope ''wrappedKey'') (\<lambda>wrapped.
       cy_open c (cy_hkdf c (cy_dh c secret ephemeral) salt context) iv context tag wrapped)))))))"

text \<open>\<^verbatim>\<open>Buffer.from(header.k || '', 'base64')\<close>\<close>

definition header_bytes :: "payload_crypto \<Rightarrow> json \<Rightarrow> string \<Rightarrow> bytes result" where
  "header_bytes c h k = (if json_falsy (json_field (Some h) k) then Inr [] else buffer_field c base64_decode h k)"

definition parse_json :: "bytes \<Rightarrow> json result" where
  "parse_json bs = (case json_parse (string_of_bytes bs) of None \<Rightarrow> Inl (PlainError ''SyntaxError'')
     | Some JNull \<Rightarrow> Inl (PlainError ''TypeError'') | Some j \<Rightarrow> Inr j)"

definition package_entries :: "json \<Rightarrow> json list result" where
  "package_entries packed =
     (case json_field (Some packed) ''files'' of
        Some (JArr files) \<Rightarrow>
          if json_field (Some packed) ''schema'' \<noteq> Some (JStr ''kubus.private-capture/1'') \<or> 5000 < length files
          then Inl (LocalError 422 ''private_capture_package_invalid'') else Inr files
      | _ \<Rightarrow> Inl (LocalError 422 ''private_capture_package_invalid''))"

text \<open>\<open>decryptToDirectory\<close> up to the first change of the file system: the entries of the package.\<close>

definition open_payload :: "payload_crypto \<Rightarrow> bytes \<Rightarrow> bytes \<Rightarrow> json \<Rightarrow> string \<Rightarrow> json list result" where
  "open_payload c secret encrypted envelope expectedHash =
     (if cy_sha c encrypted \<noteq> expectedHash then Inl (LocalError 422 ''encrypted_payload_hash_mismatch'')
      else case split_payload encrypted of
        None \<Rightarrow> Inl (LocalError 422 ''encrypted_payload_invalid'')
      | Some (magic, headerBytes, body) \<Rightarrow>
          if magic \<noteq> payload_magic then Inl (LocalError 422 ''encrypted_payload_invalid'')
          else
            res_bind (parse_json headerBytes) (\<lambda>header.
            if json_field (Some header) ''schema'' \<noteq> Some (JStr ''kubus.encrypted-payload/1'')
            then Inl (LocalError 422 ''encrypted_payload_schema_invalid'')
            else
              res_bind (unwrap_key c secret envelope) (\<lambda>dataKey.
              res_bind (header_bytes c header ''iv'') (\<lambda>iv.
              res_bind (header_bytes c header ''authTag'') (\<lambda>tag.
              res_bind (cy_open c dataKey iv payload_aad tag body) (\<lambda>compressed.
              if json_field (Some header) ''plaintextHash'' \<noteq> Some (JStr (cy_sha c compressed))
              then Inl (LocalError 422 ''encrypted_payload_plaintext_hash_mismatch'')
              else
                res_bind (cy_gunzip c compressed) (\<lambda>text.
                res_bind (parse_json text) package_entries)))))))"

text \<open>\<^verbatim>\<open>mkdir(d, { recursive: true })\<close> on the parts of a path, and the writing of a file.\<close>

fun make_dirs :: "string list \<Rightarrow> string list \<Rightarrow> path_tree \<Rightarrow> path_tree result" where
  "make_dirs current [] tree = Inr tree"
| "make_dirs current (part # parts) tree =
     (let here = current @ [part] in
      case jm_get tree here of
        None \<Rightarrow> make_dirs here parts (jm_set here Directory tree)
      | Some Directory \<Rightarrow> make_dirs here parts tree
      | Some _ \<Rightarrow> Inl (PlainError ''ENOTDIR''))"

definition write_entry :: "string list \<Rightarrow> string list \<Rightarrow> path_tree \<Rightarrow> path_tree result" where
  "write_entry base segs tree =
     res_bind (make_dirs base (butlast segs) tree) (\<lambda>tree.
       if jm_get tree (base @ segs) \<in> {Some Directory, Some SymbolicLink} then Inl (PlainError ''EISDIR'')
       else Inr (jm_set (base @ segs) RegularFile tree))"

text \<open>One entry: the segments of its path below the directory and its content.\<close>

definition unpack_entry :: "payload_crypto \<Rightarrow> nat \<Rightarrow> nat \<Rightarrow> json \<Rightarrow> (string list \<times> bytes) result" where
  "unpack_entry c maxInputBytes sofar entry =
     (case json_field (Some entry) ''path'' of
        Some (JStr p) \<Rightarrow>
          (let relative = normal_path p in
           if relative = [] \<or> str_includes relative ''..'' then Inl (LocalError 422 ''private_capture_path_invalid'')
           else res_bind (buffer_field c base64_decode entry ''contentBase64'') (\<lambda>content.
             if maxInputBytes < sofar + length content then Inl (LocalError 413 ''private_capture_expansion_limit'')
             else if path_segments relative = [] then Inl (LocalError 422 ''private_capture_path_invalid'')
             else Inr (path_segments relative, content)))
      | _ \<Rightarrow> Inl (PlainError ''TypeError''))"

text \<open>\<open>io\<close> gives the error, if any, with which the file system fails an entry. The list collects what was
  written.\<close>

fun unpack_files :: "payload_crypto \<Rightarrow> (nat \<Rightarrow> node_error option) \<Rightarrow> nat \<Rightarrow> string list \<Rightarrow> nat \<Rightarrow> json list \<Rightarrow> path_tree \<Rightarrow>
    ((string list \<times> bytes) list result) \<times> path_tree" where
  "unpack_files c io maxInputBytes base sofar [] tree = (Inr [], tree)"
| "unpack_files c io maxInputBytes base sofar (entry # entries) tree =
     (case unpack_entry c maxInputBytes sofar entry of
        Inl e \<Rightarrow> (Inl e, tree)
      | Inr (segs, content) \<Rightarrow>
          (case (io (length entries), write_entry base segs tree) of
             (Some e, _) \<Rightarrow> (Inl e, tree)
           | (None, Inl e) \<Rightarrow> (Inl e, tree)
           | (None, Inr tree1) \<Rightarrow>
               (case unpack_files c io maxInputBytes base (sofar + length content) entries tree1 of
                  (Inl e, tree2) \<Rightarrow> (Inl e, tree2)
                | (Inr ws, tree2) \<Rightarrow> (Inr ((segs, content) # ws), tree2))))"

definition remove_below :: "string list \<Rightarrow> path_tree \<Rightarrow> path_tree" where
  "remove_below base tree = filter (\<lambda>(p, _). \<not> below base p) tree"

text \<open>The removal in the \<^verbatim>\<open>catch\<close>: \<open>undo\<close> is \<open>None\<close> when it succeeds; otherwise it gives the error, which replaces the first one, and what
  is left below the directory, which may be anything.\<close>

definition undo_unpacking :: "(node_error \<times> path_tree) option \<Rightarrow> string list \<Rightarrow> node_error \<Rightarrow> path_tree \<Rightarrow> node_error \<times> path_tree" where
  "undo_unpacking undo base e tree =
     (case undo of
        None \<Rightarrow> (e, remove_below base tree)
      | Some (e', left) \<Rightarrow> (e', filter (\<lambda>(p, _). below base p) left @ remove_below base tree))"

text \<open>\<open>io\<close> counts the entries that are still to be written: it fails the first \<^verbatim>\<open>mkdir\<close> at the number of all of them.\<close>

definition decryptToDirectory ::
  "payload_crypto \<Rightarrow> (nat \<Rightarrow> node_error option) \<Rightarrow> (node_error \<times> path_tree) option \<Rightarrow> nat \<Rightarrow> bytes \<Rightarrow> bytes \<Rightarrow> json \<Rightarrow> string list \<Rightarrow> string \<Rightarrow> path_tree \<Rightarrow>
    ((string list \<times> bytes) list result) \<times> path_tree" where
  "decryptToDirectory c io undo maxInputBytes secret encrypted envelope base expectedHash tree =
     (case open_payload c secret encrypted envelope expectedHash of
        Inl e \<Rightarrow> (Inl e, tree)
      | Inr entries \<Rightarrow>
          (case (io (length entries), make_dirs [] base tree) of
             (Some e, _) \<Rightarrow> (Inl e, tree)
           | (None, Inl e) \<Rightarrow> (Inl e, tree)
           | (None, Inr tree1) \<Rightarrow>
               (case unpack_files c io maxInputBytes base 0 entries tree1 of
                  (Inl e, tree2) \<Rightarrow> (case undo_unpacking undo base e tree2 of (e', tree3) \<Rightarrow> (Inl e', tree3))
                | (Inr ws, tree2) \<Rightarrow> (Inr ws, tree2))))"

section \<open>What is packed opens again\<close>

lemma hex_no_newline: "n < 16 \<Longrightarrow> CHR 0x0A \<noteq> hex_digit n"
proof
  assume "n < 16" "CHR 0x0A = hex_digit n"
  moreover have "hex_value (CHR 0x0A) = None" by (simp add: hex_value_def char_code_def)
  ultimately show False using hex_value_digit [of n] by simp
qed

lemma escape_no_newline: "CHR 0x0A \<notin> set (escape_char ch)"
proof -
  have "CHR 0x0A \<noteq> hex_digit (of_char ch div 16)" if "of_char ch < (32 :: nat)"
    by (rule hex_no_newline) (use that in simp)
  then show ?thesis
    using hex_no_newline [of "of_char ch mod 16"]
    by (auto simp: escape_char_def char_code_def Let_def split: if_splits)
qed

lemma digits_no_newline: "CHR 0x0A \<notin> set (digits_of n)"
  using digits_of_all [of n] by (auto simp: is_digit_def char_code_def)

lemma newline_numbers: "CHR 0x0A \<notin> set (print_int i)" "CHR 0x0A \<notin> set (print_dec m k)"
  using digits_no_newline
  by (auto simp: print_int_def print_dec_def Let_def dest: in_set_takeD in_set_dropD)

lemma newline_free:
  "CHR 0x0A \<notin> set (json_stringify j)" "CHR 0x0A \<notin> set (stringify_elems js)" "CHR 0x0A \<notin> set (stringify_members ms)"
  by (induction j and js and ms rule: json_stringify_stringify_elems_stringify_members.induct)
    (auto simp: quote_def escape_no_newline newline_numbers)

lemma newline_byte: "(10 :: byte) \<in> set (bytes_of_string t) \<longleftrightarrow> CHR 0x0A \<in> set t"
proof -
  have "of_char ch = (10 :: byte) \<longleftrightarrow> ch = CHR 0x0A" for ch
  proof
    assume "of_char ch = (10 :: byte)"
    then have "(of_char ch :: byte) = of_char (CHR 0x0A)" by simp
    then show "ch = CHR 0x0A" by (metis char_of_unat_of_char)
  qed simp
  then show ?thesis by (auto simp: bytes_of_string_def image_iff)
qed

lemma split_seal:
  assumes "10 \<notin> set m" and "10 \<notin> set h"
  shows "split_payload (m @ [10] @ h @ [10] @ body) = Some (m, h, body)"
proof -
  have "takeWhile (\<lambda>b. b \<noteq> 10) (x @ 10 # y) = x" "dropWhile (\<lambda>b. b \<noteq> 10) (x @ 10 # y) = 10 # y"
    if "10 \<notin> set x" for x y :: bytes
    using that by (induction x) auto
  with assms show ?thesis by (simp add: split_payload_def Let_def)
qed

lemma parse_json_back: "wf_json j \<Longrightarrow> j \<noteq> JNull \<Longrightarrow> parse_json (bytes_of_string (json_stringify j)) = Inr j"
  by (simp add: parse_json_def json_roundtrip split: json.splits)

lemma unwrap_envelope:
  assumes "crypto_ok c"
  shows "unwrap_key c secret (key_envelope c r (cy_public c secret) node cid) = Inr (pr_dataKey r)"
proof -
  obtain w tag where w: "cy_seal c (cy_hkdf c (cy_dh c (pr_ephemeral r) (cy_public c secret)) (pr_salt r)
      (bytes_of_string (node @ '':'' @ cid))) (pr_wrapIv r) (bytes_of_string (node @ '':'' @ cid)) (pr_dataKey r) = (w, tag)"
    by fastforce
  have dh: "cy_dh c secret (cy_public c (pr_ephemeral r)) = cy_dh c (pr_ephemeral r) (cy_public c secret)"
    and im: "cy_import c (cy_export c (cy_public c (pr_ephemeral r))) = Inr (''x25519'', cy_public c (pr_ephemeral r))"
    and op: "cy_open c k iv a t x = Inr y" if "cy_seal c k iv a y = (x, t)" for k iv a t x y
    using assms that by (simp_all add: crypto_ok_def)
  show ?thesis
    using w op [OF w] im
    by (simp add: unwrap_key_def key_envelope_def Let_def buffer_field_def json_field_def base64_roundtrip dh)
qed

lemma header_bytes_back:
  "header_bytes c (header_json c iv tag z) ''iv'' = Inr iv" "header_bytes c (header_json c iv tag z) ''authTag'' = Inr tag"
proof -
  have "bs = []" if "base64_encode False bs = []" for bs
    using base64_roundtrip [of False bs] that by (simp add: base64_decode_def)
  then show "header_bytes c (header_json c iv tag z) ''iv'' = Inr iv" "header_bytes c (header_json c iv tag z) ''authTag'' = Inr tag"
    by (auto simp: header_bytes_def header_json_def json_field_def buffer_field_def base64_roundtrip)
qed

definition packed_entry :: "string \<times> bytes \<Rightarrow> json" where
  "packed_entry f = JObj [(''path'', JStr (fst f)), (''contentBase64'', b64 (snd f))]"

lemma packed_json_simps:
  "wf_json capture \<Longrightarrow> wf_json (packed_json capture files)"
  "json_field (Some (packed_json capture files)) ''schema'' = Some (JStr ''kubus.private-capture/1'')"
  "json_field (Some (packed_json capture files)) ''files'' = Some (JArr (map packed_entry files))"
  by (auto simp: packed_json_def json_field_def wf_map_def list_all_iff packed_entry_def case_prod_beta)

lemma open_sealed:
  assumes "crypto_ok c" and "wf_json capture"
  shows "open_payload c secret (seal_payload c r capture files) (key_envelope c r (cy_public c secret) node cid)
      (cy_sha c (seal_payload c r capture files)) =
    (if 5000 < length files then Inl (LocalError 422 ''private_capture_package_invalid'') else Inr (map packed_entry files))"
proof -
  define z where "z = cy_gzip c (bytes_of_string (json_stringify (packed_json capture files)))"
  obtain ct tag where ct: "cy_seal c (pr_dataKey r) (pr_payloadIv r) payload_aad z = (ct, tag)" by fastforce
  define h where "h = header_json c (pr_payloadIv r) tag z"
  have seal: "seal_payload c r capture files = payload_magic @ [10] @ bytes_of_string (json_stringify h) @ [10] @ ct"
    by (simp add: seal_payload_def Let_def z_def [symmetric] ct h_def)
  have sp: "split_payload (seal_payload c r capture files) = Some (payload_magic, bytes_of_string (json_stringify h), ct)"
    unfolding seal by (rule split_seal) (auto simp: newline_byte newline_free payload_magic_def)
  have h: "parse_json (bytes_of_string (json_stringify h)) = Inr h" "json_field (Some h) ''schema'' = Some (JStr ''kubus.encrypted-payload/1'')"
    "json_field (Some h) ''plaintextHash'' = Some (JStr (cy_sha c z))"
    by (rule parse_json_back) (auto simp: h_def header_json_def wf_map_def json_field_def)
  have op: "cy_open c (pr_dataKey r) (pr_payloadIv r) payload_aad tag ct = Inr z"
    and gz: "cy_gunzip c z = Inr (bytes_of_string (json_stringify (packed_json capture files)))"
    using assms(1) ct by (simp_all add: crypto_ok_def z_def)
  have pj: "parse_json (bytes_of_string (json_stringify (packed_json capture files))) = Inr (packed_json capture files)"
    by (rule parse_json_back) (use assms(2) packed_json_simps(1) in \<open>auto simp: packed_json_def\<close>)
  show ?thesis
    unfolding open_payload_def sp
    by (simp add: h unwrap_envelope [OF assms(1)] header_bytes_back [of c "pr_payloadIv r" tag z, folded h_def] op gz pj packed_json_simps package_entries_def)
qed

section \<open>Unpacking writes the files\<close>

text \<open>The files of a directory as a reference: the names on the way to each and its content.\<close>

fun entry_files :: "dir_entry \<Rightarrow> (string list \<times> bytes) list"
  and entries_files :: "(string \<times> dir_entry) list \<Rightarrow> (string list \<times> bytes) list" where
  "entry_files (EntryDir es) = entries_files es"
| "entry_files (EntryFile b) = [([], b)]"
| "entry_files EntryLink = []"
| "entry_files EntryOther = []"
| "entries_files [] = []"
| "entries_files ((n, e) # es) = map (map_prod ((#) n) id) (entry_files e) @ entries_files es"

text \<open>Names a capture may use, and a directory of such names without links.\<close>

definition plain_name :: "string \<Rightarrow> bool" where
  "plain_name n \<longleftrightarrow> n \<noteq> [] \<and> n \<noteq> ''.'' \<and> \<not> str_includes n ''..'' \<and> CHR ''/'' \<notin> set n \<and> char_of (92::nat) \<notin> set n"

fun plain_entry :: "dir_entry \<Rightarrow> bool" and plain_entries :: "(string \<times> dir_entry) list \<Rightarrow> bool" where
  "plain_entry (EntryDir es) \<longleftrightarrow> plain_entries es \<and> distinct (map fst es)"
| "plain_entry (EntryFile b) \<longleftrightarrow> True"
| "plain_entry EntryLink \<longleftrightarrow> False"
| "plain_entry EntryOther \<longleftrightarrow> True"
| "plain_entries [] \<longleftrightarrow> True"
| "plain_entries ((n, e) # es) \<longleftrightarrow> plain_name n \<and> plain_entry e \<and> plain_entries es"

lemma plain_entries_iff: "plain_entries es \<longleftrightarrow> (\<forall>(n, e) \<in> set es. plain_name n \<and> plain_entry e)"
  by (induction es) auto

text \<open>No file is a directory on the way to another.\<close>

definition prefix_free :: "string list list \<Rightarrow> bool" where
  "prefix_free ps \<longleftrightarrow> distinct ps \<and> (\<forall>p \<in> set ps. \<forall>q \<in> set ps. take (length p) q = p \<longrightarrow> p = q)"

lemma prefix_free_cons: "prefix_free ps \<Longrightarrow> prefix_free (map ((#) n) ps)"
  by (auto simp: prefix_free_def distinct_map)

lemma entries_files_hd: "(s, b) \<in> set (entries_files es) \<Longrightarrow> s \<noteq> [] \<and> hd s \<in> fst ` set es"
  by (induction es) auto

lemma prefix_free_append:
  assumes "prefix_free ps" "prefix_free qs"
    and "\<And>p q. p \<in> set ps \<Longrightarrow> q \<in> set qs \<Longrightarrow> p \<noteq> [] \<and> q \<noteq> [] \<and> hd p \<noteq> hd q"
  shows "prefix_free (ps @ qs)"
proof -
  have "take (length p) q \<noteq> p" "take (length q) p \<noteq> q" if "p \<in> set ps" "q \<in> set qs" for p q
    using assms(3) [OF that] by (cases p; cases q; auto)+
  moreover have "set ps \<inter> set qs = {}" using assms(3) by blast
  ultimately show ?thesis using assms(1, 2) by (auto simp: prefix_free_def)
qed

lemma entry_files_prefix_free:
  "plain_entry e \<Longrightarrow> prefix_free (map fst (entry_files e))"
  "plain_entries es \<Longrightarrow> distinct (map fst es) \<Longrightarrow> prefix_free (map fst (entries_files es))"
proof (induction e and es rule: entry_files_entries_files.induct)
  case (6 n e es)
  have "p \<noteq> [] \<and> q \<noteq> [] \<and> hd p \<noteq> hd q"
    if p: "p \<in> set (map ((#) n) (map fst (entry_files e)))" and q: "q \<in> set (map fst (entries_files es))" for p q
  proof -
    obtain b where "(q, b) \<in> set (entries_files es)" using q by auto
    then have "q \<noteq> [] \<and> hd q \<in> fst ` set es" by (rule entries_files_hd)
    moreover have "n \<notin> fst ` set es" using "6.prems" by simp
    moreover have "p \<noteq> [] \<and> hd p = n" using p by auto
    ultimately show ?thesis by metis
  qed
  then have "prefix_free (map ((#) n) (map fst (entry_files e)) @ map fst (entries_files es))"
    by (rule prefix_free_append [rotated 2]) (use 6 in \<open>simp_all add: prefix_free_cons del: map_map\<close>)
  then show ?case by (simp add: comp_def)
qed (auto simp: prefix_free_def)

definition plain_path :: "string list \<Rightarrow> bool" where
  "plain_path p \<longleftrightarrow> p \<noteq> [] \<and> list_all plain_name p"

lemma entry_files_plain:
  "plain_entry e \<Longrightarrow> list_all (\<lambda>f. list_all plain_name (fst f)) (entry_files e)"
  "plain_entries es \<Longrightarrow> list_all (\<lambda>f. plain_path (fst f)) (entries_files es)"
  by (induction e and es rule: entry_files_entries_files.induct) (auto simp: list_all_iff plain_path_def)

text \<open>A path of plain names survives the trip through its text.\<close>

lemma split_join:
  assumes "ws \<noteq> []" and "\<forall>w \<in> set ws. d \<notin> set w"
  shows "split_on d (join_with [d] ws) = ws"
proof -
  have one: "split_on d w = [w]" if "d \<notin> set w" for w using that by (induction w) auto
  have app: "split_on d (w @ d # r) = w # split_on d r" if "d \<notin> set w" for w r using that by (induction w) auto
  show ?thesis
    using assms
  proof (induction ws)
    case (Cons w ws)
    then show ?case by (cases ws) (simp_all add: one app)
  qed simp
qed

lemma dots_across: "str_includes (u @ CHR ''/'' # v) ''..'' \<Longrightarrow> str_includes u ''..'' \<or> str_includes v ''..''"
proof (induction u)
  case (Cons a u)
  then show ?case by (cases u) (auto simp: starts_with_def)
qed (simp add: starts_with_def)

lemma join_dots: "\<forall>w \<in> set ws. \<not> str_includes w ''..'' \<Longrightarrow> \<not> str_includes (join_with ''/'' ws) ''..''"
proof (induction "''/''" ws rule: join_with.induct)
  case (3 w v ws)
  then show ?case using dots_across [of w "join_with ''/'' (v # ws)"] by auto
qed simp_all

lemma plain_path_text:
  assumes "plain_path p"
  defines "t \<equiv> join_with ''/'' p"
  shows "forward_slashes t = t" "t \<noteq> []" "\<not> starts_with t ''../''" "normal_path t = t" "\<not> str_includes t ''..''" "path_segments t = p"
proof -
  have pl: "\<forall>n \<in> set p. plain_name n" and ne: "p \<noteq> []" using assms(1) by (auto simp: plain_path_def list_all_iff)
  have bs: "char_of (92::nat) \<notin> set t"
  proof -
    have "set t \<subseteq> {CHR ''/''} \<union> \<Union> (set ` set p)" using set_join [of "''/''" p] by (simp add: t_def)
    moreover have "\<forall>n \<in> set p. char_of (92::nat) \<notin> set n" using pl by (simp add: plain_name_def)
    moreover have "char_of (92::nat) \<noteq> CHR ''/''" by (simp add: char_of_def)
    ultimately show ?thesis by blast
  qed
  then have sl: "map (\<lambda>c. if c = char_of (92::nat) then CHR ''/'' else c) t = t" by (auto intro: map_idI)
  show "forward_slashes t = t" using sl by (simp add: forward_slashes_def)
  obtain a where a: "t = hd p @ a" using join_ends [OF ne, of "''/''"] unfolding t_def by blast
  have h: "hd p \<noteq> []" "CHR ''/'' \<notin> set (hd p)" using pl ne hd_in_set [OF ne] by (auto simp: plain_name_def)
  show "t \<noteq> []" using a h by simp
  show dots: "\<not> str_includes t ''..''" unfolding t_def by (rule join_dots) (use pl in \<open>auto simp: plain_name_def\<close>)
  show "\<not> starts_with t ''../''"
  proof
    assume "starts_with t ''../''"
    then obtain r where "t = [] @ ''..'' @ (''/'' @ r)" by (auto simp: starts_with_iff)
    then show False using dots str_includes_iff by blast
  qed
  show "normal_path t = t" unfolding normal_path_def sl using a h by (cases "hd p") auto
  have "split_on CHR ''/'' t = p" unfolding t_def by (rule split_join) (use ne pl in \<open>auto simp: plain_name_def\<close>)
  then show "path_segments t = p" using pl by (auto simp: path_segments_def plain_name_def intro: filter_True)
qed

lemma visit_files:
  "plain_entry e \<Longrightarrow> list_all plain_name at \<Longrightarrow> at \<noteq> [] \<or> (\<exists>es. e = EntryDir es) \<Longrightarrow>
     visit at e = Inr (map (map_prod (\<lambda>s. join_with ''/'' (at @ s)) id) (entry_files e))"
  "plain_entries es \<Longrightarrow> list_all plain_name at \<Longrightarrow>
     visit_entries at es = Inr (map (map_prod (\<lambda>s. join_with ''/'' (at @ s)) id) (entries_files es))"
proof (induction at e and at es rule: visit_visit_entries.induct)
  case (2 at b)
  then have "plain_path at" by (simp add: plain_path_def)
  then show ?case using plain_path_text [of at] by (simp add: Let_def)
next
  case (6 at n e es)
  then show ?case by (simp add: prod.map_comp comp_def map_prod_def case_prod_beta)
qed auto

text \<open>Writing a prefix-free set of files below a directory in which only such files are.\<close>

definition free_for :: "string list \<Rightarrow> string list list \<Rightarrow> path_tree \<Rightarrow> bool" where
  "free_for base ps tree \<longleftrightarrow> (\<forall>p \<in> set ps. \<forall>n < length p. jm_get tree (base @ take (Suc n) p) \<in> {None, Some Directory}) \<and>
     (\<forall>p \<in> set ps. jm_get tree (base @ p) = None)"

lemma make_dirs_ok:
  assumes "\<forall>n < length p. jm_get tree (base @ take (Suc n) p) \<in> {None, Some Directory}"
  shows "\<exists>tree'. make_dirs base p tree = Inr tree' \<and>
    (\<forall>q. jm_get tree' q = (if \<exists>n < length p. q = base @ take (Suc n) p then Some Directory else jm_get tree q))"
  using assms
proof (induction p arbitrary: base tree)
  case (Cons a p)
  define t0 where "t0 = (if jm_get tree (base @ [a]) = None then jm_set (base @ [a]) Directory tree else tree)"
  have here: "jm_get tree (base @ [a]) \<in> {None, Some Directory}" using Cons.prems by force
  have t: "jm_get t0 q = (if q = base @ [a] then Some Directory else jm_get tree q)" for q using here by (auto simp: t0_def)
  have "\<forall>n < length p. jm_get t0 ((base @ [a]) @ take (Suc n) p) \<in> {None, Some Directory}"
    using Cons.prems by (auto simp: t)
  from Cons.IH [OF this] obtain tree' where m: "make_dirs (base @ [a]) p t0 = Inr tree'"
    and g: "\<forall>q. jm_get tree' q = (if \<exists>n < length p. q = (base @ [a]) @ take (Suc n) p then Some Directory else jm_get t0 q)"
    by blast
  have "make_dirs base (a # p) tree = Inr tree'"
    using m here by (auto simp: t0_def Let_def split: option.splits)
  moreover have "jm_get tree' q = (if \<exists>n < length (a # p). q = base @ take (Suc n) (a # p) then Some Directory else jm_get tree q)" for q
  proof -
    have "(\<exists>n < length (a # p). q = base @ take (Suc n) (a # p)) \<longleftrightarrow>
        q = base @ [a] \<or> (\<exists>n < length p. q = (base @ [a]) @ take (Suc n) p)"
      by (auto simp: less_Suc_eq_0_disj)
    then show ?thesis using g t by auto
  qed
  ultimately show ?case by blast
qed simp

lemma write_entry_ok:
  assumes "p \<noteq> []" and "free_for base (p # ps) tree" and "prefix_free (p # ps)"
  shows "\<exists>tree'. write_entry base p tree = Inr tree' \<and> free_for base ps tree' \<and> jm_get tree' (base @ p) = Some RegularFile \<and>
    (\<forall>q. jm_get tree q = Some RegularFile \<longrightarrow> jm_get tree' q = Some RegularFile)"
proof -
  let ?dir = "\<lambda>q. \<exists>n < length (butlast p). q = base @ take (Suc n) (butlast p)"
  have way: "take (Suc n) (butlast p) = take (Suc n) p" if "n < length (butlast p)" for n
    using that by (intro take_butlast) simp
  have "\<forall>n < length (butlast p). jm_get tree (base @ take (Suc n) (butlast p)) \<in> {None, Some Directory}"
    using assms(2) way by (auto simp: free_for_def)
  from make_dirs_ok [OF this] obtain t where m: "make_dirs base (butlast p) tree = Inr t"
    and g: "\<forall>q. jm_get t q = (if ?dir q then Some Directory else jm_get tree q)"
    by blast
  have short: "\<not> ?dir (base @ p)"
  proof
    assume "?dir (base @ p)"
    then obtain n where "p = take (Suc n) (butlast p)" by auto
    then have "length p = length (take (Suc n) (butlast p))" by (rule arg_cong)
    then show False using assms(1) by (cases p) (auto simp: min_def split: if_splits)
  qed
  have none: "jm_get t (base @ p) = None" using g short assms(2) by (simp add: free_for_def)
  have w: "write_entry base p tree = Inr (jm_set (base @ p) RegularFile t)"
    by (simp add: write_entry_def m none)
  have other: "q \<noteq> p" "take (Suc n) q \<noteq> p" "\<not> ?dir (base @ q)" if "q \<in> set ps" for q n
  proof -
    show "q \<noteq> p" using assms(3) that by (auto simp: prefix_free_def)
    show "take (Suc n) q \<noteq> p"
    proof
      assume e: "take (Suc n) q = p"
      then have "take (length p) q = p" by (metis min_def length_take nat_le_linear take_all take_take)
      then show False using assms(3) that by (auto simp: prefix_free_def)
    qed
    show "\<not> ?dir (base @ q)"
    proof
      assume "?dir (base @ q)"
      then obtain m where "m < length (butlast p)" "q = take (Suc m) p" using way by auto
      then have "take (length q) p = q" by (metis length_take min.absorb2 nat_le_linear take_all take_take)
      then show False using assms(3) that by (auto simp: prefix_free_def)
    qed
  qed
  have "free_for base ps (jm_set (base @ p) RegularFile t)"
    using assms(2) g other by (auto simp: free_for_def)
  moreover have "jm_get (jm_set (base @ p) RegularFile t) q = Some RegularFile" if r: "jm_get tree q = Some RegularFile" for q
  proof -
    have "\<not> ?dir q"
    proof
      assume "?dir q"
      then obtain n where n: "n < length (butlast p)" "q = base @ take (Suc n) (butlast p)" by blast
      then have "n < length p" "q = base @ take (Suc n) p" using way by simp_all
      then show False using assms(2) r by (auto simp: free_for_def)
    qed
    then show ?thesis using g r by auto
  qed
  ultimately show ?thesis using w by simp
qed

definition with_path :: "string list \<times> bytes \<Rightarrow> string \<times> bytes" where
  "with_path f = (join_with ''/'' (fst f), snd f)"

lemma with_path_simps [simp]: "with_path (p, b) = (join_with ''/'' p, b)" "snd (with_path f) = snd f"
  by (simp_all add: with_path_def)

lemma with_path_prod: "with_path = map_prod (join_with ''/'') id"
  by (rule ext) (simp add: with_path_def map_prod_def case_prod_beta)

lemma unpack_packed:
  assumes "prefix_free (map fst fs)" and "list_all (\<lambda>f. plain_path (fst f)) fs" and "free_for base (map fst fs) tree"
    and "sofar + sum_list (map (length \<circ> snd) fs) \<le> maxB"
  shows "\<exists>tree'. unpack_files c (\<lambda>_. None) maxB base sofar (map packed_entry (map with_path fs)) tree = (Inr fs, tree') \<and>
    (\<forall>(p, b) \<in> set fs. jm_get tree' (base @ p) = Some RegularFile) \<and>
    (\<forall>q. jm_get tree q = Some RegularFile \<longrightarrow> jm_get tree' q = Some RegularFile)"
  using assms
proof (induction fs arbitrary: sofar tree)
  case (Cons f fs)
  obtain p b where f: "f = (p, b)" by fastforce
  have pp: "plain_path p" using Cons.prems(2) f by simp
  have ent: "unpack_entry c maxB sofar (packed_entry (join_with ''/'' p, b)) = Inr (p, b)"
    using plain_path_text [OF pp] pp Cons.prems(4) f
    by (simp add: unpack_entry_def packed_entry_def json_field_def buffer_field_def base64_roundtrip Let_def plain_path_def)
  have "\<exists>tree'. write_entry base p tree = Inr tree' \<and> free_for base (map fst fs) tree' \<and> jm_get tree' (base @ p) = Some RegularFile \<and>
      (\<forall>q. jm_get tree q = Some RegularFile \<longrightarrow> jm_get tree' q = Some RegularFile)"
    by (rule write_entry_ok) (use pp Cons.prems f in \<open>auto simp: plain_path_def\<close>)
  then obtain t1 where w: "write_entry base p tree = Inr t1" "free_for base (map fst fs) t1" "jm_get t1 (base @ p) = Some RegularFile"
    and k: "\<And>q. jm_get tree q = Some RegularFile \<Longrightarrow> jm_get t1 q = Some RegularFile" by blast
  have pl: "list_all (\<lambda>f. plain_path (fst f)) fs" using Cons.prems(2) by simp
  have "prefix_free (map fst fs)" using Cons.prems(1) by (auto simp: prefix_free_def)
  moreover have "sofar + length b + sum_list (map (length \<circ> snd) fs) \<le> maxB" using Cons.prems(4) f by (simp add: comp_def)
  ultimately obtain t2 where u: "unpack_files c (\<lambda>_. None) maxB base (sofar + length b)
        (map packed_entry (map with_path fs)) t1 = (Inr fs, t2)"
    "\<forall>(p, b) \<in> set fs. jm_get t2 (base @ p) = Some RegularFile" "\<And>q. jm_get t1 q = Some RegularFile \<Longrightarrow> jm_get t2 q = Some RegularFile"
    using Cons.IH [OF _ pl w(2), of "sofar + length b"] by blast
  then show ?case using w k by (simp add: f ent)
qed simp

text \<open>Sorting the entries keeps the names.\<close>

lemma set_insert_entry: "set (insert_entry before x ys) = insert x (set ys)"
  by (induction ys) auto

lemma sort_entries_set: "set (foldr (insert_entry before) xs []) = set xs"
  by (induction xs) (auto simp: set_insert_entry)

lemma sort_entries_distinct: "distinct (map fst (foldr (insert_entry before) xs [])) = distinct (map fst xs)"
proof -
  have one: "distinct (map fst (insert_entry before x ys)) \<longleftrightarrow> fst x \<notin> fst ` set ys \<and> distinct (map fst ys)" for x :: "string \<times> 'b" and ys
    by (induction ys) (auto simp: set_insert_entry)
  show ?thesis by (induction xs) (simp_all add: one sort_entries_set)
qed

lemma plain_sort: "plain_entry e \<Longrightarrow> plain_entry (sort_dir before e)"
proof (induction e)
  case (EntryDir es)
  then show ?case
    by (auto simp: sort_entries_distinct plain_entries_iff sort_entries_set comp_def)
qed simp_all

text \<open>
  C27. A capture directory of plain names, packed by a requester for a provider's key and unpacked by that provider
  below a directory that does not exist yet, is written back file by file: the same paths and the same bytes.
\<close>

theorem payload_roundtrip:
  assumes "crypto_ok c" and "plain_entry (EntryDir es)" and "wf_json capture"
    and "walkFiles before (EntryDir es) = Inr files" and "length files \<le> 5000"
    and "encrypt_payload c maxRequester r capture files = Inr encrypted" and "total_bytes files \<le> maxProvider"
    and "providerKey c (base64_encode False (cy_export c (cy_public c secret))) = Inr key"
    and "\<forall>p. jm_get tree (base @ p) = None" and "\<forall>n < length base. jm_get tree (take (Suc n) base) \<in> {None, Some Directory}"
  shows "\<exists>tree'. decryptToDirectory c (\<lambda>_. None) undo maxProvider secret encrypted (key_envelope c r key nodeId cid) base
      (cy_sha c encrypted) tree = (Inr (entry_files (sort_dir before (EntryDir es))), tree') \<and>
    (\<forall>(p, b) \<in> set (entry_files (sort_dir before (EntryDir es))). jm_get tree' (base @ p) = Some RegularFile)"
proof -
  define fs where "fs = entry_files (sort_dir before (EntryDir es))"
  have plain: "plain_entry (sort_dir before (EntryDir es))" by (rule plain_sort) (rule assms(2))
  define es' where "es' = foldr (insert_entry before) (map (map_prod id (sort_dir before)) es) []"
  have es': "sort_dir before (EntryDir es) = EntryDir es'" by (simp add: es'_def)
  have files: "files = map with_path fs"
    using visit_files(1) [OF plain, of "[]"] assms(4) by (simp add: walkFiles_def fs_def with_path_prod)
  have pf: "prefix_free (map fst fs)" unfolding fs_def by (rule entry_files_prefix_free(1)) (rule plain)
  have pp: "list_all (\<lambda>f. plain_path (fst f)) fs"
    using entry_files_plain(2) [of es'] plain unfolding fs_def es' by simp
  have key: "key = cy_public c secret"
    using assms(1, 8) by (auto simp: providerKey_def keyObject_def base64_roundtrip crypto_ok_def)
  have enc: "encrypted = seal_payload c r capture files"
    using assms(6) by (auto simp: encrypt_payload_def Let_def split: if_splits)
  have op: "open_payload c secret encrypted (key_envelope c r key nodeId cid) (cy_sha c encrypted) = Inr (map packed_entry files)"
    unfolding enc key using open_sealed [OF assms(1, 3)] assms(5) by simp
  obtain t1 where m: "make_dirs [] base tree = Inr t1"
    and g: "\<forall>q. jm_get t1 q = (if \<exists>n < length base. q = [] @ take (Suc n) base then Some Directory else jm_get tree q)"
    using make_dirs_ok [of base tree "[]"] assms(10) by auto
  have "jm_get t1 (base @ p) = None" if "p \<noteq> []" for p
  proof -
    have "base @ p \<noteq> take (Suc n) base" for n
      using that by (metis append_eq_append_conv_if append_take_drop_id length_take min.cobounded2 append.right_neutral append_eq_conv_conj take_all_iff nat_le_linear take_take min_def)
    then show ?thesis using g assms(9) by simp
  qed
  then have "free_for base (map fst fs) t1"
    using pp by (auto simp: free_for_def list_all_iff plain_path_def)
  then obtain t2 where "unpack_files c (\<lambda>_. None) maxProvider base 0 (map packed_entry files) t1 = (Inr fs, t2)"
    "\<forall>(p, b) \<in> set fs. jm_get t2 (base @ p) = Some RegularFile"
    using unpack_packed [OF pf pp, of base t1 0 maxProvider c] assms(7)
    by (auto simp: files total_bytes_def comp_def)
  then show ?thesis by (simp add: decryptToDirectory_def op m fs_def)
qed

section \<open>Unpacking stays inside\<close>

lemma make_dirs_only:
  "make_dirs current p tree = Inr t \<Longrightarrow> jm_get t q \<noteq> jm_get tree q \<Longrightarrow>
   jm_get tree q = None \<and> jm_get t q = Some Directory \<and> (\<exists>n < length p. q = current @ take (Suc n) p)"
proof (induction p arbitrary: current tree)
  case (Cons a p)
  show ?case
  proof (cases "jm_get tree (current @ [a])")
    case None
    have m: "make_dirs (current @ [a]) p (jm_set (current @ [a]) Directory tree) = Inr t" using Cons.prems(1) None by (simp add: Let_def)
    show ?thesis
    proof (cases "q = current @ [a]")
      case True
      have "jm_get t q = Some Directory"
        using Cons.IH [OF m] True by (cases "jm_get t q = Some Directory") auto
      then show ?thesis using True None by auto
    next
      case False
      then have "jm_get t q \<noteq> jm_get (jm_set (current @ [a]) Directory tree) q" using Cons.prems(2) by simp
      then show ?thesis using Cons.IH [OF m] False by fastforce
    qed
  next
    case (Some x)
    then have m: "make_dirs (current @ [a]) p tree = Inr t"
      using Cons.prems(1) by (auto simp: Let_def split: fs_node.splits)
    show ?thesis using Cons.IH [OF m Cons.prems(2)] by fastforce
  qed
qed simp

lemma write_entry_only:
  assumes "write_entry base p tree = Inr t" and "\<not> below base q" shows "jm_get t q = jm_get tree q"
proof -
  obtain t1 where m: "make_dirs base (butlast p) tree = Inr t1" and t: "t = jm_set (base @ p) RegularFile t1"
    using assms(1) by (auto simp: write_entry_def res_bind_Inr split: if_splits)
  have "jm_get t1 q = jm_get tree q"
    using make_dirs_only [OF m, of q] assms(2) by (cases "jm_get t1 q = jm_get tree q") (auto simp: below_def)
  then show ?thesis using t assms(2) by (auto simp: below_def)
qed

lemma unpack_entry_bounds: "unpack_entry c maxB sofar e = Inr (segs, content) \<Longrightarrow> sofar + length content \<le> maxB \<and> segs \<noteq> [] \<and> ''..'' \<notin> set segs"
proof -
  assume u: "unpack_entry c maxB sofar e = Inr (segs, content)"
  then obtain p where "segs = path_segments (normal_path p)" "\<not> str_includes (normal_path p) ''..''" "segs \<noteq> []" "sofar + length content \<le> maxB"
    by (auto simp: unpack_entry_def res_bind_Inr Let_def split: option.splits json.splits if_splits)
  moreover have "''..'' \<notin> set (path_segments t)" if "\<not> str_includes t ''..''" for t
    using that split_on_infix [of "''..''" "CHR ''/''" t] by (auto simp: path_segments_def str_includes_iff)
  ultimately show ?thesis by simp
qed

lemma unpack_files_only:
  assumes "unpack_files c io maxB base sofar es tree = (r, t)"
  shows "\<not> below base q \<Longrightarrow> jm_get t q = jm_get tree q"
    and "r = Inr ws \<Longrightarrow> sofar \<le> maxB \<Longrightarrow> length ws = length es \<and> sofar + sum_list (map (length \<circ> snd) ws) \<le> maxB \<and>
       list_all (\<lambda>(s, b). s \<noteq> [] \<and> ''..'' \<notin> set s) ws"
  using assms
proof (induction es arbitrary: sofar tree r t ws)
  case (Cons e es)
  {
    case 1
    then show ?case
      using Cons.IH(1) write_entry_only
      by (auto split: sum.splits option.splits prod.splits)
  next
    case 2
    then obtain segs content t1 ws' t2 where u: "unpack_entry c maxB sofar e = Inr (segs, content)"
      and r: "unpack_files c io maxB base (sofar + length content) es t1 = (Inr ws', t2)" and ws: "ws = (segs, content) # ws'"
      by (auto split: sum.splits option.splits prod.splits)
    then show ?case
      using Cons.IH(2) [OF refl _ r] unpack_entry_bounds [OF u] ws by auto
  }
qed simp_all

lemma package_entries_length: "package_entries packed = Inr es \<Longrightarrow> length es \<le> 5000"
  by (auto simp: package_entries_def split: option.splits json.splits if_splits)

lemma get_remove_below: "jm_get (remove_below base tree) q = (if below base q then None else jm_get tree q)"
  by (induction tree) (auto simp: remove_below_def)

lemma open_payload_length: "open_payload c secret encrypted envelope expectedHash = Inr es \<Longrightarrow> length es \<le> 5000"
  by (auto simp: open_payload_def res_bind_Inr split: if_splits option.splits dest!: package_entries_length)

lemma get_undone:
  assumes "undo_unpacking undo base e tree = (e', tree')"
  shows "\<not> below base q \<Longrightarrow> jm_get tree' q = jm_get tree q" "undo = None \<Longrightarrow> below base q \<Longrightarrow> jm_get tree' q = None"
proof -
  have other: "jm_get (filter (\<lambda>(p, _). below base p) left) q = None" if "\<not> below base q" for left
    using that by (induction left) auto
  show "\<not> below base q \<Longrightarrow> jm_get tree' q = jm_get tree q" "undo = None \<Longrightarrow> below base q \<Longrightarrow> jm_get tree' q = None"
    using assms by (auto simp: undo_unpacking_def get_remove_below map_add_def other split: option.splits)
qed

text \<open>The three ways a call ends: refused before it writes, failed while it writes, done.\<close>

lemma decrypt_cases:
  assumes "decryptToDirectory c io undo maxB secret encrypted envelope base expectedHash tree = (r, tree')"
  obtains (refused) e where "r = Inl e" "tree' = tree"
      "case open_payload c secret encrypted envelope expectedHash of Inl e' \<Rightarrow> e = e' | Inr es \<Rightarrow> io (length es) = Some e \<or> make_dirs [] base tree = Inl e"
    | (undone) e es t1 t2 e' where "open_payload c secret encrypted envelope expectedHash = Inr es" "make_dirs [] base tree = Inr t1" "unpack_files c io maxB base 0 es t1 = (Inl e, t2)"
        "r = Inl e'" "undo_unpacking undo base e t2 = (e', tree')"
    | (written) ws es t1 where "make_dirs [] base tree = Inr t1" "unpack_files c io maxB base 0 es t1 = (Inr ws, tree')"
        "r = Inr ws" "length es \<le> 5000"
  using assms unfolding decryptToDirectory_def
  by (auto split: sum.splits prod.splits option.splits dest: open_payload_length)

lemma decrypt_outside:
  assumes "decryptToDirectory c io undo maxB secret encrypted envelope base expectedHash tree = (r, tree')"
    and "\<not> below base q" and "jm_get tree' q \<noteq> jm_get tree q"
  shows "jm_get tree q = None \<and> jm_get tree' q = Some Directory \<and> (\<exists>n < length base. q = take (Suc n) base)"
proof -
  have out: "jm_get tree q = None \<and> jm_get t2 q = Some Directory \<and> (\<exists>n < length base. q = take (Suc n) base)"
    if "make_dirs [] base tree = Inr t1" "unpack_files c io maxB base 0 es t1 = (r2, t2)" "jm_get t2 q \<noteq> jm_get tree q" for es t1 t2 r2
    using make_dirs_only [OF that(1), of q] unpack_files_only(1) [OF that(2) assms(2)] that(3) by auto
  show ?thesis
    using assms(1)
  proof (cases rule: decrypt_cases)
    case undone
    then show ?thesis using out [OF undone(2, 3)] get_undone(1) [OF undone(5) assms(2)] assms(3) by simp
  next
    case written
    then show ?thesis using out [OF written(1, 2)] assms(3) by simp
  qed (use assms(3) in simp)
qed

text \<open>No symbolic link at, above or below the directory.\<close>

definition no_links :: "string list \<Rightarrow> path_tree \<Rightarrow> bool" where
  "no_links base tree \<longleftrightarrow> list_all (\<lambda>(q, node). node = SymbolicLink \<longrightarrow> \<not> below base q \<and> q \<notin> set (map (\<lambda>n. take (Suc n) base) [0..<length base])) tree"

text \<open>
  C28. Whatever bytes, key envelope and hash a requester supplies and whichever calls of the file system fail, on a tree without symbolic links at, above or
  below the job's directory: unpacking changes nothing outside that directory but to create the directories above it. A package that is accepted has at most
  5000 files, none with a parent segment, and at most the limit of bytes. If unpacking fails, then either the package does not open or the directory cannot be
  made, and the tree is as it was; or nothing is left in the directory; or the removal of the directory failed itself, and its error is the one reported.
\<close>

theorem unpacking_confined:
  assumes run: "decryptToDirectory c io undo maxInputBytes secret encrypted envelope base expectedHash tree = (r, tree')" and "no_links base tree"
  shows "(\<forall>q. \<not> below base q \<longrightarrow> jm_get tree' q \<noteq> jm_get tree q \<longrightarrow>
      jm_get tree q = None \<and> jm_get tree' q = Some Directory \<and> (\<exists>n < length base. q = take (Suc n) base)) \<and>
    (case r of
       Inr ws \<Rightarrow> length ws \<le> 5000 \<and> sum_list (map (length \<circ> snd) ws) \<le> maxInputBytes \<and>
         list_all (\<lambda>(s, b). s \<noteq> [] \<and> ''..'' \<notin> set s) ws
     | Inl e \<Rightarrow>
         (case open_payload c secret encrypted envelope expectedHash of
            Inl e' \<Rightarrow> e = e' \<and> tree' = tree
          | Inr es \<Rightarrow> tree' = tree \<and> (io (length es) = Some e \<or> make_dirs [] base tree = Inl e) \<or>
              (case undo of None \<Rightarrow> \<forall>q. below base q \<longrightarrow> jm_get tree' q = None | Some (e', _) \<Rightarrow> e = e')))"
proof (intro conjI allI impI)
  show "case r of Inr ws \<Rightarrow> length ws \<le> 5000 \<and> sum_list (map (length \<circ> snd) ws) \<le> maxInputBytes \<and>
         list_all (\<lambda>(s, b). s \<noteq> [] \<and> ''..'' \<notin> set s) ws
     | Inl e \<Rightarrow>
         (case open_payload c secret encrypted envelope expectedHash of
            Inl e' \<Rightarrow> e = e' \<and> tree' = tree
          | Inr es \<Rightarrow> tree' = tree \<and> (io (length es) = Some e \<or> make_dirs [] base tree = Inl e) \<or>
              (case undo of None \<Rightarrow> \<forall>q. below base q \<longrightarrow> jm_get tree' q = None | Some (e', _) \<Rightarrow> e = e'))"
    using run
  proof (cases rule: decrypt_cases)
    case (written ws es t1)
    then show ?thesis using unpack_files_only(2) [OF written(2) refl] by auto
  next
    case (undone e es t1 t2 e')
    then show ?thesis using get_undone(2) [OF undone(5)] by (auto simp: undo_unpacking_def split: option.split)
  qed (auto split: sum.splits)
qed (use decrypt_outside [OF run] in blast)+

text \<open>A capture of the largest number of files has one more on disk, its \<^verbatim>\<open>capture.json\<close>: it can be packed and
  submitted, and the provider refuses it.\<close>

lemma full_capture_refused:
  assumes "crypto_ok c" and "wf_json capture" and "length files = 5001" and "encrypt_payload c maxB r capture files = Inr encrypted"
  shows "fst (decryptToDirectory c io undo maxP secret encrypted (key_envelope c r (cy_public c secret) node cid) base
      (cy_sha c encrypted) tree) = Inl (LocalError 422 ''private_capture_package_invalid'')"
proof -
  have "encrypted = seal_payload c r capture files"
    using assms(4) by (auto simp: encrypt_payload_def Let_def split: if_splits)
  then show ?thesis using open_sealed [OF assms(1, 2), of secret r files node cid] assms(3) by (simp add: decryptToDirectory_def)
qed

section \<open>An instance\<close>

text \<open>Primitives that satisfy what is asked of them, for the examples: no secrecy, only the laws.\<close>

definition plain_crypto :: payload_crypto where
  "plain_crypto = \<lparr>cy_sha = (\<lambda>_. ''h''), cy_gzip = id, cy_gunzip = Inr, cy_seal = (\<lambda>_ _ _ x. (x, [])), cy_open = (\<lambda>_ _ _ _ x. Inr x),
     cy_hkdf = (\<lambda>_ _ _. []), cy_public = id, cy_dh = (\<lambda>_ _. []), cy_export = id, cy_import = (\<lambda>b. Inr (''x25519'', b)),
     cy_bufferFrom = (\<lambda>_. Inl (PlainError ''TypeError''))\<rparr>"

definition sample_capture :: dir_entry where
  "sample_capture = EntryDir [(''capture.json'', EntryFile [123, 125]), (''rgb'', EntryDir [(''1.jpg'', EntryFile [7])])]"

definition sample_random :: payload_random where
  "sample_random = \<lparr>pr_dataKey = [1], pr_payloadIv = [2], pr_ephemeral = [3], pr_salt = [4], pr_wrapIv = [5]\<rparr>"

lemma plain_crypto_ok: "crypto_ok plain_crypto"
  by (simp add: crypto_ok_def plain_crypto_def)

definition sample_files :: "(string \<times> bytes) list" where
  "sample_files = [(''capture.json'', [123, 125]), (''rgb/1.jpg'', [7])]"

lemma sample_walk: "walkFiles (\<lambda>_ _. False) sample_capture = Inr sample_files"
  by (simp add: walkFiles_def sample_capture_def sample_files_def forward_slashes_def starts_with_def char_of_def)

lemma sample_plain: "plain_entry sample_capture"
  by (simp add: sample_capture_def plain_name_def starts_with_def char_of_def)

theorem payload_roundtrip_witness:
  "\<exists>tree'. decryptToDirectory plain_crypto (\<lambda>_. None) None 3 [9]
      (seal_payload plain_crypto sample_random (JObj []) sample_files) (key_envelope plain_crypto sample_random [9] ''node'' ''cid'')
      [''private''] ''h'' [] = (Inr [([''capture.json''], [123, 125]), ([''rgb'', ''1.jpg''], [7])], tree')"
proof -
  let ?e = "seal_payload plain_crypto sample_random (JObj []) sample_files"
  have e: "encrypt_payload plain_crypto (3 + length ?e) sample_random (JObj []) sample_files = Inr ?e"
    by (simp add: encrypt_payload_def total_bytes_def sample_files_def)
  have f: "entry_files (sort_dir (\<lambda>_ _. False) sample_capture) = [([''capture.json''], [123, 125]), ([''rgb'', ''1.jpg''], [7])]"
    by (simp add: sample_capture_def)
  have k: "providerKey plain_crypto (base64_encode False (cy_export plain_crypto (cy_public plain_crypto [9]))) = Inr [9]"
    by (simp add: providerKey_def keyObject_def base64_roundtrip plain_crypto_def)
  have h: "cy_sha plain_crypto x = ''h''" for x by (simp add: plain_crypto_def)
  show ?thesis
    using payload_roundtrip [OF plain_crypto_ok sample_plain [unfolded sample_capture_def], where capture = "JObj []" and maxProvider = 3
        and r = sample_random and tree = "[]" and base = "[''private'']" and nodeId = "''node''" and cid = "''cid''" and encrypted = ?e
        and before = "\<lambda>_ _. False" and undo = None and files = sample_files and maxRequester = "3 + length ?e" and secret = "[9]" and key = "[9]",
        folded sample_capture_def] sample_walk e f k
    by (auto simp: h sample_files_def total_bytes_def)
qed

text \<open>A package of two files over the limit: the first file is written, the second refused, and the directory is removed. The removal may fail as well.\<close>

definition sample_unpacked :: "nat \<Rightarrow> (node_error \<times> path_tree) option \<Rightarrow> (string list \<times> bytes) list result \<times> path_tree" where
  "sample_unpacked limit undo = decryptToDirectory plain_crypto (\<lambda>_. None) undo limit [9]
     (seal_payload plain_crypto sample_random (JObj []) sample_files) (key_envelope plain_crypto sample_random [9] ''node'' ''cid'') [''private''] ''h'' [([''etc''], Directory)]"

lemma sample_opened:
  "open_payload plain_crypto [9] (seal_payload plain_crypto sample_random (JObj []) sample_files) (key_envelope plain_crypto sample_random [9] ''node'' ''cid'') ''h'' =
     Inr (map packed_entry sample_files)"
proof -
  have "cy_sha plain_crypto x = ''h''" for x by (simp add: plain_crypto_def)
  moreover have "cy_public plain_crypto [9] = [9]" by (simp add: plain_crypto_def)
  ultimately show ?thesis using open_sealed [OF plain_crypto_ok, of "JObj []" "[9]" sample_random sample_files "''node''" "''cid''"] by (simp add: sample_files_def)
qed

lemma sample_failure:
  "make_dirs [] [''private''] [([''etc''], Directory)] = Inr [([''etc''], Directory), ([''private''], Directory)]"
  "unpack_files plain_crypto (\<lambda>_. None) 2 [''private''] 0 (map packed_entry sample_files) [([''etc''], Directory), ([''private''], Directory)] =
     (Inl (LocalError 413 ''private_capture_expansion_limit''), [([''etc''], Directory), ([''private''], Directory), ([''private'', ''capture.json''], RegularFile)])"
  by code_simp+

lemma sample_unpacked_result: "fst (sample_unpacked 2 None) = Inl (LocalError 413 ''private_capture_expansion_limit'')"
  by (simp add: sample_unpacked_def decryptToDirectory_def sample_opened sample_failure undo_unpacking_def)

theorem unpacking_confined_witness:
  "fst (sample_unpacked 2 None) = Inl (LocalError 413 ''private_capture_expansion_limit'') \<and>
   jm_get (snd (sample_unpacked 2 None)) [''private'', ''capture.json''] = None \<and> jm_get (snd (sample_unpacked 2 None)) [''etc''] = Some Directory"
proof -
  have links: "no_links [''private''] [([''etc''], Directory)]" by (simp add: no_links_def)
  note confined = unpacking_confined [OF prod.collapse [symmetric] links, of plain_crypto "\<lambda>_. None" None 2 "[9]"
      "seal_payload plain_crypto sample_random (JObj []) sample_files" "key_envelope plain_crypto sample_random [9] ''node'' ''cid''" "''h''",
      folded sample_unpacked_def]
  have out: "\<not> below [''private''] [''etc'']" and there: "jm_get [([''etc''], Directory)] [''etc''] = Some Directory" by (simp_all add: below_def)
  have "jm_get (snd (sample_unpacked 2 None)) [''etc''] = jm_get [([''etc''], Directory)] [''etc'']"
    using confined [THEN conjunct1] out there by (metis option.distinct(1))
  then have "jm_get (snd (sample_unpacked 2 None)) [''etc''] = Some Directory" using there by (simp only:)
  moreover have "jm_get (snd (sample_unpacked 2 None)) [''private'', ''capture.json''] = None"
    using confined [THEN conjunct2] unfolding sample_unpacked_result sample_opened sample_failure(1) by (simp add: below_def)
  ultimately show ?thesis using sample_unpacked_result by blast
qed

end
