(* ===== verification/Job_Runtime.thy ===== *)
theory Job_Runtime
  imports Job_Cleanup
begin

text \<open>
  The job runtime, \<^verbatim>\<open>src/src/jobs/jobRuntime.ts\<close>. A run is an asynchronous method with about twenty
  points at which it waits; anything may happen between two of them. A task therefore is a program
  counter with the local variables of \<^verbatim>\<open>run\<close>, and \<open>segment\<close> executes what lies between two waits:
  the outcome of the call it waited for, then the code up to the next one. What the gate, the
  capability registry, the capture store, the worker, Kubo and the pins answer is in \<open>run_env\<close>; the
  effects of importing outputs on Kubo and on the pins are those of \<open>Managed_Pins\<close> and are not
  repeated here. The dispatch loop is a partial function: whether it returns is a matter of proof.
\<close>

section \<open>Model\<close>

datatype run_pc = AwaitGate | AwaitCapabilities | AwaitOwn | AwaitHealth | AwaitMkdir | AwaitPatchRunning | AwaitDataset | AwaitPatchDataset
  | AwaitPatchStarting | AwaitPatchTraining | AwaitIssue | AwaitMark | AwaitProcess | AwaitPatchImporting | AwaitImport
  | AwaitPatchCompleted | AwaitPatchFailed | AwaitCleanup | RunSettled

record job_task =
  tk_pc :: run_pc
  tk_capture :: "capture_record option"
  tk_instance :: string
  tk_dataset :: "nat \<times> nat"
  tk_output :: json
  tk_spatial :: string
  tk_aborted :: bool
  tk_error :: "string option \<times> string"

definition new_task :: job_task where
  "new_task = \<lparr>tk_pc = AwaitGate, tk_capture = None, tk_instance = [], tk_dataset = (0, 0), tk_output = JNull, tk_spatial = [],
     tk_aborted = False, tk_error = (None, [])\<rparr>"

record runtime_world = job_world +
  rw_running :: "(string, bool) jsmap"
  rw_tasks :: "(string, job_task) jsmap"
  rw_dispatching :: bool

record runtime_config =
  rc_workerUrl :: bool
  rc_capabilities :: bool
  rc_concurrency :: nat

record import_env =
  im_id :: string
  im_stat :: "nat \<Rightarrow> nat result"
  im_add :: "nat \<Rightarrow> string option result"
  im_acquire :: "nat \<Rightarrow> unit result"
  im_addManifest :: "string option result"
  im_acquireManifest :: "unit result"

record run_env =
  re_id :: string
  re_now :: int
  re_tx :: tx_env
  re_call :: "unit result"
  re_gate :: "unit result"
  re_workerReady :: "bool \<times> string option"
  re_capture :: "capture_record result"
  re_inspect :: "package_report result"
  re_health :: "(bool \<times> int \<times> string) result"
  re_dataset :: "(nat \<times> nat) result"
  re_process :: "(nat \<times> json) result"
  re_import :: import_env
  re_cleanup :: cleanup_env

definition capabilityFor :: "job_type \<Rightarrow> string" where
  "capabilityFor type = (if type = Reconstruct then ''spatial.reconstruction'' else ''spatial.optimization'')"

definition durationOf :: "local_job \<Rightarrow> int option" where
  "durationOf job = (case (jb_startedAt job, jb_completedAt job) of (Some a, Some b) \<Rightarrow> Some (b - a) | _ \<Rightarrow> None)"

definition list_jobs :: "('a job_world_scheme) \<Rightarrow> local_job list" where
  "list_jobs w = sort_key (\<lambda>job. - jb_createdAt job) (jm_values (js_jobs (jobs_of w)))"

definition get_job :: "string \<Rightarrow> (local_job, 'a job_world_scheme) comp" where
  "get_job i =
     andThen (reads (\<lambda>w. jm_get (js_jobs (jobs_of w)) i)) (\<lambda>job.
       case job of None \<Rightarrow> throw (localError 404 ''job_not_found'') | Some j \<Rightarrow> ret j)"

definition state_of :: "string \<Rightarrow> ('a job_world_scheme) \<Rightarrow> job_state option" where
  "state_of i w = map_option jb_state (jm_get (js_jobs (jobs_of w)) i)"

definition schedule :: "runtime_world \<Rightarrow> runtime_world" where
  "schedule w = w\<lparr>rw_dispatching := True\<rparr>"

subsection \<open>Creation\<close>

definition parse_type :: "string \<Rightarrow> job_type option" where
  "parse_type t = (if t = ''spatial.reconstruct'' then Some Reconstruct else if t = ''spatial.optimize'' then Some Optimize
     else if t = ''spatial.generate_preview'' then Some GeneratePreview else None)"

definition reconstructs :: "string \<Rightarrow> local_job \<Rightarrow> bool" where
  "reconstructs captureId job \<longleftrightarrow> jb_type job = Reconstruct \<and> json_field (Some (jb_input job)) ''captureId'' = Some (JStr captureId) \<and> active_job job"

definition activeReconstruction :: "(string, local_job) jsmap \<Rightarrow> string \<Rightarrow> local_job option" where
  "activeReconstruction jobs captureId = find (reconstructs captureId) (jm_values jobs)"

definition queued_job :: "run_env \<Rightarrow> job_type \<Rightarrow> json \<Rightarrow> local_job" where
  "queued_job env type input =
     \<lparr>jb_id = re_id env, jb_type = type, jb_capability = capabilityFor type, jb_state = Queued, jb_stage = StQueued, jb_progress = Some 0,
      jb_input = input, jb_output = None, jb_error = None, jb_createdAt = re_now env, jb_updatedAt = re_now env,
      jb_startedAt = None, jb_completedAt = None, jb_logs = [(re_now env, ''info'', ''Job queued'')]\<rparr>"

definition existing_for :: "string option \<Rightarrow> jobs_state \<Rightarrow> local_job option" where
  "existing_for captureId s = (case captureId of None \<Rightarrow> None | Some c \<Rightarrow> activeReconstruction (js_jobs s) c)"

definition insert_job :: "run_env \<Rightarrow> job_type \<Rightarrow> json \<Rightarrow> string option \<Rightarrow> (local_job, runtime_world) comp" where
  "insert_job env type input captureId =
     (let job = queued_job env type input in
      andThen (reads (\<lambda>w. existing_for captureId (jobs_of w))) (\<lambda>existing.
      andThen (jobs_update (re_tx env) (\<lambda>s. Inr (if existing_for captureId s = None then s\<lparr>js_jobs := jm_set (jb_id job) job (js_jobs s)\<rparr> else s))) (\<lambda>_.
        case existing of Some j \<Rightarrow> ret j | None \<Rightarrow> andThen (writes schedule) (\<lambda>_. ret job))))"

definition create_job :: "run_env \<Rightarrow> string \<Rightarrow> json \<Rightarrow> (local_job, runtime_world) comp" where
  "create_job env type input =
     andThen (reads (\<lambda>w. list_ex (\<lambda>(_, c). cl_state c = Blocked) (js_cleanup (jobs_of w)))) (\<lambda>blocked.
       if blocked then throw (localError 409 ''worker_cleanup_pending'')
       else andThen (if json_falsy (json_field (Some input) ''remoteComputeJobId'') then ret () else of_result (re_gate env)) (\<lambda>_.
         case parse_type type of
           None \<Rightarrow> throw (localError 400 ''job_type_unsupported'')
         | Some t \<Rightarrow>
             (case as_string (json_field (Some input) ''captureId'') of
                None \<Rightarrow> throw (localError 400 ''job_capture_required'')
              | Some captureId \<Rightarrow>
                  if captureId = [] then throw (localError 400 ''job_capture_required'')
                  else andThen (of_result (re_capture env)) (\<lambda>_.
                    if t \<noteq> Reconstruct then insert_job env t input None
                    else andThen (reads (\<lambda>w. activeReconstruction (js_jobs (jobs_of w)) captureId)) (\<lambda>active.
                      case active of
                        Some j \<Rightarrow> ret j
                      | None \<Rightarrow>
                          andThen (of_result (re_inspect env)) (\<lambda>inspection.
                            if \<not> rp_ok inspection then throw (localError 422 (problem_code (the (rp_code inspection))))
                            else insert_job env t input (Some captureId)))))))"

subsection \<open>Cancellation\<close>

definition finished :: "local_job \<Rightarrow> bool" where
  "finished job \<longleftrightarrow> jb_state job \<in> {Completed, Failed, Cancelled}"

definition log_line :: "int \<Rightarrow> string \<Rightarrow> string \<Rightarrow> local_job \<Rightarrow> local_job" where
  "log_line now level message job = job\<lparr>jb_logs := jb_logs job @ [(now, level, message)]\<rparr>"

definition mark_cancelled :: "int \<Rightarrow> local_job \<Rightarrow> local_job" where
  "mark_cancelled now job =
     log_line now ''warn'' ''Job cancelled''
       (job\<lparr>jb_state := Cancelled, jb_stage := StCancelled, jb_completedAt := Some now, jb_updatedAt := now\<rparr>)"

definition cancel_record :: "int \<Rightarrow> string \<Rightarrow> jobs_state \<Rightarrow> jobs_state result" where
  "cancel_record now i s =
     Inr (case jm_get (js_jobs s) i of
            None \<Rightarrow> s
          | Some job \<Rightarrow> if finished job then s else s\<lparr>js_jobs := jm_set i (mark_cancelled now job) (js_jobs s)\<rparr>)"

definition abort_run :: "string \<Rightarrow> runtime_world \<Rightarrow> runtime_world" where
  "abort_run i w = (if jm_has (rw_running w) i then w\<lparr>rw_running := jm_set i True (rw_running w)\<rparr> else w)"

text \<open>Up to the wait for the task.\<close>

definition cancel_job :: "run_env \<Rightarrow> string \<Rightarrow> (local_job, runtime_world) comp" where
  "cancel_job env i =
     andThen (get_job i) (\<lambda>job.
       if finished job then get_job i
       else andThen (jobs_update (re_tx env) (cancel_record (re_now env) i)) (\<lambda>_.
            andThen (writes (abort_run i)) (\<lambda>_. get_job i)))"

subsection \<open>Changes of a running job\<close>

definition patch_record :: "string \<Rightarrow> (local_job \<Rightarrow> local_job) \<Rightarrow> jobs_state \<Rightarrow> jobs_state result" where
  "patch_record i mutate s =
     (case jm_get (js_jobs s) i of
        None \<Rightarrow> Inl (localError 404 ''job_not_found'')
      | Some job \<Rightarrow>
          if jb_state job = Cancelled then Inl (localError 409 ''job_cancelled'')
          else Inr (s\<lparr>js_jobs := jm_set i (mutate job) (js_jobs s)\<rparr>))"

definition patchJob :: "run_env \<Rightarrow> string \<Rightarrow> (local_job \<Rightarrow> local_job) \<Rightarrow> (unit, 'a job_world_scheme) comp" where
  "patchJob env i mutate = jobs_update (re_tx env) (patch_record i mutate)"

definition mark_running :: "int \<Rightarrow> local_job \<Rightarrow> local_job" where
  "mark_running now job = log_line now ''info'' ''Preparing dataset from capture''
     (job\<lparr>jb_state := Running, jb_stage := StPreparing, jb_progress := Some 5, jb_startedAt := Some now, jb_updatedAt := now\<rparr>)"

definition dataset_message :: "nat \<times> nat \<Rightarrow> string" where
  "dataset_message d = ''Dataset ready: '' @ digits_of (fst d) @ '' view(s)'' @
     (if snd d = 0 then [] else '', '' @ digits_of (snd d) @ '' frame(s) dropped as unusable'')"

definition mark_starting :: "int \<Rightarrow> local_job \<Rightarrow> local_job" where
  "mark_starting now job = log_line now ''info'' ''Starting spatial worker'' (job\<lparr>jb_stage := StStarting, jb_progress := Some 15, jb_updatedAt := now\<rparr>)"

definition mark_training :: "int \<Rightarrow> local_job \<Rightarrow> local_job" where
  "mark_training now job = log_line now ''info'' ''Training (this can take a while; progress is not reported mid-run by this worker version)''
     (job\<lparr>jb_stage := StTraining, jb_progress := None, jb_updatedAt := now\<rparr>)"

definition mark_importing :: "int \<Rightarrow> local_job \<Rightarrow> local_job" where
  "mark_importing now job = log_line now ''info'' ''Importing spatial output into local Kubo''
     (job\<lparr>jb_stage := StImporting, jb_progress := Some 90, jb_updatedAt := now\<rparr>)"

definition mark_completed :: "int \<Rightarrow> string \<Rightarrow> local_job \<Rightarrow> local_job" where
  "mark_completed now spatial job = log_line now ''info'' ''Spatial outputs imported into local Kubo''
     (job\<lparr>jb_state := Completed, jb_stage := StCompleted, jb_progress := Some 100, jb_output := Some spatial,
          jb_completedAt := Some now, jb_updatedAt := now\<rparr>)"

definition mark_failed :: "int \<Rightarrow> bool \<Rightarrow> string option \<times> string \<Rightarrow> local_job \<Rightarrow> local_job" where
  "mark_failed now aborted e job = log_line now (if aborted then ''warn'' else ''error'') (snd e)
     (job\<lparr>jb_state := (if aborted then Cancelled else Failed), jb_stage := (if aborted then StCancelled else StFailed),
          jb_error := Some (case fst e of Some c \<Rightarrow> c | None \<Rightarrow> if aborted then ''cancelled'' else ''job_failed'', snd e),
          jb_completedAt := Some now, jb_updatedAt := now\<rparr>)"

subsection \<open>Importing the output of the worker\<close>

definition path_extname :: "string \<Rightarrow> string" where
  "path_extname p =
     (let base = last (split_on CHR ''/'' (rev (dropWhile (\<lambda>c. c = CHR ''/'') (rev p))));
          ext = rev (takeWhile (\<lambda>c. c \<noteq> CHR ''.'') (rev base));
          stem = rev (tl (dropWhile (\<lambda>c. c \<noteq> CHR ''.'') (rev base)))
      in if CHR ''.'' \<notin> set base \<or> stem = [] \<or> base = ''..'' then [] else CHR ''.'' # ext)"

definition mime_rest :: "char \<Rightarrow> bool" where
  "mime_rest c \<longleftrightarrow> is_alnum c \<or> c \<in> set ''.+-''"

definition valid_mime :: "string \<Rightarrow> bool" where
  "valid_mime m \<longleftrightarrow> (\<exists>p \<in> set [''application/'', ''model/'']. take (length p) (to_lower m) = p \<and>
     length p < length m \<and> list_all mime_rest (drop (length p) m))"

definition valid_variant :: "json \<Rightarrow> bool" where
  "valid_variant item \<longleftrightarrow>
     json_field (Some item) ''role'' \<in> Some ` JStr ` {''spatial_preview'', ''spatial_mobile'', ''spatial_archive'', ''model3d''} \<and>
     json_field (Some item) ''storageClass'' \<in> Some ` JStr ` {''hot'', ''warm'', ''cold''} \<and>
     (case (as_string (json_field (Some item) ''format''), as_string (json_field (Some item) ''mimeType''), as_string (json_field (Some item) ''path'')) of
        (Some f, Some m, Some p) \<Rightarrow> valid_mime m \<and> to_lower (tl (path_extname p)) = to_lower f
      | _ \<Rightarrow> False)"

fun validate_variants :: "path_tree \<Rightarrow> string list \<Rightarrow> json list \<Rightarrow> (json \<times> string list) list result" where
  "validate_variants tree root [] = Inr []"
| "validate_variants tree root (item # items) =
     (if \<not> valid_variant item then Inl (PlainError ''worker_output_variant_invalid'')
      else case resolveWorkerOutputFile tree root (json_field (Some item) ''path'') of
             Inl e \<Rightarrow> Inl e
           | Inr target \<Rightarrow> map_sum id (\<lambda>rest. (item, target) # rest) (validate_variants tree root items))"

fun add_variants :: "import_env \<Rightarrow> nat \<Rightarrow> (json \<times> string list) list \<Rightarrow> (string \<times> string \<times> nat) list result" where
  "add_variants env k [] = Inr []"
| "add_variants env k ((item, target) # rest) =
     (case im_stat env k of
        Inl e \<Rightarrow> Inl e
      | Inr sizeBytes \<Rightarrow>
          (case im_add env k of
             Inl e \<Rightarrow> Inl e
           | Inr h \<Rightarrow>
               if h \<in> {None, Some []} then Inl (PlainError ''kubo_add_missing_cid'')
               else (case im_acquire env k of
                      Inl e \<Rightarrow> Inl e
                    | Inr _ \<Rightarrow> map_sum id (\<lambda>vs. (str_field (json_field (Some item) ''role''), the h, sizeBytes) # vs) (add_variants env (Suc k) rest))))"

text \<open>\<^verbatim>\<open>validateSpatialManifest\<close> on the manifest built here; schema and type are constants.\<close>

definition validateSpatialManifest ::
  "string \<Rightarrow> string \<Rightarrow> string \<Rightarrow> json option \<Rightarrow> json option \<Rightarrow> (string \<times> string \<times> nat) list \<Rightarrow> json list \<Rightarrow> unit result" where
  "validateSpatialManifest i artworkId captureId capturedAt processing variants items =
     (let reconstruction = json_field processing ''reconstruction'' in
      if i = [] \<or> artworkId = [] \<or> captureId = [] \<or> json_falsy capturedAt then Inl (PlainError ''spatial_manifest_required_field_missing'')
      else if json_field processing ''protocol'' \<noteq> Some (JStr ''kubus.spatial-job/1'') \<or> json_falsy (json_field processing ''workerVersion'')
      then Inl (PlainError ''spatial_manifest_processing_invalid'')
      else if json_field reconstruction ''engine'' \<noteq> Some (JStr ''nerfstudio'') \<or> json_field reconstruction ''method'' \<noteq> Some (JStr ''splatfacto'') \<or>
              (case as_integer (json_field reconstruction ''iterations'') of None \<Rightarrow> True | Some n \<Rightarrow> n \<le> 0 \<or> n > 9007199254740991) \<or>
              json_falsy (json_field reconstruction ''outputFormat'')
      then Inl (PlainError ''spatial_manifest_reconstruction_invalid'')
      else if variants = [] then Inl (PlainError ''spatial_manifest_variants_required'')
      else if list_ex (\<lambda>(role, cid, n). cid = [] \<or> n > 9007199254740991) variants \<or>
              list_ex (\<lambda>item. json_falsy (json_field (Some item) ''mimeType'') \<or> json_falsy (json_field (Some item) ''format'')) items
      then Inl (PlainError ''spatial_manifest_variant_invalid'')
      else Inr ())"

definition importOutputs :: "import_env \<Rightarrow> path_tree \<Rightarrow> string list \<Rightarrow> local_job \<Rightarrow> capture_record \<Rightarrow> json \<Rightarrow> (string \<times> spatial_record) result" where
  "importOutputs env tree root job capture out =
     (case json_field (Some out) ''variants'' of
        Some (JArr (v # vs)) \<Rightarrow>
          if length (v # vs) > 16 then Inl (PlainError ''worker_output_variant_limit'')
          else (case validate_variants tree root (v # vs) of
             Inl e \<Rightarrow> Inl e
           | Inr validated \<Rightarrow>
               (case add_variants env 0 validated of
                  Inl e \<Rightarrow> Inl e
                | Inr variants \<Rightarrow>
                    (let artworkId = (if json_falsy (json_field (Some (jb_input job)) ''artworkId'') then str_field (ca_artworkId capture)
                                      else str_field (json_field (Some (jb_input job)) ''artworkId'')) in
                     if artworkId = [] then Inl (PlainError ''spatial_artwork_required'')
                     else case validateSpatialManifest (im_id env) artworkId (ca_id capture) (ca_capturedAt capture)
                              (json_field (Some out) ''processing'') variants (v # vs) of
                            Inl e \<Rightarrow> Inl e
                          | Inr _ \<Rightarrow>
                              (case im_addManifest env of
                                 Inl e \<Rightarrow> Inl e
                               | Inr h \<Rightarrow>
                                   if h \<in> {None, Some []} then Inl (PlainError ''kubo_add_manifest_missing_cid'')
                                   else map_sum id (\<lambda>_. (im_id env, \<lparr>sp_manifestCid = the h, sp_variants = variants, sp_artworkId = artworkId,
                                          sp_captureId = ca_id capture, sp_pinOwner = ''spatial:'' @ im_id env\<rparr>)) (im_acquireManifest env)))))
      | _ \<Rightarrow> Inl (LocalError 0 ''worker_output_invalid''))"

subsection \<open>The segments of a run\<close>

definition failure_of :: "node_error \<Rightarrow> string option \<times> string" where
  "failure_of e = (case e of LocalError _ c \<Rightarrow> (Some c, c) | PlainError m \<Rightarrow> (None, m))"

definition aborted :: "string \<Rightarrow> runtime_world \<Rightarrow> bool" where
  "aborted i w \<longleftrightarrow> jm_get (rw_running w) i = Some True"

definition stopped :: "string \<Rightarrow> runtime_world \<Rightarrow> bool" where
  "stopped i w \<longleftrightarrow> aborted i w \<or> state_of i w = Some Cancelled"

text \<open>The \<^verbatim>\<open>catch\<close> up to its wait. A job that no longer exists makes \<^verbatim>\<open>get\<close> throw, and only the \<^verbatim>\<open>finally\<close>
  is left.\<close>

definition fail_run :: "string \<Rightarrow> string option \<times> string \<Rightarrow> runtime_world \<Rightarrow> job_task \<Rightarrow> job_task" where
  "fail_run i e w t =
     (if state_of i w \<in> {None, Some Cancelled} then t\<lparr>tk_pc := AwaitCleanup\<rparr>
      else t\<lparr>tk_pc := AwaitPatchFailed, tk_aborted := aborted i w, tk_error := e\<rparr>)"

definition after_capabilities :: "run_env \<Rightarrow> string \<Rightarrow> runtime_world \<Rightarrow> job_task \<Rightarrow> job_task" where
  "after_capabilities env i w t =
     (if stopped i w then t\<lparr>tk_pc := AwaitCleanup\<rparr>
      else case re_capture env of
             Inl e \<Rightarrow> fail_run i (failure_of e) w t
           | Inr capture \<Rightarrow> t\<lparr>tk_pc := AwaitOwn, tk_capture := Some capture\<rparr>)"

definition after_gate :: "runtime_config \<Rightarrow> run_env \<Rightarrow> string \<Rightarrow> runtime_world \<Rightarrow> job_task \<Rightarrow> job_task" where
  "after_gate cfg env i w t =
     (if \<not> rc_workerUrl cfg then fail_run i (Some ''worker_unavailable'', ''Spatial worker is not configured'') w t
      else if rc_capabilities cfg then t\<lparr>tk_pc := AwaitCapabilities\<rparr>
      else after_capabilities env i w t)"

text \<open>What \<^verbatim>\<open>run\<close> does before its first wait.\<close>

definition run_start :: "runtime_config \<Rightarrow> run_env \<Rightarrow> local_job \<Rightarrow> runtime_world \<Rightarrow> job_task" where
  "run_start cfg env job w =
     (if json_falsy (json_field (Some (jb_input job)) ''remoteComputeJobId'') then after_gate cfg env (jb_id job) w new_task else new_task)"

text \<open>A transaction of the run: its outcome decides where the run goes on.\<close>

definition transacted :: "string \<Rightarrow> (unit, runtime_world) comp \<Rightarrow> (runtime_world \<Rightarrow> job_task \<Rightarrow> job_task) \<Rightarrow> job_task \<Rightarrow> runtime_world \<Rightarrow> job_task \<times> runtime_world" where
  "transacted i m onOk t w =
     (case m w of (Inl e, w1) \<Rightarrow> (fail_run i (failure_of e) w1 t, w1) | (Inr _, w1) \<Rightarrow> (onOk w1 t, w1))"

definition goto :: "run_pc \<Rightarrow> runtime_world \<Rightarrow> job_task \<Rightarrow> job_task" where
  "goto pc w t = t\<lparr>tk_pc := pc\<rparr>"

definition unless_stopped :: "string \<Rightarrow> run_pc \<Rightarrow> runtime_world \<Rightarrow> job_task \<Rightarrow> job_task" where
  "unless_stopped i pc w t = t\<lparr>tk_pc := (if stopped i w then AwaitCleanup else pc)\<rparr>"

definition job_at :: "string \<Rightarrow> runtime_world \<Rightarrow> local_job option" where
  "job_at i w = jm_get (js_jobs (jobs_of w)) i"

definition after_running :: "string \<Rightarrow> runtime_world \<Rightarrow> job_task \<Rightarrow> job_task" where
  "after_running i w t = t\<lparr>tk_pc := (if map_option jb_type (job_at i w) = Some Reconstruct then AwaitDataset else AwaitPatchStarting)\<rparr>"

definition make_output_dir :: "string \<Rightarrow> runtime_world \<Rightarrow> runtime_world" where
  "make_output_dir i w = w\<lparr>jw_tree := fold (\<lambda>p tree. if jm_has tree p then tree else jm_set p Directory tree)
     [[''private''], [''private'', ''jobs''], [''private'', ''jobs'', i]] (jw_tree w)\<rparr>"

definition own_type :: "string \<Rightarrow> runtime_world \<Rightarrow> job_type" where
  "own_type i w = (case job_at i w of Some job \<Rightarrow> jb_type job | None \<Rightarrow> Reconstruct)"

definition health_segment :: "run_env \<Rightarrow> string \<Rightarrow> job_task \<Rightarrow> runtime_world \<Rightarrow> job_task \<times> runtime_world" where
  "health_segment env i t w =
     (case re_health env of
        Inl e \<Rightarrow> (fail_run i (failure_of e) w t, w)
      | Inr (responseOk, cleanupProtocol, workerInstanceId) \<Rightarrow>
          if \<not> responseOk \<or> cleanupProtocol \<noteq> 1 \<or> workerInstanceId = []
          then (fail_run i (Some ''worker_cleanup_protocol_required'', ''Worker cleanup protocol is required'') w t, w)
          else (unless_stopped i AwaitMkdir w (t\<lparr>tk_instance := workerInstanceId\<rparr>), w))"

definition process_segment :: "run_env \<Rightarrow> string \<Rightarrow> job_task \<Rightarrow> runtime_world \<Rightarrow> job_task \<times> runtime_world" where
  "process_segment env i t w =
     (case re_process env of
        Inl e \<Rightarrow> (fail_run i (failure_of e) w t, w)
      | Inr (status, body) \<Rightarrow>
          if \<not> (200 \<le> status \<and> status \<le> 299)
          then (fail_run i (Some (if status = 503 then ''worker_unsupported'' else ''worker_failed''),
                  if json_falsy (json_field (Some body) ''error'') then ''worker_http_'' @ digits_of status
                  else js_string (the (json_field (Some body) ''error''))) w t, w)
          else (t\<lparr>tk_pc := AwaitPatchImporting, tk_output := body\<rparr>, w))"

definition import_segment :: "run_env \<Rightarrow> string \<Rightarrow> job_task \<Rightarrow> runtime_world \<Rightarrow> job_task \<times> runtime_world" where
  "import_segment env i t w =
     (case (job_at i w, tk_capture t) of
        (Some job, Some capture) \<Rightarrow>
          (case importOutputs (re_import env) (jw_tree w) [''private'', ''jobs'', i] job capture (tk_output t) of
             Inl e \<Rightarrow> (fail_run i (failure_of e) w t, w)
           | Inr (sid, r) \<Rightarrow>
               transacted i (jobs_update (re_tx env) (\<lambda>s. Inr (s\<lparr>js_spatial := jm_set sid r (js_spatial s)\<rparr>)))
                 (goto AwaitPatchCompleted) (t\<lparr>tk_spatial := sid\<rparr>) w)
      | _ \<Rightarrow> (fail_run i (None, ''job_not_found'') w t, w))"

definition awaited :: "run_env \<Rightarrow> string \<Rightarrow> (job_task \<Rightarrow> runtime_world \<Rightarrow> job_task \<times> runtime_world) \<Rightarrow> job_task \<Rightarrow> runtime_world \<Rightarrow> job_task \<times> runtime_world" where
  "awaited env i continue t w = (case re_call env of Inl e \<Rightarrow> (fail_run i (failure_of e) w t, w) | Inr _ \<Rightarrow> continue t w)"

fun segment :: "runtime_config \<Rightarrow> run_env \<Rightarrow> string \<Rightarrow> run_pc \<Rightarrow> job_task \<Rightarrow> runtime_world \<Rightarrow> job_task \<times> runtime_world" where
  "segment cfg env i AwaitGate t w =
     (case re_gate env of Inl e \<Rightarrow> (fail_run i (failure_of e) w t, w) | Inr _ \<Rightarrow> (after_gate cfg env i w t, w))"
| "segment cfg env i AwaitCapabilities t w =
     awaited env i (\<lambda>t w. (if fst (re_workerReady env) then after_capabilities env i w t
        else fail_run i (Some ''worker_unavailable'', case snd (re_workerReady env) of Some d \<Rightarrow> if d = [] then ''Spatial worker is not ready'' else d | None \<Rightarrow> ''Spatial worker is not ready'') w t, w)) t w"
| "segment cfg env i AwaitOwn t w = transacted i (own (re_cleanup env) i (own_type i w)) (goto AwaitHealth) t w"
| "segment cfg env i AwaitHealth t w = health_segment env i t w"
| "segment cfg env i AwaitMkdir t w = awaited env i (\<lambda>t w. (t\<lparr>tk_pc := AwaitPatchRunning\<rparr>, make_output_dir i w)) t w"
| "segment cfg env i AwaitPatchRunning t w = transacted i (patchJob env i (mark_running (re_now env))) (after_running i) t w"
| "segment cfg env i AwaitDataset t w =
     (case re_dataset env of Inl e \<Rightarrow> (fail_run i (failure_of e) w t, w) | Inr d \<Rightarrow> (t\<lparr>tk_pc := AwaitPatchDataset, tk_dataset := d\<rparr>, w))"
| "segment cfg env i AwaitPatchDataset t w =
     transacted i (patchJob env i (log_line (re_now env) ''info'' (dataset_message (tk_dataset t)))) (goto AwaitPatchStarting) t w"
| "segment cfg env i AwaitPatchStarting t w = transacted i (patchJob env i (mark_starting (re_now env))) (goto AwaitPatchTraining) t w"
| "segment cfg env i AwaitPatchTraining t w = transacted i (patchJob env i (mark_training (re_now env))) (goto AwaitIssue) t w"
| "segment cfg env i AwaitIssue t w = awaited env i (\<lambda>t w. (unless_stopped i AwaitMark w t, w)) t w"
| "segment cfg env i AwaitMark t w =
     transacted i (markWorkerAttempt (re_cleanup env) i (tk_instance t)) (unless_stopped i AwaitProcess) t w"
| "segment cfg env i AwaitProcess t w = process_segment env i t w"
| "segment cfg env i AwaitPatchImporting t w = transacted i (patchJob env i (mark_importing (re_now env))) (goto AwaitImport) t w"
| "segment cfg env i AwaitImport t w = import_segment env i t w"
| "segment cfg env i AwaitPatchCompleted t w =
     transacted i (patchJob env i (mark_completed (re_now env) (tk_spatial t))) (goto AwaitCleanup) t w"
| "segment cfg env i AwaitPatchFailed t w =
     (t\<lparr>tk_pc := AwaitCleanup\<rparr>, snd (patchJob env i (mark_failed (re_now env) (tk_aborted t) (tk_error t)) w))"
| "segment cfg env i AwaitCleanup t w = (t\<lparr>tk_pc := RunSettled\<rparr>, snd (release_job (re_cleanup env) i w))"
| "segment cfg env i RunSettled t w = (t, w)"

text \<open>One segment of the task of a job; when the run has settled, the \<^verbatim>\<open>finally\<close> of \<^verbatim>\<open>dispatch\<close>.\<close>

definition run_segment :: "runtime_config \<Rightarrow> run_env \<Rightarrow> string \<Rightarrow> runtime_world \<Rightarrow> runtime_world" where
  "run_segment cfg env i w =
     (case jm_get (rw_tasks w) i of
        None \<Rightarrow> w
      | Some t \<Rightarrow>
          if tk_pc t = RunSettled
          then schedule (w\<lparr>rw_running := jm_delete i (rw_running w), rw_tasks := jm_delete i (rw_tasks w)\<rparr>)
          else case segment cfg env i (tk_pc t) t w of (t1, w1) \<Rightarrow> w1\<lparr>rw_tasks := jm_set i t1 (rw_tasks w1)\<rparr>)"

subsection \<open>Dispatch\<close>

definition next_queued :: "('a job_world_scheme) \<Rightarrow> local_job option" where
  "next_queued w = find (\<lambda>job. jb_state job = Queued) (rev (list_jobs w))"

definition start_run :: "runtime_config \<Rightarrow> run_env \<Rightarrow> local_job \<Rightarrow> runtime_world \<Rightarrow> runtime_world" where
  "start_run cfg env job w =
     (let w1 = w\<lparr>rw_running := jm_set (jb_id job) False (rw_running w)\<rparr>
      in w1\<lparr>rw_tasks := jm_set (jb_id job) (run_start cfg env job w1) (rw_tasks w1)\<rparr>)"

text \<open>\<^verbatim>\<open>while (this.running.size < this.deps.concurrency)\<close>: no wait lies inside the loop.\<close>

partial_function (option) dispatch_loop :: "runtime_config \<Rightarrow> run_env \<Rightarrow> runtime_world \<Rightarrow> runtime_world option" where
  "dispatch_loop cfg env w =
     (if \<not> jm_size (rw_running w) < rc_concurrency cfg then Some w
      else case next_queued w of
             None \<Rightarrow> Some w
           | Some job \<Rightarrow> dispatch_loop cfg env (start_run cfg env job w))"

definition dispatch :: "runtime_config \<Rightarrow> run_env \<Rightarrow> runtime_world \<Rightarrow> runtime_world option" where
  "dispatch cfg env w = map_option (\<lambda>w'. w'\<lparr>rw_dispatching := False\<rparr>) (dispatch_loop cfg env w)"

subsection \<open>Start, cleanup and quiescence\<close>

definition interrupt :: "int \<Rightarrow> jobs_state \<Rightarrow> string \<Rightarrow> local_job \<Rightarrow> local_job" where
  "interrupt now s i job =
     (if jb_state job = Running \<or> (jb_state job = Queued \<and> jm_has (js_cleanup s) i)
      then log_line now ''warn'' ''Interrupted attempt retained for cleanup review''
        (job\<lparr>jb_state := Failed, jb_stage := StFailed,
             jb_error := Some (''interrupted_requires_retry'', ''Processing interrupted; verify cleanup before starting a new attempt''),
             jb_completedAt := Some now, jb_updatedAt := now\<rparr>)
      else job)"

definition interrupt_all :: "int \<Rightarrow> jobs_state \<Rightarrow> jobs_state result" where
  "interrupt_all now s = Inr (s\<lparr>js_jobs := map (\<lambda>(i, job). (i, interrupt now s (jb_id job) job)) (js_jobs s)\<rparr>)"

definition reconcileCleanup :: "(string \<Rightarrow> cleanup_env) \<Rightarrow> (unit, 'a job_world_scheme) comp" where
  "reconcileCleanup envs =
     andThen (reads (\<lambda>w. js_cleanup (jobs_of w))) (\<lambda>records.
       for_each (\<lambda>(i, c). if cl_state c = Complete then ret () else andThen (settled (release_job (envs i) i)) (\<lambda>_. ret ())) records)"

definition start :: "run_env \<Rightarrow> (string \<Rightarrow> cleanup_env) \<Rightarrow> (unit, runtime_world) comp" where
  "start env envs =
     andThen (jobs_update (re_tx env) (interrupt_all (re_now env))) (\<lambda>_.
     andThen (reconcileCleanup envs) (\<lambda>_. writes schedule))"

text \<open>A new process: nothing runs.\<close>

definition fresh_process :: "runtime_world \<Rightarrow> runtime_world" where
  "fresh_process w = w\<lparr>rw_running := [], rw_tasks := [], rw_dispatching := False\<rparr>"

definition unverified :: "string \<Rightarrow> local_job \<Rightarrow> 'a job_world_scheme \<Rightarrow> bool" where
  "unverified i job w =
     (case jm_get (js_cleanup (jobs_of w)) i of Some c \<Rightarrow> cl_state c \<noteq> Complete | None \<Rightarrow> jb_startedAt job \<noteq> None)"

text \<open>After the cancellation and the wait for the task.\<close>

definition ensureQuiescent :: "run_env \<Rightarrow> string \<Rightarrow> (unit, 'a job_world_scheme) comp" where
  "ensureQuiescent env i =
     andThen (get_job i) (\<lambda>job.
     andThen (reads (\<lambda>w. case jm_get (js_cleanup (jobs_of w)) i of Some c \<Rightarrow> cl_state c \<noteq> Complete | None \<Rightarrow> False)) (\<lambda>open_journal.
     andThen (if open_journal then release_job (re_cleanup env) i else ret ()) (\<lambda>_.
     andThen (reads (unverified i job)) (\<lambda>bad.
       if bad then throw (localError 409 ''worker_quiescence_unverified'') else ret ()))))"

record job_health =
  jh_configured :: bool
  jh_running :: nat
  jh_queued :: nat
  jh_concurrency :: nat
  jh_cleanupPending :: nat
  jh_cleanupBlocked :: nat

definition health :: "runtime_config \<Rightarrow> runtime_world \<Rightarrow> job_health" where
  "health cfg w =
     \<lparr>jh_configured = rc_workerUrl cfg, jh_running = jm_size (rw_running w),
      jh_queued = length (filter (\<lambda>job. jb_state job = Queued) (list_jobs w)), jh_concurrency = rc_concurrency cfg,
      jh_cleanupPending = length (filter (\<lambda>(_, c). cl_state c \<noteq> Complete) (js_cleanup (jobs_of w))),
      jh_cleanupBlocked = length (filter (\<lambda>(_, c). cl_state c = Blocked) (js_cleanup (jobs_of w)))\<rparr>"

end
