(* ===== verification/Job_Lifecycle.thy ===== *)
theory Job_Lifecycle
  imports Job_Runtime
begin

text \<open>
  The life of a job over every interleaving of creations, cancellations, segments of runs, dispatches,
  cleanups and restarts: the invariant of the runtime, that a finished job never changes again, that a
  capture has at most one active reconstruction, and when the dispatch loop returns.
\<close>

interpretation jobs_store: store_in_world jw_store put_jobs
  by unfold_locales simp

section \<open>Transactions\<close>

lemma wp_jobs_update:
  assumes "synced p (jw_store w)" and "writes_beside p env"
    and "\<And>s' st'. Inr s' = m (jobs_of w) \<Longrightarrow> synced p st' \<Longrightarrow> store_snapshot empty_jobs st' = s' \<Longrightarrow> Q () (put_jobs st' w)"
    and "\<And>e st'. synced p st' \<Longrightarrow> store_snapshot empty_jobs st' = jobs_of w \<Longrightarrow> R e (put_jobs st' w)"
  shows "wp (jobs_update env m) Q R w"
  unfolding jobs_update_def by (rule jobs_store.wp_transact [where p = p]) (use assms in auto)

text \<open>A step that changes neither the jobs nor what runs.\<close>

definition beside_jobs :: "string \<Rightarrow> runtime_world \<Rightarrow> runtime_world \<Rightarrow> bool" where
  "beside_jobs p w w' \<longleftrightarrow> synced p (jw_store w') \<and> js_jobs (jobs_of w') = js_jobs (jobs_of w) \<and>
     rw_running w' = rw_running w \<and> rw_tasks w' = rw_tasks w"

definition job_env_ok :: "string \<Rightarrow> run_env \<Rightarrow> bool" where
  "job_env_ok p env \<longleftrightarrow> writes_beside p (re_tx env) \<and> (\<forall>k. writes_beside p (ce_tx (re_cleanup env) k))"

lemma beside_refl: "synced p (jw_store w) \<Longrightarrow> beside_jobs p w w"
  by (simp add: beside_jobs_def)

lemma beside_trans: "beside_jobs p w w1 \<Longrightarrow> beside_jobs p w1 w2 \<Longrightarrow> beside_jobs p w w2"
  by (simp add: beside_jobs_def)

lemma wp_update_beside:
  assumes "beside_jobs p w0 w" and "writes_beside p env" and "\<And>s s'. m s = Inr s' \<Longrightarrow> js_jobs s' = js_jobs s"
  shows "wp (jobs_update env m) (\<lambda>_. beside_jobs p w0) (\<lambda>_. beside_jobs p w0) w"
proof (rule wp_jobs_update [where p = p])
  show "synced p (jw_store w)" using assms(1) by (simp add: beside_jobs_def)
qed (use assms in \<open>auto simp: beside_jobs_def dest: sym\<close>)

lemma settle_record_jobs: "settle_record now i st r s = Inr s' \<Longrightarrow> js_jobs s' = js_jobs s"
  by (auto simp: settle_record_def split: option.splits)

lemma release_beside:
  assumes "beside_jobs p w0 w" and "\<And>k. writes_beside p (ce_tx env k)"
  shows "wp (release_job env i) (\<lambda>_. beside_jobs p w0) (\<lambda>_. beside_jobs p w0) w"
proof -
  have u: "wp (jobs_update (ce_tx env k) (settle_record now i st r)) (\<lambda>_. beside_jobs p w0) (\<lambda>_. beside_jobs p w0) w1"
    if "beside_jobs p w0 w1" for k now st r w1
    by (rule wp_update_beside [OF that assms(2)]) (rule settle_record_jobs)
  have t: "beside_jobs p w0 (w\<lparr>jw_tree := tree\<rparr>)" for tree
    using assms(1) by (simp add: beside_jobs_def)
  have "wp (jobs_update (ce_tx env 0) (settle_record now i Complete None)) (\<lambda>_. beside_jobs p w0)
      (\<lambda>e. wp (jobs_update (ce_tx env 1) (settle_record now i Blocked r)) (\<lambda>_. beside_jobs p w0) (\<lambda>_. beside_jobs p w0))
      (w\<lparr>jw_tree := tree\<rparr>)" for now tree r
    by (rule wp_mono [OF u [OF t]]) (assumption, rule u)
  then have "wp (release_owned env i c) (\<lambda>_. beside_jobs p w0) (\<lambda>_. beside_jobs p w0) w" for c
    using u [OF assms(1), of 1] by (simp add: release_owned_def wp_simps wp_andThen_fun split: sum.split)
  then show ?thesis
    using assms(1) by (simp add: release_job_def wp_simps split: option.split)
qed

section \<open>Where a run is and what its job may be\<close>

definition pc_allows :: "run_pc \<Rightarrow> job_state \<Rightarrow> bool" where
  "pc_allows pc st \<longleftrightarrow>
     (if pc \<in> {AwaitGate, AwaitCapabilities, AwaitOwn, AwaitHealth, AwaitMkdir, AwaitPatchRunning} then st \<in> {Queued, Cancelled}
      else if pc = AwaitPatchFailed then st \<in> {Queued, Running, Cancelled}
      else if pc \<in> {AwaitCleanup, RunSettled} then True
      else st \<in> {Running, Cancelled})"

definition same_job :: "local_job \<Rightarrow> local_job \<Rightarrow> bool" where
  "same_job job job' \<longleftrightarrow> jb_id job' = jb_id job \<and> jb_type job' = jb_type job \<and> jb_input job' = jb_input job \<and> (finished job \<longrightarrow> job' = job)"

definition seg_post :: "string \<Rightarrow> string \<Rightarrow> local_job \<Rightarrow> runtime_world \<Rightarrow> job_task \<times> runtime_world \<Rightarrow> bool" where
  "seg_post p i job w r \<longleftrightarrow> synced p (jw_store (snd r)) \<and> rw_running (snd r) = rw_running w \<and> rw_tasks (snd r) = rw_tasks w \<and>
     (\<exists>job'. js_jobs (jobs_of (snd r)) = jm_set i job' (js_jobs (jobs_of w)) \<and> same_job job job' \<and> pc_allows (tk_pc (fst r)) (jb_state job'))"

lemma seg_post_beside:
  assumes "beside_jobs p w w1" and "jm_get (js_jobs (jobs_of w)) i = Some job" and "pc_allows (tk_pc t1) (jb_state job)"
  shows "seg_post p i job w (t1, w1)"
  using assms by (auto simp: seg_post_def beside_jobs_def same_job_def update_triv intro!: exI [of _ job])

lemma fail_run_allows:
  assumes "state_of i w = Some st" and "st \<in> {Queued, Running, Cancelled}"
  shows "pc_allows (tk_pc (fail_run i e w t)) st"
  using assms by (auto simp: fail_run_def pc_allows_def)

text \<open>A transaction that leaves the jobs alone.\<close>

lemma seg_transacted:
  assumes "wp m (\<lambda>_. beside_jobs p w) (\<lambda>_. beside_jobs p w) w" and job: "jm_get (js_jobs (jobs_of w)) i = Some job"
    and "jb_state job \<in> {Queued, Running, Cancelled}" and "\<And>w1. pc_allows (tk_pc (onOk w1 t)) (jb_state job)"
  shows "seg_post p i job w (transacted i m onOk t w)"
proof -
  have "state_of i w1 = Some (jb_state job)" if "beside_jobs p w w1" for w1
    using that job by (simp add: state_of_def beside_jobs_def)
  then have "pc_allows (tk_pc (fail_run i (failure_of e) w1 t)) (jb_state job)" if "beside_jobs p w w1" for e w1
    using that assms(3) by (auto intro: fail_run_allows)
  then show ?thesis
    using assms(1, 4) job by (auto simp: transacted_def wp_def intro!: seg_post_beside split: prod.splits sum.splits)
qed

text \<open>A patch of the job.\<close>

lemma seg_patched:
  assumes w: "synced p (jw_store w)" and env: "writes_beside p (re_tx env)" and job: "jm_get (js_jobs (jobs_of w)) i = Some job"
    and st: "jb_state job \<in> {Queued, Running, Cancelled}"
    and f: "jb_state job \<noteq> Cancelled \<Longrightarrow> same_job job (f job)" "\<And>w1. jb_state job \<noteq> Cancelled \<Longrightarrow> pc_allows (tk_pc (onOk w1 t)) (jb_state (f job))"
  shows "seg_post p i job w (transacted i (patchJob env i f) onOk t w)"
proof -
  have "wp (patchJob env i f)
     (\<lambda>_ w1. jb_state job \<noteq> Cancelled \<and> synced p (jw_store w1) \<and> rw_running w1 = rw_running w \<and> rw_tasks w1 = rw_tasks w \<and>
        js_jobs (jobs_of w1) = jm_set i (f job) (js_jobs (jobs_of w)))
     (\<lambda>_. beside_jobs p w) w"
    unfolding patchJob_def
    by (rule wp_jobs_update [OF w env]) (auto simp: patch_record_def job beside_jobs_def split: if_splits)
  moreover have "seg_post p i job w (fail_run i e w1 t, w1)" if "beside_jobs p w w1" for e w1
    using that job st by (auto intro!: seg_post_beside fail_run_allows simp: state_of_def beside_jobs_def)
  ultimately show ?thesis
    using f by (auto simp: transacted_def wp_def seg_post_def split: prod.splits sum.splits)
qed

lemma pc_state:
  assumes "pc_allows pc st" and "pc \<notin> {AwaitCleanup, RunSettled}"
  shows "st \<in> {Queued, Running, Cancelled}"
  using assms by (auto simp: pc_allows_def split: if_splits)

lemmas marks = mark_running_def mark_starting_def mark_training_def mark_importing_def mark_completed_def mark_failed_def log_line_def

lemma same_job_marks:
  assumes "\<not> finished job"
  shows "same_job job (mark_running now job)" "same_job job (mark_starting now job)" "same_job job (mark_training now job)"
    "same_job job (mark_importing now job)" "same_job job (mark_completed now o1 job)" "same_job job (mark_failed now ab e job)"
    "same_job job (log_line now l m job)"
  using assms by (simp_all add: same_job_def marks)

lemma not_finished: "jb_state job \<in> {Queued, Running, Cancelled} \<Longrightarrow> jb_state job \<noteq> Cancelled \<Longrightarrow> \<not> finished job"
  by (auto simp: finished_def)

lemma job_updates_beside:
  assumes "synced p (jw_store w)" and "job_env_ok p env"
  shows "wp (own (re_cleanup env) i type) (\<lambda>_. beside_jobs p w) (\<lambda>_. beside_jobs p w) w"
    "wp (markWorkerAttempt (re_cleanup env) i inst) (\<lambda>_. beside_jobs p w) (\<lambda>_. beside_jobs p w) w"
    "wp (jobs_update (re_tx env) (\<lambda>s. Inr (s\<lparr>js_spatial := g s\<rparr>))) (\<lambda>_. beside_jobs p w) (\<lambda>_. beside_jobs p w) w"
  using assms beside_refl [OF assms(1)]
  by (auto simp: own_def markWorkerAttempt_def wp_simps job_env_ok_def own_record_def mark_record_def
      intro!: wp_update_beside split: if_splits option.splits)

lemma segment_ok:
  assumes w: "synced p (jw_store w)" and env: "job_env_ok p env" and job: "jm_get (js_jobs (jobs_of w)) i = Some job"
    and pc: "pc_allows pc (jb_state job)" and t: "tk_pc t = pc"
  shows "seg_post p i job w (segment cfg env i pc t w)"
proof -
  have beside: "seg_post p i job w (t1, w)" if "pc_allows (tk_pc t1) (jb_state job)" for t1
    by (rule seg_post_beside [OF beside_refl [OF w] job that])
  have failed: "seg_post p i job w (fail_run i e w t', w)" if "pc \<notin> {AwaitCleanup, RunSettled}" for e t'
    using pc_state [OF pc that] job by (intro beside fail_run_allows) (simp_all add: state_of_def)
  have early: "pc_allows pc (jb_state job) \<Longrightarrow> pc \<in> {AwaitGate, AwaitCapabilities} \<Longrightarrow> seg_post p i job w (after_capabilities env i w t', w)" for t'
    by (cases "stopped i w"; cases "re_capture env")
       (auto simp: after_capabilities_def intro: failed, auto simp: pc_allows_def intro!: beside)
  have tx: "writes_beside p (re_tx env)" using env by (simp add: job_env_ok_def)
  have st: "pc \<notin> {AwaitCleanup, RunSettled} \<Longrightarrow> jb_state job \<in> {Queued, Running, Cancelled}" using pc_state [OF pc] .
  have patched: "seg_post p i job w (transacted i (patchJob env i f) onOk t w)"
    if "pc \<notin> {AwaitCleanup, RunSettled}" "\<not> finished job \<Longrightarrow> same_job job (f job)"
      "\<And>w1. jb_state job \<noteq> Cancelled \<Longrightarrow> pc_allows (tk_pc (onOk w1 t)) (jb_state (f job))" for f onOk
    by (rule seg_patched [OF w tx job st]) (use that not_finished [OF st] in auto)
  have moved: "seg_post p i job w (transacted i m onOk t' w)"
    if "pc \<notin> {AwaitCleanup, RunSettled}" "wp m (\<lambda>_. beside_jobs p w) (\<lambda>_. beside_jobs p w) w"
      "\<And>w1. pc_allows (tk_pc (onOk w1 t')) (jb_state job)" for m onOk t'
    by (rule seg_transacted [OF that(2) job st]) (use that in auto)
  show ?thesis
  proof (cases pc)
    case AwaitGate
    then show ?thesis
      using pc failed early by (auto simp: after_gate_def intro!: beside split: sum.split) (simp add: pc_allows_def)
  next
    case AwaitCapabilities
    then show ?thesis using pc failed early by (auto simp: awaited_def split: sum.split)
  next
    case AwaitOwn
    then show ?thesis
      using pc by (auto simp: goto_def pc_allows_def intro!: moved job_updates_beside [OF w env])
  next
    case AwaitHealth
    then show ?thesis
      using pc failed by (auto simp: health_segment_def unless_stopped_def pc_allows_def intro!: beside split: sum.split)
  next
    case AwaitMkdir
    have "beside_jobs p w (make_output_dir i w)" using w by (simp add: beside_jobs_def make_output_dir_def)
    then show ?thesis
      using AwaitMkdir pc failed by (auto simp: awaited_def pc_allows_def intro!: seg_post_beside [OF _ job] split: sum.split)
  next
    case AwaitDataset
    then show ?thesis using pc failed by (auto simp: pc_allows_def intro!: beside split: sum.split)
  next
    case AwaitIssue
    then show ?thesis using pc failed by (auto simp: awaited_def unless_stopped_def pc_allows_def intro!: beside split: sum.split)
  next
    case AwaitMark
    then show ?thesis
      using pc by (auto simp: unless_stopped_def pc_allows_def intro!: moved job_updates_beside [OF w env])
  next
    case AwaitProcess
    then show ?thesis using pc failed by (auto simp: process_segment_def pc_allows_def intro!: beside split: sum.split)
  next
    case AwaitImport
    then show ?thesis
      using pc failed
      by (auto simp: import_segment_def goto_def pc_allows_def intro!: moved job_updates_beside [OF w env] split: sum.split option.split)
  next
    case AwaitPatchRunning
    then show ?thesis
      using pc by (auto intro!: patched same_job_marks simp: after_running_def pc_allows_def marks)
  next
    case AwaitPatchDataset
    then show ?thesis using pc by (auto intro!: patched same_job_marks simp: goto_def pc_allows_def marks)
  next
    case AwaitPatchStarting
    then show ?thesis using pc by (auto intro!: patched same_job_marks simp: goto_def pc_allows_def) (simp add: marks)
  next
    case AwaitPatchTraining
    then show ?thesis using pc by (auto intro!: patched same_job_marks simp: goto_def pc_allows_def) (simp add: marks)
  next
    case AwaitPatchImporting
    then show ?thesis using pc by (auto intro!: patched same_job_marks simp: goto_def pc_allows_def) (simp add: marks)
  next
    case AwaitPatchCompleted
    then show ?thesis by (auto intro!: patched same_job_marks simp: goto_def pc_allows_def)
  next
    case AwaitPatchFailed
    then have "seg_post p i job w (transacted i (patchJob env i (mark_failed (re_now env) (tk_aborted t) (tk_error t))) (goto AwaitCleanup) t w)"
      by (auto intro!: patched same_job_marks simp: goto_def pc_allows_def)
    then show ?thesis
      using AwaitPatchFailed by (auto simp: transacted_def seg_post_def pc_allows_def split: prod.splits sum.splits)
  next
    case AwaitCleanup
    have "beside_jobs p w (snd (release_job (re_cleanup env) i w))"
      by (rule wp_snd [OF release_beside [OF beside_refl [OF w]]]) (use env in \<open>simp add: job_env_ok_def\<close>)
    then show ?thesis using AwaitCleanup by (auto simp: pc_allows_def intro!: seg_post_beside [OF _ job])
  next
    case RunSettled
    then show ?thesis using t by (auto simp: pc_allows_def intro!: beside)
  qed
qed

section \<open>The invariant of the runtime\<close>

definition one_active :: "(string, local_job) jsmap \<Rightarrow> bool" where
  "one_active jobs \<longleftrightarrow> (\<forall>c i j a b. jm_get jobs i = Some a \<longrightarrow> jm_get jobs j = Some b \<longrightarrow> reconstructs c a \<longrightarrow> reconstructs c b \<longrightarrow> i = j)"

definition jobs_ok :: "(string, local_job) jsmap \<Rightarrow> bool" where
  "jobs_ok jobs \<longleftrightarrow> wf_map jobs \<and> (\<forall>i job. jm_get jobs i = Some job \<longrightarrow> jb_id job = i) \<and> one_active jobs"

definition tasks_ok :: "(string, local_job) jsmap \<Rightarrow> (string, job_task) jsmap \<Rightarrow> bool" where
  "tasks_ok jobs tasks \<longleftrightarrow> (\<forall>i t. jm_get tasks i = Some t \<longrightarrow> (\<exists>job. jm_get jobs i = Some job \<and> pc_allows (tk_pc t) (jb_state job)))"

definition runtime_ok :: "string \<Rightarrow> runtime_world \<Rightarrow> bool" where
  "runtime_ok p w \<longleftrightarrow> synced p (jw_store w) \<and> jobs_ok (js_jobs (jobs_of w)) \<and> tasks_ok (js_jobs (jobs_of w)) (rw_tasks w) \<and>
     wf_map (rw_running w) \<and> jm_size (rw_running w) \<le> 1 \<and> (\<forall>i. jm_has (rw_running w) i = jm_has (rw_tasks w) i)"

text \<open>A finished job keeps its record.\<close>

definition frozen :: "(string, local_job) jsmap \<Rightarrow> (string, local_job) jsmap \<Rightarrow> bool" where
  "frozen jobs jobs' \<longleftrightarrow> (\<forall>i job. jm_get jobs i = Some job \<longrightarrow> finished job \<longrightarrow> jm_get jobs' i = Some job)"

lemma same_job_reconstructs: "same_job job job' \<Longrightarrow> reconstructs c job' \<Longrightarrow> reconstructs c job"
  by (cases "jb_state job") (auto simp: same_job_def reconstructs_def finished_def active_job_def)

lemma jobs_ok_change:
  assumes "jobs_ok jobs" and "jm_get jobs i = Some job" and "same_job job job'"
  shows "jobs_ok (jm_set i job' jobs) \<and> frozen jobs (jm_set i job' jobs)"
proof -
  have "one_active (jm_set i job' jobs)"
    using assms same_job_reconstructs [OF assms(3)] unfolding jobs_ok_def one_active_def by (simp split: if_splits) metis
  then show ?thesis
    using assms by (auto simp: jobs_ok_def frozen_def same_job_def split: if_splits)
qed

lemma pc_allows_cancelled [simp]: "pc_allows pc Cancelled"
  by (simp add: pc_allows_def)

lemma tasks_ok_other: "tasks_ok jobs tasks \<Longrightarrow> (\<And>t. jm_get tasks i = Some t \<Longrightarrow> pc_allows (tk_pc t) (jb_state job')) \<Longrightarrow> tasks_ok (jm_set i job' jobs) tasks"
  by (auto simp: tasks_ok_def)

lemma beside_runtime:
  assumes "runtime_ok p w" and "beside_jobs p w w'"
  shows "runtime_ok p w' \<and> frozen (js_jobs (jobs_of w)) (js_jobs (jobs_of w'))"
  using assms by (simp add: runtime_ok_def beside_jobs_def frozen_def)

lemma run_segment_ok:
  assumes ok: "runtime_ok p w" and env: "job_env_ok p env"
  shows "runtime_ok p (run_segment cfg env i w) \<and> frozen (js_jobs (jobs_of w)) (js_jobs (jobs_of (run_segment cfg env i w)))"
proof (cases "jm_get (rw_tasks w) i")
  case None
  then show ?thesis using ok by (simp add: run_segment_def frozen_def)
next
  case (Some t)
  then obtain job where job: "jm_get (js_jobs (jobs_of w)) i = Some job" "pc_allows (tk_pc t) (jb_state job)"
    using ok unfolding runtime_ok_def tasks_ok_def by blast
  show ?thesis
  proof (cases "tk_pc t = RunSettled")
    case True
    then show ?thesis
      using ok Some jm_size_delete_le [of i "rw_running w"]
      by (auto simp: run_segment_def schedule_def runtime_ok_def tasks_ok_def frozen_def jm_has_def)
  next
    case False
    obtain t1 w1 where r: "segment cfg env i (tk_pc t) t w = (t1, w1)" by fastforce
    have "seg_post p i job w (t1, w1)"
      using segment_ok [OF _ env job refl, of cfg] ok r by (simp add: runtime_ok_def)
    then obtain job' where w1: "synced p (jw_store w1)" "rw_running w1 = rw_running w" "rw_tasks w1 = rw_tasks w"
      "js_jobs (jobs_of w1) = jm_set i job' (js_jobs (jobs_of w))" "same_job job job'" "pc_allows (tk_pc t1) (jb_state job')"
      by (auto simp: seg_post_def)
    have "tasks_ok (js_jobs (jobs_of w1)) (jm_set i t1 (rw_tasks w))"
      using ok w1(4, 6) by (auto simp: runtime_ok_def tasks_ok_def)
    then show ?thesis
      using ok w1 jobs_ok_change [OF _ job(1) w1(5)] Some False
      by (auto simp: run_segment_def r runtime_ok_def jm_has_def)
  qed
qed

lemma cancel_job_ok:
  assumes ok: "runtime_ok p w" and env: "job_env_ok p env"
  shows "wp (cancel_job env i) (\<lambda>_ w'. runtime_ok p w' \<and> frozen (js_jobs (jobs_of w)) (js_jobs (jobs_of w')))
    (\<lambda>_ w'. runtime_ok p w' \<and> frozen (js_jobs (jobs_of w)) (js_jobs (jobs_of w'))) w"
    (is "wp _ (\<lambda>_. ?I) _ w")
proof -
  have gets: "wp (get_job i) (\<lambda>_. ?I) (\<lambda>_. ?I) w' = ?I w'" for w'
    by (simp add: get_job_def wp_simps split: option.split)
  have here: "?I w" using ok by (simp add: frozen_def)
  have aborted: "runtime_ok p (abort_run i w')" if "runtime_ok p w'" for w'
    using that by (auto simp: runtime_ok_def abort_run_def jm_size_set jm_has_def)
  have "jobs_of (abort_run i w') = jobs_of w'" for w' by (simp add: abort_run_def)
  with aborted have ab: "?I (abort_run i w')" if "?I w'" for w' using that by simp
  have "wp (jobs_update (re_tx env) (cancel_record (re_now env) i)) (\<lambda>_ w'. ?I w') (\<lambda>_. ?I) w"
  proof (rule wp_jobs_update [where p = p])
    fix s' st' assume s': "Inr s' = cancel_record (re_now env) i (jobs_of w)" and st': "synced p st'" "store_snapshot empty_jobs st' = s'"
    show "?I (put_jobs st' w)"
    proof (cases "jm_get (js_jobs (jobs_of w)) i")
      case (Some job)
      have "same_job job (mark_cancelled (re_now env) job)" if "\<not> finished job"
        using that by (simp add: same_job_def mark_cancelled_def log_line_def)
      then show ?thesis
        using ok s' st' Some jobs_ok_change [OF _ Some]
        by (auto simp: cancel_record_def runtime_ok_def frozen_def mark_cancelled_def log_line_def intro!: tasks_ok_other split: if_splits)
    qed (use here s' st' in \<open>simp add: cancel_record_def runtime_ok_def\<close>)
  qed (use here env in \<open>auto simp: runtime_ok_def job_env_ok_def frozen_def\<close>)
  then have u: "wp (jobs_update (re_tx env) (cancel_record (re_now env) i)) (\<lambda>_. wp (andThen (writes (abort_run i)) (\<lambda>_. get_job i)) (\<lambda>_. ?I) (\<lambda>_. ?I)) (\<lambda>_. ?I) w"
    by (rule wp_mono) (use ab gets in \<open>auto simp: wp_simps\<close>)
  have "wp (if finished job then get_job i else andThen (jobs_update (re_tx env) (cancel_record (re_now env) i)) (\<lambda>_.
            andThen (writes (abort_run i)) (\<lambda>_. get_job i))) (\<lambda>_. ?I) (\<lambda>_. ?I) w" for job
    using u here by (simp add: gets wp_andThen)
  then show ?thesis
    using here by (cases "jm_get (js_jobs (jobs_of w)) i") (simp_all add: cancel_job_def get_job_def [of i] wp_andThen wp_basic wp_basic_fun)
qed

lemma insert_job_ok:
  assumes ok: "runtime_ok p w" and env: "job_env_ok p env" and new: "\<not> jm_has (js_jobs (jobs_of w)) (re_id env)"
    and cap: "type = Reconstruct \<longrightarrow> (\<forall>c. json_field (Some input) ''captureId'' = Some (JStr c) \<longrightarrow> captureId = Some c)"
  shows "wp (insert_job env type input captureId) (\<lambda>_ w'. runtime_ok p w' \<and> frozen (js_jobs (jobs_of w)) (js_jobs (jobs_of w')))
    (\<lambda>_ w'. runtime_ok p w' \<and> frozen (js_jobs (jobs_of w)) (js_jobs (jobs_of w'))) w"
    (is "wp _ (\<lambda>_. ?I) _ w")
proof -
  let ?job = "queued_job env type input" and ?jobs = "js_jobs (jobs_of w)"
  let ?m = "\<lambda>s. Inr (if existing_for captureId s = None then s\<lparr>js_jobs := jm_set (jb_id ?job) ?job (js_jobs s)\<rparr> else s)"
  have id: "jb_id ?job = re_id env" by (simp add: queued_job_def)
  have here: "?I w" using ok by (simp add: frozen_def)
  have added: "jobs_ok (jm_set (re_id env) ?job ?jobs) \<and> frozen ?jobs (jm_set (re_id env) ?job ?jobs)"
    if none: "existing_for captureId (jobs_of w) = None"
  proof -
    have "\<not> reconstructs c job" if "reconstructs c ?job" "jm_get ?jobs k = Some job" for c k job
    proof -
      have "captureId = Some c" using that(1) cap by (simp add: reconstructs_def queued_job_def)
      then have "\<forall>x \<in> set (jm_values ?jobs). \<not> reconstructs c x"
        using none by (auto simp: existing_for_def activeReconstruction_def find_None_iff)
      then show ?thesis using jm_get_memD [OF that(2)] by force
    qed
    then have "one_active (jm_set (re_id env) ?job ?jobs)"
      using ok unfolding runtime_ok_def jobs_ok_def one_active_def by (simp split: if_splits) metis
    then show ?thesis
      using ok new by (auto simp: runtime_ok_def jobs_ok_def frozen_def id jm_has_def split: if_splits)
  qed
  have "?I (put_jobs st w)" if st: "synced p st" "Inr (store_snapshot empty_jobs st) = ?m (jobs_of w)" for st
  proof (cases "existing_for captureId (jobs_of w)")
    case None
    have "tasks_ok (jm_set (re_id env) ?job ?jobs) (rw_tasks w)"
      using ok new by (fastforce simp: runtime_ok_def tasks_ok_def jm_has_def)
    then show ?thesis using st ok added [OF None] None by (simp add: runtime_ok_def id)
  qed (use st here in \<open>simp add: runtime_ok_def\<close>)
  then have "wp (jobs_update (re_tx env) ?m) (\<lambda>_. ?I) (\<lambda>_. ?I) w"
    by (intro wp_jobs_update [where p = p]) (use here env in \<open>auto simp: runtime_ok_def job_env_ok_def frozen_def\<close>)
  moreover have "?I (schedule w')" if "?I w'" for w' using that by (simp add: schedule_def runtime_ok_def)
  ultimately have "wp (jobs_update (re_tx env) ?m) (\<lambda>_. wp (case ex of Some j \<Rightarrow> ret j | None \<Rightarrow> andThen (writes schedule) (\<lambda>_. ret ?job)) (\<lambda>_. ?I) (\<lambda>_. ?I)) (\<lambda>_. ?I) w" for ex
    by (elim wp_mono) (simp_all add: wp_simps split: option.split)
  then show ?thesis
    unfolding insert_job_def Let_def wp_andThen wp_basic by simp
qed

lemma create_job_ok:
  assumes ok: "runtime_ok p w" and env: "job_env_ok p env" and new: "\<not> jm_has (js_jobs (jobs_of w)) (re_id env)"
  shows "wp (create_job env type input) (\<lambda>_ w'. runtime_ok p w' \<and> frozen (js_jobs (jobs_of w)) (js_jobs (jobs_of w')))
    (\<lambda>_ w'. runtime_ok p w' \<and> frozen (js_jobs (jobs_of w)) (js_jobs (jobs_of w'))) w"
proof -
  have insert_ok: "wp (insert_job env Reconstruct input (Some c)) (\<lambda>_ w'. runtime_ok p w' \<and> frozen (js_jobs (jobs_of w)) (js_jobs (jobs_of w')))
      (\<lambda>_ w'. runtime_ok p w' \<and> frozen (js_jobs (jobs_of w)) (js_jobs (jobs_of w'))) w"
    if "as_string (json_field (Some input) ''captureId'') = Some c" for c
    by (rule insert_job_ok [OF assms]) (use that in \<open>auto simp: as_string_def\<close>)
  have "runtime_ok p w \<and> frozen (js_jobs (jobs_of w)) (js_jobs (jobs_of w))" using ok by (simp add: frozen_def)
  then show ?thesis
    using insert_ok insert_job_ok [OF assms, of _ input None]
    by (auto simp: create_job_def wp_simps split: option.split sum.split)
qed

subsection \<open>Dispatch\<close>

lemma next_queued_job:
  assumes "next_queued w = Some job"
  shows "job \<in> set (jm_values (js_jobs (jobs_of w)))" "jb_state job = Queued"
  using assms by (auto simp: next_queued_def list_jobs_def dest!: find_SomeD)

lemma run_start_allows: "jb_state job = Queued \<Longrightarrow> pc_allows (tk_pc (run_start cfg env job w)) Queued"
  by (auto simp: run_start_def after_gate_def after_capabilities_def fail_run_def new_task_def pc_allows_def split: sum.split)

lemma start_run_size: "jm_size (rw_running (start_run cfg env job w)) = (if jm_has (rw_running w) (jb_id job) then jm_size (rw_running w) else Suc (jm_size (rw_running w)))"
  by (simp add: start_run_def Let_def jm_size_set)

text \<open>With one job at a time the loop starts at most one and returns.\<close>

lemma dispatch_one:
  assumes "rc_concurrency cfg = 1"
  shows "dispatch_loop cfg env w = Some (if rw_running w \<noteq> [] then w else case next_queued w of None \<Rightarrow> w | Some job \<Rightarrow> start_run cfg env job w)"
proof -
  have "dispatch_loop cfg env (start_run cfg env job w) = Some (start_run cfg env job w)" if "rw_running w = []" for job
    using assms that by (simp add: dispatch_loop.simps [of cfg env "start_run cfg env job w"] start_run_size jm_has_def)
  then show ?thesis
    using assms by (simp add: dispatch_loop.simps [of cfg env w] split: option.split)
qed

lemma start_run_ok:
  assumes ok: "runtime_ok p w" and "rw_running w = []" and "next_queued w = Some job"
  shows "runtime_ok p (start_run cfg env job w)"
proof -
  obtain i where "(i, job) \<in> set (js_jobs (jobs_of w))" using next_queued_job(1) [OF assms(3)] by auto
  then have "jm_get (js_jobs (jobs_of w)) i = Some job" using ok by (auto simp: runtime_ok_def jobs_ok_def intro: jm_get_memI)
  moreover from this have "jb_id job = i" using ok by (simp add: runtime_ok_def jobs_ok_def)
  ultimately show ?thesis
    using ok assms(2) next_queued_job(2) [OF assms(3)] run_start_allows [of job]
    by (auto simp: runtime_ok_def start_run_def Let_def tasks_ok_def jm_has_def wf_map_def)
qed

subsection \<open>Cleanup and restarts\<close>

lemma reconcile_beside:
  assumes "\<And>i k. writes_beside p (ce_tx (envs i) k)" and "beside_jobs p w0 w"
  shows "wp (reconcileCleanup envs) (\<lambda>_. beside_jobs p w0) (\<lambda>_. beside_jobs p w0) w"
proof -
  have "wp (andThen (settled (release_job (envs i) i)) (\<lambda>_. ret ())) (\<lambda>_. beside_jobs p w0) (\<lambda>_. beside_jobs p w0) w1"
    if "beside_jobs p w0 w1" for i w1
    using release_beside [OF that assms(1)] by (simp add: wp_simps)
  then show ?thesis
    unfolding reconcileCleanup_def wp_andThen wp_basic
    by (intro wp_for_each) (use assms(2) in \<open>auto simp: wp_andThen wp_basic wp_basic_fun\<close>)
qed

lemma ensureQuiescent_beside:
  assumes "job_env_ok p env" and "beside_jobs p w0 w"
  shows "wp (ensureQuiescent env i) (\<lambda>_. beside_jobs p w0) (\<lambda>_. beside_jobs p w0) w"
proof -
  have "wp (release_job (re_cleanup env) i) (\<lambda>_. beside_jobs p w0) (\<lambda>_. beside_jobs p w0) w"
    by (rule release_beside [OF assms(2)]) (use assms(1) in \<open>simp add: job_env_ok_def\<close>)
  then have "wp (release_job (re_cleanup env) i)
      (\<lambda>_. wp (andThen (reads (unverified i job)) (\<lambda>bad. if bad then throw (localError 409 ''worker_quiescence_unverified'') else ret ()))
        (\<lambda>_. beside_jobs p w0) (\<lambda>_. beside_jobs p w0)) (\<lambda>_. beside_jobs p w0) w" for job
    by (rule wp_mono) (simp_all add: wp_simps)
  then show ?thesis
    using assms(2) by (simp add: ensureQuiescent_def get_job_def wp_simps split: option.split)
qed

lemma interrupt_all_ok:
  assumes "jobs_ok (js_jobs s)" and "interrupt_all now s = Inr s'"
  shows "jobs_ok (js_jobs s') \<and> frozen (js_jobs s) (js_jobs s')"
proof -
  have get: "jm_get (js_jobs s') i = map_option (\<lambda>job. interrupt now s (jb_id job) job) (jm_get (js_jobs s) i)" for i
    using assms(2) by (auto simp: interrupt_all_def map_of_map)
  have same: "same_job job (interrupt now s k job)" for k job
    by (auto simp: same_job_def interrupt_def finished_def log_line_def)
  have keys: "jm_keys (js_jobs s') = jm_keys (js_jobs s)"
    using assms(2) by (auto simp: interrupt_all_def case_prod_unfold)
  have "one_active (js_jobs s')"
    using assms(1) same_job_reconstructs [OF same] unfolding jobs_ok_def one_active_def get by (simp add: map_option_case split: option.splits) blast
  then show ?thesis
    using assms(1) keys same by (auto simp: jobs_ok_def wf_map_def frozen_def get same_job_def)
qed

lemma start_ok:
  assumes ok: "runtime_ok p w" and env: "job_env_ok p env" and envs: "\<And>i k. writes_beside p (ce_tx (envs i) k)"
  shows "wp (start env envs) (\<lambda>_ w'. runtime_ok p w' \<and> frozen (js_jobs (jobs_of w)) (js_jobs (jobs_of w')))
    (\<lambda>_ w'. runtime_ok p w' \<and> frozen (js_jobs (jobs_of w)) (js_jobs (jobs_of w'))) (fresh_process w)"
    (is "wp _ (\<lambda>_. ?I) _ ?w")
proof -
  have here: "?I ?w" using ok by (simp add: fresh_process_def runtime_ok_def frozen_def tasks_ok_def wf_map_def jm_has_def)
  have started: "?I (put_jobs st ?w)" if "synced p st" "Inr (store_snapshot empty_jobs st) = interrupt_all (re_now env) (jobs_of ?w)" for st
    using interrupt_all_ok [of "jobs_of ?w", OF _ that(2) [symmetric]] here that(1)
    by (simp add: runtime_ok_def fresh_process_def tasks_ok_def)
  have rest: "wp (andThen (reconcileCleanup envs) (\<lambda>_. writes schedule)) (\<lambda>_. ?I) (\<lambda>_. ?I) w1" if "?I w1" for w1
  proof -
    have "beside_jobs p w1 w1" using that by (simp add: beside_refl runtime_ok_def)
    then have "wp (reconcileCleanup envs) (\<lambda>_. beside_jobs p w1) (\<lambda>_. beside_jobs p w1) w1" by (intro reconcile_beside envs)
    moreover have "?I w2 \<and> ?I (schedule w2)" if "beside_jobs p w1 w2" for w2
      using that \<open>?I w1\<close> by (simp add: beside_jobs_def runtime_ok_def schedule_def)
    ultimately show ?thesis
      unfolding wp_andThen by (elim wp_mono) (auto simp: wp_simps)
  qed
  have "wp (jobs_update (re_tx env) (interrupt_all (re_now env))) (\<lambda>_. ?I) (\<lambda>_. ?I) ?w"
    by (rule wp_jobs_update [where p = p]) (use here env started in \<open>auto simp: runtime_ok_def job_env_ok_def fresh_process_def\<close>)
  then show ?thesis
    unfolding start_def wp_andThen [of "jobs_update _ _"] by (rule wp_mono) (use rest in auto)
qed

section \<open>Every interleaving\<close>

text \<open>One step of the runtime that serves one job at a time, which is the default: a request, a segment of
  a run, a dispatch, a cleanup, or a new process.\<close>

inductive runtime_step :: "string \<Rightarrow> runtime_config \<Rightarrow> runtime_world \<Rightarrow> runtime_world \<Rightarrow> bool" for p cfg where
  Create: "job_env_ok p env \<Longrightarrow> \<not> jm_has (js_jobs (jobs_of w)) (re_id env) \<Longrightarrow> runtime_step p cfg w (snd (create_job env type input w))"
| Cancel: "job_env_ok p env \<Longrightarrow> runtime_step p cfg w (snd (cancel_job env i w))"
| Segment: "job_env_ok p env \<Longrightarrow> runtime_step p cfg w (run_segment cfg env i w)"
| Dispatch: "dispatch cfg env w = Some w' \<Longrightarrow> runtime_step p cfg w w'"
| Reconcile: "(\<And>i k. writes_beside p (ce_tx (envs i) k)) \<Longrightarrow> runtime_step p cfg w (snd (reconcileCleanup envs w))"
| Quiesce: "job_env_ok p env \<Longrightarrow> runtime_step p cfg w (snd (ensureQuiescent env i w))"
| Restart: "job_env_ok p env \<Longrightarrow> (\<And>i k. writes_beside p (ce_tx (envs i) k)) \<Longrightarrow> runtime_step p cfg w (snd (start env envs (fresh_process w)))"

abbreviation runtime_steps :: "string \<Rightarrow> runtime_config \<Rightarrow> runtime_world \<Rightarrow> runtime_world \<Rightarrow> bool" where
  "runtime_steps p cfg \<equiv> (runtime_step p cfg)\<^sup>*\<^sup>*"

definition first_start :: "string \<Rightarrow> runtime_world \<Rightarrow> bool" where
  "first_start p w \<longleftrightarrow> synced p (jw_store w) \<and> js_jobs (jobs_of w) = [] \<and> rw_running w = [] \<and> rw_tasks w = []"

lemma first_start_ok: "first_start p w \<Longrightarrow> runtime_ok p w"
  by (simp add: first_start_def runtime_ok_def jobs_ok_def tasks_ok_def one_active_def wf_map_def jm_has_def)

lemma dispatch_ok:
  assumes "rc_concurrency cfg = 1" and "dispatch cfg env w = Some w'" and ok: "runtime_ok p w"
  shows "runtime_ok p w' \<and> js_jobs (jobs_of w') = js_jobs (jobs_of w)"
proof -
  define w1 where "w1 = (if rw_running w \<noteq> [] then w else case next_queued w of None \<Rightarrow> w | Some job \<Rightarrow> start_run cfg env job w)"
  have w': "w' = w1\<lparr>rw_dispatching := False\<rparr>"
    using assms(2) by (simp add: dispatch_def dispatch_one [OF assms(1)] w1_def)
  have "runtime_ok p w1 \<and> jobs_of w1 = jobs_of w"
    using ok start_run_ok [OF ok, of _ cfg env] by (auto simp: w1_def start_run_def Let_def split: option.split)
  then show ?thesis by (auto simp: w' runtime_ok_def)
qed

lemma runtime_step_ok:
  assumes "runtime_step p cfg w w'" and "rc_concurrency cfg = 1" and ok: "runtime_ok p w"
  shows "runtime_ok p w' \<and> frozen (js_jobs (jobs_of w)) (js_jobs (jobs_of w'))"
  using assms(1)
proof cases
  case (Create env type input)
  then show ?thesis using wp_snd [OF create_job_ok [OF ok]] by simp
next
  case (Cancel env i)
  then show ?thesis using wp_snd [OF cancel_job_ok [OF ok]] by simp
next
  case (Segment env i)
  then show ?thesis using run_segment_ok [OF ok] by simp
next
  case (Dispatch env)
  then show ?thesis using dispatch_ok [OF assms(2) Dispatch ok] by (simp add: frozen_def)
next
  case (Reconcile envs)
  have "beside_jobs p w w'"
    unfolding Reconcile(1) by (rule wp_snd, rule reconcile_beside) (use Reconcile ok in \<open>auto simp: runtime_ok_def intro: beside_refl\<close>)
  then show ?thesis by (rule beside_runtime [OF ok])
next
  case (Quiesce env i)
  have "beside_jobs p w w'"
    unfolding Quiesce(1) by (rule wp_snd, rule ensureQuiescent_beside) (use Quiesce ok in \<open>auto simp: runtime_ok_def intro: beside_refl\<close>)
  then show ?thesis by (rule beside_runtime [OF ok])
next
  case (Restart env envs)
  then show ?thesis using wp_snd [OF start_ok [OF ok]] by simp
qed

lemma runtime_steps_ok:
  assumes "runtime_steps p cfg w w'" and "rc_concurrency cfg = 1" and "runtime_ok p w"
  shows "runtime_ok p w' \<and> frozen (js_jobs (jobs_of w)) (js_jobs (jobs_of w'))"
  using assms(1, 3)
proof (induction rule: rtranclp_induct)
  case (step y z)
  then show ?case using runtime_step_ok [OF step(2) assms(2)] by (auto simp: frozen_def)
qed (simp add: frozen_def)

subsection \<open>Dispatch order, and dispatch with more than one job at a time\<close>

lemma find_sorted:
  assumes "sorted_wrt (\<lambda>a b. f a \<le> (f b :: int)) xs" and "find P xs = Some x" and "y \<in> set xs" and "P y"
  shows "f x \<le> f y"
  using assms by (induction xs) (auto split: if_splits)

lemma next_queued_oldest:
  assumes "next_queued w = Some job" and "job' \<in> set (jm_values (js_jobs (jobs_of w)))" and "jb_state job' = Queued"
  shows "jb_createdAt job \<le> jb_createdAt job'"
proof (rule find_sorted [where f = jb_createdAt and P = "\<lambda>job. jb_state job = Queued"])
  have "sorted (map (\<lambda>job. - jb_createdAt job) (list_jobs w))" by (simp add: list_jobs_def)
  then have "sorted_wrt (\<lambda>a b. jb_createdAt b \<le> jb_createdAt a) (list_jobs w)"
    by (simp add: sorted_map)
  then show "sorted_wrt (\<lambda>a b. jb_createdAt a \<le> jb_createdAt b) (rev (list_jobs w))"
    by (simp add: sorted_wrt_rev)
  show "job' \<in> set (rev (list_jobs w))" using assms(2) by (simp add: list_jobs_def)
qed (use assms in \<open>simp_all add: next_queued_def\<close>)

lemma next_queued_start_run [simp]: "next_queued (start_run cfg env job w) = next_queued w"
  by (simp add: next_queued_def list_jobs_def start_run_def Let_def)

lemma dispatch_loop_stuck:
  assumes "dispatch_loop cfg env w = Some w'" and "next_queued w = Some job"
    and "Suc (jm_size (rw_running w)) < rc_concurrency cfg \<or> jm_has (rw_running w) (jb_id job) \<and> jm_size (rw_running w) < rc_concurrency cfg"
  shows False
proof -
  let ?stuck = "\<lambda>cfg w job. next_queued w = Some job \<and>
      (Suc (jm_size (rw_running w)) < rc_concurrency cfg \<or> jm_has (rw_running w) (jb_id job) \<and> jm_size (rw_running w) < rc_concurrency cfg)"
  have "\<forall>job. \<not> ?stuck cfg w job"
  proof (rule dispatch_loop.raw_induct [where P = "\<lambda>cfg env w w'. \<forall>job. \<not> ?stuck cfg w job", OF _ assms(1)])
    fix loop cfg env w w'
    assume ih: "\<And>cfg env w w'. loop cfg env w = Some w' \<Longrightarrow> \<forall>job. \<not> ?stuck cfg w job"
      and body: "(if \<not> jm_size (rw_running w) < rc_concurrency cfg then Some w
        else case next_queued w of None \<Rightarrow> Some w | Some job \<Rightarrow> loop cfg env (start_run cfg env job w)) = Some w'"
    show "\<forall>job. \<not> ?stuck cfg w job"
    proof (intro allI notI)
      fix job assume st: "?stuck cfg w job"
      then have "loop cfg env (start_run cfg env job w) = Some w'" using body by auto
      moreover have "?stuck cfg (start_run cfg env job w) job"
        using st by (auto simp: start_run_size) (auto simp: start_run_def Let_def jm_has_def)
      ultimately show False using ih by blast
    qed
  qed
  then show ?thesis using assms(2, 3) by blast
qed

text \<open>With more than one job at a time the loop never returns once a job is queued and none is running:
  the run it starts has not yet marked the job as running, so it finds the same job again, and a job
  that is already in the map does not fill it.\<close>

lemma dispatch_hangs:
  assumes "rc_concurrency cfg \<ge> 2" and "rw_running w = []" and "next_queued w = Some job"
  shows "dispatch cfg env w = None"
  using dispatch_loop_stuck [of cfg env w _ job] assms by (cases "dispatch_loop cfg env w") (auto simp: dispatch_def)

subsection \<open>What a cleanup removes\<close>

text \<open>The evidence a removal needs: the journal owns the job, the job is not active, and a worker that was
  ever asked has answered that it stopped.\<close>

definition may_remove :: "cleanup_env \<Rightarrow> string \<Rightarrow> jobs_state \<Rightarrow> bool" where
  "may_remove env i s \<longleftrightarrow> (\<exists>c. jm_get (js_cleanup s) i = Some c \<and> cl_state c \<noteq> Complete \<and>
     (\<forall>job. jm_get (js_jobs s) i = Some job \<longrightarrow> finished job) \<and>
     (cl_workerAttempted c \<longrightarrow> (\<exists>r n. ce_receipt env = Inr r \<and> receipt_proves i c r \<and> wr_workerInstanceId r = Some n)))"

lemma confirm_quiescence_ok:
  assumes "confirm_quiescence env i c = Inr ()" and "cl_workerAttempted c"
  shows "\<exists>r n. ce_receipt env = Inr r \<and> receipt_proves i c r \<and> wr_workerInstanceId r = Some n"
  using assms by (auto simp: confirm_quiescence_def receipt_proves_def split: if_splits sum.splits)

lemma active_or_finished: "active_job job \<longleftrightarrow> \<not> finished job"
  by (cases "jb_state job") (simp_all add: active_job_def finished_def)

lemma transact_tree: "jw_tree (snd (jobs_update e m w)) = jw_tree w"
  by (simp add: jobs_update_def transact_def split: prod.split)

lemma release_owned_tree:
  "jw_tree (snd (release_owned env i c w)) = jw_tree w \<or>
   confirm_quiescence env i c = Inr () \<and> removeOwnedWorkDirectory (ce_rm env) ''jobs'' i (jw_tree w) = Inr (jw_tree (snd (release_owned env i c w)))"
proof -
  have tx: "jw_tree w2 = jw_tree w1" if "jobs_update e m w1 = (r, w2)" for e m w1 r w2
    using transact_tree [of e m w1] that by simp
  show ?thesis
    by (auto simp: release_owned_def comp_defs dest!: tx split: sum.splits prod.splits)
qed

text \<open>The path as far as it exists consists of directories, not of links.\<close>

fun real_directories :: "path_tree \<Rightarrow> string list \<Rightarrow> string list \<Rightarrow> bool" where
  "real_directories tree current [] = True"
| "real_directories tree current (part # parts) =
     (case jm_get tree (current @ [part]) of None \<Rightarrow> True | Some info \<Rightarrow> info = Directory \<and> real_directories tree (current @ [part]) parts)"

lemma check_parts_real: "check_parts tree current parts = Inr () \<Longrightarrow> real_directories tree current parts"
  by (induction parts arbitrary: current) (auto simp: Let_def split: option.splits if_splits)

section \<open>A concrete run\<close>

definition demo_cleanup :: cleanup_env where
  "demo_cleanup = \<lparr>ce_now = 9, ce_tx = (\<lambda>_. quiet_env), ce_workerUrl = True, ce_issue = Inr (),
     ce_receipt = Inr \<lparr>wr_ok = True, wr_jobId = ''0a1b2c3d-0000-0000-0000-000000000000'', wr_cleanupProtocol = 1, wr_quiescent = True, wr_workerInstanceId = Some ''w''\<rparr>,
     ce_rm = True\<rparr>"

definition demo_report :: package_report where
  "demo_report = \<lparr>rp_ok = True, rp_code = None, rp_message = None, rp_missingPaths = [], rp_missingCount = 0, rp_frameCount = 1\<rparr>"

definition demo_job_env :: "string \<Rightarrow> int \<Rightarrow> run_env" where
  "demo_job_env i now =
     \<lparr>re_id = i, re_now = now, re_tx = quiet_env, re_call = Inr (), re_gate = Inr (), re_workerReady = (True, None),
      re_capture = Inr (record_for JNull ''cap'' 0 0 0 None), re_inspect = Inr demo_report, re_health = Inr (True, 1, ''w''), re_dataset = Inr (1, 0),
      re_process = Inr (200, JNull),
      re_import = \<lparr>im_id = ''s'', im_stat = (\<lambda>_. Inr 0), im_add = (\<lambda>_. Inr None), im_acquire = (\<lambda>_. Inr ()), im_addManifest = Inr None, im_acquireManifest = Inr ()\<rparr>,
      re_cleanup = demo_cleanup\<rparr>"

definition demo_config :: runtime_config where
  "demo_config = \<lparr>rc_workerUrl = True, rc_capabilities = False, rc_concurrency = 1\<rparr>"

definition demo_start :: runtime_world where
  "demo_start = \<lparr>jw_store = saved_store empty_jobs, jw_tree = [], rw_running = [], rw_tasks = [], rw_dispatching = False\<rparr>"

abbreviation demo_job :: string where "demo_job \<equiv> ''0a1b2c3d-0000-0000-0000-000000000000''"

definition demo_input :: json where
  "demo_input = JObj [(''captureId'', JStr ''cap'')]"

text \<open>A job is queued and cancelled, and the same request comes again.\<close>

definition demo_queued :: runtime_world where
  "demo_queued = snd (create_job (demo_job_env demo_job 1) ''spatial.reconstruct'' demo_input demo_start)"

definition demo_cancelled :: runtime_world where
  "demo_cancelled = snd (cancel_job (demo_job_env [] 2) demo_job demo_queued)"

definition demo_again :: runtime_world where
  "demo_again = snd (create_job (demo_job_env ''b'' 3) ''spatial.reconstruct'' demo_input demo_cancelled)"

lemma demo_job_env_ok [simp]: "job_env_ok ''state.json'' (demo_job_env i now)"
  by (simp add: job_env_ok_def demo_job_env_def demo_cleanup_def)

lemma demo_steps:
  "first_start ''state.json'' demo_start" "runtime_steps ''state.json'' demo_config demo_start demo_queued"
  "runtime_steps ''state.json'' demo_config demo_start demo_cancelled" "runtime_steps ''state.json'' demo_config demo_cancelled demo_again"
proof -
  show "first_start ''state.json'' demo_start"
    by (simp add: first_start_def demo_start_def) (simp add: empty_jobs_def)
  have new: "\<not> jm_has (js_jobs (jobs_of demo_start)) (re_id (demo_job_env demo_job 1))" "\<not> jm_has (js_jobs (jobs_of demo_cancelled)) (re_id (demo_job_env ''b'' 3))"
    by code_simp+
  have "runtime_step ''state.json'' demo_config demo_start demo_queued"
    unfolding demo_queued_def by (rule runtime_step.Create [OF _ new(1)]) simp
  then show q: "runtime_steps ''state.json'' demo_config demo_start demo_queued" by simp
  have "runtime_step ''state.json'' demo_config demo_queued demo_cancelled"
    unfolding demo_cancelled_def by (rule runtime_step.Cancel) simp
  with q show "runtime_steps ''state.json'' demo_config demo_start demo_cancelled" by simp
  have "runtime_step ''state.json'' demo_config demo_cancelled demo_again"
    unfolding demo_again_def by (rule runtime_step.Create [OF _ new(2)]) simp
  then show "runtime_steps ''state.json'' demo_config demo_cancelled demo_again" by simp
qed

definition demo_finished :: runtime_world where
  "demo_finished = demo_cancelled\<lparr>jw_store := saved_store ((jobs_of demo_cancelled)\<lparr>js_cleanup := [(demo_job,
       \<lparr>cl_type = Reconstruct, cl_state = Pending, cl_workerInstanceId = Some ''w'', cl_workerAttempted = True, cl_updatedAt = 0, cl_reason = None\<rparr>)]\<rparr>),
     jw_tree := [([''private''], Directory), ([''private'', ''jobs''], Directory), ([''private'', ''jobs'', demo_job], Directory)]\<rparr>"

section \<open>Properties\<close>

text \<open>
  C21. A job that has completed, failed or been cancelled keeps its record unchanged over every later
  interleaving of requests, runs, cleanups and restarts: in particular a run that is still under way
  when its job is cancelled can neither revive it nor give it an output.
\<close>
theorem finished_job_frozen:
  assumes "first_start p w0" and "rc_concurrency cfg = 1" and "runtime_steps p cfg w0 w" and "runtime_steps p cfg w w'"
    and "jm_get (js_jobs (jobs_of w)) i = Some job" and "finished job"
  shows "jm_get (js_jobs (jobs_of w')) i = Some job"
proof -
  have "runtime_ok p w" using runtime_steps_ok [OF assms(3, 2) first_start_ok [OF assms(1)]] by simp
  from runtime_steps_ok [OF assms(4, 2) this] show ?thesis using assms(5, 6) by (simp add: frozen_def)
qed

theorem finished_job_frozen_witness:
  "jm_get (js_jobs (jobs_of demo_again)) demo_job = jm_get (js_jobs (jobs_of demo_cancelled)) demo_job"
proof -
  have "rc_concurrency demo_config = 1" by (simp add: demo_config_def)
  moreover obtain job where job: "jm_get (js_jobs (jobs_of demo_cancelled)) demo_job = Some job" "finished job"
  proof -
    have "list_all finished (jm_values (js_jobs (jobs_of demo_cancelled))) \<and> jm_get (js_jobs (jobs_of demo_cancelled)) demo_job \<noteq> None" by code_simp
    then show ?thesis using that jm_get_memD by (fastforce simp: list_all_iff)
  qed
  ultimately show ?thesis
    using finished_job_frozen [OF demo_steps(1) _ demo_steps(3, 4), of demo_job job] by simp
qed



text \<open>
  C37. A dispatch returns. With one job at a time it leaves a running job alone, and otherwise starts the
  queued job that was created first, if there is one.
\<close>
theorem dispatch_starts_oldest:
  assumes "rc_concurrency cfg = 1"
  shows "\<exists>w'. dispatch cfg env w = Some w' \<and> jobs_of w' = jobs_of w \<and> \<not> rw_dispatching w' \<and>
    (if rw_running w \<noteq> [] then rw_running w' = rw_running w
     else case next_queued w of
       None \<Rightarrow> rw_running w' = []
     | Some job \<Rightarrow> rw_running w' = [(jb_id job, False)] \<and> jm_has (rw_tasks w') (jb_id job) \<and> jb_state job = Queued \<and>
         (\<forall>job' \<in> set (jm_values (js_jobs (jobs_of w))). jb_state job' = Queued \<longrightarrow> jb_createdAt job \<le> jb_createdAt job'))"
proof (cases "next_queued w")
  case (Some job)
  then show ?thesis
    using next_queued_job(2) [OF Some] next_queued_oldest [OF Some]
    by (simp add: dispatch_def dispatch_one [OF assms] start_run_def Let_def jm_has_def)
qed (simp add: dispatch_def dispatch_one [OF assms])

theorem dispatch_starts_oldest_witness:
  "\<exists>w'. dispatch demo_config (demo_job_env [] 4) demo_queued = Some w' \<and> rw_running w' = [(demo_job, False)]"
proof -
  have "rc_concurrency demo_config = 1" by (simp add: demo_config_def)
  moreover have "rw_running demo_queued = [] \<and> map_option jb_id (next_queued demo_queued) = Some demo_job" by code_simp
  ultimately show ?thesis
    using dispatch_starts_oldest [of demo_config "demo_job_env [] 4" demo_queued] by (auto split: option.splits)
qed

text \<open>
  C23. The cleanup of a job changes the disk only when the journal owns the job, the job is no longer
  queued or running and, if a worker was ever asked to process it, that same worker instance has
  confirmed that it stopped. It then removes what lies below the directory of this job, reached
  through directories that are not links, and nothing else.
\<close>
theorem workdir_removed_only_quiescent:
  assumes "jw_tree (snd (release_job env i w)) \<noteq> jw_tree w"
  shows "may_remove env i (jobs_of w) \<and> jobIdPattern i \<and> real_directories (jw_tree w) [] [''private'', ''jobs'', i] \<and>
    jw_tree (snd (release_job env i w)) = filter (\<lambda>(q, _). \<not> below [''private'', ''jobs'', i] q) (jw_tree w)"
proof (cases "jm_get (js_cleanup (jobs_of w)) i")
  case None
  then show ?thesis using assms by (simp add: release_job_def comp_defs)
next
  case (Some c)
  let ?busy = "case jm_get (js_jobs (jobs_of w)) i of None \<Rightarrow> False | Some job \<Rightarrow> active_job job"
  have go: "cl_state c \<noteq> Complete" "\<not> ?busy" using assms by (auto simp: release_job_def comp_defs Some split: if_splits)
  then have r: "release_job env i w = release_owned env i c w" by (simp add: release_job_def comp_defs Some)
  from release_owned_tree [of env i c w] assms
  have q: "confirm_quiescence env i c = Inr ()" "removeOwnedWorkDirectory (ce_rm env) ''jobs'' i (jw_tree w) = Inr (jw_tree (snd (release_job env i w)))"
    by (auto simp: r)
  have "may_remove env i (jobs_of w)"
    using go Some confirm_quiescence_ok [OF q(1)] by (auto simp: may_remove_def active_or_finished split: option.splits)
  then show ?thesis
    using q(2) check_parts_real [of "jw_tree w" "[]"]
    by (auto simp: removeOwnedWorkDirectory_def simp del: check_parts.simps real_directories.simps split: if_splits sum.splits)
qed

theorem workdir_removed_only_quiescent_witness:
  "jw_tree (snd (release_job demo_cleanup demo_job demo_finished)) = [([''private''], Directory), ([''private'', ''jobs''], Directory)] \<and>
   may_remove demo_cleanup demo_job (jobs_of demo_finished)"
proof -
  have t: "jw_tree (snd (release_job demo_cleanup demo_job demo_finished)) = [([''private''], Directory), ([''private'', ''jobs''], Directory)]"
    "jw_tree demo_finished = [([''private''], Directory), ([''private'', ''jobs''], Directory), ([''private'', ''jobs'', demo_job], Directory)]"
    by code_simp+
  then show ?thesis using workdir_removed_only_quiescent [of demo_cleanup demo_job demo_finished] by simp
qed

end
