(* ===== verification/Provider_Cleanup.thy ===== *)
theory Provider_Cleanup
  imports Private_Payload Job_Lifecycle
begin

text \<open>
  A provider's journal of the private inputs it has decrypted, \<^verbatim>\<open>src/src/compute/providerCleanup.ts\<close>, together
  with the preparation of an input by \<^verbatim>\<open>remoteComputeRuntime.ts\<close>, which it guards.

  Ownership is recorded before anything is downloaded; a request for cleanup is durable; the readable
  files are removed only when the preparation that could still write them has ended and the local
  jobs that read them are quiescent; the pin of the encrypted input is released last. A preparation and a
  release wait at several points, so each is a program counter, \<open>prep_step\<close> and \<open>release_step\<close> are what
  lies between two waits, and \<open>provider_step\<close> interleaves them with requests, restarts of the process
  and whatever other components do outside the directories of remote jobs. The jobs are those of
  \<open>Job_Runtime\<close>, the files those of \<open>Private_Payload\<close>.

  The result is \<open>cleaned_stays_clean\<close>: once the journal says that the readable input of a job is gone, it is
  gone and never comes back. \<open>input_pin_released_last\<close> orders the release of the pin after it.
\<close>

section \<open>Data\<close>

record provider_cleanup =
  pc_inputCid :: string
  pc_expiresAt :: "int option"
  pc_requested :: bool
  pc_plaintext :: cleanup_state
  pc_inputPinReleasePending :: bool
  pc_pinOwner :: "string option"
  pc_reason :: "string option"

datatype remote_role = Requester | Provider

record remote_record =
  rr_backendJobId :: string
  rr_localJobId :: "string option"
  rr_captureId :: "string option"
  rr_role :: remote_role
  rr_state :: string
  rr_updatedAt :: int
  rr_cleanup :: "provider_cleanup option"

record remote_capture =
  rc_directory :: "string list"
  rc_artworkId :: string
  rc_markerId :: "string option"
  rc_sizeBytes :: nat
  rc_fileCount :: nat

text \<open>The fields of the node's state that the compute runtime writes.\<close>

record compute_settings =
  cs_enabled :: bool
  cs_paused :: bool
  cs_maxConcurrency :: int
  cs_maxQueueDepth :: int
  cs_maxAcceptedInputBytes :: int
  cs_minimumFreeVramBytes :: int

record compute_authorization =
  ca_required :: bool
  ca_status :: "int option"
  ca_missingScope :: "string option"
  ca_surface :: "string option"
  ca_observedAt :: "int option"
  ca_fingerprint :: "string option"
  ca_lastAuthorizedAt :: "int option"

record private_cid =
  pi_jobId :: "string option"
  pi_pinOwner :: "string option"
  pi_submission :: string
  pi_reconcile :: bool
  pi_releasedAt :: "int option"

record remote_state =
  rs_remoteJobs :: "(string, remote_record) jsmap"
  rs_captures :: "(string, remote_capture) jsmap"
  rs_nodeId :: "string option"
  rs_settings :: "compute_settings option"
  rs_authorization :: "compute_authorization option"
  rs_privateCids :: "(string, private_cid) jsmap"
  rs_spatial :: "(string, spatial_record) jsmap"

definition empty_remote :: remote_state where
  "empty_remote = \<lparr>rs_remoteJobs = [], rs_captures = [], rs_nodeId = None, rs_settings = None, rs_authorization = None,
     rs_privateCids = [], rs_spatial = []\<rparr>"

record remote_job =
  jo_id :: string
  jo_type :: string
  jo_state :: string
  jo_inputCid :: string
  jo_inputBytes :: int
  jo_inputHash :: string
  jo_inputKeyEnvelope :: json
  jo_jobSpecHash :: string
  jo_protocolVersion :: string
  jo_expiresAt :: "int option"
  jo_outputManifestCid :: "string option"
  jo_outputCids :: "string list"

section \<open>Changes of the journal\<close>

definition remote_capture_id :: "string \<Rightarrow> string" where
  "remote_capture_id i = ''remote-'' @ i"

definition fresh_record :: "int \<Rightarrow> remote_job \<Rightarrow> remote_record" where
  "fresh_record now job =
     \<lparr>rr_backendJobId = jo_id job, rr_localJobId = None, rr_captureId = Some (remote_capture_id (jo_id job)), rr_role = Provider,
      rr_state = ''PREPARING'', rr_updatedAt = now,
      rr_cleanup = Some \<lparr>pc_inputCid = jo_inputCid job, pc_expiresAt = jo_expiresAt job, pc_requested = False, pc_plaintext = Pending,
        pc_inputPinReleasePending = True, pc_pinOwner = Some (''provider-input:'' @ jo_id job), pc_reason = None\<rparr>\<rparr>"

definition reusable :: "remote_job \<Rightarrow> remote_record \<Rightarrow> bool" where
  "reusable job r = (case rr_cleanup r of None \<Rightarrow> False | Some c \<Rightarrow>
     pc_inputCid c = jo_inputCid job \<and> \<not> pc_requested c \<and> pc_plaintext c \<noteq> Complete)"

definition own_remote :: "int \<Rightarrow> remote_job \<Rightarrow> remote_state \<Rightarrow> remote_state result" where
  "own_remote now job s =
     (let previous = jm_get (rs_remoteJobs s) (jo_id job) in
      if (case previous of None \<Rightarrow> False | Some r \<Rightarrow> rr_cleanup r = None \<or> rr_role r \<noteq> Provider)
      then Inl (PlainError ''legacy_provider_ownership_requires_review'')
      else let r = (case previous of Some r \<Rightarrow> r | None \<Rightarrow> fresh_record now job) in
        if \<not> reusable job r then Inl (PlainError ''provider_job_not_reusable'')
        else Inr (s\<lparr>rs_remoteJobs := jm_set (jo_id job) r (rs_remoteJobs s)\<rparr>))"

text \<open>\<open>change_cleanup\<close> updates the journal of an existing record; a record or journal that is missing throws.\<close>

definition change_cleanup :: "string \<Rightarrow> (remote_record \<Rightarrow> remote_record) \<Rightarrow> (provider_cleanup \<Rightarrow> provider_cleanup) \<Rightarrow> remote_state \<Rightarrow> remote_state result" where
  "change_cleanup i f g s =
     (case jm_get (rs_remoteJobs s) i of
        None \<Rightarrow> Inl (PlainError ''TypeError'')
      | Some r \<Rightarrow>
          (case rr_cleanup r of
             None \<Rightarrow> Inl (PlainError ''TypeError'')
           | Some c \<Rightarrow> Inr (s\<lparr>rs_remoteJobs := jm_set i (f (r\<lparr>rr_cleanup := Some (g c)\<rparr>)) (rs_remoteJobs s)\<rparr>)))"

definition owned_by_provider :: "string \<Rightarrow> remote_state \<Rightarrow> bool" where
  "owned_by_provider i s = (case jm_get (rs_remoteJobs s) i of None \<Rightarrow> False | Some r \<Rightarrow> rr_cleanup r \<noteq> None \<and> rr_role r = Provider)"

definition request_record :: "int \<Rightarrow> string \<Rightarrow> remote_state \<Rightarrow> remote_state result" where
  "request_record now i s =
     (if \<not> owned_by_provider i s then Inl (PlainError ''provider_cleanup_ownership_unverified'')
      else change_cleanup i (\<lambda>r. r\<lparr>rr_updatedAt := now\<rparr>) (\<lambda>c. c\<lparr>pc_requested := True\<rparr>) s)"

definition complete_record :: "int \<Rightarrow> string \<Rightarrow> remote_state \<Rightarrow> remote_state result" where
  "complete_record now i s =
     change_cleanup i (\<lambda>r. r\<lparr>rr_updatedAt := now\<rparr>) (\<lambda>c. c\<lparr>pc_plaintext := Complete, pc_reason := None\<rparr>)
       (s\<lparr>rs_captures := jm_delete (remote_capture_id i) (rs_captures s)\<rparr>)"

definition blocked_record :: "int \<Rightarrow> string \<Rightarrow> remote_state \<Rightarrow> remote_state result" where
  "blocked_record now i =
     change_cleanup i (\<lambda>r. r\<lparr>rr_updatedAt := now\<rparr>) (\<lambda>c. c\<lparr>pc_plaintext := Blocked, pc_reason := Some ''provider_cleanup_retry_required''\<rparr>)"

definition pin_released_record :: "string \<Rightarrow> remote_state \<Rightarrow> remote_state result" where
  "pin_released_record i = change_cleanup i (\<lambda>r. r) (\<lambda>c. c\<lparr>pc_inputPinReleasePending := False, pc_reason := None\<rparr>)"

definition pin_retry_record :: "string \<Rightarrow> remote_state \<Rightarrow> remote_state result" where
  "pin_retry_record i = change_cleanup i (\<lambda>r. r) (\<lambda>c. c\<lparr>pc_reason := Some ''provider_pin_release_retry_required''\<rparr>)"

text \<open>\<open>assertPreparing\<close>; \<open>None\<close> as an instant is NaN, which is neither before nor after anything.\<close>

definition assertPreparing :: "int \<Rightarrow> string \<Rightarrow> remote_state \<Rightarrow> bool" where
  "assertPreparing now i s =
     (case jm_get (rs_remoteJobs s) i of
        None \<Rightarrow> False
      | Some r \<Rightarrow>
          (case rr_cleanup r of
             None \<Rightarrow> False
           | Some c \<Rightarrow> \<not> pc_requested c \<and> pc_plaintext c \<noteq> Complete \<and> (case pc_expiresAt c of None \<Rightarrow> True | Some t \<Rightarrow> now < t)))"

text \<open>The records that \<open>reconcilePending\<close> requests, in order.\<close>

definition needs_request :: "int \<Rightarrow> bool \<Rightarrow> remote_record \<Rightarrow> bool" where
  "needs_request now hasCallback r \<longleftrightarrow> rr_role r = Provider \<and>
     (case rr_cleanup r of
        None \<Rightarrow> False
      | Some c \<Rightarrow>
          \<not> (pc_plaintext c = Complete \<and> (\<not> pc_inputPinReleasePending c \<or> opt_str (pc_pinOwner c) = [] \<or> \<not> hasCallback)) \<and>
          (pc_requested c \<or> \<not> (case pc_expiresAt c of None \<Rightarrow> False | Some t \<Rightarrow> now < t)))"

definition pending_requests :: "int \<Rightarrow> bool \<Rightarrow> remote_state \<Rightarrow> string list" where
  "pending_requests now hasCallback s = map rr_backendJobId (filter (needs_request now hasCallback) (jm_values (rs_remoteJobs s)))"

section \<open>Preparations and releases in progress\<close>

datatype prep_phase = PrepQueued | PrepAcquire | PrepCat | PrepDecrypt bytes | PrepRead | PrepRegister remote_capture
  | PrepCreate remote_capture | PrepRecord string

record preparation =
  pp_job :: remote_job
  pp_pinOwner :: "string option"
  pp_token :: nat
  pp_phase :: prep_phase

datatype release_phase = AwaitPreparing "nat option" | AwaitCancel "string list" | AwaitQuiescent "string list" | AwaitRemove | AwaitComplete
  | AwaitBlocked
  | AwaitPin string string | AwaitPinDone | AwaitPinFailed

record release_task =
  rl_record :: remote_record
  rl_phase :: release_phase

record provider_world = runtime_world +
  pv_store :: "remote_state store"
  pv_preparing :: "(string, preparation) jsmap"
  pv_inFlight :: "(string, release_task) jsmap"
  pv_token :: nat
  pv_pinCalls :: "(string \<times> string) list"

abbreviation remote_of :: "provider_world \<Rightarrow> remote_state" where
  "remote_of w \<equiv> store_snapshot empty_remote (pv_store w)"

abbreviation put_remote :: "remote_state store \<Rightarrow> provider_world \<Rightarrow> provider_world" where
  "put_remote st w \<equiv> w\<lparr>pv_store := st\<rparr>"

definition remote_update :: "tx_env \<Rightarrow> (remote_state \<Rightarrow> remote_state result) \<Rightarrow> (unit, provider_world) comp" where
  "remote_update env = transact pv_store put_remote empty_remote env"

record provider_env =
  pe_now :: int
  pe_tx :: tx_env
  pe_run :: run_env
  pe_rm :: bool
  pe_callback :: bool
  pe_pin :: "unit result"
  pe_acquire :: "unit result"
  pe_cat :: "bytes result"
  pe_crypto :: payload_crypto
  pe_io :: "nat \<Rightarrow> node_error option"
  pe_undo :: "(node_error \<times> path_tree) option"
  pe_maxInputBytes :: nat
  pe_secret :: bytes
  pe_manifest :: "json result"
  pe_sizes :: "nat \<Rightarrow> nat result"

definition set_prep :: "string \<Rightarrow> prep_phase \<Rightarrow> provider_world \<Rightarrow> provider_world" where
  "set_prep i ph w = (case jm_get (pv_preparing w) i of None \<Rightarrow> w
     | Some p \<Rightarrow> w\<lparr>pv_preparing := jm_set i (p\<lparr>pp_phase := ph\<rparr>) (pv_preparing w)\<rparr>)"

definition end_prep :: "string \<Rightarrow> provider_world \<Rightarrow> provider_world" where
  "end_prep i w = w\<lparr>pv_preparing := jm_delete i (pv_preparing w)\<rparr>"

definition set_release :: "string \<Rightarrow> release_phase \<Rightarrow> provider_world \<Rightarrow> provider_world" where
  "set_release i ph w = (case jm_get (pv_inFlight w) i of None \<Rightarrow> w
     | Some l \<Rightarrow> w\<lparr>pv_inFlight := jm_set i (l\<lparr>rl_phase := ph\<rparr>) (pv_inFlight w)\<rparr>)"

definition end_release :: "string \<Rightarrow> provider_world \<Rightarrow> provider_world" where
  "end_release i w = w\<lparr>pv_inFlight := jm_delete i (pv_inFlight w)\<rparr>"

text \<open>The directory of a remote job, and the one its capture is decrypted to.\<close>

definition remote_dir :: "string \<Rightarrow> string list" where
  "remote_dir i = [''private'', ''remote-jobs'', i]"

definition capture_dir :: "string \<Rightarrow> string list" where
  "capture_dir i = remote_dir i @ [''capture'']"

section \<open>Operations\<close>

text \<open>A step of the job runtime inside the larger world.\<close>

definition in_runtime :: "('a, runtime_world) comp \<Rightarrow> ('a, provider_world) comp" where
  "in_runtime m w = (case m (runtime_world.truncate w) of (r, v) \<Rightarrow> (r, runtime_world.extend v (runtime_world.more w)))"

definition provider_own :: "provider_env \<Rightarrow> remote_job \<Rightarrow> (remote_record, provider_world) comp" where
  "provider_own env job =
     (if \<not> jobIdPattern (jo_id job) \<or> jo_inputCid job = [] \<or> jo_expiresAt job = None then throw (PlainError ''provider_job_identity_invalid'')
      else andThen (remote_update (pe_tx env) (own_remote (pe_now env) job)) (\<lambda>_.
           reads (\<lambda>w. the (jm_get (rs_remoteJobs (remote_of w)) (jo_id job)))))"

text \<open>\<open>runPreparation\<close> up to its first wait.\<close>

definition start_preparation :: "remote_job \<Rightarrow> remote_record \<Rightarrow> (unit, provider_world) comp" where
  "start_preparation job r w =
     (if jm_has (pv_preparing w) (jo_id job) then (Inl (PlainError ''provider_preparation_in_progress''), w)
      else (Inr (), w\<lparr>pv_preparing := jm_set (jo_id job) \<lparr>pp_job = job, pp_pinOwner = (case rr_cleanup r of None \<Rightarrow> None | Some c \<Rightarrow> pc_pinOwner c),
              pp_token = pv_token w, pp_phase = PrepQueued\<rparr> (pv_preparing w), pv_token := Suc (pv_token w)\<rparr>))"

fun stat_sum :: "(nat \<Rightarrow> nat result) \<Rightarrow> json list \<Rightarrow> nat result" where
  "stat_sum sizes [] = Inr 0"
| "stat_sum sizes (item # items) =
     (if item = JNull then Inl (PlainError ''TypeError'')
      else if str_field (json_field (Some item) ''path'') = [] then stat_sum sizes items
      else res_bind (sizes (length items)) (\<lambda>n. res_bind (stat_sum sizes items) (\<lambda>m. Inr (n + m))))"

definition readRemoteCapture :: "provider_env \<Rightarrow> string \<Rightarrow> remote_capture result" where
  "readRemoteCapture env i =
     res_bind (pe_manifest env) (\<lambda>manifest.
       if manifest = JNull then Inl (PlainError ''TypeError'')
       else let files = (case json_field (Some manifest) ''files'' of Some (JArr js) \<Rightarrow> js | _ \<Rightarrow> []);
                marker = str_field (json_field (Some manifest) ''markerId'')
         in res_bind (stat_sum (pe_sizes env) files) (\<lambda>size.
           Inr \<lparr>rc_directory = capture_dir i, rc_artworkId = str_field (json_field (Some manifest) ''artworkId''),
             rc_markerId = (if marker = [] then None else Some marker), rc_sizeBytes = size, rc_fileCount = length files\<rparr>))"

definition proceed :: "provider_env \<Rightarrow> string \<Rightarrow> prep_phase \<Rightarrow> provider_world \<Rightarrow> provider_world" where
  "proceed env i ph w = (if assertPreparing (pe_now env) i (remote_of w) then set_prep i ph w else end_prep i w)"

definition job_input :: "string \<Rightarrow> remote_capture \<Rightarrow> json" where
  "job_input i c = JObj ([(''captureId'', JStr (remote_capture_id i)), (''artworkId'', JStr (rc_artworkId c))]
     @ (case rc_markerId c of None \<Rightarrow> [] | Some m \<Rightarrow> [(''markerId'', JStr m)]) @ [(''remoteComputeJobId'', JStr i)])"

definition running_record :: "int \<Rightarrow> string \<Rightarrow> string \<Rightarrow> remote_state \<Rightarrow> remote_state result" where
  "running_record now i localId s =
     (case jm_get (rs_remoteJobs s) i of
        None \<Rightarrow> Inl (PlainError ''TypeError'')
      | Some r \<Rightarrow> Inr (s\<lparr>rs_remoteJobs := jm_set i (r\<lparr>rr_localJobId := Some localId, rr_state := ''RUNNING'', rr_updatedAt := now\<rparr>)
                          (rs_remoteJobs s)\<rparr>))"

definition prep_step :: "provider_env \<Rightarrow> string \<Rightarrow> provider_world \<Rightarrow> provider_world" where
  "prep_step env i w =
     (case jm_get (pv_preparing w) i of
        None \<Rightarrow> w
      | Some p \<Rightarrow>
          (case pp_phase p of
             PrepQueued \<Rightarrow> if opt_str (pp_pinOwner p) = [] then end_prep i w else proceed env i PrepAcquire w
           | PrepAcquire \<Rightarrow> (case pe_acquire env of Inl _ \<Rightarrow> end_prep i w | Inr _ \<Rightarrow> proceed env i PrepCat w)
           | PrepCat \<Rightarrow> (case pe_cat env of Inl _ \<Rightarrow> end_prep i w | Inr b \<Rightarrow> proceed env i (PrepDecrypt b) w)
           | PrepDecrypt b \<Rightarrow>
               (case decryptToDirectory (pe_crypto env) (pe_io env) (pe_undo env) (pe_maxInputBytes env) (pe_secret env) b
                       (jo_inputKeyEnvelope (pp_job p)) (capture_dir i) (jo_inputHash (pp_job p)) (jw_tree w) of
                  (Inl _, tree) \<Rightarrow> end_prep i (w\<lparr>jw_tree := tree\<rparr>)
                | (Inr _, tree) \<Rightarrow> proceed env i PrepRead (w\<lparr>jw_tree := tree\<rparr>))
           | PrepRead \<Rightarrow> (case readRemoteCapture env i of Inl _ \<Rightarrow> end_prep i w | Inr c \<Rightarrow> set_prep i (PrepRegister c) w)
           | PrepRegister c \<Rightarrow>
               if jm_get (jw_tree w) (rc_directory c) = None then end_prep i w
               else (case remote_update (pe_tx env) (\<lambda>s. Inr (s\<lparr>rs_captures := jm_set (remote_capture_id i) c (rs_captures s)\<rparr>)) w of
                       (Inl _, w1) \<Rightarrow> end_prep i w1
                     | (Inr _, w1) \<Rightarrow> proceed env i (PrepCreate c) w1)
           | PrepCreate c \<Rightarrow>
               (case in_runtime (create_job (pe_run env) (jo_type (pp_job p)) (job_input i c)) w of
                  (Inl _, w1) \<Rightarrow> end_prep i w1
                | (Inr local, w1) \<Rightarrow> set_prep i (PrepRecord (jb_id local)) w1)
           | PrepRecord localId \<Rightarrow>
               end_prep i (snd (remote_update (pe_tx env) (running_record (pe_now env) i localId) w))))"

text \<open>\<open>releasePin\<close> up to its wait: nothing to do, or the call to make.\<close>

definition begin_pin :: "provider_env \<Rightarrow> string \<Rightarrow> remote_record \<Rightarrow> provider_world \<Rightarrow> provider_world" where
  "begin_pin env i r w =
     (case rr_cleanup r of
        None \<Rightarrow> end_release i w
      | Some c \<Rightarrow>
          if \<not> pc_inputPinReleasePending c \<or> opt_str (pc_pinOwner c) = [] \<or> \<not> pe_callback env then end_release i w
          else w\<lparr>pv_inFlight := jm_set i \<lparr>rl_record = r, rl_phase = AwaitPin (pc_inputCid c) (opt_str (pc_pinOwner c))\<rparr> (pv_inFlight w)\<rparr>)"

text \<open>\<open>release\<close> up to its first wait.\<close>

definition start_release :: "provider_env \<Rightarrow> string \<Rightarrow> (unit, provider_world) comp" where
  "start_release env i w =
     (case jm_get (rs_remoteJobs (remote_of w)) i of
        None \<Rightarrow> (Inl (PlainError ''provider_cleanup_ownership_unverified''), w)
      | Some r \<Rightarrow>
          (case rr_cleanup r of
             None \<Rightarrow> (Inl (PlainError ''provider_cleanup_ownership_unverified''), w)
           | Some c \<Rightarrow>
               if rr_role r \<noteq> Provider \<or> \<not> pc_requested c \<or> \<not> jobIdPattern i
               then (Inl (PlainError ''provider_cleanup_ownership_unverified''), w)
               else if pc_plaintext c = Complete then (Inr (), begin_pin env i r w)
               else (Inr (), w\<lparr>pv_inFlight := jm_set i \<lparr>rl_record = r,
                       rl_phase = AwaitPreparing (map_option pp_token (jm_get (pv_preparing w) i))\<rparr> (pv_inFlight w)\<rparr>)))"

text \<open>\<open>request\<close> and \<open>reconcile\<close>: a release in flight for the job is joined.\<close>

definition request :: "provider_env \<Rightarrow> string \<Rightarrow> (unit, provider_world) comp" where
  "request env i =
     andThen (remote_update (pe_tx env) (request_record (pe_now env) i)) (\<lambda>_.
     andThen (reads (\<lambda>w. jm_has (pv_inFlight w) i)) (\<lambda>active. if active then ret () else start_release env i))"

text \<open>The local jobs that may read the input, each once.\<close>

definition reads_capture :: "string \<Rightarrow> local_job \<Rightarrow> bool" where
  "reads_capture i job \<longleftrightarrow> json_field (Some (jb_input job)) ''remoteComputeJobId'' = Some (JStr i) \<or>
     json_field (Some (jb_input job)) ''captureId'' = Some (JStr (remote_capture_id i))"

definition local_ids :: "string \<Rightarrow> remote_record \<Rightarrow> provider_world \<Rightarrow> string list" where
  "local_ids i r w =
     (let ids = remdups (map jb_id (filter (reads_capture i) (jm_values (js_jobs (jobs_of w))))); extra = opt_str (rr_localJobId r)
      in if extra = [] \<or> extra \<in> set ids then ids else ids @ [extra])"

definition capture_path_ok :: "string \<Rightarrow> remote_state \<Rightarrow> bool" where
  "capture_path_ok i s = (case jm_get (rs_captures s) (remote_capture_id i) of None \<Rightarrow> True | Some c \<Rightarrow> rc_directory c = capture_dir i)"

definition after_quiescent :: "string \<Rightarrow> provider_world \<Rightarrow> provider_world" where
  "after_quiescent i w = set_release i (if capture_path_ok i (remote_of w) then AwaitRemove else AwaitBlocked) w"

definition quiesce_next :: "string \<Rightarrow> string list \<Rightarrow> provider_world \<Rightarrow> provider_world" where
  "quiesce_next i js w = (if js = [] then after_quiescent i w else set_release i (AwaitCancel js) w)"

definition release_step :: "provider_env \<Rightarrow> string \<Rightarrow> provider_world \<Rightarrow> provider_world" where
  "release_step env i w =
     (case jm_get (pv_inFlight w) i of
        None \<Rightarrow> w
      | Some l \<Rightarrow>
          (case rl_phase l of
             AwaitPreparing token \<Rightarrow>
               if token \<noteq> None \<and> map_option pp_token (jm_get (pv_preparing w) i) = token then w
               else if rr_captureId (rl_record l) \<noteq> Some (remote_capture_id i) then set_release i AwaitBlocked w
               else quiesce_next i (local_ids i (rl_record l) w) w
           | AwaitCancel [] \<Rightarrow> after_quiescent i w
           | AwaitCancel (j # js) \<Rightarrow>
               (case in_runtime (cancel_job (pe_run env) j) w of
                  (Inl _, w1) \<Rightarrow> set_release i AwaitBlocked w1
                | (Inr _, w1) \<Rightarrow> set_release i (AwaitQuiescent (j # js)) w1)
           | AwaitQuiescent [] \<Rightarrow> after_quiescent i w
           | AwaitQuiescent (j # js) \<Rightarrow>
               if jm_has (rw_running w) j then w
               else (case ensureQuiescent (pe_run env) j w of
                       (Inl _, w1) \<Rightarrow> set_release i AwaitBlocked w1
                     | (Inr _, w1) \<Rightarrow> quiesce_next i js w1)
           | AwaitRemove \<Rightarrow>
               (case removeOwnedWorkDirectory (pe_rm env) ''remote-jobs'' i (jw_tree w) of
                  Inl _ \<Rightarrow> set_release i AwaitBlocked w
                | Inr tree \<Rightarrow> set_release i AwaitComplete (w\<lparr>jw_tree := tree\<rparr>))
           | AwaitComplete \<Rightarrow>
               (case remote_update (pe_tx env) (complete_record (pe_now env) i) w of
                  (Inl _, w1) \<Rightarrow> set_release i AwaitBlocked w1
                | (Inr _, w1) \<Rightarrow> begin_pin env i (the (jm_get (rs_remoteJobs (remote_of w1)) i)) w1)
           | AwaitBlocked \<Rightarrow> end_release i (snd (remote_update (pe_tx env) (blocked_record (pe_now env) i) w))
           | AwaitPin cid owner \<Rightarrow>
               set_release i (case pe_pin env of Inl _ \<Rightarrow> AwaitPinFailed | Inr _ \<Rightarrow> AwaitPinDone)
                 (w\<lparr>pv_pinCalls := pv_pinCalls w @ [(cid, owner)]\<rparr>)
           | AwaitPinDone \<Rightarrow>
               (case remote_update (pe_tx env) (pin_released_record i) w of
                  (Inl _, w1) \<Rightarrow> set_release i AwaitPinFailed w1
                | (Inr _, w1) \<Rightarrow> end_release i w1)
           | AwaitPinFailed \<Rightarrow> end_release i (snd (remote_update (pe_tx env) (pin_retry_record i) w))))"

text \<open>\<open>updateRecord\<close> of the runtime, which keeps the journal.\<close>

definition track_record :: "int \<Rightarrow> string \<Rightarrow> remote_role \<Rightarrow> string \<Rightarrow> remote_state \<Rightarrow> remote_state result" where
  "track_record now i role st s =
     Inr (s\<lparr>rs_remoteJobs := jm_set i
        (case jm_get (rs_remoteJobs s) i of
           None \<Rightarrow> \<lparr>rr_backendJobId = i, rr_localJobId = None, rr_captureId = None, rr_role = role, rr_state = st, rr_updatedAt = now, rr_cleanup = None\<rparr>
         | Some r \<Rightarrow> r\<lparr>rr_state := st, rr_updatedAt := now\<rparr>) (rs_remoteJobs s)\<rparr>)"

text \<open>A local job found for a record that lost its id in a crash.\<close>

definition adopt_record :: "string \<Rightarrow> string \<Rightarrow> remote_state \<Rightarrow> remote_state result" where
  "adopt_record i localId s =
     (case jm_get (rs_remoteJobs s) i of
        None \<Rightarrow> Inl (PlainError ''TypeError'')
      | Some r \<Rightarrow> Inr (s\<lparr>rs_remoteJobs := jm_set i (r\<lparr>rr_localJobId := Some localId\<rparr>) (rs_remoteJobs s)\<rparr>))"

section \<open>Interleaving\<close>

text \<open>What other components may do: anything but change the journal, the tasks here, and the files below the
  directories of remote jobs.\<close>

definition leaves_remote :: "provider_world \<Rightarrow> provider_world \<Rightarrow> bool" where
  "leaves_remote w w' \<longleftrightarrow> pv_store w' = pv_store w \<and> pv_preparing w' = pv_preparing w \<and> pv_inFlight w' = pv_inFlight w \<and>
     pv_token w' = pv_token w \<and> pv_pinCalls w' = pv_pinCalls w \<and>
     (\<forall>q. below [''private'', ''remote-jobs''] q \<longrightarrow> jm_get (jw_tree w') q = jm_get (jw_tree w) q)"

definition restart :: "provider_world \<Rightarrow> provider_world" where
  "restart w = w\<lparr>pv_preparing := [], pv_inFlight := [], rw_running := [], rw_tasks := [], rw_dispatching := False\<rparr>"

definition is_decrypting :: "string \<Rightarrow> provider_world \<Rightarrow> bool" where
  "is_decrypting i w = (case jm_get (pv_preparing w) i of None \<Rightarrow> False | Some p \<Rightarrow> (case pp_phase p of PrepDecrypt _ \<Rightarrow> True | _ \<Rightarrow> False))"

inductive provider_step :: "string \<Rightarrow> provider_world \<Rightarrow> provider_world \<Rightarrow> bool" for p where
  Own: "writes_beside p (pe_tx env) \<Longrightarrow> provider_step p w (snd (provider_own env job w))"
| Prepare: "provider_step p w (snd (start_preparation job r w))"
| Prep: "writes_beside p (pe_tx env) \<Longrightarrow> provider_step p w (prep_step env i w)"
| Decrypting: "is_decrypting i w \<Longrightarrow> \<forall>q. \<not> below (remote_dir i) q \<longrightarrow> jm_get tree q = jm_get (jw_tree w) q \<Longrightarrow>
    provider_step p w (w\<lparr>jw_tree := tree\<rparr>)"
| Request: "writes_beside p (pe_tx env) \<Longrightarrow> provider_step p w (snd (request env i w))"
| Release: "writes_beside p (pe_tx env) \<Longrightarrow> provider_step p w (release_step env i w)"
| Track: "writes_beside p tx \<Longrightarrow> provider_step p w (snd (remote_update tx (track_record now i role st) w))"
| Adopt: "writes_beside p tx \<Longrightarrow> provider_step p w (snd (remote_update tx (adopt_record i localId) w))"
| Restart: "provider_step p w (restart w)"
| Others: "leaves_remote w w' \<Longrightarrow> provider_step p w w'"

section \<open>The invariant\<close>

interpretation remote_store: store_in_world pv_store put_remote
  by unfold_locales simp

lemma remote_update_cases:
  assumes "synced p (pv_store w)" and "writes_beside p env"
  obtains (commit) s' st where "m (remote_of w) = Inr s'" "remote_update env m w = (Inr (), w\<lparr>pv_store := st\<rparr>)"
      "synced p st" "store_snapshot empty_remote st = s'"
    | (abort) e st where "remote_update env m w = (Inl e, w\<lparr>pv_store := st\<rparr>)"
      "synced p st" "store_snapshot empty_remote st = remote_of w"
proof -
  have "wp (remote_update env m)
      (\<lambda>_ w'. \<exists>s' st. m (remote_of w) = Inr s' \<and> w' = w\<lparr>pv_store := st\<rparr> \<and> synced p st \<and> store_snapshot empty_remote st = s')
      (\<lambda>_ w'. \<exists>st. w' = w\<lparr>pv_store := st\<rparr> \<and> synced p st \<and> store_snapshot empty_remote st = remote_of w) w"
    unfolding remote_update_def
    by (rule remote_store.wp_transact [OF assms]) (auto dest: sym)
  then show thesis
    using that by (cases "remote_update env m w"; cases "fst (remote_update env m w)") (auto simp: wp_def)
qed

definition journal :: "string \<Rightarrow> remote_state \<Rightarrow> provider_cleanup option" where
  "journal i s = (case jm_get (rs_remoteJobs s) i of None \<Rightarrow> None | Some r \<Rightarrow> rr_cleanup r)"

definition completed :: "string \<Rightarrow> provider_world \<Rightarrow> bool" where
  "completed i w = (case journal i (remote_of w) of None \<Rightarrow> False | Some c \<Rightarrow> pc_plaintext c = Complete)"

definition requested :: "string \<Rightarrow> provider_world \<Rightarrow> bool" where
  "requested i w = (case journal i (remote_of w) of None \<Rightarrow> False | Some c \<Rightarrow> pc_requested c)"

definition no_files :: "string \<Rightarrow> provider_world \<Rightarrow> bool" where
  "no_files i w \<longleftrightarrow> (\<forall>q. below (remote_dir i) q \<longrightarrow> jm_get (jw_tree w) q = None)"

definition no_capture :: "string \<Rightarrow> provider_world \<Rightarrow> bool" where
  "no_capture i w \<longleftrightarrow> jm_get (rs_captures (remote_of w)) (remote_capture_id i) = None"

text \<open>The pin a job's journal accounts for: the input and the owner it is held under.\<close>

definition input_pin :: "string \<Rightarrow> remote_state \<Rightarrow> (string \<times> string) option" where
  "input_pin i s = map_option (\<lambda>c. (pc_inputCid c, opt_str (pc_pinOwner c))) (journal i s)"

text \<open>No preparation of the job is past its first check.\<close>

definition idle :: "string \<Rightarrow> provider_world \<Rightarrow> bool" where
  "idle i w = (case jm_get (pv_preparing w) i of None \<Rightarrow> True | Some pr \<Rightarrow> pp_phase pr = PrepQueued)"

fun phase_ok :: "string \<Rightarrow> provider_world \<Rightarrow> release_phase \<Rightarrow> bool" where
  "phase_ok i w (AwaitPreparing token) \<longleftrightarrow> \<not> completed i w \<and>
     (idle i w \<or> (token \<noteq> None \<and> map_option pp_token (jm_get (pv_preparing w) i) = token))"
| "phase_ok i w AwaitComplete \<longleftrightarrow> \<not> completed i w \<and> idle i w \<and> no_files i w"
| "phase_ok i w (AwaitPin cid owner) \<longleftrightarrow> completed i w \<and> input_pin i (remote_of w) = Some (cid, owner)"
| "phase_ok i w AwaitPinDone \<longleftrightarrow> completed i w"
| "phase_ok i w AwaitPinFailed \<longleftrightarrow> completed i w"
| "phase_ok i w _ \<longleftrightarrow> \<not> completed i w \<and> idle i w"

definition item_ok :: "string \<Rightarrow> provider_world \<Rightarrow> bool" where
  "item_ok i w \<longleftrightarrow>
     (completed i w \<longrightarrow> requested i w \<and> no_files i w \<and> no_capture i w \<and> idle i w) \<and>
     (case jm_get (pv_inFlight w) i of None \<Rightarrow> True | Some l \<Rightarrow> requested i w \<and> phase_ok i w (rl_phase l))"

definition provider_inv :: "string \<Rightarrow> provider_world \<Rightarrow> bool" where
  "provider_inv p w \<longleftrightarrow> synced p (pv_store w) \<and> (\<forall>i. item_ok i w)"

text \<open>What the invariant of one job depends on.\<close>

definition same_item :: "string \<Rightarrow> provider_world \<Rightarrow> provider_world \<Rightarrow> bool" where
  "same_item i w w' \<longleftrightarrow> journal i (remote_of w') = journal i (remote_of w) \<and>
     jm_get (rs_captures (remote_of w')) (remote_capture_id i) = jm_get (rs_captures (remote_of w)) (remote_capture_id i) \<and>
     jm_get (pv_preparing w') i = jm_get (pv_preparing w) i \<and>
     jm_get (pv_inFlight w') i = jm_get (pv_inFlight w) i \<and>
     (\<forall>q. below (remote_dir i) q \<longrightarrow> jm_get (jw_tree w') q = jm_get (jw_tree w) q)"

lemma same_item_facts:
  assumes "same_item i w w'"
  shows "completed i w' = completed i w" "requested i w' = requested i w" "no_files i w' = no_files i w"
    "no_capture i w' = no_capture i w" "idle i w' = idle i w"
  using assms by (simp_all add: same_item_def completed_def requested_def no_files_def no_capture_def idle_def)

lemma same_item_ok:
  assumes "same_item i w w'" shows "item_ok i w' = item_ok i w"
proof -
  have "phase_ok i w' ph = phase_ok i w ph" for ph
    using assms same_item_facts [OF assms] by (cases ph) (simp_all add: same_item_def input_pin_def)
  then show ?thesis
    using assms same_item_facts [OF assms] by (simp add: item_ok_def same_item_def split: option.split)
qed

text \<open>A step that concerns one job.\<close>

definition only :: "string \<Rightarrow> provider_world \<Rightarrow> provider_world \<Rightarrow> bool" where
  "only i w w' \<longleftrightarrow> (\<forall>j. j \<noteq> i \<longrightarrow> same_item j w w')"

lemma provider_inv_move:
  assumes "provider_inv p w" and "synced p (pv_store w')" and "only i w w'" and "item_ok i w'"
  shows "provider_inv p w'"
  using assms same_item_ok by (auto simp: provider_inv_def only_def) (metis)

lemma remote_capture_id_inj [simp]: "remote_capture_id i = remote_capture_id j \<longleftrightarrow> i = j"
  by (simp add: remote_capture_id_def)

lemma below_remote_dir: "below (remote_dir i) q \<Longrightarrow> below (remote_dir j) q \<Longrightarrow> i = j"
  by (auto simp: below_def remote_dir_def)

lemma below_append: "below (a @ b) q \<Longrightarrow> below a q"
proof -
  assume "below (a @ b) q"
  then have "take (length a) (take (length (a @ b)) q) = take (length a) (a @ b)" unfolding below_def by (rule arg_cong)
  then show "below a q" by (simp add: below_def)
qed

lemma only_trans: "only i w w1 \<Longrightarrow> only i w1 w2 \<Longrightarrow> only i w w2"
  by (simp add: only_def same_item_def)

lemma only_simps [simp]:
  "only i w (set_prep i ph w)" "only i w (end_prep i w)" "only i w (set_release i ph' w)" "only i w (end_release i w)" "only i w w"
  by (auto simp: only_def same_item_def set_prep_def end_prep_def set_release_def end_release_def split: option.splits)

lemma tasks_keep [simp]:
  "pv_store (set_prep i ph w) = pv_store w" "pv_store (end_prep i w) = pv_store w"
  "pv_store (set_release i ph' w) = pv_store w" "pv_store (end_release i w) = pv_store w"
  "pv_inFlight (set_prep i ph w) = pv_inFlight w" "pv_inFlight (end_prep i w) = pv_inFlight w"
  "pv_preparing (set_release i ph' w) = pv_preparing w" "pv_preparing (end_release i w) = pv_preparing w"
  "jw_tree (set_prep i ph w) = jw_tree w" "jw_tree (end_prep i w) = jw_tree w"
  "jw_tree (set_release i ph' w) = jw_tree w" "jw_tree (end_release i w) = jw_tree w"
  by (simp_all add: set_prep_def end_prep_def set_release_def end_release_def split: option.split)

lemma views_keep [simp]:
  "completed i (set_prep j ph w) = completed i w" "completed i (end_prep j w) = completed i w"
  "completed i (set_release j ph' w) = completed i w" "completed i (end_release j w) = completed i w"
  "requested i (set_prep j ph w) = requested i w" "requested i (end_prep j w) = requested i w"
  "requested i (set_release j ph' w) = requested i w" "requested i (end_release j w) = requested i w"
  "no_files i (set_prep j ph w) = no_files i w" "no_files i (end_prep j w) = no_files i w"
  "no_files i (set_release j ph' w) = no_files i w" "no_files i (end_release j w) = no_files i w"
  "no_capture i (set_prep j ph w) = no_capture i w" "no_capture i (end_prep j w) = no_capture i w"
  "no_capture i (set_release j ph' w) = no_capture i w" "no_capture i (end_release j w) = no_capture i w"
  "idle i (set_release j ph' w) = idle i w" "idle i (end_release j w) = idle i w" "idle i (end_prep i w)"
  by (simp_all add: completed_def requested_def no_files_def no_capture_def idle_def)
    (simp add: end_prep_def)

subsection \<open>Preparations\<close>

lemma end_prep_ok: "item_ok i w \<Longrightarrow> item_ok i (end_prep i w)"
proof -
  have "phase_ok i w ph \<Longrightarrow> phase_ok i (end_prep i w) ph" for ph by (cases ph) simp_all
  then show "item_ok i w \<Longrightarrow> item_ok i (end_prep i w)" by (auto simp: item_ok_def split: option.splits)
qed

text \<open>While a preparation is at work, the journal is not complete and a release can only be waiting for it.\<close>

lemma busy_ok:
  assumes "item_ok i w" and "\<not> idle i w" and "journal i (remote_of w') = journal i (remote_of w)"
    and "map_option pp_token (jm_get (pv_preparing w') i) = map_option pp_token (jm_get (pv_preparing w) i)"
    and "jm_get (pv_inFlight w') i = jm_get (pv_inFlight w) i"
  shows "item_ok i w'"
proof -
  have "completed i w' = completed i w" "requested i w' = requested i w"
    using assms(3) by (simp_all add: completed_def requested_def)
  moreover have "phase_ok i w ph \<Longrightarrow> \<not> completed i w \<Longrightarrow> phase_ok i w' ph" for ph
    using assms(2, 3, 4) calculation by (cases ph) (simp_all add: input_pin_def)
  ultimately show ?thesis
    using assms(1, 2, 5) by (auto simp: item_ok_def split: option.splits)
qed

lemma set_prep_token [simp]: "map_option pp_token (jm_get (pv_preparing (set_prep i ph w)) i) = map_option pp_token (jm_get (pv_preparing w) i)"
  by (simp add: set_prep_def split: option.split)

lemma set_prep_unrequested: "item_ok i w \<Longrightarrow> \<not> requested i w \<Longrightarrow> item_ok i (set_prep i ph w)"
  by (auto simp: item_ok_def split: option.splits)

lemma assert_unrequested: "assertPreparing now i (remote_of w) \<Longrightarrow> \<not> requested i w"
  by (auto simp: assertPreparing_def requested_def journal_def split: option.splits)

lemma proceed_ok: "item_ok i w \<Longrightarrow> item_ok i (proceed env i ph w)"
  by (simp add: proceed_def end_prep_ok set_prep_unrequested assert_unrequested)

lemma proceed_keep [simp]: "pv_store (proceed env i ph w) = pv_store w" "only i w (proceed env i ph w)"
  by (simp_all add: proceed_def)

lemma busy_phase: "jm_get (pv_preparing w) i = Some pr \<Longrightarrow> pp_phase pr \<noteq> PrepQueued \<Longrightarrow> \<not> idle i w"
  by (simp add: idle_def)

lemma set_prep_busy: "item_ok i w \<Longrightarrow> \<not> idle i w \<Longrightarrow> item_ok i (set_prep i ph w)"
  by (rule busy_ok) simp_all

text \<open>Decryption touches the files of no other job.\<close>

lemma decrypt_other_jobs:
  assumes "decryptToDirectory c io undo m sec b e (capture_dir i) h tree = (r, tree')" and "j \<noteq> i" and "below (remote_dir j) q"
  shows "jm_get tree' q = jm_get tree q"
proof (rule ccontr)
  assume ne: "jm_get tree' q \<noteq> jm_get tree q"
  have "\<not> below (capture_dir i) q"
    using below_append [of "remote_dir i" "[''capture'']" q] below_remote_dir [of j q i] assms(2, 3) by (auto simp: capture_dir_def)
  then obtain n where "n < length (capture_dir i)" "q = take (Suc n) (capture_dir i)"
    using decrypt_outside [OF assms(1)] ne by blast
  then show False using assms(2, 3)
    by (auto simp: below_def capture_dir_def remote_dir_def less_Suc_eq eval_nat_numeral)
qed

subsection \<open>What the job runtime leaves alone\<close>

text \<open>\<open>t\<close> agrees with a reference tree on the files of remote jobs.\<close>

definition same_remote_files :: "path_tree \<Rightarrow> path_tree \<Rightarrow> bool" where
  "same_remote_files t0 t \<longleftrightarrow> (\<forall>i q. below (remote_dir i) q \<longrightarrow> jm_get t q = jm_get t0 q)"

text \<open>The world is the job runtime's as far as this component is concerned.\<close>

definition jobs_only :: "path_tree \<Rightarrow> 'a \<Rightarrow> 'a job_world_scheme \<Rightarrow> bool" where
  "jobs_only t0 m v \<longleftrightarrow> same_remote_files t0 (jw_tree v) \<and> job_world.more v = m"

lemma wp_jobs_update_only:
  assumes "jobs_only t0 x w"
  shows "wp (jobs_update env m) (\<lambda>_. jobs_only t0 x) (\<lambda>_. jobs_only t0 x) w"
  using assms by (simp add: wp_def jobs_only_def jobs_update_def transact_def split: prod.split sum.split)

lemma job_dir_not_remote: "below [''private'', ''jobs'', j] q \<Longrightarrow> \<not> below (remote_dir i) q"
  by (auto simp: below_def remote_dir_def)

lemma remove_jobs_only:
  assumes "removeOwnedWorkDirectory works ''jobs'' j (jw_tree v) = Inr t" and "jobs_only t0 x v"
  shows "jobs_only t0 x (v\<lparr>jw_tree := t\<rparr>)"
proof -
  have "t = remove_below [''private'', ''jobs'', j] (jw_tree v)"
    using assms(1) by (auto simp: removeOwnedWorkDirectory_def remove_below_def split: if_splits sum.splits)
  then show ?thesis
    using assms(2) job_dir_not_remote by (auto simp: jobs_only_def same_remote_files_def get_remove_below)
qed

lemma release_job_only:
  assumes "jobs_only t0 x w"
  shows "wp (release_job env i) (\<lambda>_. jobs_only t0 x) (\<lambda>_. jobs_only t0 x) w"
proof -
  let ?I = "jobs_only t0 x"
  have b: "wp (andThen (jobs_update en m) (\<lambda>_. throw e)) (\<lambda>_. ?I) (\<lambda>_. ?I) v" if "?I v" for en m e v
    using wp_jobs_update_only [OF that] by (simp add: wp_simps)
  have "wp (release_owned env i c) (\<lambda>_. ?I) (\<lambda>_. ?I) w" for c
    unfolding release_owned_def
    by (rule wp_handle_inv)
      (use assms b in \<open>auto simp: wp_simps split: sum.split intro!: wp_jobs_update_only intro: remove_jobs_only\<close>)
  then show ?thesis
    using assms by (simp add: release_job_def wp_simps split: option.split)
qed

lemma ensureQuiescent_only:
  assumes "jobs_only t0 x w"
  shows "jobs_only t0 x (snd (ensureQuiescent env i w))"
proof -
  let ?I = "jobs_only t0 x"
  have "wp (if open_journal then release_job (re_cleanup env) i else ret ()) (\<lambda>_. ?I) (\<lambda>_. ?I) w" for open_journal
    using release_job_only [OF assms] assms by (simp add: wp_simps)
  then have "wp (andThen (if open_journal then release_job (re_cleanup env) i else ret ())
      (\<lambda>_. andThen (reads (unverified i job)) (\<lambda>bad. if bad then throw (localError 409 ''worker_quiescence_unverified'') else ret ())))
      (\<lambda>_. ?I) (\<lambda>_. ?I) w" for open_journal job
    by (rule wp_then) (simp add: wp_simps)
  then have "wp (ensureQuiescent env i) (\<lambda>_. ?I) (\<lambda>_. ?I) w"
    using assms by (simp add: ensureQuiescent_def get_job_def wp_simps split: option.split)
  then show ?thesis by (rule wp_snd)
qed

text \<open>Cancelling and creating a job change no file at all.\<close>

lemma wp_jobs_update_tree: "jw_tree w = t \<Longrightarrow> wp (jobs_update env m) (\<lambda>_ v. jw_tree v = t) (\<lambda>_ v. jw_tree v = t) w"
  by (simp add: wp_def jobs_update_def transact_def split: prod.split sum.split)

lemma cancel_job_tree: "jw_tree (snd (cancel_job env i w)) = jw_tree w"
proof -
  have "wp (cancel_job env i) (\<lambda>_ v. jw_tree v = jw_tree w) (\<lambda>_ v. jw_tree v = jw_tree w) w"
    unfolding cancel_job_def get_job_def
    by (auto simp: wp_simps split: option.split intro!: wp_mono [OF wp_jobs_update_tree [OF refl]])
      (auto simp: wp_simps abort_run_def split: option.split)
  then show ?thesis by (rule wp_snd)
qed

lemma create_job_tree: "jw_tree (snd (create_job env ty input w)) = jw_tree w"
proof -
  let ?I = "\<lambda>v. jw_tree v = jw_tree w"
  have ins: "wp (insert_job env t input c) (\<lambda>_. ?I) (\<lambda>_. ?I) w" for t c
    unfolding insert_job_def Let_def
    by (auto simp: wp_simps intro!: wp_mono [OF wp_jobs_update_tree [OF refl]])
      (auto simp: wp_simps schedule_def split: option.split)
  have "wp (create_job env ty input) (\<lambda>_. ?I) (\<lambda>_. ?I) w"
    unfolding create_job_def using ins
    by (auto simp: wp_simps split: option.split sum.split)
  then show ?thesis by (rule wp_snd)
qed

lemma more_provider:
  fixes w v :: provider_world
  assumes "job_world.more v = job_world.more w"
  shows "pv_store v = pv_store w" "pv_preparing v = pv_preparing w" "pv_inFlight v = pv_inFlight w" "pv_pinCalls v = pv_pinCalls w"
  using assms by (cases v; cases w; simp)+

lemma in_runtime_provider:
  "pv_store (snd (in_runtime m w)) = pv_store w" "pv_preparing (snd (in_runtime m w)) = pv_preparing w"
  "pv_inFlight (snd (in_runtime m w)) = pv_inFlight w" "pv_pinCalls (snd (in_runtime m w)) = pv_pinCalls w"
  "jw_tree (snd (in_runtime m w)) = jw_tree (snd (m (runtime_world.truncate w)))"
  by (cases w; auto simp: in_runtime_def runtime_world.defs split: prod.split)+

subsection \<open>Steps\<close>

lemma truncate_tree [simp]: "jw_tree (runtime_world.truncate w) = jw_tree w"
  by (cases w) (simp add: runtime_world.defs)

lemma provider_inv_item: "provider_inv p w \<Longrightarrow> item_ok i w"
  by (simp add: provider_inv_def)

lemma provider_inv_synced: "provider_inv p w \<Longrightarrow> synced p (pv_store w)"
  by (simp add: provider_inv_def)

text \<open>A step keeps the invariant, and a completed cleanup stays completed.\<close>

definition step_ok :: "string \<Rightarrow> provider_world \<Rightarrow> provider_world \<Rightarrow> bool" where
  "step_ok p w w' \<longleftrightarrow> provider_inv p w' \<and> (\<forall>i. completed i w \<longrightarrow> completed i w')"

lemma step_okI:
  assumes "provider_inv p w" and "synced p (pv_store w')" and "only i w w'" and "item_ok i w'" and "completed i w \<Longrightarrow> completed i w'"
  shows "step_ok p w w'"
proof -
  have "completed j w \<Longrightarrow> completed j w'" for j
    using assms(3, 5) same_item_facts(1) by (cases "j = i") (auto simp: only_def)
  then show ?thesis using provider_inv_move [OF assms(1-4)] by (simp add: step_ok_def)
qed

lemma step_ok_same:
  assumes "provider_inv p w" and "synced p (pv_store w')" and "\<And>j. same_item j w w'"
  shows "step_ok p w w'"
  using assms(1, 2) same_item_ok [OF assms(3)] same_item_facts(1) [OF assms(3)] by (simp add: step_ok_def provider_inv_def)

lemma step_ok_refl: "provider_inv p w \<Longrightarrow> step_ok p w w"
  by (simp add: step_ok_def)

lemma step_ok_trans: "step_ok p w w1 \<Longrightarrow> step_ok p w1 w2 \<Longrightarrow> step_ok p w w2"
  by (simp add: step_ok_def)

lemma step_ok_inv: "step_ok p w w' \<Longrightarrow> provider_inv p w'"
  by (simp add: step_ok_def)

text \<open>A change of the state that concerns one job, whether it is committed or not.\<close>

lemma store_step:
  assumes inv: "provider_inv p w" and env: "writes_beside p env"
    and other: "\<And>s' k. m (remote_of w) = Inr s' \<Longrightarrow> k \<noteq> i \<Longrightarrow> journal k s' = journal k (remote_of w) \<and>
      jm_get (rs_captures s') (remote_capture_id k) = jm_get (rs_captures (remote_of w)) (remote_capture_id k)"
    and own: "\<And>st. m (remote_of w) = Inr (store_snapshot empty_remote st) \<Longrightarrow>
      item_ok i (w\<lparr>pv_store := st\<rparr>) \<and> (completed i w \<longrightarrow> completed i (w\<lparr>pv_store := st\<rparr>))"
    and u: "remote_update env m w = (r, w1)"
  shows "step_ok p w w1 \<and> (\<exists>st. w1 = w\<lparr>pv_store := st\<rparr> \<and>
    (r = Inr () \<and> m (remote_of w) = Inr (store_snapshot empty_remote st) \<or> isl r \<and> store_snapshot empty_remote st = remote_of w))"
proof (rule remote_update_cases [OF provider_inv_synced [OF inv] env, of m])
  fix s' st
  assume m: "m (remote_of w) = Inr s'" and c: "remote_update env m w = (Inr (), w\<lparr>pv_store := st\<rparr>)"
    and st: "synced p st" "store_snapshot empty_remote st = s'"
  have "only i w (w\<lparr>pv_store := st\<rparr>)" using other [OF m] st(2) by (simp add: only_def same_item_def)
  then have "step_ok p w (w\<lparr>pv_store := st\<rparr>)"
    using own [of st] m st by (intro step_okI [OF inv, of _ i]) simp_all
  then show ?thesis using c u m st(2) by auto
next
  fix e st
  assume c: "remote_update env m w = (Inl e, w\<lparr>pv_store := st\<rparr>)" and st: "synced p st" "store_snapshot empty_remote st = remote_of w"
  have "step_ok p w (w\<lparr>pv_store := st\<rparr>)"
    by (rule step_ok_same [OF inv]) (simp_all add: st same_item_def)
  then show ?thesis using c u st(2) by auto
qed

text \<open>A busy preparation may commit a change that leaves the journals alone.\<close>

lemma busy_not_completed: "item_ok i w \<Longrightarrow> \<not> idle i w \<Longrightarrow> \<not> completed i w"
  by (simp add: item_ok_def)

lemma busy_update:
  assumes inv: "provider_inv p w" and env: "writes_beside p env" and busy: "\<not> idle i w"
    and j: "\<And>s s' k. m s = Inr s' \<Longrightarrow> journal k s' = journal k s"
    and c: "\<And>s s' k. m s = Inr s' \<Longrightarrow> k \<noteq> i \<Longrightarrow> jm_get (rs_captures s') (remote_capture_id k) = jm_get (rs_captures s) (remote_capture_id k)"
    and u: "remote_update env m w = (r, w1)"
  shows "step_ok p w w1"
proof (rule store_step [OF inv env _ _ u, THEN conjunct1])
  show "item_ok i (w\<lparr>pv_store := st\<rparr>) \<and> (completed i w \<longrightarrow> completed i (w\<lparr>pv_store := st\<rparr>))"
    if "m (remote_of w) = Inr (store_snapshot empty_remote st)" for st
    using busy_not_completed [OF provider_inv_item [OF inv] busy] busy_ok [OF provider_inv_item [OF inv] busy, of "w\<lparr>pv_store := st\<rparr>"] j [OF that]
    by simp
qed (use j c in blast)

lemma prep_moves:
  assumes inv: "provider_inv p w"
  shows "step_ok p w (end_prep i w)" "step_ok p w (proceed env i ph w)" "\<not> idle i w \<Longrightarrow> step_ok p w (set_prep i ph w)"
proof -
  note item = provider_inv_item [OF inv] and synced = provider_inv_synced [OF inv]
  show "step_ok p w (end_prep i w)"
    by (rule step_okI [OF inv, of _ i]) (simp_all add: synced end_prep_ok item)
  show "step_ok p w (proceed env i ph w)"
    by (rule step_okI [OF inv, of _ i]) (simp_all add: synced proceed_ok item, simp add: proceed_def)
  show "step_ok p w (set_prep i ph w)" if "\<not> idle i w"
    by (rule step_okI [OF inv, of _ i]) (simp_all add: synced set_prep_busy that item)
qed

lemma prep_then:
  assumes "step_ok p w w1"
  shows "step_ok p w (end_prep i w1)" "step_ok p w (proceed env i ph w1)" "\<not> idle i w1 \<Longrightarrow> step_ok p w (set_prep i ph w1)"
  using prep_moves [OF step_ok_inv [OF assms]] step_ok_trans [OF assms] by blast+

text \<open>The files of a job that is being prepared may change.\<close>

lemma busy_files:
  assumes inv: "provider_inv p w" and busy: "\<not> idle i w"
    and files: "\<And>j q. j \<noteq> i \<Longrightarrow> below (remote_dir j) q \<Longrightarrow> jm_get t q = jm_get (jw_tree w) q"
  shows "step_ok p w (w\<lparr>jw_tree := t\<rparr>)"
proof (rule step_okI [OF inv])
  show "only i w (w\<lparr>jw_tree := t\<rparr>)" using files by (simp add: only_def same_item_def)
  show "item_ok i (w\<lparr>jw_tree := t\<rparr>)" by (rule busy_ok [OF provider_inv_item [OF inv] busy]) simp_all
qed (use provider_inv_synced [OF inv] in \<open>simp_all add: completed_def\<close>)

text \<open>Work of the job runtime that leaves the files of remote jobs alone.\<close>

lemma runtime_work:
  assumes inv: "provider_inv p w" and u: "in_runtime m w = (r, w1)" and tree: "jw_tree (snd (m (runtime_world.truncate w))) = jw_tree w"
  shows "step_ok p w w1" "pv_preparing w1 = pv_preparing w" "pv_inFlight w1 = pv_inFlight w" "pv_pinCalls w1 = pv_pinCalls w"
    "pv_store w1 = pv_store w" "same_item j w w1"
proof -
  note facts = in_runtime_provider [of m w, unfolded u snd_conv]
  show same: "same_item j w w1" for j using facts tree by (simp add: same_item_def)
  show "step_ok p w w1" by (rule step_ok_same [OF inv _ same]) (simp add: facts provider_inv_synced [OF inv])
qed (use in_runtime_provider [of m w, unfolded u snd_conv] in simp_all)

lemma prep_step_ok:
  assumes inv: "provider_inv p w" and env: "writes_beside p (pe_tx env)"
  shows "step_ok p w (prep_step env i w)"
proof (cases "jm_get (pv_preparing w) i")
  case (Some pr)
  show ?thesis
  proof (cases "pp_phase pr")
    case (PrepDecrypt b)
    then have busy: "\<not> idle i w" using Some by (simp add: idle_def)
    obtain r t where d: "decryptToDirectory (pe_crypto env) (pe_io env) (pe_undo env) (pe_maxInputBytes env) (pe_secret env) b
        (jo_inputKeyEnvelope (pp_job pr)) (capture_dir i) (jo_inputHash (pp_job pr)) (jw_tree w) = (r, t)" by fastforce
    have "step_ok p w (w\<lparr>jw_tree := t\<rparr>)"
      using busy_files [OF inv busy] decrypt_other_jobs [OF d] by blast
    then show ?thesis
      using Some PrepDecrypt d by (cases r) (simp_all add: prep_step_def prep_then)
  next
    case (PrepRegister c)
    then have busy: "\<not> idle i w" using Some by (simp add: idle_def)
    let ?m = "\<lambda>s. Inr (s\<lparr>rs_captures := jm_set (remote_capture_id i) c (rs_captures s)\<rparr>)"
    obtain r w1 where u: "remote_update (pe_tx env) ?m w = (r, w1)" by fastforce
    have "step_ok p w w1"
      by (rule busy_update [OF inv env busy _ _ u]) (auto simp: journal_def)
    then show ?thesis
      using Some PrepRegister u inv by (cases r) (simp_all add: prep_step_def prep_moves prep_then)
  next
    case (PrepCreate c)
    then have busy: "\<not> idle i w" using Some by (simp add: idle_def)
    obtain r w1 where u: "in_runtime (create_job (pe_run env) (jo_type (pp_job pr)) (job_input i c)) w = (r, w1)" by fastforce
    have tree: "jw_tree (snd (create_job (pe_run env) (jo_type (pp_job pr)) (job_input i c) (runtime_world.truncate w))) = jw_tree w"
      by (simp add: create_job_tree)
    have "step_ok p w w1" "\<not> idle i w1"
      using runtime_work [OF inv u tree] busy by (simp_all add: idle_def)
    then show ?thesis
      using Some PrepCreate u by (cases r) (simp_all add: prep_step_def prep_then)
  next
    case (PrepRecord localId)
    then have busy: "\<not> idle i w" using Some by (simp add: idle_def)
    obtain r w1 where u: "remote_update (pe_tx env) (running_record (pe_now env) i localId) w = (r, w1)" by fastforce
    have "step_ok p w w1"
      by (rule busy_update [OF inv env busy _ _ u]) (auto simp: journal_def running_record_def split: option.splits if_splits)
    then show ?thesis using Some PrepRecord u by (simp add: prep_step_def prep_then)
  qed (use Some inv in \<open>auto simp: prep_step_def prep_moves idle_def split: sum.split\<close>)
qed (use inv in \<open>simp add: prep_step_def step_ok_refl\<close>)

text \<open>Without a preparation at work, only the views of the job matter.\<close>

lemma idle_ok:
  assumes "item_ok i w" and "idle i w'" and "journal i (remote_of w') = journal i (remote_of w)" and "no_files i w \<Longrightarrow> no_files i w'"
    and "no_capture i w \<Longrightarrow> no_capture i w'" and "jm_get (pv_inFlight w') i = jm_get (pv_inFlight w) i"
  shows "item_ok i w'"
proof -
  have same: "completed i w' = completed i w" "requested i w' = requested i w"
    using assms(3) by (simp_all add: completed_def requested_def)
  have "phase_ok i w ph \<Longrightarrow> phase_ok i w' ph" for ph
    using assms(2, 3, 4) same by (cases ph) (simp_all add: input_pin_def)
  then show ?thesis using assms same by (auto simp: item_ok_def split: option.splits)
qed

lemma start_preparation_ok:
  assumes inv: "provider_inv p w"
  shows "step_ok p w (snd (start_preparation job r w))"
proof (cases "jm_has (pv_preparing w) (jo_id job)")
  case False
  let ?w = "snd (start_preparation job r w)"
  show ?thesis
  proof (rule step_okI [OF inv, of _ "jo_id job"])
    show "item_ok (jo_id job) ?w"
      by (rule idle_ok [OF provider_inv_item [OF inv]]) (use False in \<open>simp_all add: start_preparation_def idle_def no_files_def no_capture_def\<close>)
  qed (use False provider_inv_synced [OF inv] in \<open>simp_all add: start_preparation_def only_def same_item_def completed_def\<close>)
qed (simp add: start_preparation_def step_ok_refl inv)

lemma own_remote_step:
  assumes inv: "provider_inv p w" and env: "writes_beside p (pe_tx env)"
  shows "step_ok p w (snd (provider_own env job w))"
proof -
  let ?i = "jo_id job" and ?m = "own_remote (pe_now env) job"
  obtain r w1 where u: "remote_update (pe_tx env) ?m w = (r, w1)" by fastforce
  have "step_ok p w w1"
  proof (rule store_step [OF inv env _ _ u, THEN conjunct1, of ?i])
    show "item_ok ?i (w\<lparr>pv_store := st\<rparr>) \<and> (completed ?i w \<longrightarrow> completed ?i (w\<lparr>pv_store := st\<rparr>))"
      if m: "?m (remote_of w) = Inr (store_snapshot empty_remote st)" for st
    proof (cases "journal ?i (remote_of w)")
      case None
      then have off: "\<not> completed ?i w" "jm_get (pv_inFlight w) ?i = None"
        using provider_inv_item [OF inv, of ?i] by (auto simp: completed_def item_ok_def requested_def split: option.splits)
      have "journal ?i (store_snapshot empty_remote st) = rr_cleanup (fresh_record (pe_now env) job)"
        using m None by (auto simp: own_remote_def journal_def Let_def split: option.splits if_splits dest: sym)
      then have "\<not> completed ?i (w\<lparr>pv_store := st\<rparr>)" by (simp add: completed_def fresh_record_def)
      then show ?thesis using off by (simp add: item_ok_def)
    next
      case (Some c)
      then have "same_item ?i w (w\<lparr>pv_store := st\<rparr>)"
        using m by (auto simp: own_remote_def journal_def Let_def same_item_def split: option.splits if_splits dest!: sym [where t = "store_snapshot empty_remote st"])
      then show ?thesis using same_item_ok same_item_facts(1) provider_inv_item [OF inv] by simp
    qed
  qed (auto simp: own_remote_def journal_def Let_def split: option.splits if_splits)
  then show ?thesis
    using u inv by (cases r) (auto simp: provider_own_def throw_def step_ok_refl andThen_def reads_def)
qed

subsection \<open>Releases\<close>

lemma inFlight_set_release: "jm_get (pv_inFlight (set_release i ph w)) i = map_option (\<lambda>l. l\<lparr>rl_phase := ph\<rparr>) (jm_get (pv_inFlight w) i)"
  by (simp add: set_release_def split: option.split)

lemma set_release_ok: "item_ok i w \<Longrightarrow> requested i w \<Longrightarrow> phase_ok i w ph \<Longrightarrow> item_ok i (set_release i ph w)"
proof -
  have "phase_ok i (set_release i ph w) ph' = phase_ok i w ph'" for ph' by (cases ph') simp_all
  then show "item_ok i w \<Longrightarrow> requested i w \<Longrightarrow> phase_ok i w ph \<Longrightarrow> item_ok i (set_release i ph w)"
    by (auto simp: item_ok_def inFlight_set_release split: option.splits)
qed

lemma release_moves:
  assumes inv: "provider_inv p w"
  shows "step_ok p w (end_release i w)" "requested i w \<Longrightarrow> phase_ok i w ph \<Longrightarrow> step_ok p w (set_release i ph w)"
    "requested i w \<Longrightarrow> phase_ok i w (rl_phase l) \<Longrightarrow> step_ok p w (w\<lparr>pv_inFlight := jm_set i l (pv_inFlight w)\<rparr>)"
proof -
  note item = provider_inv_item [OF inv] and synced = provider_inv_synced [OF inv]
  show "step_ok p w (end_release i w)"
    by (rule step_okI [OF inv, of _ i]) (use item [of i] in \<open>auto simp: synced item_ok_def end_release_def completed_def requested_def
        no_files_def no_capture_def idle_def only_def same_item_def\<close>)
  show "step_ok p w (set_release i ph w)" if "requested i w" "phase_ok i w ph"
    by (rule step_okI [OF inv, of _ i]) (simp_all add: synced set_release_ok item that)
  let ?w = "w\<lparr>pv_inFlight := jm_set i l (pv_inFlight w)\<rparr>"
  have views: "completed i ?w = completed i w" "requested i ?w = requested i w" "no_files i ?w = no_files i w"
    "no_capture i ?w = no_capture i w" "idle i ?w = idle i w"
    by (simp_all add: completed_def requested_def no_files_def no_capture_def idle_def)
  have "phase_ok i ?w ph' = phase_ok i w ph'" for ph' using views by (cases ph') simp_all
  then show "step_ok p w ?w" if "requested i w" "phase_ok i w (rl_phase l)"
    by (intro step_okI [OF inv, of _ i]) (use that item [of i] views in \<open>simp_all add: synced item_ok_def only_def same_item_def\<close>)
qed

lemma release_then:
  assumes "step_ok p w w1"
  shows "step_ok p w (end_release i w1)" "requested i w1 \<Longrightarrow> phase_ok i w1 ph \<Longrightarrow> step_ok p w (set_release i ph w1)"
  using release_moves(1,2) [OF step_ok_inv [OF assms]] step_ok_trans [OF assms] by blast+

lemma begin_pin_ok:
  assumes "step_ok p w w1" and "completed i w1" and "rr_cleanup r = journal i (remote_of w1)"
  shows "step_ok p w (begin_pin env i r w1)"
proof -
  note inv = step_ok_inv [OF assms(1)]
  have "requested i w1" using provider_inv_item [OF inv, of i] assms(2) by (simp add: item_ok_def)
  then show ?thesis
    using release_moves(3) [OF inv, of i] step_ok_trans [OF assms(1)] assms(2, 3) release_then(1) [OF assms(1)]
    by (simp add: begin_pin_def input_pin_def split: option.split)
qed

lemma start_release_ok:
  assumes inv: "provider_inv p w"
  shows "step_ok p w (snd (start_release env i w))"
proof -
  have "completed i w \<and> rr_cleanup r = journal i (remote_of w)"
    if "jm_get (rs_remoteJobs (remote_of w)) i = Some r" "rr_cleanup r = Some c" "pc_plaintext c = Complete" for r c
    using that by (simp add: completed_def journal_def)
  moreover have "\<not> completed i w" "requested i w"
    if "jm_get (rs_remoteJobs (remote_of w)) i = Some r" "rr_cleanup r = Some c" "pc_plaintext c \<noteq> Complete" "pc_requested c" for r c
    using that by (simp_all add: completed_def requested_def journal_def)
  moreover have "phase_ok i w (AwaitPreparing (map_option pp_token (jm_get (pv_preparing w) i)))" if "\<not> completed i w"
    using that by (cases "jm_get (pv_preparing w) i") (simp_all add: idle_def)
  ultimately show ?thesis
    using begin_pin_ok [OF step_ok_refl [OF inv]] release_moves(3) [OF inv]
    by (auto simp: start_release_def step_ok_refl inv split: option.split)
qed

text \<open>The journals a change of one journal leaves alone, and the one it changes.\<close>

lemma change_cleanup_other:
  assumes "change_cleanup i f g s = Inr s'"
  shows "j \<noteq> i \<Longrightarrow> journal j s' = journal j s" "rs_captures s' = rs_captures s"
  using assms by (auto simp: change_cleanup_def journal_def split: option.splits)

lemma change_cleanup_own:
  assumes "change_cleanup i f g s = Inr s'" and "\<And>r. rr_cleanup (f r) = rr_cleanup r"
  shows "journal i s' = map_option g (journal i s)" "journal i s \<noteq> None"
  using assms by (auto simp: change_cleanup_def journal_def split: option.splits)

text \<open>A change of the journal of a release in flight.\<close>

lemma journal_step:
  assumes inv: "provider_inv p w" and env: "writes_beside p env"
    and m: "\<And>s'. m (remote_of w) = Inr s' \<Longrightarrow> change_cleanup i f g (remote_of w) = Inr s'"
    and f: "\<And>r. rr_cleanup (f r) = rr_cleanup r" and g: "\<And>c. pc_requested c \<Longrightarrow> pc_requested (g c)"
      "\<And>c. pc_inputCid (g c) = pc_inputCid c" "\<And>c. pc_pinOwner (g c) = pc_pinOwner c"
    and plain: "\<And>c. journal i (remote_of w) = Some c \<Longrightarrow> (pc_plaintext (g c) = Complete) = (pc_plaintext c = Complete)"
    and u: "remote_update env m w = (r, w1)"
  shows "step_ok p w w1 \<and> completed i w1 = completed i w \<and> (requested i w \<longrightarrow> requested i w1) \<and> idle i w1 = idle i w"
proof -
  have own: "completed i (w\<lparr>pv_store := st\<rparr>) = completed i w \<and> (requested i w \<longrightarrow> requested i (w\<lparr>pv_store := st\<rparr>)) \<and>
      no_capture i (w\<lparr>pv_store := st\<rparr>) = no_capture i w \<and> input_pin i (store_snapshot empty_remote st) = input_pin i (remote_of w)"
    if "change_cleanup i f g (remote_of w) = Inr (store_snapshot empty_remote st)" for st
    using change_cleanup_own [OF that f] change_cleanup_other(2) [OF that] g plain
    by (auto simp: completed_def requested_def no_capture_def input_pin_def split: option.split)
  have item: "item_ok i (w\<lparr>pv_store := st\<rparr>)" if "change_cleanup i f g (remote_of w) = Inr (store_snapshot empty_remote st)" for st
  proof -
    have "no_files i (w\<lparr>pv_store := st\<rparr>) = no_files i w" "idle i (w\<lparr>pv_store := st\<rparr>) = idle i w"
      by (simp_all add: no_files_def idle_def)
    moreover from this have "phase_ok i (w\<lparr>pv_store := st\<rparr>) ph = phase_ok i w ph" for ph
      using own [OF that] by (cases ph) simp_all
    ultimately show ?thesis
      using own [OF that] provider_inv_item [OF inv, of i] by (auto simp: item_ok_def split: option.splits)
  qed
  have step: "step_ok p w w1 \<and> (\<exists>st. w1 = w\<lparr>pv_store := st\<rparr> \<and>
      (r = Inr () \<and> m (remote_of w) = Inr (store_snapshot empty_remote st) \<or> isl r \<and> store_snapshot empty_remote st = remote_of w))"
  proof (rule store_step [OF inv env _ _ u, where i = i])
    show "journal k s' = journal k (remote_of w) \<and> jm_get (rs_captures s') (remote_capture_id k) = jm_get (rs_captures (remote_of w)) (remote_capture_id k)"
      if "m (remote_of w) = Inr s'" "k \<noteq> i" for s' k
      using change_cleanup_other [OF m [OF that(1)]] that(2) by simp
  qed (use own item m in blast)
  then obtain st where st: "w1 = w\<lparr>pv_store := st\<rparr>"
    "m (remote_of w) = Inr (store_snapshot empty_remote st) \<or> store_snapshot empty_remote st = remote_of w" by blast
  then have "completed i w1 = completed i w \<and> (requested i w \<longrightarrow> requested i w1)"
    using own [OF m] by (auto simp: completed_def requested_def)
  then show ?thesis using step st(1) by (simp add: idle_def)
qed

lemma request_ok:
  assumes inv: "provider_inv p w" and env: "writes_beside p (pe_tx env)"
  shows "step_ok p w (snd (request env i w))"
proof -
  obtain r w1 where u: "remote_update (pe_tx env) (request_record (pe_now env) i) w = (r, w1)" by fastforce
  have "step_ok p w w1"
    by (rule journal_step [where f = "\<lambda>r. r\<lparr>rr_updatedAt := pe_now env\<rparr>" and g = "\<lambda>c. c\<lparr>pc_requested := True\<rparr>",
          OF inv env _ _ _ _ _ _ u, THEN conjunct1])
      (auto simp: request_record_def split: if_splits)
  moreover have "step_ok p w1 (snd (start_release env i w1))"
    using start_release_ok step_ok_inv calculation by blast
  ultimately show ?thesis
    using u step_ok_trans by (cases r) (auto simp: request_def andThen_def reads_def ret_def)
qed

text \<open>The last wait before the journal says complete: the directory is gone and nothing prepares the job.\<close>

lemma begin_pin_flight:
  obtains fl where "begin_pin env i r w = w\<lparr>pv_inFlight := fl\<rparr>" "\<And>j. j \<noteq> i \<Longrightarrow> jm_get fl j = jm_get (pv_inFlight w) j"
    "jm_get fl i = None \<or> (\<exists>l c. jm_get fl i = Some l \<and> rr_cleanup r = Some c \<and> rl_phase l = AwaitPin (pc_inputCid c) (opt_str (pc_pinOwner c)))"
  by (cases "begin_pin env i r w = end_release i w")
    (auto simp: begin_pin_def end_release_def split: option.splits if_splits intro: that)

lemma complete_commit:
  assumes inv: "provider_inv p w" and ready: "requested i w" "idle i w" "no_files i w"
    and m: "complete_record now i (remote_of w) = Inr (store_snapshot empty_remote st)" and st: "synced p st"
    and r: "rr_cleanup r = journal i (store_snapshot empty_remote st)"
  shows "step_ok p w (begin_pin env i r (w\<lparr>pv_store := st\<rparr>))"
proof -
  let ?s = "store_snapshot empty_remote st"
  obtain fl where fl: "begin_pin env i r (w\<lparr>pv_store := st\<rparr>) = w\<lparr>pv_store := st, pv_inFlight := fl\<rparr>"
    "\<And>j. j \<noteq> i \<Longrightarrow> jm_get fl j = jm_get (pv_inFlight w) j" 
    "jm_get fl i = None \<or> (\<exists>l c. jm_get fl i = Some l \<and> rr_cleanup r = Some c \<and> rl_phase l = AwaitPin (pc_inputCid c) (opt_str (pc_pinOwner c)))"
    using begin_pin_flight [of env i r "w\<lparr>pv_store := st\<rparr>"] by auto
  let ?w = "w\<lparr>pv_store := st, pv_inFlight := fl\<rparr>"
  note change = m [unfolded complete_record_def]
  have journal: "journal i ?s = map_option (\<lambda>c. c\<lparr>pc_plaintext := Complete, pc_reason := None\<rparr>) (journal i (remote_of w))"
    "journal i (remote_of w) \<noteq> None"
    using change_cleanup_own [OF change] by (simp_all add: journal_def)
  then have views: "completed i ?w" "requested i ?w" "no_files i ?w" "no_capture i ?w" "idle i ?w"
    using ready change_cleanup_other(2) [OF change]
    by (auto simp: completed_def requested_def no_files_def no_capture_def idle_def split: option.splits)
  then have item: "item_ok i ?w" using fl(3) r by (auto simp: item_ok_def input_pin_def)
  have "only i w ?w"
    using change_cleanup_other [OF change] fl(2) by (simp add: only_def same_item_def journal_def)
  then show ?thesis
    unfolding fl(1) by (intro step_okI [OF inv _ _ item]) (simp_all add: st views)
qed

lemma complete_step:
  assumes inv: "provider_inv p w" and env: "writes_beside p env" and ready: "requested i w" "idle i w" "no_files i w" "\<not> completed i w"
  shows "step_ok p w (case remote_update env (complete_record now i) w of
      (Inl _, w1) \<Rightarrow> set_release i AwaitBlocked w1 | (Inr _, w1) \<Rightarrow> begin_pin envp i (the (jm_get (rs_remoteJobs (remote_of w1)) i)) w1)"
proof (rule remote_update_cases [OF provider_inv_synced [OF inv] env, of "complete_record now i"])
  fix s' st
  assume c: "complete_record now i (remote_of w) = Inr s'" "remote_update env (complete_record now i) w = (Inr (), w\<lparr>pv_store := st\<rparr>)"
    "synced p st" "store_snapshot empty_remote st = s'"
  have "rr_cleanup (the (jm_get (rs_remoteJobs s') i)) = journal i s'"
    using c(1) by (auto simp: complete_record_def change_cleanup_def journal_def split: option.splits)
  then show ?thesis using complete_commit [OF inv ready(1-3), where st = st] c by simp
next
  fix e st
  assume u: "remote_update env (complete_record now i) w = (Inl e, w\<lparr>pv_store := st\<rparr>)"
    and st: "synced p st" "store_snapshot empty_remote st = remote_of w"
  have same: "same_item j w (w\<lparr>pv_store := st\<rparr>)" for j by (simp add: same_item_def st)
  have "step_ok p w (w\<lparr>pv_store := st\<rparr>)" by (rule step_ok_same [OF inv _ same]) (simp add: st)
  then show ?thesis
    using u release_then(2) [where ph = AwaitBlocked and i = i] ready same_item_facts [OF same, of i] by simp
qed

text \<open>A release that is past its wait for the preparation.\<close>

lemma quiesce_next_ok:
  assumes "step_ok p w w1" and "requested i w1" "\<not> completed i w1" "idle i w1"
  shows "step_ok p w (quiesce_next i js w1)" "step_ok p w (after_quiescent i w1)" "step_ok p w (set_release i AwaitBlocked w1)"
proof -
  have a: "step_ok p w (set_release i AwaitRemove w1)" and b: "step_ok p w (set_release i AwaitBlocked w1)"
    and c: "step_ok p w (set_release i (AwaitCancel js) w1)"
    by (rule release_then(2) [OF assms(1, 2)]; simp add: assms)+
  show "step_ok p w (after_quiescent i w1)" using a b by (simp add: after_quiescent_def)
  then show "step_ok p w (quiesce_next i js w1)" using c by (simp add: quiesce_next_def)
  show "step_ok p w (set_release i AwaitBlocked w1)" by (rule b)
qed

lemma ensureQuiescent_ok:
  assumes inv: "provider_inv p w" and u: "ensureQuiescent env j w = (r, w1)"
  shows "step_ok p w w1" "same_item i w w1" "pv_pinCalls w1 = pv_pinCalls w"
proof -
  have "jobs_only (jw_tree w) (job_world.more w) w1"
    using ensureQuiescent_only [of "jw_tree w" "job_world.more w" w env j] u by (simp add: jobs_only_def same_remote_files_def)
  then have more: "job_world.more w1 = job_world.more w" and files: "same_remote_files (jw_tree w) (jw_tree w1)"
    by (simp_all add: jobs_only_def)
  have same: "same_item i w w1" for i
    using more_provider [OF more] files by (simp add: same_item_def same_remote_files_def)
  show "step_ok p w w1" by (rule step_ok_same [OF inv _ same]) (simp add: more_provider [OF more] provider_inv_synced [OF inv])
  show "same_item i w w1" by (rule same)
  show "pv_pinCalls w1 = pv_pinCalls w" by (rule more_provider [OF more])
qed

lemma remove_step:
  assumes inv: "provider_inv p w" and fly: "requested i w" "\<not> completed i w" "idle i w"
    and rm: "removeOwnedWorkDirectory works ''remote-jobs'' i (jw_tree w) = Inr tree"
  shows "step_ok p w (set_release i AwaitComplete (w\<lparr>jw_tree := tree\<rparr>))"
proof -
  have tree: "tree = remove_below (remote_dir i) (jw_tree w)"
    using rm by (auto simp: removeOwnedWorkDirectory_def remove_below_def remote_dir_def split: if_splits sum.splits)
  let ?w = "w\<lparr>jw_tree := tree\<rparr>"
  have views: "completed i ?w = completed i w" "requested i ?w = requested i w" "no_files i ?w" "idle i ?w = idle i w"
    by (simp_all add: completed_def requested_def no_files_def idle_def tree get_remove_below)
  have "item_ok i ?w"
    by (rule idle_ok [OF provider_inv_item [OF inv]]) (use views fly in \<open>simp_all add: no_capture_def\<close>)
  moreover have "only i w ?w"
    using below_remote_dir by (fastforce simp: only_def same_item_def tree get_remove_below)
  ultimately have "step_ok p w ?w"
    by (intro step_okI [OF inv, of _ i]) (use provider_inv_synced [OF inv] fly(2) in simp_all)
  then show ?thesis by (rule release_then(2)) (use views fly in simp_all)
qed

text \<open>Waits that only change the journal of the job.\<close>

lemma journal_end:
  assumes inv: "provider_inv p w" and env: "writes_beside p env"
  shows "\<not> completed i w \<Longrightarrow> step_ok p w (end_release i (snd (remote_update env (blocked_record now i) w)))"
    "step_ok p w (end_release i (snd (remote_update env (pin_retry_record i) w)))"
    "remote_update env (pin_released_record i) w = (r, w1) \<Longrightarrow> step_ok p w w1 \<and> completed i w1 = completed i w \<and> (requested i w \<longrightarrow> requested i w1)"
proof -
  show "step_ok p w (end_release i (snd (remote_update env (blocked_record now i) w)))" if "\<not> completed i w"
  proof (rule release_then(1))
    obtain r w1 where u: "remote_update env (blocked_record now i) w = (r, w1)" by fastforce
    have "step_ok p w w1"
      by (rule journal_step [where f = "\<lambda>r. r\<lparr>rr_updatedAt := now\<rparr>"
            and g = "\<lambda>c. c\<lparr>pc_plaintext := Blocked, pc_reason := Some ''provider_cleanup_retry_required''\<rparr>", OF inv env _ _ _ _ _ _ u, THEN conjunct1])
        (use that in \<open>auto simp: blocked_record_def completed_def\<close>)
    then show "step_ok p w (snd (remote_update env (blocked_record now i) w))" using u by simp
  qed
  show "step_ok p w (end_release i (snd (remote_update env (pin_retry_record i) w)))"
  proof (rule release_then(1))
    obtain r w1 where u: "remote_update env (pin_retry_record i) w = (r, w1)" by fastforce
    have "step_ok p w w1"
      by (rule journal_step [where f = "\<lambda>r. r" and g = "\<lambda>c. c\<lparr>pc_reason := Some ''provider_pin_release_retry_required''\<rparr>", OF inv env _ _ _ _ _ _ u, THEN conjunct1])
        (auto simp: pin_retry_record_def)
    then show "step_ok p w (snd (remote_update env (pin_retry_record i) w))" using u by simp
  qed
  show "step_ok p w w1 \<and> completed i w1 = completed i w \<and> (requested i w \<longrightarrow> requested i w1)"
    if u: "remote_update env (pin_released_record i) w = (r, w1)"
    using journal_step [where f = "\<lambda>r. r" and g = "\<lambda>c. c\<lparr>pc_inputPinReleasePending := False, pc_reason := None\<rparr>", OF inv env _ _ _ _ _ _ u, of i]
    by (simp add: pin_released_record_def)
qed

lemma pin_call_ok:
  assumes inv: "provider_inv p w"
  shows "step_ok p w (w\<lparr>pv_pinCalls := calls\<rparr>)"
  by (rule step_ok_same [OF inv]) (simp_all add: same_item_def provider_inv_synced [OF inv])

lemma release_step_ok:
  assumes inv: "provider_inv p w" and env: "writes_beside p (pe_tx env)"
  shows "step_ok p w (release_step env i w)"
proof (cases "jm_get (pv_inFlight w) i")
  case (Some l)
  then have fly: "requested i w" "phase_ok i w (rl_phase l)"
    using provider_inv_item [OF inv, of i] by (simp_all add: item_ok_def)
  note next_ok = quiesce_next_ok [where i = i]
  show ?thesis
  proof (cases "rl_phase l")
    case (AwaitPreparing token)
    then show ?thesis
      using fly Some next_ok [OF step_ok_refl [OF inv]] by (auto simp: release_step_def step_ok_refl inv)
  next
    case (AwaitCancel js)
    then have off: "\<not> completed i w" "idle i w" using fly by simp_all
    show ?thesis
    proof (cases js)
      case Nil
      then show ?thesis using Some AwaitCancel next_ok [OF step_ok_refl [OF inv]] fly off by (simp add: release_step_def)
    next
      case (Cons j js')
      obtain r w1 where u: "in_runtime (cancel_job (pe_run env) j) w = (r, w1)" by fastforce
      have tree: "jw_tree (snd (cancel_job (pe_run env) j (runtime_world.truncate w))) = jw_tree w" by (simp add: cancel_job_tree)
      note work = runtime_work [OF inv u tree]
      have "step_ok p w (set_release i AwaitBlocked w1)" "step_ok p w (set_release i (AwaitQuiescent js) w1)"
        by (rule release_then(2) [OF work(1)]; use same_item_facts [OF work(6), of i] fly off in simp)+
      then show ?thesis using Some AwaitCancel Cons u by (cases r) (simp_all add: release_step_def)
    qed
  next
    case (AwaitQuiescent js)
    then have off: "\<not> completed i w" "idle i w" using fly by simp_all
    show ?thesis
    proof (cases js)
      case Nil
      then show ?thesis using Some AwaitQuiescent next_ok [OF step_ok_refl [OF inv]] fly off by (simp add: release_step_def)
    next
      case (Cons j js')
      obtain r w1 where u: "ensureQuiescent (pe_run env) j w = (r, w1)" by fastforce
      note quiet = ensureQuiescent_ok [OF inv u]
      have "requested i w1" "\<not> completed i w1" "idle i w1" using same_item_facts [OF quiet(2), of i] fly off by simp_all
      then show ?thesis
        using Some AwaitQuiescent Cons u next_ok [OF quiet(1)] by (cases r) (simp_all add: release_step_def step_ok_refl inv)
    qed
  next
    case AwaitRemove
    then show ?thesis
      using Some fly remove_step [OF inv] next_ok(3) [OF step_ok_refl [OF inv]] by (simp add: release_step_def split: sum.split)
  next
    case AwaitComplete
    then show ?thesis using Some fly complete_step [OF inv env] by (simp add: release_step_def)
  next
    case AwaitBlocked
    then show ?thesis using Some fly journal_end(1) [OF inv env] by (simp add: release_step_def)
  next
    case (AwaitPin cid owner)
    let ?w = "w\<lparr>pv_pinCalls := pv_pinCalls w @ [(cid, owner)]\<rparr>"
    have "completed i ?w" "requested i ?w" using AwaitPin fly by (simp_all add: completed_def requested_def)
    then have "step_ok p w (set_release i AwaitPinFailed ?w)" "step_ok p w (set_release i AwaitPinDone ?w)"
      using release_then(2) [OF pin_call_ok [OF inv]] by simp_all
    then show ?thesis using Some AwaitPin by (simp add: release_step_def split: sum.split)
  next
    case AwaitPinDone
    obtain r w1 where u: "remote_update (pe_tx env) (pin_released_record i) w = (r, w1)" by fastforce
    then have kept: "step_ok p w w1" "completed i w1" "requested i w1"
      using journal_end(3) [OF inv env u] fly AwaitPinDone by simp_all
    then have "step_ok p w (set_release i AwaitPinFailed w1)" "step_ok p w (end_release i w1)"
      using release_then [OF kept(1)] by simp_all
    then show ?thesis using Some AwaitPinDone u by (cases r) (simp_all add: release_step_def)
  next
    case AwaitPinFailed
    then show ?thesis using Some journal_end(2) [OF inv env] by (simp add: release_step_def)
  qed
qed (simp add: release_step_def step_ok_refl inv)

text \<open>Every step keeps the invariant, and what is complete stays complete.\<close>

lemma restart_ok: "provider_inv p w \<Longrightarrow> step_ok p w (restart w)"
proof -
  assume inv: "provider_inv p w"
  have "completed i (restart w) = completed i w" "requested i (restart w) = requested i w" "no_files i (restart w) = no_files i w"
    "no_capture i (restart w) = no_capture i w" for i
    by (simp_all add: restart_def completed_def requested_def no_files_def no_capture_def)
  then have "item_ok i (restart w)" for i
    using provider_inv_item [OF inv, of i] by (simp add: item_ok_def restart_def idle_def)
  then show "step_ok p w (restart w)"
    using provider_inv_synced [OF inv] by (simp add: step_ok_def provider_inv_def restart_def completed_def)
qed

text \<open>Changes of the records that leave every journal alone.\<close>

lemma records_step:
  assumes inv: "provider_inv p w" and env: "writes_beside p env"
    and same: "\<And>s s' k. m s = Inr s' \<Longrightarrow> journal k s' = journal k s \<and> rs_captures s' = rs_captures s"
  shows "step_ok p w (snd (remote_update env m w))"
proof -
  obtain r w1 where u: "remote_update env m w = (r, w1)" by fastforce
  have "step_ok p w w1"
  proof (rule store_step [OF inv env _ _ u, THEN conjunct1, of undefined])
    show "item_ok i (w\<lparr>pv_store := st'\<rparr>) \<and> (completed i w \<longrightarrow> completed i (w\<lparr>pv_store := st'\<rparr>))"
      if "m (remote_of w) = Inr (store_snapshot empty_remote st')" for st' i
    proof -
      have "same_item i w (w\<lparr>pv_store := st'\<rparr>)" using same [OF that] by (simp add: same_item_def)
      then show ?thesis using same_item_ok same_item_facts(1) provider_inv_item [OF inv] by simp
    qed
  qed (use same in auto)
  then show ?thesis using u by simp
qed

lemma track_same: "track_record now i role st s = Inr s' \<Longrightarrow> journal k s' = journal k s \<and> rs_captures s' = rs_captures s"
  by (cases "k = i"; cases "jm_get (rs_remoteJobs s) i"; auto simp: track_record_def journal_def)

lemma adopt_same: "adopt_record i localId s = Inr s' \<Longrightarrow> journal k s' = journal k s \<and> rs_captures s' = rs_captures s"
  by (cases "k = i"; cases "jm_get (rs_remoteJobs s) i"; auto simp: adopt_record_def journal_def)

lemma provider_step_ok:
  assumes "provider_step p w w'" and inv: "provider_inv p w"
  shows "step_ok p w w'"
  using assms(1)
proof cases
  case (Decrypting i tree)
  then have "\<not> idle i w" by (auto simp: is_decrypting_def idle_def split: option.splits)
  then show ?thesis
    unfolding Decrypting(1) by (rule busy_files [OF inv]) (use Decrypting(3) below_remote_dir in blast)
next
  case Others
  then have "same_item j w w'" for j
    using below_append [of "[''private'', ''remote-jobs'']" "[j]"] by (simp add: leaves_remote_def same_item_def remote_dir_def)
  moreover have "pv_store w' = pv_store w" using Others by (simp add: leaves_remote_def)
  ultimately show ?thesis using step_ok_same [OF inv] provider_inv_synced [OF inv] by simp
qed (simp_all add: own_remote_step start_preparation_ok prep_step_ok request_ok release_step_ok restart_ok inv records_step track_same adopt_same)

subsection \<open>Calls that release the pin\<close>

lemma pinCalls_keep [simp]:
  "pv_pinCalls (set_prep i ph w) = pv_pinCalls w" "pv_pinCalls (end_prep i w) = pv_pinCalls w"
  "pv_pinCalls (set_release i ph' w) = pv_pinCalls w" "pv_pinCalls (end_release i w) = pv_pinCalls w"
  "pv_pinCalls (proceed env i ph w) = pv_pinCalls w" "pv_pinCalls (begin_pin env i r w) = pv_pinCalls w"
  "pv_pinCalls (quiesce_next i js w) = pv_pinCalls w" "pv_pinCalls (after_quiescent i w) = pv_pinCalls w"
  by (simp_all add: set_prep_def end_prep_def set_release_def end_release_def proceed_def begin_pin_def quiesce_next_def after_quiescent_def
      split: option.split)

lemma pinCalls_update: "remote_update env m w = (r, w1) \<Longrightarrow> pv_pinCalls w1 = pv_pinCalls w"
  by (auto simp: remote_update_def transact_def split: prod.splits)

lemma pinCalls_runtime: "in_runtime m w = (r, w1) \<Longrightarrow> pv_pinCalls w1 = pv_pinCalls w"
  using in_runtime_provider(4) [of m w] by simp

lemma pinCalls_start: "pv_pinCalls (snd (start_release env i w)) = pv_pinCalls w"
  by (simp add: start_release_def split: option.split)

lemma pinCalls_request: "pv_pinCalls (snd (request env i w)) = pv_pinCalls w"
  by (auto simp: request_def andThen_def reads_def ret_def pinCalls_start dest!: pinCalls_update split: prod.split sum.split)

lemma pinCalls_prep: "pv_pinCalls (prep_step env i w) = pv_pinCalls w"
  by (auto simp: prep_step_def dest!: pinCalls_runtime split: option.split prep_phase.split sum.split prod.split)
    (auto dest: pinCalls_update simp: pinCalls_update [OF prod.collapse [symmetric]])

lemma pinCalls_release:
  assumes inv: "provider_inv p w"
  shows "pv_pinCalls (release_step env i w) = pv_pinCalls w \<or>
    (\<exists>l cid owner. jm_get (pv_inFlight w) i = Some l \<and> rl_phase l = AwaitPin cid owner \<and>
      pv_pinCalls (release_step env i w) = pv_pinCalls w @ [(cid, owner)])"
proof (cases "jm_get (pv_inFlight w) i")
  case (Some l)
  note upd = pinCalls_update [OF prod.collapse [symmetric]] and quiet = ensureQuiescent_ok(3) [OF inv]
  show ?thesis
  proof (cases "rl_phase l")
    case (AwaitCancel js)
    then show ?thesis using Some by (cases js) (auto simp: release_step_def dest: pinCalls_runtime split: prod.split sum.split)
  next
    case (AwaitQuiescent js)
    then show ?thesis using Some by (cases js) (auto simp: release_step_def dest: quiet split: prod.split sum.split)
  qed (use Some in \<open>auto simp: release_step_def upd dest: pinCalls_update split: prod.split sum.split\<close>)
qed (simp add: release_step_def)

lemma pin_calls_step:
  assumes "provider_step p w w'" and inv: "provider_inv p w"
  shows "pv_pinCalls w' = pv_pinCalls w \<or>
    (\<exists>i cid owner. pv_pinCalls w' = pv_pinCalls w @ [(cid, owner)] \<and> completed i w \<and> input_pin i (remote_of w) = Some (cid, owner))"
  using assms(1)
proof cases
  case (Release env i)
  have "completed i w \<and> input_pin i (remote_of w) = Some (cid, owner)"
    if "jm_get (pv_inFlight w) i = Some l" "rl_phase l = AwaitPin cid owner" for l cid owner
    using provider_inv_item [OF inv, of i] that by (simp add: item_ok_def)
  then show ?thesis using pinCalls_release [OF inv, of env i] unfolding Release(1) by blast
next
  case (Own env job)
  then show ?thesis
    by (auto simp: provider_own_def throw_def andThen_def reads_def dest: pinCalls_update split: prod.split sum.split)
qed (auto simp: pinCalls_update [OF prod.collapse [symmetric]] pinCalls_prep pinCalls_request start_preparation_def restart_def leaves_remote_def)

section \<open>Properties\<close>

text \<open>A node that has taken no remote job yet.\<close>

definition first_provider :: "string \<Rightarrow> provider_world \<Rightarrow> bool" where
  "first_provider p w \<longleftrightarrow> synced p (pv_store w) \<and> rs_remoteJobs (remote_of w) = [] \<and> pv_preparing w = [] \<and> pv_inFlight w = []"

lemma first_provider_inv: "first_provider p w \<Longrightarrow> provider_inv p w"
  by (simp add: first_provider_def provider_inv_def item_ok_def completed_def journal_def)

lemma provider_steps_inv:
  assumes "(provider_step p)\<^sup>*\<^sup>* w w'" and "provider_inv p w"
  shows "step_ok p w w'"
  using assms by (induction rule: rtranclp_induct) (auto intro: step_ok_refl step_ok_trans provider_step_ok dest: step_ok_inv)

text \<open>A job that is taken, cancelled and cleaned up, with files of an earlier preparation on disk.\<close>

definition demo_remote :: remote_job where
  "demo_remote = \<lparr>jo_id = demo_job, jo_type = ''spatial.reconstruct'', jo_state = ''matched'', jo_inputCid = ''cid'', jo_inputBytes = 1,
     jo_inputHash = ''h'', jo_inputKeyEnvelope = JNull, jo_jobSpecHash = [], jo_protocolVersion = [], jo_expiresAt = Some 9,
     jo_outputManifestCid = None, jo_outputCids = []\<rparr>"

definition demo_provider :: provider_env where
  "demo_provider = \<lparr>pe_now = 1, pe_tx = quiet_env, pe_run = demo_job_env [] 1, pe_rm = True, pe_callback = True, pe_pin = Inr (), pe_acquire = Inr (),
     pe_cat = Inr [], pe_crypto = plain_crypto, pe_io = (\<lambda>_. None), pe_undo = None, pe_maxInputBytes = 9, pe_secret = [9], pe_manifest = Inr JNull, pe_sizes = (\<lambda>_. Inr 0)\<rparr>"

definition demo_taken :: provider_world where
  "demo_taken = \<lparr>jw_store = saved_store empty_jobs, jw_tree = [([''private''], Directory), ([''private'', ''remote-jobs''], Directory),
      (remote_dir demo_job, Directory), (capture_dir demo_job, Directory)], rw_running = [], rw_tasks = [], rw_dispatching = False,
    pv_store = saved_store empty_remote, pv_preparing = [], pv_inFlight = [], pv_token = 0, pv_pinCalls = []\<rparr>"

definition demo_requested :: provider_world where
  "demo_requested = snd (request demo_provider demo_job (snd (provider_own demo_provider demo_remote demo_taken)))"

definition demo_cleaned :: provider_world where
  "demo_cleaned = release_step demo_provider demo_job (release_step demo_provider demo_job (release_step demo_provider demo_job demo_requested))"

lemma demo_provider_steps:
  "first_provider ''state.json'' demo_taken" "(provider_step ''state.json'')\<^sup>*\<^sup>* demo_taken demo_cleaned"
  "provider_step ''state.json'' demo_cleaned (release_step demo_provider demo_job demo_cleaned)"
proof -
  have tx: "writes_beside ''state.json'' (pe_tx demo_provider)" by (simp add: demo_provider_def)
  note steps = provider_step.Own [OF tx] provider_step.Request [OF tx] provider_step.Release [OF tx]
  show "first_provider ''state.json'' demo_taken" by (simp add: first_provider_def demo_taken_def empty_remote_def)
  show "(provider_step ''state.json'')\<^sup>*\<^sup>* demo_taken demo_cleaned"
    unfolding demo_cleaned_def demo_requested_def by (meson steps rtranclp.rtrancl_into_rtrancl rtranclp.rtrancl_refl)
  show "provider_step ''state.json'' demo_cleaned (release_step demo_provider demo_job demo_cleaned)" by (rule steps(3))
qed

text \<open>
  C11. Once the journal of a remote job says that its cleanup is complete, nothing of the job's readable input
  is left: there is no file below its directory, its capture is not registered, and no preparation of it is
  past its first check. That stays so over every later interleaving of preparations, decryptions, requests,
  releases, changes of its state and restarts.
\<close>
theorem cleaned_stays_clean:
  assumes "first_provider p w0" and "(provider_step p)\<^sup>*\<^sup>* w0 w" and "completed i w" and "(provider_step p)\<^sup>*\<^sup>* w w'"
  shows "completed i w' \<and> no_files i w' \<and> no_capture i w' \<and> idle i w'"
proof -
  have inv: "provider_inv p w" by (rule step_ok_inv [OF provider_steps_inv [OF assms(2) first_provider_inv [OF assms(1)]]])
  note after = provider_steps_inv [OF assms(4) inv]
  then have "completed i w'" using assms(3) by (simp add: step_ok_def)
  then show ?thesis using provider_inv_item [OF step_ok_inv [OF after], of i] by (simp add: item_ok_def)
qed

theorem cleaned_stays_clean_witness:
  "completed demo_job (restart demo_cleaned) \<and> no_files demo_job (restart demo_cleaned)"
proof -
  have "completed demo_job demo_cleaned" by code_simp
  then show ?thesis
    using cleaned_stays_clean [OF demo_provider_steps(1, 2), of demo_job "restart demo_cleaned"] provider_step.Restart [of "''state.json''" demo_cleaned]
    by blast
qed

text \<open>
  C12. The pin that keeps a remote job's encrypted input is released last: whenever a step calls for the release
  of a pin, it is the input and owner recorded in the journal of a job whose cleanup is complete and of
  whose readable input no file is left.
\<close>
theorem input_pin_released_last:
  assumes "first_provider p w0" and "(provider_step p)\<^sup>*\<^sup>* w0 w" and "provider_step p w w'" and "pv_pinCalls w' \<noteq> pv_pinCalls w"
  shows "\<exists>i cid owner. pv_pinCalls w' = pv_pinCalls w @ [(cid, owner)] \<and> input_pin i (remote_of w) = Some (cid, owner) \<and>
    completed i w \<and> no_files i w \<and> no_capture i w"
proof -
  have inv: "provider_inv p w" by (rule step_ok_inv [OF provider_steps_inv [OF assms(2) first_provider_inv [OF assms(1)]]])
  then have "no_files i w \<and> no_capture i w" if "completed i w" for i
    using provider_inv_item [OF inv, of i] that by (simp add: item_ok_def)
  then show ?thesis using pin_calls_step [OF assms(3) inv] assms(4) by blast
qed

theorem input_pin_released_last_witness:
  "\<exists>i. input_pin i (remote_of demo_cleaned) = Some (''cid'', ''provider-input:'' @ demo_job) \<and> no_files i demo_cleaned"
proof -
  have calls: "pv_pinCalls (release_step demo_provider demo_job demo_cleaned) = [(''cid'', ''provider-input:'' @ demo_job)]" "pv_pinCalls demo_cleaned = []"
    by code_simp+
  then show ?thesis
    using input_pin_released_last [OF demo_provider_steps(1, 2, 3)] by auto
qed

end
