(* ===== verification/Scheduling.thy ===== *)
theory Scheduling
  imports Json_Text
begin

text \<open>
  Work that repeats: the exponential backoff of \<^verbatim>\<open>src/scheduler/backoff.ts\<close> and the jitter of
  \<^verbatim>\<open>utils/time.ts\<close>, the lock of actions (\<^verbatim>\<open>runtime/actionLock.ts\<close>), the loops of the scheduler
  (\<^verbatim>\<open>scheduler/loops.ts\<close>) and the recovery of a failed start (\<^verbatim>\<open>runtime/networkStartup.ts\<close>).

  \<^verbatim>\<open>Math.random()\<close> is a number \<open>k / 2 ^ 53\<close> given by its numerator; the products are rounded once, from
  their exact value. A loop that runs until it is stopped is a function of the list of its turns: what
  the task did, the clock and the random numbers of each. An error is known by the fields that are
  read of it.
\<close>

record failure =
  fl_code :: "string option"
  fl_status :: "int option"
  fl_statusCode :: "int option"
  fl_message :: string

text \<open>\<^verbatim>\<open>err.status ?? err.statusCode\<close>\<close>

definition failure_status :: "failure \<Rightarrow> int option" where
  "failure_status e = (case fl_status e of Some s \<Rightarrow> Some s | None \<Rightarrow> fl_statusCode e)"

section \<open>Backoff and jitter\<close>

text \<open>\<^verbatim>\<open>Math.round(n / d)\<close> for a positive \<open>d\<close>.\<close>

definition round_div :: "int \<Rightarrow> int \<Rightarrow> int" where
  "round_div n d = (2 * n + d) div (2 * d)"

definition random_ok :: "int \<Rightarrow> bool" where
  "random_ok k \<longleftrightarrow> 0 \<le> k \<and> k < 2 ^ 53"

record backoff =
  bo_baseMs :: int
  bo_maxMs :: int
  bo_attempt :: nat

definition new_backoff :: "int \<Rightarrow> int \<Rightarrow> backoff" where
  "new_backoff baseMs maxMs = \<lparr>bo_baseMs = baseMs, bo_maxMs = maxMs, bo_attempt = 0\<rparr>"

definition backoff_success :: "backoff \<Rightarrow> backoff" where
  "backoff_success b = b\<lparr>bo_attempt := 0\<rparr>"

definition exponential :: "backoff \<Rightarrow> int" where
  "exponential b = min (bo_maxMs b) (bo_baseMs b * 2 ^ min (bo_attempt b - 1) 8)"

text \<open>The factor \<^verbatim>\<open>0.75 + Math.random() * 0.5\<close> over the denominator \<open>2 ^ 54\<close>.\<close>

definition backoff_failure :: "int \<Rightarrow> backoff \<Rightarrow> int \<times> backoff" where
  "backoff_failure k b =
     (let b1 = b\<lparr>bo_attempt := bo_attempt b + 1\<rparr> in (round_div (exponential b1 * (3 * 2 ^ 52 + k)) (2 ^ 54), b1))"

text \<open>\<^verbatim>\<open>interval + (random * spread * 2 - spread)\<close> with a spread of fifteen hundredths.\<close>

definition jitterMs :: "int \<Rightarrow> int \<Rightarrow> int" where
  "jitterMs k intervalMs =
     (let spread = max 0 (15 * intervalMs) in
      max 1000 (round_div (100 * intervalMs * 2 ^ 53 + (2 * k * spread - spread * 2 ^ 53)) (100 * 2 ^ 53)))"

lemma round_div_bounds:
  assumes "0 < d" shows "2 * n - d \<le> 2 * d * round_div n d" "2 * d * round_div n d \<le> 2 * n + d"
proof -
  have "2 * d * round_div n d = 2 * n + d - (2 * n + d) mod (2 * d)"
    by (simp add: round_div_def minus_mod_eq_mult_div)
  moreover have "0 \<le> (2 * n + d) mod (2 * d)" "(2 * n + d) mod (2 * d) < 2 * d"
    using assms by simp_all
  ultimately show "2 * n - d \<le> 2 * d * round_div n d" "2 * d * round_div n d \<le> 2 * n + d"
    by linarith+
qed

text \<open>\<open>n\<close> failures in a row.\<close>

fun fail_times :: "int list \<Rightarrow> backoff \<Rightarrow> int list \<times> backoff" where
  "fail_times [] b = ([], b)"
| "fail_times (k # ks) b =
     (case backoff_failure k b of (d, b1) \<Rightarrow> case fail_times ks b1 of (ds, b2) \<Rightarrow> (d # ds, b2))"

lemma backoff_delay:
  assumes "random_ok k" and "0 \<le> bo_baseMs b" and "0 \<le> bo_maxMs b"
  defines "e \<equiv> min (bo_maxMs b) (bo_baseMs b * 2 ^ min (bo_attempt b) 8)"
  shows "3 * e - 2 \<le> 4 * fst (backoff_failure k b)" "4 * fst (backoff_failure k b) \<le> 5 * e + 2"
proof -
  have e: "0 \<le> e" using assms by simp
  define d where "d = fst (backoff_failure k b)"
  have d: "d = round_div (e * (3 * 2 ^ 52 + k)) (2 ^ 54)"
    by (simp add: d_def backoff_failure_def exponential_def e_def Let_def)
  have lo: "e * (3 * 2 ^ 52) \<le> e * (3 * 2 ^ 52 + k)"
    using e assms(1) by (intro mult_left_mono) (auto simp: random_ok_def)
  have hi: "e * (3 * 2 ^ 52 + k) \<le> e * (5 * 2 ^ 52)"
    using e assms(1) by (intro mult_left_mono) (auto simp: random_ok_def)
  show "3 * e - 2 \<le> 4 * d"
    using round_div_bounds(1) [of "2 ^ 54" "e * (3 * 2 ^ 52 + k)"] lo by (simp add: d)
  show "4 * d \<le> 5 * e + 2"
    using round_div_bounds(2) [of "2 ^ 54" "e * (3 * 2 ^ 52 + k)"] hi by (simp add: d)
qed

lemma fail_times_nth:
  assumes "i < length ks" and "list_all random_ok ks" and "0 \<le> bo_baseMs b" and "0 \<le> bo_maxMs b"
  defines "e \<equiv> min (bo_maxMs b) (bo_baseMs b * 2 ^ min (bo_attempt b + i) 8)"
  shows "3 * e - 2 \<le> 4 * fst (fail_times ks b) ! i \<and> 4 * fst (fail_times ks b) ! i \<le> 5 * e + 2"
  using assms(1-4) unfolding e_def
proof (induction ks arbitrary: b i)
  case (Cons k ks)
  obtain d b1 where f: "backoff_failure k b = (d, b1)" by fastforce
  then have b1: "bo_baseMs b1 = bo_baseMs b" "bo_maxMs b1 = bo_maxMs b" "bo_attempt b1 = bo_attempt b + 1"
    by (auto simp: backoff_failure_def Let_def)
  show ?case
  proof (cases i)
    case 0
    then show ?thesis
      using backoff_delay [of k b] Cons.prems f by (simp split: prod.split)
  next
    case (Suc j)
    then show ?thesis
      using Cons.IH [of j b1] Cons.prems f by (auto simp: b1 split: prod.split)
  qed
qed simp

text \<open>
  The delay after the i-th failure in a row is within a quarter of the base doubled i - 1 times, but at most
  eight times, and capped at the maximum; a success starts over.
\<close>

theorem backoff_bounded:
  assumes "list_all random_ok ks" and "0 \<le> baseMs" and "0 \<le> maxMs" and "i < length ks"
    and "e = min maxMs (baseMs * 2 ^ min i 8)"
    and "d = fst (fail_times ks (backoff_success \<lparr>bo_baseMs = baseMs, bo_maxMs = maxMs, bo_attempt = n\<rparr>)) ! i"
  shows "3 * e \<le> 4 * d + 2 \<and> 4 * d \<le> 5 * e + 2 \<and> 4 * d \<le> 5 * maxMs + 2"
  using fail_times_nth [OF assms(4, 1), of "backoff_success \<lparr>bo_baseMs = baseMs, bo_maxMs = maxMs, bo_attempt = n\<rparr>"] assms(2, 3)
    min.cobounded1 [of maxMs "baseMs * 2 ^ min i 8"]
  by (auto simp: assms(5, 6) backoff_success_def)

theorem backoff_bounded_witness:
  "4 * fst (fail_times [0, 0] (backoff_success \<lparr>bo_baseMs = 500, bo_maxMs = 5000, bo_attempt = 7\<rparr>)) ! 1 \<le> 25002"
  using backoff_bounded [of "[0, 0]" 500 5000 1 1000 _ 7] by (simp add: random_ok_def)

section \<open>The lock of operator actions\<close>

record action_lock =
  al_current :: "string option"
  al_startedAt :: "int option"

definition lock_snapshot :: "action_lock \<Rightarrow> bool \<times> string option \<times> int option" where
  "lock_snapshot l = (al_current l \<noteq> None, al_current l, al_startedAt l)"

text \<open>\<open>run\<close> up to the call of the task, and its \<^verbatim>\<open>finally\<close>. The empty label counts as no action.\<close>

definition lock_error :: "string \<Rightarrow> failure" where
  "lock_error running = \<lparr>fl_code = None, fl_status = None, fl_statusCode = Some 409,
     fl_message = ''Action already running: '' @ running\<rparr>"

definition lock_begin :: "string \<Rightarrow> int \<Rightarrow> action_lock \<Rightarrow> failure + action_lock" where
  "lock_begin label now l =
     (if opt_str (al_current l) \<noteq> [] then Inl (lock_error (opt_str (al_current l)))
      else Inr \<lparr>al_current = Some label, al_startedAt = Some now\<rparr>)"

definition lock_finish :: "action_lock \<Rightarrow> action_lock" where
  "lock_finish l = l\<lparr>al_current := None, al_startedAt := None\<rparr>"

text \<open>Actions of the operator, each numbered, that begin and settle in any order: the lock and the
  actions whose task is running.\<close>

datatype lock_event = LockRun nat string int | LockSettle nat

fun lock_step :: "lock_event \<Rightarrow> action_lock \<times> nat list \<Rightarrow> action_lock \<times> nat list" where
  "lock_step (LockRun k label now) (l, run) =
     (case lock_begin label now l of Inl _ \<Rightarrow> (l, run) | Inr l' \<Rightarrow> (l', k # run))"
| "lock_step (LockSettle k) (l, run) = (if k \<in> set run then (lock_finish l, remove1 k run) else (l, run))"

definition lock_inv :: "action_lock \<times> nat list \<Rightarrow> bool" where
  "lock_inv s \<longleftrightarrow> (case snd s of [] \<Rightarrow> opt_str (al_current (fst s)) = [] | [_] \<Rightarrow> opt_str (al_current (fst s)) \<noteq> [] | _ \<Rightarrow> False)"

definition labelled :: "lock_event \<Rightarrow> bool" where
  "labelled e = (case e of LockRun _ label _ \<Rightarrow> label \<noteq> [] | LockSettle _ \<Rightarrow> True)"

text \<open>An event with the empty label, which no caller uses, is left out.\<close>

interpretation action_machine: event_machine "\<lambda>e s. if labelled e then lock_step e s else s" lock_inv
proof
  show "lock_inv (if labelled e then lock_step e s else s)" if "lock_inv s" for e s
    using that
    by (cases s; cases e)
      (auto simp: lock_inv_def labelled_def lock_begin_def lock_finish_def split: list.splits if_splits)
qed

text \<open>
  Whatever actions the operator's interface starts and whenever they settle, at most one of their tasks
  runs; an action asked for while one runs is refused with status 409 and changes nothing, and after the
  running one settles the next is admitted.
\<close>

theorem actions_exclusive:
  assumes "list_all labelled es" and "fold lock_step es (\<lparr>al_current = None, al_startedAt = None\<rparr>, []) = (l, run)"
  shows "length run \<le> 1 \<and>
    (run \<noteq> [] \<longrightarrow> (\<exists>e. lock_begin label now l = Inl e \<and> failure_status e = Some 409)) \<and>
    (run = [k] \<longrightarrow> ok (lock_begin label now (fst (lock_step (LockSettle k) (l, run)))) \<noteq> None)"
proof -
  let ?s0 = "(\<lparr>al_current = None, al_startedAt = None\<rparr>, [] :: nat list)"
  have eq: "fold lock_step es s = fold (\<lambda>e s. if labelled e then lock_step e s else s) es s" for s
    using assms(1) by (induction es arbitrary: s) auto
  have "lock_inv (fold lock_step es ?s0)"
    unfolding eq by (rule action_machine.run_inv) (simp add: lock_inv_def)
  then have "lock_inv (l, run)" using assms(2) by simp
  then show ?thesis
    by (auto simp: lock_inv_def lock_begin_def lock_error_def failure_status_def lock_finish_def split: list.splits)
qed

theorem actions_exclusive_witness:
  "length (snd (fold lock_step [LockRun 1 ''sync'' 5, LockRun 2 ''pin'' 6]
     (\<lparr>al_current = None, al_startedAt = None\<rparr>, []))) \<le> 1"
  using actions_exclusive [of "[LockRun 1 ''sync'' 5, LockRun 2 ''pin'' 6]" "\<lparr>al_current = Some ''sync'', al_startedAt = Some 5\<rparr>" "[1]"]
  by (simp add: labelled_def lock_begin_def)


section \<open>Loops of the scheduler\<close>

definition isActionLockContention :: "failure \<Rightarrow> bool" where
  "isActionLockContention e \<longleftrightarrow> failure_status e = Some 409 \<and> str_includes (fl_message e) ''Action already running''"

lemma lock_refusal_is_contention: "lock_begin label now l = Inl e \<Longrightarrow> isActionLockContention e"
proof -
  assume "lock_begin label now l = Inl e"
  then have "e = lock_error (opt_str (al_current l))" by (simp add: lock_begin_def split: if_splits)
  moreover have "''Action already running: '' @ r = [] @ ''Action already running'' @ ('': '' @ r)" for r by simp
  then have "str_includes (''Action already running: '' @ r) ''Action already running''" for r
    unfolding str_includes_iff by blast
  ultimately show ?thesis by (simp add: isActionLockContention_def lock_error_def failure_status_def)
qed

record loop_config =
  lc_intervalMs :: int
  lc_maxBackoffMs :: int
  lc_summaryMs :: int

record loop_state =
  lo_backoff :: backoff
  lo_failures :: nat
  lo_loggedAt :: int

text \<open>One turn: what the task did, the clock when it failed, the numerators of the two random numbers.\<close>

record turn =
  lt_outcome :: "failure option"
  lt_now :: int
  lt_jitter :: int
  lt_random :: int

datatype loop_log = Quiet | Recovered nat | Skipped | Warned nat int

definition loop_start :: "loop_config \<Rightarrow> loop_state" where
  "loop_start c = \<lparr>lo_backoff = new_backoff (lc_intervalMs c) (lc_maxBackoffMs c), lo_failures = 0, lo_loggedAt = 0\<rparr>"

definition loop_turn :: "loop_config \<Rightarrow> turn \<Rightarrow> loop_state \<Rightarrow> (int \<times> loop_log) \<times> loop_state" where
  "loop_turn c t s =
     (case lt_outcome t of
        None \<Rightarrow> ((jitterMs (lt_jitter t) (lc_intervalMs c), if 0 < lo_failures s then Recovered (lo_failures s) else Quiet),
                 \<lparr>lo_backoff = backoff_success (lo_backoff s), lo_failures = 0, lo_loggedAt = 0\<rparr>)
      | Some e \<Rightarrow>
          if isActionLockContention e then ((jitterMs (lt_jitter t) (lc_intervalMs c), Skipped), s)
          else (case backoff_failure (lt_random t) (lo_backoff s) of (delayMs, b) \<Rightarrow>
            (let failures = lo_failures s + 1;
                 warn = (failures = 1 \<or> lc_summaryMs c \<le> lt_now t - lo_loggedAt s)
             in ((delayMs, if warn then Warned failures delayMs else Quiet),
                 \<lparr>lo_backoff = b, lo_failures = failures, lo_loggedAt = (if warn then lt_now t else lo_loggedAt s)\<rparr>))))"

text \<open>\<open>runResilientLoop\<close>: its turns until it is found stopped, with the delay after each and what was logged.\<close>

fun runResilientLoop :: "loop_config \<Rightarrow> turn list \<Rightarrow> loop_state \<Rightarrow> (int \<times> loop_log) list" where
  "runResilientLoop c [] s = []"
| "runResilientLoop c (t # ts) s = (case loop_turn c t s of (r, s1) \<Rightarrow> r # runResilientLoop c ts s1)"

fun warn_times :: "loop_config \<Rightarrow> turn list \<Rightarrow> loop_state \<Rightarrow> int list" where
  "warn_times c [] s = []"
| "warn_times c (t # ts) s =
     (case loop_turn c t s of ((d, l), s1) \<Rightarrow> (case l of Warned _ _ \<Rightarrow> [lt_now t] | _ \<Rightarrow> []) @ warn_times c ts s1)"

text \<open>A streak that has begun: every further warning comes late enough after the last.\<close>

lemma warn_times_streak:
  assumes "list_all (\<lambda>t. lt_outcome t \<noteq> None) ts" and "0 \<le> lc_summaryMs c" and "0 < lo_failures s"
  shows "sorted_wrt (\<lambda>x y. x + lc_summaryMs c \<le> y) (lo_loggedAt s # warn_times c ts s)"
  using assms(1, 3)
proof (induction ts arbitrary: s)
  case (Cons t ts)
  obtain r s1 where t: "loop_turn c t s = (r, s1)" by fastforce
  obtain e where e: "lt_outcome t = Some e" using Cons.prems by auto
  show ?case
  proof (cases "isActionLockContention e")
    case True
    then show ?thesis using Cons e by (simp add: loop_turn_def)
  next
    case False
    have s1: "0 < lo_failures s1" using t e False by (auto simp: loop_turn_def Let_def split: prod.splits)
    have "sorted_wrt (\<lambda>x y. x + lc_summaryMs c \<le> y) (lo_loggedAt s1 # warn_times c ts s1)"
      using Cons s1 by simp
    then show ?thesis
      using t e False Cons.prems(2) assms(2)
      by (cases "lc_summaryMs c \<le> lt_now t - lo_loggedAt s") (auto simp: loop_turn_def Let_def split: prod.splits)
  qed
qed simp

text \<open>
  However the turns of a loop fall, while no turn succeeds its warnings are at least the summary interval
  apart: a dependency that stays down does not produce a warning per turn.
\<close>

theorem failure_warnings_spaced:
  assumes "list_all (\<lambda>t. lt_outcome t \<noteq> None) ts" and "0 \<le> lc_summaryMs c"
  shows "sorted_wrt (\<lambda>x y. x + lc_summaryMs c \<le> y) (warn_times c ts s)"
  using assms(1)
proof (induction ts arbitrary: s)
  case (Cons t ts)
  obtain e where e: "lt_outcome t = Some e" using Cons.prems by auto
  show ?case
  proof (cases "isActionLockContention e")
    case True
    then show ?thesis using Cons e by (simp add: loop_turn_def)
  next
    case False
    obtain r s1 where t: "loop_turn c t s = (r, s1)" by fastforce
    have s1: "0 < lo_failures s1" using t e False by (auto simp: loop_turn_def Let_def split: prod.splits)
    have "sorted_wrt (\<lambda>x y. x + lc_summaryMs c \<le> y) (lo_loggedAt s1 # warn_times c ts s1)"
      by (rule warn_times_streak) (use Cons.prems assms(2) s1 in simp_all)
    then show ?thesis
      using t e False by (auto simp: loop_turn_def Let_def split: prod.splits)
  qed
qed simp

definition demo_loop :: loop_config where
  "demo_loop = \<lparr>lc_intervalMs = 5000, lc_maxBackoffMs = 60000, lc_summaryMs = 60000\<rparr>"

definition down_at :: "int \<Rightarrow> turn" where
  "down_at now = \<lparr>lt_outcome = Some \<lparr>fl_code = None, fl_status = Some 503, fl_statusCode = None, fl_message = ''down''\<rparr>,
     lt_now = now, lt_jitter = 0, lt_random = 0\<rparr>"

theorem failure_warnings_spaced_witness:
  "sorted_wrt (\<lambda>x y. x + lc_summaryMs demo_loop \<le> y)
     (warn_times demo_loop [down_at 0, down_at 30000, down_at 70000] (loop_start demo_loop))"
  by (rule failure_warnings_spaced) (simp_all add: demo_loop_def down_at_def)

text \<open>The ceiling of the backoff does not depend on the interval, so a loop with a longer interval than the
  ceiling is repeated sooner after a failure than after a success.\<close>

lemma failing_loop_retries_sooner:
  assumes "lc_intervalMs c = 900000" and "lc_maxBackoffMs c = 60000" and "random_ok (lt_jitter t)" and "random_ok (lt_random t)"
    and "lt_outcome t = Some \<lparr>fl_code = None, fl_status = Some 503, fl_statusCode = None, fl_message = ''down''\<rparr>"
  shows "fst (fst (loop_turn c t (loop_start c))) \<le> 75000 \<and>
    765000 \<le> fst (fst (loop_turn c (t\<lparr>lt_outcome := None\<rparr>) (loop_start c)))"
proof -
  let ?b = "new_backoff (lc_intervalMs c) (lc_maxBackoffMs c)"
  have "fst (backoff_failure (lt_random t) ?b) \<le> 75000"
    using backoff_delay(2) [OF assms(4), of ?b] assms(1, 2) by (simp add: new_backoff_def)
  moreover have "765000 \<le> jitterMs (lt_jitter t) 900000"
  proof -
    have "round_div (100 * 900000 * 2 ^ 53 + (2 * lt_jitter t * 13500000 - 13500000 * 2 ^ 53)) (100 * 2 ^ 53) \<ge> 765000"
      using round_div_bounds(1) [of "100 * 2 ^ 53" "100 * 900000 * 2 ^ 53 + (2 * lt_jitter t * 13500000 - 13500000 * 2 ^ 53)"] assms(3)
      by (simp add: random_ok_def)
    then show ?thesis by (simp add: jitterMs_def Let_def)
  qed
  ultimately show ?thesis
    using assms by (auto simp: loop_turn_def loop_start_def isActionLockContention_def failure_status_def Let_def split: prod.split)
qed

section \<open>Recovery of a failed start\<close>

text \<open>One attempt: whether the signal was aborted when the loop looked, what \<open>bootstrap\<close> did, whether the
  signal was aborted when it came back, what \<open>activate\<close> did, and the clock.\<close>

record attempt =
  at_aborted :: bool
  at_bootstrap :: "failure option"
  at_abortedAfter :: bool
  at_activate :: "failure option"
  at_now :: int

datatype startup_call = Bootstrap | Activate | Warn string "int option" | Pause int

definition requires_repair :: "failure \<Rightarrow> bool" where
  "requires_repair e \<longleftrightarrow> failure_status e \<in> {Some 401, Some 403} \<or> fl_code e = Some ''NODE_REGISTRATION_IDENTITY_MISMATCH''"

definition retry_ms :: "nat \<Rightarrow> int" where
  "retry_ms failures = min (5000 * 2 ^ min (failures - 1) 4) 60000"

text \<open>The calls the loop makes over the attempts, and whether it has returned; the list ends where the
  loop still pauses.\<close>

fun recoverNetworkStartup :: "attempt list \<Rightarrow> nat \<Rightarrow> int \<Rightarrow> startup_call list \<times> bool" where
  "recoverNetworkStartup [] failures loggedAt = ([], False)"
| "recoverNetworkStartup (a # as) failures loggedAt =
     (if at_aborted a then ([], True)
      else (case at_bootstrap a of
          None \<Rightarrow>
            if at_abortedAfter a then ([Bootstrap], True)
            else (case at_activate a of
                None \<Rightarrow> ([Bootstrap, Activate], True)
              | Some e \<Rightarrow> ([Bootstrap, Activate, Warn ''activation'' None], True))
        | Some e \<Rightarrow>
            if requires_repair e then ([Bootstrap, Warn ''repair'' None], True)
            else (let n = failures + 1; ms = retry_ms n; warn = (n = 1 \<or> 60000 \<le> at_now a - loggedAt);
                      (calls, returned) = recoverNetworkStartup as n (if warn then at_now a else loggedAt)
                  in ([Bootstrap] @ (if warn then [Warn ''retry'' (Some ms)] else []) @ [Pause ms] @ calls, returned))))"

definition bootstraps :: "startup_call list \<Rightarrow> nat" where
  "bootstraps cs = length (filter (\<lambda>c. c = Bootstrap) cs)"

lemma retry_ms_bounds: "5000 \<le> retry_ms n \<and> retry_ms n \<le> 60000"
  by (simp add: retry_ms_def)

definition retryable :: "attempt \<Rightarrow> bool" where
  "retryable a \<longleftrightarrow> \<not> at_aborted a \<and> (case at_bootstrap a of None \<Rightarrow> False | Some e \<Rightarrow> \<not> requires_repair e)"

lemma bootstraps_simps [simp]:
  "bootstraps [] = 0" "bootstraps (c # cs) = (if c = Bootstrap then 1 else 0) + bootstraps cs"
  "bootstraps (cs @ ds) = bootstraps cs + bootstraps ds"
  by (simp_all add: bootstraps_def)

lemma startup_retry:
  assumes "retryable a"
  obtains w where "recoverNetworkStartup (a # as) f l =
      ([Bootstrap] @ w @ [Pause (retry_ms (f + 1))] @ fst (recoverNetworkStartup as (f + 1) (if w = [] then l else at_now a)),
       snd (recoverNetworkStartup as (f + 1) (if w = [] then l else at_now a)))"
    "w = [] \<or> (\<exists>ms. w = [Warn ''retry'' (Some ms)])"
proof (cases "f + 1 = 1 \<or> 60000 \<le> at_now a - l")
  case True
  then show ?thesis
    using that [of "[Warn ''retry'' (Some (retry_ms (f + 1)))]"] assms
    by (auto simp: retryable_def Let_def split: option.splits prod.splits)
next
  case False
  then show ?thesis
    using that [of "[]"] assms by (auto simp: retryable_def Let_def split: option.splits prod.splits)
qed

text \<open>
  The recovery of a failed start calls \<open>bootstrap\<close> once per attempt up to the first that is aborted, succeeds or is
  refused as a matter of authorization or identity, and returns there; it activates the services exactly when that
  attempt succeeded and was not aborted meanwhile, and never twice; its pauses last from five seconds to a minute.
\<close>

theorem startup_recovery_outcome:
  "let (calls, returned) = recoverNetworkStartup as f l; n = length (takeWhile retryable as) in
   returned = (n < length as) \<and>
   bootstraps calls = n + (if n < length as \<and> \<not> at_aborted (as ! n) then 1 else 0) \<and>
   length (filter (\<lambda>c. c = Activate) calls) =
     (if n < length as \<and> \<not> at_aborted (as ! n) \<and> at_bootstrap (as ! n) = None \<and> \<not> at_abortedAfter (as ! n) then 1 else 0) \<and>
   list_all (\<lambda>c. case c of Pause ms \<Rightarrow> 5000 \<le> ms \<and> ms \<le> 60000 | _ \<Rightarrow> True) calls"
proof (induction as arbitrary: f l)
  case (Cons a as)
  show ?case
  proof (cases "retryable a")
    case True
    obtain w where w: "recoverNetworkStartup (a # as) f l =
      ([Bootstrap] @ w @ [Pause (retry_ms (f + 1))] @ fst (recoverNetworkStartup as (f + 1) (if w = [] then l else at_now a)),
       snd (recoverNetworkStartup as (f + 1) (if w = [] then l else at_now a)))"
      and "w = [] \<or> (\<exists>ms. w = [Warn ''retry'' (Some ms)])"
      by (rule startup_retry [OF True, of as f l])
    moreover have "bootstraps w = 0 \<and> filter (\<lambda>c. c = Activate) w = [] \<and>
        list_all (\<lambda>c. case c of Pause ms \<Rightarrow> 5000 \<le> ms \<and> ms \<le> 60000 | _ \<Rightarrow> True) w"
      using calculation(2) by auto
    ultimately show ?thesis
      using Cons.IH [of "f + 1" "if w = [] then l else at_now a"] True retry_ms_bounds [of "f + 1"]
      by (simp add: Let_def case_prod_beta del: recoverNetworkStartup.simps)
  next
    case False
    then show ?thesis by (auto simp: retryable_def Let_def split: option.splits)
  qed
qed simp

end
