(* ===== verification/Compute_Polling.thy ===== *)
theory Compute_Polling
  imports Provider_Cleanup Scheduling
begin

text \<open>
  How a provider asks the backend for work: the settings of \<^verbatim>\<open>src/compute/providerSettings.ts\<close>, the fingerprint of
  the operator's credential (\<^verbatim>\<open>compute/credentialFingerprint.ts\<close>), and the polling loop of
  \<^verbatim>\<open>compute/remoteComputeRuntime.ts\<close> with the verdict that stops it.

  A poll waits at a phase: for the backend's answer, for the jobs it answered with, or for a write of the
  verdict. Between two waits any other event may happen: a start, a stop, the timer, a retry, a change of the
  state by another component, or a restart of the process. The credential and the configuration belong to
  the process and do not change while it runs.

  Numbers are exact; SHA-256 is a parameter.
\<close>

section \<open>Settings\<close>

record compute_config =
  cc_offer :: bool
  cc_paused :: bool
  cc_maxConcurrency :: int
  cc_maxQueueDepth :: int
  cc_maxInputBytes :: int
  cc_minimumFreeVramBytes :: int

definition effectiveComputeProviderSettings :: "compute_config \<Rightarrow> remote_state \<Rightarrow> compute_settings" where
  "effectiveComputeProviderSettings config s =
     (case rs_settings s of
        Some saved \<Rightarrow> saved
      | None \<Rightarrow> \<lparr>cs_enabled = cc_offer config, cs_paused = cc_paused config, cs_maxConcurrency = cc_maxConcurrency config,
                cs_maxQueueDepth = cc_maxQueueDepth config, cs_maxAcceptedInputBytes = cc_maxInputBytes config,
                cs_minimumFreeVramBytes = cc_minimumFreeVramBytes config\<rparr>)"

text \<open>\<^verbatim>\<open>Number(s)\<close> of a string: blank is zero, then a radix prefix or a decimal literal. \<open>None\<close> is NaN or infinite.\<close>

fun radix_value :: "nat \<Rightarrow> nat \<Rightarrow> string \<Rightarrow> nat option" where
  "radix_value b acc [] = Some acc"
| "radix_value b acc (c # s) =
     (case hex_value c of None \<Rightarrow> None | Some d \<Rightarrow> if d < b then radix_value b (b * acc + d) s else None)"

definition decimal_literal :: "bool \<Rightarrow> string \<Rightarrow> json option" where
  "decimal_literal neg s =
     (let ds = takeWhile is_digit s; r = dropWhile is_digit s;
          fs = (if take 1 r = ''.'' then takeWhile is_digit (drop 1 r) else []);
          r1 = (if take 1 r = ''.'' then dropWhile is_digit (drop 1 r) else r)
      in if ds = [] \<and> fs = [] then None
         else (case take_exp r1 of Some (e, []) \<Rightarrow> Some (number_value neg ds fs e) | _ \<Rightarrow> None))"

definition radix_literal :: "string \<Rightarrow> json option" where
  "radix_literal s =
     (let b = (if to_lower (take 2 s) = ''0x'' then 16 else if to_lower (take 2 s) = ''0o'' then 8
               else if to_lower (take 2 s) = ''0b'' then 2 else 0)
      in if b = 0 \<or> drop 2 s = [] then None else map_option (\<lambda>n. JNum (int n)) (radix_value b 0 (drop 2 s)))"

definition string_number :: "string \<Rightarrow> json option" where
  "string_number text =
     (let s = trim text in
      if s = [] then Some (JNum 0)
      else if radix_literal s \<noteq> None then radix_literal s
      else if take 1 s = ''+'' then decimal_literal False (drop 1 s)
      else case take_sign s of (neg, r) \<Rightarrow> decimal_literal neg r)"

text \<open>\<^verbatim>\<open>Number(v)\<close> of a value.\<close>

definition value_number :: "json \<Rightarrow> json option" where
  "value_number v =
     (case v of JNull \<Rightarrow> Some (JNum 0) | JBool b \<Rightarrow> Some (JNum (if b then 1 else 0)) | JNum i \<Rightarrow> Some (JNum i) | JDec m k \<Rightarrow> Some (JDec m k)
      | _ \<Rightarrow> string_number (js_string v))"

definition safe_integer :: "json option \<Rightarrow> int option" where
  "safe_integer v = (case v of Some (JNum i) \<Rightarrow> if \<bar>i\<bar> < 2 ^ 53 then Some i else None | _ \<Rightarrow> None)"

definition setting_integer :: "json \<Rightarrow> string \<Rightarrow> int \<Rightarrow> int \<Rightarrow> int \<Rightarrow> int result" where
  "setting_integer input key current minimum maximum =
     (case json_field (Some input) key of
        None \<Rightarrow> Inr current
      | Some v \<Rightarrow>
          (case safe_integer (value_number v) of
             Some i \<Rightarrow> if minimum \<le> i \<and> i \<le> maximum then Inr i else Inl (localError 400 (''compute_setting_'' @ key @ ''_invalid''))
           | None \<Rightarrow> Inl (localError 400 (''compute_setting_'' @ key @ ''_invalid''))))"

definition setting_flag :: "json \<Rightarrow> string \<Rightarrow> bool \<Rightarrow> bool" where
  "setting_flag input key current = (case json_field (Some input) key of None \<Rightarrow> current | Some v \<Rightarrow> v = JBool True)"

definition validateComputeProviderSettings :: "json \<Rightarrow> compute_settings \<Rightarrow> compute_settings result" where
  "validateComputeProviderSettings input current =
     res_bind (setting_integer input ''maxConcurrency'' (cs_maxConcurrency current) 1 16) (\<lambda>concurrency.
     res_bind (setting_integer input ''maxQueueDepth'' (cs_maxQueueDepth current) 0 100) (\<lambda>depth.
     res_bind (setting_integer input ''maxAcceptedInputBytes'' (cs_maxAcceptedInputBytes current) (1024 * 1024) (1024 * 1024 * 1024 * 1024)) (\<lambda>bytes.
     res_bind (setting_integer input ''minimumFreeVramBytes'' (cs_minimumFreeVramBytes current) 0 (1024 * 1024 * 1024 * 1024)) (\<lambda>vram.
       Inr \<lparr>cs_enabled = setting_flag input ''enabled'' (cs_enabled current), cs_paused = setting_flag input ''paused'' (cs_paused current),
         cs_maxConcurrency = concurrency, cs_maxQueueDepth = depth, cs_maxAcceptedInputBytes = bytes, cs_minimumFreeVramBytes = vram\<rparr>))))"

definition update_settings :: "compute_config \<Rightarrow> tx_env \<Rightarrow> json \<Rightarrow> (compute_settings, remote_state store) comp" where
  "update_settings config tx input st =
     (case validateComputeProviderSettings input (effectiveComputeProviderSettings config (store_snapshot empty_remote st)) of
        Inl e \<Rightarrow> (Inl e, st)
      | Inr next \<Rightarrow> (case store_update empty_remote tx (\<lambda>s. Inr (s\<lparr>rs_settings := Some next\<rparr>)) st of (r, st1) \<Rightarrow> (map_sum id (\<lambda>_. next) r, st1)))"

section \<open>The credential\<close>

definition fingerprint_domain :: string where
  "fingerprint_domain = ''kubus-node/operator-credential-fingerprint/v1''"

text \<open>\<open>sha\<close> is the hexadecimal SHA-256 digest.\<close>

definition credentialFingerprint :: "(string \<Rightarrow> string) \<Rightarrow> string \<Rightarrow> string option" where
  "credentialFingerprint sha token =
     (if trim token = [] then None else Some (take 16 (sha (fingerprint_domain @ [CHR 0x00] @ trim token))))"

definition computeAuthorizationRequired :: "(string \<Rightarrow> string) \<Rightarrow> compute_authorization option \<Rightarrow> string \<Rightarrow> bool" where
  "computeAuthorizationRequired sha recorded token =
     (case recorded of
        None \<Rightarrow> False
      | Some a \<Rightarrow> ca_required a \<and> (opt_str (ca_fingerprint a) = [] \<or> ca_fingerprint a = credentialFingerprint sha token))"

section \<open>The polling loop\<close>

definition POLL_INTERVAL_MS :: int where "POLL_INTERVAL_MS = 5000"
definition POLL_MAX_BACKOFF_MS :: int where "POLL_MAX_BACKOFF_MS = 60000"
definition FAILURE_SUMMARY_INTERVAL_MS :: int where "FAILURE_SUMMARY_INTERVAL_MS = 60000"

text \<open>What is read of an error: with its status and code, the bodies that may name a scope.\<close>

record poll_error = failure +
  fl_details :: "json option"
  fl_body :: "json option"

definition nullish :: "json option \<Rightarrow> json option \<Rightarrow> json option" where
  "nullish a b = (case a of None \<Rightarrow> b | Some JNull \<Rightarrow> b | _ \<Rightarrow> a)"

definition missingScopeFrom :: "poll_error \<Rightarrow> string option" where
  "missingScopeFrom e =
     (case nullish (json_field (fl_details e) ''missingScope'') (nullish (json_field (fl_details e) ''scope'')
             (nullish (json_field (fl_body e) ''missingScope'') (json_field (fl_body e) ''scope''))) of
        Some (JStr s) \<Rightarrow> if trim s = [] then None else Some (trim s)
      | _ \<Rightarrow> None)"

definition described_status :: "poll_error \<Rightarrow> int option" where
  "described_status e = (case fl_status e of Some s \<Rightarrow> Some s | None \<Rightarrow> fl_statusCode e)"

definition authorization_failure :: "poll_error \<Rightarrow> bool" where
  "authorization_failure e \<longleftrightarrow> described_status e = Some 401 \<or> described_status e = Some 403"

text \<open>An error of the node itself, such as a failed write, as the loop sees it.\<close>

definition storage_error :: "node_error \<Rightarrow> poll_error" where
  "storage_error e = \<lparr>fl_code = error_code e, fl_status = None,
     fl_statusCode = (case e of LocalError n _ \<Rightarrow> Some (int n) | PlainError _ \<Rightarrow> None),
     fl_message = (case e of LocalError _ c \<Rightarrow> c | PlainError m \<Rightarrow> m), fl_details = None, fl_body = None\<rparr>"

record poll_config =
  pf_sha :: "string \<Rightarrow> string"
  pf_token :: string
  pf_compute :: compute_config

datatype poll_phase = Asking | Handling | Authorizing | Blocking poll_error

datatype poll_log = NotStarted | PollRecovered nat | PollStopped nat | VerdictLost nat int | PollWarned nat int

record poll_world =
  po_store :: "remote_state store"
  po_stopped :: bool
  po_phase :: "poll_phase option"
  po_timer :: "int option"
  po_backoff :: backoff
  po_failures :: nat
  po_loggedAt :: int
  po_requests :: nat
  po_log :: "poll_log list"

abbreviation verdict_of :: "poll_world \<Rightarrow> compute_authorization option" where
  "verdict_of w \<equiv> rs_authorization (store_snapshot empty_remote (po_store w))"

definition isAuthorizationBlocked :: "poll_config \<Rightarrow> poll_world \<Rightarrow> bool" where
  "isAuthorizationBlocked c w = computeAuthorizationRequired (pf_sha c) (verdict_of w) (pf_token c)"

definition new_process :: "poll_world \<Rightarrow> poll_world" where
  "new_process w = w\<lparr>po_stopped := True, po_phase := None, po_timer := None,
     po_backoff := new_backoff POLL_INTERVAL_MS POLL_MAX_BACKOFF_MS, po_failures := 0, po_loggedAt := 0\<rparr>"

definition scheduleNextPoll :: "int \<Rightarrow> poll_world \<Rightarrow> poll_world" where
  "scheduleNextPoll delayMs w = w\<lparr>po_timer := Some delayMs\<rparr>"

text \<open>\<open>start\<close> and \<open>stop\<close>, less the timer of the cleanup.\<close>

definition poll_start :: "poll_config \<Rightarrow> poll_world \<Rightarrow> poll_world" where
  "poll_start c w =
     (if \<not> po_stopped w then w
      else if isAuthorizationBlocked c w then w\<lparr>po_log := po_log w @ [NotStarted]\<rparr>
      else scheduleNextPoll 0 (w\<lparr>po_stopped := False\<rparr>))"

definition stopProviderPolling :: "poll_world \<Rightarrow> poll_world" where
  "stopProviderPolling w = w\<lparr>po_stopped := True, po_timer := None\<rparr>"

definition owned_pending :: "remote_state \<Rightarrow> bool" where
  "owned_pending s \<longleftrightarrow> (\<exists>r \<in> set (jm_values (rs_remoteJobs s)). rr_role r = Provider \<and>
     (case rr_cleanup r of None \<Rightarrow> False | Some cl \<Rightarrow> pc_plaintext cl \<noteq> Complete))"

definition may_poll :: "poll_config \<Rightarrow> poll_world \<Rightarrow> bool" where
  "may_poll c w =
     (let s = store_snapshot empty_remote (po_store w); settings = effectiveComputeProviderSettings (pf_compute c) s
      in po_phase w = None \<and> (cs_enabled settings \<and> \<not> cs_paused settings \<or> owned_pending s) \<and> opt_str (rs_nodeId s) \<noteq> [])"

text \<open>The timer fires: \<open>runPollCycle\<close> up to the request.\<close>

definition timer_fires :: "poll_config \<Rightarrow> poll_world \<Rightarrow> poll_world" where
  "timer_fires c w =
     (if po_timer w = None then w
      else let w1 = w\<lparr>po_timer := None\<rparr> in
        if po_stopped w then w1
        else if may_poll c w then w1\<lparr>po_phase := Some Asking, po_requests := po_requests w + 1\<rparr>
        else scheduleNextPoll POLL_INTERVAL_MS w1)"

text \<open>The end of a poll: the flag is cleared, and a loop that was not stopped goes on.\<close>

definition finish_poll :: "int \<Rightarrow> poll_world \<Rightarrow> poll_world" where
  "finish_poll delayMs w = (let w1 = w\<lparr>po_phase := None\<rparr> in if po_stopped w then w1 else scheduleNextPoll delayMs w1)"

definition onPollSucceeded :: "poll_world \<Rightarrow> poll_world" where
  "onPollSucceeded w =
     w\<lparr>po_log := po_log w @ (if 0 < po_failures w then [PollRecovered (po_failures w)] else []),
       po_failures := 0, po_loggedAt := 0, po_backoff := backoff_success (po_backoff w)\<rparr>"

text \<open>\<open>onPollFailed\<close> up to its wait; \<open>k\<close> is the numerator of the random number.\<close>

definition onPollFailed :: "int \<Rightarrow> int \<Rightarrow> poll_error \<Rightarrow> poll_world \<Rightarrow> poll_world" where
  "onPollFailed now k e w0 =
     (let w = w0\<lparr>po_failures := po_failures w0 + 1\<rparr> in
      if authorization_failure e then w\<lparr>po_phase := Some (Blocking e)\<rparr>
      else case backoff_failure k (po_backoff w) of (delayMs, b) \<Rightarrow>
        (let warn = (po_failures w = 1 \<or> FAILURE_SUMMARY_INTERVAL_MS \<le> now - po_loggedAt w)
         in finish_poll delayMs (w\<lparr>po_backoff := b, po_loggedAt := (if warn then now else po_loggedAt w),
              po_log := po_log w @ (if warn then [PollWarned (po_failures w) delayMs] else [])\<rparr>)))"

definition block_record :: "poll_config \<Rightarrow> int \<Rightarrow> poll_error \<Rightarrow> remote_state \<Rightarrow> remote_state result" where
  "block_record c now e s =
     Inr (s\<lparr>rs_authorization := Some
       \<lparr>ca_required = True, ca_status = described_status e,
        ca_missingScope = Some (case missingScopeFrom e of Some scope \<Rightarrow> scope | None \<Rightarrow> ''compute:jobs:read''),
        ca_surface = Some ''provider_jobs'', ca_observedAt = Some now, ca_fingerprint = credentialFingerprint (pf_sha c) (pf_token c),
        ca_lastAuthorizedAt = (case rs_authorization s of None \<Rightarrow> None | Some a \<Rightarrow> ca_lastAuthorizedAt a)\<rparr>\<rparr>)"

definition authorized_record :: "poll_config \<Rightarrow> int \<Rightarrow> remote_state \<Rightarrow> remote_state result" where
  "authorized_record c now s =
     Inr (s\<lparr>rs_authorization := Some
       \<lparr>ca_required = False, ca_status = None, ca_missingScope = None, ca_surface = None, ca_observedAt = None,
        ca_fingerprint = credentialFingerprint (pf_sha c) (pf_token c), ca_lastAuthorizedAt = Some now\<rparr>\<rparr>)"

definition already_authorized :: "poll_config \<Rightarrow> poll_world \<Rightarrow> bool" where
  "already_authorized c w =
     (case verdict_of w of None \<Rightarrow> False | Some a \<Rightarrow> \<not> ca_required a \<and> ca_fingerprint a = credentialFingerprint (pf_sha c) (pf_token c))"

text \<open>A write that another task awaits, and its result.\<close>

abbreviation put_poll :: "remote_state store \<Rightarrow> poll_world \<Rightarrow> poll_world" where
  "put_poll st w \<equiv> w\<lparr>po_store := st\<rparr>"

definition poll_update :: "tx_env \<Rightarrow> (remote_state \<Rightarrow> remote_state result) \<Rightarrow> (unit, poll_world) comp" where
  "poll_update tx = transact po_store put_poll empty_remote tx"

definition retryAuthorization :: "poll_config \<Rightarrow> tx_env \<Rightarrow> (bool, poll_world) comp" where
  "retryAuthorization c tx w =
     (case poll_update tx (\<lambda>s. Inr (s\<lparr>rs_authorization := map_option (\<lambda>a. a\<lparr>ca_required := False\<rparr>) (rs_authorization s)\<rparr>)) w of
        (Inl e, w1) \<Rightarrow> (Inl e, w1)
      | (Inr _, w1) \<Rightarrow>
          (let settings = effectiveComputeProviderSettings (pf_compute c) (store_snapshot empty_remote (po_store w1)) in
           if \<not> cs_enabled settings \<or> cs_paused settings then (Inr False, w1)
           else let w2 = poll_start c (w1\<lparr>po_failures := 0, po_backoff := backoff_success (po_backoff w1)\<rparr>)
                in (Inr (\<not> po_stopped w2), w2)))"

text \<open>The events: \<open>Handled None\<close> when every job of the answer was handled, \<open>Saved\<close> when the awaited write is over.\<close>

datatype poll_event = Started | Stopped | Fired | Answered int int "poll_error option" | Handled int int "poll_error option"
  | Saved tx_env int int | Retried tx_env | Restarted | Changed tx_env "remote_state \<Rightarrow> remote_state"

definition poll_step :: "poll_config \<Rightarrow> poll_event \<Rightarrow> poll_world \<Rightarrow> poll_world" where
  "poll_step c ev w =
     (case ev of
        Started \<Rightarrow> poll_start c w
      | Stopped \<Rightarrow> stopProviderPolling w
      | Fired \<Rightarrow> timer_fires c w
      | Answered now k reply \<Rightarrow>
          if po_phase w \<noteq> Some Asking then w
          else (case reply of None \<Rightarrow> w\<lparr>po_phase := Some Handling\<rparr> | Some e \<Rightarrow> onPollFailed now k e w)
      | Handled now k outcome \<Rightarrow>
          if po_phase w \<noteq> Some Handling then w
          else (case outcome of
                  Some e \<Rightarrow> onPollFailed now k e w
                | None \<Rightarrow> (let w1 = onPollSucceeded w in
                    if already_authorized c w1 then finish_poll POLL_INTERVAL_MS w1 else w1\<lparr>po_phase := Some Authorizing\<rparr>))
      | Saved tx now k \<Rightarrow>
          (case po_phase w of
             Some Authorizing \<Rightarrow>
               (case poll_update tx (authorized_record c now) w of
                  (Inl e, w1) \<Rightarrow> onPollFailed now k (storage_error e) w1
                | (Inr _, w1) \<Rightarrow> finish_poll POLL_INTERVAL_MS w1)
           | Some (Blocking e) \<Rightarrow>
               (case poll_update tx (block_record c now e) w of
                  (Inl _, w1) \<Rightarrow> (case backoff_failure k (po_backoff w1) of (delayMs, b) \<Rightarrow>
                     finish_poll delayMs (w1\<lparr>po_backoff := b, po_log := po_log w1 @ [VerdictLost (po_failures w1) delayMs]\<rparr>))
                | (Inr _, w1) \<Rightarrow> (let w2 = stopProviderPolling w1 in
                     finish_poll POLL_MAX_BACKOFF_MS (w2\<lparr>po_log := po_log w2 @ [PollStopped (po_failures w2)]\<rparr>)))
           | _ \<Rightarrow> w)
      | Retried tx \<Rightarrow> snd (retryAuthorization c tx w)
      | Restarted \<Rightarrow> new_process w
      | Changed tx f \<Rightarrow> snd (poll_update tx (\<lambda>s. Inr ((f s)\<lparr>rs_authorization := rs_authorization s\<rparr>)) w))"

definition poll_run :: "poll_config \<Rightarrow> poll_event list \<Rightarrow> poll_world \<Rightarrow> poll_world" where
  "poll_run c es w = fold (poll_step c) es w"

section \<open>Settings stay in range\<close>

text \<open>The limits of the settings, with the ranges that an update may give them.\<close>

definition setting_limits :: "(string \<times> (compute_settings \<Rightarrow> int) \<times> int \<times> int) list" where
  "setting_limits = [(''maxConcurrency'', cs_maxConcurrency, 1, 16), (''maxQueueDepth'', cs_maxQueueDepth, 0, 100),
     (''maxAcceptedInputBytes'', cs_maxAcceptedInputBytes, 2 ^ 20, 2 ^ 40), (''minimumFreeVramBytes'', cs_minimumFreeVramBytes, 0, 2 ^ 40)]"

definition names_setting :: "string \<Rightarrow> json \<Rightarrow> bool" where
  "names_setting key input \<longleftrightarrow> json_field (Some input) key \<noteq> None"

lemma setting_integer_range:
  "setting_integer input key current lo hi = Inr i \<Longrightarrow> if names_setting key input then lo \<le> i \<and> i \<le> hi else i = current"
  by (auto simp: setting_integer_def names_setting_def split: option.splits if_splits)

lemma validate_range:
  assumes "validateComputeProviderSettings input current = Inr new" and "(key, field, lo, hi) \<in> set setting_limits"
  shows "if names_setting key input then lo \<le> field new \<and> field new \<le> hi else field new = field current"
proof -
  obtain a b c d where i: "setting_integer input ''maxConcurrency'' (cs_maxConcurrency current) 1 16 = Inr a"
    "setting_integer input ''maxQueueDepth'' (cs_maxQueueDepth current) 0 100 = Inr b"
    "setting_integer input ''maxAcceptedInputBytes'' (cs_maxAcceptedInputBytes current) (1024 * 1024) (1024 * 1024 * 1024 * 1024) = Inr c"
    "setting_integer input ''minimumFreeVramBytes'' (cs_minimumFreeVramBytes current) 0 (1024 * 1024 * 1024 * 1024) = Inr d"
    "cs_maxConcurrency new = a" "cs_maxQueueDepth new = b" "cs_maxAcceptedInputBytes new = c" "cs_minimumFreeVramBytes new = d"
    using assms(1) by (auto simp: validateComputeProviderSettings_def res_bind_Inr)
  have "key = ''maxConcurrency'' \<and> field = cs_maxConcurrency \<and> lo = 1 \<and> hi = 16 \<or> key = ''maxQueueDepth'' \<and> field = cs_maxQueueDepth \<and> lo = 0 \<and> hi = 100 \<or>
      key = ''maxAcceptedInputBytes'' \<and> field = cs_maxAcceptedInputBytes \<and> lo = 2 ^ 20 \<and> hi = 2 ^ 40 \<or>
      key = ''minimumFreeVramBytes'' \<and> field = cs_minimumFreeVramBytes \<and> lo = 0 \<and> hi = 2 ^ 40"
    using assms(2) by (simp add: setting_limits_def)
  then show ?thesis
    using setting_integer_range [OF i(1)] setting_integer_range [OF i(2)] setting_integer_range [OF i(3)] setting_integer_range [OF i(4)] i(5-8) by fastforce
qed

text \<open>Updates one after the other; the first component of the result is what was accepted.\<close>

fun update_run :: "compute_config \<Rightarrow> (tx_env \<times> json) list \<Rightarrow> remote_state store \<Rightarrow> json list \<times> remote_state store" where
  "update_run config [] st = ([], st)"
| "update_run config ((tx, input) # us) st =
     (case update_settings config tx input st of (r, st1) \<Rightarrow>
        (case update_run config us st1 of (accepted, st2) \<Rightarrow> (case r of Inl _ \<Rightarrow> accepted | Inr _ \<Rightarrow> input # accepted, st2)))"

abbreviation effective :: "compute_config \<Rightarrow> remote_state store \<Rightarrow> compute_settings" where
  "effective config st \<equiv> effectiveComputeProviderSettings config (store_snapshot empty_remote st)"

lemma update_settings_cases:
  assumes ready: "store_ready tx st" and run: "update_settings config tx input st = (r, st1)"
  shows "case r of Inl e \<Rightarrow> store_snapshot empty_remote st1 = store_snapshot empty_remote st
    | Inr new \<Rightarrow> validateComputeProviderSettings input (effective config st) = Inr new \<and> effective config st1 = new"
    and "store_ready tx' st \<Longrightarrow> store_ready tx' st1"
proof -
  have "(case r of Inl e \<Rightarrow> store_snapshot empty_remote st1 = store_snapshot empty_remote st
      | Inr new \<Rightarrow> validateComputeProviderSettings input (effective config st) = Inr new \<and> effective config st1 = new) \<and>
    (store_ready tx' st \<longrightarrow> store_ready tx' st1)"
  proof (cases "validateComputeProviderSettings input (effective config st)")
    case (Inr new)
    obtain u where u: "store_update empty_remote tx (\<lambda>s. Inr (s\<lparr>rs_settings := Some new\<rparr>)) st = (u, st1)" "r = map_sum id (\<lambda>_. new) u"
      using run Inr by (auto simp: update_settings_def split: prod.splits)
    have kept: "store_ready tx' st \<longrightarrow> store_ready tx' st1" using local_store.stays_ready [OF ready _ u(1)] by blast
    show ?thesis
    proof (cases u)
      case Inl
      then show ?thesis using local_store.abort [OF ready u(1) [unfolded Inl]] u(2) kept by simp
    next
      case (Inr s1)
      then have "store_snapshot empty_remote st1 = (store_snapshot empty_remote st)\<lparr>rs_settings := Some new\<rparr>"
        using local_store.commit [OF ready u(1) [unfolded Inr]] by simp
      then show ?thesis
        using u(2) kept Inr \<open>validateComputeProviderSettings input (effective config st) = Inr new\<close> by (simp add: effectiveComputeProviderSettings_def)
    qed
  next
    case (Inl e)
    then have "r = Inl e" "st1 = st" using run by (simp_all add: update_settings_def)
    then show ?thesis by simp
  qed
  then show "case r of Inl e \<Rightarrow> store_snapshot empty_remote st1 = store_snapshot empty_remote st
      | Inr new \<Rightarrow> validateComputeProviderSettings input (effective config st) = Inr new \<and> effective config st1 = new"
    and "store_ready tx' st \<Longrightarrow> store_ready tx' st1" by blast+
qed

section \<open>What a step does\<close>

definition event_ok :: "string \<Rightarrow> poll_event \<Rightarrow> bool" where
  "event_ok p ev = (case ev of
     Answered _ k _ \<Rightarrow> random_ok k | Handled _ k _ \<Rightarrow> random_ok k | Saved tx _ k \<Rightarrow> writes_beside p tx \<and> random_ok k
   | Retried tx \<Rightarrow> writes_beside p tx | Changed tx _ \<Rightarrow> writes_beside p tx | _ \<Rightarrow> True)"

interpretation poll_store: store_in_world po_store put_poll
  by unfold_locales simp

lemma poll_update_world: "poll_update tx m w = (r, w1) \<Longrightarrow> \<exists>st. w1 = w\<lparr>po_store := st\<rparr>"
  by (auto simp: poll_update_def transact_def split: prod.splits)

lemma poll_update_synced:
  assumes "synced p (po_store w)" and "writes_beside p tx" and "poll_update tx m w = (r, w1)"
  shows "synced p (po_store w1)"
proof -
  have "wp (poll_update tx m) (\<lambda>_ v. synced p (po_store v)) (\<lambda>_ v. synced p (po_store v)) w"
    unfolding poll_update_def by (rule poll_store.wp_transact_inv [OF assms(1, 2)]) simp_all
  then show ?thesis using assms(3) by (cases r) (simp_all add: wp_def)
qed

text \<open>A loop that is not stopped waits for its timer or for a poll, and no delay is longer than a minute and a quarter.\<close>

definition poll_inv :: "string \<Rightarrow> poll_world \<Rightarrow> bool" where
  "poll_inv p w \<longleftrightarrow> synced p (po_store w) \<and> (po_stopped w \<longrightarrow> po_timer w = None) \<and>
     (\<not> po_stopped w \<longrightarrow> po_timer w \<noteq> None \<or> po_phase w \<noteq> None) \<and>
     (\<forall>d. po_timer w = Some d \<longrightarrow> 0 \<le> d \<and> d \<le> 75000) \<and>
     bo_baseMs (po_backoff w) = POLL_INTERVAL_MS \<and> bo_maxMs (po_backoff w) = POLL_MAX_BACKOFF_MS"

lemmas poll_consts = POLL_INTERVAL_MS_def POLL_MAX_BACKOFF_MS_def

lemma poll_backoff:
  assumes "backoff_failure k b = (d, b1)" and "random_ok k" and "bo_baseMs b = POLL_INTERVAL_MS" and "bo_maxMs b = POLL_MAX_BACKOFF_MS"
  shows "0 \<le> d \<and> d \<le> 75000 \<and> bo_baseMs b1 = POLL_INTERVAL_MS \<and> bo_maxMs b1 = POLL_MAX_BACKOFF_MS"
proof -
  have "3000 \<le> min 60000 (5000 * x)" if "1 \<le> x" for x :: int using that by simp
  from this [of "2 ^ min (bo_attempt b) 8"]
  have "3000 \<le> min (bo_maxMs b) (bo_baseMs b * 2 ^ min (bo_attempt b) 8)" "min (bo_maxMs b) (bo_baseMs b * 2 ^ min (bo_attempt b) 8) \<le> 60000"
    unfolding assms(3, 4) poll_consts by simp_all
  moreover have "0 \<le> bo_baseMs b" "0 \<le> bo_maxMs b" by (simp_all add: assms poll_consts)
  ultimately have "0 \<le> d" "d \<le> 75000" using backoff_delay [OF assms(2), of b] unfolding assms(1) fst_conv by linarith+
  then show ?thesis using assms by (auto simp: backoff_failure_def Let_def)
qed

lemma finish_inv:
  assumes "synced p (po_store w)" and "po_stopped w \<longrightarrow> po_timer w = None" and "0 \<le> d" and "d \<le> 75000"
    and "bo_baseMs (po_backoff w) = POLL_INTERVAL_MS" and "bo_maxMs (po_backoff w) = POLL_MAX_BACKOFF_MS"
  shows "poll_inv p (finish_poll d w)"
  using assms by (simp add: poll_inv_def finish_poll_def scheduleNextPoll_def Let_def)

lemma onPollFailed_inv:
  assumes "poll_inv p w" and "random_ok k"
  shows "poll_inv p (onPollFailed now k e w)"
proof -
  obtain d b where b: "backoff_failure k (po_backoff w) = (d, b)" by fastforce
  have "0 \<le> d \<and> d \<le> 75000 \<and> bo_baseMs b = POLL_INTERVAL_MS \<and> bo_maxMs b = POLL_MAX_BACKOFF_MS"
    by (rule poll_backoff [OF b assms(2)]) (use assms(1) in \<open>simp_all add: poll_inv_def\<close>)
  then have "poll_inv p (finish_poll d (w\<lparr>po_failures := n, po_backoff := b, po_loggedAt := t, po_log := l\<rparr>))" for n t l
    using assms(1) by (intro finish_inv) (simp_all add: poll_inv_def)
  moreover have "poll_inv p (w\<lparr>po_failures := n, po_phase := Some ph\<rparr>)" for n ph
    using assms(1) by (simp add: poll_inv_def)
  ultimately show ?thesis by (simp add: onPollFailed_def b Let_def)
qed

lemma poll_start_inv: "poll_inv p w \<Longrightarrow> poll_inv p (poll_start c w)"
  by (simp add: poll_inv_def poll_start_def scheduleNextPoll_def)

lemma poll_update_inv:
  assumes "poll_inv p w" and "writes_beside p tx" and "poll_update tx m w = (r, w1)"
  shows "poll_inv p w1"
  using poll_update_world [OF assms(3)] poll_update_synced [OF _ assms(2, 3)] assms(1) by (auto simp: poll_inv_def)

lemma retry_inv:
  assumes "poll_inv p w" and "writes_beside p tx"
  shows "poll_inv p (snd (retryAuthorization c tx w))"
proof -
  obtain r w1 where u: "poll_update tx (\<lambda>s. Inr (s\<lparr>rs_authorization := map_option (\<lambda>a. a\<lparr>ca_required := False\<rparr>) (rs_authorization s)\<rparr>)) w = (r, w1)"
    by fastforce
  have "poll_inv p w1" by (rule poll_update_inv [OF assms u])
  then have "poll_inv p (w1\<lparr>po_failures := 0, po_backoff := backoff_success (po_backoff w1)\<rparr>)"
    by (simp add: poll_inv_def backoff_success_def)
  then show ?thesis
    using u \<open>poll_inv p w1\<close> poll_start_inv by (cases r) (simp_all add: retryAuthorization_def Let_def)
qed

lemma saved_inv:
  assumes inv: "poll_inv p w" and tx: "writes_beside p tx" and k: "random_ok k"
  shows "poll_inv p (poll_step c (Saved tx now k) w)"
proof (cases "po_phase w")
  case (Some ph)
  show ?thesis
  proof (cases ph)
    case Authorizing
    obtain r w1 where u: "poll_update tx (authorized_record c now) w = (r, w1)" by fastforce
    note w1 = poll_update_inv [OF inv tx u]
    then have "poll_inv p (finish_poll POLL_INTERVAL_MS w1)" by (intro finish_inv) (auto simp: poll_inv_def poll_consts)
    then show ?thesis using Some Authorizing u onPollFailed_inv [OF w1 k] by (cases r) (simp_all add: poll_step_def)
  next
    case (Blocking e)
    obtain r w1 where u: "poll_update tx (block_record c now e) w = (r, w1)" by fastforce
    note w1 = poll_update_inv [OF inv tx u]
    obtain d b where b: "backoff_failure k (po_backoff w1) = (d, b)" by fastforce
    have "0 \<le> d \<and> d \<le> 75000 \<and> bo_baseMs b = POLL_INTERVAL_MS \<and> bo_maxMs b = POLL_MAX_BACKOFF_MS"
      by (rule poll_backoff [OF b k]) (use w1 in \<open>simp_all add: poll_inv_def\<close>)
    then have "poll_inv p (finish_poll d (w1\<lparr>po_backoff := b, po_log := l\<rparr>))" for l
      using w1 by (intro finish_inv) (auto simp: poll_inv_def)
    moreover have "poll_inv p (finish_poll POLL_MAX_BACKOFF_MS (stopProviderPolling w1\<lparr>po_log := l\<rparr>))" for l
      using w1 by (intro finish_inv) (auto simp: poll_inv_def stopProviderPolling_def poll_consts)
    ultimately show ?thesis using Some Blocking u b by (cases r) (simp_all add: poll_step_def Let_def)
  qed (use Some inv in \<open>simp_all add: poll_step_def\<close>)
qed (use inv in \<open>simp add: poll_step_def\<close>)

lemma poll_step_inv:
  assumes "poll_inv p w" and "event_ok p ev"
  shows "poll_inv p (poll_step c ev w)"
proof (cases ev)
  case (Saved tx now k)
  then show ?thesis using saved_inv assms by (simp add: event_ok_def)
next
  case (Answered now k reply)
  then show ?thesis
    using assms onPollFailed_inv [OF assms(1)] by (auto simp: poll_step_def event_ok_def poll_inv_def split: option.split)
next
  case (Handled now k outcome)
  have "poll_inv p (onPollSucceeded w)" using assms(1) by (simp add: poll_inv_def onPollSucceeded_def backoff_success_def)
  moreover from this have "poll_inv p (finish_poll POLL_INTERVAL_MS (onPollSucceeded w))"
    by (intro finish_inv) (auto simp: poll_inv_def poll_consts)
  ultimately show ?thesis
    using assms onPollFailed_inv [OF assms(1)] Handled by (auto simp: poll_step_def event_ok_def poll_inv_def Let_def split: option.split)
next
  case (Changed tx f)
  obtain r w1 where u: "poll_update tx (\<lambda>s. Inr ((f s)\<lparr>rs_authorization := rs_authorization s\<rparr>)) w = (r, w1)" by fastforce
  then show ?thesis using poll_update_inv [OF assms(1) _ u] assms(2) Changed by (simp add: poll_step_def event_ok_def)
next
  case (Retried tx)
  then show ?thesis using retry_inv assms by (simp add: poll_step_def event_ok_def)
next
  case Fired
  then show ?thesis using assms(1) by (auto simp: poll_step_def timer_fires_def poll_inv_def scheduleNextPoll_def Let_def poll_consts)
qed (use assms(1) in \<open>simp_all add: poll_step_def poll_start_inv new_process_def new_backoff_def stopProviderPolling_def\<close>,
     auto simp: poll_inv_def)

interpretation poll_machine: event_machine "\<lambda>ev w. if event_ok p ev then poll_step c ev w else w" "poll_inv p" for p c
  by unfold_locales (simp add: poll_step_inv)

lemma poll_run_inv:
  assumes "poll_inv p w" and "list_all (event_ok p) es"
  shows "poll_inv p (poll_run c es w)"
proof -
  have "poll_run c es w = fold (\<lambda>ev w. if event_ok p ev then poll_step c ev w else w) es w"
    unfolding poll_run_def using assms(2) by (induction es arbitrary: w) auto
  then show ?thesis using poll_machine.run_inv [OF assms(1)] by simp
qed

section \<open>A verdict\<close>

text \<open>Events that leave a poll that waits for its verdict to be saved where it is.\<close>

fun before_saved :: "poll_event \<Rightarrow> bool" where
  "before_saved (Saved _ _ _) \<longleftrightarrow> False"
| "before_saved Restarted \<longleftrightarrow> False"
| "before_saved _ \<longleftrightarrow> True"

fun not_retried :: "poll_event \<Rightarrow> bool" where
  "not_retried (Retried _) \<longleftrightarrow> False"
| "not_retried _ \<longleftrightarrow> True"

lemma poll_start_keeps: "po_phase (poll_start c w) = po_phase w" "po_requests (poll_start c w) = po_requests w"
  by (simp_all add: poll_start_def scheduleNextPoll_def)

lemma retry_keeps: "po_phase (snd (retryAuthorization c tx w)) = po_phase w" "po_requests (snd (retryAuthorization c tx w)) = po_requests w"
proof -
  obtain r w1 where u: "poll_update tx (\<lambda>s. Inr (s\<lparr>rs_authorization := map_option (\<lambda>a. a\<lparr>ca_required := False\<rparr>) (rs_authorization s)\<rparr>)) w = (r, w1)"
    by fastforce
  obtain st where "w1 = w\<lparr>po_store := st\<rparr>" using poll_update_world [OF u] by blast
  then show "po_phase (snd (retryAuthorization c tx w)) = po_phase w" "po_requests (snd (retryAuthorization c tx w)) = po_requests w"
    using u by (cases r; simp add: retryAuthorization_def Let_def poll_start_keeps)+
qed

lemma changed_keeps:
  "po_phase (poll_step c (Changed tx f) w) = po_phase w" "po_requests (poll_step c (Changed tx f) w) = po_requests w"
  "po_stopped (poll_step c (Changed tx f) w) = po_stopped w" "po_timer (poll_step c (Changed tx f) w) = po_timer w"
  by (simp_all add: poll_step_def poll_update_def transact_def split: prod.split)

lemma blocking_step:
  assumes "po_phase w = Some (Blocking e)" and "before_saved ev"
  shows "po_phase (poll_step c ev w) = Some (Blocking e) \<and> po_requests (poll_step c ev w) = po_requests w"
proof (cases ev)
  case (Changed tx f)
  then show ?thesis using assms(1) changed_keeps(1, 2) [of c tx f w] by simp
next
  case (Retried tx)
  then show ?thesis using assms(1) retry_keeps [of c tx w] by (simp add: poll_step_def)
qed (use assms in \<open>simp_all add: poll_step_def poll_start_keeps stopProviderPolling_def timer_fires_def may_poll_def scheduleNextPoll_def Let_def\<close>)

text \<open>Blocked: stopped, no poll under way, and the verdict against the credential in use is on disk.\<close>

definition silent :: "poll_config \<Rightarrow> string \<Rightarrow> poll_world \<Rightarrow> bool" where
  "silent c p w \<longleftrightarrow> synced p (po_store w) \<and> isAuthorizationBlocked c w \<and> po_stopped w \<and> po_phase w = None \<and> po_timer w = None"

lemma changed_verdict:
  assumes "synced p (po_store w)" and "writes_beside p tx"
  shows "synced p (po_store (poll_step c (Changed tx f) w)) \<and> verdict_of (poll_step c (Changed tx f) w) = verdict_of w"
proof -
  have "wp (poll_update tx (\<lambda>s. Inr ((f s)\<lparr>rs_authorization := rs_authorization s\<rparr>)))
      (\<lambda>_ v. synced p (po_store v) \<and> verdict_of v = verdict_of w) (\<lambda>_ v. synced p (po_store v) \<and> verdict_of v = verdict_of w) w"
    unfolding poll_update_def by (rule poll_store.wp_transact_inv [OF assms]) auto
  from wp_snd [OF this] show ?thesis by (simp add: poll_step_def)
qed

lemma silent_step:
  assumes "silent c p w" and "event_ok p ev" and "not_retried ev"
  shows "silent c p (poll_step c ev w) \<and> po_requests (poll_step c ev w) = po_requests w"
proof (cases ev)
  case (Changed tx f)
  then show ?thesis
    using assms(1, 2) changed_keeps [of c tx f w] changed_verdict [of p w tx c f]
    by (simp add: silent_def isAuthorizationBlocked_def event_ok_def)
qed (use assms in \<open>simp_all add: silent_def poll_step_def poll_start_def isAuthorizationBlocked_def stopProviderPolling_def timer_fires_def new_process_def\<close>)

lemma saved_silent:
  assumes inv: "poll_inv p w" and ph: "po_phase w = Some (Blocking e)" and tx: "store_writable tx (po_store w)" "writes_beside p tx"
  shows "silent c p (poll_step c (Saved tx now k) w) \<and> po_requests (poll_step c (Saved tx now k) w) = po_requests w"
proof -
  obtain st where st: "poll_update tx (block_record c now e) w = (Inr (), w\<lparr>po_store := st\<rparr>)"
    "Inr (store_snapshot empty_remote st) = block_record c now e (store_snapshot empty_remote (po_store w))"
    using transact_commits [of "{tx}" po_store w tx "block_record c now e" empty_remote] tx(1)
    by (auto simp: poll_update_def block_record_def)
  have "synced p st" using poll_update_synced [OF _ tx(2) st(1)] inv by (simp add: poll_inv_def)
  moreover have "computeAuthorizationRequired (pf_sha c) (rs_authorization (store_snapshot empty_remote st)) (pf_token c)"
    using st(2) by (auto simp: block_record_def computeAuthorizationRequired_def)
  ultimately show ?thesis
    using ph st(1) by (simp add: poll_step_def silent_def isAuthorizationBlocked_def stopProviderPolling_def finish_poll_def Let_def)
qed

lemma run_append: "poll_run c (es @ es') w = poll_run c es' (poll_run c es w)"
  by (simp add: poll_run_def)

lemma blocking_run:
  assumes "po_phase w = Some (Blocking e)" and "list_all before_saved es"
  shows "po_phase (poll_run c es w) = Some (Blocking e) \<and> po_requests (poll_run c es w) = po_requests w"
  using assms
proof (induction es arbitrary: w)
  case (Cons ev es)
  then show ?case using blocking_step [of w e ev c] by (simp add: poll_run_def)
qed (simp add: poll_run_def)

lemma silent_run:
  assumes "silent c p w" and "list_all (event_ok p) es" and "list_all not_retried es"
  shows "silent c p (poll_run c es w) \<and> po_requests (poll_run c es w) = po_requests w"
  using assms
proof (induction es arbitrary: w)
  case (Cons ev es)
  then show ?case using silent_step [of c p w ev] by (simp add: poll_run_def)
qed (simp add: poll_run_def)

section \<open>Properties\<close>

definition demo_poll_config :: poll_config where
  "demo_poll_config = \<lparr>pf_sha = (\<lambda>s. s), pf_token = ''kubus_node_1'',
     pf_compute = \<lparr>cc_offer = True, cc_paused = False, cc_maxConcurrency = 1, cc_maxQueueDepth = 2, cc_maxInputBytes = 2 ^ 30,
       cc_minimumFreeVramBytes = 0\<rparr>\<rparr>"

definition demo_forbidden :: poll_error where
  "demo_forbidden = \<lparr>fl_code = None, fl_status = Some 403, fl_statusCode = None, fl_message = ''forbidden'', fl_details = None, fl_body = None\<rparr>"

text \<open>A provider that has just asked.\<close>

definition demo_polling :: poll_world where
  "demo_polling = new_process \<lparr>po_store = saved_store (empty_remote\<lparr>rs_nodeId := Some ''n''\<rparr>), po_stopped = True, po_phase = None, po_timer = None,
     po_backoff = new_backoff 0 0, po_failures = 0, po_loggedAt = 0, po_requests = 0, po_log = []\<rparr>"

definition demo_asking :: poll_world where
  "demo_asking = poll_run demo_poll_config [Started, Fired] demo_polling"

text \<open>
  C18. Once the backend has answered a poll with 401 or 403 and the verdict is on disk, the backend is not asked
  again for this credential: whatever starts, stops, timers, changes of the state and restarts of the process
  follow, no further request is made, unless the operator retries. Nor is one made while the verdict is
  being written, whatever happens meanwhile in the process.
\<close>
theorem blocked_credential_silent:
  assumes "poll_inv p w" and "po_phase w = Some Asking" and "authorization_failure e" and "random_ok k"
    and "list_all (event_ok p) es" and "list_all before_saved es"
    and "w1 = poll_run c (Answered now k (Some e) # es) w" and "store_writable tx (po_store w1)" and "writes_beside p tx" and "random_ok k'"
    and "list_all (event_ok p) es'" and "list_all not_retried es'"
  shows "po_requests w1 = po_requests w \<and> po_requests (poll_run c (Saved tx now' k' # es') w1) = po_requests w \<and>
    isAuthorizationBlocked c (poll_run c (Saved tx now' k' # es') w1)"
proof -
  let ?a = "poll_step c (Answered now k (Some e)) w"
  have a: "po_phase ?a = Some (Blocking e)" "po_requests ?a = po_requests w"
    using assms(2, 3) by (simp_all add: poll_step_def onPollFailed_def Let_def)
  have w1: "w1 = poll_run c es ?a" using assms(7) by (simp add: poll_run_def)
  have inv: "poll_inv p w1"
    unfolding assms(7) by (rule poll_run_inv [OF assms(1)]) (use assms(4, 5) in \<open>simp add: event_ok_def\<close>)
  note wait = blocking_run [OF a(1) assms(6), of c, folded w1]
  have "silent c p (poll_step c (Saved tx now' k') w1)" "po_requests (poll_step c (Saved tx now' k') w1) = po_requests w1"
    using saved_silent [OF inv _ assms(8, 9)] wait by blast+
  then show ?thesis
    using silent_run [OF _ assms(11, 12), of c "poll_step c (Saved tx now' k') w1"] wait a(2)
    by (simp add: poll_run_def silent_def)
qed

theorem blocked_credential_silent_witness:
  "po_requests (poll_run demo_poll_config [Saved quiet_env 8 0, Restarted, Started, Fired]
     (poll_run demo_poll_config [Answered 7 0 (Some demo_forbidden), Started] demo_asking)) = po_requests demo_asking \<and> po_requests demo_asking = 1"
proof -
  let ?w1 = "poll_run demo_poll_config [Answered 7 0 (Some demo_forbidden), Started] demo_asking"
  have facts: "po_store demo_asking = saved_store (empty_remote\<lparr>rs_nodeId := Some ''n''\<rparr>)" "po_phase demo_asking = Some Asking" "po_requests demo_asking = 1"
    "po_store ?w1 = po_store demo_asking" "authorization_failure demo_forbidden"
    "\<not> po_stopped demo_asking" "po_backoff demo_asking = new_backoff POLL_INTERVAL_MS POLL_MAX_BACKOFF_MS" "po_timer demo_asking = None"
    by (simp_all add: demo_asking_def demo_polling_def poll_run_def poll_step_def poll_start_def new_process_def timer_fires_def scheduleNextPoll_def
        isAuthorizationBlocked_def computeAuthorizationRequired_def may_poll_def effectiveComputeProviderSettings_def demo_poll_config_def opt_str_def
        onPollFailed_def demo_forbidden_def authorization_failure_def described_status_def empty_remote_def Let_def)
  have inv: "poll_inv ''state.json'' demo_asking" using facts by (simp add: poll_inv_def new_backoff_def)
  show ?thesis
    using blocked_credential_silent [OF inv, of demo_forbidden 0 "[Started]" ?w1 demo_poll_config 7 quiet_env 0 "[Restarted, Started, Fired]" 8] facts
    by (simp add: random_ok_def event_ok_def)
qed

text \<open>
  C25. The loop never stalls: however its events interleave, a provider that was started and not stopped has a
  poll under way or its next one scheduled, in at most seventy-five seconds; a stopped one has no timer.
\<close>
theorem polling_never_stalls:
  assumes "synced p (po_store w)" and "list_all (event_ok p) es" and "w' = poll_run c es (new_process w)"
  shows "(\<not> po_stopped w' \<longrightarrow> po_phase w' \<noteq> None \<or> (\<exists>d. po_timer w' = Some d \<and> 0 \<le> d \<and> d \<le> 75000)) \<and>
    (po_stopped w' \<longrightarrow> po_timer w' = None)"
proof -
  have "poll_inv p (new_process w)" using assms(1) by (simp add: poll_inv_def new_process_def new_backoff_def)
  from poll_run_inv [OF this assms(2), of c] show ?thesis by (auto simp: assms(3) poll_inv_def)
qed

theorem polling_never_stalls_witness:
  "\<exists>d. po_timer (poll_run demo_poll_config [Started] demo_polling) = Some d \<and> d \<le> 75000"
proof -
  let ?w = "poll_run demo_poll_config [Started] demo_polling"
  have "\<not> po_stopped ?w" "po_phase ?w = None"
    by (simp_all add: demo_polling_def poll_run_def poll_step_def poll_start_def new_process_def scheduleNextPoll_def
        isAuthorizationBlocked_def computeAuthorizationRequired_def empty_remote_def Let_def)
  then show ?thesis
    using polling_never_stalls [of "''state.json''" demo_polling "[Started]" ?w demo_poll_config]
    by (auto simp: event_ok_def demo_polling_def new_process_def)
qed

text \<open>
  C39. A limit that a client has set is in range from then on, and no other limit changes. Take any sequence of updates of the provider's
  settings, each with whatever JSON value a client sends, and any failures of the writes. A limit that an accepted update named
  ends within the bounds for it (concurrency 1 to 16, queue depth 0 to 100, input bytes from a mebibyte to a tebibyte, free memory at most a
  tebibyte); a limit that none named is what it was before the sequence, which the configuration may have put outside those bounds.
\<close>
theorem settings_stay_in_range:
  assumes "\<forall>u \<in> set us. store_ready (fst u) st" and "update_run config us st = (accepted, st')"
  shows "\<forall>(key, field, lo, hi) \<in> set setting_limits.
    if \<exists>input \<in> set accepted. names_setting key input
    then lo \<le> field (effectiveComputeProviderSettings config (store_snapshot empty_remote st')) \<and>
         field (effectiveComputeProviderSettings config (store_snapshot empty_remote st')) \<le> hi
    else field (effectiveComputeProviderSettings config (store_snapshot empty_remote st')) =
         field (effectiveComputeProviderSettings config (store_snapshot empty_remote st))"
  using assms
proof (induction us arbitrary: st accepted)
  case (Cons u us)
  obtain tx input where e: "u = (tx, input)" by (cases u)
  obtain r st1 rest where u: "update_settings config tx input st = (r, st1)" and run: "update_run config us st1 = (rest, st')"
    and acc: "accepted = (case r of Inl _ \<Rightarrow> rest | Inr _ \<Rightarrow> input # rest)"
    using Cons.prems(2) by (auto simp: e split: prod.splits)
  have ready: "store_ready tx st" using Cons.prems(1) by (simp add: e)
  have "\<forall>v \<in> set us. store_ready (fst v) st1" using update_settings_cases(2) [OF ready u] Cons.prems(1) by simp
  note later = Cons.IH [OF this run]
  note first = update_settings_cases(1) [OF ready u]
  show ?case
  proof (cases r)
    case (Inl er)
    then have "accepted = rest" "effective config st1 = effective config st" using first acc by simp_all
    then show ?thesis using later by (simp only:)
  next
    case (Inr new)
    then have new: "validateComputeProviderSettings input (effective config st) = Inr new" "effective config st1 = new" using first by simp_all
    show ?thesis
    proof (clarsimp simp only: acc Inr sum.case list.set, goal_cases)
      case (1 key field lo hi)
      then show ?case using later validate_range [OF new(1) 1] new(2) by (auto split: if_splits)
    qed
  qed
qed simp

text \<open>A configured concurrency out of range, which an update of another setting keeps, and which an update that names it brings into range; the last is refused.\<close>

definition sample_updates :: "(tx_env \<times> json) list" where
  "sample_updates = [(quiet_env, JObj [(''paused'', JBool True)]), (quiet_env, JObj [(''maxConcurrency'', JStr ''0x4'')]), (quiet_env, JObj [(''maxQueueDepth'', JNum 101)])]"

definition wide_config :: compute_config where
  "wide_config = (pf_compute demo_poll_config)\<lparr>cc_maxConcurrency := 32\<rparr>"

lemma configured_limit_unchecked:
  "cs_maxConcurrency (effective wide_config (snd (update_run wide_config (take 1 sample_updates) (saved_store empty_remote)))) = 32"
  by code_simp

lemma sample_updates_accepted:
  "fst (update_run wide_config sample_updates (saved_store empty_remote)) = [JObj [(''paused'', JBool True)], JObj [(''maxConcurrency'', JStr ''0x4'')]]"
  by code_simp

theorem settings_stay_in_range_witness:
  "cs_maxConcurrency (effective wide_config (snd (update_run wide_config sample_updates (saved_store empty_remote)))) \<le> 16 \<and>
   cs_maxQueueDepth (effective wide_config (snd (update_run wide_config sample_updates (saved_store empty_remote)))) =
     cs_maxQueueDepth (effective wide_config (saved_store empty_remote))"
proof -
  let ?r = "update_run wide_config sample_updates (saved_store empty_remote)"
  have "\<forall>u \<in> set sample_updates. store_ready (fst u) (saved_store empty_remote)" by (simp add: sample_updates_def)
  moreover have "?r = ([JObj [(''paused'', JBool True)], JObj [(''maxConcurrency'', JStr ''0x4'')]], snd ?r)"
    using sample_updates_accepted prod.collapse [of ?r] by simp
  ultimately show ?thesis
    by (rule settings_stay_in_range [THEN revcut_rl]) (simp add: setting_limits_def names_setting_def json_field_def)
qed

end
