(* ===== verification/Compute_Jobs.thy ===== *)
theory Compute_Jobs
  imports Compute_Polling
begin

text \<open>
  Remote jobs from both sides, after \<^verbatim>\<open>src/compute/remoteComputeRuntime.ts\<close>: a provider that decides what to do with
  each job the backend names and reports its progress (\<open>handleProviderJob\<close>, \<open>submitProviderOutput\<close>, \<open>failProviderJob\<close>), and a
  requester that submits a capture, retrieves the output and releases its input.

  A handler runs between its waits on the world of \<open>Provider_Cleanup\<close>, beside a log of its calls to the backend. What other tasks do
  during the n-th wait is \<open>he_await n\<close>, an arbitrary function of the world; the answers of the backend, of the
  gate and of the tasks that are awaited come from \<open>handler_env\<close>. \<open>handling_refines_steps\<close> shows that a handler does nothing but steps
  of \<open>provider_step\<close>, so that what \<open>Provider_Cleanup\<close> proves of all interleavings holds while jobs are handled.
\<close>

section \<open>Diagnostics\<close>

record cleanup_diagnostics =
  dg_plaintextPending :: nat
  dg_plaintextBlocked :: nat
  dg_inputPinReleasesPending :: nat
  dg_requesterSubmissionsUnconfirmed :: nat
  dg_legacyReviewRequired :: nat

definition provider_records :: "remote_state \<Rightarrow> remote_record list" where
  "provider_records s = filter (\<lambda>r. rr_role r = Provider) (jm_values (rs_remoteJobs s))"

definition cleanup_holds :: "(provider_cleanup \<Rightarrow> bool) \<Rightarrow> remote_record \<Rightarrow> bool" where
  "cleanup_holds P r = (case rr_cleanup r of None \<Rightarrow> False | Some c \<Rightarrow> P c)"

definition cleanupDiagnostics :: "remote_state \<Rightarrow> cleanup_diagnostics" where
  "cleanupDiagnostics s =
     (let rs = provider_records s in
      \<lparr>dg_plaintextPending = length (filter (cleanup_holds (\<lambda>c. pc_plaintext c \<noteq> Complete)) rs),
       dg_plaintextBlocked = length (filter (cleanup_holds (\<lambda>c. pc_plaintext c = Blocked)) rs),
       dg_inputPinReleasesPending = length (filter (cleanup_holds pc_inputPinReleasePending) rs),
       dg_requesterSubmissionsUnconfirmed = length (filter pi_reconcile (jm_values (rs_privateCids s))),
       dg_legacyReviewRequired = length (filter (\<lambda>r. rr_cleanup r = None \<or>
         cleanup_holds (\<lambda>c. opt_str (pc_pinOwner c) = [] \<and> pc_inputPinReleasePending c) r) rs)\<rparr>)"

section \<open>What to do with a job\<close>

datatype job_action = Ignore | Release | ReleaseThenRecord | ReleaseThenFail bool | DeclineJob string | AskGate | Continue

definition ended_states :: "string list" where
  "ended_states = [''CANCELLED'', ''FAILED'', ''EXPIRED'', ''DECLINED'', ''COMPLETED'']"

definition local_id :: "remote_record option \<Rightarrow> string" where
  "local_id r = (case r of None \<Rightarrow> [] | Some r \<Rightarrow> opt_str (rr_localJobId r))"

definition dispatch_job :: "compute_settings \<Rightarrow> remote_state \<Rightarrow> remote_job \<Rightarrow> job_action" where
  "dispatch_job settings s job =
     (let existing = jm_get (rs_remoteJobs s) (jo_id job);
          has = (case existing of None \<Rightarrow> False | Some r \<Rightarrow> rr_cleanup r \<noteq> None)
      in if jo_state job \<in> set ended_states
         then (if has \<and> rr_role (the existing) = Provider then Release else Ignore)
         else if jo_state job = ''OUTPUT_READY'' \<and> has then ReleaseThenRecord
         else if (\<not> cs_enabled settings \<or> cs_paused settings) \<and> local_id existing = [] then (if has then Release else Ignore)
         else if has \<and> cleanup_holds pc_requested (the existing)
         then ReleaseThenFail (jo_state job \<in> set [''ACCEPTED'', ''INPUT_READY'', ''RUNNING''])
         else if jo_state job = ''MATCHED''
         then (if 0 < dg_plaintextBlocked (cleanupDiagnostics s) then DeclineJob ''provider_cleanup_pending'' else AskGate)
         else Continue)"

definition active_jobs :: "remote_state \<Rightarrow> nat" where
  "active_jobs s = length (filter (\<lambda>r. rr_state r \<in> set [''PREPARING'', ''ACCEPTED'', ''INPUT_READY'', ''RUNNING'']) (provider_records s))"

text \<open>The checks after the gate; \<open>None\<close> accepts.\<close>

definition admit_job :: "compute_settings \<Rightarrow> remote_state \<Rightarrow> remote_job \<Rightarrow> string option" where
  "admit_job settings s job =
     (if cs_maxAcceptedInputBytes settings < jo_inputBytes job then Some ''provider_input_too_large''
      else if cs_maxConcurrency settings + cs_maxQueueDepth settings \<le> int (active_jobs s) then Some ''provider_capacity_full''
      else None)"

section \<open>Handling\<close>

datatype api_call = Transition string string string | SubmitOutput string "string list" string

type_synonym handler_world = "api_call list \<times> provider_world"

record handler_env =
  he_compute :: compute_config
  he_provider :: "nat \<Rightarrow> provider_env"
  he_await :: "nat \<Rightarrow> provider_world \<Rightarrow> provider_world"
  he_api :: "nat \<Rightarrow> unit result"
  he_released :: "nat \<Rightarrow> unit result"
  he_gate :: "unit result"
  he_prepared :: "unit result"
  he_sign :: "string result"

definition within :: "('a, provider_world) comp \<Rightarrow> ('a, handler_world) comp" where
  "within m hw = (case hw of (calls, w) \<Rightarrow> (case m w of (r, w1) \<Rightarrow> (r, (calls, w1))))"

text \<open>A wait: others run, then the awaited result is there.\<close>

definition await :: "handler_env \<Rightarrow> nat \<Rightarrow> 'a result \<Rightarrow> ('a, handler_world) comp" where
  "await env n r = andThen (within (writes (he_await env n))) (\<lambda>_. of_result r)"

definition transitionJob :: "handler_env \<Rightarrow> nat \<Rightarrow> remote_job \<Rightarrow> string \<Rightarrow> string \<Rightarrow> (unit, handler_world) comp" where
  "transitionJob env n job st code =
     andThen (writes (\<lambda>(calls, w). (calls @ [Transition (jo_id job) st code], w))) (\<lambda>_. await env n (he_api env n))"

definition release_input :: "handler_env \<Rightarrow> nat \<Rightarrow> remote_job \<Rightarrow> (unit, handler_world) comp" where
  "release_input env n job =
     andThen (within (request (he_provider env n) (jo_id job))) (\<lambda>_. await env n (he_released env n))"

definition update_record :: "handler_env \<Rightarrow> nat \<Rightarrow> remote_job \<Rightarrow> string \<Rightarrow> (unit, handler_world) comp" where
  "update_record env n job st =
     andThen (within (remote_update (pe_tx (he_provider env n)) (track_record (pe_now (he_provider env n)) (jo_id job) Provider st))) (\<lambda>_. await env n (Inr ()))"

definition record_at :: "remote_job \<Rightarrow> (remote_record option, handler_world) comp" where
  "record_at job = within (reads (\<lambda>w. jm_get (rs_remoteJobs (remote_of w)) (jo_id job)))"

text \<open>\<open>submitProviderOutput\<close>; the output of a local job is the record of its scene.\<close>

definition output_cids :: "spatial_record \<Rightarrow> string list" where
  "output_cids spatial = sp_manifestCid spatial # map (\<lambda>(role, cid, n). cid) (sp_variants spatial)"

definition submitProviderOutput :: "handler_env \<Rightarrow> remote_job \<Rightarrow> local_job \<Rightarrow> (unit, handler_world) comp" where
  "submitProviderOutput env job local =
     andThen (within (reads (\<lambda>w. case jb_output local of None \<Rightarrow> None | Some k \<Rightarrow> jm_get (js_spatial (jobs_of w)) k))) (\<lambda>spatial.
       case spatial of
         None \<Rightarrow> throw (localError 500 ''remote_output_invalid'')
       | Some sp \<Rightarrow>
           if sp_manifestCid sp = [] then throw (localError 500 ''remote_output_invalid'')
           else andThen (await env 10 (he_sign env)) (\<lambda>signature.
             andThen (writes (\<lambda>(calls, w). (calls @ [SubmitOutput (jo_id job) (output_cids sp) signature], w))) (\<lambda>_.
             andThen (await env 11 (he_api env 11)) (\<lambda>_.
             andThen (release_input env 12 job) (\<lambda>_. update_record env 13 job ''OUTPUT_READY'')))))"

text \<open>A child that is already there is adopted: a crash must not start a second worker.\<close>

definition adopt_child :: "handler_env \<Rightarrow> remote_job \<Rightarrow> (remote_record option, handler_world) comp" where
  "adopt_child env job =
     andThen (record_at job) (\<lambda>r.
     andThen (within (reads (\<lambda>w. find (\<lambda>local. json_field (Some (jb_input local)) ''remoteComputeJobId'' = Some (JStr (jo_id job)))
                (jm_values (js_jobs (jobs_of w)))))) (\<lambda>child.
       if (case r of None \<Rightarrow> False | Some r \<Rightarrow> rr_cleanup r \<noteq> None) \<and> local_id r = [] \<and> child \<noteq> None
       then andThen (within (remote_update (pe_tx (he_provider env 2)) (adopt_record (jo_id job) (jb_id (the child))))) (\<lambda>_.
            andThen (await env 2 (Inr ())) (\<lambda>_. record_at job))
       else ret r))"

definition prepare_job :: "handler_env \<Rightarrow> remote_job \<Rightarrow> remote_record option \<Rightarrow> (remote_record option, handler_world) comp" where
  "prepare_job env job r =
     (if jo_state job \<in> set [''ACCEPTED'', ''INPUT_READY''] \<and> local_id r = []
      then andThen (within (provider_own (he_provider env 3) job)) (\<lambda>owned.
           andThen (await env 3 (Inr ())) (\<lambda>_.
           andThen (within (start_preparation job owned)) (\<lambda>_.
           andThen (await env 4 (he_prepared env)) (\<lambda>_. record_at job))))
      else ret r)"

definition report_running :: "handler_env \<Rightarrow> remote_job \<Rightarrow> remote_record option \<Rightarrow> (remote_job, handler_world) comp" where
  "report_running env job r =
     (if local_id r \<noteq> [] \<and> jo_state job \<in> set [''ACCEPTED'', ''INPUT_READY'']
      then andThen (if jo_state job = ''ACCEPTED'' then transitionJob env 5 job ''INPUT_READY'' [] else ret ()) (\<lambda>_.
           andThen (transitionJob env 6 job ''RUNNING'' []) (\<lambda>_. ret (job\<lparr>jo_state := ''RUNNING''\<rparr>)))
      else ret job)"

definition settle_job :: "handler_env \<Rightarrow> remote_job \<Rightarrow> remote_record option \<Rightarrow> (unit, handler_world) comp" where
  "settle_job env job r =
     (if jo_state job = ''RUNNING'' \<and> local_id r \<noteq> []
      then andThen (within (get_job (local_id r))) (\<lambda>local.
             if jb_state local = Failed \<or> jb_state local = Cancelled
             then throw (localError 500 (case jb_error local of None \<Rightarrow> ''remote_worker_failed'' | Some (code, _) \<Rightarrow> str_or code ''remote_worker_failed''))
             else if jb_state local = Completed then submitProviderOutput env job local
             else ret ())
      else ret ())"

definition continue_job :: "handler_env \<Rightarrow> remote_job \<Rightarrow> (unit, handler_world) comp" where
  "continue_job env job =
     andThen (adopt_child env job) (\<lambda>r0.
     andThen (prepare_job env job r0) (\<lambda>r.
     andThen (report_running env job r) (\<lambda>job1. settle_job env job1 r)))"

definition settings_at :: "handler_env \<Rightarrow> (compute_settings \<times> remote_state, handler_world) comp" where
  "settings_at env = within (reads (\<lambda>w. (effectiveComputeProviderSettings (he_compute env) (remote_of w), remote_of w)))"

definition accept_job :: "handler_env \<Rightarrow> remote_job \<Rightarrow> (unit, handler_world) comp" where
  "accept_job env job =
     andThen (await env 0 (he_gate env)) (\<lambda>_.
     andThen (settings_at env) (\<lambda>(settings, s).
       case admit_job settings s job of
         Some code \<Rightarrow> transitionJob env 1 job ''DECLINED'' code
       | None \<Rightarrow> andThen (transitionJob env 1 job ''ACCEPTED'' []) (\<lambda>_. continue_job env (job\<lparr>jo_state := ''ACCEPTED''\<rparr>))))"

definition perform :: "handler_env \<Rightarrow> remote_job \<Rightarrow> job_action \<Rightarrow> (unit, handler_world) comp" where
  "perform env job a =
     (case a of
        Ignore \<Rightarrow> ret ()
      | Release \<Rightarrow> release_input env 0 job
      | ReleaseThenRecord \<Rightarrow> andThen (release_input env 0 job) (\<lambda>_. update_record env 1 job ''OUTPUT_READY'')
      | ReleaseThenFail live \<Rightarrow>
          andThen (release_input env 0 job) (\<lambda>_.
            if live then andThen (transitionJob env 1 job ''FAILED'' ''provider_input_released'') (\<lambda>_. update_record env 2 job ''FAILED'') else ret ())
      | DeclineJob code \<Rightarrow> transitionJob env 0 job ''DECLINED'' code
      | AskGate \<Rightarrow> accept_job env job
      | Continue \<Rightarrow> continue_job env job)"

definition handleProviderJob :: "handler_env \<Rightarrow> remote_job \<Rightarrow> (unit, handler_world) comp" where
  "handleProviderJob env job = andThen (settings_at env) (\<lambda>(settings, s). perform env job (dispatch_job settings s job))"

definition failProviderJob :: "handler_env \<Rightarrow> remote_job \<Rightarrow> node_error \<Rightarrow> (unit, handler_world) comp" where
  "failProviderJob env job e =
     andThen (within (reads (\<lambda>w. (opt_str (rs_nodeId (remote_of w)), jm_get (rs_remoteJobs (remote_of w)) (jo_id job))))) (\<lambda>(nodeId, r).
     andThen (if nodeId \<noteq> [] \<and> jo_state job \<notin> set [''FAILED'', ''CANCELLED'', ''EXPIRED'', ''DECLINED'']
              then handle (transitionJob env 20 job ''FAILED'' (case error_code e of None \<Rightarrow> ''provider_failed'' | Some c \<Rightarrow> str_or c ''provider_failed'')) (\<lambda>_. ret ())
              else ret ()) (\<lambda>_.
       if r = None then ret () else release_input env 21 job))"

text \<open>The jobs of one answer, one after the other; each has its own surroundings.\<close>

fun handle_jobs :: "(handler_env \<times> remote_job) list \<Rightarrow> (unit, handler_world) comp" where
  "handle_jobs [] = ret ()"
| "handle_jobs ((env, job) # rest) =
     andThen (handle (handleProviderJob env job) (failProviderJob env job)) (\<lambda>_. handle_jobs rest)"

section \<open>What a handler keeps\<close>

definition accepting :: "api_call \<Rightarrow> bool" where
  "accepting c = (case c of Transition _ st _ \<Rightarrow> st = ''ACCEPTED'' | _ \<Rightarrow> False)"

text \<open>
  The operations a handler is made of, and a relation that each of them keeps. Whatever is proved here of the
  handler is proved for every such relation.
\<close>

locale handler_relation = step_relation R for R :: "handler_world \<Rightarrow> handler_world \<Rightarrow> bool" +
  fixes allowed :: "api_call \<Rightarrow> bool" and env :: handler_env
  assumes call: "allowed c \<Longrightarrow> R (calls, w) (calls @ [c], w)"
    and others: "R (calls, w) (calls, he_await env n w)"
    and requests: "R (calls, w) (calls, snd (request (he_provider env n) i w))"
    and owns: "R (calls, w) (calls, snd (provider_own (he_provider env n) job w))"
    and prepares: "R (calls, w) (calls, snd (start_preparation job r w))"
    and tracks: "R (calls, w) (calls, snd (remote_update (pe_tx (he_provider env n)) (track_record now i role st) w))"
    and adopts: "R (calls, w) (calls, snd (remote_update (pe_tx (he_provider env n)) (adopt_record i localId) w))"
    and progress: "\<not> accepting c \<Longrightarrow> allowed c"
begin

lemma along_within: "(\<And>calls w. R (calls, w) (calls, snd (m w))) \<Longrightarrow> along R (within m)"
  unfolding along_def within_def by (auto split: prod.split) (metis snd_conv)

lemma along_get: "along R (within (get_job i))"
proof (rule along_within)
  have "snd (get_job i w) = w" for w :: provider_world
    by (simp add: get_job_def andThen_def reads_def ret_def throw_def split: option.split)
  then show "R (calls, w) (calls, snd (get_job i w))" for calls w by (simp add: refl)
qed

lemma along_basic:
  "along R (within (reads f))"
  "allowed c \<Longrightarrow> along R (writes (\<lambda>(calls, w). (calls @ [c], w)))" "along R (within (writes (he_await env n)))"
  by (auto simp: along_def reads_def writes_def within_def refl call others)

lemmas along_rules = along_intros along_then along_handle along_pure along_basic along_get
  along_within [OF requests] along_within [OF owns] along_within [OF prepares] along_within [OF tracks] along_within [OF adopts]

lemma along_await: "along R (await env n r)"
  unfolding await_def by (intro along_rules)

lemma along_transition: "allowed (Transition (jo_id job) st code) \<Longrightarrow> along R (transitionJob env n job st code)"
  unfolding transitionJob_def by (intro along_rules along_await)

lemma along_record: "along R (record_at job)"
  unfolding record_at_def by (intro along_rules)

lemma along_release: "along R (release_input env n job)"
  unfolding release_input_def by (intro along_rules along_await)

lemma along_track: "along R (update_record env n job st)"
  unfolding update_record_def by (intro along_rules along_await)

lemma along_submit: "along R (submitProviderOutput env job local)"
proof -
  have "allowed (SubmitOutput i cids sig)" for i cids sig by (rule progress) (simp add: accepting_def)
  then have "along R (case spatial of None \<Rightarrow> throw (localError 500 ''remote_output_invalid'')
       | Some sp \<Rightarrow>
           if sp_manifestCid sp = [] then throw (localError 500 ''remote_output_invalid'')
           else andThen (await env 10 (he_sign env)) (\<lambda>signature.
             andThen (writes (\<lambda>(calls, w). (calls @ [SubmitOutput (jo_id job) (output_cids sp) signature], w))) (\<lambda>_.
             andThen (await env 11 (he_api env 11)) (\<lambda>_.
             andThen (release_input env 12 job) (\<lambda>_. update_record env 13 job ''OUTPUT_READY'')))))" for spatial
    by (cases spatial) (simp_all, (intro along_rules along_await along_release along_track impI conjI | simp)+)
  then show ?thesis unfolding submitProviderOutput_def by (intro along_rules)
qed

lemma along_continue: "along R (continue_job env job)"
proof -
  have allowed: "st \<noteq> ''ACCEPTED'' \<Longrightarrow> allowed (Transition i st code)" for i st code by (rule progress) (simp add: accepting_def)
  have "along R (adopt_child env job)"
    unfolding adopt_child_def by (intro along_rules along_await along_record)
  moreover have "along R (prepare_job env job r)" for r
    unfolding prepare_job_def by (intro along_rules along_await along_record)
  moreover have "along R (report_running env job r)" for r
    unfolding report_running_def by (intro along_rules along_transition allowed) simp_all
  moreover have "along R (settle_job env job1 r)" for job1 r
    unfolding settle_job_def by (intro along_rules along_submit)
  ultimately show ?thesis unfolding continue_job_def by (intro along_rules)
qed

lemma along_fail: "along R (failProviderJob env job e)"
proof -
  have "allowed (Transition (jo_id job) ''FAILED'' code)" for code by (rule progress) (simp add: accepting_def)
  then have "along R (case x of (nodeId, r) \<Rightarrow>
     andThen (if nodeId \<noteq> [] \<and> jo_state job \<notin> set [''FAILED'', ''CANCELLED'', ''EXPIRED'', ''DECLINED'']
              then handle (transitionJob env 20 job ''FAILED'' (case error_code e of None \<Rightarrow> ''provider_failed'' | Some c \<Rightarrow> str_or c ''provider_failed'')) (\<lambda>_. ret ())
              else ret ()) (\<lambda>_.
       if r = None then ret () else release_input env 21 job))" for x :: "string \<times> remote_record option"
    unfolding split_def by (intro along_rules along_transition along_release)
  then show ?thesis unfolding failProviderJob_def by (intro along_rules)
qed

text \<open>All of the handler but the acceptance of a new job.\<close>

lemma along_perform:
  assumes "a \<noteq> AskGate \<or> along R (accept_job env job)"
  shows "along R (perform env job a)"
proof -
  have allowed: "st \<noteq> ''ACCEPTED'' \<Longrightarrow> allowed (Transition i st code)" for i st code by (rule progress) (simp add: accepting_def)
  show ?thesis
  proof (cases a)
    case (ReleaseThenFail live)
    show ?thesis unfolding ReleaseThenFail perform_def job_action.case
      by (intro along_rules along_release along_track along_transition allowed) simp
  next
    case ReleaseThenRecord
    show ?thesis unfolding ReleaseThenRecord perform_def job_action.case by (intro along_rules along_release along_track)
  qed (use assms in \<open>simp_all add: perform_def along_continue along_release along_transition allowed along_basic along_pure\<close>)
qed

end

text \<open>A relation that every call to the backend keeps, too.\<close>

locale handler_closed = handler_relation +
  assumes any_call: "allowed c"
begin

lemma along_accept: "along R (accept_job env job)"
proof -
  have "along R (case admit_job settings s job of
         Some code \<Rightarrow> transitionJob env 1 job ''DECLINED'' code
       | None \<Rightarrow> andThen (transitionJob env 1 job ''ACCEPTED'' []) (\<lambda>_. continue_job env (job\<lparr>jo_state := ''ACCEPTED''\<rparr>)))" for settings s
    by (cases "admit_job settings s job") (simp_all add: along_transition any_call, intro along_rules along_transition any_call along_continue)
  then show ?thesis unfolding accept_job_def settings_at_def split_def by (intro along_rules along_await)
qed

lemma along_job: "along R (handle (handleProviderJob env job) (failProviderJob env job))"
  unfolding handleProviderJob_def settings_at_def split_def by (intro along_rules along_perform disjI2 along_accept along_fail)

end

section \<open>Two relations a handler keeps\<close>

definition handler_ok :: "string \<Rightarrow> handler_env \<Rightarrow> bool" where
  "handler_ok p env \<longleftrightarrow> (\<forall>n. writes_beside p (pe_tx (he_provider env n))) \<and> (\<forall>n w. (provider_step p)\<^sup>*\<^sup>* w (he_await env n w))"

text \<open>The world moves by steps of \<open>provider_step\<close>. Surroundings that are not \<open>handler_ok\<close> are no surroundings of a handler.\<close>

definition by_steps :: "string \<Rightarrow> handler_env \<Rightarrow> handler_world \<Rightarrow> handler_world \<Rightarrow> bool" where
  "by_steps p env hw hw' \<longleftrightarrow> (handler_ok p env \<longrightarrow> (provider_step p)\<^sup>*\<^sup>* (snd hw) (snd hw'))"

interpretation stepwise: handler_closed "by_steps p env" "\<lambda>_. True" env for p env
proof unfold_locales
  fix hw hw1 hw2 :: handler_world
  show "by_steps p env hw hw1 \<Longrightarrow> by_steps p env hw1 hw2 \<Longrightarrow> by_steps p env hw hw2"
    by (auto simp: by_steps_def)
next
  fix calls and w :: provider_world and n i job r now role st localId
  have tx: "handler_ok p env \<Longrightarrow> writes_beside p (pe_tx (he_provider env n))" by (simp add: handler_ok_def)
  show "by_steps p env (calls, w) (calls, he_await env n w)" by (simp add: by_steps_def handler_ok_def)
  show "by_steps p env (calls, w) (calls, snd (request (he_provider env n) i w))"
    "by_steps p env (calls, w) (calls, snd (provider_own (he_provider env n) job w))"
    "by_steps p env (calls, w) (calls, snd (remote_update (pe_tx (he_provider env n)) (track_record now i role st) w))"
    "by_steps p env (calls, w) (calls, snd (remote_update (pe_tx (he_provider env n)) (adopt_record i localId) w))"
    using tx by (auto simp: by_steps_def intro: provider_step.intros)
  show "by_steps p env (calls, w) (calls, snd (start_preparation job r w))"
    by (auto simp: by_steps_def intro: provider_step.Prepare)
qed (simp_all add: by_steps_def)

text \<open>The log of calls grows, and nothing is accepted.\<close>

definition accepts_nothing :: "handler_world \<Rightarrow> handler_world \<Rightarrow> bool" where
  "accepts_nothing hw hw' \<longleftrightarrow> (\<exists>new. fst hw' = fst hw @ new \<and> list_all (\<lambda>c. \<not> accepting c) new)"

interpretation declining: handler_relation accepts_nothing "\<lambda>c. \<not> accepting c" env for env
proof unfold_locales
  fix hw hw1 hw2 :: handler_world
  assume "accepts_nothing hw hw1" "accepts_nothing hw1 hw2"
  then obtain a b where "fst hw1 = fst hw @ a" "fst hw2 = fst hw1 @ b" "list_all (\<lambda>c. \<not> accepting c) (a @ b)"
    by (auto simp: accepts_nothing_def)
  then show "accepts_nothing hw hw2" unfolding accepts_nothing_def by (intro exI [of _ "a @ b"]) simp
qed (auto simp: accepts_nothing_def)

lemma handle_jobs_steps:
  assumes "list_all (\<lambda>(env, _). handler_ok p env) jobs"
  shows "(provider_step p)\<^sup>*\<^sup>* (snd hw) (snd (snd (handle_jobs jobs hw)))"
  using assms
proof (induction jobs arbitrary: hw)
  case (Cons j jobs)
  obtain env job where j: "j = (env, job)" by (cases j)
  obtain r hw1 where m: "handle (handleProviderJob env job) (failProviderJob env job) hw = (r, hw1)" by (cases "handle (handleProviderJob env job) (failProviderJob env job) hw")
  have "(provider_step p)\<^sup>*\<^sup>* (snd hw) (snd hw1)"
    using stepwise.along_job [of p env job, unfolded along_def, THEN spec, of hw] Cons.prems by (simp add: by_steps_def j m)
  then show ?case
    using rtranclp_trans [OF _ Cons.IH [of hw1]] Cons.prems by (cases r) (simp_all add: j andThen_def m)
qed (simp add: ret_def)

lemma accept_job_calls:
  assumes "accept_job env job (calls, w) = (r, (calls @ new, w'))" and "list_ex accepting new" and "w1 = he_await env 0 w"
  shows "he_gate env = Inr () \<and> admit_job (effectiveComputeProviderSettings (he_compute env) (remote_of w1)) (remote_of w1) job = None"
proof (rule ccontr)
  assume no: "\<not> ?thesis"
  let ?s = "effectiveComputeProviderSettings (he_compute env) (remote_of w1)"
  have "accepts_nothing (calls, w) (calls @ new, w')"
  proof (cases "he_gate env")
    case (Inl e)
    then show ?thesis using assms(1) by (auto simp: accept_job_def await_def andThen_def within_def writes_def of_result_def accepts_nothing_def)
  next
    case (Inr u)
    then obtain code where code: "admit_job ?s (remote_of w1) job = Some code" using no by auto
    have "accept_job env job (calls, w) = transitionJob env 1 job ''DECLINED'' code (calls, w1)"
      using Inr code by (simp add: accept_job_def await_def andThen_def within_def writes_def of_result_def settings_at_def reads_def assms(3))
    moreover have "accepts_nothing (calls, w1) (snd (transitionJob env 1 job ''DECLINED'' code (calls, w1)))"
      using declining.along_transition [of job "''DECLINED''" code env 1] by (simp add: along_def accepting_def)
    ultimately have "accepts_nothing (calls, w1) (snd (r, (calls @ new, w')))" using assms(1) by metis
    then show ?thesis by (simp add: accepts_nothing_def)
  qed
  then show False using assms(2) by (auto simp: accepts_nothing_def list_all_iff list_ex_iff)
qed

lemma handler_calls:
  assumes "handleProviderJob env job (calls, w) = (r, (calls @ new, w'))" and "list_ex accepting new"
  shows "dispatch_job (effectiveComputeProviderSettings (he_compute env) (remote_of w)) (remote_of w) job = AskGate \<and>
    accept_job env job (calls, w) = (r, (calls @ new, w'))"
proof -
  let ?d = "dispatch_job (effectiveComputeProviderSettings (he_compute env) (remote_of w)) (remote_of w) job"
  have run: "perform env job ?d (calls, w) = (r, (calls @ new, w'))"
    using assms(1) by (simp add: handleProviderJob_def andThen_def settings_at_def within_def reads_def)
  have "?d = AskGate"
  proof (rule ccontr)
    assume "?d \<noteq> AskGate"
    then have "accepts_nothing (calls, w) (calls @ new, w')"
      using declining.along_perform [of ?d env job] run by (simp add: along_def) (metis snd_conv)
    then show False using assms(2) by (auto simp: accepts_nothing_def list_all_iff list_ex_iff)
  qed
  then show ?thesis using run by (simp add: perform_def)
qed

section \<open>Properties\<close>

text \<open>
  Handling the jobs of an answer of the backend, with every failure of it, is made of the steps that
  \<open>Provider_Cleanup\<close> interleaves: for whatever other tasks do during its waits, it takes the world from a state to one that
  is reachable by those steps. What holds of all interleavings there holds while jobs are handled.
\<close>
theorem handling_refines_steps:
  assumes "list_all (\<lambda>(env, _). handler_ok p env) jobs" and "handle_jobs jobs (calls, w) = (r, (calls', w'))"
  shows "(provider_step p)\<^sup>*\<^sup>* w w' \<and> (provider_inv p w \<longrightarrow> provider_inv p w' \<and> (completed i w \<longrightarrow> completed i w' \<and> no_files i w'))"
proof -
  have steps: "(provider_step p)\<^sup>*\<^sup>* w w'" using handle_jobs_steps [OF assms(1), of "(calls, w)"] assms(2) by simp
  moreover have "no_files i w'" if "provider_inv p w'" "completed i w'"
    using provider_inv_item [OF that(1), of i] that(2) by (simp add: item_ok_def)
  ultimately show ?thesis using provider_steps_inv [OF steps] by (auto simp: step_ok_def)
qed

definition demo_handler :: handler_env where
  "demo_handler = \<lparr>he_compute = pf_compute demo_poll_config, he_provider = (\<lambda>_. demo_provider), he_await = (\<lambda>_ w. w), he_api = (\<lambda>_. Inr ()),
     he_released = (\<lambda>_. Inr ()), he_gate = Inr (), he_prepared = Inr (), he_sign = Inr []\<rparr>"

lemma demo_handler_ok: "handler_ok ''state.json'' demo_handler"
  by (simp add: handler_ok_def demo_handler_def demo_provider_def)

theorem handling_refines_steps_witness:
  "(provider_step ''state.json'')\<^sup>*\<^sup>* demo_cleaned (snd (snd (handle_jobs [(demo_handler, demo_remote)] ([], demo_cleaned))))"
  using handling_refines_steps [of "''state.json''" "[(demo_handler, demo_remote)]" "[]" demo_cleaned] demo_handler_ok
  by (cases "handle_jobs [(demo_handler, demo_remote)] ([], demo_cleaned)") fastforce

text \<open>
  C14. A provider accepts a job only when the backend offered it, remote compute is on and not paused (or the
  job is one it already works on), no earlier job's readable input is stuck on its disk, the participation gate lets it,
  and, as things stand after the gate, the input is not larger than the operator allows and fewer jobs
  are active than concurrency and queue admit.
\<close>
theorem accepts_only_with_capacity:
  assumes "handleProviderJob env job (calls, w) = (r, (calls @ new, w'))" and "list_ex accepting new"
    and "settings = effectiveComputeProviderSettings (he_compute env) (remote_of w)"
    and "w1 = he_await env 0 w" and "settings1 = effectiveComputeProviderSettings (he_compute env) (remote_of w1)"
  shows "jo_state job = ''MATCHED'' \<and> dg_plaintextBlocked (cleanupDiagnostics (remote_of w)) = 0 \<and> he_gate env = Inr () \<and>
    (cs_enabled settings \<and> \<not> cs_paused settings \<or> local_id (jm_get (rs_remoteJobs (remote_of w)) (jo_id job)) \<noteq> []) \<and>
    jo_inputBytes job \<le> cs_maxAcceptedInputBytes settings1 \<and>
    int (active_jobs (remote_of w1)) < cs_maxConcurrency settings1 + cs_maxQueueDepth settings1"
proof -
  note calls = handler_calls [OF assms(1, 2)]
  note admitted = accept_job_calls [OF calls [THEN conjunct2] assms(2, 4)]
  show ?thesis
    using calls admitted by (auto simp: assms(3, 5) dispatch_job_def admit_job_def Let_def split: if_splits)
qed

theorem accepts_only_with_capacity_witness:
  "int (active_jobs (remote_of (demo_taken\<lparr>pv_store := saved_store empty_remote\<rparr>))) < 3"
proof -
  let ?job = "demo_remote\<lparr>jo_state := ''MATCHED''\<rparr>" and ?w = "demo_taken\<lparr>pv_store := saved_store empty_remote\<rparr>"
    and ?env = "demo_handler\<lparr>he_api := (\<lambda>_. Inl (PlainError []))\<rparr>"
  have "handleProviderJob ?env ?job ([], ?w) = (Inl (PlainError []), ([] @ [Transition demo_job ''ACCEPTED'' []], ?w))"
    by (simp add: handleProviderJob_def andThen_def settings_at_def within_def reads_def dispatch_job_def demo_remote_def ended_states_def empty_remote_def
        effectiveComputeProviderSettings_def demo_handler_def demo_poll_config_def cleanupDiagnostics_def provider_records_def perform_def
        accept_job_def await_def writes_def of_result_def admit_job_def active_jobs_def transitionJob_def)
  from accepts_only_with_capacity [OF this _ refl refl refl] show ?thesis
    by (simp add: accepting_def effectiveComputeProviderSettings_def demo_handler_def demo_poll_config_def empty_remote_def)
qed

text \<open>A job that was cancelled and whose input is gone still counts as active: with one place, the next job is declined.\<close>

lemma finished_jobs_hold_capacity:
  "completed demo_job demo_cleaned"
  "admit_job \<lparr>cs_enabled = True, cs_paused = False, cs_maxConcurrency = 1, cs_maxQueueDepth = 0, cs_maxAcceptedInputBytes = 2 ^ 30,
     cs_minimumFreeVramBytes = 0\<rparr> (remote_of demo_cleaned) (demo_remote\<lparr>jo_id := ''next''\<rparr>) = Some ''provider_capacity_full''"
  by code_simp+

end
