(* ===== verification/Compute_Requester.thy ===== *)
theory Compute_Requester
  imports Pin_Holding Compute_Jobs
begin

text \<open>
  The requester's side of remote compute: the upload of a sealed capture by \<open>encryptCapture\<close> of
  \<^verbatim>\<open>src/src/compute/privatePayloadTransport.ts\<close>, and of \<^verbatim>\<open>compute/remoteComputeRuntime.ts\<close> the submission of a job, the
  retrieval of its output, its acknowledgement and its cancellation. An operation composes the payload of
  \<open>Private_Payload\<close>, the pins of \<open>Managed_Pins\<close> and the records of \<open>Provider_Cleanup\<close>, beside a log of its calls to the
  backend with the authorization each carries.

  At the n-th wait of an operation others run: \<open>qe_others n\<close> is a sequence of operations on pins, \<open>qe_changes n\<close> a transaction
  on the rest of the state. The answers of the backend, the gate, Kubo and the signing identity come from \<open>requester_env\<close>.

  \<open>submitted_input_held\<close>: the backend hears of an input only when the node holds its pin, and holds it whatever becomes of the
  submission. \<open>input_held_until_ended\<close>: the pin is given up only when the backend says that the job is over.
  \<open>retrieved_output_declared\<close>: an output that is recorded is declared in full by its job and pinned.
\<close>

section \<open>Data\<close>

record requester_config =
  qc_cid_v1 :: "string \<Rightarrow> string option"
  qc_sha :: "string \<Rightarrow> string"
  qc_allowUnpin :: bool
  qc_crypto :: payload_crypto
  qc_before :: "string \<Rightarrow> string \<Rightarrow> bool"
  qc_maxInputBytes :: nat

record encrypted_input =
  ei_inputCid :: string
  ei_inputBytes :: nat
  ei_inputHash :: string
  ei_inputKeyEnvelope :: json
  ei_sourceBytes :: nat
  ei_fileCount :: nat

datatype backend_call =
    GetComputeCandidates json
  | CreateRemoteComputeJob string "string option" string json encrypted_input
  | GetRemoteComputeJob string
  | AcknowledgeRemoteComputeJob string bool json string
  | CancelRemoteComputeJob string

record requester_world =
  qw_pins :: pin_world
  qw_remote :: "remote_state store"
  qw_calls :: "(string \<times> backend_call) list"

record requester_env =
  qe_others :: "nat \<Rightarrow> pins_event list"
  qe_changes :: "nat \<Rightarrow> tx_env \<times> (remote_state \<Rightarrow> remote_state)"
  qe_tx :: "nat \<Rightarrow> tx_env"
  qe_kubo :: "nat \<Rightarrow> kubo_env"
  qe_now :: int
  qe_iso :: string
  qe_gate :: "unit result"
  qe_capture :: "(json \<times> dir_entry) result"
  qe_random :: payload_random
  qe_added :: "string option result"
  qe_uuid :: string
  qe_answer :: "remote_job result"
  qe_updated :: "remote_job result"
  qe_candidates :: "json result"
  qe_cat :: "bytes result"
  qe_head :: "nat \<Rightarrow> unit result"
  qe_sign :: "json \<Rightarrow> string result"

record job_request =
  jq_authorization :: string
  jq_captureId :: string
  jq_provider :: "(string \<times> string) option"
  jq_requirements :: json
  jq_type :: "string option"

abbreviation requester_remote :: "requester_world \<Rightarrow> remote_state" where
  "requester_remote w \<equiv> store_snapshot empty_remote (qw_remote w)"

abbreviation put_requester :: "remote_state store \<Rightarrow> requester_world \<Rightarrow> requester_world" where
  "put_requester st w \<equiv> w\<lparr>qw_remote := st\<rparr>"

section \<open>Waits and calls\<close>

definition meanwhile :: "requester_config \<Rightarrow> requester_env \<Rightarrow> nat \<Rightarrow> requester_world \<Rightarrow> requester_world" where
  "meanwhile c env n w =
     w\<lparr>qw_pins := fold (pins_step (qc_cid_v1 c) (qc_sha c)) (qe_others env n) (qw_pins w),
       qw_remote := snd (store_update empty_remote (fst (qe_changes env n)) (\<lambda>s. Inr (snd (qe_changes env n) s)) (qw_remote w))\<rparr>"

definition waits :: "requester_config \<Rightarrow> requester_env \<Rightarrow> nat \<Rightarrow> 'a result \<Rightarrow> ('a, requester_world) comp" where
  "waits c env n r = andThen (writes (meanwhile c env n)) (\<lambda>_. of_result r)"

definition backend :: "requester_config \<Rightarrow> requester_env \<Rightarrow> nat \<Rightarrow> string \<Rightarrow> backend_call \<Rightarrow> 'a result \<Rightarrow> ('a, requester_world) comp" where
  "backend c env n authorization call r =
     andThen (writes (\<lambda>w. w\<lparr>qw_calls := qw_calls w @ [(authorization, call)]\<rparr>)) (\<lambda>_. waits c env n r)"

definition remote_write :: "requester_config \<Rightarrow> requester_env \<Rightarrow> nat \<Rightarrow> (remote_state \<Rightarrow> remote_state result) \<Rightarrow> (unit, requester_world) comp" where
  "remote_write c env n m =
     andThen (writes (meanwhile c env n)) (\<lambda>_. transact qw_remote put_requester empty_remote (qe_tx env n) m)"

definition on_pins :: "('a, pin_world) comp \<Rightarrow> ('a, requester_world) comp" where
  "on_pins m w = (case m (qw_pins w) of (r, v) \<Rightarrow> (r, w\<lparr>qw_pins := v\<rparr>))"

definition acquire_pin :: "requester_config \<Rightarrow> requester_env \<Rightarrow> nat \<Rightarrow> kubo_env \<Rightarrow> string \<Rightarrow> string \<Rightarrow> (string, requester_world) comp" where
  "acquire_pin c env n kubo cid owner =
     andThen (writes (meanwhile c env n)) (\<lambda>_. on_pins (acquire (qc_cid_v1 c) kubo cid owner (default_pin kubo)))"

definition requireUserAuthorization :: "string \<Rightarrow> unit result" where
  "requireUserAuthorization v =
     (if \<not> starts_with v ''Bearer '' \<or> length v < 20 then Inl (localError 400 ''backend_authorization_required'') else Inr ())"

section \<open>Submission\<close>

definition prepared_record :: "string \<Rightarrow> string \<Rightarrow> remote_state \<Rightarrow> remote_state result" where
  "prepared_record cid owner s =
     Inr (s\<lparr>rs_privateCids := jm_set cid \<lparr>pi_jobId = None, pi_pinOwner = Some owner, pi_submission = ''prepared'', pi_reconcile = False,
       pi_releasedAt = None\<rparr> (rs_privateCids s)\<rparr>)"

definition change_private :: "string \<Rightarrow> (private_cid \<Rightarrow> private_cid) \<Rightarrow> remote_state \<Rightarrow> remote_state" where
  "change_private cid f s =
     (case jm_get (rs_privateCids s) cid of None \<Rightarrow> s | Some r \<Rightarrow> s\<lparr>rs_privateCids := jm_set cid (f r) (rs_privateCids s)\<rparr>)"

definition input_owner :: "requester_env \<Rightarrow> string" where
  "input_owner env = ''requester-input:'' @ qe_uuid env"

text \<open>The journal names the owner of the pin before the pin is acquired.\<close>

definition encryptCapture :: "requester_config \<Rightarrow> requester_env \<Rightarrow> string \<Rightarrow> string \<Rightarrow> string \<Rightarrow> (encrypted_input, requester_world) comp" where
  "encryptCapture c env captureId providerNodeId providerPublicKey =
     andThen (of_result (providerKey (qc_crypto c) providerPublicKey)) (\<lambda>key.
     andThen (of_result (qe_capture env)) (\<lambda>(capture, root).
     andThen (waits c env 0 (walkFiles (qc_before c) root)) (\<lambda>files.
     andThen (of_result (encrypt_payload (qc_crypto c) (qc_maxInputBytes c) (qe_random env) capture files)) (\<lambda>encrypted.
     andThen (on_pins (kubo_log (AddBytes (captureId @ ''.kubusenc'')))) (\<lambda>_.
     andThen (waits c env 1 (qe_added env)) (\<lambda>added.
       if opt_str added = [] then throw (localError 502 ''encrypted_input_cid_missing'')
       else
         andThen (remote_write c env 2 (prepared_record (the added) (input_owner env))) (\<lambda>_.
         andThen (acquire_pin c env 3 (qe_kubo env 0) (the added) (input_owner env)) (\<lambda>_.
           ret \<lparr>ei_inputCid = the added, ei_inputBytes = length encrypted, ei_inputHash = cy_sha (qc_crypto c) encrypted,
             ei_inputKeyEnvelope = key_envelope (qc_crypto c) (qe_random env) key providerNodeId (the added),
             ei_sourceBytes = total_bytes files, ei_fileCount = length files\<rparr>))))))))"

definition submitted_record :: "int \<Rightarrow> remote_job \<Rightarrow> string \<Rightarrow> remote_state \<Rightarrow> remote_state result" where
  "submitted_record now job cid s =
     Inr (change_private cid (\<lambda>r. r\<lparr>pi_jobId := Some (jo_id job), pi_submission := ''submitted'', pi_reconcile := False\<rparr>)
       (s\<lparr>rs_remoteJobs := jm_set (jo_id job) \<lparr>rr_backendJobId = jo_id job, rr_localJobId = None, rr_captureId = None, rr_role = Requester,
          rr_state = jo_state job, rr_updatedAt = now, rr_cleanup = None\<rparr> (rs_remoteJobs s)\<rparr>))"

definition unconfirmed_record :: "string \<Rightarrow> remote_state \<Rightarrow> remote_state result" where
  "unconfirmed_record cid s = Inr (change_private cid (\<lambda>r. r\<lparr>pi_submission := ''unconfirmed'', pi_reconcile := True\<rparr>) s)"

definition submit_input :: "requester_config \<Rightarrow> requester_env \<Rightarrow> job_request \<Rightarrow> string \<Rightarrow> encrypted_input \<Rightarrow> (remote_job, requester_world) comp" where
  "submit_input c env rq nodeId encrypted =
     handle
       (andThen (reads (\<lambda>w. rs_nodeId (requester_remote w))) (\<lambda>own.
        andThen (backend c env 5 (jq_authorization rq)
           (CreateRemoteComputeJob nodeId own (str_or (opt_str (jq_type rq)) ''spatial.reconstruct'') (jq_requirements rq) encrypted) (qe_answer env)) (\<lambda>job.
        andThen (remote_write c env 6 (submitted_record (qe_now env) job (ei_inputCid encrypted))) (\<lambda>_. ret job))))
       (\<lambda>e. andThen (handle (remote_write c env 7 (unconfirmed_record (ei_inputCid encrypted))) (\<lambda>_. ret ())) (\<lambda>_. throw e))"

definition requestJob :: "requester_config \<Rightarrow> requester_env \<Rightarrow> job_request \<Rightarrow> (remote_job, requester_world) comp" where
  "requestJob c env rq =
     andThen (of_result (requireUserAuthorization (jq_authorization rq))) (\<lambda>_.
     andThen (waits c env 4 (qe_gate env)) (\<lambda>_.
       case jq_provider rq of
         None \<Rightarrow> throw (localError 400 ''compute_provider_invalid'')
       | Some (nodeId, key) \<Rightarrow>
           if nodeId = [] \<or> key = [] then throw (localError 400 ''compute_provider_invalid'')
           else andThen (encryptCapture c env (jq_captureId rq) nodeId key) (submit_input c env rq nodeId)))"

definition candidates :: "requester_config \<Rightarrow> requester_env \<Rightarrow> string \<Rightarrow> json \<Rightarrow> (json, requester_world) comp" where
  "candidates c env authorization options =
     andThen (of_result (requireUserAuthorization authorization)) (\<lambda>_.
       backend c env 5 authorization (GetComputeCandidates options) (qe_candidates env))"

section \<open>Retrieval\<close>

definition getRequesterJob :: "requester_config \<Rightarrow> requester_env \<Rightarrow> string \<Rightarrow> string \<Rightarrow> (remote_job, requester_world) comp" where
  "getRequesterJob c env jobId authorization =
     andThen (of_result (requireUserAuthorization authorization)) (\<lambda>_.
     andThen (backend c env 5 authorization (GetRemoteComputeJob jobId) (qe_answer env)) (\<lambda>job.
     andThen (remote_write c env 6 (track_record (qe_now env) (jo_id job) Requester (jo_state job))) (\<lambda>_. ret job)))"

text \<open>\<^verbatim>\<open>validateSpatialManifest\<close> on a manifest from elsewhere.\<close>

definition safe_number :: "json option \<Rightarrow> bool" where
  "safe_number v = (case as_integer v of None \<Rightarrow> False | Some n \<Rightarrow> \<bar>n\<bar> \<le> 9007199254740991)"

definition variant_ok :: "json \<Rightarrow> bool" where
  "variant_ok v \<longleftrightarrow> \<not> json_falsy (json_field (Some v) ''cid'') \<and> safe_number (json_field (Some v) ''sizeBytes'') \<and>
     0 \<le> the (as_integer (json_field (Some v) ''sizeBytes'')) \<and> \<not> json_falsy (json_field (Some v) ''mimeType'') \<and>
     \<not> json_falsy (json_field (Some v) ''format'')"

definition manifest_variants :: "json \<Rightarrow> json list" where
  "manifest_variants m = (case json_field (Some m) ''variants'' of Some (JArr vs) \<Rightarrow> vs | _ \<Rightarrow> [])"

definition check_manifest :: "json \<Rightarrow> json result" where
  "check_manifest m =
     (let processing = json_field (Some m) ''processing''; reconstruction = json_field processing ''reconstruction'' in
      if (case m of JObj _ \<Rightarrow> False | JArr _ \<Rightarrow> False | _ \<Rightarrow> True) then Inl (PlainError ''spatial_manifest_invalid'')
      else if json_field (Some m) ''schema'' \<noteq> Some (JStr ''kubus.spatial/1'') then Inl (PlainError ''spatial_manifest_schema_unsupported'')
      else if str_field (json_field (Some m) ''type'') \<notin> set [''gaussianSplat'', ''model3d''] then Inl (PlainError ''spatial_manifest_type_invalid'')
      else if list_ex (\<lambda>k. json_falsy (json_field (Some m) k)) [''id'', ''artworkId'', ''captureId'', ''capturedAt'']
      then Inl (PlainError ''spatial_manifest_required_field_missing'')
      else if json_field processing ''protocol'' \<noteq> Some (JStr ''kubus.spatial-job/1'') \<or> json_falsy (json_field processing ''workerVersion'')
      then Inl (PlainError ''spatial_manifest_processing_invalid'')
      else if json_field reconstruction ''engine'' \<noteq> Some (JStr ''nerfstudio'') \<or> json_field reconstruction ''method'' \<noteq> Some (JStr ''splatfacto'') \<or>
              \<not> safe_number (json_field reconstruction ''iterations'') \<or> the (as_integer (json_field reconstruction ''iterations'')) \<le> 0 \<or>
              json_falsy (json_field reconstruction ''outputFormat'')
      then Inl (PlainError ''spatial_manifest_reconstruction_invalid'')
      else if manifest_variants m = [] then Inl (PlainError ''spatial_manifest_variants_required'')
      else if \<not> list_all variant_ok (manifest_variants m) then Inl (PlainError ''spatial_manifest_variant_invalid'')
      else Inr m)"

definition read_manifest :: "bytes \<Rightarrow> json result" where
  "read_manifest bs = (case res_bind (parse_json bs) check_manifest of
     Inl _ \<Rightarrow> Inl (localError 422 ''remote_compute_manifest_invalid'') | Inr m \<Rightarrow> Inr m)"

definition declared :: "remote_job \<Rightarrow> json option \<Rightarrow> bool" where
  "declared job v = (case v of Some (JStr cid) \<Rightarrow> cid \<in> set (jo_outputCids job) | _ \<Rightarrow> False)"

definition ready_states :: "string list" where
  "ready_states = [''OUTPUT_READY'', ''VERIFYING'', ''VERIFIED'', ''COMPLETED'']"

definition output_owner :: "remote_job \<Rightarrow> string" where
  "output_owner job = ''spatial:remote-'' @ jo_id job"

definition pin_output :: "requester_config \<Rightarrow> requester_env \<Rightarrow> remote_job \<Rightarrow> nat \<times> string \<Rightarrow> (unit, requester_world) comp" where
  "pin_output c env job = (\<lambda>(i, cid).
     andThen (waits c env (20 + 2 * i) (qe_head env i)) (\<lambda>_.
     andThen (acquire_pin c env (21 + 2 * i) (qe_kubo env i) cid (output_owner job)) (\<lambda>_. ret ())))"

definition output_record :: "remote_job \<Rightarrow> json \<Rightarrow> spatial_record" where
  "output_record job m =
     \<lparr>sp_manifestCid = opt_str (jo_outputManifestCid job),
      sp_variants = map (\<lambda>v. (str_field (json_field (Some v) ''role''), str_field (json_field (Some v) ''cid''),
        nat (the (as_integer (json_field (Some v) ''sizeBytes''))))) (manifest_variants m),
      sp_artworkId = str_field (json_field (Some m) ''artworkId''), sp_captureId = str_field (json_field (Some m) ''captureId''),
      sp_pinOwner = output_owner job\<rparr>"

definition record_output :: "requester_config \<Rightarrow> requester_env \<Rightarrow> remote_job \<Rightarrow> json \<Rightarrow> (spatial_record, requester_world) comp" where
  "record_output c env job m =
     andThen (for_each (pin_output c env job) (enumerate 0 (jo_outputCids job))) (\<lambda>_.
     andThen (remote_write c env 9 (\<lambda>s. Inr (s\<lparr>rs_spatial := jm_set (str_field (json_field (Some m) ''id'')) (output_record job m) (rs_spatial s)\<rparr>))) (\<lambda>_.
       ret (output_record job m)))"

definition take_output :: "requester_config \<Rightarrow> requester_env \<Rightarrow> remote_job \<Rightarrow> (spatial_record, requester_world) comp" where
  "take_output c env job =
     (if jo_state job \<notin> set ready_states \<or> opt_str (jo_outputManifestCid job) = [] then throw (localError 409 ''remote_compute_output_not_ready'')
      else
        andThen (waits c env 8 (qe_cat env)) (\<lambda>bs.
        andThen (of_result (read_manifest bs)) (\<lambda>m.
          if opt_str (jo_outputManifestCid job) \<notin> set (jo_outputCids job) \<or>
             \<not> list_all (\<lambda>v. declared job (json_field (Some v) ''cid'')) (manifest_variants m)
          then throw (localError 422 ''remote_compute_output_cid_mismatch'')
          else record_output c env job m)))"

definition retrieveRequesterOutput :: "requester_config \<Rightarrow> requester_env \<Rightarrow> string \<Rightarrow> string \<Rightarrow> (spatial_record, requester_world) comp" where
  "retrieveRequesterOutput c env jobId authorization =
     andThen (waits c env 4 (qe_gate env)) (\<lambda>_. andThen (getRequesterJob c env jobId authorization) (take_output c env))"

section \<open>The end of a job\<close>

definition requester_ended :: "string list" where
  "requester_ended = [''COMPLETED'', ''DISPUTED'', ''FAILED'', ''CANCELLED'', ''EXPIRED'', ''DECLINED'']"

definition releaseRequesterInput :: "requester_config \<Rightarrow> requester_env \<Rightarrow> remote_job \<Rightarrow> (unit, requester_world) comp" where
  "releaseRequesterInput c env job =
     (if jo_state job \<notin> set requester_ended then throw (localError 409 ''remote_compute_not_terminal'')
      else andThen (reads (\<lambda>w. case jm_get (rs_privateCids (requester_remote w)) (jo_inputCid job) of None \<Rightarrow> [] | Some r \<Rightarrow> opt_str (pi_pinOwner r))) (\<lambda>owner.
        if owner = [] then ret ()
        else andThen (writes (meanwhile c env 10)) (\<lambda>_.
             andThen (on_pins (Managed_Pins.release (qc_cid_v1 c) (qc_allowUnpin c) (qe_kubo env 0) (jo_inputCid job) owner)) (\<lambda>_.
               remote_write c env 11 (\<lambda>s. Inr (change_private (jo_inputCid job) (\<lambda>r. r\<lparr>pi_releasedAt := Some (qe_now env)\<rparr>) s))))))"

definition acknowledgement :: "requester_env \<Rightarrow> remote_job \<Rightarrow> bool \<Rightarrow> string option \<Rightarrow> json" where
  "acknowledgement env job accepted reason =
     JObj [(''jobId'', JStr (jo_id job)), (''inputHash'', JStr (jo_inputHash job)), (''jobSpecHash'', JStr (jo_jobSpecHash job)),
       (''outputCids'', JArr (map JStr (jo_outputCids job))), (''accepted'', JBool accepted),
       (''reason'', if opt_str reason = [] then JNull else JStr (opt_str reason)), (''acknowledgedAt'', JStr (qe_iso env)),
       (''protocolVersion'', JStr (jo_protocolVersion job))]"

definition acknowledgeRequesterOutput ::
  "requester_config \<Rightarrow> requester_env \<Rightarrow> string \<Rightarrow> string \<Rightarrow> bool \<Rightarrow> string option \<Rightarrow> (remote_job, requester_world) comp" where
  "acknowledgeRequesterOutput c env jobId authorization accepted reason =
     andThen (of_result (requireUserAuthorization authorization)) (\<lambda>_.
     andThen (backend c env 5 authorization (GetRemoteComputeJob jobId) (qe_answer env)) (\<lambda>job.
     andThen (waits c env 12 (qe_sign env (acknowledgement env job accepted reason))) (\<lambda>signature.
     andThen (backend c env 13 authorization (AcknowledgeRemoteComputeJob jobId accepted (acknowledgement env job accepted reason) signature) (qe_updated env)) (\<lambda>updated.
     andThen (if jo_state updated \<in> set [''COMPLETED'', ''DISPUTED'', ''FAILED'', ''CANCELLED''] then releaseRequesterInput c env updated else ret ()) (\<lambda>_.
     andThen (remote_write c env 14 (track_record (qe_now env) (jo_id updated) Requester (jo_state updated))) (\<lambda>_. ret updated))))))"

definition cancelRequesterJob :: "requester_config \<Rightarrow> requester_env \<Rightarrow> string \<Rightarrow> string \<Rightarrow> (remote_job, requester_world) comp" where
  "cancelRequesterJob c env jobId authorization =
     andThen (of_result (requireUserAuthorization authorization)) (\<lambda>_.
     andThen (backend c env 13 authorization (CancelRemoteComputeJob jobId) (qe_updated env)) (\<lambda>job.
     andThen (releaseRequesterInput c env job) (\<lambda>_.
     andThen (remote_write c env 14 (track_record (qe_now env) (jo_id job) Requester (jo_state job))) (\<lambda>_. ret job))))"

text \<open>\<open>managedInputUnpinsPending\<close> of the diagnostics, the count that reads the pins.\<close>

definition managedInputUnpinsPending :: "pins_state \<Rightarrow> nat" where
  "managedInputUnpinsPending s = length (filter (\<lambda>r. mp_state r \<in> set [ReleasePending, Releasing, ReleaseUncertain] \<and>
     (starts_with (opt_str (mp_lastReleasedOwner r)) ''provider-input:'' \<or> starts_with (opt_str (mp_lastReleasedOwner r)) ''requester-input:''))
     (jm_values (ms_managedPins s)))"

section \<open>The periodic cleanup\<close>

text \<open>\<open>reconcilePending\<close>: each pending request, awaited and its failure ignored.\<close>

fun reconcilePending :: "handler_env \<Rightarrow> nat \<Rightarrow> string list \<Rightarrow> (unit, handler_world) comp" where
  "reconcilePending env n [] = ret ()"
| "reconcilePending env n (i # is) =
     andThen (handle (andThen (within (request (he_provider env n) i)) (\<lambda>_. await env n (he_released env n))) (\<lambda>_. ret ())) (\<lambda>_.
       reconcilePending env (Suc n) is)"

text \<open>The releases of both kinds of private input are retried first; their failures are ignored, too. The counts are read at the end.\<close>

definition reconcileProviderCleanup ::
  "requester_config \<Rightarrow> (string \<Rightarrow> kubo_env) \<Rightarrow> handler_env \<Rightarrow> (cleanup_diagnostics \<times> nat, pin_world \<times> handler_world) comp" where
  "reconcileProviderCleanup c kubo env = (\<lambda>(v, hw).
     let retry = (\<lambda>owner v. snd (reconcile (qc_cid_v1 c) (qc_allowUnpin c) kubo owner v));
         v2 = retry ''requester-input:'' (retry ''provider-input:'' v);
         (r, hw1) = andThen (within (reads (\<lambda>w. pending_requests (pe_now (he_provider env 0)) (pe_callback (he_provider env 0)) (remote_of w)))) (\<lambda>ids.
                    andThen (reconcilePending env 0 ids) (\<lambda>_.
                      within (reads (\<lambda>w. (cleanupDiagnostics (remote_of w), managedInputUnpinsPending (pins_of v2)))))) hw
     in (r, (v2, hw1)))"

lemma reconcilePending_steps: "along (by_steps p env) (reconcilePending env n is)"
proof (induction "is" arbitrary: n)
  case (Cons i js)
  show ?case unfolding reconcilePending.simps
    by (intro stepwise.along_then stepwise.along_handle stepwise.along_within stepwise.requests stepwise.along_await stepwise.along_pure Cons)
qed (simp add: stepwise.along_pure)

lemma reconcile_cleanup_steps:
  assumes "handler_ok p env" and "reconcileProviderCleanup c kubo env (v, (calls, w)) = (r, (v', (calls', w')))"
  shows "(provider_step p)\<^sup>*\<^sup>* w w'"
proof -
  let ?m = "\<lambda>v2. andThen (within (reads (\<lambda>w. pending_requests (pe_now (he_provider env 0)) (pe_callback (he_provider env 0)) (remote_of w)))) (\<lambda>ids.
      andThen (reconcilePending env 0 ids) (\<lambda>_. within (reads (\<lambda>w. (cleanupDiagnostics (remote_of w), managedInputUnpinsPending (pins_of v2))))))"
  have "along (by_steps p env) (?m v2)" for v2 by (intro stepwise.along_then stepwise.along_basic(1) reconcilePending_steps)
  moreover obtain v2 where "?m v2 (calls, w) = (r, (calls', w'))" using assms(2) by (auto simp: reconcileProviderCleanup_def Let_def split: prod.splits)
  ultimately have "by_steps p env (calls, w) (calls', w')" by (rule along_run)
  then show ?thesis using assms(1) by (simp add: by_steps_def)
qed

section \<open>Sequences of operations\<close>

datatype requester_event = Submit job_request | Candidates string json | Fetch string string | Retrieve string string
  | Acknowledge string string bool "string option" | Cancel string string

definition requester_step :: "requester_config \<Rightarrow> requester_env \<times> requester_event \<Rightarrow> requester_world \<Rightarrow> requester_world" where
  "requester_step c = (\<lambda>(env, ev) w.
     case ev of
       Submit rq \<Rightarrow> snd (requestJob c env rq w)
     | Candidates authorization options \<Rightarrow> snd (candidates c env authorization options w)
     | Fetch jobId authorization \<Rightarrow> snd (getRequesterJob c env jobId authorization w)
     | Retrieve jobId authorization \<Rightarrow> snd (retrieveRequesterOutput c env jobId authorization w)
     | Acknowledge jobId authorization accepted reason \<Rightarrow> snd (acknowledgeRequesterOutput c env jobId authorization accepted reason w)
     | Cancel jobId authorization \<Rightarrow> snd (cancelRequesterJob c env jobId authorization w))"

section \<open>What the operations keep\<close>

definition authorized :: "string \<Rightarrow> bool" where
  "authorized a \<longleftrightarrow> starts_with a ''Bearer '' \<and> 20 \<le> length a"

lemma requireUserAuthorization_Inr: "requireUserAuthorization a = Inr u \<longleftrightarrow> authorized a"
  by (auto simp: requireUserAuthorization_def authorized_def)

text \<open>A relation kept by everything that is not a call to the backend or a release.\<close>

locale requester_silent = step_relation R for R :: "requester_world \<Rightarrow> requester_world \<Rightarrow> bool" +
  fixes c :: requester_config and env :: requester_env
  assumes others: "R w (meanwhile c env n w)"
    and remote: "R w (w\<lparr>qw_remote := st\<rparr>)"
    and uploads: "R w (w\<lparr>qw_pins := snd (kubo_log (AddBytes name) (qw_pins w))\<rparr>)"
    and acquires: "R w (w\<lparr>qw_pins := snd (acquire (qc_cid_v1 c) (qe_kubo env i) cid owner (default_pin (qe_kubo env i)) (qw_pins w))\<rparr>)"
begin

lemma along_meanwhile: "along R (writes (meanwhile c env n))"
  by (simp add: along_def writes_def others)

lemma along_waits: "along R (waits c env n r)"
  unfolding waits_def by (intro along_then along_pure along_meanwhile)

lemma along_remote: "along R (remote_write c env n m)"
proof -
  have "along R (transact qw_remote put_requester empty_remote (qe_tx env n) m)"
    by (simp add: along_def transact_def remote split: prod.split)
  then show ?thesis unfolding remote_write_def by (intro along_then along_meanwhile)
qed

lemma along_on_pins: "(\<And>w. R w (w\<lparr>qw_pins := snd (m (qw_pins w))\<rparr>)) \<Longrightarrow> along R (on_pins m)"
  unfolding along_def on_pins_def by (auto split: prod.split) (metis snd_conv)

lemma along_acquire: "along R (acquire_pin c env n (qe_kubo env i) cid owner)"
  unfolding acquire_pin_def by (intro along_then along_meanwhile along_on_pins acquires)

lemmas along_silent = along_intros along_then along_handle along_pure along_waits along_remote along_acquire along_meanwhile along_on_pins [OF uploads]

lemma along_encrypt: "along R (encryptCapture c env captureId nodeId key)"
  unfolding encryptCapture_def split_def by (intro along_silent)

lemma along_pins: "along R (for_each (pin_output c env job) cids)"
  unfolding pin_output_def split_def by (intro along_for_each along_silent)

end

text \<open>A relation kept by authorized calls to the backend, too.\<close>

locale requester_calls = requester_silent +
  assumes logs: "authorized a \<Longrightarrow> R w (w\<lparr>qw_calls := qw_calls w @ [(a, call)]\<rparr>)"
begin

lemma along_authorized:
  assumes "\<And>u. authorized a \<Longrightarrow> along R (f u)"
  shows "along R (andThen (of_result (requireUserAuthorization a)) f)"
  by (rule along_then_result) (use assms requireUserAuthorization_Inr in \<open>auto simp: of_result_def intro: along_pure\<close>)

lemma along_backend: "authorized a \<Longrightarrow> along R (backend c env n a call r)"
  unfolding backend_def by (intro along_then along_waits) (simp add: along_def writes_def logs)

lemma along_submit_input: "authorized (jq_authorization rq) \<Longrightarrow> along R (submit_input c env rq nodeId encrypted)"
  unfolding submit_input_def by (intro along_silent along_backend)

lemma along_submit: "along R (requestJob c env rq)"
proof -
  have "along R (case jq_provider rq of None \<Rightarrow> throw e | Some (nodeId, key) \<Rightarrow> if nodeId = [] \<or> key = [] then throw e
      else andThen (encryptCapture c env (jq_captureId rq) nodeId key) (submit_input c env rq nodeId))" if "authorized (jq_authorization rq)" for e
    using along_submit_input [OF that] by (auto split: option.split intro: along_silent along_encrypt)
  then show ?thesis unfolding requestJob_def by (intro along_authorized along_then along_waits)
qed

lemma along_get: "along R (getRequesterJob c env jobId a)"
  unfolding getRequesterJob_def by (intro along_authorized along_backend along_silent)

lemma along_retrieve: "along R (retrieveRequesterOutput c env jobId a)"
  unfolding retrieveRequesterOutput_def take_output_def record_output_def by (intro along_silent along_get along_pins)

lemma along_candidates: "along R (candidates c env a options)"
  unfolding candidates_def by (intro along_authorized along_backend)

end

text \<open>And by the release of an ended job's input.\<close>

locale requester_relation = requester_calls +
  assumes releases: "qe_updated env = Inr job \<Longrightarrow> jo_state job \<in> set requester_ended \<Longrightarrow>
      R w (w\<lparr>qw_pins := snd (Managed_Pins.release (qc_cid_v1 c) (qc_allowUnpin c) (qe_kubo env 0) (jo_inputCid job) owner (qw_pins w))\<rparr>)"
begin

lemma along_answer:
  assumes "authorized a" and "\<And>x. r = Inr x \<Longrightarrow> along R (f x)"
  shows "along R (andThen (backend c env n a call r) f)"
  by (rule along_then_result [OF along_backend [OF assms(1)]])
     (use assms(2) in \<open>auto simp: backend_def waits_def comp_defs\<close>)

lemma along_release:
  assumes "qe_updated env = Inr job"
  shows "along R (releaseRequesterInput c env job)"
  unfolding releaseRequesterInput_def by (intro along_silent along_on_pins releases [OF assms]) simp

lemma along_finish:
  "along R (acknowledgeRequesterOutput c env jobId a accepted reason)" "along R (cancelRequesterJob c env jobId a)"
  unfolding acknowledgeRequesterOutput_def cancelRequesterJob_def
  by (intro along_authorized along_answer along_backend along_silent along_release; assumption)+

lemma requester_step_kept: "R w (requester_step c (env, ev) w)"
  using along_submit along_get along_retrieve along_finish along_candidates
  by (cases ev) (auto simp: requester_step_def along_def)

end

section \<open>Relations\<close>

text \<open>The surroundings of an operation: the others spare the owner, and no answer ends a job with this input.\<close>

definition others_spare :: "requester_config \<Rightarrow> string \<Rightarrow> string \<Rightarrow> string \<Rightarrow> requester_env \<Rightarrow> bool" where
  "others_spare c p cid owner env \<longleftrightarrow>
     (\<forall>n. list_all (spares (qc_cid_v1 c) p cid owner) (qe_others env n)) \<and> (\<forall>i. env_beside p (qe_kubo env i))"

definition not_ended :: "requester_config \<Rightarrow> string \<Rightarrow> requester_env \<Rightarrow> bool" where
  "not_ended c cid env \<longleftrightarrow>
     (case qe_updated env of
        Inl _ \<Rightarrow> True
      | Inr job \<Rightarrow> canonicalPinCid (qc_cid_v1 c) (jo_inputCid job) \<noteq> Inr cid \<or> jo_state job \<notin> set requester_ended)"

definition keeps_holding :: "string \<Rightarrow> string \<Rightarrow> string \<Rightarrow> requester_world \<Rightarrow> requester_world \<Rightarrow> bool" where
  "keeps_holding p cid owner w w' \<longleftrightarrow>
     (held p cid owner (qw_pins w) \<longrightarrow> held p cid owner (qw_pins w') \<and> never_unpinned cid (qw_pins w) (qw_pins w'))"

definition spared :: "bool \<Rightarrow> (requester_world \<Rightarrow> requester_world \<Rightarrow> bool) \<Rightarrow> requester_world \<Rightarrow> requester_world \<Rightarrow> bool" where
  "spared b R w w' \<longleftrightarrow> (b \<longrightarrow> R w w')"

interpretation holding: requester_calls "spared (others_spare c p cid owner env) (keeps_holding p cid owner)" c env for c p cid owner env
proof unfold_locales
  fix w n st name i raw owner'
  show "spared (others_spare c p cid owner env) (keeps_holding p cid owner) w (meanwhile c env n w)"
    using pins_steps_hold by (auto simp: spared_def keeps_holding_def meanwhile_def others_spare_def)
  show "spared (others_spare c p cid owner env) (keeps_holding p cid owner) w (w\<lparr>qw_pins := snd (kubo_log (AddBytes name) (qw_pins w))\<rparr>)"
    using held_uploads by (simp add: spared_def keeps_holding_def)
  show "spared (others_spare c p cid owner env) (keeps_holding p cid owner) w
      (w\<lparr>qw_pins := snd (acquire (qc_cid_v1 c) (qe_kubo env i) raw owner' (default_pin (qe_kubo env i)) (qw_pins w))\<rparr>)"
    using pins_step_holds [where ev = "EvAcquire (qe_kubo env i) raw owner'" and ?cid_v1.0 = "qc_cid_v1 c"]
    by (auto simp: spared_def keeps_holding_def others_spare_def spares_def)
qed (auto simp: spared_def keeps_holding_def intro: never_unpinned_trans)

interpretation held_until_ended: requester_relation
  "spared (others_spare c p cid owner env \<and> not_ended c cid env) (keeps_holding p cid owner)" c env for c p cid owner env
proof unfold_locales
  fix w n st name i raw owner' job
  let ?R = "spared (others_spare c p cid owner env \<and> not_ended c cid env) (keeps_holding p cid owner)"
  show "?R w (meanwhile c env n w)" using holding.others by (auto simp: spared_def)
  show "?R w (w\<lparr>qw_pins := snd (kubo_log (AddBytes name) (qw_pins w))\<rparr>)" using holding.uploads by (auto simp: spared_def)
  show "?R w (w\<lparr>qw_pins := snd (acquire (qc_cid_v1 c) (qe_kubo env i) raw owner' (default_pin (qe_kubo env i)) (qw_pins w))\<rparr>)"
    using holding.acquires by (auto simp: spared_def)
  show "?R w (w\<lparr>qw_pins := snd (Managed_Pins.release (qc_cid_v1 c) (qc_allowUnpin c) (qe_kubo env 0) (jo_inputCid job) owner' (qw_pins w))\<rparr>)"
    if "qe_updated env = Inr job" "jo_state job \<in> set requester_ended"
    using that pins_step_holds [where ev = "EvRelease (qe_kubo env 0) (qc_allowUnpin c) (jo_inputCid job) owner'" and ?cid_v1.0 = "qc_cid_v1 c"]
    by (auto simp: spared_def keeps_holding_def others_spare_def spares_def not_ended_def)
qed (auto simp: spared_def keeps_holding_def intro: never_unpinned_trans)

definition authorized_calls :: "requester_world \<Rightarrow> requester_world \<Rightarrow> bool" where
  "authorized_calls w w' \<longleftrightarrow> (\<exists>new. qw_calls w' = qw_calls w @ new \<and> list_all (\<lambda>(a, _). authorized a) new)"

interpretation authorization: requester_relation authorized_calls c env for c env
proof unfold_locales
  fix w w1 w2
  assume "authorized_calls w w1" "authorized_calls w1 w2"
  then obtain a b where "qw_calls w1 = qw_calls w @ a" "qw_calls w2 = qw_calls w1 @ b" "list_all (\<lambda>(a, _). authorized a) (a @ b)"
    by (auto simp: authorized_calls_def)
  then show "authorized_calls w w2" unfolding authorized_calls_def by (intro exI [of _ "a @ b"]) simp
qed (auto simp: authorized_calls_def meanwhile_def)

interpretation silence: requester_silent "\<lambda>w w'. qw_calls w' = qw_calls w" c env for c env
  by unfold_locales (simp_all add: meanwhile_def)

section \<open>A submission\<close>

text \<open>Surroundings in which every transaction is one of the node's state file.\<close>

definition sound_env :: "string \<Rightarrow> requester_env \<Rightarrow> bool" where
  "sound_env p env \<longleftrightarrow> (\<forall>n. list_all (event_beside p) (qe_others env n) \<and> writes_beside p (fst (qe_changes env n)) \<and> writes_beside p (qe_tx env n)) \<and>
     (\<forall>i. env_beside p (qe_kubo env i))"

definition sound_world :: "string \<Rightarrow> requester_world \<Rightarrow> bool" where
  "sound_world p w \<longleftrightarrow> pins_ok p (qw_pins w) \<and> synced p (qw_remote w)"

definition entry_is :: "string \<Rightarrow> private_cid option \<Rightarrow> requester_world \<Rightarrow> bool" where
  "entry_is d x w \<longleftrightarrow> jm_get (rs_privateCids (requester_remote w)) d = x"

definition keeps_entry :: "string \<Rightarrow> requester_env \<Rightarrow> bool" where
  "keeps_entry d env \<longleftrightarrow> (\<forall>n s. jm_get (rs_privateCids (snd (qe_changes env n) s)) d = jm_get (rs_privateCids s) d)"

interpretation requester_store: store_in_world qw_remote put_requester
  by unfold_locales simp

lemma wp_transact_remote:
  assumes "synced p (qw_remote w)" and "writes_beside p tx"
    and "\<And>s'. m (requester_remote w) = Inr s' \<Longrightarrow> jm_get (rs_privateCids s') d = y" and "entry_is d x w"
  shows "wp (transact qw_remote put_requester empty_remote tx m)
    (\<lambda>_ w'. qw_pins w' = qw_pins w \<and> qw_calls w' = qw_calls w \<and> synced p (qw_remote w') \<and> entry_is d y w')
    (\<lambda>_ w'. qw_pins w' = qw_pins w \<and> qw_calls w' = qw_calls w \<and> synced p (qw_remote w') \<and> entry_is d x w') w"
  by (rule requester_store.wp_transact [OF assms(1, 2)]) (use assms(3, 4) in \<open>auto simp: entry_is_def dest: sym\<close>)

lemma meanwhile_sound:
  assumes "sound_env p env" and "sound_world p w"
  shows "sound_world p (meanwhile c env n w)"
    and "keeps_entry d env \<Longrightarrow> entry_is d x w \<Longrightarrow> entry_is d x (meanwhile c env n w)"
proof -
  let ?m = "\<lambda>s. Inr (snd (qe_changes env n) s) :: remote_state result" and ?tx = "fst (qe_changes env n)"
  have eq: "snd (transact qw_remote put_requester empty_remote ?tx ?m w) = w\<lparr>qw_remote := snd (store_update empty_remote ?tx ?m (qw_remote w))\<rparr>"
    by (simp add: transact_def split: prod.split)
  have tx: "writes_beside p ?tx" "synced p (qw_remote w)" using assms by (simp_all add: sound_env_def sound_world_def)
  have "wp (transact qw_remote put_requester empty_remote ?tx ?m) (\<lambda>_ w'. synced p (qw_remote w')) (\<lambda>_ w'. synced p (qw_remote w')) w"
    by (rule requester_store.wp_transact_inv [OF tx(2, 1)]) auto
  then have "synced p (qw_remote (meanwhile c env n w))" using wp_snd eq by (fastforce simp: meanwhile_def)
  then show "sound_world p (meanwhile c env n w)"
    using assms pins_steps_ok by (simp add: sound_world_def meanwhile_def sound_env_def)
  show "entry_is d x (meanwhile c env n w)" if "keeps_entry d env" "entry_is d x w"
  proof -
    have "wp (transact qw_remote put_requester empty_remote ?tx ?m) (\<lambda>_. entry_is d x) (\<lambda>_. entry_is d x) w"
      by (rule requester_store.wp_transact_inv [OF tx(2, 1)]) (use that in \<open>auto simp: entry_is_def keeps_entry_def\<close>)
    then show ?thesis using wp_snd [of _ "entry_is d x" w] eq by (fastforce simp: meanwhile_def entry_is_def)
  qed
qed

lemma wp_waits: "wp (waits c env n r) Q E w = (case r of Inl e \<Rightarrow> E e (meanwhile c env n w) | Inr x \<Rightarrow> Q x (meanwhile c env n w))"
  by (simp add: waits_def wp_andThen wp_basic)

lemma wp_on_pins: "wp (on_pins m) Q E w = wp m (\<lambda>x v. Q x (w\<lparr>qw_pins := v\<rparr>)) (\<lambda>e v. E e (w\<lparr>qw_pins := v\<rparr>)) (qw_pins w)"
  by (simp add: wp_def on_pins_def split: prod.split sum.split)

lemma wp_remote_entry:
  assumes env: "sound_env p env" "keeps_entry d env" and w: "sound_world p w" "entry_is d x w"
    and "\<And>s s'. m s = Inr s' \<Longrightarrow> jm_get (rs_privateCids s) d = x \<Longrightarrow> jm_get (rs_privateCids s') d = y"
  shows "wp (remote_write c env n m) (\<lambda>_ w'. sound_world p w' \<and> entry_is d y w') (\<lambda>_ w'. sound_world p w' \<and> entry_is d x w') w"
proof -
  let ?w = "meanwhile c env n w"
  have s: "sound_world p ?w" "entry_is d x ?w" using meanwhile_sound [OF env(1) w(1)] env w by auto
  have "wp (transact qw_remote put_requester empty_remote (qe_tx env n) m)
    (\<lambda>_ w'. qw_pins w' = qw_pins ?w \<and> qw_calls w' = qw_calls ?w \<and> synced p (qw_remote w') \<and> entry_is d y w')
    (\<lambda>_ w'. qw_pins w' = qw_pins ?w \<and> qw_calls w' = qw_calls ?w \<and> synced p (qw_remote w') \<and> entry_is d x w') ?w"
    by (rule wp_transact_remote) (use s env(1) assms(5) in \<open>auto simp: sound_world_def sound_env_def entry_is_def\<close>)
  then show ?thesis unfolding remote_write_def wp_andThen wp_basic
    by (rule wp_mono) (use s in \<open>auto simp: sound_world_def\<close>)
qed

definition prepared :: "string \<Rightarrow> private_cid" where
  "prepared owner = \<lparr>pi_jobId = None, pi_pinOwner = Some owner, pi_submission = ''prepared'', pi_reconcile = False, pi_releasedAt = None\<rparr>"

text \<open>The input is uploaded, in the journal and pinned when \<open>encryptCapture\<close> returns.\<close>

definition input_ready :: "string \<Rightarrow> requester_config \<Rightarrow> requester_env \<Rightarrow> string \<Rightarrow> requester_world \<Rightarrow> bool" where
  "input_ready p c env d w \<longleftrightarrow> sound_world p w \<and> entry_is d (Some (prepared (input_owner env))) w \<and>
     (\<exists>cid. canonicalPinCid (qc_cid_v1 c) d = Inr cid \<and> held p cid (input_owner env) (qw_pins w))"

lemma wp_acquire_pin:
  assumes env: "sound_env p env" "keeps_entry d env" and w: "sound_world p w" "entry_is d (Some (prepared (input_owner env))) w"
  shows "wp (acquire_pin c env n (qe_kubo env i) d (input_owner env)) (\<lambda>_. input_ready p c env d) (\<lambda>_ _. True) w"
proof -
  let ?w = "meanwhile c env n w" and ?acq = "acquire (qc_cid_v1 c) (qe_kubo env i) d (input_owner env) (default_pin (qe_kubo env i))"
  have s: "sound_world p ?w" "entry_is d (Some (prepared (input_owner env))) ?w" using meanwhile_sound [OF env(1) w(1)] env w by auto
  have "wp ?acq (\<lambda>_ v. \<exists>cid. canonicalPinCid (qc_cid_v1 c) d = Inr cid \<and> held p cid (input_owner env) v) (\<lambda>_ _. True) (qw_pins ?w)"
    using acquire_holds [of p "qw_pins ?w" "qe_kubo env i" "qc_cid_v1 c" d "input_owner env"] s(1) env(1)
    by (auto simp: wp_def sound_world_def pins_ok_def sound_env_def split: prod.split sum.split)
  then show ?thesis unfolding acquire_pin_def wp_andThen wp_basic wp_on_pins
    by (rule wp_mono) (use s in \<open>auto simp: input_ready_def sound_world_def held_def pins_ok_def entry_is_def\<close>)
qed

lemma encrypt_ready:
  assumes env: "sound_env p env" "qe_added env = Inr (Some d)" "keeps_entry d env" and w: "sound_world p w"
  shows "wp (encryptCapture c env captureId nodeId key) (\<lambda>enc w'. ei_inputCid enc = d \<and> input_ready p c env d w') (\<lambda>_ _. True) w"
proof -
  have upload: "sound_world p (w'\<lparr>qw_pins := (qw_pins w')\<lparr>pw_calls := cs\<rparr>\<rparr>)" if "sound_world p w'" for w' cs
    using that by (simp add: sound_world_def pins_ok_def)
  have journal: "wp (remote_write c env n (prepared_record d (input_owner env)))
      (\<lambda>_ w'. sound_world p w' \<and> entry_is d (Some (prepared (input_owner env))) w') (\<lambda>_ _. True) w'" if "sound_world p w'" for w' n
    by (rule wp_mono [OF wp_remote_entry [OF env(1, 3) that, where x = "jm_get (rs_privateCids (requester_remote w')) d"]])
       (auto simp: entry_is_def prepared_record_def prepared_def)
  have rest: "wp (andThen (remote_write c env 2 (prepared_record d (input_owner env))) (\<lambda>_.
      andThen (acquire_pin c env 3 (qe_kubo env 0) d (input_owner env)) (\<lambda>_. ret enc)))
      (\<lambda>enc w'. ei_inputCid enc = d \<and> input_ready p c env d w') (\<lambda>_ _. True) w'" if "sound_world p w'" "ei_inputCid enc = d" for w' enc
    unfolding wp_andThen
    by (rule wp_mono [OF journal [OF that(1)]], rule wp_mono [OF wp_acquire_pin [OF env(1, 3)]]) (use that(2) in \<open>auto simp: wp_basic\<close>)
  have sound: "sound_world p (meanwhile c env n w')" if "sound_world p w'" for w' n using meanwhile_sound(1) env(1) that by blast
  show ?thesis
    unfolding encryptCapture_def wp_andThen [of "of_result _"] wp_andThen [of "waits _ _ _ _"] wp_andThen [of "on_pins _"] wp_basic wp_waits wp_on_pins kubo_log_def split_def
    by (auto simp: env(2) wp_waits wp_on_pins wp_andThen [of "of_result _"] wp_andThen [of "waits _ _ _ _"] wp_andThen [of "on_pins _"] wp_basic wp_if
        intro!: rest sound upload w split: sum.split)
qed

lemma encrypt_cid:
  assumes "encryptCapture c env captureId nodeId key w = (Inr enc, w')"
  shows "qe_added env = Inr (Some (ei_inputCid enc))"
proof -
  consider e where "qe_added env = Inl e" | "qe_added env = Inr None" | d where "qe_added env = Inr (Some d)"
    by (cases "qe_added env") (metis option.exhaust)+
  then have "wp (encryptCapture c env captureId nodeId key) (\<lambda>enc _. qe_added env = Inr (Some (ei_inputCid enc))) (\<lambda>_ _. True) w"
    unfolding encryptCapture_def
    by cases (auto simp: wp_andThen wp_basic wp_waits wp_on_pins wp_if wp_case_prod kubo_log_def split: sum.split prod.split,
        auto simp: wp_def andThen_def ret_def split: prod.splits sum.splits)
  then show ?thesis using wp_result(1) assms by fastforce
qed

text \<open>What has gone right before an input can be submitted: the provider's key is one, the capture is there and can be read, and its payload is
  within the limit.\<close>

definition sealed_input :: "requester_config \<Rightarrow> requester_env \<Rightarrow> string \<Rightarrow> encrypted_input \<Rightarrow> bool" where
  "sealed_input c env key enc \<longleftrightarrow> (\<exists>k capture root files bs. providerKey (qc_crypto c) key = Inr k \<and> qe_capture env = Inr (capture, root) \<and>
     walkFiles (qc_before c) root = Inr files \<and> encrypt_payload (qc_crypto c) (qc_maxInputBytes c) (qe_random env) capture files = Inr bs \<and>
     ei_inputBytes enc = length bs \<and> ei_inputHash enc = cy_sha (qc_crypto c) bs \<and> length bs \<le> qc_maxInputBytes c)"

lemma encrypt_sealed:
  assumes "encryptCapture c env captureId nodeId key w = (Inr enc, w')"
  shows "sealed_input c env key enc"
proof (cases "providerKey (qc_crypto c) key")
  case (Inr k)
  note key = this
  show ?thesis
  proof (cases "qe_capture env")
    case (Inr cr)
    obtain capture root where cr: "qe_capture env = Inr (capture, root)" using Inr by (cases cr) simp
    show ?thesis
    proof (cases "walkFiles (qc_before c) root")
      case (Inr files)
      note files = this
      show ?thesis
      proof (cases "encrypt_payload (qc_crypto c) (qc_maxInputBytes c) (qe_random env) capture files")
        case (Inr bs)
        have "length bs \<le> qc_maxInputBytes c" using Inr by (auto simp: encrypt_payload_def Let_def split: if_splits)
        moreover have "wp (encryptCapture c env captureId nodeId key)
            (\<lambda>enc _. ei_inputBytes enc = length bs \<and> ei_inputHash enc = cy_sha (qc_crypto c) bs) (\<lambda>_ _. True) w"
          unfolding encryptCapture_def key cr
          by (simp add: wp_andThen wp_basic wp_waits wp_on_pins wp_if files Inr kubo_log_def split: sum.split)
             (auto simp: wp_def andThen_def ret_def split: prod.splits sum.splits)
        ultimately show ?thesis using wp_result(1) assms key cr files Inr unfolding sealed_input_def by fastforce
      qed (use assms key cr files in \<open>simp add: encryptCapture_def comp_defs waits_def\<close>)
    qed (use assms key cr in \<open>simp add: encryptCapture_def comp_defs waits_def\<close>)
  qed (use assms key in \<open>simp add: encryptCapture_def comp_defs\<close>)
qed (use assms in \<open>simp add: encryptCapture_def comp_defs\<close>)

lemma silent_writes: "wp (remote_write c env n m) (\<lambda>_ w'. qw_calls w' = qw_calls w) (\<lambda>_ w'. qw_calls w' = qw_calls w) w"
  using silence.along_remote [of c env n m] by (auto simp: along_def wp_def split: prod.split sum.split) (metis snd_conv)+

lemma submit_calls:
  "wp (submit_input c env rq nodeId enc)
     (\<lambda>_ w'. qw_calls w' = qw_calls w @ [(jq_authorization rq, CreateRemoteComputeJob nodeId (rs_nodeId (requester_remote w))
        (str_or (opt_str (jq_type rq)) ''spatial.reconstruct'') (jq_requirements rq) enc)])
     (\<lambda>_ w'. qw_calls w' = qw_calls w @ [(jq_authorization rq, CreateRemoteComputeJob nodeId (rs_nodeId (requester_remote w))
        (str_or (opt_str (jq_type rq)) ''spatial.reconstruct'') (jq_requirements rq) enc)]) w"
proof -
  have kept: "wp (remote_write c env n m) (\<lambda>_ w'. qw_calls w' = cs) (\<lambda>_ w'. qw_calls w' = cs) w'" if "qw_calls w' = cs" for n m w' cs
    using silent_writes [of c env n m w'] that by simp
  have calls: "qw_calls (meanwhile c env n w') = qw_calls w'" for n w' by (simp add: meanwhile_def)
  show ?thesis
    unfolding submit_input_def backend_def
    by (auto simp: wp_andThen wp_handle wp_basic wp_waits calls intro!: wp_mono [OF kept] split: sum.split)
qed

definition submitted_entry :: "string \<Rightarrow> remote_job \<Rightarrow> private_cid" where
  "submitted_entry owner job = (prepared owner)\<lparr>pi_jobId := Some (jo_id job), pi_submission := ''submitted''\<rparr>"

definition unconfirmed_entry :: "string \<Rightarrow> private_cid" where
  "unconfirmed_entry owner = (prepared owner)\<lparr>pi_submission := ''unconfirmed'', pi_reconcile := True\<rparr>"

lemma submit_entry:
  assumes env: "sound_env p env" "keeps_entry d env" and w: "sound_world p w" "entry_is d (Some (prepared owner)) w" and "ei_inputCid enc = d"
  shows "wp (submit_input c env rq nodeId enc) (\<lambda>job. entry_is d (Some (submitted_entry owner job)))
    (\<lambda>_ w'. entry_is d (Some (prepared owner)) w' \<or> entry_is d (Some (unconfirmed_entry owner)) w') w"
proof -
  let ?P = "\<lambda>x w. sound_world p w \<and> entry_is d (Some x) w"
  have others: "?P x (meanwhile c env n w')" if "?P x w'" for x n w' using meanwhile_sound [OF env(1)] env(2) that by blast
  have submitted: "wp (remote_write c env n (submitted_record now job d)) (\<lambda>_. ?P (submitted_entry owner job)) (\<lambda>_. ?P (prepared owner)) w'"
    if "?P (prepared owner) w'" for n now job w'
    by (rule wp_remote_entry [OF env(1, 2)])
       (use that in \<open>auto simp: submitted_record_def change_private_def submitted_entry_def prepared_def\<close>)
  have failed: "wp (remote_write c env n (unconfirmed_record d)) (\<lambda>_. ?P (unconfirmed_entry owner)) (\<lambda>_. ?P (prepared owner)) w'"
    if "?P (prepared owner) w'" for n w'
    by (rule wp_remote_entry [OF env(1, 2)])
       (use that in \<open>auto simp: unconfirmed_record_def change_private_def unconfirmed_entry_def prepared_def\<close>)
  have logged: "?P x (w'\<lparr>qw_calls := cs\<rparr>)" if "?P x w'" for x w' cs using that by (simp add: sound_world_def entry_is_def)
  have recover: "wp (handle (remote_write c env n (unconfirmed_record d)) (\<lambda>_. ret ()))
      (\<lambda>_ w'. entry_is d (Some (prepared owner)) w' \<or> entry_is d (Some (unconfirmed_entry owner)) w') E w'"
    if "?P (prepared owner) w'" for n w' E
    unfolding wp_handle by (rule wp_mono [OF failed [OF that]]) (auto simp: wp_basic)
  show ?thesis
    unfolding submit_input_def backend_def assms(5)
    using others [OF logged [where x = "prepared owner" and w' = w]] w
    by (auto simp: wp_andThen wp_handle [of "andThen _ _"] wp_basic wp_basic_fun wp_waits intro!: recover wp_mono [OF submitted] split: sum.split)
qed

section \<open>A retrieval\<close>

definition output_held :: "string \<Rightarrow> requester_config \<Rightarrow> remote_job \<Rightarrow> string \<Rightarrow> requester_world \<Rightarrow> bool" where
  "output_held p c job cid w \<longleftrightarrow>
     (\<exists>k. canonicalPinCid (qc_cid_v1 c) cid = Inr k \<and> held p k (output_owner job) (qw_pins w))"

definition outputs_spared :: "requester_config \<Rightarrow> string \<Rightarrow> requester_env \<Rightarrow> bool" where
  "outputs_spared c p env \<longleftrightarrow> sound_env p env \<and>
     (\<forall>job k. qe_answer env = Inr job \<longrightarrow> others_spare c p k (output_owner job) env)"

lemma output_held_along:
  assumes "outputs_spared c p env" and "qe_answer env = Inr job"
    and "\<And>k. spared (others_spare c p k (output_owner job) env) (keeps_holding p k (output_owner job)) w w'" and "output_held p c job cid w"
  shows "output_held p c job cid w'"
  using assms by (fastforce simp: output_held_def outputs_spared_def spared_def keeps_holding_def)

lemma declared_member: "declared job v \<Longrightarrow> str_field v \<in> set (jo_outputCids job)"
  by (auto simp: declared_def str_field_def split: option.splits json.splits)

lemma wp_pin_output:
  assumes env: "outputs_spared c p env" "qe_answer env = Inr job" and w: "sound_world p w" "\<forall>x \<in> D. output_held p c job x w"
  shows "wp (pin_output c env job (i, cid)) (\<lambda>_ w'. sound_world p w' \<and> (\<forall>x \<in> insert cid D. output_held p c job x w')) (\<lambda>_ _. True) w"
proof -
  let ?w1 = "meanwhile c env (20 + 2 * i) w"
  let ?w2 = "meanwhile c env (21 + 2 * i) ?w1" and ?acq = "acquire (qc_cid_v1 c) (qe_kubo env i) cid (output_owner job) (default_pin (qe_kubo env i))"
  have sound: "sound_env p env" using env(1) by (simp add: outputs_spared_def)
  have s: "sound_world p ?w2" using meanwhile_sound(1) [OF sound] w(1) by blast
  have kept: "output_held p c job x w' \<Longrightarrow> output_held p c job x (meanwhile c env n w')" for x n w'
    by (rule output_held_along [OF env holding.others])
  have beside: "env_beside p (qe_kubo env i)" using sound by (simp add: sound_env_def)
  have "wp ?acq (\<lambda>_ v. pins_ok p v \<and> (\<forall>x \<in> insert cid D. output_held p c job x (?w2\<lparr>qw_pins := v\<rparr>))) (\<lambda>_ _. True) (qw_pins ?w2)"
  proof (cases "?acq (qw_pins ?w2)")
    case (Pair r v)
    have old: "\<forall>x \<in> D. output_held p c job x (?w2\<lparr>qw_pins := v\<rparr>)"
      using w(2) kept output_held_along [OF env holding.acquires [of _ _ _ _ _ ?w2 i cid "output_owner job"]] Pair by auto
    show ?thesis
    proof (cases r)
      case (Inr k)
      have "canonicalPinCid (qc_cid_v1 c) cid = Inr k \<and> held p k (output_owner job) v"
        using acquire_holds [of p "qw_pins ?w2" "qe_kubo env i" "qc_cid_v1 c" cid "output_owner job" k v] s beside Pair Inr
        by (simp add: sound_world_def pins_ok_def)
      then show ?thesis using old Pair Inr by (auto simp: wp_def output_held_def held_def pins_ok_def)
    qed (use Pair in \<open>simp add: wp_def\<close>)
  qed
  then show ?thesis
    unfolding pin_output_def acquire_pin_def split_def fst_conv snd_conv wp_andThen wp_waits wp_basic
    using s by (auto simp: wp_on_pins wp_basic sound_world_def split: sum.split intro: wp_mono)
qed

lemma wp_pin_outputs:
  assumes env: "outputs_spared c p env" "qe_answer env = Inr job" and w: "sound_world p w" "\<forall>x \<in> D. output_held p c job x w"
  shows "wp (for_each (pin_output c env job) (enumerate i cids)) (\<lambda>_ w'. sound_world p w' \<and> (\<forall>x \<in> D \<union> set cids. output_held p c job x w')) (\<lambda>_ _. True) w"
  using w
proof (induction cids arbitrary: i D w)
  case (Cons cid cids)
  show ?case
    unfolding enumerate_simps for_each.simps wp_andThen
    by (rule wp_mono [OF wp_pin_output [OF env Cons.prems]], rule wp_mono [OF Cons.IH [where D = "insert cid D"]]) auto
qed (simp add: wp_basic)

lemma wp_record_output:
  assumes env: "outputs_spared c p env" "qe_answer env = Inr job" and w: "sound_world p w" "\<forall>x \<in> D. output_held p c job x w"
  shows "wp (remote_write c env n (\<lambda>s. Inr (s\<lparr>rs_spatial := jm_set k rec (rs_spatial s)\<rparr>)))
    (\<lambda>_ w'. jm_get (rs_spatial (requester_remote w')) k = Some rec \<and> (\<forall>x \<in> D. output_held p c job x w')) (\<lambda>_ _. True) w"
proof -
  let ?w = "meanwhile c env n w"
  have "sound_world p ?w" using meanwhile_sound(1) env(1) w(1) by (simp add: outputs_spared_def)
  moreover have "\<forall>x \<in> D. output_held p c job x ?w" using output_held_along [OF env holding.others] w(2) by blast
  moreover have "writes_beside p (qe_tx env n)" using env(1) by (simp add: outputs_spared_def sound_env_def)
  ultimately show ?thesis
    unfolding remote_write_def wp_andThen wp_basic
    by (intro requester_store.wp_transact [where p = p]) (auto simp: sound_world_def output_held_def dest: sym)
qed

lemma wp_get_job:
  assumes sound: "sound_env p env" and w: "sound_world p w"
  shows "wp (getRequesterJob c env jobId authorization) (\<lambda>job w'. qe_answer env = Inr job \<and> sound_world p w') (\<lambda>_ _. True) w"
proof -
  have track: "wp (remote_write c env n m) (\<lambda>_. sound_world p) (\<lambda>_ _. True) v" if "sound_world p v" for n m v
    unfolding remote_write_def wp_andThen wp_basic
    by (rule requester_store.wp_transact [where p = p])
       (use meanwhile_sound(1) [OF sound that] sound in \<open>auto simp: sound_world_def sound_env_def\<close>)
  have "sound_world p (meanwhile c env 5 (w\<lparr>qw_calls := cs\<rparr>))" for cs
    by (rule meanwhile_sound(1) [OF sound]) (use w in \<open>simp add: sound_world_def\<close>)
  then show ?thesis
    unfolding getRequesterJob_def backend_def wp_andThen wp_basic wp_waits
    by (auto split: sum.split intro!: wp_mono [OF track])
qed

lemma wp_output_recorded:
  assumes "outputs_spared c p env" and "qe_answer env = Inr job" and "sound_world p w"
  shows "wp (record_output c env job m)
    (\<lambda>rec w'. rec = output_record job m \<and> jm_get (rs_spatial (requester_remote w')) (str_field (json_field (Some m) ''id'')) = Some rec \<and>
      (\<forall>cid \<in> set (jo_outputCids job). output_held p c job cid w')) (\<lambda>_ _. True) w"
  unfolding record_output_def wp_andThen
  by (rule wp_mono [OF wp_pin_outputs [OF assms, where D = "{}"]], simp,
      rule wp_mono [OF wp_record_output [OF assms(1, 2), where D = "set (jo_outputCids job)"]]) (auto simp: wp_basic)

text \<open>What is recorded of outputs changes only with the last step of a retrieval.\<close>

definition keeps_outputs :: "requester_env \<Rightarrow> bool" where
  "keeps_outputs env \<longleftrightarrow> (\<forall>n s. rs_spatial (snd (qe_changes env n) s) = rs_spatial s)"

definition same_outputs :: "string \<Rightarrow> requester_env \<Rightarrow> requester_world \<Rightarrow> requester_world \<Rightarrow> bool" where
  "same_outputs p env w w' \<longleftrightarrow> (sound_env p env \<and> keeps_outputs env \<and> synced p (qw_remote w) \<longrightarrow>
     synced p (qw_remote w') \<and> rs_spatial (requester_remote w') = rs_spatial (requester_remote w))"

interpretation outputs_kept: step_relation "same_outputs p env" for p env
  by unfold_locales (auto simp: same_outputs_def)

lemma same_outputs_transact:
  assumes "\<And>s s'. m s = Inr s' \<Longrightarrow> rs_spatial s' = rs_spatial s" and "sound_env p env \<Longrightarrow> writes_beside p tx"
  shows "same_outputs p env w (snd (transact qw_remote put_requester empty_remote tx m w))"
proof (cases "sound_env p env \<and> keeps_outputs env \<and> synced p (qw_remote w)")
  case True
  then have "wp (transact qw_remote put_requester empty_remote tx m) (\<lambda>_. same_outputs p env w) (\<lambda>_. same_outputs p env w) w"
    by (intro requester_store.wp_transact_inv [where p = p]) (use assms in \<open>auto simp: same_outputs_def dest: sym\<close>)
  then show ?thesis by (rule wp_snd)
qed (auto simp: same_outputs_def)

lemma same_outputs_meanwhile: "same_outputs p env w (meanwhile c env n w)"
proof (cases "sound_env p env \<and> keeps_outputs env")
  case True
  let ?m = "\<lambda>s. Inr (snd (qe_changes env n) s) :: remote_state result" and ?tx = "fst (qe_changes env n)"
  have "snd (transact qw_remote put_requester empty_remote ?tx ?m w) = w\<lparr>qw_remote := snd (store_update empty_remote ?tx ?m (qw_remote w))\<rparr>"
    by (simp add: transact_def split: prod.split)
  then have "qw_remote (meanwhile c env n w) = qw_remote (snd (transact qw_remote put_requester empty_remote ?tx ?m w))"
    by (simp add: meanwhile_def)
  moreover have "same_outputs p env w (snd (transact qw_remote put_requester empty_remote ?tx ?m w))"
    by (rule same_outputs_transact) (use True in \<open>auto simp: keeps_outputs_def sound_env_def\<close>)
  ultimately show ?thesis by (simp add: same_outputs_def)
qed (auto simp: same_outputs_def)

lemma outputs_waits: "along (same_outputs p env) (writes (meanwhile c env n))" "along (same_outputs p env) (waits c env n r)"
proof -
  show m: "along (same_outputs p env) (writes (meanwhile c env n))" by (simp add: along_def writes_def same_outputs_meanwhile)
  show "along (same_outputs p env) (waits c env n r)" unfolding waits_def by (intro outputs_kept.along_then m outputs_kept.along_pure)
qed

lemma outputs_pins: "along (same_outputs p env) (on_pins m)"
  by (simp add: along_def on_pins_def same_outputs_def split: prod.split)

lemma outputs_write:
  assumes "\<And>s s'. m s = Inr s' \<Longrightarrow> rs_spatial s' = rs_spatial s"
  shows "along (same_outputs p env) (remote_write c env n m)"
  unfolding remote_write_def
  by (intro outputs_kept.along_then outputs_waits) (simp add: along_def, intro allI same_outputs_transact, use assms in \<open>auto simp: sound_env_def\<close>)

lemma outputs_until_recorded:
  "along (same_outputs p env) (for_each (pin_output c env job) cids)" "along (same_outputs p env) (getRequesterJob c env jobId a)"
proof -
  show "along (same_outputs p env) (for_each (pin_output c env job) cids)"
    unfolding pin_output_def acquire_pin_def split_def
    by (intro outputs_kept.along_for_each outputs_kept.along_then outputs_waits outputs_pins outputs_kept.along_pure)
  have "along (same_outputs p env) (writes (\<lambda>w. w\<lparr>qw_calls := f w\<rparr>))" for f by (simp add: along_def writes_def same_outputs_def)
  moreover have "track_record now i role st s = Inr s' \<Longrightarrow> rs_spatial s' = rs_spatial s" for now i role st s s'
    by (auto simp: track_record_def Let_def split: option.splits if_splits)
  ultimately show "along (same_outputs p env) (getRequesterJob c env jobId a)"
    unfolding getRequesterJob_def backend_def by (intro outputs_kept.along_then outputs_waits outputs_write outputs_kept.along_pure)
qed

lemma wp_same_outputs:
  "along (same_outputs p env) m \<Longrightarrow> wp m (\<lambda>_. same_outputs p env w) (\<lambda>_. same_outputs p env w) w"
  by (auto simp: along_def wp_def split: prod.split sum.split) (metis snd_conv)+

text \<open>A retrieval that throws has recorded nothing, one that returns only what it returns.\<close>

lemma wp_recorded_last:
  assumes env: "sound_env p env" "keeps_outputs env" and w: "synced p (qw_remote w)"
  shows "wp (record_output c env job m)
    (\<lambda>_ w'. rs_spatial (requester_remote w') = jm_set (str_field (json_field (Some m) ''id'')) (output_record job m) (rs_spatial (requester_remote w)))
    (\<lambda>_ w'. rs_spatial (requester_remote w') = rs_spatial (requester_remote w)) w"
proof -
  have final: "wp (remote_write c env 9 (\<lambda>s. Inr (s\<lparr>rs_spatial := jm_set k rec (rs_spatial s)\<rparr>)))
      (\<lambda>_ w'. rs_spatial (requester_remote w') = jm_set k rec (rs_spatial (requester_remote w)))
      (\<lambda>_ w'. rs_spatial (requester_remote w') = rs_spatial (requester_remote w)) u" if "same_outputs p env w u" for k rec u
    unfolding remote_write_def wp_andThen wp_basic
    by (rule requester_store.wp_transact [where p = p])
       (use that env w same_outputs_meanwhile [of p env u c 9] in \<open>auto simp: same_outputs_def sound_env_def\<close>)
  show ?thesis
    unfolding record_output_def wp_andThen
    by (rule wp_mono [OF wp_same_outputs [OF outputs_until_recorded(1)]], rule wp_mono [OF final])
       (use env w in \<open>auto simp: wp_basic same_outputs_def\<close>)
qed

lemma wp_retrieval_outputs:
  assumes env: "sound_env p env" "keeps_outputs env" and w: "synced p (qw_remote w)"
  shows "wp (retrieveRequesterOutput c env jobId a) (\<lambda>_ _. True) (\<lambda>_ w'. rs_spatial (requester_remote w') = rs_spatial (requester_remote w)) w"
proof -
  have kept: "same_outputs p env w u \<Longrightarrow> synced p (qw_remote u) \<and> rs_spatial (requester_remote u) = rs_spatial (requester_remote w)" for u
    using env w by (simp add: same_outputs_def)
  have later: "same_outputs p env w (meanwhile c env n u)" if "same_outputs p env w u" for n u
    using outputs_kept.trans that same_outputs_meanwhile by blast
  have take: "wp (take_output c env job) (\<lambda>_ _. True) (\<lambda>_ w'. rs_spatial (requester_remote w') = rs_spatial (requester_remote w)) u"
    if "same_outputs p env w u" for job u
  proof -
    have "wp (record_output c env job m) (\<lambda>_ _. True) (\<lambda>_ w'. rs_spatial (requester_remote w') = rs_spatial (requester_remote w)) (meanwhile c env 8 u)" for m
      by (rule wp_mono [OF wp_recorded_last [OF env]]) (use kept [OF later [OF that]] in auto)
    then show ?thesis
      unfolding take_output_def
      using kept [OF that] kept [OF later [OF that, of 8]]
      by (auto simp: wp_if wp_andThen wp_basic wp_waits split: sum.split)
  qed
  have "wp (getRequesterJob c env jobId a) (\<lambda>_. same_outputs p env w) (\<lambda>_. same_outputs p env w) (meanwhile c env 4 w)"
    by (rule wp_mono [OF wp_same_outputs [OF outputs_until_recorded(2)]])
       (use later [OF outputs_kept.refl] outputs_kept.trans in blast)+
  then have "wp (andThen (getRequesterJob c env jobId a) (take_output c env)) (\<lambda>_ _. True)
      (\<lambda>_ w'. rs_spatial (requester_remote w') = rs_spatial (requester_remote w)) (meanwhile c env 4 w)"
    unfolding wp_andThen by (rule wp_mono) (use take kept in auto)
  then show ?thesis
    unfolding retrieveRequesterOutput_def wp_andThen [of "waits _ _ _ _"] wp_waits
    using kept [OF later [OF outputs_kept.refl]] by (auto split: sum.split)
qed

lemma output_record_declared:
  assumes "list_all (\<lambda>v. declared job (json_field (Some v) ''cid'')) (manifest_variants m)" and "v \<in> set (sp_variants (output_record job m))"
  shows "fst (snd v) \<in> set (jo_outputCids job)"
  using assms declared_member by (auto simp: output_record_def list_all_iff)

section \<open>Properties\<close>

text \<open>
  C16. The backend hears of a private input only when everything before has succeeded and the node holds its pin. If \<open>requestJob\<close> calls the
  backend to create a job, then the call carries the user's authorization, the participation gate admitted the request, the provider's key
  is valid, the capture could be read and its sealed payload is within the limit; and the call is made from a state \<open>w1\<close>, the backend
  not called before, in which the input is pinned under an owner of its own that the journal names. Whatever becomes of the submission, the pin
  is still held in the end, and the journal has the input as submitted, with the job's id, on success; on an error as unconfirmed and to be
  reconciled, or as prepared when that write fails too. Others may do anything in between with other pins, other journal entries and this
  pin's other owners.
\<close>
theorem submitted_input_held:
  assumes run: "requestJob c env rq w = (r, w')" and new: "qw_calls w' = qw_calls w @ new"
    and call: "(a, CreateRemoteComputeJob provider requester type requirements enc) \<in> set new"
    and env: "sound_env p env" "keeps_entry (ei_inputCid enc) env" "\<And>cid. others_spare c p cid (input_owner env) env" and w: "sound_world p w"
  shows "a = jq_authorization rq \<and> authorized a \<and> qe_gate env = Inr () \<and> (\<exists>key. jq_provider rq = Some (provider, key) \<and> sealed_input c env key enc) \<and>
    (\<exists>w1. qw_calls w1 = qw_calls w \<and> input_ready p c env (ei_inputCid enc) w1 \<and> submit_input c env rq provider enc w1 = (r, w')) \<and>
    (\<exists>cid. canonicalPinCid (qc_cid_v1 c) (ei_inputCid enc) = Inr cid \<and> held p cid (input_owner env) (qw_pins w')) \<and>
    (case r of
       Inr job \<Rightarrow> entry_is (ei_inputCid enc) (Some (submitted_entry (input_owner env) job)) w'
     | Inl e \<Rightarrow> entry_is (ei_inputCid enc) (Some (prepared (input_owner env))) w' \<or> entry_is (ei_inputCid enc) (Some (unconfirmed_entry (input_owner env))) w')"
proof -
  let ?w0 = "meanwhile c env 4 w"
  have auth: "authorized (jq_authorization rq)"
    using run new call requireUserAuthorization_Inr [of "jq_authorization rq"]
    by (cases "requireUserAuthorization (jq_authorization rq)") (auto simp: requestJob_def comp_defs)
  have calls0: "qw_calls ?w0 = qw_calls w" by (simp add: meanwhile_def)
  obtain nodeId key where provider: "jq_provider rq = Some (nodeId, key)" "nodeId \<noteq> []" "key \<noteq> []" and gate: "qe_gate env = Inr ()"
    using run new call auth calls0 requireUserAuthorization_Inr [of "jq_authorization rq" "()"]
    by (auto simp: requestJob_def comp_defs waits_def split: option.splits sum.splits prod.splits if_splits)
  obtain r1 w1 where enc1: "encryptCapture c env (jq_captureId rq) nodeId key ?w0 = (r1, w1)" by (cases "encryptCapture c env (jq_captureId rq) nodeId key ?w0")
  have calls1: "qw_calls w1 = qw_calls w" using along_run [OF silence.along_encrypt enc1] calls0 by simp
  have step: "andThen (encryptCapture c env (jq_captureId rq) nodeId key) (submit_input c env rq nodeId) ?w0 = (r, w')"
    using run auth provider gate requireUserAuthorization_Inr [of "jq_authorization rq" "()"] by (simp add: requestJob_def comp_defs waits_def)
  obtain enc' where enc': "r1 = Inr enc'" using step new call calls1 enc1 by (cases r1) (auto simp: andThen_def)
  have submit: "submit_input c env rq nodeId enc' w1 = (r, w')" using step enc1 enc' by (simp add: andThen_def)
  have same: "enc' = enc" "provider = nodeId" "a = jq_authorization rq"
    using submit_calls [of c env rq nodeId enc' w1] submit new call calls1 by (cases r; auto simp: wp_def)+
  then have ready: "input_ready p c env (ei_inputCid enc) w1"
    using wp_result(1) [OF encrypt_ready [OF env(1) _ env(2) meanwhile_sound(1) [OF env(1) w]]] encrypt_cid enc1 enc' by blast
  then obtain cid where cid: "canonicalPinCid (qc_cid_v1 c) (ei_inputCid enc) = Inr cid" "held p cid (input_owner env) (qw_pins w1)"
    by (auto simp: input_ready_def)
  have "held p cid (input_owner env) (qw_pins w')"
    using along_run [OF holding.along_submit_input [OF auth] submit] cid(2) env(3) by (auto simp: spared_def keeps_holding_def)
  moreover have "case r of
       Inr job \<Rightarrow> entry_is (ei_inputCid enc) (Some (submitted_entry (input_owner env) job)) w'
     | Inl e \<Rightarrow> entry_is (ei_inputCid enc) (Some (prepared (input_owner env))) w' \<or> entry_is (ei_inputCid enc) (Some (unconfirmed_entry (input_owner env))) w'"
    using submit_entry [OF env(1, 2), of w1 "input_owner env" enc c rq nodeId] ready submit same(1)
    by (cases r) (auto simp: wp_def input_ready_def)
  moreover have "sealed_input c env key enc" using encrypt_sealed enc1 enc' same(1) by blast
  ultimately show ?thesis using cid(1) auth gate provider(1) same calls1 ready submit by blast
qed

text \<open>
  C15. The pin of an encrypted input is given up only for a job that is over. From a state in which the node holds it, over
  every sequence of the requester's operations, however they end and whatever others do to other owners in between, as long as
  no answer of the backend to an acknowledgement or a cancellation says that a job with this input has ended, the owner stays registered
  and Kubo is not asked to unpin the input.
\<close>
theorem input_held_until_ended:
  assumes "held p cid owner (qw_pins w)"
    and "list_all (\<lambda>(env, _). others_spare c p cid owner env \<and> not_ended c cid env) evs"
  shows "held p cid owner (qw_pins (fold (requester_step c) evs w)) \<and> never_unpinned cid (qw_pins w) (qw_pins (fold (requester_step c) evs w))"
  using assms
proof (induction evs arbitrary: w)
  case (Cons e evs)
  obtain env ev where e: "e = (env, ev)" by (cases e)
  let ?w = "requester_step c (env, ev) w"
  have "keeps_holding p cid owner w ?w"
    using held_until_ended.requester_step_kept [of c p cid owner env w ev] Cons.prems(2) by (simp add: spared_def e)
  then have held: "held p cid owner (qw_pins ?w)" "never_unpinned cid (qw_pins w) (qw_pins ?w)"
    using Cons.prems(1) by (simp_all add: keeps_holding_def)
  from Cons.IH [OF held(1)] Cons.prems(2) never_unpinned_trans [OF held(2)] show ?case by (simp add: e)
qed simp

text \<open>
  No operation of the requester reaches the backend without a bearer authorization: every call that a sequence of
  operations makes carries one.
\<close>
lemma requester_calls_authorized:
  "\<exists>new. qw_calls (fold (requester_step c) evs w) = qw_calls w @ new \<and> list_all (\<lambda>(a, _). authorized a) new"
proof -
  have "authorized_calls w (fold (requester_step c) evs w)"
  proof (induction evs arbitrary: w)
    case (Cons e evs)
    then show ?case
      using authorization.trans [OF authorization.requester_step_kept [of w c "fst e" "snd e"]] by simp
  qed (simp add: authorization.refl)
  then show ?thesis by (simp add: authorized_calls_def)
qed

text \<open>
  C17. An output is recorded only in full. Others may do anything in between, but release no pin of the job's outputs and record no outputs. When
  \<open>retrieveRequesterOutput\<close> throws, at whatever point, the recorded outputs are as before. When it returns, exactly one record is new or
  replaced, the one it returns: the backend said that the job's output is ready; the bytes of the manifest are a valid manifest; the
  manifest's own identifier and those of all its variants are among the outputs that the job declares; and every declared output is pinned
  under the job's owner.
\<close>
theorem retrieved_output_declared:
  assumes run: "retrieveRequesterOutput c env jobId authorization w = (r, w')" and env: "outputs_spared c p env" "keeps_outputs env" and w: "sound_world p w"
  shows "case r of
      Inl e \<Rightarrow> rs_spatial (requester_remote w') = rs_spatial (requester_remote w)
    | Inr rec \<Rightarrow> \<exists>job bs m. qe_gate env = Inr () \<and> qe_answer env = Inr job \<and> jo_state job \<in> set ready_states \<and> qe_cat env = Inr bs \<and> read_manifest bs = Inr m \<and>
        rec = output_record job m \<and> sp_manifestCid rec \<in> set (jo_outputCids job) \<and>
        (\<forall>v \<in> set (sp_variants rec). fst (snd v) \<in> set (jo_outputCids job)) \<and>
        (\<forall>cid \<in> set (jo_outputCids job). output_held p c job cid w') \<and>
        rs_spatial (requester_remote w') = jm_set (str_field (json_field (Some m) ''id'')) rec (rs_spatial (requester_remote w))"
proof -
  have sound: "sound_env p env" using env(1) by (simp add: outputs_spared_def)
  have remote: "synced p (qw_remote w)" using w by (simp add: sound_world_def)
  show ?thesis
  proof (cases r)
    case (Inl e)
    then show ?thesis using wp_result(2) [OF wp_retrieval_outputs [OF sound env(2) remote]] run by auto
  next
    case (Inr rec)
    let ?w = "meanwhile c env 4 w"
    have gate: "qe_gate env = Inr ()" and "andThen (getRequesterJob c env jobId authorization) (take_output c env) ?w = (Inr rec, w')"
      using run Inr by (cases "qe_gate env"; simp add: retrieveRequesterOutput_def waits_def comp_defs)+
    then obtain job w1 where get: "getRequesterJob c env jobId authorization ?w = (Inr job, w1)" and took: "take_output c env job w1 = (Inr rec, w')"
      by (auto simp: andThen_def split: prod.splits sum.splits)
    have job: "qe_answer env = Inr job" "sound_world p w1"
      using wp_result(1) [OF wp_get_job [OF sound meanwhile_sound(1) [OF sound w]] get] by auto
    obtain bs m where taken: "jo_state job \<in> set ready_states" "qe_cat env = Inr bs" "read_manifest bs = Inr m"
      "opt_str (jo_outputManifestCid job) \<in> set (jo_outputCids job)" "list_all (\<lambda>v. declared job (json_field (Some v) ''cid'')) (manifest_variants m)"
      and stored: "record_output c env job m (meanwhile c env 8 w1) = (Inr rec, w')"
      using took by (auto simp: take_output_def comp_defs waits_def split: if_splits sum.splits prod.splits)
    have post: "rec = output_record job m" "\<forall>cid \<in> set (jo_outputCids job). output_held p c job cid w'"
      using wp_result(1) [OF wp_output_recorded [OF env(1) job(1) meanwhile_sound(1) [OF sound job(2)]] stored] by auto
    have "same_outputs p env w (meanwhile c env 8 w1)"
      by (rule outputs_kept.trans [OF same_outputs_meanwhile outputs_kept.trans [OF along_run [OF outputs_until_recorded(2) get] same_outputs_meanwhile]])
    then have "rs_spatial (requester_remote w') = jm_set (str_field (json_field (Some m) ''id'')) rec (rs_spatial (requester_remote w))"
      using wp_result(1) [OF wp_recorded_last [OF sound env(2)] stored] post(1) sound env(2) remote by (auto simp: same_outputs_def)
    moreover have "sp_manifestCid rec \<in> set (jo_outputCids job)" using taken(4) post(1) by (simp add: output_record_def)
    moreover have "\<forall>v \<in> set (sp_variants rec). fst (snd v) \<in> set (jo_outputCids job)"
      using output_record_declared [OF taken(5)] post(1) by blast
    ultimately show ?thesis unfolding Inr using gate job(1) taken(1-3) post by auto
  qed
qed

section \<open>Witnesses\<close>

definition demo_requester_config :: requester_config where
  "demo_requester_config = \<lparr>qc_cid_v1 = Some, qc_sha = id, qc_allowUnpin = True, qc_crypto = plain_crypto, qc_before = (\<lambda>_ _. False), qc_maxInputBytes = length (seal_payload plain_crypto sample_random JNull [])\<rparr>"

definition demo_output :: remote_job where
  "demo_output = demo_remote\<lparr>jo_state := ''COMPLETED'', jo_inputCid := ''bafyOne'', jo_outputManifestCid := Some ''bafyTwo'', jo_outputCids := [''bafyTwo'', ''bafyThree'']\<rparr>"

definition demo_manifest :: json where
  "demo_manifest = JObj [(''schema'', JStr ''kubus.spatial/1''), (''type'', JStr ''model3d''), (''id'', JStr ''s''), (''artworkId'', JStr ''a''),
     (''captureId'', JStr ''c''), (''capturedAt'', JStr ''t''),
     (''processing'', JObj [(''protocol'', JStr ''kubus.spatial-job/1''), (''workerVersion'', JStr ''1''),
        (''reconstruction'', JObj [(''engine'', JStr ''nerfstudio''), (''method'', JStr ''splatfacto''), (''iterations'', JNum 1), (''outputFormat'', JStr ''ply'')])]),
     (''variants'', JArr [JObj [(''role'', JStr ''model3d''), (''cid'', JStr ''bafyThree''), (''sizeBytes'', JNum 1), (''mimeType'', JStr ''m''), (''format'', JStr ''ply'')]])]"

definition demo_requester :: "remote_job result \<Rightarrow> requester_env" where
  "demo_requester answer = \<lparr>qe_others = (\<lambda>_. []), qe_changes = (\<lambda>_. (quiet_env, \<lambda>s. s)), qe_tx = (\<lambda>_. quiet_env), qe_kubo = (\<lambda>_. demo_kubo []), qe_now = 5,
     qe_iso = ''t'', qe_gate = Inr (), qe_capture = Inr (JNull, EntryDir []), qe_random = sample_random, qe_added = Inr (Some ''bafyOne''),
     qe_uuid = ''u'', qe_answer = answer, qe_updated = answer, qe_candidates = Inr JNull,
     qe_cat = Inr (bytes_of_string (json_stringify demo_manifest)), qe_head = (\<lambda>_. Inr ()), qe_sign = (\<lambda>_. Inr ''sig'')\<rparr>"

definition demo_requester_world :: requester_world where
  "demo_requester_world = \<lparr>qw_pins = demo_pins [], qw_remote = saved_store empty_remote, qw_calls = []\<rparr>"

definition demo_rq :: job_request where
  "demo_rq = \<lparr>jq_authorization = ''Bearer 0123456789abcdef'', jq_captureId = ''c'', jq_provider = Some (''n'', ''AAAA''), jq_requirements = JNull, jq_type = None\<rparr>"

lemma saved_update: "m s = Inr s' \<Longrightarrow> store_update e quiet_env m (saved_store s) = (Inr s', saved_store s')"
  by (simp add: store_update_def saved_store_def quiet_env_def atomic_write_def store_snapshot_def io_ok_def Let_def)

definition is_saved :: "'s store \<Rightarrow> bool" where
  "is_saved st \<longleftrightarrow> (\<exists>s. st = saved_store s)"

lemma is_saved_store [simp]: "is_saved (saved_store s)"
  by (auto simp: is_saved_def)

lemma demo_meanwhile:
  assumes "qw_remote w = saved_store s"
  shows "meanwhile demo_requester_config (demo_requester answer) n w = w"
  using assms by (simp add: meanwhile_def demo_requester_def saved_update [of _ s s])

lemma demo_write:
  assumes "qw_remote w = saved_store s" and "m s = Inr s'"
  shows "remote_write demo_requester_config (demo_requester answer) n m w = (Inr (), w\<lparr>qw_remote := saved_store s'\<rparr>)"
  using assms by (simp add: remote_write_def comp_defs demo_meanwhile transact_def saved_update) (simp add: demo_requester_def saved_update)

definition demo_registered :: "string \<Rightarrow> string \<Rightarrow> managed_pin" where
  "demo_registered cid owner = (registered_pin cid owner (listing_ownership Some cid (Inr (Some []))) 5 None)\<lparr>mp_state := Pinned, mp_updatedAt := 5\<rparr>"

lemma demo_acquire:
  assumes "canonicalPinCid Some cid = Inr cid" and "valid_owner owner" and "pw_store v = saved_store (empty_pins\<lparr>ms_managedPins := ps\<rparr>)" and "jm_get ps cid = None"
  shows "acquire Some (demo_kubo []) cid owner (default_pin (demo_kubo [])) v =
    (Inr cid, v\<lparr>pw_store := saved_store (empty_pins\<lparr>ms_managedPins := jm_set cid (demo_registered cid owner) ps\<rparr>), pw_calls := pw_calls v @ [PinLs, PinAdd cid]\<rparr>)"
  using assms
  by (simp add: acquire_def comp_defs checkOwner_def review_required_def needs_probe_def probeOwnership_def kubo_log_def demo_kubo_def default_pin_def
      pins_update_def transact_def saved_update register_owner_def change_pin_def demo_registered_def)

lemma demo_simps:
  "qe_capture (demo_requester answer) = Inr (JNull, EntryDir [])" "qe_added (demo_requester answer) = Inr (Some ''bafyOne'')" "qe_gate (demo_requester answer) = Inr ()"
  "qe_answer (demo_requester answer) = answer" "qe_updated (demo_requester answer) = answer" "qe_kubo (demo_requester answer) i = demo_kubo []"
  "input_owner (demo_requester answer) = ''requester-input:u''" "qe_random (demo_requester answer) = sample_random"
  "qe_cat (demo_requester answer) = Inr (bytes_of_string (json_stringify demo_manifest))" "qe_head (demo_requester answer) i = Inr ()"
  "qc_cid_v1 demo_requester_config = Some" "providerKey (qc_crypto demo_requester_config) key = Inr (base64_decode key)"
  "walkFiles (qc_before demo_requester_config) (EntryDir []) = Inr []"
  "encrypt_payload (qc_crypto demo_requester_config) (qc_maxInputBytes demo_requester_config) sample_random JNull [] = Inr (seal_payload plain_crypto sample_random JNull [])"
  by (simp_all add: demo_requester_def demo_requester_config_def input_owner_def providerKey_def keyObject_def plain_crypto_def walkFiles_def encrypt_payload_def total_bytes_def)

lemma demo_requester_sound:
  "sound_env ''state.json'' (demo_requester answer)" "keeps_entry d (demo_requester answer)" "others_spare demo_requester_config ''state.json'' cid owner (demo_requester answer)"
  "sound_world ''state.json'' demo_requester_world"
  by (simp_all add: sound_env_def keeps_entry_def others_spare_def demo_requester_def sound_world_def demo_requester_world_def pins_ok_def wf_map_def)

lemma demo_names: "canonicalPinCid Some ''bafyTwo'' = Inr ''bafyTwo''" "canonicalPinCid Some ''bafyThree'' = Inr ''bafyThree''"
  "valid_owner ''requester-input:u''" "authorized ''Bearer 0123456789abcdef''"
  by code_simp+

lemma demo_acquire_pin:
  assumes "canonicalPinCid Some cid = Inr cid" and "valid_owner owner" and "is_saved (qw_remote w)"
    and "pw_store (qw_pins w) = saved_store (empty_pins\<lparr>ms_managedPins := ps\<rparr>)" and "jm_get ps cid = None"
  shows "acquire_pin demo_requester_config (demo_requester answer) n (demo_kubo []) cid owner w =
    (Inr cid, w\<lparr>qw_pins := (qw_pins w)\<lparr>pw_store := saved_store (empty_pins\<lparr>ms_managedPins := jm_set cid (demo_registered cid owner) ps\<rparr>),
       pw_calls := pw_calls (qw_pins w) @ [PinLs, PinAdd cid]\<rparr>\<rparr>)"
  using assms(3) demo_acquire [OF assms(1, 2, 4, 5)] demo_meanwhile by (auto simp: is_saved_def acquire_pin_def comp_defs on_pins_def demo_simps)

definition demo_enc :: encrypted_input where
  "demo_enc = \<lparr>ei_inputCid = ''bafyOne'', ei_inputBytes = length (seal_payload plain_crypto sample_random JNull []), ei_inputHash = ''h'',
     ei_inputKeyEnvelope = key_envelope plain_crypto sample_random (base64_decode ''AAAA'') ''n'' ''bafyOne'', ei_sourceBytes = 0, ei_fileCount = 0\<rparr>"

lemma demo_encrypt:
  "\<exists>w1. encryptCapture demo_requester_config (demo_requester answer) ''c'' ''n'' ''AAAA'' demo_requester_world = (Inr demo_enc, w1) \<and>
     rs_nodeId (requester_remote w1) = None"
  using demo_names demo_cids
  by (simp add: comp_defs waits_def demo_simps demo_meanwhile [of _ empty_remote] demo_requester_world_def encryptCapture_def on_pins_def kubo_log_def
      demo_write [where s = empty_remote] prepared_record_def demo_pins_def demo_acquire_pin [where ps = "[]"])
     (simp add: demo_enc_def demo_requester_config_def plain_crypto_def total_bytes_def empty_remote_def)

lemma demo_submission:
  "qw_calls (snd (requestJob demo_requester_config (demo_requester (Inl (PlainError []))) demo_rq demo_requester_world)) =
     [(''Bearer 0123456789abcdef'', CreateRemoteComputeJob ''n'' None ''spatial.reconstruct'' JNull demo_enc)]"
proof -
  let ?c = demo_requester_config and ?env = "demo_requester (Inl (PlainError []))"
  obtain w1 where enc: "encryptCapture ?c ?env ''c'' ''n'' ''AAAA'' demo_requester_world = (Inr demo_enc, w1)" "rs_nodeId (requester_remote w1) = None"
    using demo_encrypt by blast
  have "qw_calls w1 = []" using along_run [OF silence.along_encrypt enc(1)] by (simp add: demo_requester_world_def)
  moreover have "requestJob ?c ?env demo_rq demo_requester_world = submit_input ?c ?env demo_rq ''n'' demo_enc w1"
    using enc requireUserAuthorization_Inr [of "''Bearer 0123456789abcdef''" "()"] demo_names demo_meanwhile [of demo_requester_world empty_remote]
    by (simp add: requestJob_def comp_defs demo_rq_def waits_def demo_simps) (simp add: demo_requester_world_def)
  ultimately show ?thesis
    using wp_snd [OF submit_calls [of ?c ?env demo_rq "''n''" demo_enc w1]] enc(2) by (simp add: demo_rq_def str_or_def)
qed

theorem submitted_input_held_witness:
  "\<exists>cid. canonicalPinCid Some ''bafyOne'' = Inr cid \<and> held ''state.json'' cid ''requester-input:u''
     (qw_pins (snd (requestJob demo_requester_config (demo_requester (Inl (PlainError []))) demo_rq demo_requester_world)))"
  using submitted_input_held [OF prod.collapse [symmetric], of demo_requester_config "demo_requester (Inl (PlainError []))" demo_rq demo_requester_world
      _ "''Bearer 0123456789abcdef''" "''n''" None "''spatial.reconstruct''" JNull demo_enc "''state.json''"] demo_submission demo_requester_sound
  by (simp add: demo_requester_world_def demo_simps) (simp add: demo_enc_def)

theorem input_held_until_ended_witness:
  "held ''state.json'' ''bafyOne'' ''manual:a'' (qw_pins (fold (requester_step demo_requester_config)
     [(demo_requester (Inr (demo_output\<lparr>jo_state := ''RUNNING''\<rparr>)), Cancel ''j'' ''Bearer 0123456789abcdef'')]
     (demo_requester_world\<lparr>qw_pins := demo_pins [(''bafyOne'', demo_record ''manual:a'' Pinned)]\<rparr>)))"
  by (rule input_held_until_ended [THEN conjunct1])
     (simp_all add: demo_requester_sound not_ended_def demo_simps requester_ended_def,
       simp add: held_def demo_record_def jm_has_def wf_map_def)

lemma demo_read: "read_manifest (bytes_of_string (json_stringify demo_manifest)) = Inr demo_manifest"
proof -
  have "wf_json demo_manifest" "demo_manifest \<noteq> JNull" by code_simp+
  then have "parse_json (bytes_of_string (json_stringify demo_manifest)) = Inr demo_manifest" by (rule parse_json_back)
  moreover have "check_manifest demo_manifest = Inr demo_manifest" by code_simp
  ultimately show ?thesis by (simp add: read_manifest_def)
qed

lemma demo_output_simps: "jo_state demo_output = ''COMPLETED''" "jo_outputManifestCid demo_output = Some ''bafyTwo''" "jo_outputCids demo_output = [''bafyTwo'', ''bafyThree'']"
  "list_all (\<lambda>v. declared demo_output (json_field (Some v) ''cid'')) (manifest_variants demo_manifest)" "valid_owner (output_owner demo_output)"
  by code_simp+

lemma demo_retrieval:
  "fst (retrieveRequesterOutput demo_requester_config (demo_requester (Inr demo_output)) ''j'' ''Bearer 0123456789abcdef'' demo_requester_world) =
     Inr (output_record demo_output demo_manifest)"
  using requireUserAuthorization_Inr [of "''Bearer 0123456789abcdef''" "()"] demo_names
  by (simp add: retrieveRequesterOutput_def getRequesterJob_def take_output_def record_output_def pin_output_def backend_def comp_defs waits_def demo_simps
      demo_requester_world_def demo_meanwhile demo_write track_record_def demo_pins_def demo_output_simps ready_states_def demo_read
      demo_acquire_pin)

theorem retrieved_output_declared_witness:
  "output_held ''state.json'' demo_requester_config demo_output ''bafyThree''
     (snd (retrieveRequesterOutput demo_requester_config (demo_requester (Inr demo_output)) ''j'' ''Bearer 0123456789abcdef'' demo_requester_world))"
proof -
  let ?run = "retrieveRequesterOutput demo_requester_config (demo_requester (Inr demo_output)) ''j'' ''Bearer 0123456789abcdef'' demo_requester_world"
  have "?run = (Inr (output_record demo_output demo_manifest), snd ?run)" using demo_retrieval by (metis prod.collapse)
  moreover have "outputs_spared demo_requester_config ''state.json'' (demo_requester (Inr demo_output))"
    by (simp add: outputs_spared_def demo_requester_sound)
  moreover have "keeps_outputs (demo_requester (Inr demo_output))" by (simp add: keeps_outputs_def demo_requester_def)
  ultimately show ?thesis
    using retrieved_output_declared [where c = demo_requester_config and env = "demo_requester (Inr demo_output)" and jobId = "''j''"
        and authorization = "''Bearer 0123456789abcdef''" and w = demo_requester_world and p = "''state.json''"] demo_requester_sound(4)
    by (fastforce simp: demo_simps demo_output_simps)
qed

end
