(* ===== verification/Log_Buffer.thy ===== *)
theory Log_Buffer
  imports Json_Text "HOL-Library.Sublist"
begin

text \<open>
  The log: the redaction of secrets and the buffer behind the graphical interface, \<^verbatim>\<open>src/src/logging/logBuffer.ts\<close>, and the hook that
  hands every record to both sinks, \<^verbatim>\<open>src/src/logging/logger.ts\<close>.

  A regular expression is a match function at one offset; \<open>gsub\<close> is \<^verbatim>\<open>String.replace\<close> with the global flag. A log argument
  is what \<^verbatim>\<open>typeof\<close>, \<^verbatim>\<open>Array.isArray\<close> and \<^verbatim>\<open>Object.entries\<close> show of it, a JSON value: of an error or another object these are its own
  enumerable properties, so that an error without such properties arrives as an empty object.

  \<open>redact_clean\<close>: no string value that passed the redaction still shows a node token, a local credential or a bearer header.
  \<open>log_keeps_no_token\<close> carries this over every sequence of log calls to the values that reach the transport and to the data of the
  buffer; for the messages of the buffer, in which string arguments are joined, it holds for the two kinds of tokens. What it leaves
  out is shown to fail: a header whose parts are two arguments (\<open>joined_header_kept\<close>), and the keys of objects (\<open>key_not_redacted\<close>).
\<close>

section \<open>Redaction of a string\<close>

definition token_char :: "char \<Rightarrow> bool" where
  "token_char c \<longleftrightarrow> is_alnum c \<or> c \<in> set ''._~-''"

text \<open>A match consumes a positive number of characters; it is replaced by a text that may depend on the offset of the match.\<close>

type_synonym matcher = "nat \<Rightarrow> string \<Rightarrow> (nat \<times> string) option"

function gsub :: "matcher \<Rightarrow> nat \<Rightarrow> string \<Rightarrow> string" where
  "gsub m i [] = []"
| "gsub m i (x # s) =
     (case m i (x # s) of
        None \<Rightarrow> x # gsub m (Suc i) s
      | Some (n, r) \<Rightarrow> r @ gsub m (i + max 1 n) (drop (max 1 n) (x # s)))"
  by pat_completeness auto
termination by (relation "measure (\<lambda>(_, _, s). length s)") auto

definition redacted :: string where
  "redacted = ''[redacted]''"

text \<open>\<^verbatim>\<open>/kubus_node_[A-Za-z0-9._~-]+/g\<close> and \<^verbatim>\<open>/kubus_local_[A-Za-z0-9._~-]+/g\<close>\<close>

definition keyword_match :: "string \<Rightarrow> matcher" where
  "keyword_match kw i s =
     (let rest = drop (length kw) s; n = length (takeWhile token_char rest)
      in if starts_with s kw \<and> 0 < n then Some (length kw + n, kw @ redacted) else None)"

definition strip_ci :: "string \<Rightarrow> string \<Rightarrow> string option" where
  "strip_ci kw s = (if to_lower (take (length kw) s) = kw then Some (drop (length kw) s) else None)"

definition strip_char :: "char \<Rightarrow> string \<Rightarrow> string option" where
  "strip_char c s = (case s of [] \<Rightarrow> None | x # r \<Rightarrow> if x = c then Some r else None)"

text \<open>\<^verbatim>\<open>Authorization\s*:\s*Bearer\s+\<close>; the rest of the string, where the token begins.\<close>

definition bearer_rest :: "string \<Rightarrow> string option" where
  "bearer_rest s =
     Option.bind (strip_ci ''authorization'' s) (\<lambda>r1.
     Option.bind (strip_char CHR '':'' (dropWhile is_ws r1)) (\<lambda>r2.
     Option.bind (strip_ci ''bearer'' (dropWhile is_ws r2)) (\<lambda>r3.
       if takeWhile is_ws r3 = [] then None else Some (dropWhile is_ws r3))))"

definition before :: "string \<Rightarrow> string \<Rightarrow> string" where
  "before s rest = take (length s - length rest) s"

text \<open>
  \<^verbatim>\<open>/(Authorization\s*:\s*Bearer\s+)[A-Za-z0-9._~-]+/gi\<close>. The pattern has one group, so the third argument of the callback, which it
  takes for the text after the secret, is the offset of the match.
\<close>

definition bearer_match :: matcher where
  "bearer_match i s =
     (case bearer_rest s of
        None \<Rightarrow> None
      | Some rest \<Rightarrow>
          (let n = length (takeWhile token_char rest)
           in if 0 < n then Some (length (before s rest) + n, before s rest @ redacted @ digits_of i) else None))"

text \<open>\<^verbatim>\<open>[^"]+(")\<close> after a prefix that ends here: the text up to the closing quote, which has to be there.\<close>

definition quoted_body :: "string \<Rightarrow> nat option" where
  "quoted_body rest =
     (let n = length (takeWhile (\<lambda>c. c \<noteq> CHR 0x22) rest) in if 0 < n \<and> n < length rest then Some n else None)"

text \<open>\<^verbatim>\<open>"NAME"\s*:\s*"\<close>\<close>

definition quoted_rest :: "string \<Rightarrow> string \<Rightarrow> string option" where
  "quoted_rest name s =
     Option.bind (strip_char CHR 0x22 s) (\<lambda>r0.
     Option.bind (strip_ci (to_lower name) r0) (\<lambda>r1.
     Option.bind (strip_char CHR 0x22 r1) (\<lambda>r2.
     Option.bind (strip_char CHR '':'' (dropWhile is_ws r2)) (\<lambda>r3. strip_char CHR 0x22 (dropWhile is_ws r3)))))"

definition quoted_replacement :: "string \<Rightarrow> string \<Rightarrow> (nat \<times> string) option" where
  "quoted_replacement s rest =
     (case quoted_body rest of None \<Rightarrow> None | Some n \<Rightarrow> Some (length (before s rest) + n + 1, before s rest @ redacted @ [CHR 0x22]))"

definition quoted_match :: "string \<Rightarrow> matcher" where
  "quoted_match name i s = Option.bind (quoted_rest name s) (quoted_replacement s)"

text \<open>
  \<^verbatim>\<open>/("authorization"\s*:\s*"Bearer\s+)[^"]+(")/gi\<close>: when nothing but white space precedes the closing quote, \<^verbatim>\<open>\s+\<close> gives its last
  character back.
\<close>

definition quoted_bearer_match :: matcher where
  "quoted_bearer_match i s =
     Option.bind (quoted_rest ''authorization'' s) (\<lambda>r1.
     Option.bind (strip_ci ''bearer'' r1) (\<lambda>r2.
       (let ws = takeWhile is_ws r2; rest = dropWhile is_ws r2 in
        if ws = [] then None
        else if quoted_body rest \<noteq> None then quoted_replacement s rest
        else if 2 \<le> length ws then quoted_replacement s (last ws # rest) else None)))"

definition TOKEN_PATTERNS :: "matcher list" where
  "TOKEN_PATTERNS = [keyword_match ''kubus_node_'', keyword_match ''kubus_local_'', bearer_match, quoted_bearer_match,
     quoted_match ''KUBUS_OPERATOR_TOKEN'', quoted_match ''NODE_GUI_TOKEN'']"

definition redact_string :: "string \<Rightarrow> string" where
  "redact_string s = fold (\<lambda>m t. gsub m 0 t) TOKEN_PATTERNS s"

section \<open>Redaction of a value\<close>

definition sensitive_key :: "string \<Rightarrow> bool" where
  "sensitive_key key \<longleftrightarrow>
     (let k = to_lower key in str_includes k ''token'' \<or> str_includes k ''authorization'' \<or> str_includes k ''secret'' \<or> str_includes k ''ticket'' \<or>
        k = ''cookie'' \<or> k = ''set-cookie'' \<or> str_includes k ''privatekey'' \<or> str_includes k ''seed'')"

text \<open>An assignment to \<^verbatim>\<open>__proto__\<close> makes no entry.\<close>

fun redactSecrets :: "json \<Rightarrow> json" and redact_list :: "json list \<Rightarrow> json list" and redact_entries :: "(string \<times> json) list \<Rightarrow> (string \<times> json) list" where
  "redactSecrets (JStr s) = JStr (redact_string s)"
| "redactSecrets (JArr js) = JArr (redact_list js)"
| "redactSecrets (JObj m) = JObj (redact_entries m)"
| "redactSecrets v = v"
| "redact_list [] = []"
| "redact_list (j # js) = redactSecrets j # redact_list js"
| "redact_entries [] = []"
| "redact_entries ((k, v) # m) =
     (if k = ''__proto__'' then redact_entries m else (k, if sensitive_key k then JStr redacted else redactSecrets v) # redact_entries m)"

section \<open>The buffer\<close>

record log_record =
  lr_id :: nat
  lr_at :: int
  lr_level :: string
  lr_message :: string
  lr_data :: "json option"

record log_state =
  ls_records :: "log_record list"
  ls_sequence :: nat
  ls_transport :: "(string \<times> json list) list"

definition MAX_LOGS :: nat where "MAX_LOGS = 500"

definition log_message :: "json list \<Rightarrow> string" where
  "log_message args = trim (join_with '' '' (List.map_filter (\<lambda>v. case v of JStr s \<Rightarrow> Some s | _ \<Rightarrow> None) args))"

definition is_object :: "json \<Rightarrow> bool" where
  "is_object v = (case v of JArr _ \<Rightarrow> True | JObj _ \<Rightarrow> True | _ \<Rightarrow> False)"

definition appendLog :: "int \<Rightarrow> string \<Rightarrow> json list \<Rightarrow> log_state \<Rightarrow> log_state" where
  "appendLog now level args st =
     (let sequence = ls_sequence st + 1;
          rs = ls_records st @ [\<lparr>lr_id = sequence, lr_at = now, lr_level = level, lr_message = str_or (log_message args) level, lr_data = find is_object args\<rparr>]
      in st\<lparr>ls_records := (if length rs > MAX_LOGS then drop (length rs - MAX_LOGS) rs else rs), ls_sequence := sequence\<rparr>)"

definition getBufferedLogs :: "string option \<Rightarrow> log_state \<Rightarrow> log_record list" where
  "getBufferedLogs level st =
     (let normalized = to_lower (trim (opt_str level))
      in rev (if normalized = [] then ls_records st else filter (\<lambda>r. lr_level r = normalized) (ls_records st)))"

definition clearBufferedLogs :: "log_state \<Rightarrow> log_state" where
  "clearBufferedLogs st = st\<lparr>ls_records := []\<rparr>"

definition level_label :: "nat \<Rightarrow> string" where
  "level_label n = (if n = 10 then ''trace'' else if n = 20 then ''debug'' else if n = 30 then ''info'' else if n = 40 then ''warn''
     else if n = 50 then ''error'' else if n = 60 then ''fatal'' else ''info'')"

text \<open>The hook: both sinks receive the same sanitized arguments.\<close>

definition logMethod :: "int \<Rightarrow> nat \<Rightarrow> json list \<Rightarrow> log_state \<Rightarrow> log_state" where
  "logMethod now level args st =
     (let sanitized = redact_list args; st1 = appendLog now (level_label level) sanitized st
      in st1\<lparr>ls_transport := ls_transport st1 @ [(level_label level, sanitized)]\<rparr>)"

datatype log_event = Logged int nat "json list" | Cleared

definition log_step :: "log_event \<Rightarrow> log_state \<Rightarrow> log_state" where
  "log_step ev st = (case ev of Logged now level args \<Rightarrow> logMethod now level args st | Cleared \<Rightarrow> clearBufferedLogs st)"

definition empty_log :: log_state where
  "empty_log = \<lparr>ls_records = [], ls_sequence = 0, ls_transport = []\<rparr>"

section \<open>What a replacement leaves\<close>

text \<open>The pattern still matches somewhere.\<close>

definition exposes :: "matcher \<Rightarrow> string \<Rightarrow> bool" where
  "exposes m t \<longleftrightarrow> list_ex (\<lambda>k. m 0 (drop k t) \<noteq> None) [0..<length t]"

definition word_starts :: "char set" where
  "word_starts = {CHR ''k'', CHR ''a'', CHR ''A''}"

text \<open>Words that no replacement text can complete.\<close>

definition plain_word :: "string \<Rightarrow> bool" where
  "plain_word w \<longleftrightarrow> 8 < length w \<and> CHR ''['' \<notin> set w \<and> CHR '']'' \<notin> set w \<and> hd w \<in> word_starts"

text \<open>A replacement keeps a prefix of the match, without any of the words, and appends a text no word begins in.\<close>

definition tidy :: "string set \<Rightarrow> matcher \<Rightarrow> bool" where
  "tidy W m \<longleftrightarrow> (\<forall>i s n r. m i s = Some (n, r) \<longrightarrow>
     (\<exists>p q. r = p @ redacted @ q \<and> prefix p s \<and> set q \<inter> word_starts = {} \<and> (\<forall>w \<in> W. \<not> sublist w p)))"

lemma tidy_weaken: "tidy W m \<Longrightarrow> tidy {} m"
  by (fastforce simp: tidy_def)

lemma tidyD:
  assumes "tidy W m" and "m i s = Some (n, r)"
  obtains p q where "r = p @ redacted @ q" and "prefix p s" and "set q \<inter> word_starts = {}" and "\<And>w. w \<in> W \<Longrightarrow> \<not> sublist w p"
  using assms(1) [unfolded tidy_def, rule_format, OF assms(2)] by (elim exE conjE) (rule that; blast)

lemma redacted_bracket: "b \<noteq> [] \<Longrightarrow> prefix b (redacted @ x) \<Longrightarrow> CHR ''['' \<in> set b" "a \<noteq> [] \<Longrightarrow> suffix a redacted \<Longrightarrow> CHR '']'' \<in> set a"
proof -
  show "b \<noteq> [] \<Longrightarrow> prefix b (redacted @ x) \<Longrightarrow> CHR ''['' \<in> set b" by (cases b) (auto simp: redacted_def)
  assume "a \<noteq> []" "suffix a redacted"
  then obtain u where "redacted = u @ a" by (auto simp: suffix_def)
  then have "last redacted = last a" using \<open>a \<noteq> []\<close> by (metis last_appendR)
  then show "CHR '']'' \<in> set a" using last_in_set [OF \<open>a \<noteq> []\<close>] by (simp add: redacted_def)
qed

lemma prefix_before_bracket:
  assumes "CHR ''['' \<notin> set w" and "prefix w (p @ redacted @ x)"
  shows "prefix w p"
  using assms(2)
proof (rule prefix_append [THEN iffD1, THEN disjE])
  assume "\<exists>us. w = p @ us \<and> prefix us (redacted @ x)"
  then show ?thesis using redacted_bracket(1) assms(1) by fastforce
qed

lemma gsub_prefix:
  assumes "tidy W m" and "CHR ''['' \<notin> set w" and "prefix w (gsub m i s)"
  shows "prefix w s"
  using assms
proof (induction m i s arbitrary: w rule: gsub.induct)
  case (2 m i x s)
  show ?case
  proof (cases "m i (x # s)")
    case None
    then show ?thesis using "2.IH"(1) [OF None] "2.prems" by (cases w) auto
  next
    case (Some nr)
    obtain n r where nr: "nr = (n, r)" by (cases nr)
    obtain p q where "r = p @ redacted @ q" "prefix p (x # s)" by (rule tidyD [OF "2.prems"(1) Some [unfolded nr]])
    then show ?thesis using prefix_before_bracket [OF "2.prems"(2), of p] "2.prems"(3) Some nr prefix_order.trans by fastforce
  qed
qed simp

lemma sublist_crossing:
  assumes "sublist w (xs @ ys)"
  obtains "sublist w xs" | "sublist w ys" | a b where "w = a @ b" and "a \<noteq> []" and "b \<noteq> []" and "suffix a xs" and "prefix b ys"
proof -
  consider "sublist w xs" | "sublist w ys" | a b where "w = a @ b" "suffix a xs" "prefix b ys"
    using assms by (auto simp: sublist_append)
  then show thesis
  proof cases
    case (3 a b)
    then show thesis using that suffix_imp_sublist prefix_imp_sublist by (cases "a = []"; cases "b = []") auto
  qed (use that in auto)
qed

text \<open>A word in the text around a replacement is before it or after it.\<close>

lemma sublist_around:
  assumes w: "plain_word w" and q: "set q \<inter> word_starts = {}" and s: "sublist w (p @ redacted @ q @ t)"
  shows "sublist w p \<or> sublist w t"
proof -
  have no: "w \<noteq> []" "CHR ''['' \<notin> set w" "CHR '']'' \<notin> set w" "hd w \<notin> set q"
    using w q unfolding plain_word_def by (fastforce, blast, blast, blast)
  have short: "\<not> sublist w redacted"
  proof
    assume "sublist w redacted"
    then obtain u v where uv: "redacted = u @ w @ v" by (auto simp: sublist_def)
    have "length redacted = length u + (length w + length v)" by (simp add: uv)
    moreover have "length redacted = 10" by (simp add: redacted_def)
    ultimately have "length u + length v < 2" using w by (simp add: plain_word_def)
    then have "u = [] \<or> v = []" by (cases u; cases v) auto
    then show False
      using redacted_bracket(1) [of w "[]"] redacted_bracket(2) [of w] uv no prefixI [of redacted w v] suffixI [of redacted u w] by auto
  qed
  have not_q: False if "a \<noteq> []" "prefix a w" "set a \<subseteq> set q" for a
    using that no(1, 4) by (cases a; cases w) auto
  have tail: "\<not> sublist w (redacted @ q)"
  proof
    assume "sublist w (redacted @ q)"
    then show False
    proof (cases rule: sublist_crossing)
      case 2
      then show False using not_q [of w] no(1) set_mono_sublist by blast
    qed (use short no redacted_bracket(2) in auto)
  qed
  have rest: "sublist w t" if "sublist w ((redacted @ q) @ t)"
    using that
  proof (cases rule: sublist_crossing)
    case (3 a b)
    from \<open>suffix a (redacted @ q)\<close> consider "suffix a q" | a' where "a = a' @ q" "suffix a' redacted" by (auto simp: suffix_append)
    then show ?thesis
    proof cases
      case 1
      then show ?thesis using not_q [of a] 3 set_mono_suffix by auto
    next
      case 2
      then show ?thesis using not_q [of a] 3 no redacted_bracket(2) [of a'] by (cases "a' = []") auto
    qed
  qed (use tail in auto)
  from s show ?thesis
  proof (cases rule: sublist_crossing)
    case (3 a b)
    then show ?thesis using redacted_bracket(1) [of b "q @ t"] no by auto
  qed (use rest in auto)
qed

lemma gsub_no_new:
  assumes "tidy W m" and "plain_word w" and "sublist w (gsub m i s)"
  shows "sublist w s"
  using assms
proof (induction m i s rule: gsub.induct)
  case (2 m i x s)
  have w: "CHR ''['' \<notin> set w" using "2.prems"(2) by (simp add: plain_word_def)
  show ?case
  proof (cases "m i (x # s)")
    case None
    then have "prefix w (gsub m i (x # s)) \<or> sublist w (gsub m (Suc i) s)" using "2.prems"(3) by (simp add: sublist_Cons_right)
    then show ?thesis
      using gsub_prefix [OF "2.prems"(1) w, of i "x # s"] "2.IH"(1) [OF None "2.prems"(1, 2)] by (auto simp: sublist_Cons_right)
  next
    case (Some nr)
    obtain n r where nr: "nr = (n, r)" by (cases nr)
    obtain p q where pq: "r = p @ redacted @ q" "prefix p (x # s)" "set q \<inter> word_starts = {}"
      by (rule tidyD [OF "2.prems"(1) Some [unfolded nr]])
    let ?rest = "drop (max 1 n) (x # s)"
    have "sublist w p \<or> sublist w (gsub m (i + max 1 n) ?rest)"
      using sublist_around [OF "2.prems"(2) pq(3)] "2.prems"(3) Some nr pq(1) by simp
    moreover have "sublist ?rest (x # s)" by (simp only: sublist_drop)
    ultimately show ?thesis
      using "2.IH"(2) [OF Some nr [symmetric] "2.prems"(1, 2)] pq(2) prefix_imp_sublist sublist_order.order.trans by blast
  qed
qed simp

lemma gsub_removes:
  assumes "tidy W m" and "w \<in> W" and "plain_word w" and "\<And>i s. prefix w s \<Longrightarrow> m i s \<noteq> None"
  shows "\<not> sublist w (gsub m i s)"
  using assms
proof (induction m i s rule: gsub.induct)
  case (1 m i)
  then show ?case by (auto simp: plain_word_def)
next
  case (2 m i x s)
  have w: "CHR ''['' \<notin> set w" using "2.prems"(3) by (simp add: plain_word_def)
  show ?case
  proof (cases "m i (x # s)")
    case None
    then have "\<not> prefix w (gsub m i (x # s))" using gsub_prefix [OF "2.prems"(1) w, of i "x # s"] "2.prems"(4) by blast
    then show ?thesis using "2.IH"(1) [OF None "2.prems"] None by (simp add: sublist_Cons_right)
  next
    case (Some nr)
    obtain n r where nr: "nr = (n, r)" by (cases nr)
    obtain p q where pq: "r = p @ redacted @ q" "set q \<inter> word_starts = {}" "\<not> sublist w p"
      using tidyD [OF "2.prems"(1) Some [unfolded nr]] "2.prems"(2) by metis
    show ?thesis
      using sublist_around [OF "2.prems"(3) pq(2)] "2.IH"(2) [OF Some nr [symmetric] "2.prems"] Some nr pq by auto
  qed
qed

section \<open>The patterns\<close>

definition keyword_words :: "string \<Rightarrow> string set" where
  "keyword_words kw = {kw @ [c] |c. token_char c}"

lemma keyword_hit: "keyword_match kw i s \<noteq> None \<longleftrightarrow> (\<exists>w \<in> keyword_words kw. prefix w s)"
proof -
  have "starts_with s kw \<and> takeWhile token_char (drop (length kw) s) \<noteq> [] \<longleftrightarrow> (\<exists>c. token_char c \<and> prefix (kw @ [c]) s)"
  proof
    assume *: "starts_with s kw \<and> takeWhile token_char (drop (length kw) s) \<noteq> []"
    then obtain t where t: "s = kw @ t" by (auto simp: starts_with_iff)
    then show "\<exists>c. token_char c \<and> prefix (kw @ [c]) s" using * by (cases t) (auto simp: prefix_def split: if_splits)
  qed (auto simp: prefix_def starts_with_iff)
  then show ?thesis by (auto simp: keyword_match_def keyword_words_def Let_def)
qed

lemma keyword_tidy: "tidy (keyword_words kw) (keyword_match kw)"
proof -
  have "\<not> sublist w kw" if "w \<in> keyword_words kw" for w using that sublist_length_le by (fastforce simp: keyword_words_def)
  then show ?thesis
    unfolding tidy_def
    by (intro allI impI exI [of _ kw] exI [of _ "[]"]) (auto simp: keyword_match_def Let_def starts_with_iff split: if_splits)
qed

lemma token_not_ws: "token_char c \<Longrightarrow> \<not> is_ws c"
  by (auto simp: token_char_def is_ws_def is_alnum_def is_digit_def is_upper_def is_lower_def char_code_def)

lemma lower_not_ws: "char_lower c = d \<Longrightarrow> \<not> is_ws d \<Longrightarrow> \<not> is_ws c"
  by (auto simp: char_lower_def is_ws_def is_upper_def split: if_splits)

lemma strip_ci_iff: "strip_ci kw s = Some r \<longleftrightarrow> (\<exists>a. to_lower a = kw \<and> s = a @ r)"
proof
  assume "strip_ci kw s = Some r"
  then have "to_lower (take (length kw) s) = kw" "s = take (length kw) s @ r" by (auto simp: strip_ci_def split: if_splits)
  then show "\<exists>a. to_lower a = kw \<and> s = a @ r" by blast
next
  assume "\<exists>a. to_lower a = kw \<and> s = a @ r"
  then obtain a where "to_lower a = kw" "s = a @ r" by blast
  moreover from this(1) have "length a = length kw" by auto
  ultimately show "strip_ci kw s = Some r" by (simp add: strip_ci_def)
qed

lemma strip_char_iff: "strip_char c s = Some r \<longleftrightarrow> s = c # r"
  by (auto simp: strip_char_def split: list.splits)

lemma ws_split: "\<exists>w. list_all is_ws w \<and> s = w @ dropWhile is_ws s" "takeWhile is_ws s \<noteq> [] \<Longrightarrow> \<exists>w. w \<noteq> [] \<and> list_all is_ws w \<and> s = w @ dropWhile is_ws s"
proof -
  have "list_all is_ws (takeWhile is_ws s)" "s = takeWhile is_ws s @ dropWhile is_ws s" by (auto simp: list_all_iff dest: set_takeWhileD)
  then show "\<exists>w. list_all is_ws w \<and> s = w @ dropWhile is_ws s" "takeWhile is_ws s \<noteq> [] \<Longrightarrow> \<exists>w. w \<noteq> [] \<and> list_all is_ws w \<and> s = w @ dropWhile is_ws s" by blast+
qed

lemma drop_ws: "list_all is_ws w \<Longrightarrow> \<not> is_ws c \<Longrightarrow> dropWhile is_ws (w @ c # t) = c # t"
  by (simp add: dropWhile_append2 list_all_iff)

text \<open>The head of a bearer credential: what \<^verbatim>\<open>Authorization\s*:\s*Bearer\s+\<close> matches.\<close>

definition bearer_head :: "string \<Rightarrow> bool" where
  "bearer_head p \<longleftrightarrow> (\<exists>a w1 w2 b w3. p = a @ w1 @ '':'' @ w2 @ b @ w3 \<and> to_lower a = ''authorization'' \<and> to_lower b = ''bearer'' \<and>
     list_all is_ws (w1 @ w2 @ w3) \<and> w3 \<noteq> [])"

lemma lower_heads: "to_lower b = ''bearer'' \<Longrightarrow> \<exists>x t. b = x # t \<and> \<not> is_ws x" "\<not> is_ws CHR '':''"
proof -
  show "\<not> is_ws CHR '':''" by code_simp
  assume "to_lower b = ''bearer''"
  then obtain x t where "b = x # t" "char_lower x = CHR ''b''" by (cases b) (auto simp: to_lower_def)
  moreover have "\<not> is_ws CHR ''b''" by code_simp
  ultimately show "\<exists>x t. b = x # t \<and> \<not> is_ws x" using lower_not_ws by blast
qed

lemma bearer_rest_head:
  assumes "bearer_rest s = Some rest"
  shows "\<exists>p. bearer_head p \<and> s = p @ rest"
proof -
  obtain r1 r2 r3 where r: "strip_ci ''authorization'' s = Some r1" "strip_char CHR '':'' (dropWhile is_ws r1) = Some r2"
    "strip_ci ''bearer'' (dropWhile is_ws r2) = Some r3" "takeWhile is_ws r3 \<noteq> []" "rest = dropWhile is_ws r3"
    using assms by (auto simp: bearer_rest_def split: bind_splits if_splits)
  obtain a where a: "to_lower a = ''authorization''" "s = a @ r1" using r(1) strip_ci_iff by blast
  obtain w1 where w1: "list_all is_ws w1" "r1 = w1 @ CHR '':'' # r2"
    using ws_split(1) [of r1] unfolding r(2) [unfolded strip_char_iff] by blast
  obtain b where b0: "to_lower b = ''bearer''" "dropWhile is_ws r2 = b @ r3" using r(3) [unfolded strip_ci_iff] by blast
  obtain w2 where b: "to_lower b = ''bearer''" "list_all is_ws w2" "r2 = w2 @ b @ r3"
    using ws_split(1) [of r2] b0(1) unfolding b0(2) by blast
  obtain w3 where w3: "list_all is_ws w3" "w3 \<noteq> []" "r3 = w3 @ rest" using r(4, 5) ws_split(2) [of r3] by blast
  have "bearer_head (a @ w1 @ '':'' @ w2 @ b @ w3)"
    unfolding bearer_head_def by (intro exI conjI, rule refl) (use a w1 b w3 in simp_all)
  then show ?thesis using a w1 b w3 by (intro exI [of _ "a @ w1 @ '':'' @ w2 @ b @ w3"]) simp
qed

lemma bearer_head_rest:
  assumes "bearer_head p" and "\<not> is_ws c"
  shows "bearer_rest (p @ c # t) = Some (c # t)"
proof -
  obtain a w1 w2 b w3 where p: "p = a @ w1 @ '':'' @ w2 @ b @ w3" "to_lower a = ''authorization''" "to_lower b = ''bearer''"
    "list_all is_ws w1" "list_all is_ws w2" "list_all is_ws w3" "w3 \<noteq> []"
    using assms(1) by (auto simp: bearer_head_def)
  obtain x b' where b: "b = x # b'" "\<not> is_ws x" using lower_heads(1) p(3) by blast
  have 1: "strip_ci ''authorization'' (p @ c # t) = Some (w1 @ CHR '':'' # (w2 @ b @ w3 @ c # t))" using p strip_ci_iff by fastforce
  have 2: "dropWhile is_ws (w1 @ CHR '':'' # (w2 @ b @ w3 @ c # t)) = CHR '':'' # (w2 @ b @ w3 @ c # t)" by (rule drop_ws [OF p(4) lower_heads(2)])
  have 3: "dropWhile is_ws (w2 @ b @ w3 @ c # t) = b @ w3 @ c # t" using drop_ws [OF p(5) b(2)] b(1) by simp
  have 4: "strip_ci ''bearer'' (b @ w3 @ c # t) = Some (w3 @ c # t)" using p(3) strip_ci_iff by blast
  have 5: "dropWhile is_ws (w3 @ c # t) = c # t" by (rule drop_ws [OF p(6) assms(2)])
  have 6: "takeWhile is_ws (w3 @ c # t) \<noteq> []" using p(6, 7) by (cases w3) auto
  show ?thesis unfolding bearer_rest_def using 1 2 3 4 5 6 by (simp add: strip_char_def)
qed

definition bearer_words :: "string set" where
  "bearer_words = {p @ [c] |p c. bearer_head p \<and> token_char c}"

lemma bearer_hit: "bearer_match i s \<noteq> None \<longleftrightarrow> (\<exists>w \<in> bearer_words. prefix w s)"
proof
  assume "bearer_match i s \<noteq> None"
  then obtain rest where rest: "bearer_rest s = Some rest" "takeWhile token_char rest \<noteq> []"
    by (auto simp: bearer_match_def Let_def split: option.splits if_splits)
  then obtain c t where c: "rest = c # t" "token_char c" by (cases rest) (auto split: if_splits)
  obtain p where "bearer_head p" "s = p @ c # t" using bearer_rest_head [OF rest(1)] c by blast
  then have "p @ [c] \<in> bearer_words" "prefix (p @ [c]) s" using c(2) by (auto simp: bearer_words_def)
  then show "\<exists>w \<in> bearer_words. prefix w s" by blast
next
  assume "\<exists>w \<in> bearer_words. prefix w s"
  then obtain p c t where "bearer_head p" "token_char c" "s = p @ c # t" by (auto simp: bearer_words_def prefix_def)
  then show "bearer_match i s \<noteq> None" using bearer_head_rest token_not_ws by (simp add: bearer_match_def Let_def)
qed

lemma lower_chars: "x \<in> set a \<Longrightarrow> char_lower x \<in> set (to_lower a)"
  by (simp add: to_lower_def)

lemma bracket_chars:
  "char_lower CHR ''['' = CHR ''[''" "char_lower CHR '']'' = CHR '']''" "char_lower CHR '':'' = CHR '':''"
  "\<not> is_ws CHR ''[''" "\<not> is_ws CHR '']''" "\<not> token_char CHR ''[''" "\<not> token_char CHR '']''" "\<not> is_digit CHR ''k''" "\<not> is_digit CHR ''a''" "\<not> is_digit CHR ''A''"
  by code_simp+

lemma head_letters:
  assumes "to_lower a \<in> {''authorization'', ''bearer''}"
  shows "CHR '':'' \<notin> set a" "CHR ''['' \<notin> set a" "CHR '']'' \<notin> set a"
  using assms lower_chars [of "CHR '':''" a] lower_chars [of "CHR ''[''" a] lower_chars [of "CHR '']''" a] by (auto simp: bracket_chars)

lemma lower_a:
  assumes "char_lower x = CHR ''a''"
  shows "x = CHR ''a'' \<or> x = CHR ''A''"
proof (cases "is_upper x")
  case True
  then have "(of_char (char_of (char_code x + 32) :: char) :: nat) = of_char CHR ''a''" using assms by (simp add: char_lower_def)
  then have "char_code x = 65" using True by (simp add: is_upper_def)
  then have "(of_char x :: nat) = of_char CHR ''A''" by (simp add: char_code_def)
  then have "x = CHR ''A''" by (simp only: of_char_eq_iff)
  then show ?thesis by simp
qed (use assms in \<open>simp add: char_lower_def\<close>)

lemma bearer_words_plain:
  assumes "w \<in> bearer_words"
  shows "plain_word w"
proof -
  obtain a w1 w2 b w3 c where w: "w = (a @ w1 @ '':'' @ w2 @ b @ w3) @ [c]" "to_lower a = ''authorization''" "to_lower b = ''bearer''"
    "list_all is_ws (w1 @ w2 @ w3)" "token_char c"
    using assms by (auto simp: bearer_words_def bearer_head_def)
  have "length a = 13" using arg_cong [OF w(2), of length] by simp
  moreover obtain x t where "a = x # t" "char_lower x = CHR ''a''" using w(2) by (cases a) (auto simp: to_lower_def)
  moreover have "CHR ''['' \<notin> set (w1 @ w2 @ w3)" "CHR '']'' \<notin> set (w1 @ w2 @ w3)" using w(4) bracket_chars by (auto simp: list_all_iff)
  ultimately show ?thesis
    using w head_letters [of a] head_letters [of b] bracket_chars lower_a [of x] by (auto simp: plain_word_def word_starts_def)
qed

lemma after_colon:
  assumes "CHR '':'' \<notin> set u"
  shows "tl (dropWhile (\<lambda>c. c \<noteq> CHR '':'') (u @ CHR '':'' # t)) = t"
  using assms by (subst dropWhile_append2) auto

lemma head_no_word:
  assumes "bearer_head p" and "w \<in> bearer_words"
  shows "\<not> sublist w p"
proof
  assume "sublist w p"
  obtain a w1 w2 b w3 where p: "p = (a @ w1) @ CHR '':'' # (w2 @ b @ w3)" "to_lower a = ''authorization''" "to_lower b = ''bearer''" "list_all is_ws (w1 @ w2 @ w3)"
    using assms(1) by (auto simp: bearer_head_def)
  obtain a' w1' w2' b' w3' c where w: "w = (a' @ w1') @ CHR '':'' # (w2' @ b' @ w3' @ [c])" "to_lower a' = ''authorization''" "to_lower b' = ''bearer''"
    "list_all is_ws (w1' @ w2' @ w3')" "token_char c"
    using assms(2) by (auto simp: bearer_words_def bearer_head_def)
  obtain u v where uv: "p = u @ w @ v" using \<open>sublist w p\<close> by (auto simp: sublist_def)
  have ws: "CHR '':'' \<notin> set x" if "list_all is_ws x" for x using that lower_heads(2) by (auto simp: list_all_iff)
  have clean: "CHR '':'' \<notin> set (a @ w1)" "CHR '':'' \<notin> set (w2 @ b @ w3)" using p head_letters [of a] head_letters [of b] ws by simp_all
  have "CHR '':'' \<notin> set u"
  proof
    assume "CHR '':'' \<in> set u"
    then obtain u1 u2 where u: "u = u1 @ CHR '':'' # u2" "CHR '':'' \<notin> set u1" using split_list_first by metis
    then have "tl (dropWhile (\<lambda>c. c \<noteq> CHR '':'') p) = u2 @ w @ v" using uv after_colon [OF u(2)] by simp
    then have "w2 @ b @ w3 = u2 @ w @ v" using after_colon [OF clean(1)] p(1) by simp
    then show False using clean(2) w(1) by (metis UnCI in_set_conv_decomp set_append)
  qed
  moreover have "CHR '':'' \<notin> set (a' @ w1')" using w head_letters [of a'] ws by simp
  ultimately have "tl (dropWhile (\<lambda>c. c \<noteq> CHR '':'') p) = (w2' @ b' @ w3' @ [c]) @ v"
    using after_colon [of "u @ a' @ w1'"] uv w(1) by simp
  then have eq: "w2 @ b @ w3 = w2' @ b' @ w3' @ c # v" using after_colon [OF clean(1)] p(1) by simp
  obtain x t x' t' where b: "b = x # t" "\<not> is_ws x" "b' = x' # t'" "\<not> is_ws x'" using lower_heads(1) p(3) w(3) by metis
  have "b @ w3 = b' @ w3' @ c # v"
    using arg_cong [OF eq, of "dropWhile is_ws"] drop_ws [of w2 x "t @ w3"] drop_ws [of w2' x' "t' @ w3' @ c # v"] p(4) w(4) b by simp
  moreover have "length b = length b'" using arg_cong [OF p(3), of length] arg_cong [OF w(3), of length] by simp
  ultimately have "w3 = w3' @ c # v" by simp
  then show False using p(4) w(5) token_not_ws by (auto simp: list_all_iff)
qed

lemma bearer_tidy: "tidy bearer_words bearer_match"
  unfolding tidy_def
proof (intro allI impI)
  fix i s n r
  assume "bearer_match i s = Some (n, r)"
  then obtain rest where rest: "bearer_rest s = Some rest" "r = before s rest @ redacted @ digits_of i"
    by (auto simp: bearer_match_def Let_def split: option.splits if_splits)
  obtain p where p: "bearer_head p" "s = p @ rest" using bearer_rest_head [OF rest(1)] by blast
  have "before s rest = p" by (simp add: before_def p(2))
  moreover have "set (digits_of i) \<inter> word_starts = {}" using digits_of_all [of i] bracket_chars by (auto simp: word_starts_def)
  ultimately show "\<exists>p q. r = p @ redacted @ q \<and> prefix p s \<and> set q \<inter> word_starts = {} \<and> (\<forall>w \<in> bearer_words. \<not> sublist w p)"
    using rest(2) p head_no_word by (intro exI [of _ p] exI [of _ "digits_of i"]) auto
qed

lemma quoted_tidy: "tidy {} (quoted_match name)" "tidy {} quoted_bearer_match"
proof -
  have r: "\<exists>p q. r = p @ redacted @ q \<and> prefix p s \<and> set q \<inter> word_starts = {}" if "quoted_replacement s rest = Some (n, r)" for s rest n r
    using that by (intro exI [of _ "before s rest"] exI [of _ "[CHR 0x22]"]) (auto simp: quoted_replacement_def before_def take_is_prefix word_starts_def split: option.splits)
  show "tidy {} (quoted_match name)" "tidy {} quoted_bearer_match"
    using r by (fastforce simp: tidy_def quoted_match_def quoted_bearer_match_def Let_def split: bind_splits if_splits)+
qed

lemma keyword_words_plain: "kw \<in> {''kubus_node_'', ''kubus_local_''} \<Longrightarrow> w \<in> keyword_words kw \<Longrightarrow> plain_word w"
  using bracket_chars(6, 7) by (auto simp: keyword_words_def plain_word_def word_starts_def)

text \<open>A pattern and the words it stands for.\<close>

definition guards :: "string set \<Rightarrow> matcher \<Rightarrow> bool" where
  "guards W m \<longleftrightarrow> tidy W m \<and> (\<forall>w \<in> W. plain_word w) \<and> (\<forall>i s. m i s \<noteq> None \<longleftrightarrow> (\<exists>w \<in> W. prefix w s))"

lemma guards_patterns:
  "guards (keyword_words ''kubus_node_'') (keyword_match ''kubus_node_'')" "guards (keyword_words ''kubus_local_'') (keyword_match ''kubus_local_'')"
  "guards bearer_words bearer_match"
  unfolding guards_def using keyword_tidy keyword_hit keyword_words_plain bearer_tidy bearer_hit bearer_words_plain by blast+

lemma exposes_word:
  assumes "guards W m" and "exposes m t"
  shows "\<exists>w \<in> W. sublist w t"
proof -
  obtain k where "m 0 (drop k t) \<noteq> None" using assms(2) by (auto simp: exposes_def list_ex_iff)
  then obtain w where "w \<in> W" "prefix w (drop k t)" using assms(1) by (auto simp: guards_def)
  then show ?thesis using prefix_imp_sublist sublist_drop sublist_order.order.trans by blast
qed

text \<open>Once a pattern is replaced, the patterns after it leave nothing for it to match.\<close>

lemma removed_stays:
  assumes "guards W m" and "\<forall>m' \<in> set ms. tidy {} m'"
  shows "\<not> exposes m (fold (\<lambda>m t. gsub m 0 t) (m # ms) s)"
proof -
  have "\<not> sublist w (fold (\<lambda>m t. gsub m 0 t) ms t)" if "\<not> sublist w t" "plain_word w" for w t
    using that(1) assms(2)
  proof (induction ms arbitrary: t)
    case (Cons m' ms)
    then have "\<not> sublist w (gsub m' 0 t)" using gsub_no_new [of "{}" m' w 0 t] that(2) by fastforce
    then show ?case using Cons by simp
  qed simp
  moreover have "\<not> sublist w (gsub m 0 s)" "plain_word w" if "w \<in> W" for w
    using gsub_removes [of W m w 0 s] assms(1) that unfolding guards_def by blast+
  ultimately show ?thesis using exposes_word [OF assms(1)] unfolding fold_simps by blast
qed

lemma redact_string_removes:
  assumes "guards W m" and "TOKEN_PATTERNS = pre @ m # ms"
  shows "\<not> exposes m (redact_string s)"
proof -
  have "\<forall>m \<in> set TOKEN_PATTERNS. tidy {} m"
    using quoted_tidy tidy_weaken [OF keyword_tidy] tidy_weaken [OF bearer_tidy] by (auto simp: TOKEN_PATTERNS_def)
  then have "\<forall>m' \<in> set ms. tidy {} m'" by (simp add: assms(2))
  from removed_stays [OF assms(1) this] show ?thesis by (simp add: redact_string_def assms(2))
qed

definition credential_patterns :: "matcher list" where
  "credential_patterns = [keyword_match ''kubus_node_'', keyword_match ''kubus_local_'', bearer_match]"

lemma redact_string_clean: "list_all (\<lambda>m. \<not> exposes m (redact_string s)) credential_patterns"
proof -
  have "TOKEN_PATTERNS = [] @ keyword_match ''kubus_node_'' # drop 1 TOKEN_PATTERNS" "TOKEN_PATTERNS = take 1 TOKEN_PATTERNS @ keyword_match ''kubus_local_'' # drop 2 TOKEN_PATTERNS"
    "TOKEN_PATTERNS = take 2 TOKEN_PATTERNS @ bearer_match # drop 3 TOKEN_PATTERNS" by (simp_all add: TOKEN_PATTERNS_def)
  from redact_string_removes [OF guards_patterns(1) this(1)] redact_string_removes [OF guards_patterns(2) this(2)] redact_string_removes [OF guards_patterns(3) this(3)]
  show ?thesis by (simp add: credential_patterns_def)
qed

section \<open>Values and records\<close>

text \<open>The strings of a value, its keys apart.\<close>

fun json_strings :: "json \<Rightarrow> string list" and strings_of_list :: "json list \<Rightarrow> string list" and strings_of_entries :: "(string \<times> json) list \<Rightarrow> string list" where
  "json_strings (JStr s) = [s]"
| "json_strings (JArr js) = strings_of_list js"
| "json_strings (JObj m) = strings_of_entries m"
| "json_strings v = []"
| "strings_of_list [] = []"
| "strings_of_list (j # js) = json_strings j @ strings_of_list js"
| "strings_of_entries [] = []"
| "strings_of_entries ((k, v) # m) = json_strings v @ strings_of_entries m"

definition clean :: "string \<Rightarrow> bool" where
  "clean s \<longleftrightarrow> list_all (\<lambda>m. \<not> exposes m s) credential_patterns"

lemma clean_redacted: "clean redacted" "clean (redact_string s)"
  using redact_string_clean by (code_simp, simp add: clean_def)

lemma redact_clean:
  "list_all clean (json_strings (redactSecrets v))"
  "list_all clean (strings_of_list (redact_list js))"
  "list_all clean (strings_of_entries (redact_entries m))"
  by (induction v and js and m rule: redactSecrets_redact_list_redact_entries.induct) (auto simp: clean_redacted)

lemma exposes_iff:
  assumes "guards W m"
  shows "exposes m t \<longleftrightarrow> (\<exists>w \<in> W. sublist w t)"
proof
  assume "\<exists>w \<in> W. sublist w t"
  then obtain w u v where w: "w \<in> W" "t = u @ w @ v" by (auto simp: sublist_def)
  have "prefix w (drop (length u) t)" by (simp add: w(2))
  then have "m 0 (drop (length u) t) \<noteq> None" using assms w(1) unfolding guards_def by blast
  moreover have "length u < length t" using assms w unfolding guards_def plain_word_def by fastforce
  ultimately show "exposes m t" by (auto simp: exposes_def list_ex_iff intro!: bexI [of _ "length u"])
qed (rule exposes_word [OF assms])

definition token_free :: "string \<Rightarrow> bool" where
  "token_free s \<longleftrightarrow> \<not> exposes (keyword_match ''kubus_node_'') s \<and> \<not> exposes (keyword_match ''kubus_local_'') s"

lemma token_free_iff: "token_free s \<longleftrightarrow> (\<forall>w \<in> keyword_words ''kubus_node_'' \<union> keyword_words ''kubus_local_''. \<not> sublist w s)"
  by (auto simp: token_free_def exposes_iff [OF guards_patterns(1)] exposes_iff [OF guards_patterns(2)])

lemma clean_token_free: "clean s \<Longrightarrow> token_free s"
  by (simp add: clean_def credential_patterns_def token_free_def)

text \<open>Neither a space between two strings nor the removal of white space at the ends makes a token.\<close>

lemma sublist_separated:
  assumes "sublist w (a @ c # b)" and "c \<notin> set w"
  shows "sublist w a \<or> sublist w b"
  using assms(1)
proof (cases rule: sublist_crossing)
  case 2
  then have "prefix w (c # b) \<or> sublist w b" by (simp add: sublist_Cons_right)
  then show ?thesis using assms(2) by (cases w) auto
next
  case (3 u v)
  then show ?thesis using assms(2) by (cases v) auto
qed auto

lemma sublist_join:
  assumes "sublist w (join_with '' '' ss)" and "w \<noteq> []" and "CHR '' '' \<notin> set w"
  shows "\<exists>s \<in> set ss. sublist w s"
  using assms(1)
proof (induction ss rule: induct_list012)
  case (3 a b ss)
  then show ?case using sublist_separated [of w a "CHR '' ''" "join_with '' '' (b # ss)"] assms(3) by auto
qed (use assms(2) in auto)

lemma sublist_trim: "sublist (trim s) s"
proof -
  have "suffix (dropWhile is_ws s) s" for s by (rule suffix_dropWhile)
  then have "prefix (trim s) (dropWhile is_ws s)" unfolding trim_def by (metis suffix_to_prefix rev_rev_ident)
  then show ?thesis using suffix_dropWhile prefix_imp_sublist suffix_imp_sublist sublist_order.order.trans by blast
qed

lemma message_token_free:
  assumes "list_all clean (strings_of_list args)"
  shows "token_free (log_message args)"
proof -
  let ?ss = "List.map_filter (\<lambda>v. case v of JStr s \<Rightarrow> Some s | _ \<Rightarrow> None) args"
  have parts: "token_free s" if "s \<in> set ?ss" for s
    using that assms clean_token_free by (induction args) (auto simp: map_filter_simps split: json.splits)
  show ?thesis
  proof (rule ccontr)
    assume "\<not> token_free (log_message args)"
    then obtain w where w: "w \<in> keyword_words ''kubus_node_'' \<union> keyword_words ''kubus_local_''" "sublist w (log_message args)" by (auto simp: token_free_iff)
    have "sublist w (join_with '' '' ?ss)" using w(2) sublist_trim sublist_order.order.trans unfolding log_message_def by blast
    moreover have "w \<noteq> []" "CHR '' '' \<notin> set w" using w(1) by (auto simp: keyword_words_def) (code_simp, code_simp)
    ultimately show False using sublist_join parts w(1) by (auto simp: token_free_iff)
  qed
qed

lemma label_token_free: "token_free (level_label n)"
proof -
  have "token_free l" if "l \<in> set [''trace'', ''debug'', ''info'', ''warn'', ''error'', ''fatal'']" for l using that by auto (code_simp)+
  then show ?thesis by (simp add: level_label_def)
qed

definition data_clean :: "log_record \<Rightarrow> bool" where
  "data_clean r \<longleftrightarrow> (case lr_data r of None \<Rightarrow> True | Some v \<Rightarrow> list_all clean (json_strings v))"

definition log_ok :: "log_state \<Rightarrow> bool" where
  "log_ok st \<longleftrightarrow> list_all (\<lambda>r. token_free (lr_message r) \<and> data_clean r) (ls_records st) \<and>
     list_all (\<lambda>(_, args). list_all clean (strings_of_list args)) (ls_transport st) \<and>
     length (ls_records st) \<le> MAX_LOGS \<and> length (ls_records st) \<le> ls_sequence st \<and>
     map lr_id (ls_records st) = [Suc (ls_sequence st) - length (ls_records st)..<Suc (ls_sequence st)]"

lemma data_of_args: "list_all clean (strings_of_list args) \<Longrightarrow> find is_object args = Some v \<Longrightarrow> list_all clean (json_strings v)"
  by (induction args) (auto split: if_splits)

lemma append_ok:
  assumes "log_ok st" and "list_all clean (strings_of_list args)" and "token_free level"
  shows "log_ok (appendLog now level args st)"
proof -
  let ?r = "\<lparr>lr_id = ls_sequence st + 1, lr_at = now, lr_level = level, lr_message = str_or (log_message args) level, lr_data = find is_object args\<rparr>"
  let ?rs = "ls_records st @ [?r]" and ?n = "length (ls_records st)"
  have "token_free (lr_message ?r)" using message_token_free [OF assms(2)] assms(3) by (simp add: str_or_def)
  moreover have "data_clean ?r" using data_of_args [OF assms(2)] by (simp add: data_clean_def split: option.split)
  ultimately have all: "list_all (\<lambda>r. token_free (lr_message r) \<and> data_clean r) ?rs" using assms(1) by (simp add: log_ok_def)
  have ids: "map lr_id ?rs = [Suc (Suc (ls_sequence st)) - length ?rs..<Suc (Suc (ls_sequence st))]"
    using assms(1) by (simp add: log_ok_def Suc_diff_le upt_Suc_append del: upt_Suc)
  show ?thesis
  proof (cases "length ?rs > MAX_LOGS")
    case True
    then have n: "?n = MAX_LOGS" using assms(1) by (simp add: log_ok_def)
    have "list_all (\<lambda>r. token_free (lr_message r) \<and> data_clean r) (drop 1 ?rs)" using all by (auto simp: list_all_iff dest: in_set_dropD)
    moreover have "map lr_id (drop 1 ?rs) = [Suc (Suc (ls_sequence st)) - MAX_LOGS..<Suc (Suc (ls_sequence st))]"
      using arg_cong [OF ids, of "drop 1"] n assms(1) by (simp add: drop_map [symmetric] Suc_diff_le log_ok_def del: upt_Suc)
    ultimately show ?thesis using assms(1) n by (simp add: appendLog_def Let_def log_ok_def MAX_LOGS_def del: upt_Suc)
  next
    case False
    then show ?thesis using all ids assms(1) by (simp add: appendLog_def Let_def log_ok_def del: upt_Suc)
  qed
qed

lemma log_run_ok: "log_ok (fold log_step evs empty_log)"
proof -
  have step: "log_ok (log_step ev st)" if "log_ok st" for ev st
  proof (cases ev)
    case (Logged now level args)
    have "log_ok (appendLog now (level_label level) (redact_list args) st)" by (rule append_ok [OF that redact_clean(2) label_token_free])
    then show ?thesis
      using Logged redact_clean(2) [of args] by (simp add: log_step_def logMethod_def Let_def log_ok_def del: upt_Suc)
  next
    case Cleared
    then show ?thesis using that by (simp add: log_step_def clearBufferedLogs_def log_ok_def)
  qed
  have "log_ok st \<Longrightarrow> log_ok (fold log_step evs st)" for st by (induction evs arbitrary: st) (simp_all add: step)
  moreover have "log_ok empty_log" by (simp add: log_ok_def empty_log_def)
  ultimately show ?thesis by blast
qed

section \<open>Properties\<close>

text \<open>
  C31. What of credentials cannot reach the log. Over every sequence of log calls, with any arguments, and of clearings of the buffer: no message
  of a record that the interface shows, for any filter, contains \<^verbatim>\<open>kubus_node_\<close> or \<^verbatim>\<open>kubus_local_\<close> followed by a character of a
  token; and no string value in the data of a record, nor in an argument handed to the transport, contains one of
  these or a header \<^verbatim>\<open>Authorization: Bearer\<close> followed by a token, in any case and with any white space. Nothing is said of the keys of
  objects, nor of a bearer header in a message that comes about by joining two arguments.
\<close>
theorem log_keeps_no_token:
  "list_all (\<lambda>r. token_free (lr_message r) \<and> data_clean r) (getBufferedLogs level (fold log_step evs empty_log)) \<and>
   list_all (\<lambda>(_, args). list_all clean (strings_of_list args)) (ls_transport (fold log_step evs empty_log))"
  using log_run_ok [of evs] by (auto simp: log_ok_def getBufferedLogs_def Let_def list_all_iff)

text \<open>The buffer holds the last 500 records at most, each with its own number, the newest first.\<close>

lemma log_bounded_newest_first:
  "length (getBufferedLogs level (fold log_step evs empty_log)) \<le> 500 \<and>
   sorted_wrt (>) (map lr_id (getBufferedLogs level (fold log_step evs empty_log)))"
proof -
  let ?rs = "ls_records (fold log_step evs empty_log)"
  have ok: "length ?rs \<le> 500" "sorted_wrt (<) (map lr_id ?rs)"
    using log_run_ok [of evs] by (simp_all add: log_ok_def strict_sorted_iff MAX_LOGS_def del: upt_Suc)
  have "length (rev (filter P ?rs)) \<le> 500 \<and> sorted_wrt (>) (map lr_id (rev (filter P ?rs)))" for P
    using ok le_trans [OF length_filter_le ok(1), of P] by (simp add: rev_map [symmetric] sorted_wrt_rev sorted_wrt_map sorted_wrt_filter)
  from this [of "\<lambda>_. True"] this show ?thesis by (simp add: getBufferedLogs_def Let_def)
qed

text \<open>The third argument of the callback is the offset for the pattern with one group, so the record gains a number.\<close>

lemma bearer_offset_appended:
  "redact_string ''GET / Authorization: Bearer abc'' = ''GET / Authorization: Bearer [redacted]6''"
  by code_simp

text \<open>The arguments are redacted one by one and joined afterwards, and keys are not redacted.\<close>

lemma joined_header_kept:
  "map lr_message (getBufferedLogs None (logMethod 0 30 [JStr ''Authorization: Bearer'', JStr ''abc''] empty_log)) = [''Authorization: Bearer abc''] \<and>
   redact_string ''Authorization: Bearer abc'' \<noteq> ''Authorization: Bearer abc''"
  by code_simp

lemma key_not_redacted:
  "ls_transport (logMethod 0 30 [JObj [(''kubus_node_abc'', JNum 1)]] empty_log) = [(''info'', [JObj [(''kubus_node_abc'', JNum 1)]])] \<and>
   redact_string ''kubus_node_abc'' = ''kubus_node_[redacted]''"
  by code_simp

end
