(* ===== verification/Archive_Sync.thy ===== *)
theory Archive_Sync
  imports Managed_Pins "HOL-Library.Sublist"
begin

text \<open>
  The public archive: which records of the canonical pin set the node undertakes to pin, and how it learns that set from the
  backend, \<^verbatim>\<open>src/src/operator/commitments.ts\<close> (\<open>planPublicPins\<close>, \<open>syncPublicPinSet\<close>).

  The plan orders the allowed records by priority and takes them greedily within a number of records and a number of bytes. The
  synchronization reads the set page by page; the answer to the n-th request is a parameter. Sizes and versions are integers; the
  collation of \<^verbatim>\<open>localeCompare\<close> is a parameter.

  \<open>plan_is_maximal\<close>: the plan is within its limits and cannot be extended. \<open>synchronized_set_is_snapshot\<close>: what is stored under a
  generation is the set that the server had at one moment, and what is stored without one authorizes no removal of pins.
\<close>

section \<open>Data\<close>

record pin_record =
  ps_id :: string
  ps_cid :: string
  ps_role :: string
  ps_sizeBytes :: "int option"
  ps_storageClass :: "string option"
  ps_verificationClass :: "string option"
  ps_objectType :: "string option"
  ps_objectId :: "string option"
  ps_version :: "int option"
  ps_rewardableCidId :: "string option"

record rewardable_cid =
  rw_id :: string
  rw_cid :: string
  rw_rewardRole :: "string option"
  rw_verificationClass :: "string option"
  rw_objectType :: "string option"
  rw_objectId :: "string option"
  rw_version :: "int option"

record pin_page =
  pg_count :: int
  pg_complete :: bool
  pg_generation :: "string option"
  pg_records :: "pin_record list"

text \<open>The part of the stored state that the archive uses. An availability commitment is the backend's answer and is kept as it came, here as a
  string.\<close>

record public_archive =
  ar_nodeId :: "string option"
  ar_publicPinSet :: "pin_record list"
  ar_rewardableCids :: "rewardable_cid list"
  ar_desiredCids :: "pin_record list"
  ar_pinnedCids :: "string list"
  ar_failedCids :: "(string, string) jsmap"
  ar_publicPinSetTotal :: "int option"
  ar_publicPinSetComplete :: bool
  ar_publicPinSetGeneration :: "string option"
  ar_rewardableCidTotal :: "int option"
  ar_activeCommitments :: "string list"
  ar_commitmentSkipReasons :: "(string, string) jsmap"
  ar_commitmentTtlHours :: "int option"
  ar_latestSyncAt :: "int option"
  ar_latestReconcileAt :: "int option"
  ar_latestCommitmentAt :: "int option"

definition empty_public_archive :: public_archive where
  "empty_public_archive = \<lparr>ar_nodeId = None, ar_publicPinSet = [], ar_rewardableCids = [], ar_desiredCids = [], ar_pinnedCids = [], ar_failedCids = [],
     ar_publicPinSetTotal = None, ar_publicPinSetComplete = False, ar_publicPinSetGeneration = None, ar_rewardableCidTotal = None,
     ar_activeCommitments = [], ar_commitmentSkipReasons = [], ar_commitmentTtlHours = None, ar_latestSyncAt = None, ar_latestReconcileAt = None, ar_latestCommitmentAt = None\<rparr>"

section \<open>The plan\<close>

definition classFilterAllows :: "string option \<Rightarrow> string list \<Rightarrow> bool" where
  "classFilterAllows verificationClass filters \<longleftrightarrow>
     (let v = trim (opt_str verificationClass) in filters = [] \<or> v = [] \<or> v \<in> set filters)"

definition CLASS_PRIORITY :: "string \<Rightarrow> int" where
  "CLASS_PRIORITY c = (if c = ''hot'' then 0 else if c = ''warm'' then 1 else if c = ''cold'' then 2 else 1)"

definition ROLE_PRIORITY :: "string \<Rightarrow> int" where
  "ROLE_PRIORITY r = (if r = ''manifest'' then 0 else if r = ''record'' then 1 else if r = ''spatial_preview'' then 2 else if r = ''media'' then 3
     else if r = ''leaf'' then 3 else if r = ''spatial_mobile'' then 4 else if r = ''spatial_archive'' then 5 else 10)"

definition pin_class :: "pin_record \<Rightarrow> string" where
  "pin_class r = str_or (opt_str (ps_storageClass r))
     (str_or (if ps_role r \<in> set [''manifest'', ''record''] then ''hot'' else opt_str (ps_verificationClass r)) ''warm'')"

definition int_or_zero :: "int option \<Rightarrow> int" where
  "int_or_zero v = (case v of None \<Rightarrow> 0 | Some n \<Rightarrow> n)"

text \<open>\<^verbatim>\<open>a || b || ...\<close> on the differences: the first that is not zero.\<close>

fun first_difference :: "int list \<Rightarrow> int" where
  "first_difference [] = 0"
| "first_difference (d # ds) = (if d \<noteq> 0 then d else first_difference ds)"

definition comparePins :: "(string \<Rightarrow> string \<Rightarrow> int) \<Rightarrow> pin_record \<Rightarrow> pin_record \<Rightarrow> int" where
  "comparePins localeCompare left right = first_difference
     [CLASS_PRIORITY (pin_class left) - CLASS_PRIORITY (pin_class right), ROLE_PRIORITY (ps_role left) - ROLE_PRIORITY (ps_role right),
      localeCompare (opt_str (ps_objectType left)) (opt_str (ps_objectType right)), localeCompare (opt_str (ps_objectId left)) (opt_str (ps_objectId right)),
      int_or_zero (ps_version left) - int_or_zero (ps_version right), localeCompare (ps_cid left) (ps_cid right)]"

text \<open>The stable sort of the language.\<close>

fun insert_by :: "('a \<Rightarrow> 'a \<Rightarrow> int) \<Rightarrow> 'a \<Rightarrow> 'a list \<Rightarrow> 'a list" where
  "insert_by cmp x [] = [x]"
| "insert_by cmp x (y # ys) = (if cmp y x < 0 then y # insert_by cmp x ys else x # y # ys)"

definition sort_by :: "('a \<Rightarrow> 'a \<Rightarrow> int) \<Rightarrow> 'a list \<Rightarrow> 'a list" where
  "sort_by cmp xs = foldr (insert_by cmp) xs []"

definition pin_size :: "pin_record \<Rightarrow> int" where
  "pin_size r = max 0 (int_or_zero (ps_sizeBytes r))"

fun select_pins :: "int \<Rightarrow> int \<Rightarrow> pin_record list \<Rightarrow> int \<Rightarrow> pin_record list \<Rightarrow> pin_record list" where
  "select_pins maxCids maxBytes selected plannedBytes [] = selected"
| "select_pins maxCids maxBytes selected plannedBytes (r # rs) =
     (if maxCids \<le> int (length selected) then selected
      else if 0 < pin_size r \<and> maxBytes < plannedBytes + pin_size r then select_pins maxCids maxBytes selected plannedBytes rs
      else select_pins maxCids maxBytes (selected @ [r]) (plannedBytes + pin_size r) rs)"

definition planPublicPins :: "(string \<Rightarrow> string \<Rightarrow> int) \<Rightarrow> pin_record list \<Rightarrow> int \<Rightarrow> int \<Rightarrow> string list \<Rightarrow> pin_record list" where
  "planPublicPins localeCompare records maxCids maxBytes filters =
     select_pins maxCids maxBytes [] 0
       (sort_by (comparePins localeCompare) (filter (\<lambda>r. classFilterAllows (ps_verificationClass r) filters) records))"

section \<open>Synchronization\<close>

record archive_config =
  ac_localeCompare :: "string \<Rightarrow> string \<Rightarrow> int"
  ac_maxPinnedCids :: int
  ac_maxPinnedBytes :: int
  ac_cidClassFilters :: "string list"
  ac_skipPinning :: bool
  ac_apiBaseUrl :: "string option"
  ac_allowUnpin :: bool

text \<open>\<open>sy_page n limit offset\<close> answers the n-th request for a page.\<close>

record sync_env =
  sy_page :: "nat \<Rightarrow> int \<Rightarrow> int \<Rightarrow> pin_page result"
  sy_rewardable :: "(int \<times> rewardable_cid list) result"
  sy_tx :: tx_env
  sy_now :: int

definition pageSize :: int where "pageSize = 1000"

definition valid_generation :: "string \<Rightarrow> bool" where
  "valid_generation g \<longleftrightarrow> starts_with g ''sha256:'' \<and> length g = 71 \<and> list_all is_lower_hex (drop 7 g)"

definition changed_set :: node_error where
  "changed_set = PlainError ''The canonical public pin set changed during synchronization.''"

function fetch_pages :: "(nat \<Rightarrow> int \<Rightarrow> int \<Rightarrow> pin_page result) \<Rightarrow> nat \<Rightarrow> int \<Rightarrow> int \<Rightarrow> string option \<Rightarrow> pin_record list \<Rightarrow> (nat \<times> pin_record list) result" where
  "fetch_pages page n offset count generation records =
     (if offset < count
      then (case page n pageSize offset of
              Inl e \<Rightarrow> Inl e
            | Inr p \<Rightarrow>
                if \<not> pg_complete p \<or> pg_count p \<noteq> count \<or> pg_generation p \<noteq> generation then Inl changed_set
                else fetch_pages page (Suc n) (offset + pageSize) count generation (records @ pg_records p))
      else Inr (n, records))"
  by pat_completeness auto
termination by (relation "measure (\<lambda>(_, _, offset, count, _, _). nat (count - offset))") (auto simp: pageSize_def)

declare fetch_pages.simps [simp del]

text \<open>Everything before the transaction: the checked set, with the rewardable records.\<close>

definition fetch_set :: "sync_env \<Rightarrow> (pin_page \<times> pin_record list \<times> int \<times> rewardable_cid list) result" where
  "fetch_set env =
     res_bind (sy_page env 0 pageSize 0) (\<lambda>first.
     res_bind (sy_rewardable env) (\<lambda>(rewardableTotal, rewardable).
       let count = pg_count first; generation = pg_generation first in
       if (case generation of None \<Rightarrow> False | Some g \<Rightarrow> \<not> valid_generation g)
       then Inl (PlainError ''The canonical public pin set generation is invalid.'')
       else res_bind (fetch_pages (sy_page env) 1 (int (length (pg_records first))) count generation (pg_records first)) (\<lambda>(n, records).
         if \<not> pg_complete first \<or> count \<noteq> int (length records) then Inl (PlainError ''The canonical public pin set is incomplete.'')
         else if \<not> distinct (map ps_id records) then Inl (PlainError ''The canonical public pin set contains duplicate records.'')
         else if opt_str generation = [] then Inr (first, records, rewardableTotal, rewardable)
         else res_bind (sy_page env n 1 0) (\<lambda>confirmation.
           if \<not> pg_complete confirmation \<or> pg_count confirmation \<noteq> count \<or> pg_generation confirmation \<noteq> generation
           then Inl (PlainError ''The canonical public pin set changed before synchronization completed.'')
           else Inr (first, records, rewardableTotal, rewardable)))))"

definition planned :: "archive_config \<Rightarrow> pin_record list \<Rightarrow> pin_record list" where
  "planned config records = planPublicPins (ac_localeCompare config) records (ac_maxPinnedCids config) (ac_maxPinnedBytes config) (ac_cidClassFilters config)"

definition syncPublicPinSet :: "archive_config \<Rightarrow> sync_env \<Rightarrow> (pin_record list, public_archive store) comp" where
  "syncPublicPinSet config env =
     andThen (of_result (fetch_set env)) (\<lambda>(first, records, rewardableTotal, rewardable).
     andThen (transact (\<lambda>st. st) (\<lambda>st _. st) empty_public_archive (sy_tx env) (\<lambda>s. Inr (s\<lparr>ar_publicPinSet := records,
         ar_rewardableCids := filter (\<lambda>r. classFilterAllows (rw_verificationClass r) (ac_cidClassFilters config)) rewardable,
         ar_desiredCids := planned config records, ar_publicPinSetTotal := Some (pg_count first), ar_publicPinSetComplete := pg_complete first,
         ar_publicPinSetGeneration := pg_generation first, ar_rewardableCidTotal := Some rewardableTotal, ar_latestSyncAt := Some (sy_now env)\<rparr>))) (\<lambda>_.
       ret (planned config records)))"

text \<open>What an incomplete set, or one of an old server, does not authorize: the guard of the removals of \<open>reconcileDesiredPins\<close>.\<close>

definition may_release :: "archive_config \<Rightarrow> public_archive \<Rightarrow> bool" where
  "may_release config s \<longleftrightarrow> \<not> ac_skipPinning config \<and> ar_publicPinSetComplete s \<and> valid_generation (opt_str (ar_publicPinSetGeneration s))"

section \<open>The plan is greedy\<close>

lemma select_pins_subseq: "\<exists>chosen. select_pins maxCids maxBytes sel bytes rs = sel @ chosen \<and> subseq chosen rs"
proof (induction rs arbitrary: sel bytes)
  case (Cons r rs)
  obtain taken where "select_pins maxCids maxBytes (sel @ [r]) (bytes + pin_size r) rs = sel @ r # taken" "subseq taken rs"
    using Cons.IH [of "sel @ [r]" "bytes + pin_size r"] by auto
  moreover obtain passed where "select_pins maxCids maxBytes sel bytes rs = sel @ passed" "subseq passed rs"
    using Cons.IH [of sel bytes] by blast
  ultimately show ?case by (auto intro: subseq_Cons')
qed simp

lemma select_pins_count:
  "int (length sel) \<le> maxCids \<Longrightarrow> int (length (select_pins maxCids maxBytes sel bytes rs)) \<le> maxCids"
  by (induction maxCids maxBytes sel bytes rs rule: select_pins.induct) simp_all

abbreviation bytes_of :: "pin_record list \<Rightarrow> int" where
  "bytes_of rs \<equiv> sum_list (map pin_size rs)"

lemma pin_size_nonneg [simp]: "0 \<le> pin_size r"
  by (simp add: pin_size_def)

lemma bytes_of_nonneg [simp]: "0 \<le> bytes_of rs"
  by (induction rs) simp_all

lemma select_pins_bytes:
  "bytes_of sel \<le> maxBytes \<Longrightarrow> bytes_of (select_pins maxCids maxBytes sel (bytes_of sel) rs) \<le> maxBytes"
proof (induction rs arbitrary: sel)
  case (Cons r rs)
  show ?case
  proof (cases "0 < pin_size r \<and> maxBytes < bytes_of sel + pin_size r")
    case False
    then have "bytes_of (sel @ [r]) \<le> maxBytes" using Cons.prems pin_size_nonneg [of r] by (cases "pin_size r = 0") auto
    then show ?thesis using Cons.IH [of "sel @ [r]"] Cons.prems False by auto
  qed (use Cons in auto)
qed simp

lemma select_pins_maximal:
  assumes "r \<in> set rs" and "r \<notin> set (select_pins maxCids maxBytes sel (bytes_of sel) rs)"
    and "int (length (select_pins maxCids maxBytes sel (bytes_of sel) rs)) < maxCids"
  shows "maxBytes < bytes_of (select_pins maxCids maxBytes sel (bytes_of sel) rs) + pin_size r"
  using assms
proof (induction rs arbitrary: sel)
  case (Cons x rs)
  have more: "\<exists>ys. select_pins maxCids maxBytes sel (bytes_of sel) rs' = sel @ ys" for sel rs'
    using select_pins_subseq by blast
  show ?case
  proof (cases "maxCids \<le> int (length sel)")
    case False
    show ?thesis
    proof (cases "0 < pin_size x \<and> maxBytes < bytes_of sel + pin_size x")
      case True
      then have step: "select_pins maxCids maxBytes sel (bytes_of sel) (x # rs) = select_pins maxCids maxBytes sel (bytes_of sel) rs"
        using False by simp
      obtain ys where "select_pins maxCids maxBytes sel (bytes_of sel) rs = sel @ ys" using more by blast
      then have "bytes_of sel \<le> bytes_of (select_pins maxCids maxBytes sel (bytes_of sel) rs)" by simp
      then show ?thesis using Cons True unfolding step by fastforce
    next
      case fits: False
      then have step: "select_pins maxCids maxBytes sel (bytes_of sel) (x # rs) = select_pins maxCids maxBytes (sel @ [x]) (bytes_of (sel @ [x])) rs"
        using False by auto
      obtain ys where "select_pins maxCids maxBytes (sel @ [x]) (bytes_of (sel @ [x])) rs = (sel @ [x]) @ ys" using more by blast
      then have "x \<in> set (select_pins maxCids maxBytes sel (bytes_of sel) (x # rs))" unfolding step by simp
      then have "r \<in> set rs" using Cons.prems by auto
      then show ?thesis using Cons.IH [of "sel @ [x]"] Cons.prems unfolding step by blast
    qed
  qed (use Cons.prems in simp)
qed simp

lemma set_sort_by [simp]: "set (sort_by cmp xs) = set xs"
proof -
  have "set (insert_by cmp x ys) = insert x (set ys)" for x ys by (induction ys) auto
  then show ?thesis by (induction xs) (auto simp: sort_by_def)
qed

text \<open>A comparison of the language's sort: antisymmetric in its sign, and transitive.\<close>

definition comparator :: "('a \<Rightarrow> 'a \<Rightarrow> int) \<Rightarrow> bool" where
  "comparator cmp \<longleftrightarrow> (\<forall>a b. cmp a b < 0 \<longleftrightarrow> 0 < cmp b a) \<and> (\<forall>a b c. cmp a b \<le> 0 \<longrightarrow> cmp b c \<le> 0 \<longrightarrow> cmp a c \<le> 0)"

lemma comparator_difference: "comparator (\<lambda>a b. f a - f b)"
  by (auto simp: comparator_def)

lemma comparator_image: "comparator cmp \<Longrightarrow> comparator (\<lambda>a b. cmp (f a) (f b))"
  unfolding comparator_def by blast

lemma comparator_then:
  assumes f: "comparator f" and g: "comparator g"
  shows "comparator (\<lambda>a b. if f a b \<noteq> 0 then f a b else g a b)"
proof -
  have sign: "f a b < 0 \<longleftrightarrow> 0 < f b a" "g a b < 0 \<longleftrightarrow> 0 < g b a" for a b
    using f g unfolding comparator_def by blast+
  have zero: "f a b = 0 \<longleftrightarrow> f b a = 0" for a b using sign(1) [of a b] sign(1) [of b a] by linarith
  have less: "f a c < 0" if "f a b \<le> 0" "f b c \<le> 0" "f a b < 0 \<or> f b c < 0" for a b c
  proof (rule ccontr)
    assume "\<not> f a c < 0"
    then have ca: "f c a \<le> 0" using sign(1) [of c a] sign(1) [of a c] by linarith
    have "f b a \<le> 0" "f c b \<le> 0" using f that ca unfolding comparator_def by blast+
    then show False using that(3) sign(1) [of a b] sign(1) [of b c] by linarith
  qed
  have tf: "f a c \<le> 0" if "f a b \<le> 0" "f b c \<le> 0" for a b c using f that unfolding comparator_def by blast
  have eq: "f a c = 0" if "f a b = 0" "f b c = 0" for a b c
    using tf [of a b c] tf [of c b a] that zero [of a b] zero [of b c] sign(1) [of a c] by linarith
  have tg: "g a c \<le> 0" if "g a b \<le> 0" "g b c \<le> 0" for a b c using g that unfolding comparator_def by blast
  show ?thesis
    unfolding comparator_def
  proof (intro conjI allI impI, goal_cases)
    case (1 a b)
    then show ?case using sign [of a b] zero [of a b] by auto
  next
    case (2 a b c)
    then show ?case using less [of a b c] eq [of a b c] tg [of a b c]
      by (cases "f a b = 0"; cases "f b c = 0") (auto split: if_splits)
  qed
qed

lemma comparePins_comparator:
  assumes "comparator localeCompare"
  shows "comparator (comparePins localeCompare)"
proof -
  have last: "(if d \<noteq> 0 then d else 0) = d" for d :: int by simp
  show ?thesis
    unfolding comparePins_def first_difference.simps last
    by (intro comparator_then comparator_difference comparator_image [OF assms])
qed

lemma insert_by_sorted:
  assumes "comparator cmp" and "sorted_wrt (\<lambda>a b. cmp a b \<le> 0) ys"
  shows "sorted_wrt (\<lambda>a b. cmp a b \<le> 0) (insert_by cmp x ys)"
  using assms(2)
proof (induction ys)
  case (Cons y ys)
  have c: "cmp a b < 0 \<longleftrightarrow> 0 < cmp b a" "cmp a b \<le> 0 \<Longrightarrow> cmp b d \<le> 0 \<Longrightarrow> cmp a d \<le> 0" for a b d
    using assms(1) unfolding comparator_def by blast+
  have mem: "set (insert_by cmp x ys) = insert x (set ys)" for ys by (induction ys) auto
  show ?case
  proof (cases "cmp y x < 0")
    case True
    then show ?thesis using Cons mem by simp
  next
    case False
    then have "cmp x y \<le> 0" using c(1) [of x y] c(1) [of y x] by linarith
    then show ?thesis using Cons.prems False c(2) [of x y] by auto
  qed
qed simp

lemma sort_by_sorted: "comparator cmp \<Longrightarrow> sorted_wrt (\<lambda>a b. cmp a b \<le> 0) (sort_by cmp xs)"
  by (induction xs) (simp_all add: sort_by_def insert_by_sorted)

lemma sorted_wrt_subseq: "subseq xs ys \<Longrightarrow> sorted_wrt R ys \<Longrightarrow> sorted_wrt R xs"
  by (induction rule: list_emb.induct) (auto dest: list_emb_set)

text \<open>
  C32. The archive plan is within its limits and leaves nothing out that would fit. With non-negative limits the plan has at most
  \<open>maxCids\<close> records of at most \<open>maxBytes\<close> bytes together, only records that the class filters allow, in the order of priority; and
  when it has fewer than \<open>maxCids\<close> records, every allowed record outside it would exceed the bytes.
\<close>

theorem plan_is_maximal:
  assumes "comparator localeCompare" and "0 \<le> maxCids" and "0 \<le> maxBytes"
    and plan_def: "plan = planPublicPins localeCompare records maxCids maxBytes filters"
  shows "int (length plan) \<le> maxCids \<and> sum_list (map pin_size plan) \<le> maxBytes \<and>
    set plan \<subseteq> {r \<in> set records. classFilterAllows (ps_verificationClass r) filters} \<and>
    sorted_wrt (\<lambda>a b. comparePins localeCompare a b \<le> 0) plan \<and>
    (int (length plan) < maxCids \<longrightarrow> (\<forall>r. r \<in> set records - set plan \<and> classFilterAllows (ps_verificationClass r) filters \<longrightarrow>
       maxBytes < sum_list (map pin_size plan) + pin_size r))"
proof -
  let ?sorted = "sort_by (comparePins localeCompare) (filter (\<lambda>r. classFilterAllows (ps_verificationClass r) filters) records)"
  have plan: "plan = select_pins maxCids maxBytes [] (bytes_of []) ?sorted"
    by (simp add: plan_def planPublicPins_def)
  have sub: "subseq plan ?sorted" using select_pins_subseq [of maxCids maxBytes "[]" 0 ?sorted] by (auto simp: plan)
  then have "set plan \<subseteq> set ?sorted" by (auto elim: list_emb_set)
  moreover have "sorted_wrt (\<lambda>a b. comparePins localeCompare a b \<le> 0) plan"
    by (rule sorted_wrt_subseq [OF sub sort_by_sorted [OF comparePins_comparator [OF assms(1)]]])
  moreover have "int (length plan) \<le> maxCids" "bytes_of plan \<le> maxBytes"
    using select_pins_count [of "[]" maxCids] select_pins_bytes [of "[]" maxBytes] assms(2, 3) unfolding plan by simp_all
  moreover have "maxBytes < bytes_of plan + pin_size r" if "int (length plan) < maxCids" "r \<in> set ?sorted" "r \<notin> set plan" for r
    using select_pins_maximal [of r ?sorted maxCids maxBytes "[]"] that by (simp add: plan)
  ultimately show ?thesis by auto
qed

text \<open>Three records and room for two of them: the cold archive does not fit beside the two others.\<close>

definition plain_pin :: pin_record where
  "plain_pin = \<lparr>ps_id = ''1'', ps_cid = ''Qm1'', ps_role = ''media'', ps_sizeBytes = Some 40, ps_storageClass = None, ps_verificationClass = None,
     ps_objectType = None, ps_objectId = None, ps_version = None, ps_rewardableCidId = None\<rparr>"

definition sample_pins :: "pin_record list" where
  "sample_pins = [plain_pin\<lparr>ps_id := ''2'', ps_role := ''spatial_archive'', ps_storageClass := Some ''cold''\<rparr>, plain_pin,
     plain_pin\<lparr>ps_id := ''3'', ps_role := ''manifest'', ps_sizeBytes := Some 20\<rparr>]"

definition by_length :: "string \<Rightarrow> string \<Rightarrow> int" where
  "by_length a b = int (length a) - int (length b)"

lemma by_length_comparator: "comparator by_length"
  using comparator_difference [of "\<lambda>a. int (length a)"] by (simp add: by_length_def [abs_def])

lemma sample_plan: "planPublicPins by_length sample_pins 3 90 [] = [plain_pin\<lparr>ps_id := ''3'', ps_role := ''manifest'', ps_sizeBytes := Some 20\<rparr>, plain_pin]"
  by code_simp

theorem plan_is_maximal_witness:
  "planPublicPins by_length sample_pins 3 90 [] = [plain_pin\<lparr>ps_id := ''3'', ps_role := ''manifest'', ps_sizeBytes := Some 20\<rparr>, plain_pin] \<and>
   sum_list (map pin_size (planPublicPins by_length sample_pins 3 90 [])) \<le> 90"
  using plan_is_maximal [OF by_length_comparator, of 3 90 "planPublicPins by_length sample_pins 3 90 []" sample_pins "[]"] sample_plan by simp

section \<open>The synchronized set is one the server had\<close>

text \<open>The server has the set \<open>L n\<close> when it answers the n-th request: its pages are cuts of that set, with its length and, when the server
  names a generation at all, its digest.\<close>

definition honest_pages :: "(nat \<Rightarrow> pin_record list) \<Rightarrow> (pin_record list \<Rightarrow> string) \<Rightarrow> (nat \<Rightarrow> int \<Rightarrow> int \<Rightarrow> pin_page result) \<Rightarrow> bool" where
  "honest_pages L digest page \<longleftrightarrow> (\<forall>n limit offset p. page n limit offset = Inr p \<longrightarrow>
     pg_count p = int (length (L n)) \<and> (\<forall>g. pg_generation p = Some g \<longrightarrow> g = digest (L n)) \<and>
     (\<exists>k \<le> nat limit. pg_records p = take k (drop (nat offset) (L n))))"

lemma honest_page:
  assumes "honest_pages L digest page" and "page n limit offset = Inr p"
  shows "pg_count p = int (length (L n))" "\<And>g. pg_generation p = Some g \<Longrightarrow> g = digest (L n)"
    "\<exists>k \<le> nat limit. pg_records p = take k (drop (nat offset) (L n))"
  using assms unfolding honest_pages_def by blast+

text \<open>What has been read of a set when the next request asks from an offset: never more than lies before it, and all of that when nothing is missing.\<close>

definition gathered :: "pin_record list \<Rightarrow> int \<Rightarrow> pin_record list \<Rightarrow> bool" where
  "gathered S offset records \<longleftrightarrow> 0 \<le> offset \<and> length records \<le> min (nat offset) (length S) \<and>
     (length records = min (nat offset) (length S) \<longrightarrow> records = take (nat offset) S)"

lemma gathered_all: "gathered S offset records \<Longrightarrow> \<not> offset < int (length S) \<Longrightarrow> length records = length S \<Longrightarrow> records = S"
  by (auto simp: gathered_def min_def split: if_splits)

lemma gathered_first: "k \<le> 1000 \<Longrightarrow> gathered S (int (length (take k S))) (take k S)"
  by (simp add: gathered_def min_def)

lemma gathered_page:
  assumes "gathered S offset records" and "offset < int (length S)" and "k \<le> 1000"
  shows "gathered S (offset + 1000) (records @ take k (drop (nat offset) S))"
proof -
  define o' N where "o' = nat offset" and "N = take k (drop o' S)"
  have o: "nat (offset + 1000) = o' + 1000" "o' < length S" using assms by (auto simp: gathered_def o'_def)
  have new: "length N \<le> 1000" "length N \<le> length S - o'" using assms(3) by (simp_all add: N_def)
  have old: "length records \<le> o'" using assms(1) by (simp add: gathered_def o'_def)
  have "length (records @ N) \<le> min (o' + 1000) (length S)" using new old o by simp
  moreover have "records @ N = take (o' + 1000) S" if "length (records @ N) = min (o' + 1000) (length S)"
  proof -
    have len: "length records = o'" "length N = min 1000 (length S - o')" using that new old o by (auto simp: min_def split: if_splits)
    then have "records = take o' S" using assms(1) o by (simp add: gathered_def o'_def)
    moreover have "N = take 1000 (drop o' S)" using len(2) assms(3) unfolding N_def by (auto simp: min_def split: if_splits)
    ultimately show ?thesis by (simp add: take_add)
  qed
  ultimately show ?thesis using assms(1) by (simp add: gathered_def o flip: o'_def N_def)
qed

lemma fetch_pages_snapshot:
  assumes "honest_pages L digest page" and "inj_on digest (insert S (range L))"
    and "fetch_pages page n offset (int (length S)) (Some (digest S)) records = Inr (m, answer)"
    and "gathered S offset records" and "length answer = length S" and "length records \<le> 1000 * n"
  shows "answer = S \<and> n \<le> m \<and> length S \<le> 1000 * m \<and> (\<forall>i. n \<le> i \<and> i < m \<longrightarrow> L i = S)"
  using assms
proof (induction page n offset "int (length S)" "Some (digest S)" records rule: fetch_pages.induct)
  case (1 page n offset records)
  show ?case
  proof (cases "offset < int (length S)")
    case False
    then have "answer = records" "m = n" using 1(4) by (subst (asm) fetch_pages.simps, simp)+
    then show ?thesis using gathered_all [OF 1(5) False] 1(6, 7) by auto
  next
    case True
    then obtain p where p: "page n pageSize offset = Inr p" "pg_complete p" "pg_count p = int (length S)" "pg_generation p = Some (digest S)"
      and rest: "fetch_pages page (Suc n) (offset + pageSize) (int (length S)) (Some (digest S)) (records @ pg_records p) = Inr (m, answer)"
      using 1(4) by (subst (asm) fetch_pages.simps) (auto split: sum.splits if_splits)
    obtain k where "k \<le> 1000" "pg_records p = take k (drop (nat offset) (L n))" "digest (L n) = digest S"
      using honest_page [OF 1(2) p(1)] p(4) by (auto simp: pageSize_def)
    moreover from this have "L n = S" using inj_onD [OF 1(3), of "L n" S] by simp
    ultimately have k: "k \<le> 1000" "pg_records p = take k (drop (nat offset) S)" "L n = S" by simp_all
    have "gathered S (offset + pageSize) (records @ pg_records p)" using gathered_page [OF 1(5) True k(1)] k(2) by (simp add: pageSize_def)
    moreover have "length (records @ pg_records p) \<le> 1000 * Suc n" using 1(7) k by simp
    ultimately have "answer = S \<and> Suc n \<le> m \<and> length S \<le> 1000 * m \<and> (\<forall>i. Suc n \<le> i \<and> i < m \<longrightarrow> L i = S)"
      using 1(1) [OF True p(1)] p 1(2, 3, 6) rest by blast
    moreover have "n \<le> i \<Longrightarrow> i = n \<or> Suc n \<le> i" for i by linarith
    ultimately show ?thesis using k(3) Suc_leD by blast
  qed
qed

lemma fetch_pages_sources:
  assumes "honest_pages L digest page" and "fetch_pages page n offset count generation records = Inr (m, answer)"
    and "set records \<subseteq> (\<Union>i. set (L i))"
  shows "set answer \<subseteq> (\<Union>i. set (L i))"
  using assms
proof (induction page n offset count generation records rule: fetch_pages.induct)
  case (1 page n offset count generation records)
  show ?case
  proof (cases "offset < count")
    case True
    then obtain p where p: "page n pageSize offset = Inr p" "\<not> (\<not> pg_complete p \<or> pg_count p \<noteq> count \<or> pg_generation p \<noteq> generation)"
      and rest: "fetch_pages page (Suc n) (offset + pageSize) count generation (records @ pg_records p) = Inr (m, answer)"
      using 1(3) by (subst (asm) fetch_pages.simps) (auto split: sum.splits if_splits)
    have "set (pg_records p) \<subseteq> set (L n)"
      using honest_page(3) [OF 1(2) p(1)] by (metis in_set_dropD in_set_takeD subsetI)
    then show ?thesis using 1(1) [OF True p(1, 2) 1(2) rest] 1(4) by auto
  qed (use 1(3, 4) in \<open>subst (asm) fetch_pages.simps, simp\<close>)
qed

text \<open>What a returning \<open>fetch_set\<close> has checked.\<close>

lemma fetch_set_checked:
  assumes "honest_pages L digest (sy_page env)" and "fetch_set env = Inr (first, records, rewardableTotal, rewardable)"
  obtains m k where "fetch_pages (sy_page env) 1 (int (length (pg_records first))) (int (length (L 0))) (pg_generation first) (pg_records first) = Inr (m, records)"
    and "pg_complete first" "pg_count first = int (length (L 0))" "length records = length (L 0)" "distinct (map ps_id records)"
    and "k \<le> 1000" "pg_records first = take k (L 0)"
    and "case pg_generation first of None \<Rightarrow> True
         | Some g \<Rightarrow> g = digest (L 0) \<and> valid_generation g \<and> (\<exists>c. sy_page env m 1 0 = Inr c \<and> pg_generation c = Some g)"
proof -
  have first: "sy_page env 0 pageSize 0 = Inr first" and rw: "sy_rewardable env = Inr (rewardableTotal, rewardable)"
    using assms(2) unfolding fetch_set_def by (force simp: res_bind_def Let_def split: sum.splits if_splits)+
  have gen: "\<not> (case pg_generation first of None \<Rightarrow> False | Some g \<Rightarrow> \<not> valid_generation g)"
    using assms(2) unfolding fetch_set_def by (auto simp: first rw)
  obtain m where pages: "fetch_pages (sy_page env) 1 (int (length (pg_records first))) (pg_count first) (pg_generation first) (pg_records first) = Inr (m, records)"
    and ok: "pg_complete first" "pg_count first = int (length records)" "distinct (map ps_id records)"
    and conf: "opt_str (pg_generation first) = [] \<or> (\<exists>c. sy_page env m 1 0 = Inr c \<and> pg_generation c = pg_generation first)"
    using assms(2) gen unfolding fetch_set_def
    by (cases "fetch_pages (sy_page env) 1 (int (length (pg_records first))) (pg_count first) (pg_generation first) (pg_records first)")
      (auto simp: first rw Let_def res_bind_Inr split: if_splits)
  obtain k where k: "k \<le> 1000" "pg_records first = take k (L 0)" and h: "pg_count first = int (length (L 0))" "\<forall>g. pg_generation first = Some g \<longrightarrow> g = digest (L 0)"
    using honest_page [OF assms(1) first] by (auto simp: pageSize_def)
  have "case pg_generation first of None \<Rightarrow> True
     | Some g \<Rightarrow> g = digest (L 0) \<and> valid_generation g \<and> (\<exists>c. sy_page env m 1 0 = Inr c \<and> pg_generation c = Some g)"
    using gen conf h(2) by (auto simp: valid_generation_def split: option.split)
  then show ?thesis using that [OF _ ok(1) h(1) _ ok(3) k] pages h(1) ok(2) by simp
qed

lemma fetch_set_snapshot:
  assumes "honest_pages L digest (sy_page env)" and "inj_on digest (range L)"
    and "fetch_set env = Inr (first, records, rewardableTotal, rewardable)"
  shows "pg_complete first \<and> distinct (map ps_id records) \<and> length records = length (L 0) \<and> set records \<subseteq> (\<Union>i. set (L i)) \<and>
    (\<forall>g. pg_generation first = Some g \<longrightarrow> records = L 0 \<and> g = digest (L 0) \<and> valid_generation g \<and>
      (\<exists>n. length (L 0) \<le> 1000 * n \<and> (\<forall>i \<le> n. L i = L 0)))"
proof -
  obtain m k where pages: "fetch_pages (sy_page env) 1 (int (length (pg_records first))) (int (length (L 0))) (pg_generation first) (pg_records first) = Inr (m, records)"
    and ok: "pg_complete first" "pg_count first = int (length (L 0))" "length records = length (L 0)" "distinct (map ps_id records)"
    and k: "k \<le> 1000" "pg_records first = take k (L 0)"
    and gen: "case pg_generation first of None \<Rightarrow> True
         | Some g \<Rightarrow> g = digest (L 0) \<and> valid_generation g \<and> (\<exists>c. sy_page env m 1 0 = Inr c \<and> pg_generation c = Some g)"
    by (rule fetch_set_checked [OF assms(1, 3)])
  have "set records \<subseteq> (\<Union>i. set (L i))"
    by (rule fetch_pages_sources [OF assms(1) pages]) (use k(2) in \<open>auto dest: in_set_takeD\<close>)
  moreover have "records = L 0 \<and> g = digest (L 0) \<and> valid_generation g \<and> (\<exists>n. length (L 0) \<le> 1000 * n \<and> (\<forall>i \<le> n. L i = L 0))"
    if g: "pg_generation first = Some g" for g
  proof -
    obtain c where c: "g = digest (L 0)" "valid_generation g" "sy_page env m 1 0 = Inr c" "pg_generation c = Some g" using gen g by auto
    have snap: "records = L 0 \<and> 1 \<le> m \<and> length (L 0) \<le> 1000 * m \<and> (\<forall>i. 1 \<le> i \<and> i < m \<longrightarrow> L i = L 0)"
      by (rule fetch_pages_snapshot [OF assms(1)]) (use assms(2) pages g c(1) k ok gathered_first [OF k(1)] in auto)
    have "digest (L m) = digest (L 0)" using honest_page(2) [OF assms(1) c(3) c(4)] c(1) by simp
    then have "L m = L 0" using inj_onD [OF assms(2), of "L m" "L 0"] by simp
    moreover have "i = 0 \<or> i = m \<or> 1 \<le> i \<and> i < m" if "i \<le> m" for i using that by linarith
    ultimately have "\<forall>i \<le> m. L i = L 0" using snap by blast
    then show ?thesis using snap c by blast
  qed
  ultimately show ?thesis using ok by blast
qed

text \<open>
  C30. A synchronization stores one set the server really had, or one that authorizes no removal. The server answers the n-th request out of
  the set \<open>L n\<close>, with its length; it may name a generation on any page or leave it out, but one it names tells these sets apart. A
  synchronization that returns stores the plan made for the stored set, whose records have distinct identifiers, are as many as the first
  answer said, and each of which the server had. If a generation is stored, the set is \<open>L 0\<close>, and the server still had it when it answered the
  confirmation after all of its pages. If none is stored, the set need not be one the server had at one moment, and no reconciliation may
  release a pin on the strength of it. A synchronization that throws leaves the stored state as it was.
\<close>

theorem synchronized_set_is_snapshot:
  assumes "honest_pages L digest (sy_page env)" and "inj_on digest (range L)"
    and "synced p st" and "writes_beside p (sy_tx env)" and run: "syncPublicPinSet config env st = (r, st')"
  shows "case r of
      Inl e \<Rightarrow> store_snapshot empty_public_archive st' = store_snapshot empty_public_archive st
    | Inr desired \<Rightarrow> \<exists>s. store_snapshot empty_public_archive st' = s \<and> desired = planned config (ar_publicPinSet s) \<and> ar_desiredCids s = desired \<and>
        ar_publicPinSetComplete s \<and> distinct (map ps_id (ar_publicPinSet s)) \<and> length (ar_publicPinSet s) = length (L 0) \<and>
        set (ar_publicPinSet s) \<subseteq> (\<Union>i. set (L i)) \<and>
        (case ar_publicPinSetGeneration s of
           None \<Rightarrow> \<not> may_release config s
         | Some g \<Rightarrow> ar_publicPinSet s = L 0 \<and> g = digest (L 0) \<and> valid_generation g \<and> (\<exists>n. length (L 0) \<le> 1000 * n \<and> (\<forall>i \<le> n. L i = L 0)))"
    (is "case r of Inl e \<Rightarrow> ?kept st' | Inr desired \<Rightarrow> ?stored desired st'")
proof -
  have "wp (syncPublicPinSet config env) ?stored (\<lambda>_. ?kept) st"
  proof (cases "fetch_set env")
    case (Inr found)
    obtain first records count rewardable where found: "found = (first, records, count, rewardable)" by (cases found)
    note snap = fetch_set_snapshot [OF assms(1, 2) Inr [unfolded found]]
    have none: "\<not> valid_generation []" by (simp add: valid_generation_def)
    show ?thesis
      unfolding syncPublicPinSet_def wp_andThen wp_basic Inr found sum.case prod.case
      by (rule bare_store.wp_transact [OF assms(3, 4)]) (use snap none in \<open>auto simp: wp_basic may_release_def split: option.split\<close>)
  qed (simp add: syncPublicPinSet_def wp_andThen wp_basic)
  then show ?thesis using run by (cases r) (auto dest: wp_result)
qed

text \<open>A server whose set becomes empty after it has answered two requests: the three records it had are stored.\<close>

definition shrinking :: "nat \<Rightarrow> pin_record list" where
  "shrinking n = (if n < 2 then sample_pins else [])"

definition tagged :: "pin_record list \<Rightarrow> string" where
  "tagged S = ''sha256:'' @ replicate 64 (if S = [] then CHR ''0'' else CHR ''1'')"

definition shrinking_env :: sync_env where
  "shrinking_env = \<lparr>sy_page = (\<lambda>n limit offset. Inr \<lparr>pg_count = int (length (shrinking n)), pg_complete = True, pg_generation = Some (tagged (shrinking n)),
     pg_records = take (nat limit) (drop (nat offset) (shrinking n))\<rparr>), sy_rewardable = Inr (0, []), sy_tx = quiet_env, sy_now = 5\<rparr>"

definition small_archive :: archive_config where
  "small_archive = \<lparr>ac_localeCompare = by_length, ac_maxPinnedCids = 3, ac_maxPinnedBytes = 90, ac_cidClassFilters = [], ac_skipPinning = False,
     ac_apiBaseUrl = None, ac_allowUnpin = True\<rparr>"

lemma shrinking_honest: "honest_pages shrinking tagged (sy_page shrinking_env)"
  by (auto simp: honest_pages_def shrinking_env_def)

lemma shrinking_told_apart: "inj_on tagged (range shrinking)"
  by (auto simp: inj_on_def shrinking_def tagged_def sample_pins_def)

lemma shrinking_run:
  "fst (syncPublicPinSet small_archive shrinking_env (saved_store empty_public_archive)) = Inr (planned small_archive sample_pins)"
  by code_simp

lemma shrinking_generation:
  "ar_publicPinSetGeneration (store_snapshot empty_public_archive (snd (syncPublicPinSet small_archive shrinking_env (saved_store empty_public_archive)))) = Some (tagged sample_pins)"
  by code_simp

text \<open>The same server without generations and with a smaller first page: it changes between two pages and the mixture is stored.\<close>

definition unnamed_env :: sync_env where
  "unnamed_env = \<lparr>sy_page = (\<lambda>n limit offset. let S = (if n = 0 then sample_pins else sample_pins[2 := plain_pin\<lparr>ps_id := ''4''\<rparr>]) in
     Inr \<lparr>pg_count = 3, pg_complete = True, pg_generation = None, pg_records = take (if n = 0 then 1 else nat limit) (drop (nat offset) S)\<rparr>),
     sy_rewardable = Inr (0, []), sy_tx = quiet_env, sy_now = 5\<rparr>"

lemma unnamed_set_mixed:
  "(let s = store_snapshot empty_public_archive (snd (syncPublicPinSet small_archive unnamed_env (saved_store empty_public_archive))) in
    map ps_id (ar_publicPinSet s) = [''2'', ''1'', ''4''] \<and> ar_publicPinSetComplete s \<and> \<not> may_release small_archive s)"
  by code_simp

theorem synchronized_set_is_snapshot_witness:
  "fst (syncPublicPinSet small_archive shrinking_env (saved_store empty_public_archive)) = Inr (planned small_archive sample_pins) \<and>
   ar_publicPinSet (store_snapshot empty_public_archive (snd (syncPublicPinSet small_archive shrinking_env (saved_store empty_public_archive)))) = sample_pins"
proof -
  have "ar_publicPinSet (store_snapshot empty_public_archive (snd (syncPublicPinSet small_archive shrinking_env (saved_store empty_public_archive)))) = shrinking 0"
    using synchronized_set_is_snapshot [OF shrinking_honest shrinking_told_apart saved_store_synced [of empty_public_archive], of small_archive
        "fst (syncPublicPinSet small_archive shrinking_env (saved_store empty_public_archive))"
        "snd (syncPublicPinSet small_archive shrinking_env (saved_store empty_public_archive))"] shrinking_run shrinking_generation
    by (simp add: shrinking_env_def)
  then show ?thesis using shrinking_run by (simp add: shrinking_def)
qed

end
