(* ===== verification/Archive_Pins.thy ===== *)
theory Archive_Pins
  imports Archive_Sync Pin_Holding
begin

text \<open>
  The archive's use of managed pins: \<open>reconcileDesiredPins\<close> of \<^verbatim>\<open>src/src/operator/commitments.ts\<close> pins every record of the plan under
  its archive owner and, when the canonical set is complete and of a known generation, releases the archive owners that the plan no
  longer names.

  \<open>archive_spares_wanted\<close>: a pin that the plan names, or that another component owns, stays pinned. \<open>unusable_record_blocks_release\<close>:
  one record of the plan whose identifier is no bare content identifier keeps every release from happening.
\<close>

section \<open>The world\<close>

record archive_world =
  aw_archive :: "public_archive store"
  aw_pins :: pin_world

abbreviation archive_of :: "archive_world \<Rightarrow> public_archive" where
  "archive_of w \<equiv> store_snapshot empty_public_archive (aw_archive w)"

abbreviation put_archive :: "public_archive store \<Rightarrow> archive_world \<Rightarrow> archive_world" where
  "put_archive st w \<equiv> w\<lparr>aw_archive := st\<rparr>"

interpretation archive_store: store_in_world aw_archive put_archive
  by unfold_locales simp

definition with_pins :: "('a, pin_world) comp \<Rightarrow> ('a, archive_world) comp" where
  "with_pins m w = (case m (aw_pins w) of (r, v) \<Rightarrow> (r, w\<lparr>aw_pins := v\<rparr>))"

text \<open>\<open>re_pin i\<close> surrounds the i-th acquisition, \<open>re_retry\<close> the retries of pending releases, \<open>re_release i\<close> the i-th release.\<close>

record reconcile_env =
  re_pin :: "nat \<Rightarrow> kubo_env"
  re_retry :: "string \<Rightarrow> kubo_env"
  re_release :: "nat \<Rightarrow> kubo_env"
  re_tx :: tx_env
  re_now :: int

section \<open>Operations\<close>

definition json_of_option :: "string option \<Rightarrow> json" where
  "json_of_option v = (case v of None \<Rightarrow> JNull | Some s \<Rightarrow> JStr s)"

definition item_of :: "pin_record \<Rightarrow> pin_item" where
  "item_of r = \<lparr>it_id = JStr (ps_id r), it_cid = ps_cid r, it_role = JStr (ps_role r), it_objectType = json_of_option (ps_objectType r),
     it_objectId = json_of_option (ps_objectId r), it_version = (case ps_version r of None \<Rightarrow> JNull | Some n \<Rightarrow> JNum n)\<rparr>"

text \<open>\<^verbatim>\<open>Object.fromEntries\<close>: a later entry replaces an earlier one.\<close>

definition record_attempts :: "int \<Rightarrow> pin_attempt list \<Rightarrow> public_archive \<Rightarrow> public_archive result" where
  "record_attempts now results s = Inr (s\<lparr>
     ar_pinnedCids := map pa_cid (filter (\<lambda>a. pa_error a = None) results),
     ar_failedCids := fold (\<lambda>a. jm_set (pa_cid a) (str_or (opt_str (pa_error a)) ''pin_failed'')) (filter (\<lambda>a. pa_error a \<noteq> None) results) [],
     ar_latestReconcileAt := Some now\<rparr>)"

definition pin_key :: "string \<Rightarrow> string \<Rightarrow> string" where
  "pin_key cid owner = cid @ ''|'' @ owner"

fun wanted_keys :: "(string \<Rightarrow> string option) \<Rightarrow> (string \<Rightarrow> string) \<Rightarrow> pin_record list \<Rightarrow> string list result" where
  "wanted_keys cid_v1 sha [] = Inr []"
| "wanted_keys cid_v1 sha (r # rs) =
     res_bind (canonicalPinCid cid_v1 (ps_cid r)) (\<lambda>cid.
     res_bind (wanted_keys cid_v1 sha rs) (\<lambda>keys. Inr (pin_key cid (archivePinOwner sha (item_of r)) # keys)))"

definition unwanted :: "string list \<Rightarrow> (string, managed_pin) jsmap \<Rightarrow> (string \<times> string) list" where
  "unwanted wanted table = concat (map (\<lambda>(cid, r).
     map (Pair cid) (filter (\<lambda>owner. starts_with owner ''archive:'' \<and> pin_key cid owner \<notin> set wanted) (map fst (mp_owners r)))) table)"

fun release_unwanted ::
  "(string \<Rightarrow> string option) \<Rightarrow> bool \<Rightarrow> (nat \<Rightarrow> kubo_env) \<Rightarrow> (string \<times> string) list \<Rightarrow> node_error option \<Rightarrow> (unit, pin_world) comp" where
  "release_unwanted cid_v1 allow envs [] failure = (case failure of None \<Rightarrow> ret () | Some e \<Rightarrow> throw e)"
| "release_unwanted cid_v1 allow envs ((cid, owner) # rest) failure =
     andThen (settled (release cid_v1 allow (envs 0) cid owner)) (\<lambda>outcome.
       release_unwanted cid_v1 allow (\<lambda>i. envs (Suc i)) rest (case (failure, outcome) of (None, Inl e) \<Rightarrow> Some e | _ \<Rightarrow> failure))"

definition release_archive ::
  "(string \<Rightarrow> string option) \<Rightarrow> (string \<Rightarrow> string) \<Rightarrow> archive_config \<Rightarrow> reconcile_env \<Rightarrow> pin_record list \<Rightarrow> (unit, pin_world) comp" where
  "release_archive cid_v1 sha config env desired =
     andThen (of_result (wanted_keys cid_v1 sha desired)) (\<lambda>wanted.
     andThen (reconcile cid_v1 (ac_allowUnpin config) (re_retry env) []) (\<lambda>_.
     andThen (reads pins_of) (\<lambda>s.
       release_unwanted cid_v1 (ac_allowUnpin config) (re_release env) (unwanted wanted (ms_managedPins s)) None)))"

definition reconcileDesiredPins ::
  "(string \<Rightarrow> string option) \<Rightarrow> (string \<Rightarrow> string) \<Rightarrow> archive_config \<Rightarrow> reconcile_env \<Rightarrow> (pin_attempt list, archive_world) comp" where
  "reconcileDesiredPins cid_v1 sha config env =
     andThen (reads (\<lambda>w. ar_desiredCids (archive_of w))) (\<lambda>desired.
     andThen (with_pins (reconcilePins cid_v1 sha (re_pin env) (ac_skipPinning config) (ac_apiBaseUrl config) (map item_of desired))) (\<lambda>results.
     andThen (transact aw_archive put_archive empty_public_archive (re_tx env) (record_attempts (re_now env) results)) (\<lambda>_.
     andThen (reads archive_of) (\<lambda>current.
     andThen (if may_release config current then with_pins (release_archive cid_v1 sha config env (ar_desiredCids current)) else ret ()) (\<lambda>_.
       ret results)))))"

section \<open>What the plan wants stays\<close>



lemma wp_kept: "I (snd (m w)) \<Longrightarrow> wp m (\<lambda>_. I) (\<lambda>_. I) w"
  by (auto simp: wp_def split: prod.split sum.split)







lemma record_attempts_keeps:
  "record_attempts now results s = Inr s' \<Longrightarrow> ar_desiredCids s' = ar_desiredCids s \<and> may_release config s' = may_release config s"
  by (auto simp: record_attempts_def may_release_def)

lemma wp_with_pins: "wp (with_pins m) Q R w = wp m (\<lambda>x v. Q x (w\<lparr>aw_pins := v\<rparr>)) (\<lambda>e v. R e (w\<lparr>aw_pins := v\<rparr>)) (aw_pins w)"
  by (simp add: wp_def with_pins_def split: prod.split sum.split)









section \<open>A record that blocks every release\<close>

lemma wanted_keys_fail: "r \<in> set rs \<Longrightarrow> canonicalPinCid cid_v1 (ps_cid r) = Inl e \<Longrightarrow> \<exists>e'. wanted_keys cid_v1 sha rs = Inl e'"
  by (induction rs) (auto simp: res_bind_def split: sum.split)

text \<open>\<^verbatim>\<open>reconcilePins\<close> accepts an identifier written as a URI, the computation of the wanted keys does not: with such a record in the plan
  a reconciliation that may release always throws, and it releases nothing, however many archive owners have become unwanted.\<close>

lemma unusable_record_blocks_release:
  assumes "synced p (aw_archive w)" and "writes_beside p (re_tx env)" and "may_release config (archive_of w)"
    and "r \<in> set (ar_desiredCids (archive_of w))" and "ps_cid r = ''ipfs://'' @ cid" and "cid_v1 (''ipfs://'' @ cid) = None"
    and "reconcileDesiredPins cid_v1 sha config env w = (res, w')"
  shows "(\<exists>e. res = Inl e) \<and> aw_pins w' = snd (reconcilePins cid_v1 sha (re_pin env) (ac_skipPinning config) (ac_apiBaseUrl config)
    (map item_of (ar_desiredCids (archive_of w))) (aw_pins w))"
proof -
  let ?items = "map item_of (ar_desiredCids (archive_of w))"
  let ?pins = "reconcilePins cid_v1 sha (re_pin env) (ac_skipPinning config) (ac_apiBaseUrl config) ?items"
  define V where "V = (\<lambda>v. v = snd (?pins (aw_pins w)))"
  have "\<exists>e. canonicalPinCid cid_v1 (ps_cid r) = Inl e" using assms(5, 6) by (simp add: canonicalPinCid_def)
  then obtain e where e: "wanted_keys cid_v1 sha (ar_desiredCids (archive_of w)) = Inl e" using wanted_keys_fail assms(4) by blast
  have rest: "wp (andThen (reads archive_of) (\<lambda>current. andThen (if may_release config current
        then with_pins (release_archive cid_v1 sha config env (ar_desiredCids current)) else ret ()) (\<lambda>_. ret results))) (\<lambda>_ _. False) (\<lambda>_ u. V (aw_pins u)) u"
    if "V (aw_pins u)" "ar_desiredCids (archive_of u) = ar_desiredCids (archive_of w)" "may_release config (archive_of u)" for u and results :: "pin_attempt list"
    using that by (simp add: wp_simps wp_with_pins release_archive_def e)
  have recorded: "wp (andThen (transact aw_archive put_archive empty_public_archive (re_tx env) (record_attempts (re_now env) results)) (\<lambda>_.
      andThen (reads archive_of) (\<lambda>current. andThen (if may_release config current
        then with_pins (release_archive cid_v1 sha config env (ar_desiredCids current)) else ret ()) (\<lambda>_. ret results)))) (\<lambda>_ _. False) (\<lambda>_ u. V (aw_pins u)) u"
    if "V (aw_pins u)" "aw_archive u = aw_archive w" for u results
    unfolding wp_andThen [of "transact _ _ _ _ _"]
    by (rule archive_store.wp_transact [where p = p])
       (use that assms(1-3) in \<open>auto dest!: record_attempts_keeps [OF sym] intro!: rest\<close>)
  have "wp ?pins (\<lambda>_. V) (\<lambda>_. V) (aw_pins w)" by (rule wp_kept) (simp add: V_def)
  then have "wp (reconcileDesiredPins cid_v1 sha config env) (\<lambda>_ _. False) (\<lambda>_ u. V (aw_pins u)) w"
    unfolding reconcileDesiredPins_def wp_andThen [of "reads _"] wp_basic wp_andThen [of "with_pins _"] wp_with_pins
    by (rule wp_mono) (auto intro!: recorded)
  then show ?thesis using assms(7) by (cases res) (auto dest: wp_result simp: V_def)
qed

end
