(* ===== verification/Spec2Isabelle.thy ===== *)
theory Spec2Isabelle
  imports Http_Adapter Channel_Server Managed_Pins Participation_Gate Capture_Safety Runtime_Lease Compute_Requester Log_Buffer Commitments
begin

text \<open>
  Verification of the kubus node, a TypeScript service that keeps a share of a public archive in a
  local IPFS daemon (Kubo), accepts private captures from paired phones, and turns them into spatial
  models with a worker. All paths below are under \<^verbatim>\<open>src/src/\<close>.

  \<^bold>\<open>The parts and how they interact.\<close> A client reaches the Local API over HTTP
  (\<^verbatim>\<open>localApi/httpAdapter.ts\<close>) or over a WebRTC data channel (\<^verbatim>\<open>webrtc/frameCodec.ts\<close>,
  \<^verbatim>\<open>webrtc/channelServer.ts\<close>); both build the transport-neutral request of \<^verbatim>\<open>localApi/localRequest.ts\<close>
  and hand it to \<^verbatim>\<open>localApi/dispatch.ts\<close>, which authenticates it with the pairing service
  (\<^verbatim>\<open>localApi/pairingService.ts\<close>), limits it, makes retried mutations safe
  (\<^verbatim>\<open>localApi/idempotencyStore.ts\<close>) and calls the services: the capture store
  (\<^verbatim>\<open>captures/\<close>), the job runtime (\<^verbatim>\<open>jobs/\<close>), the identity (\<^verbatim>\<open>identity/\<close>). Jobs import their
  results into Kubo through the managed pins (\<^verbatim>\<open>ipfs/managedPins.ts\<close>), which the public archive
  (\<^verbatim>\<open>operator/commitments.ts\<close>, \<^verbatim>\<open>ipfs/pinning.ts\<close>) uses too: it plans what to pin out of the backend's canonical
  set, pins it and promises its availability (\<^verbatim>\<open>ipfs/retrieval.ts\<close>); remote work is admitted by the participation gate
  (\<^verbatim>\<open>participation/\<close>). A node may reconstruct captures for others: it polls the backend for jobs
  (\<^verbatim>\<open>compute/remoteComputeRuntime.ts\<close>), unpacks their encrypted input
  (\<^verbatim>\<open>compute/privatePayloadTransport.ts\<close>), runs them as local jobs and removes every readable trace of them
  (\<^verbatim>\<open>compute/providerCleanup.ts\<close>). One process at a time writes the state (\<^verbatim>\<open>runtime/runtimeLease.ts\<close>); loops
  with backoff drive the repeated work (\<^verbatim>\<open>scheduler/\<close>). Every durable change is a transaction of one JSON file
  (\<^verbatim>\<open>state/localStore.ts\<close>).

  \<^bold>\<open>Theories, from the bottom up.\<close>

  \<^item> \<open>Node_Prelude\<close>: results with errors, JavaScript maps as insertion-ordered association lists,
    strings, and the automation of the other theories. \<open>Json_Text\<close>: JSON values, \<^verbatim>\<open>JSON.stringify\<close> and
    \<^verbatim>\<open>JSON.parse\<close> with their round trip, and the coercions the code uses. \<open>Base64\<close>: the encodings of keys.
  \<^item> \<open>Frame_Codec\<close> (\<^verbatim>\<open>webrtc/frameCodec.ts\<close>): frames, the table-driven CRC against its bitwise definition,
    splitting and reassembly of messages; round trips, bounds and memory limits.
  \<^item> \<open>Local_Request\<close>, \<open>Idempotency_Store\<close>, \<open>Rate_Limiters\<close>: request shapes, the claims on idempotency
    keys, the limiters of pairing attempts and of admissions.
  \<^item> \<open>Local_Store\<close> (\<^verbatim>\<open>state/localStore.ts\<close>): transactions over a file system that may fail or crash at
    every call; they are serialisable and a crash leaves the old or the new state. The locale of a
    transactional store is interpreted on the model. \<open>Step_Monad\<close>: asynchronous methods as functions from
    a world to a result and a world, their weakest preconditions, and the locale \<open>store_in_world\<close> for a
    transaction on the store that is a part of a larger world; each component interprets it on its
    own world.
  \<^item> \<open>Pairing_Service\<close>, \<open>Node_Identity\<close>, \<open>Content_Id\<close>: pairing sessions and credentials; the identity
    proof and the mint-once protocol between processes; canonical content identifiers.
  \<^item> \<open>Local_Api_Routes\<close>, \<open>Local_Api_Dispatch\<close>, \<open>Http_Adapter\<close>, \<open>Channel_Server\<close>: the route table with
    its scopes, the dispatcher, the two transports. The services behind the routes are one parameter
    over an abstract world.
  \<^item> \<open>Managed_Pins\<close> (\<^verbatim>\<open>ipfs/managedPins.ts\<close>, \<^verbatim>\<open>ipfs/pinning.ts\<close>): who owns a pin, and a log of what Kubo
    was asked. The safety properties go over arbitrary sequences of operations with arbitrary failures.
    \<open>Pin_Holding\<close>: what the components that pin rely on; the locale \<open>table_invariant\<close> proves once that every
    operation keeps an invariant of the table of pins, and is interpreted on its form and on its canonical keys.
  \<^item> \<open>Archive_Sync\<close>, \<open>Archive_Pins\<close>, \<open>Commitments\<close> (\<^verbatim>\<open>operator/commitments.ts\<close>, \<^verbatim>\<open>ipfs/retrieval.ts\<close>): the greedy
    plan of the archive and its synchronization page by page; the reconciliation of pins with the plan; the
    retrieval probe and the availability commitments.
  \<^item> \<open>Participation_Gate\<close> (\<^verbatim>\<open>participation/networkParticipationGate.ts\<close>): requirements, lease and grace
    period.
  \<^item> \<open>Capture_Package\<close>, \<open>Capture_Store\<close>, \<open>Capture_Safety\<close> (\<^verbatim>\<open>captures/\<close>): the integrity check against a
    declarative description of a complete package; uploads, drafts, commits and the sweep; the
    invariant \<open>captures_ok\<close> over the reachable states of the inductive \<open>capture_reachable\<close>.
  \<^item> \<open>Job_Cleanup\<close>, \<open>Job_Runtime\<close>, \<open>Job_Lifecycle\<close> (\<^verbatim>\<open>jobs/\<close>): the journal of working directories; the
    run of a job as a program counter with \<open>segment\<close> as the code between two waits; the step relation
    \<open>runtime_step\<close> of all interleavings, its invariant \<open>runtime_ok\<close>, and the dispatch loop as a partial
    function.
  \<^item> \<open>Runtime_Lease\<close> (\<^verbatim>\<open>runtime/runtimeLease.ts\<close>): processes that acquire, reclaim and release the lease,
    interleaved at every call to the file system and crashing anywhere; at most one live holder, under a
    condition that the code does not enforce.
  \<^item> \<open>Scheduling\<close> (\<^verbatim>\<open>scheduler/\<close>, \<^verbatim>\<open>runtime/actionLock.ts\<close>, \<^verbatim>\<open>runtime/networkStartup.ts\<close>): backoff, jitter, the
    action lock, the resilient loop and the recovery of a failed start.
  \<^item> \<open>Private_Payload\<close> (\<^verbatim>\<open>compute/privatePayloadTransport.ts\<close>): sealing and unpacking of captures, with the
    round trip and the confinement of what is unpacked; the cryptography is a parameter with its laws.
  \<^item> \<open>Provider_Cleanup\<close> (\<^verbatim>\<open>compute/providerCleanup.ts\<close>): preparations and releases of remote jobs as tasks between
    their waits, the step relation \<open>provider_step\<close> and its invariant \<open>provider_inv\<close>.
  \<^item> \<open>Compute_Polling\<close>, \<open>Compute_Jobs\<close> (\<^verbatim>\<open>compute/remoteComputeRuntime.ts\<close>, \<^verbatim>\<open>compute/providerSettings.ts\<close>,
    \<^verbatim>\<open>compute/credentialFingerprint.ts\<close>): the polling loop and the verdict that stops it; the handling of a
    job, which refines \<open>provider_step\<close> through the locale \<open>handler_relation\<close>. \<open>Compute_Requester\<close>: the side that
    asks for a reconstruction, from the encryption of a capture to the retrieval of its output and the release
    of its input, with other components' operations on pins between any two of its waits.
  \<^item> \<open>Log_Buffer\<close> (\<^verbatim>\<open>logging/logBuffer.ts\<close>, \<^verbatim>\<open>logging/logger.ts\<close>): the redaction patterns as matchers on strings, the
    buffer, and the hook that feeds it.

  \<^bold>\<open>How state and effects are modelled.\<close> A class is a record of its fields; what the code keeps in the
  state file is the value of a \<open>store\<close>. Errors are values of \<open>node_error\<close>. Whether a system call, a daemon
  or another program succeeds, the time and new random identifiers are inputs, so a theorem that does
  not restrict them holds for every behaviour of the surroundings. A method that waits keeps what it did
  before the wait when the awaited call throws. Where the code serialises operations with a promise
  chain (the write chain of the store, the lock of a pin, of a draft, of the commits), the model runs
  them one after the other; where it does not (runs of jobs, the identity of several processes, the
  requests of a channel, a sweep beside uploads) the interleavings are explicit.

  \<^bold>\<open>Bounds and fuel.\<close> The JSON parser recurses on fuel twice the length of the text, which its round trip
  shows to be enough for every printed value. Sizes of frames, messages and captures are naturals or
  integers with the limits of the code as definitions; the CRC and the header fields of frames are
  machine words. The loops over lists are structural. \<open>dispatch_loop\<close> is the only loop that may not
  end: it is a \<open>partial_function\<close>, shown to return for one job at a time and not to return for more.

  \<^bold>\<open>What the groups of theorems show.\<close> Access: no route acts without a credential of the right scope; before the
  handshake a channel serves only the two requests of the pairing protocol; sessions are exchanged once; revocation is final.
  Exactly-once: a retried mutation is applied once, as long as its key is retained. Durability: transactions, crash safety, identity
  minted once. Resource bounds: frames, channels, limiters, drafts; a limit of the provider that was set is in range. Custody: foreign and owned
  pins are never removed, stored captures keep their directories but for a deletion that was cut short, commits are complete packages, working
  directories go only after the worker has stopped. Liveness: a created pin is removed by its last
  release, an accepted heartbeat opens the gate, dispatch returns, the lease of an owner that can be seen to have stopped is recovered, polling never
  stalls. Remote compute: what was cleaned stays clean and the input's pin goes last, jobs are accepted only
  within the limits, a refused credential is not used again, unpacking is confined; a requester's input is held
  from before its submission until its job is over, and an output is recorded only in full. Archive: the plan is
  maximal within its limits, what is stored under a generation is one set the server had, and no other set authorizes a removal, pins that are still
  wanted stay, and only what is pinned and retrievable is promised, unless pinning is switched off. Logging: no token reaches the buffer or the
  transport in a string value; keys of objects and headers joined from two arguments are not covered.

  \<^bold>\<open>Not modelled.\<close> The graphical interface and its assets, the command line, the installer,
  configuration and analytics; the HTTP clients of Kubo and of the backend; the operator's heartbeat,
  registration and rewards, and the signalling client; the spatial dataset conversion, which is floating-point geometry; the worker, which is
  another program. Cryptographic primitives and the CID library are parameters. Log and analytics calls
  inside modelled methods are left out.
\<close>

end
